(* ===== verification/Prelude.thy ===== *)
theory Prelude
  imports Main "HOL-Library.Char_ord" "HOL-Library.List_Lexorder" "HOL-Library.Product_Lexorder"
    "HOL-Library.Monad_Syntax"
begin

text \<open>
  Shared vocabulary of the development: the widths of the machine integers the token layer
  computes with, the associative containers of the C++ standard library it stores its state in,
  and the meaning of a failed \<^verbatim>\<open>assert\<close>.

  \<^item> \<^bold>\<open>Integers.\<close> A C++ integer of width \<open>w\<close> is an \<^typ>\<open>int\<close> (amounts) or a \<^typ>\<open>nat\<close>
    (identifiers), and every place where the source may leave the range of its type applies
    \<open>u64\<close>, \<open>s64\<close> or \<open>u256\<close>, which reduce modulo \<open>2 ^ w\<close> into the range of that type.
  \<^item> \<^bold>\<open>Containers.\<close> \<^verbatim>\<open>std::map\<close> is an association list with strictly ascending keys
    (\<open>smap_ok\<close>), so that iteration in key order is list order; \<^verbatim>\<open>std::unordered_map\<close> is an
    association list with distinct keys (\<open>umap_ok\<close>), whose order stands for the unspecified
    iteration order. Both are interpretations of the interface \<open>kv_store\<close>, in which
    the facts the clients need (lookup after update, sums over all entries) are proved once.
  \<^item> \<^bold>\<open>Assertions.\<close> The sources are built with assertions enabled and rely on
    them; a failed \<^verbatim>\<open>assert\<close> ends the process. Operations that can fail in this way return
    an \<open>option\<close>, and \<open>None\<close> means that the process has stopped.
\<close>

type_synonym property_id = nat

abbreviation TOKEN_PROPERTY_RPD :: property_id where "TOKEN_PROPERTY_RPD \<equiv> 0"
abbreviation TOKEN_PROPERTY_MSC :: property_id where "TOKEN_PROPERTY_MSC \<equiv> 1"
abbreviation TOKEN_PROPERTY_TMSC :: property_id where "TOKEN_PROPERTY_TMSC \<equiv> 2"
abbreviation TEST_ECO_PROPERTY_1 :: property_id where "TEST_ECO_PROPERTY_1 \<equiv> 2147483651"

subsection \<open>Machine integers\<close>

definition s64 :: "int \<Rightarrow> int" where
  "s64 x = (x + 2 ^ 63) mod 2 ^ 64 - 2 ^ 63"

definition u64 :: "int \<Rightarrow> int" where
  "u64 x = x mod 2 ^ 64"

text \<open>C++ integer division truncates towards zero.\<close>

definition sdiv64 :: "int \<Rightarrow> int \<Rightarrow> int" where
  "sdiv64 a b = sgn a * sgn b * (\<bar>a\<bar> div \<bar>b\<bar>)"

definition u256 :: "int \<Rightarrow> int" where
  "u256 x = x mod 2 ^ 256"

abbreviation MAX_INT64 :: int where
  "MAX_INT64 \<equiv> 9223372036854775807"

abbreviation MIN_INT64 :: int where
  "MIN_INT64 \<equiv> - 9223372036854775808"

named_theorems wrap \<open>machine integer conversions that are the identity in range\<close>

lemma s64_id [wrap]: "MIN_INT64 \<le> x \<Longrightarrow> x \<le> MAX_INT64 \<Longrightarrow> s64 x = x"
  by (simp add: s64_def)

lemma s64_lower: "MIN_INT64 \<le> s64 x"
  by (simp add: s64_def)

lemma s64_upper: "s64 x \<le> MAX_INT64"
proof -
  have "(x + 2 ^ 63) mod 2 ^ 64 < (2::int) ^ 64" by (rule pos_mod_bound) simp
  then show ?thesis by (simp add: s64_def)
qed

lemma u64_id [wrap]: "0 \<le> x \<Longrightarrow> x < 2 ^ 64 \<Longrightarrow> u64 x = x"
  by (simp add: u64_def)

lemma u64_nonneg [simp]: "0 \<le> u64 x"
  by (simp add: u64_def)

lemma u64_less [simp]: "u64 x < 18446744073709551616"
proof -
  have "x mod 2 ^ 64 < (2::int) ^ 64" by (rule pos_mod_bound) simp
  then show ?thesis by (simp add: u64_def)
qed

lemma u64_u64_add [simp]: "u64 (u64 x + y) = u64 (x + y)" "u64 (x + u64 y) = u64 (x + y)"
  by (simp_all add: u64_def mod_simps)

lemma s64_u64 [simp]: "s64 (u64 x) = s64 x"
  by (simp add: s64_def u64_def mod_simps)

lemma u256_id [wrap]: "0 \<le> x \<Longrightarrow> x < 2 ^ 256 \<Longrightarrow> u256 x = x"
  unfolding u256_def by (rule mod_pos_pos_trivial)

subsection \<open>Interface of the associative containers\<close>

text \<open>
  What a client of \<^verbatim>\<open>std::map\<close> or \<^verbatim>\<open>std::unordered_map\<close> relies on: lookups after
  \<^verbatim>\<open>m[k] = v\<close> and after \<^verbatim>\<open>m.erase(k)\<close>, and that every key occurs once.
\<close>

locale kv_store =
  fixes kv_ok :: "('k \<times> 'v) list \<Rightarrow> bool"
    and upd :: "'k \<Rightarrow> 'v \<Rightarrow> ('k \<times> 'v) list \<Rightarrow> ('k \<times> 'v) list"
    and del :: "'k \<Rightarrow> ('k \<times> 'v) list \<Rightarrow> ('k \<times> 'v) list"
  assumes ok_distinct: "kv_ok m \<Longrightarrow> distinct (map fst m)"
    and ok_empty: "kv_ok []"
    and ok_upd: "kv_ok m \<Longrightarrow> kv_ok (upd k v m)"
    and ok_del: "kv_ok m \<Longrightarrow> kv_ok (del k m)"
    and lookup_upd: "map_of (upd k v m) = (map_of m)(k \<mapsto> v)"
    and lookup_del: "kv_ok m \<Longrightarrow> map_of (del k m) = (map_of m)(k := None)"
begin

lemma sum_entries:
  fixes f :: "'k \<Rightarrow> 'v \<Rightarrow> int"
  assumes "kv_ok m"
  shows "(\<Sum>(k, v)\<leftarrow>m. f k v) = (\<Sum>k\<in>dom (map_of m). f k (the (map_of m k)))"
proof -
  have d: "distinct (map fst m)" using assms by (rule ok_distinct)
  then have dm: "distinct m" by (simp add: distinct_map)
  have inj: "inj_on fst (set m)" using d by (simp add: distinct_map)
  have "(\<Sum>(k, v)\<leftarrow>m. f k v) = (\<Sum>(k, v)\<in>set m. f k v)"
    using dm by (simp add: sum_list_distinct_conv_sum_set)
  also have "\<dots> = (\<Sum>e\<in>set m. f (fst e) (the (map_of m (fst e))))"
    using d by (intro sum.cong) (auto simp: map_of_is_SomeI)
  also have "\<dots> = (\<Sum>k\<in>fst ` set m. f k (the (map_of m k)))"
    using inj by (simp add: sum.reindex)
  finally show ?thesis by (simp add: dom_map_of_conv_image_fst)
qed

lemma sum_upd:
  fixes f :: "'k \<Rightarrow> 'v \<Rightarrow> int"
  assumes "kv_ok m"
  shows "(\<Sum>(k, v)\<leftarrow>upd a x m. f k v) =
    (\<Sum>(k, v)\<leftarrow>m. f k v) - (case map_of m a of None \<Rightarrow> 0 | Some v \<Rightarrow> f a v) + f a x"
proof -
  let ?g = "\<lambda>M k. f k (the (M k))"
  have fin: "finite (dom (map_of m))" by (rule finite_dom_map_of)
  have "(\<Sum>(k, v)\<leftarrow>upd a x m. f k v) = sum (?g (map_of (upd a x m))) (insert a (dom (map_of m)))"
    using sum_entries [OF ok_upd [OF assms], of f a x] by (simp add: lookup_upd)
  also have "\<dots> = f a x + sum (?g (map_of (upd a x m))) (dom (map_of m) - {a})"
    using fin by (simp add: sum.insert_remove lookup_upd)
  also have "sum (?g (map_of (upd a x m))) (dom (map_of m) - {a})
      = sum (?g (map_of m)) (dom (map_of m) - {a})"
    by (rule sum.cong) (auto simp: lookup_upd)
  also have "\<dots> = sum (?g (map_of m)) (dom (map_of m))
      - (case map_of m a of None \<Rightarrow> 0 | Some v \<Rightarrow> f a v)"
  proof (cases "map_of m a")
    case None
    then have "dom (map_of m) - {a} = dom (map_of m)" by auto
    with None show ?thesis by simp
  next
    case (Some v)
    then have "a \<in> dom (map_of m)" by auto
    with Some show ?thesis using fin by (simp add: sum_diff1)
  qed
  finally show ?thesis using sum_entries [OF assms, of f] by simp
qed

lemma sum_del:
  fixes f :: "'k \<Rightarrow> 'v \<Rightarrow> int"
  assumes "kv_ok m"
  shows "(\<Sum>(k, v)\<leftarrow>del a m. f k v) = (\<Sum>(k, v)\<leftarrow>m. f k v) - (case map_of m a of None \<Rightarrow> 0 | Some v \<Rightarrow> f a v)"
proof -
  let ?g = "\<lambda>M k. f k (the (M k))"
  have fin: "finite (dom (map_of m))" by (rule finite_dom_map_of)
  have "(\<Sum>(k, v)\<leftarrow>del a m. f k v) = sum (?g (map_of (del a m))) (dom (map_of m) - {a})"
    using sum_entries [OF ok_del [OF assms], of f a] by (simp add: lookup_del [OF assms])
  also have "\<dots> = sum (?g (map_of m)) (dom (map_of m) - {a})"
    by (rule sum.cong) (auto simp: lookup_del [OF assms])
  also have "\<dots> = sum (?g (map_of m)) (dom (map_of m)) - (case map_of m a of None \<Rightarrow> 0 | Some v \<Rightarrow> f a v)"
    using fin by (cases "map_of m a") (auto simp: sum_diff1)
  finally show ?thesis using sum_entries [OF assms, of f] by simp
qed

lemma member_lookup: "kv_ok m \<Longrightarrow> (k, v) \<in> set m \<longleftrightarrow> map_of m k = Some v"
  using ok_distinct by (simp add: map_of_eq_Some_iff)

lemma member_upd:
  assumes "kv_ok m"
  shows "(k, v) \<in> set (upd a x m) \<longleftrightarrow> (if k = a then v = x else (k, v) \<in> set m)"
  using assms by (auto simp: member_lookup ok_upd lookup_upd)

end

subsection \<open>std::map\<close>

fun smap_upd :: "'k::linorder \<Rightarrow> 'v \<Rightarrow> ('k \<times> 'v) list \<Rightarrow> ('k \<times> 'v) list" where
  "smap_upd k v [] = [(k, v)]"
| "smap_upd k v ((a, b) # m) =
     (if k < a then (k, v) # (a, b) # m
      else if k = a then (k, v) # m
      else (a, b) # smap_upd k v m)"

definition smap_del :: "'k \<Rightarrow> ('k \<times> 'v) list \<Rightarrow> ('k \<times> 'v) list" where
  "smap_del k m = filter (\<lambda>e. fst e \<noteq> k) m"

definition smap_ok :: "('k::linorder \<times> 'v) list \<Rightarrow> bool" where
  "smap_ok m \<longleftrightarrow> sorted_wrt (<) (map fst m)"

lemma set_smap_upd: "fst ` set (smap_upd k v m) = insert k (fst ` set m)"
  by (induction k v m rule: smap_upd.induct) auto

lemma smap_ok_upd: "smap_ok m \<Longrightarrow> smap_ok (smap_upd k v m)"
proof (induction k v m rule: smap_upd.induct)
  case (1 k v)
  then show ?case by (simp add: smap_ok_def)
next
  case (2 k v a b m)
  from "2.prems" have m: "smap_ok m" and less: "\<forall>y \<in> fst ` set m. a < y"
    by (auto simp: smap_ok_def)
  show ?case
  proof (cases "k < a \<or> k = a")
    case True
    with "2.prems" show ?thesis by (auto simp: smap_ok_def)
  next
    case False
    with "2.IH" m have "smap_ok (smap_upd k v m)" by auto
    moreover have "\<forall>y \<in> fst ` set (smap_upd k v m). a < y"
      using less False by (auto simp: set_smap_upd)
    ultimately show ?thesis using False by (auto simp: smap_ok_def)
  qed
qed

lemma map_of_smap_upd: "map_of (smap_upd k v m) = (map_of m)(k \<mapsto> v)"
  by (induction k v m rule: smap_upd.induct) (auto simp: fun_eq_iff)

lemma map_of_filter_neq: "map_of (filter (\<lambda>e. fst e \<noteq> k) m) = (map_of m)(k := None)"
  by (induction m) (auto simp: fun_eq_iff)

lemma smap_ok_distinct: "smap_ok m \<Longrightarrow> distinct (map fst m)"
  by (simp add: smap_ok_def strict_sorted_iff)

lemma smap_ok_filter: "smap_ok m \<Longrightarrow> smap_ok (filter P m)"
  by (induction m) (auto simp: smap_ok_def)

interpretation smap: kv_store smap_ok smap_upd smap_del
  by unfold_locales
    (simp_all add: smap_ok_distinct smap_ok_upd map_of_smap_upd smap_del_def
      map_of_filter_neq smap_ok_filter, simp add: smap_ok_def)

text \<open>A \<^verbatim>\<open>std::map\<close> is determined by its lookups: the same entries give the same list.\<close>

lemma smap_eqI:
  assumes "smap_ok m" and "smap_ok n" and "map_of m = map_of n"
  shows "m = n"
proof (rule map_sorted_distinct_set_unique [where f = fst])
  have mem: "(k, v) \<in> set m \<longleftrightarrow> (k, v) \<in> set n" for k v
    using smap.member_lookup [OF assms(1)] smap.member_lookup [OF assms(2)] assms(3) by metis
  then show eq: "set m = set n" by auto
  show "inj_on fst (set m \<union> set n)"
    using smap_ok_distinct [OF assms(2)] eq by (simp add: distinct_map)
  show "sorted (map fst m)" "sorted (map fst n)" "distinct (map fst m)" "distinct (map fst n)"
    using assms(1,2) by (simp_all add: smap_ok_def strict_sorted_iff)
qed

subsection \<open>std::unordered\_map\<close>

fun umap_upd :: "'k \<Rightarrow> 'v \<Rightarrow> ('k \<times> 'v) list \<Rightarrow> ('k \<times> 'v) list" where
  "umap_upd k v [] = [(k, v)]"
| "umap_upd k v ((a, b) # m) = (if k = a then (k, v) # m else (a, b) # umap_upd k v m)"

definition umap_ok :: "('k \<times> 'v) list \<Rightarrow> bool" where
  "umap_ok m \<longleftrightarrow> distinct (map fst m)"

lemma set_umap_upd: "fst ` set (umap_upd k v m) = insert k (fst ` set m)"
  by (induction k v m rule: umap_upd.induct) auto

lemma umap_ok_upd: "umap_ok m \<Longrightarrow> umap_ok (umap_upd k v m)"
proof (induction k v m rule: umap_upd.induct)
  case (2 k v a b m)
  then show ?case using set_umap_upd [of k v m] by (auto simp: umap_ok_def)
qed (simp add: umap_ok_def)

lemma map_of_umap_upd: "map_of (umap_upd k v m) = (map_of m)(k \<mapsto> v)"
  by (induction k v m rule: umap_upd.induct) (auto simp: fun_eq_iff)

lemma umap_ok_filter: "umap_ok m \<Longrightarrow> umap_ok (filter P m)"
  by (simp add: umap_ok_def distinct_map_filter)

interpretation umap: kv_store umap_ok umap_upd smap_del
  by unfold_locales
    (simp_all add: umap_ok_upd map_of_umap_upd smap_del_def map_of_filter_neq umap_ok_filter,
      simp_all add: umap_ok_def)

subsection \<open>std::set\<close>

fun sset_insert :: "'a::linorder \<Rightarrow> 'a list \<Rightarrow> 'a list" where
  "sset_insert x [] = [x]"
| "sset_insert x (y # ys) =
     (if x < y then x # y # ys else if x = y then y # ys else y # sset_insert x ys)"

definition sset_erase :: "'a \<Rightarrow> 'a list \<Rightarrow> 'a list" where
  "sset_erase x xs = filter (\<lambda>y. y \<noteq> x) xs"

definition sset_ok :: "'a::linorder list \<Rightarrow> bool" where
  "sset_ok xs \<longleftrightarrow> sorted_wrt (<) xs"

lemma set_sset_insert [simp]: "set (sset_insert x xs) = insert x (set xs)"
  by (induction x xs rule: sset_insert.induct) auto

lemma set_sset_erase [simp]: "set (sset_erase x xs) = set xs - {x}"
  by (auto simp: sset_erase_def)

lemma sset_ok_insert: "sset_ok xs \<Longrightarrow> sset_ok (sset_insert x xs)"
proof (induction x xs rule: sset_insert.induct)
  case (2 x y ys)
  consider "x < y" | "x = y" | "y < x" by (rule linorder_cases)
  then show ?case
    using 2 by cases (auto simp: sset_ok_def)
qed (simp add: sset_ok_def)

lemma sset_ok_filter: "sset_ok xs \<Longrightarrow> sset_ok (filter P xs)"
  by (induction xs) (auto simp: sset_ok_def)

lemma sset_ok_erase: "sset_ok xs \<Longrightarrow> sset_ok (sset_erase x xs)"
  by (simp add: sset_erase_def sset_ok_filter)

subsection \<open>std::set with a comparator\<close>

text \<open>
  \<^verbatim>\<open>std::set<T, Compare>\<close>: a list that ascends in a comparator; an element that is equivalent
  to one already present is not inserted. The interface \<open>cmp_set\<close> asks for the strict weak order
  the standard requires of a comparator; \<open>cmp_total_set\<close> adds that only equal elements are
  equivalent, which makes the list a function of its set of elements.
\<close>

fun set_insert_by :: "('a \<Rightarrow> 'a \<Rightarrow> bool) \<Rightarrow> 'a \<Rightarrow> 'a list \<Rightarrow> 'a list" where
  "set_insert_by lt x [] = [x]"
| "set_insert_by lt x (y # ys) =
     (if lt x y then x # y # ys
      else if lt y x then y # set_insert_by lt x ys
      else y # ys)"

lemma set_insert_by_subset: "set (set_insert_by lt x xs) \<subseteq> insert x (set xs)"
  by (induction xs) auto

locale cmp_set =
  fixes lt :: "'a \<Rightarrow> 'a \<Rightarrow> bool"
  assumes lt_irrefl: "\<not> lt x x"
    and lt_trans: "lt x y \<Longrightarrow> lt y z \<Longrightarrow> lt x z"
    and lt_weak: "lt x z \<Longrightarrow> lt x y \<or> lt y z"
begin

lemma sorted_insert: "sorted_wrt lt xs \<Longrightarrow> sorted_wrt lt (set_insert_by lt x xs)"
proof (induction xs)
  case (Cons y ys)
  have "\<forall>z \<in> set (set_insert_by lt x ys). lt y z" if "lt y x"
    using that Cons.prems set_insert_by_subset [of lt x ys] by auto
  moreover have "\<forall>z \<in> set ys. lt x z" if "lt x y"
    using that Cons.prems lt_trans by auto
  ultimately show ?case using Cons by simp
qed simp

lemma sorted_distinct: "sorted_wrt lt xs \<Longrightarrow> distinct xs"
  by (induction xs) (auto simp: lt_irrefl)

lemma set_insert_new:
  assumes "sorted_wrt lt xs" and "\<forall>y \<in> set xs. lt x y \<or> lt y x"
  shows "set (set_insert_by lt x xs) = insert x (set xs)"
  using assms by (induction xs) (auto)

end

locale cmp_total_set = cmp_set +
  assumes lt_total: "x \<noteq> y \<Longrightarrow> lt x y \<or> lt y x"
begin

lemma set_insert: "set (set_insert_by lt x xs) = insert x (set xs)"
proof (induction xs)
  case (Cons y ys)
  then show ?case using lt_total [of x y] by auto
qed simp

lemma sum_insert:
  fixes f :: "'a \<Rightarrow> int"
  assumes "x \<notin> set xs"
  shows "sum_list (map f (set_insert_by lt x xs)) = f x + sum_list (map f xs)"
  using assms
proof (induction xs)
  case (Cons y ys)
  then show ?case using lt_total [of x y] by auto
qed simp

lemma sorted_unique:
  assumes "sorted_wrt lt xs" and "sorted_wrt lt ys" and "set xs = set ys"
  shows "xs = ys"
  using assms
proof (induction xs arbitrary: ys)
  case (Cons x xs)
  then obtain y ys' where ys: "ys = y # ys'" by (cases ys) auto
  have eq: "x = y"
  proof (rule ccontr)
    assume "x \<noteq> y"
    with Cons.prems ys have "lt x y" "lt y x" by auto
    then show False using lt_trans lt_irrefl by blast
  qed
  have "x \<notin> set xs" "y \<notin> set ys'" using Cons.prems(1,2) ys lt_irrefl by auto
  then have "set xs = set ys'" using Cons.prems(3) ys eq by auto
  with Cons.IH Cons.prems ys eq show ?case by simp
qed simp

end

end
