(* ===== verification/Arith256.thy ===== *)
theory Arith256
  imports Prelude
begin

text \<open>
  Calculations on 256-bit unsigned integers: the operators of \<^verbatim>\<open>arith_uint256\<close>
  (\<^verbatim>\<open>src/src/arith_uint256.{h,cpp}\<close>) at the level of the values they compute, and the
  conversions of \<^verbatim>\<open>src/src/tokencore/uint256_extensions.h\<close>.

  Sums, differences and products are reduced modulo \<open>2 ^ 256\<close>; a division by zero throws
  \<^verbatim>\<open>uint_error\<close>, which no caller in the token layer catches, and the conversions assert their range,
  so these return \<open>None\<close>. The lemmas give the value of every operation when the operands are in
  range: what the callers compute are exact integer products and quotients.
\<close>

definition add256 :: "int \<Rightarrow> int \<Rightarrow> int" where "add256 a b = u256 (a + b)"
definition sub256 :: "int \<Rightarrow> int \<Rightarrow> int" where "sub256 a b = u256 (a - b)"
definition mul256 :: "int \<Rightarrow> int \<Rightarrow> int" where "mul256 a b = u256 (a * b)"

definition div256 :: "int \<Rightarrow> int \<Rightarrow> int option" where
  "div256 a b = (if b = 0 then None else Some (a div b))"

definition Modulo256 :: "int \<Rightarrow> int \<Rightarrow> int option" where
  "Modulo256 a n = do { q \<leftarrow> div256 a n; Some (sub256 a (mul256 n q)) }"

definition ConvertTo256 :: "int \<Rightarrow> int option" where
  "ConvertTo256 number = (if number \<ge> 0 then Some (u64 number) else None)"

definition ConvertTo64 :: "int \<Rightarrow> int option" where
  "ConvertTo64 number = (if number \<le> MAX_INT64 then Some (s64 (u64 number)) else None)"

definition DivideAndRoundUp :: "int \<Rightarrow> int \<Rightarrow> int option" where
  "DivideAndRoundUp numerator denominator =
     (if numerator = 0 then Some 0
      else do { q \<leftarrow> div256 (sub256 numerator 1) denominator; Some (add256 1 q) })"

subsection \<open>Reference: the ceiling of a quotient\<close>

definition cdiv :: "int \<Rightarrow> int \<Rightarrow> int" where
  "cdiv n d = - ((- n) div d)"

lemma cdiv_bounds:
  assumes "0 < d"
  shows "n \<le> cdiv n d * d" and "(cdiv n d - 1) * d < n"
proof -
  have "- n = d * ((- n) div d) + (- n) mod d" by (simp only: mult_div_mod_eq)
  moreover have "0 \<le> (- n) mod d" "(- n) mod d < d" using assms by simp_all
  moreover have "cdiv n d * d = - (d * ((- n) div d))" by (simp add: cdiv_def)
  ultimately show "n \<le> cdiv n d * d" and "(cdiv n d - 1) * d < n"
    unfolding left_diff_distrib mult_1 by linarith+
qed

lemma cdiv_unique:
  assumes "0 < d" and "n \<le> r * d" and "(r - 1) * d < n"
  shows "cdiv n d = r"
proof -
  have "(r - 1) * d < cdiv n d * d" using assms(3) cdiv_bounds(1) [OF assms(1), of n] by linarith
  then have "r - 1 < cdiv n d" using assms(1) by (simp add: mult_less_cancel_right)
  moreover have "(cdiv n d - 1) * d < r * d" using assms(2) cdiv_bounds(2) [OF assms(1), of n] by linarith
  then have "cdiv n d - 1 < r" using assms(1) by (simp add: mult_less_cancel_right)
  ultimately show ?thesis by linarith
qed

lemma cdiv_0 [simp]: "cdiv 0 d = 0"
  by (simp add: cdiv_def)

lemma cdiv_nonneg: "0 \<le> n \<Longrightarrow> 0 < d \<Longrightarrow> 0 \<le> cdiv n d"
  by (simp add: cdiv_def) (meson div_neg_pos_less0 div_nonpos_pos_le0 neg_le_0_iff_le)

lemma cdiv_pos: "0 < n \<Longrightarrow> 0 < d \<Longrightarrow> 0 < cdiv n d"
  using cdiv_bounds(1) [of d n] by (smt (verit) mult_nonpos_nonneg)

lemma cdiv_le:
  assumes "0 < d" and "n \<le> r * d"
  shows "cdiv n d \<le> r"
proof -
  have "(cdiv n d - 1) * d < r * d" using cdiv_bounds(2) [OF assms(1), of n] assms(2) by linarith
  then show ?thesis using assms(1) by (simp add: mult_less_cancel_right)
qed

subsection \<open>Values in range\<close>

lemma zdiv_le_self: "0 \<le> a \<Longrightarrow> 0 < d \<Longrightarrow> a div d \<le> (a::int)"
  using div_le_dividend [of "nat a" "nat d"] by (simp add: nat_div_distrib [symmetric] nat_le_eq_zle)

lemma u256_small: "0 \<le> x \<Longrightarrow> x \<le> 2 ^ 254 \<Longrightarrow> u256 x = x"
  by (rule u256_id) simp_all

lemma ConvertTo256_eq: "0 \<le> x \<Longrightarrow> x \<le> MAX_INT64 \<Longrightarrow> ConvertTo256 x = Some x"
  by (simp add: ConvertTo256_def u64_id)

lemma ConvertTo256_neg: "x < 0 \<Longrightarrow> ConvertTo256 x = None"
  by (simp add: ConvertTo256_def)

lemma ConvertTo64_eq: "0 \<le> x \<Longrightarrow> x \<le> MAX_INT64 \<Longrightarrow> ConvertTo64 x = Some x"
  by (simp add: ConvertTo64_def s64_id)

lemma ConvertTo64_big: "MAX_INT64 < x \<Longrightarrow> ConvertTo64 x = None"
  by (simp add: ConvertTo64_def)

lemma mul256_eq: "0 \<le> a \<Longrightarrow> 0 \<le> b \<Longrightarrow> a * b \<le> 2 ^ 254 \<Longrightarrow> mul256 a b = a * b"
  by (simp add: mul256_def u256_small)

lemma add256_eq: "0 \<le> a \<Longrightarrow> 0 \<le> b \<Longrightarrow> a + b \<le> 2 ^ 254 \<Longrightarrow> add256 a b = a + b"
  by (simp add: add256_def u256_small)

lemma sub256_eq: "b \<le> a \<Longrightarrow> a - b \<le> 2 ^ 254 \<Longrightarrow> sub256 a b = a - b"
  by (simp add: sub256_def u256_small)

lemma mult_int64_bound:
  fixes a b :: int
  assumes "0 \<le> a" "a \<le> MAX_INT64" "0 \<le> b" "b \<le> MAX_INT64"
  shows "a * b \<le> 2 ^ 126"
proof -
  have "a * b \<le> MAX_INT64 * MAX_INT64" using assms by (intro mult_mono) auto
  then show ?thesis by simp
qed

lemma mul256_int64:
  assumes "0 \<le> a" "a \<le> MAX_INT64" "0 \<le> b" "b \<le> MAX_INT64"
  shows "mul256 a b = a * b"
  using mult_int64_bound [OF assms] assms by (intro mul256_eq) simp_all

text \<open>Products of powers of two as bounds, for chains of multiplications.\<close>

lemma mult_pow_bound:
  fixes a b :: int
  assumes "0 \<le> a" "a \<le> 2 ^ m" "0 \<le> b" "b \<le> 2 ^ n"
  shows "a * b \<le> 2 ^ (m + n)"
  unfolding power_add using assms by (intro mult_mono) auto

lemma mul256_pow:
  assumes "0 \<le> a" "a \<le> 2 ^ m" "0 \<le> b" "b \<le> 2 ^ n" "m + n \<le> 254"
  shows "mul256 a b = a * b"
proof (rule mul256_eq [OF assms(1,3)])
  have "a * b \<le> 2 ^ (m + n)" by (rule mult_pow_bound [OF assms(1-4)])
  also have "\<dots> \<le> 2 ^ 254" using assms(5) by (intro power_increasing) auto
  finally show "a * b \<le> 2 ^ 254" .
qed

lemma DivideAndRoundUp_eq:
  assumes "0 \<le> n" and "n \<le> 2 ^ 254" and "0 < d"
  shows "DivideAndRoundUp n d = Some (cdiv n d)"
proof (cases "n = 0")
  case True
  then show ?thesis by (simp add: DivideAndRoundUp_def)
next
  case False
  have q: "0 \<le> (n - 1) div d" "(n - 1) div d \<le> n - 1"
    using False assms zdiv_le_self [of "n - 1" d] by (simp_all add: pos_imp_zdiv_nonneg_iff)
  have eq: "n - 1 = (n - 1) div d * d + (n - 1) mod d" by (simp only: div_mult_mod_eq)
  have md: "0 \<le> (n - 1) mod d" "(n - 1) mod d < d" using assms(3) by simp_all
  have "cdiv n d = 1 + (n - 1) div d"
  proof (rule cdiv_unique [OF assms(3)])
    show "n \<le> (1 + (n - 1) div d) * d" unfolding distrib_right mult_1 using eq md by linarith
    show "(1 + (n - 1) div d - 1) * d < n" unfolding add_diff_cancel_left' using eq md by linarith
  qed
  moreover have "sub256 n 1 = n - 1" using False assms by (intro sub256_eq) simp_all
  moreover have "add256 1 ((n - 1) div d) = 1 + (n - 1) div d"
    using q assms by (intro add256_eq) simp_all
  ultimately show ?thesis using False assms(3) by (simp add: DivideAndRoundUp_def div256_def)
qed

lemma DivideAndRoundUp_zero_denominator: "n \<noteq> 0 \<Longrightarrow> DivideAndRoundUp n 0 = None"
  by (simp add: DivideAndRoundUp_def div256_def)

lemma Modulo256_eq:
  assumes "0 \<le> a" and "a \<le> 2 ^ 254" and "0 < n"
  shows "Modulo256 a n = Some (a mod n)"
proof -
  have q: "0 \<le> a div n" and p: "n * (a div n) \<le> a"
    using assms by (simp_all add: pos_imp_zdiv_nonneg_iff, smt (verit) mult_div_mod_eq pos_mod_sign)
  have "mul256 n (a div n) = n * (a div n)" using q p assms by (intro mul256_eq) simp_all
  moreover have "sub256 a (n * (a div n)) = a - n * (a div n)" using p q assms by (intro sub256_eq) (simp_all, smt (verit) mult_nonneg_nonneg)
  ultimately show ?thesis
    using assms(3) by (simp add: Modulo256_def div256_def minus_mult_div_eq_mod)
qed

end
