(* ===== verification/Limbs.thy ===== *)
theory Limbs
  imports Arith256 "HOL-Library.Word"
begin

text \<open>
  Big unsigned integers as arrays of 32-bit limbs, \<^verbatim>\<open>base_uint\<close> and \<^verbatim>\<open>arith_uint256\<close> of \<^verbatim>\<open>src/src/arith_uint256.{h,cpp}\<close>:
  addition, negation, products with their 64-bit carries, shifts, the long division, comparison and the compact form of difficulty targets.

  An array is a list of limbs, the least significant first; loops over the index are recursions on the lists or folds over \<open>[0..<WIDTH]\<close>, and \<open>|=\<close> on
  an element is \<open>or_at\<close>. The abstraction function \<open>limbs_val\<close> gives the number; every operation has a lemma \<open>_val\<close> that computes it,
  for arrays of any width, and \<open>arith_uint256_refines\<close> states that the arrays implement the integers modulo \<open>2 ^ 256\<close> on which theory \<open>Arith256\<close> and all its users calculate.
\<close>

unbundle bit_operations_syntax

type_synonym base_uint = "32 word list"

text \<open>The constructor from \<^verbatim>\<open>uint64_t\<close>, for at least two limbs.\<close>

definition base_uint_of :: "nat \<Rightarrow> 64 word \<Rightarrow> base_uint" where
  "base_uint_of W b = ucast b # ucast (drop_bit 32 b) # replicate (W - 2) 0"

fun uint_add_loop :: "64 word \<Rightarrow> base_uint \<Rightarrow> base_uint \<Rightarrow> base_uint" where
  "uint_add_loop carry (x # pn) (y # b) =
     (let n = carry + ucast x + ucast y in ucast (n AND 0xffffffff) # uint_add_loop (drop_bit 32 n) pn b)"
| "uint_add_loop carry pn b = pn"

definition uint_add :: "base_uint \<Rightarrow> base_uint \<Rightarrow> base_uint" where
  "uint_add a b = uint_add_loop 0 a b"

fun uint_inc :: "base_uint \<Rightarrow> base_uint" where
  "uint_inc [] = []"
| "uint_inc (x # pn) = (if x + 1 = 0 then (x + 1) # uint_inc pn else (x + 1) # pn)"

fun uint_dec :: "base_uint \<Rightarrow> base_uint" where
  "uint_dec [] = []"
| "uint_dec (x # pn) = (if x - 1 = - 1 then (x - 1) # uint_dec pn else (x - 1) # pn)"

definition uint_neg :: "base_uint \<Rightarrow> base_uint" where
  "uint_neg b = uint_inc (map (NOT) b)"

definition uint_sub :: "base_uint \<Rightarrow> base_uint \<Rightarrow> base_uint" where
  "uint_sub a b = uint_add a (uint_neg b)"

fun uint_mul32_loop :: "32 word \<Rightarrow> 64 word \<Rightarrow> base_uint \<Rightarrow> base_uint" where
  "uint_mul32_loop b32 carry [] = []"
| "uint_mul32_loop b32 carry (x # pn) =
     (let n = carry + ucast b32 * ucast x in ucast (n AND 0xffffffff) # uint_mul32_loop b32 (drop_bit 32 n) pn)"

definition uint_mul32 :: "base_uint \<Rightarrow> 32 word \<Rightarrow> base_uint" where
  "uint_mul32 a b32 = uint_mul32_loop b32 0 a"

text \<open>The inner loop of the product, on the limbs from \<open>j\<close> on; the outer loop finishes one limb per round.\<close>

fun uint_mul_row :: "32 word \<Rightarrow> 64 word \<Rightarrow> base_uint \<Rightarrow> base_uint \<Rightarrow> base_uint" where
  "uint_mul_row aj carry (x # pn) (y # b) =
     (let n = carry + ucast x + ucast aj * ucast y in ucast (n AND 0xffffffff) # uint_mul_row aj (drop_bit 32 n) pn b)"
| "uint_mul_row aj carry pn b = pn"

fun uint_mul_loop :: "base_uint \<Rightarrow> base_uint \<Rightarrow> base_uint \<Rightarrow> base_uint" where
  "uint_mul_loop (aj # a) b pn =
     (case uint_mul_row aj 0 pn b of [] \<Rightarrow> [] | p # pn' \<Rightarrow> p # uint_mul_loop a b pn')"
| "uint_mul_loop [] b pn = pn"

definition uint_mul :: "base_uint \<Rightarrow> base_uint \<Rightarrow> base_uint" where
  "uint_mul a b = uint_mul_loop a b (replicate (length a) 0)"

text \<open>Comparison starts at the most significant limb.\<close>

fun compare_loop :: "base_uint \<Rightarrow> base_uint \<Rightarrow> int" where
  "compare_loop (x # a) (y # b) = (if x < y then - 1 else if x > y then 1 else compare_loop a b)"
| "compare_loop a b = 0"

definition CompareTo :: "base_uint \<Rightarrow> base_uint \<Rightarrow> int" where
  "CompareTo a b = compare_loop (rev a) (rev b)"

definition EqualTo :: "base_uint \<Rightarrow> 64 word \<Rightarrow> bool" where
  "EqualTo a b \<longleftrightarrow> list_all (\<lambda>x. x = 0) (drop 2 a) \<and> ucast (a ! 1) = drop_bit 32 b \<and> ucast (a ! 0) = b AND 0xffffffff"

definition or_at :: "nat \<Rightarrow> 32 word \<Rightarrow> base_uint \<Rightarrow> base_uint" where
  "or_at i w pn = pn[i := pn ! i OR w]"

definition shl_step :: "base_uint \<Rightarrow> nat \<Rightarrow> nat \<Rightarrow> nat \<Rightarrow> base_uint \<Rightarrow> base_uint" where
  "shl_step a k shift i pn =
     (let pn1 = (if i + k + 1 < length a \<and> shift \<noteq> 0 then or_at (i + k + 1) (drop_bit (32 - shift) (a ! i)) pn else pn)
      in if i + k < length a then or_at (i + k) (push_bit shift (a ! i)) pn1 else pn1)"

definition uint_shl :: "base_uint \<Rightarrow> nat \<Rightarrow> base_uint" where
  "uint_shl a shift = fold (shl_step a (shift div 32) (shift mod 32)) [0..<length a] (replicate (length a) 0)"

definition shr_step :: "base_uint \<Rightarrow> nat \<Rightarrow> nat \<Rightarrow> nat \<Rightarrow> base_uint \<Rightarrow> base_uint" where
  "shr_step a k shift i pn =
     (let pn1 = (if i \<ge> k + 1 \<and> shift \<noteq> 0 then or_at (i - k - 1) (push_bit (32 - shift) (a ! i)) pn else pn)
      in if i \<ge> k then or_at (i - k) (drop_bit shift (a ! i)) pn1 else pn1)"

definition uint_shr :: "base_uint \<Rightarrow> nat \<Rightarrow> base_uint" where
  "uint_shr a shift = fold (shr_step a (shift div 32) (shift mod 32)) [0..<length a] (replicate (length a) 0)"

fun word_bits :: "32 word \<Rightarrow> nat \<Rightarrow> nat" where
  "word_bits w 0 = 1"
| "word_bits w (Suc n) = (if w AND push_bit (Suc n) 1 \<noteq> 0 then Suc n + 1 else word_bits w n)"

fun bits_loop :: "base_uint \<Rightarrow> nat" where
  "bits_loop [] = 0"
| "bits_loop (x # rest) = (if x \<noteq> 0 then 32 * length rest + word_bits x 31 else bits_loop rest)"

definition uint_bits :: "base_uint \<Rightarrow> nat" where
  "uint_bits a = bits_loop (rev a)"

text \<open>The loop of the long division, for \<^verbatim>\<open>shift\<close> down to 0.\<close>

fun div_loop :: "nat \<Rightarrow> base_uint \<Rightarrow> base_uint \<Rightarrow> base_uint \<Rightarrow> base_uint" where
  "div_loop shift num dv pn =
     (let (num', pn') = (if CompareTo num dv \<ge> 0 then (uint_sub num dv, or_at (shift div 32) (push_bit (shift mod 32) 1) pn) else (num, pn))
      in if shift = 0 then pn' else div_loop (shift - 1) num' (uint_shr dv 1) pn')"

declare div_loop.simps [simp del]

definition uint_div :: "base_uint \<Rightarrow> base_uint \<Rightarrow> base_uint option" where
  "uint_div a b =
     (if uint_bits b = 0 then None
      else if uint_bits b > uint_bits a then Some (replicate (length a) 0)
      else let shift = uint_bits a - uint_bits b in Some (div_loop shift a (uint_shl b shift) (replicate (length a) 0)))"

definition GetLow64 :: "base_uint \<Rightarrow> 64 word" where
  "GetLow64 a = ucast (a ! 0) OR push_bit 32 (ucast (a ! 1))"

text \<open>The value and the two flags.\<close>

definition SetCompact :: "32 word \<Rightarrow> base_uint \<times> bool \<times> bool" where
  "SetCompact nCompact =
     (let nSize = unat (drop_bit 24 nCompact);
          nWord0 = nCompact AND 0x007fffff;
          nWord = (if nSize \<le> 3 then drop_bit (8 * (3 - nSize)) nWord0 else nWord0);
          v = (if nSize \<le> 3 then base_uint_of 8 (ucast nWord) else uint_shl (base_uint_of 8 (ucast nWord)) (8 * (nSize - 3)))
      in (v, nWord \<noteq> 0 \<and> nCompact AND 0x00800000 \<noteq> 0,
          nWord \<noteq> 0 \<and> (nSize > 34 \<or> nWord > 0xff \<and> nSize > 33 \<or> nWord > 0xffff \<and> nSize > 32)))"

text \<open>\<open>None\<close> when an assertion fails.\<close>

definition GetCompact :: "base_uint \<Rightarrow> bool \<Rightarrow> 32 word option" where
  "GetCompact a fNegative =
     (let nSize0 = (uint_bits a + 7) div 8;
          nCompact0 = (if nSize0 \<le> 3 then ucast (push_bit (8 * (3 - nSize0)) (GetLow64 a)) else ucast (GetLow64 (uint_shr a (8 * (nSize0 - 3))))) :: 32 word;
          sign = nCompact0 AND 0x00800000 \<noteq> 0;
          nCompact1 = (if sign then drop_bit 8 nCompact0 else nCompact0);
          nSize = (if sign then nSize0 + 1 else nSize0)
      in if nCompact1 AND NOT 0x007fffff \<noteq> 0 \<or> nSize \<ge> 256 then None
         else let c = nCompact1 OR push_bit 24 (of_nat nSize)
              in Some (c OR (if fNegative \<and> c AND 0x007fffff \<noteq> 0 then 0x00800000 else 0)))"

subsection \<open>The value of an array of limbs\<close>

fun limbs_val :: "base_uint \<Rightarrow> int" where
  "limbs_val [] = 0"
| "limbs_val (x # pn) = uint x + 2 ^ 32 * limbs_val pn"

lemma limbs_val_concat: "limbs_val (x # pn) = concat_bit 32 (uint x) (limbs_val pn)"
proof -
  have "take_bit 32 (uint x) = uint x" by (simp add: take_bit_int_eq_self_iff uint_lt2p [where 'a = 32, simplified])
  then show ?thesis by (simp add: concat_bit_eq push_bit_eq_mult ac_simps)
qed

lemma bit_limbs_val: "bit (limbs_val pn) n \<longleftrightarrow> n < 32 * length pn \<and> bit (pn ! (n div 32)) (n mod 32)"
proof (induction pn arbitrary: n)
  case (Cons x pn)
  show ?case
  proof (cases "n < 32")
    case True
    then show ?thesis unfolding limbs_val_concat by (simp add: bit_concat_bit_iff bit_uint_iff)
  next
    case False
    then have "n div 32 = Suc ((n - 32) div 32)" "n mod 32 = (n - 32) mod 32" by (simp_all add: le_div_geq le_mod_geq)
    then show ?thesis using False Cons.IH [of "n - 32"] unfolding limbs_val_concat by (auto simp: bit_concat_bit_iff)
  qed
qed simp

lemma limbs_val_bounds: "0 \<le> limbs_val pn \<and> limbs_val pn < 2 ^ (32 * length pn)"
proof (induction pn)
  case (Cons x pn)
  have "uint x < 2 ^ 32" using uint_lt2p [of x] by simp
  moreover have "limbs_val pn + 1 \<le> 2 ^ (32 * length pn)" using Cons by simp
  then have "2 ^ 32 * (limbs_val pn + 1) \<le> 2 ^ 32 * 2 ^ (32 * length pn)" by (intro mult_left_mono) simp_all
  ultimately show ?case using Cons by (simp add: power_add)
qed simp

subsection \<open>Arithmetic\<close>

lemma split64:
  fixes n :: "64 word"
  shows "uint (ucast (n AND 0xffffffff) :: 32 word) = uint n mod 2 ^ 32" and "uint (drop_bit 32 n) = uint n div 2 ^ 32"
proof -
  have "(0xffffffff :: 64 word) = mask 32" by (simp add: mask_eq_exp_minus_1)
  then have n: "n AND 0xffffffff = take_bit 32 n" by (simp only: take_bit_eq_mask)
  have "uint (ucast (n AND 0xffffffff) :: 32 word) = take_bit 32 (take_bit 32 (uint n))"
    unfolding n by (simp only: unsigned_ucast_eq unsigned_take_bit_eq) simp
  then show "uint (ucast (n AND 0xffffffff) :: 32 word) = uint n mod 2 ^ 32"
    by (simp add: take_bit_eq_mod)
  show "uint (drop_bit 32 n) = uint n div 2 ^ 32" by (simp add: drop_bit_eq_div uint_div)
qed

lemma mod_limb: "0 < B \<Longrightarrow> 0 \<le> M \<Longrightarrow> t mod B + B * ((t div B + V) mod M) = (t + B * V) mod (B * M)" for t :: int
  using zmod_zmult2_eq [of M "t + B * V" B] by (simp add: add.commute)

lemma uint32_less: "uint (x :: 32 word) < 2 ^ 32"
  using uint_lt2p [of x] by simp

lemma uint_small64: "uint (a :: 64 word) + uint (b :: 64 word) < 2 ^ 64 \<Longrightarrow> uint (a + b) = uint a + uint b"
  by (simp add: uint_word_ariths take_bit_eq_mod [symmetric] take_bit_int_eq_self)

lemma uint_mul64: "uint (ucast (a :: 32 word) * ucast (b :: 32 word) :: 64 word) = uint a * uint b"
proof -
  have "uint a * uint b \<le> (2 ^ 32 - 1) * (2 ^ 32 - 1)" using uint32_less [of a] uint32_less [of b] by (intro mult_mono) simp_all
  then have "uint a * uint b < 2 ^ 64" by simp
  moreover have "uint (ucast x :: 64 word) = uint x" for x :: "32 word" by (rule uint_up_ucast) (simp add: is_up)
  ultimately show ?thesis by (simp add: uint_word_ariths)
qed

lemma uint_up [simp]: "uint (ucast (x :: 32 word) :: 64 word) = uint x"
  by (rule uint_up_ucast) (simp add: is_up)

lemma uint_add_loop_val:
  "length pn = length b \<Longrightarrow> uint carry \<le> 1 \<Longrightarrow>
    length (uint_add_loop carry pn b) = length b
    \<and> limbs_val (uint_add_loop carry pn b) = (uint carry + limbs_val pn + limbs_val b) mod 2 ^ (32 * length b)"
proof (induction carry pn b rule: uint_add_loop.induct)
  case (1 carry x pn y b)
  let ?n = "carry + ucast x + ucast y :: 64 word"
  have lt: "uint carry + uint x + uint y < 2 ^ 33" using uint32_less [of x] uint32_less [of y] 1(3) by simp
  have "uint (carry + ucast x) = uint carry + uint x" using uint32_less [of x] 1(3) by (simp add: uint_small64 uint_up)
  then have n: "uint ?n = uint carry + uint x + uint y" using lt uint_small64 [of "carry + ucast x" "ucast y"] by (simp add: uint_up)
  have c: "uint (drop_bit 32 ?n) \<le> 1" using lt n unfolding split64(2) by simp
  have IH: "length (uint_add_loop (drop_bit 32 ?n) pn b) = length b
      \<and> limbs_val (uint_add_loop (drop_bit 32 ?n) pn b) = (uint (drop_bit 32 ?n) + limbs_val pn + limbs_val b) mod 2 ^ (32 * length b)"
    by (rule 1(1) [OF refl _ c]) (use 1(2) in simp)
  then show ?case
    using mod_limb [of "2 ^ 32" "2 ^ (32 * length b)" "uint ?n" "limbs_val pn + limbs_val b"] n
    by (simp add: Let_def split64 power_add algebra_simps)
qed simp_all


lemma uint_inc_val: "length (uint_inc pn) = length pn \<and> limbs_val (uint_inc pn) = (limbs_val pn + 1) mod 2 ^ (32 * length pn)"
proof (induction pn)
  case (Cons x pn)
  have lt: "uint x + 1 \<le> 2 ^ 32" using uint32_less [of x] by simp
  have inc: "uint (x + 1) = (uint x + 1) mod 2 ^ 32" by (simp add: uint_word_ariths)
  have pos: "0 < uint x + 1" using uint_ge_0 [of x] by linarith
  have m: "limbs_val (uint_inc (x # pn)) = (uint x + 1) mod 2 ^ 32 + 2 ^ 32 * (((uint x + 1) div 2 ^ 32 + limbs_val pn) mod 2 ^ (32 * length pn))"
  proof (cases "x + 1 = 0")
    case True
    have "uint x + 1 = 2 ^ 32"
    proof (rule ccontr)
      assume "uint x + 1 \<noteq> 2 ^ 32"
      then have "(uint x + 1) mod 2 ^ 32 = uint x + 1" using lt pos by (intro mod_pos_pos_trivial) linarith+
      then have "uint (x + 1) > 0" using inc pos by linarith
      then show False by (simp add: True)
    qed
    then show ?thesis using True Cons by (simp add: add.commute)
  next
    case False
    then have "uint x + 1 < 2 ^ 32" using lt inc by (cases "uint x + 1 = 2 ^ 32") (auto simp: word_uint_eq_iff)
    then show ?thesis using False limbs_val_bounds [of pn] inc by simp
  qed
  also have "\<dots> = (limbs_val (x # pn) + 1) mod 2 ^ (32 * length (x # pn))"
    using mod_limb [of "2 ^ 32" "2 ^ (32 * length pn)" "uint x + 1" "limbs_val pn"] by (simp add: power_add algebra_simps)
  finally show ?case using Cons by simp
qed simp

lemma uint_not32: "uint (NOT (x :: 32 word)) = 2 ^ 32 - 1 - uint x"
proof -
  have "uint (NOT x) = take_bit 32 (NOT (uint x))" by (simp add: unsigned_not_eq)
  also have "\<dots> = (- uint x - 1) mod 2 ^ 32" by (simp add: take_bit_eq_mod not_int_def)
  also have "\<dots> = (2 ^ 32 - 1 - uint x) mod 2 ^ 32" using mod_add_self2 [of "- uint x - 1" "2 ^ 32"] by (simp add: algebra_simps)
  also have "\<dots> = 2 ^ 32 - 1 - uint x" using uint32_less [of x] uint_ge_0 [of x] by (intro mod_pos_pos_trivial) linarith+
  finally show ?thesis .
qed

lemma limbs_val_not: "limbs_val (map (NOT) pn) = 2 ^ (32 * length pn) - 1 - limbs_val pn"
  by (induction pn) (simp_all add: uint_not32 power_add algebra_simps)

lemma uint_neg_val: "length (uint_neg b) = length b \<and> limbs_val (uint_neg b) = (- limbs_val b) mod 2 ^ (32 * length b)"
  using uint_inc_val [of "map (NOT) b"] mod_add_self2 [of "- limbs_val b" "2 ^ (32 * length b)"]
  by (simp add: uint_neg_def limbs_val_not algebra_simps)

lemma uint_add_val:
  "length a = length b \<Longrightarrow> length (uint_add a b) = length b \<and> limbs_val (uint_add a b) = (limbs_val a + limbs_val b) mod 2 ^ (32 * length b)"
  using uint_add_loop_val [of a b 0] by (simp add: uint_add_def)

lemma uint_sub_val:
  assumes "length a = length b"
  shows "length (uint_sub a b) = length b \<and> limbs_val (uint_sub a b) = (limbs_val a - limbs_val b) mod 2 ^ (32 * length b)"
  using uint_add_val [of a "uint_neg b"] uint_neg_val [of b] assms by (simp add: uint_sub_def mod_simps)

text \<open>The step of a row: it cannot overflow 64 bits.\<close>

lemma row_step:
  fixes carry :: "64 word" and x y z :: "32 word"
  assumes "uint carry < 2 ^ 32"
  defines "n \<equiv> carry + ucast x + ucast y * ucast z"
  shows "uint n = uint carry + uint x + uint y * uint z" and "uint (drop_bit 32 n) < 2 ^ 32"
proof -
  have "uint y * uint z \<le> (2 ^ 32 - 1) * (2 ^ 32 - 1)" using uint32_less [of y] uint32_less [of z] by (intro mult_mono) simp_all
  then have lt: "uint carry + uint x + uint y * uint z < 2 ^ 64" using assms(1) uint32_less [of x] by simp
  have "uint (carry + ucast x) = uint carry + uint x" using uint32_less [of x] assms(1) by (simp add: uint_small64 uint_up)
  then show n: "uint n = uint carry + uint x + uint y * uint z"
    using lt uint_small64 [of "carry + ucast x" "ucast y * ucast z"] by (simp add: n_def uint_mul64)
  show "uint (drop_bit 32 n) < 2 ^ 32" using lt unfolding split64(2) n by simp
qed

lemma uint_mul_row_val:
  "length pn \<le> length b \<Longrightarrow> uint carry < 2 ^ 32 \<Longrightarrow>
    length (uint_mul_row aj carry pn b) = length pn
    \<and> limbs_val (uint_mul_row aj carry pn b) = (uint carry + limbs_val pn + uint aj * limbs_val b) mod 2 ^ (32 * length pn)"
proof (induction aj carry pn b rule: uint_mul_row.induct)
  case (1 aj carry x pn y b)
  let ?n = "carry + ucast x + ucast aj * ucast y :: 64 word"
  note n = row_step [OF 1(3), of x aj y]
  have IH: "length (uint_mul_row aj (drop_bit 32 ?n) pn b) = length pn
      \<and> limbs_val (uint_mul_row aj (drop_bit 32 ?n) pn b) = (uint (drop_bit 32 ?n) + limbs_val pn + uint aj * limbs_val b) mod 2 ^ (32 * length pn)"
    by (rule 1(1) [OF refl _ n(2)]) (use 1(2) in simp)
  then show ?case
    using mod_limb [of "2 ^ 32" "2 ^ (32 * length pn)" "uint ?n" "limbs_val pn + uint aj * limbs_val b"] n(1)
    by (simp add: Let_def split64 power_add algebra_simps)
qed simp_all

lemma uint_mul_loop_val:
  "length a = length pn \<Longrightarrow> length pn \<le> length b \<Longrightarrow> length (uint_mul_loop a b pn) = length pn
    \<and> limbs_val (uint_mul_loop a b pn) = (limbs_val pn + limbs_val a * limbs_val b) mod 2 ^ (32 * length pn)"
proof (induction a b pn rule: uint_mul_loop.induct)
  case (1 aj a b pn)
  have row: "length (uint_mul_row aj 0 pn b) = length pn"
      "limbs_val (uint_mul_row aj 0 pn b) = (limbs_val pn + uint aj * limbs_val b) mod 2 ^ (32 * length pn)"
    using uint_mul_row_val [OF 1(3), of 0 aj] by simp_all
  obtain p pn' where r: "uint_mul_row aj 0 pn b = p # pn'" using row(1) 1(2) by (cases "uint_mul_row aj 0 pn b") auto
  have len: "length pn = Suc (length pn')" using row(1) r by simp
  have IH: "length (uint_mul_loop a b pn') = length pn'"
      "limbs_val (uint_mul_loop a b pn') = (limbs_val pn' + limbs_val a * limbs_val b) mod 2 ^ (32 * length pn')"
    using 1(1) [OF r] 1(2,3) len by simp_all
  let ?M = "2 ^ (32 * length pn') :: int" and ?X = "limbs_val pn + uint aj * limbs_val b" and ?Y = "limbs_val a * limbs_val b"
  have M: "(2 :: int) ^ (32 * length pn) = 2 ^ 32 * ?M" by (simp add: len power_add)
  have p: "uint p + 2 ^ 32 * limbs_val pn' = ?X mod (2 ^ 32 * ?M)" using row(2) unfolding r M by simp
  have "uint p + 2 ^ 32 * ((limbs_val pn' + ?Y) mod ?M) = (uint p + 2 ^ 32 * (limbs_val pn' + ?Y)) mod (2 ^ 32 * ?M)"
    using mod_limb [of "2 ^ 32" ?M "uint p" "limbs_val pn' + ?Y"] uint32_less [of p] by simp
  also have "\<dots> = (?X mod (2 ^ 32 * ?M) + 2 ^ 32 * ?Y) mod (2 ^ 32 * ?M)" unfolding p [symmetric] by (simp add: algebra_simps)
  also have "\<dots> = (?X + 2 ^ 32 * ?Y) mod (2 ^ 32 * ?M)" by (rule mod_add_left_eq)
  also have "?X + 2 ^ 32 * ?Y = limbs_val pn + limbs_val (aj # a) * limbs_val b" by (simp add: algebra_simps)
  finally show ?case using IH unfolding M by (simp add: r len)
qed simp

lemma limbs_val_zero [simp]: "limbs_val (replicate n 0) = 0"
  by (induction n) simp_all

lemma uint_mul_val:
  "length a = length b \<Longrightarrow> length (uint_mul a b) = length b \<and> limbs_val (uint_mul a b) = (limbs_val a * limbs_val b) mod 2 ^ (32 * length b)"
  using uint_mul_loop_val [of a "replicate (length a) 0" b] by (simp add: uint_mul_def)

lemma uint_mul32_loop_val:
  "uint carry < 2 ^ 32 \<Longrightarrow> length (uint_mul32_loop b32 carry pn) = length pn
    \<and> limbs_val (uint_mul32_loop b32 carry pn) = (uint carry + uint b32 * limbs_val pn) mod 2 ^ (32 * length pn)"
proof (induction b32 carry pn rule: uint_mul32_loop.induct)
  case (2 b32 carry x pn)
  let ?n = "carry + ucast b32 * ucast x :: 64 word"
  have n: "uint ?n = uint carry + uint b32 * uint x" "uint (drop_bit 32 ?n) < 2 ^ 32" using row_step [OF 2(2), of 0 b32 x] by simp_all
  show ?case
    using mod_limb [of "2 ^ 32" "2 ^ (32 * length pn)" "uint ?n" "uint b32 * limbs_val pn"] n(1) 2(1) [OF refl n(2)]
    by (simp add: Let_def split64 power_add algebra_simps)
qed simp

subsection \<open>Comparison and size\<close>

lemma limbs_val_snoc: "limbs_val (xs @ [x]) = limbs_val xs + 2 ^ (32 * length xs) * uint x"
  by (induction xs) (simp_all add: power_add algebra_simps)

lemma compare_loop_val: "length a = length b \<Longrightarrow> compare_loop a b = sgn (limbs_val (rev a) - limbs_val (rev b))"
proof (induction a b rule: list_induct2)
  case (Cons x a y b)
  let ?B = "2 ^ (32 * length b) :: int"
  have b: "limbs_val (rev b) < ?B" "0 \<le> limbs_val (rev b)" "limbs_val (rev a) < ?B" "0 \<le> limbs_val (rev a)"
    using limbs_val_bounds [of "rev a"] limbs_val_bounds [of "rev b"] Cons(1) by simp_all
  have lt: "limbs_val (rev a) + ?B * u < limbs_val (rev b) + ?B * v" if "u < v" for u v
    using mult_left_mono [of "u + 1" v ?B] that b by (simp add: algebra_simps)
  have gt: "limbs_val (rev b) + ?B * u < limbs_val (rev a) + ?B * v" if "u < v" for u v
    using mult_left_mono [of "u + 1" v ?B] that b by (simp add: algebra_simps)
  consider "x < y" | "y < x" | "x = y" by fastforce
  then show ?case
  proof cases
    case 1
    then show ?thesis using lt [of "uint x" "uint y"] Cons(1) by (simp add: limbs_val_snoc word_less_def)
  next
    case 2
    then show ?thesis using gt [of "uint y" "uint x"] Cons(1) by (auto simp: limbs_val_snoc word_less_def)
  next
    case 3
    then show ?thesis using Cons by (simp add: limbs_val_snoc)
  qed
qed simp

lemma CompareTo_val: "length a = length b \<Longrightarrow> CompareTo a b = sgn (limbs_val a - limbs_val b)"
  using compare_loop_val [of "rev a" "rev b"] by (simp add: CompareTo_def)

lemma word_bits_val:
  "w \<noteq> 0 \<Longrightarrow> uint w < 2 ^ (n + 1) \<Longrightarrow> n < 32 \<Longrightarrow> 0 < word_bits w n \<and> word_bits w n \<le> n + 1 \<and> 2 ^ (word_bits w n - 1) \<le> uint w \<and> uint w < 2 ^ word_bits w n"
proof (induction n)
  case 0
  then have "uint w \<noteq> 0" by (simp add: word_uint_eq_iff)
  then have "1 \<le> uint w" using uint_ge_0 [of w] by linarith
  then show ?case using 0 by simp
next
  case (Suc n)
  have b: "w AND push_bit (Suc n) 1 \<noteq> 0 \<longleftrightarrow> bit w (Suc n)" by (simp only: push_bit_of_1 and_exp_eq_0_iff_not_bit) simp
  have bu: "bit w (Suc n) \<longleftrightarrow> 2 ^ Suc n \<le> uint w"
  proof -
    have "bit w (Suc n) \<longleftrightarrow> bit (uint w) (Suc n)" using Suc(4) by (simp add: bit_uint_iff)
    then have "bit w (Suc n) \<longleftrightarrow> odd (uint w div 2 ^ Suc n)" by (simp only: bit_iff_odd)
    moreover have "uint w div 2 ^ Suc n = (if 2 ^ Suc n \<le> uint w then 1 else 0)"
      using Suc(3) uint_ge_0 [of w] by (auto simp: div_pos_pos_trivial intro: int_div_pos_eq [where r = "uint w - 2 ^ Suc n"])
    ultimately show ?thesis by simp
  qed
  show ?case
  proof (cases "bit w (Suc n)")
    case True
    then show ?thesis using b bu Suc(3) by simp
  next
    case False
    then have "uint w < 2 ^ (n + 1)" using bu by simp
    then show ?thesis using Suc b False by simp
  qed
qed

lemma bits_loop_val:
  "(limbs_val (rev a) = 0 \<longleftrightarrow> bits_loop a = 0)
   \<and> (bits_loop a \<noteq> 0 \<longrightarrow> 2 ^ (bits_loop a - 1) \<le> limbs_val (rev a)) \<and> limbs_val (rev a) < 2 ^ bits_loop a \<and> bits_loop a \<le> 32 * length a"
proof (induction a)
  case (Cons x a)
  show ?case
  proof (cases "x = 0")
    case True
    then show ?thesis using Cons by (simp add: limbs_val_snoc)
  next
    case False
    let ?B = "2 ^ (32 * length a) :: int" and ?w = "word_bits x 31"
    have v: "0 \<le> limbs_val (rev a)" "limbs_val (rev a) + 1 \<le> ?B" using limbs_val_bounds [of "rev a"] by simp_all
    have w: "0 < ?w" "?w \<le> 32" "2 ^ (?w - 1) \<le> uint x" "uint x + 1 \<le> 2 ^ ?w" using word_bits_val [OF False, of 31] uint32_less [of x] by simp_all
    have lo: "?B * 2 ^ (?w - 1) \<le> ?B * uint x" using w(3) by simp
    have hi: "?B * (uint x + 1) \<le> ?B * 2 ^ ?w" using w(4) by (rule mult_left_mono) simp
    have pos: "0 < ?B * uint x" using lo by (smt (verit) mult_pos_pos zero_less_power)
    have e: "(2 :: int) ^ (32 * length a + ?w - 1) = ?B * 2 ^ (?w - 1)" using w(1) by (simp add: power_add [symmetric])
    have bl: "bits_loop (x # a) = 32 * length a + ?w" using False by simp
    have val: "limbs_val (rev (x # a)) = limbs_val (rev a) + ?B * uint x" by (simp add: limbs_val_snoc)
    have "limbs_val (rev a) + ?B * uint x \<noteq> 0" "?B * 2 ^ (?w - 1) \<le> limbs_val (rev a) + ?B * uint x" using v(1) lo pos by linarith+
    moreover have "limbs_val (rev a) + ?B * uint x < ?B * 2 ^ ?w" using v(2) hi by (simp add: algebra_simps)
    moreover have "(2 :: int) ^ (32 * length a + ?w) = ?B * 2 ^ ?w" by (rule power_add)
    moreover have "32 * length a + ?w \<le> 32 * length (x # a)" "32 * length a + ?w \<noteq> 0" using w(1,2) by simp_all
    ultimately show ?thesis unfolding bl val e by simp
  qed
qed simp

lemma uint_bits_val:
  "limbs_val a = 0 \<longleftrightarrow> uint_bits a = 0" "uint_bits a \<noteq> 0 \<Longrightarrow> 2 ^ (uint_bits a - 1) \<le> limbs_val a"
  "limbs_val a < 2 ^ uint_bits a" "uint_bits a \<le> 32 * length a"
  using bits_loop_val [of "rev a"] by (simp_all add: uint_bits_def)


subsection \<open>Shifts\<close>

lemma length_or_at [simp]: "length (or_at i w pn) = length pn"
  by (simp add: or_at_def)

lemma nth_or_at: "q < length pn \<Longrightarrow> or_at i w pn ! q = (if q = i then pn ! q OR w else pn ! q)"
  by (auto simp: or_at_def nth_list_update)

lemma shl_loop:
  assumes "m \<le> length a"
  shows "length (fold (shl_step a k s) [0..<m] (replicate (length a) 0)) = length a
    \<and> (\<forall>q < length a. fold (shl_step a k s) [0..<m] (replicate (length a) 0) ! q =
      (if k \<le> q \<and> q - k < m then push_bit s (a ! (q - k)) else 0)
        OR (if k + 1 \<le> q \<and> q - k - 1 < m \<and> s \<noteq> 0 then drop_bit (32 - s) (a ! (q - k - 1)) else 0))"
  using assms
proof (induction m)
  case (Suc m)
  let ?p = "fold (shl_step a k s) [0..<m] (replicate (length a) 0)"
  have IH: "length ?p = length a" "\<And>q. q < length a \<Longrightarrow> ?p ! q = (if k \<le> q \<and> q - k < m then push_bit s (a ! (q - k)) else 0)
        OR (if k + 1 \<le> q \<and> q - k - 1 < m \<and> s \<noteq> 0 then drop_bit (32 - s) (a ! (q - k - 1)) else 0)"
    using Suc by auto
  have "fold (shl_step a k s) [0..<Suc m] (replicate (length a) 0) = shl_step a k s m ?p" by simp
  moreover have "length (shl_step a k s m ?p) = length a" using IH(1) by (simp add: shl_step_def Let_def)
  moreover have "shl_step a k s m ?p ! q = (if k \<le> q \<and> q - k < Suc m then push_bit s (a ! (q - k)) else 0)
        OR (if k + 1 \<le> q \<and> q - k - 1 < Suc m \<and> s \<noteq> 0 then drop_bit (32 - s) (a ! (q - k - 1)) else 0)" if "q < length a" for q
  proof -
    consider "q = m + k" | "q = m + k + 1" | "q \<noteq> m + k" "q \<noteq> m + k + 1" by blast
    then show ?thesis
      by cases (use that IH in \<open>auto simp: shl_step_def Let_def nth_or_at ac_simps\<close>)
  qed
  ultimately show ?case by presburger
qed simp

lemma shr_step_nth:
  assumes "length pn = length a" and "q < length a" and "i < length a"
  shows "length (shr_step a k s i pn) = length a
    \<and> shr_step a k s i pn ! q = (pn ! q OR (if i = q + k + 1 \<and> s \<noteq> 0 then push_bit (32 - s) (a ! i) else 0)) OR (if i = q + k then drop_bit s (a ! i) else 0)"
  using assms by (auto simp: shr_step_def Let_def nth_or_at)

lemma shr_loop:
  assumes "m \<le> length a"
  shows "length (fold (shr_step a k s) [0..<m] (replicate (length a) 0)) = length a
    \<and> (\<forall>q < length a. fold (shr_step a k s) [0..<m] (replicate (length a) 0) ! q =
      (if q + k < m then drop_bit s (a ! (q + k)) else 0)
        OR (if q + k + 1 < m \<and> s \<noteq> 0 then push_bit (32 - s) (a ! (q + k + 1)) else 0))"
  using assms
proof (induction m)
  case (Suc m)
  define p where "p = fold (shr_step a k s) [0..<m] (replicate (length a) 0)"
  have IH: "length p = length a" "\<And>q. q < length a \<Longrightarrow> p ! q = (if q + k < m then drop_bit s (a ! (q + k)) else 0)
        OR (if q + k + 1 < m \<and> s \<noteq> 0 then push_bit (32 - s) (a ! (q + k + 1)) else 0)"
    using Suc by (auto simp: p_def)
  have "fold (shr_step a k s) [0..<Suc m] (replicate (length a) 0) = shr_step a k s m p" by (simp add: p_def)
  moreover have "length (shr_step a k s m p) = length a" using shr_step_nth [OF IH(1), of m m] Suc(2) by simp
  moreover have "shr_step a k s m p ! q = (if q + k < Suc m then drop_bit s (a ! (q + k)) else 0)
        OR (if q + k + 1 < Suc m \<and> s \<noteq> 0 then push_bit (32 - s) (a ! (q + k + 1)) else 0)" if "q < length a" for q
  proof -
    consider "m = q + k" | "m = q + k + 1" | "m \<noteq> q + k" "m \<noteq> q + k + 1" by blast
    then show ?thesis by cases (use shr_step_nth [OF IH(1) that, of m k s] Suc(2) IH(2) [OF that] in \<open>auto simp: ac_simps\<close>)
  qed
  ultimately show ?case by presburger
qed simp


lemma limb_split: "y < 32 \<Longrightarrow> (32 * x + y) div 32 = x \<and> (32 * x + y) mod 32 = y" for x y :: nat
  by simp

lemma limb_cases:
  fixes n :: nat
  obtains q r where "n = 32 * q + r" and "r < 32" and "n div 32 = q" and "n mod 32 = r"
  using that [of "n div 32" "n mod 32"] by simp

lemma uint_shl_val:
  "length (uint_shl a sh) = length a" "limbs_val (uint_shl a sh) = (limbs_val a * 2 ^ sh) mod 2 ^ (32 * length a)"
proof -
  obtain k s where sh: "sh = 32 * k + s" "s < 32" "sh div 32 = k" "sh mod 32 = s" by (rule limb_cases)
  note loop = shl_loop [OF order_refl, of a k s, folded uint_shl_def [of a sh, unfolded sh(3,4)]]
  show len: "length (uint_shl a sh) = length a" using loop by simp
  have "bit (limbs_val (uint_shl a sh)) n = bit (take_bit (32 * length a) (push_bit sh (limbs_val a))) n" for n
  proof (cases "n < 32 * length a")
    case True
    obtain q r where n: "n = 32 * q + r" "r < 32" "n div 32 = q" "n mod 32 = r" by (rule limb_cases)
    have q: "q < length a" using True n by linarith
    have nth: "uint_shl a sh ! q = (if k \<le> q \<and> q - k < length a then push_bit s (a ! (q - k)) else 0)
        OR (if k + 1 \<le> q \<and> q - k - 1 < length a \<and> s \<noteq> 0 then drop_bit (32 - s) (a ! (q - k - 1)) else 0)"
      using loop q by blast
    have l: "bit (limbs_val (uint_shl a sh)) n = bit (uint_shl a sh ! q) r" using True n by (simp add: bit_limbs_val len)
    have r: "bit (take_bit (32 * length a) (push_bit sh (limbs_val a))) n \<longleftrightarrow> sh \<le> n \<and> bit (a ! ((n - sh) div 32)) ((n - sh) mod 32)"
      using True by (auto simp: bit_take_bit_iff bit_push_bit_iff bit_limbs_val)
    show ?thesis
    proof (cases "s \<le> r")
      case c: True
      have "n - sh = 32 * (q - k) + (r - s)" if "k \<le> q" using n(1) sh(1) c that by (simp add: diff_mult_distrib2)
      then have e: "(n - sh) div 32 = q - k" "(n - sh) mod 32 = r - s" if "k \<le> q" using that n(2) limb_split [of "r - s" "q - k"] by simp_all
      have i: "sh \<le> n \<longleftrightarrow> k \<le> q" using n(1,2) sh(1,2) c by linarith
      have big: "\<not> bit (drop_bit (32 - s) w) r" for w :: "32 word" using c sh(2) bit_imp_le_length [of w "32 - s + r"] by (auto simp: bit_drop_bit_eq)
      show ?thesis unfolding l r nth i using e q c n(2) big by (auto simp: bit_or_iff bit_push_bit_iff)
    next
      case c: False
      have "n - sh = 32 * (q - k - 1) + (32 + r - s)" if "k + 1 \<le> q" using n(1) sh(1,2) c that by (simp add: diff_mult_distrib2)
      then have e: "(n - sh) div 32 = q - k - 1" "(n - sh) mod 32 = 32 + r - s" if "k + 1 \<le> q" using that c limb_split [of "32 + r - s" "q - k - 1"] by simp_all
      have i: "sh \<le> n \<longleftrightarrow> k + 1 \<le> q" using n(1,2) sh(1,2) c by linarith
      have s: "s \<noteq> 0" "32 - s + r = 32 + r - s" using c sh(2) by simp_all
      have lt: "q - k < length a" "q - k - 1 < length a" using q by simp_all
      have small: "\<not> bit (push_bit s w) r" for w :: "32 word" using c by (simp add: bit_push_bit_iff)
      show ?thesis
      proof (cases "k + 1 \<le> q")
        case True
        then show ?thesis unfolding l r nth i e [OF True] using s lt small by (simp add: bit_or_iff bit_drop_bit_eq)
      next
        case False
        then show ?thesis unfolding l r nth i using small by (simp add: bit_or_iff)
      qed
    qed
  qed (simp add: bit_limbs_val len bit_take_bit_iff)
  then have "limbs_val (uint_shl a sh) = take_bit (32 * length a) (push_bit sh (limbs_val a))" by (rule bit_eqI)
  then show "limbs_val (uint_shl a sh) = (limbs_val a * 2 ^ sh) mod 2 ^ (32 * length a)" by (simp add: take_bit_eq_mod push_bit_eq_mult)
qed

lemma uint_shr_val: "length (uint_shr a sh) = length a" "limbs_val (uint_shr a sh) = limbs_val a div 2 ^ sh"
proof -
  obtain k s where sh: "sh = 32 * k + s" "s < 32" "sh div 32 = k" "sh mod 32 = s" by (rule limb_cases)
  note loop = shr_loop [OF order_refl, of a k s, folded uint_shr_def [of a sh, unfolded sh(3,4)]]
  show len: "length (uint_shr a sh) = length a" using loop by simp
  have "bit (limbs_val (uint_shr a sh)) n = bit (drop_bit sh (limbs_val a)) n" for n
  proof (cases "n < 32 * length a")
    case True
    obtain q r where n: "n = 32 * q + r" "r < 32" "n div 32 = q" "n mod 32 = r" by (rule limb_cases)
    have q: "q < length a" using True n by linarith
    have nth: "uint_shr a sh ! q = (if q + k < length a then drop_bit s (a ! (q + k)) else 0)
        OR (if q + k + 1 < length a \<and> s \<noteq> 0 then push_bit (32 - s) (a ! (q + k + 1)) else 0)"
      using loop q by blast
    have l: "bit (limbs_val (uint_shr a sh)) n = bit (uint_shr a sh ! q) r" using True n by (simp add: bit_limbs_val len)
    have r: "bit (drop_bit sh (limbs_val a)) n \<longleftrightarrow> sh + n < 32 * length a \<and> bit (a ! ((sh + n) div 32)) ((sh + n) mod 32)"
      by (simp add: bit_drop_bit_eq bit_limbs_val)
    show ?thesis
    proof (cases "r + s < 32")
      case c: True
      have "sh + n = 32 * (q + k) + (r + s)" using n(1) sh(1) by simp
      then have e: "(sh + n) div 32 = q + k" "(sh + n) mod 32 = r + s" "sh + n < 32 * length a \<longleftrightarrow> q + k < length a"
        using c limb_split [of "r + s" "q + k"] by simp_all linarith
      have big: "\<not> bit (push_bit (32 - s) w) r" for w :: "32 word" using c by (auto simp: bit_push_bit_iff)
      show ?thesis unfolding l r nth e using big by (simp add: bit_or_iff bit_drop_bit_eq add.commute)
    next
      case c: False
      have "sh + n = 32 * (q + k + 1) + (r + s - 32)" using n(1) sh(1) c by simp
      then have e: "(sh + n) div 32 = q + k + 1" "(sh + n) mod 32 = r + s - 32" "sh + n < 32 * length a \<longleftrightarrow> q + k + 1 < length a"
        using c n(2) sh(2) limb_split [of "r + s - 32" "q + k + 1"] by simp_all linarith
      have big: "\<not> bit (drop_bit s w) r" for w :: "32 word" using c bit_imp_le_length [of w "s + r"] by (auto simp: bit_drop_bit_eq)
      have s: "s \<noteq> 0" "32 - s \<le> r" "r - (32 - s) = r + s - 32" using c n(2) sh(2) by simp_all
      show ?thesis unfolding l r nth e using big s n(2) by (simp add: bit_or_iff bit_push_bit_iff)
    qed
  qed (simp add: bit_limbs_val len bit_drop_bit_eq)
  then have "limbs_val (uint_shr a sh) = drop_bit sh (limbs_val a)" by (rule bit_eqI)
  then show "limbs_val (uint_shr a sh) = limbs_val a div 2 ^ sh" by (simp add: drop_bit_eq_div)
qed

subsection \<open>Division\<close>

lemma or_at_val:
  assumes "sh < 32 * length pn" and "\<not> bit (limbs_val pn) sh"
  shows "limbs_val (or_at (sh div 32) (push_bit (sh mod 32) 1) pn) = limbs_val pn + 2 ^ sh"
proof -
  obtain k s where sh: "sh = 32 * k + s" "s < 32" "sh div 32 = k" "sh mod 32 = s" by (rule limb_cases)
  have "bit (limbs_val (or_at k (push_bit s 1) pn)) n = bit (set_bit sh (limbs_val pn)) n" for n
  proof -
    obtain q r where n: "n = 32 * q + r" "r < 32" "n div 32 = q" "n mod 32 = r" by (rule limb_cases)
    have eq: "n = sh \<longleftrightarrow> q = k \<and> r = s" using n(1,3,4) sh(1,3,4) by metis
    have lt: "n < 32 * length pn \<longleftrightarrow> q < length pn" using n(1,2) by linarith
    have b: "bit (push_bit s 1 :: 32 word) r \<longleftrightarrow> r = s" using n(2) sh(2) by (auto simp: bit_exp_iff)
    have l: "bit (limbs_val (or_at k (push_bit s 1) pn)) n \<longleftrightarrow> q < length pn \<and> (bit (pn ! q) r \<or> q = k \<and> r = s)"
      using b lt by (auto simp: bit_limbs_val n(3,4) nth_or_at bit_or_iff split: if_splits)
    have "bit (set_bit sh (limbs_val pn)) n \<longleftrightarrow> sh = n \<or> bit (limbs_val pn) n" by (auto simp: bit_set_bit_iff)
    also have "\<dots> \<longleftrightarrow> q = k \<and> r = s \<or> q < length pn \<and> bit (pn ! q) r" using eq lt by (auto simp: bit_limbs_val n(3,4))
    finally show ?thesis using l assms(1) sh(1) by auto
  qed
  then have "limbs_val (or_at k (push_bit s 1) pn) = set_bit sh (limbs_val pn)" by (rule bit_eqI)
  then show ?thesis using assms(2) by (simp add: sh(3,4) set_bit_eq)
qed

lemma CompareTo_ge: "length a = length b \<Longrightarrow> CompareTo a b \<ge> 0 \<longleftrightarrow> limbs_val b \<le> limbs_val a"
  by (simp add: CompareTo_val sgn_if)

lemma div_loop_val:
  "shift < 32 * length b \<Longrightarrow> length num = length b \<Longrightarrow> length dv = length b \<Longrightarrow> length pn = length b \<Longrightarrow> 0 < limbs_val b
    \<Longrightarrow> limbs_val dv = limbs_val b * 2 ^ shift \<Longrightarrow> limbs_val num < limbs_val b * 2 ^ (shift + 1) \<Longrightarrow> 2 ^ (shift + 1) dvd limbs_val pn
    \<Longrightarrow> length (div_loop shift num dv pn) = length b \<and> limbs_val (div_loop shift num dv pn) = limbs_val pn + limbs_val num div limbs_val b"
proof (induction shift arbitrary: num dv pn)
  case 0
  let ?b = "limbs_val b"
  have cmp: "CompareTo num dv \<ge> 0 \<longleftrightarrow> ?b \<le> limbs_val num" using CompareTo_ge [of num dv] 0 by simp
  have nb: "\<not> bit (limbs_val pn) 0" using 0(8) by (simp add: bit_0)
  have or: "limbs_val (or_at 0 1 pn) = limbs_val pn + 1" using or_at_val [OF _ nb] 0 by simp
  have "limbs_val num div ?b = (if ?b \<le> limbs_val num then 1 else 0)"
    using 0(5,7) limbs_val_bounds [of num] by (auto intro: int_div_pos_eq [where r = "limbs_val num - ?b"])
  then show ?case using cmp or 0 by (subst div_loop.simps, subst (2) div_loop.simps) simp
next
  case (Suc shift)
  let ?b = "limbs_val b"
  define num' where "num' = (if CompareTo num dv \<ge> 0 then uint_sub num dv else num)"
  define pn' where "pn' = (if CompareTo num dv \<ge> 0 then or_at (Suc shift div 32) (push_bit (Suc shift mod 32) 1) pn else pn)"
  have run: "div_loop (Suc shift) num dv pn = div_loop shift num' (uint_shr dv 1) pn'"
    by (subst div_loop.simps) (simp add: num'_def pn'_def)
  have cmp: "CompareTo num dv \<ge> 0 \<longleftrightarrow> ?b * 2 ^ Suc shift \<le> limbs_val num" using CompareTo_ge [of num dv] Suc(3,4,7) by simp
  have bits: "\<not> bit (limbs_val pn) (Suc shift)" using Suc(9) by (auto simp: bit_iff_odd elim!: dvdE)
  have num: "limbs_val num' = (if ?b * 2 ^ Suc shift \<le> limbs_val num then limbs_val num - ?b * 2 ^ Suc shift else limbs_val num)"
  proof (cases "?b * 2 ^ Suc shift \<le> limbs_val num")
    case True
    then have "limbs_val (uint_sub num dv) = (limbs_val num - limbs_val dv) mod 2 ^ (32 * length b)" using uint_sub_val [of num dv] Suc(3,4) by simp
    moreover have "limbs_val num < 2 ^ (32 * length b)" "0 \<le> limbs_val dv" "limbs_val dv \<le> limbs_val num"
      using limbs_val_bounds [of num] limbs_val_bounds [of dv] True unfolding Suc(3,7) by blast+
    then have "(limbs_val num - limbs_val dv) mod 2 ^ (32 * length b) = limbs_val num - limbs_val dv" by (intro mod_pos_pos_trivial) linarith+
    ultimately show ?thesis using True cmp Suc(7) by (simp add: num'_def)
  qed (use cmp in \<open>simp add: num'_def\<close>)
  have pn: "limbs_val pn' = limbs_val pn + (if ?b * 2 ^ Suc shift \<le> limbs_val num then 2 ^ Suc shift else 0)"
    using cmp or_at_val [OF _ bits] Suc(2,5) by (simp add: pn'_def)
  have dv: "limbs_val (uint_shr dv 1) = ?b * 2 ^ shift" using Suc(7) by (simp add: uint_shr_val)
  have len: "length num' = length b" "length pn' = length b" "length (uint_shr dv 1) = length b"
    using Suc(3-5) uint_sub_val [of num dv] by (simp_all add: num'_def pn'_def uint_shr_val)
  have "length (div_loop shift num' (uint_shr dv 1) pn') = length b
      \<and> limbs_val (div_loop shift num' (uint_shr dv 1) pn') = limbs_val pn' + limbs_val num' div ?b"
  proof (rule Suc(1))
    show "limbs_val num' < ?b * 2 ^ (shift + 1)" using Suc(8) by (simp add: num)
    show "2 ^ (shift + 1) dvd limbs_val pn'"
      using Suc(9) unfolding pn by (intro dvd_add) (auto simp: power_add elim: dvd_mult_left)
  qed (use Suc(2,6) dv len in simp_all)
  moreover have "(limbs_val num - ?b * 2 ^ Suc shift) div ?b = limbs_val num div ?b - 2 ^ Suc shift"
    using div_mult_self4 [of ?b "- (2 ^ Suc shift)" "limbs_val num"] Suc(6) by simp
  ultimately show ?case unfolding run pn num by auto
qed

lemma uint_div_val:
  assumes len: "length a = length b"
  shows "(limbs_val b = 0 \<longrightarrow> uint_div a b = None)
    \<and> (limbs_val b \<noteq> 0 \<longrightarrow> (\<exists>q. uint_div a b = Some q \<and> length q = length b \<and> limbs_val q = limbs_val a div limbs_val b))"
proof (cases "uint_bits b = 0 \<or> uint_bits b > uint_bits a")
  case True
  have "limbs_val a < limbs_val b" if "uint_bits b \<noteq> 0" "uint_bits b > uint_bits a"
  proof -
    have "(2 :: int) ^ uint_bits a \<le> 2 ^ (uint_bits b - 1)" using that by (intro power_increasing) auto
    then show ?thesis using uint_bits_val(2) [OF that(1)] uint_bits_val(3) [of a] by linarith
  qed
  then show ?thesis using True len limbs_val_bounds [of a] uint_bits_val(1) [of b] by (auto simp: uint_div_def)
next
  case False
  let ?s = "uint_bits a - uint_bits b"
  have nz: "uint_bits b \<noteq> 0" "limbs_val b \<noteq> 0" using False by (simp_all add: uint_bits_val(1))
  have s: "?s < 32 * length b" using False uint_bits_val(4) [of a] len by linarith
  have e: "(2 :: int) ^ uint_bits a = 2 ^ uint_bits b * 2 ^ ?s" using False by (simp add: power_add [symmetric])
  have "limbs_val b * 2 ^ ?s < 2 ^ uint_bits a" unfolding e using uint_bits_val(3) [of b] by simp
  also have "(2 :: int) ^ uint_bits a \<le> 2 ^ (32 * length b)" using uint_bits_val(4) [of a] len by (intro power_increasing) simp_all
  finally have dv: "limbs_val (uint_shl b ?s) = limbs_val b * 2 ^ ?s" using limbs_val_bounds [of b] by (simp add: uint_shl_val)
  have "(2 :: int) ^ uint_bits b = 2 ^ (uint_bits b - 1) * 2" using nz(1) by (metis Suc_diff_1 mult.commute not_gr_zero power_Suc)
  then have "2 ^ uint_bits b \<le> limbs_val b * 2" using uint_bits_val(2) [OF nz(1)] by simp
  then have "2 ^ uint_bits b * 2 ^ ?s \<le> limbs_val b * 2 * 2 ^ ?s" by (rule mult_right_mono) simp
  moreover have "limbs_val b * 2 * 2 ^ ?s = limbs_val b * 2 ^ (?s + 1)" by simp
  ultimately have num: "limbs_val a < limbs_val b * 2 ^ (?s + 1)" using uint_bits_val(3) [of a] unfolding e by linarith
  have pos: "0 < limbs_val b" using nz(2) limbs_val_bounds [of b] by linarith
  from div_loop_val [OF s _ _ _ pos dv num, of "replicate (length b) 0"] False nz(2) len
  show ?thesis by (simp add: uint_div_def uint_shl_val Let_def)
qed

subsection \<open>Conversions\<close>

lemma base_uint_of_val: "length (base_uint_of (W + 2) b) = W + 2" "limbs_val (base_uint_of (W + 2) b) = uint b"
proof -
  show "length (base_uint_of (W + 2) b) = W + 2" by (simp add: base_uint_of_def)
  have "uint (ucast b :: 32 word) = uint b mod 2 ^ 32" by (simp add: unsigned_ucast_eq take_bit_eq_mod)
  moreover have "uint (ucast (drop_bit 32 b) :: 32 word) = uint b div 2 ^ 32"
  proof -
    have "uint b div 2 ^ 32 < 2 ^ 32" "0 \<le> uint b div 2 ^ 32" using uint_lt2p [of b] by (simp, simp add: pos_imp_zdiv_nonneg_iff)
    moreover have "uint (ucast (drop_bit 32 b) :: 32 word) = (uint b div 2 ^ 32) mod 2 ^ 32"
      unfolding split64(2) [symmetric] by (simp only: unsigned_ucast_eq take_bit_eq_mod) simp
    ultimately show ?thesis by (metis mod_pos_pos_trivial)
  qed
  ultimately show "limbs_val (base_uint_of (W + 2) b) = uint b" by (simp add: base_uint_of_def)
qed

lemma GetLow64_val: "uint (GetLow64 (x # y # pn)) = limbs_val (x # y # pn) mod 2 ^ 64"
proof -
  have "bit (uint (GetLow64 (x # y # pn))) n = bit (take_bit 64 (limbs_val (x # y # pn))) n" for n
  proof (cases "n < 64")
    case True
    obtain q r where n: "n = 32 * q + r" "r < 32" "n div 32 = q" "n mod 32 = r" by (rule limb_cases)
    then consider "q = 0" | "q = 1" using True by linarith
    then show ?thesis
    proof cases
      case 1
      then show ?thesis using True n by (simp add: GetLow64_def del: limbs_val.simps add: bit_uint_iff bit_or_iff bit_push_bit_iff bit_ucast_iff bit_take_bit_iff bit_limbs_val)
    next
      case 2
      then have "n = 32 + r" using n by simp
      then show ?thesis using True n 2 bit_imp_le_length [of x "32 + r"]
        by (auto simp del: limbs_val.simps simp: GetLow64_def bit_uint_iff bit_or_iff bit_push_bit_iff bit_ucast_iff bit_take_bit_iff bit_limbs_val)
    qed
  qed (simp add: bit_uint_iff bit_take_bit_iff)
  then have "uint (GetLow64 (x # y # pn)) = take_bit 64 (limbs_val (x # y # pn))" by (rule bit_eqI)
  then show ?thesis by (simp add: take_bit_eq_mod)
qed

subsection \<open>Compact numbers\<close>

text \<open>The fields of a compact number: size, sign and mantissa.\<close>

definition compact_value :: "nat \<Rightarrow> int \<Rightarrow> int" where
  "compact_value e m = (if e \<le> 3 then m div 256 ^ (3 - e) else m * 256 ^ (e - 3))"

lemma and_mask32: "uint (c AND 0x007fffff :: 32 word) = uint c mod 2 ^ 23" "c AND 0x00800000 \<noteq> 0 \<longleftrightarrow> bit (c :: 32 word) 23" "uint (drop_bit n c) = uint c div 2 ^ n"
proof -
  have "(0x007fffff :: 32 word) = mask 23" "(0x00800000 :: 32 word) = 2 ^ 23" by (simp_all add: mask_eq_exp_minus_1)
  then have m: "c AND 0x007fffff = take_bit 23 c" and e: "c AND 0x00800000 = c AND 2 ^ 23" by (simp_all only: take_bit_eq_mask)
  have "uint (take_bit 23 c) = take_bit 23 (uint c)" by (simp only: unsigned_take_bit_eq)
  then show "uint (c AND 0x007fffff) = uint c mod 2 ^ 23" unfolding m by (simp only: take_bit_eq_mod)
  show "c AND 0x00800000 \<noteq> 0 \<longleftrightarrow> bit c 23" unfolding e by (simp only: and_exp_eq_0_iff_not_bit) simp
  have "uint (drop_bit n c) = drop_bit n (uint c)"
  proof (rule bit_eqI)
    fix k
    show "bit (uint (drop_bit n c)) k = bit (drop_bit n (uint c)) k"
      using bit_imp_le_length [of c "n + k"] by (auto simp: bit_uint_iff bit_drop_bit_eq)
  qed
  then show "uint (drop_bit n c) = uint c div 2 ^ n" by (simp only: drop_bit_eq_div)
qed

lemma int_div_le: "0 \<le> m \<Longrightarrow> 0 < d \<Longrightarrow> m div d \<le> m" for m d :: int
  using zdiv_mono2 [of m 1 d] by simp

lemma compact_overflow:
  assumes "0 \<le> m" and "m < 2 ^ 23"
  shows "2 ^ 256 \<le> compact_value e m \<longleftrightarrow> 3 < e \<and> m \<noteq> 0 \<and> (e > 34 \<or> m > 0xff \<and> e > 33 \<or> m > 0xffff \<and> e > 32)"
proof -
  have w: "(256 :: int) ^ n = 2 ^ (8 * n)" for n by (simp add: power_mult)
  consider "e \<le> 3" | "3 < e" "e \<le> 32" | "e = 33" | "e = 34" | "e > 34" by linarith
  then show ?thesis
  proof cases
    case 1
    have "m div 256 ^ (3 - e) \<le> m" using assms(1) by (intro int_div_le) simp_all
    then show ?thesis using 1 assms(2) by (simp add: compact_value_def)
  next
    case 2
    have "m * 256 ^ (e - 3) \<le> 2 ^ 23 * 256 ^ 29" using 2 assms by (intro mult_mono power_increasing) simp_all
    then show ?thesis using 2 by (simp add: compact_value_def)
  next
    case 3
    then show ?thesis using assms by (simp add: compact_value_def) linarith
  next
    case 4
    then show ?thesis using assms by (simp add: compact_value_def) linarith
  next
    case 5
    have "(256 :: int) ^ 32 \<le> 256 ^ (e - 3)" using 5 by (intro power_increasing) simp_all
    then have "m \<noteq> 0 \<Longrightarrow> 1 * 256 ^ 32 \<le> m * 256 ^ (e - 3)" using assms(1) by (intro mult_mono) simp_all
    then show ?thesis using 5 assms by (auto simp: compact_value_def)
  qed
qed

lemma SetCompact_val:
  fixes c :: "32 word"
  assumes e: "e = nat (uint c div 2 ^ 24)" and m: "m = uint c mod 2 ^ 23"
  shows "\<exists>v. SetCompact c = (v, compact_value e m \<noteq> 0 \<and> bit c 23, 2 ^ 256 \<le> compact_value e m)
    \<and> length v = 8 \<and> limbs_val v = compact_value e m mod 2 ^ 256"
proof -
  have w: "(256 :: int) ^ n = 2 ^ (8 * n)" for n by (simp add: power_mult)
  define n0 where "n0 = c AND 0x007fffff"
  define n1 where "n1 = (if e \<le> 3 then drop_bit (8 * (3 - e)) n0 else n0)"
  define v where "v = (if e \<le> 3 then base_uint_of 8 (ucast n1) else uint_shl (base_uint_of 8 (ucast n1)) (8 * (e - 3)))"
  have size: "unat (drop_bit 24 c) = e" unfolding e unat_eq_nat_uint and_mask32(3) ..
  have n0: "uint n0 = m" unfolding n0_def m by (rule and_mask32(1))
  have n1: "uint n1 = (if e \<le> 3 then m div 256 ^ (3 - e) else m)" unfolding n1_def w by (simp add: and_mask32(3) n0)
  have mb: "0 \<le> m" "m < 2 ^ 23" by (simp_all add: m)
  note of = base_uint_of_val [of 6, simplified]
  have len: "length v = 8" by (simp add: v_def uint_shl_val of)
  have val: "limbs_val v = compact_value e m mod 2 ^ 256"
  proof (cases "e \<le> 3")
    case True
    have "m div 256 ^ (3 - e) \<le> m" "0 \<le> m div 256 ^ (3 - e)" using mb(1) by (auto intro!: int_div_le simp: pos_imp_zdiv_nonneg_iff)
    then show ?thesis using True mb by (simp add: v_def of n1 compact_value_def)
  next
    case False
    then show ?thesis by (simp add: v_def of n1 compact_value_def uint_shl_val w)
  qed
  have nz: "n1 \<noteq> 0 \<longleftrightarrow> compact_value e m \<noteq> 0" using n1 by (simp add: word_uint_eq_iff compact_value_def)
  have over: "n1 \<noteq> 0 \<and> (e > 34 \<or> n1 > 0xff \<and> e > 33 \<or> n1 > 0xffff \<and> e > 32) \<longleftrightarrow> 2 ^ 256 \<le> compact_value e m"
    unfolding compact_overflow [OF mb] using n1 by (auto simp: word_uint_eq_iff word_less_def)
  have "SetCompact c = (v, n1 \<noteq> 0 \<and> c AND 0x00800000 \<noteq> 0, n1 \<noteq> 0 \<and> (e > 34 \<or> n1 > 0xff \<and> e > 33 \<or> n1 > 0xffff \<and> e > 32))"
    unfolding SetCompact_def Let_def size n0_def [symmetric] n1_def [symmetric] v_def [symmetric] ..
  then have "SetCompact c = (v, compact_value e m \<noteq> 0 \<and> bit c 23, 2 ^ 256 \<le> compact_value e m)" unfolding over unfolding nz and_mask32(2) .
  then show ?thesis using len val by blast
qed

lemma small_bits:
  fixes w :: "32 word"
  assumes "uint w < 2 ^ n" and "n \<le> k"
  shows "\<not> bit w k"
proof -
  have "take_bit n (uint w) = uint w" using assms(1) by (simp add: take_bit_int_eq_self)
  then have "\<not> bit (uint w) k" using assms(2) by (metis bit_take_bit_iff linorder_not_le)
  then show ?thesis using bit_imp_le_length [of w k] by (auto simp: bit_uint_iff)
qed

lemma compact_fields:
  fixes w :: "32 word" and k :: nat and s :: bool
  assumes w: "uint w < 2 ^ 23" and k: "k < 256"
  defines "c \<equiv> (w OR push_bit 24 (of_nat k)) OR (if s then 0x00800000 else 0)"
  shows "uint c mod 2 ^ 23 = uint w" and "uint c div 2 ^ 24 = int k" and "bit c 23 \<longleftrightarrow> s"
proof -
  note bw = small_bits [OF w]
  have bk: "\<not> bit k n" if "8 \<le> n" for n
  proof -
    have "take_bit 8 k = k" using k by (simp add: take_bit_nat_eq_self)
    then show ?thesis using that by (metis bit_take_bit_iff linorder_not_le)
  qed
  have sgn: "bit (if s then 0x00800000 else 0 :: 32 word) n \<longleftrightarrow> s \<and> n = 23" for n
  proof -
    have "(0x00800000 :: 32 word) = 2 ^ 23" by simp
    then show ?thesis by (simp only: bit_exp_iff split: if_split) auto
  qed
  have bc: "bit c n \<longleftrightarrow> bit w n \<or> 24 \<le> n \<and> n < 32 \<and> bit k (n - 24) \<or> s \<and> n = 23" for n
    unfolding c_def bit_or_iff sgn by (auto simp: bit_push_bit_iff bit_of_nat_iff)
  show "bit c 23 \<longleftrightarrow> s" using bw by (simp add: bc)
  have "take_bit 23 (uint c) = uint w"
  proof (rule bit_eqI)
    fix n
    show "bit (take_bit 23 (uint c)) n = bit (uint w) n"
      using bw [of n] by (cases "n < 23") (auto simp: bit_take_bit_iff bit_uint_iff bc)
  qed
  then show "uint c mod 2 ^ 23 = uint w" by (simp only: take_bit_eq_mod)
  have "drop_bit 24 (uint c) = int k"
  proof (rule bit_eqI)
    fix n
    show "bit (drop_bit 24 (uint c)) n = bit (int k) n"
      using bw [of "24 + n"] bk [of n] by (cases "n < 8") (auto simp: bit_drop_bit_eq bit_uint_iff bc bit_of_nat_iff)
  qed
  then show "uint c div 2 ^ 24 = int k" by (simp only: drop_bit_eq_div)
qed

lemma compact_unique:
  fixes c d :: "32 word"
  assumes "uint c div 2 ^ 24 = uint d div 2 ^ 24" and "uint c mod 2 ^ 23 = uint d mod 2 ^ 23" and "bit c 23 \<longleftrightarrow> bit d 23"
  shows "c = d"
proof (rule bit_eqI)
  fix n
  have lo: "bit (uint c) n \<longleftrightarrow> bit (uint d) n" if "n < 23"
    using arg_cong [OF assms(2), of "\<lambda>x. bit x n"] that by (simp only: take_bit_eq_mod [symmetric] bit_take_bit_iff) simp
  have hi: "bit (uint c) (24 + j) \<longleftrightarrow> bit (uint d) (24 + j)" for j
    using arg_cong [OF assms(1), of "\<lambda>x. bit x j"] by (simp only: drop_bit_eq_div [symmetric] bit_drop_bit_eq) simp
  assume "possible_bit TYPE(32 word) n"
  then have "n < 32" by simp
  consider "n < 23" | "n = 23" | "24 \<le> n" by linarith
  then show "bit c n = bit d n"
    using lo hi [of "n - 24"] assms(3) \<open>n < 32\<close> by cases (auto simp: bit_uint_iff)
qed

definition compact_size :: "base_uint \<Rightarrow> nat" where
  "compact_size a = (if uint_bits a = 0 then 0 else uint_bits a div 8 + 1)"

definition compact_mantissa :: "nat \<Rightarrow> int \<Rightarrow> int" where
  "compact_mantissa S N = (if S \<le> 3 then N * 256 ^ (3 - S) else N div 256 ^ (S - 3))"


lemma compact_size_le: "length a = 8 \<Longrightarrow> compact_size a \<le> 33"
  using uint_bits_val(4) [of a] div_le_mono [of "uint_bits a" 256 8] by (simp add: compact_size_def)

lemma int_le_div_iff: "0 < d \<Longrightarrow> k \<le> n div d \<longleftrightarrow> k * d \<le> n" for k n d :: int
proof
  assume d: "0 < d"
  show "k * d \<le> n" if "k \<le> n div d"
    using mult_right_mono [OF that, of d] d div_mult_mod_eq [of n d] pos_mod_sign [OF d, of n] by linarith
  show "k \<le> n div d" if "k * d \<le> n" using zdiv_mono1 [OF that d] d by simp
qed

lemma mantissa_ge:
  assumes "0 \<le> N"
  shows "2 ^ j \<le> compact_mantissa S N \<longleftrightarrow> 2 ^ (j + 8 * S) \<le> N * 2 ^ 24"
proof -
  have w: "(256 :: int) ^ n = 2 ^ (8 * n)" for n by (simp add: power_mult)
  show ?thesis
  proof (cases "S \<le> 3")
    case True
    have "24 = 8 * (3 - S) + 8 * S" using True by simp
    then have "(2 :: int) ^ 24 = 2 ^ (8 * (3 - S)) * 2 ^ (8 * S)" by (metis power_add)
    then have "N * 2 ^ 24 = N * 256 ^ (3 - S) * 2 ^ (8 * S)" by (simp add: w)
    moreover have "(2 :: int) ^ (j + 8 * S) = 2 ^ j * 2 ^ (8 * S)" by (rule power_add)
    ultimately have "2 ^ (j + 8 * S) \<le> N * 2 ^ 24 \<longleftrightarrow> 2 ^ j \<le> N * 256 ^ (3 - S)" by (simp only: mult_le_cancel_right) simp
    then show ?thesis using True by (simp only: compact_mantissa_def if_True)
  next
    case False
    let ?d = "2 ^ (8 * (S - 3)) :: int"
    have "8 * S = 8 * (S - 3) + 24" using False by simp
    then have "(2 :: int) ^ (8 * S) = ?d * 2 ^ 24" by (metis power_add)
    then have "(2 :: int) ^ (j + 8 * S) = 2 ^ j * ?d * 2 ^ 24" by (simp add: power_add)
    moreover have "2 ^ j \<le> N div ?d \<longleftrightarrow> 2 ^ j * ?d \<le> N" by (rule int_le_div_iff) simp
    ultimately show ?thesis using False by (simp add: compact_mantissa_def w)
  qed
qed

text \<open>The mantissa before the sign bit is avoided, from the number and its number of bytes.\<close>

lemma mantissa_bounds:
  assumes N: "N < 2 ^ B" "0 \<le> N" "B \<noteq> 0 \<Longrightarrow> 2 ^ (B - 1) \<le> N" and S: "S = (B + 7) div 8"
  shows "compact_mantissa S N < 2 ^ 24" "2 ^ 23 \<le> compact_mantissa S N \<longleftrightarrow> B \<noteq> 0 \<and> B mod 8 = 0" "0 \<le> compact_mantissa S N"
proof -
  have le: "B \<le> 8 * S" unfolding S by presburger
  have "(2 :: int) ^ B \<le> 2 ^ (8 * S)" using le by (intro power_increasing) simp_all
  then have "\<not> 2 ^ (8 * S) \<le> N" using N(1) by linarith
  then have "\<not> 2 ^ (24 + 8 * S) \<le> N * 2 ^ 24" by (simp add: power_add)
  then show "compact_mantissa S N < 2 ^ 24" using mantissa_ge [OF N(2), of 24 S] by simp
  show "0 \<le> compact_mantissa S N" using N(2) by (simp add: compact_mantissa_def pos_imp_zdiv_nonneg_iff)
  have "2 ^ (23 + 8 * S) \<le> N * 2 ^ 24 \<longleftrightarrow> 2 ^ (8 * S) \<le> N * 2" by (simp add: power_add mult.commute)
  also have "\<dots> \<longleftrightarrow> B \<noteq> 0 \<and> B = 8 * S"
  proof
    assume "2 ^ (8 * S) \<le> N * 2"
    moreover have "N * 2 < 2 ^ (B + 1)" using N(1) by simp
    ultimately have "(2 :: int) ^ (8 * S) < 2 ^ (B + 1)" by linarith
    then have "8 * S < B + 1" by (rule power_less_imp_less_exp [rotated]) simp
    moreover have "B \<noteq> 0" using \<open>2 ^ (8 * S) \<le> N * 2\<close> N(1,2) by (cases "B = 0") (auto simp: S)
    ultimately show "B \<noteq> 0 \<and> B = 8 * S" using le by simp
  next
    assume B: "B \<noteq> 0 \<and> B = 8 * S"
    then have "(2 :: int) ^ (8 * S) = 2 ^ (B - 1) * 2" by (metis Suc_diff_1 mult.commute not_gr_zero power_Suc)
    then show "2 ^ (8 * S) \<le> N * 2" using N(3) B by simp
  qed
  also have "\<dots> \<longleftrightarrow> B \<noteq> 0 \<and> B mod 8 = 0" unfolding S by presburger
  finally show "2 ^ 23 \<le> compact_mantissa S N \<longleftrightarrow> B \<noteq> 0 \<and> B mod 8 = 0" unfolding mantissa_ge [OF N(2)] .
qed

lemma mantissa_div256: "0 \<le> N \<Longrightarrow> compact_mantissa S N div 256 = compact_mantissa (Suc S) N"
proof -
  have "N * 256 ^ (3 - S) = N * 256 ^ (3 - Suc S) * 256" if "Suc S \<le> 3"
  proof -
    have "3 - S = Suc (3 - Suc S)" using that by simp
    then show ?thesis by simp
  qed
  moreover have "N div 256 ^ (Suc S - 3) = N div 256 ^ (S - 3) div 256" if "3 < S"
  proof -
    have "Suc S - 3 = Suc (S - 3)" using that by simp
    then show ?thesis by (simp only: power_Suc2 zdiv_zmult2_eq)
  qed
  ultimately show ?thesis by (cases "Suc S \<le> 3"; cases "S = 3") (auto simp: compact_mantissa_def)
qed

lemma uint_ucast_down: "uint (ucast (w :: 64 word) :: 32 word) = uint w mod 2 ^ 32"
  by (simp only: unsigned_ucast_eq take_bit_eq_mod) simp

lemma top_bit:
  fixes w :: "32 word"
  assumes "uint w < 2 ^ 24"
  shows "bit w 23 \<longleftrightarrow> 2 ^ 23 \<le> uint w"
proof
  show "2 ^ 23 \<le> uint w" if "bit w 23" using small_bits [of w 23 23] that by fastforce
  assume ge: "2 ^ 23 \<le> uint w"
  then have "uint w div 2 ^ 23 = 1" using assms by (intro int_div_pos_eq [where r = "uint w - 2 ^ 23"]) simp_all
  then have "odd (uint w div 2 ^ 23)" by simp
  then have "bit (uint w) 23" unfolding bit_iff_odd .
  then show "bit w 23" by (simp add: bit_uint_iff)
qed

lemma GetLow64_8: "length a = 8 \<Longrightarrow> uint (GetLow64 a) = limbs_val a mod 2 ^ 64"
proof -
  assume "length a = 8"
  then obtain x b where "a = x # b" "length b = 7" by (cases a) auto
  moreover then obtain y pn where "b = y # pn" by (cases b) auto
  ultimately show ?thesis using GetLow64_val by blast
qed

definition compact_first :: "base_uint \<Rightarrow> nat \<Rightarrow> 32 word" where
  "compact_first a S = (if S \<le> 3 then ucast (push_bit (8 * (3 - S)) (GetLow64 a)) else ucast (GetLow64 (uint_shr a (8 * (S - 3)))))"

lemma compact_first_val:
  assumes a: "length a = 8" and S: "S = (uint_bits a + 7) div 8"
  shows "uint (compact_first a S) = compact_mantissa S (limbs_val a)"
proof -
  let ?N = "limbs_val a"
  have w: "(256 :: int) ^ n = 2 ^ (8 * n)" for n by (simp add: power_mult)
  have N: "0 \<le> ?N" using limbs_val_bounds [of a] by simp
  have m: "0 \<le> compact_mantissa S ?N" "compact_mantissa S ?N < 2 ^ 24"
    using mantissa_bounds(1,3) [OF uint_bits_val(3) [of a] N uint_bits_val(2) S] by simp_all
  show ?thesis
  proof (cases "S \<le> 3")
    case True
    let ?k = "8 * (3 - S)"
    have e: "compact_mantissa S ?N = ?N * 2 ^ ?k" using True by (simp add: compact_mantissa_def w)
    have "(1 :: int) \<le> 2 ^ ?k" by simp
    then have "?N * 1 \<le> ?N * 2 ^ ?k" using N by (rule mult_left_mono)
    then have "uint (GetLow64 a) = ?N" using GetLow64_8 [OF a] N m e by simp
    moreover have "uint (push_bit ?k (GetLow64 a)) = (uint (GetLow64 a) * 2 ^ ?k) mod 2 ^ 64"
      unfolding unsigned_push_bit_eq by (simp add: take_bit_eq_mod push_bit_eq_mult)
    ultimately show ?thesis using True m unfolding e by (simp add: compact_first_def uint_ucast_down del: push_bit_eq_mult)
  next
    case False
    have e: "compact_mantissa S ?N = ?N div 2 ^ (8 * (S - 3))" using False by (simp add: compact_mantissa_def w)
    have "uint (GetLow64 (uint_shr a (8 * (S - 3)))) = ?N div 2 ^ (8 * (S - 3)) mod 2 ^ 64"
      using GetLow64_8 [of "uint_shr a (8 * (S - 3))"] a by (simp add: uint_shr_val)
    then show ?thesis using False m unfolding e by (simp add: compact_first_def uint_ucast_down)
  qed
qed

lemma size_bytes:
  fixes B :: nat
  shows "(if B \<noteq> 0 \<and> B mod 8 = 0 then (B + 7) div 8 + 1 else (B + 7) div 8) = (if B = 0 then 0 else B div 8 + 1)"
proof -
  obtain q r where B: "B = 8 * q + r" "r < 8" by (metis mod_less_divisor mult_div_mod_eq zero_less_numeral)
  have d: "B div 8 = q" "B mod 8 = r" using B by simp_all
  have "B + 7 = 8 * q + (r + 7)" using B(1) by simp
  then have "(B + 7) div 8 = q + (r + 7) div 8" by simp
  moreover have "(r + 7) div 8 = (if r = 0 then 0 else 1)" using B(2) by (simp add: div_nat_eqI)
  ultimately show ?thesis using B(1) d by auto
qed

lemma GetCompact_val:
  assumes a: "length a = 8"
  shows "\<exists>c. GetCompact a s = Some c \<and> uint c div 2 ^ 24 = int (compact_size a)
    \<and> uint c mod 2 ^ 23 = compact_mantissa (compact_size a) (limbs_val a) \<and> (bit c 23 \<longleftrightarrow> s \<and> limbs_val a \<noteq> 0)"
proof -
  define B where "B = uint_bits a"
  define N where "N = limbs_val a"
  define S0 where "S0 = (B + 7) div 8"
  define n0 where "n0 = compact_first a S0"
  define sign where "sign = bit n0 23"
  define n1 where "n1 = (if sign then drop_bit 8 n0 else n0)"
  define S where "S = (if sign then S0 + 1 else S0)"
  define c0 where "c0 = n1 OR push_bit 24 (of_nat S)"
  have N: "0 \<le> N" "N < 2 ^ B" "B \<noteq> 0 \<Longrightarrow> 2 ^ (B - 1) \<le> N" "N = 0 \<longleftrightarrow> B = 0"
    using limbs_val_bounds [of a] uint_bits_val [of a] by (simp_all add: N_def B_def)
  note m = mantissa_bounds [OF N(2,1,3) S0_def]
  have n0: "uint n0 = compact_mantissa S0 N" unfolding n0_def N_def by (rule compact_first_val [OF a]) (simp add: S0_def B_def)
  have sg: "sign \<longleftrightarrow> B \<noteq> 0 \<and> B mod 8 = 0" using top_bit [of n0] m n0 by (simp add: sign_def)
  have S: "S = compact_size a" unfolding S_def S0_def compact_size_def B_def [symmetric] sg by (rule size_bytes)
  have n1: "uint n1 = compact_mantissa S N"
    using n0 mantissa_div256 [OF N(1), of S0] by (simp add: n1_def S_def and_mask32(3))
  have lt: "uint n1 < 2 ^ 23"
  proof (cases sign)
    case True
    then have "uint n1 = compact_mantissa S0 N div 256" using n0 by (simp add: n1_def and_mask32(3))
    then show ?thesis using m(1) by simp
  next
    case False
    then have "uint n1 = compact_mantissa S0 N" using n0 by (simp add: n1_def)
    moreover have "\<not> 2 ^ 23 \<le> compact_mantissa S0 N" using False m(2) sg by auto
    ultimately show ?thesis by simp
  qed
  have k: "S < 256" using compact_size_le [OF a] S by simp
  have "n1 AND NOT 0x007fffff = 0"
  proof (rule bit_eqI)
    fix i
    have "(0x007fffff :: 32 word) = mask 23" by (simp add: mask_eq_exp_minus_1)
    then show "bit (n1 AND NOT 0x007fffff) i = bit 0 i"
      using small_bits [OF lt, of i] by (cases "i < 23") (simp_all only: bit_and_iff bit_not_iff bit_mask_iff bit_0_eq bot_apply, auto)
  qed
  then have run: "GetCompact a s = Some (c0 OR (if s \<and> c0 AND 0x007fffff \<noteq> 0 then 0x00800000 else 0))"
    using k unfolding GetCompact_def Let_def B_def [symmetric] S0_def [symmetric] compact_first_def [symmetric] n0_def [symmetric] and_mask32(2)
      sign_def [symmetric] n1_def [symmetric] S_def [symmetric] c0_def [symmetric] by simp
  have "uint (c0 AND 0x007fffff) = uint n1"
    using compact_fields(1) [OF lt k, of False] by (simp add: and_mask32(1) c0_def)
  then have nz: "c0 AND 0x007fffff \<noteq> 0 \<longleftrightarrow> compact_mantissa S N \<noteq> 0" using n1 by (simp only: word_uint_eq_iff) simp
  have mN: "compact_mantissa S N \<noteq> 0 \<longleftrightarrow> N \<noteq> 0"
  proof (cases "B = 0")
    case True
    then show ?thesis using N(4) by (simp add: compact_mantissa_def)
  next
    case False
    have "0 + 8 * S \<le> (B - 1) + 24" unfolding S compact_size_def B_def [symmetric] using False by simp
    then have "(2 :: int) ^ (0 + 8 * S) \<le> 2 ^ (B - 1) * 2 ^ 24" unfolding power_add [symmetric] by (intro power_increasing) simp_all
    also have "\<dots> \<le> N * 2 ^ 24" using N(3) [OF False] by (intro mult_right_mono) simp_all
    finally have "2 ^ 0 \<le> compact_mantissa S N" unfolding mantissa_ge [OF N(1)] .
    then show ?thesis using N(4) False by auto
  qed
  define c where "c = c0 OR (if s \<and> c0 AND 0x007fffff \<noteq> 0 then 0x00800000 else 0)"
  note f = compact_fields [OF lt k, of "s \<and> c0 AND 0x007fffff \<noteq> 0", folded c0_def, folded c_def, unfolded n1]
  have "bit c 23 \<longleftrightarrow> s \<and> N \<noteq> 0" unfolding f(3) nz mN ..
  then show ?thesis using run f(1,2) unfolding c_def [symmetric] S N_def by blast
qed


lemma bits_unique:
  assumes "2 ^ (B - 1) \<le> limbs_val v" and "limbs_val v < 2 ^ B" and "B \<noteq> 0"
  shows "uint_bits v = B"
proof -
  have nz: "uint_bits v \<noteq> 0" using assms(1) uint_bits_val(1) [of v] by auto
  have "(2 :: int) ^ (B - 1) < 2 ^ uint_bits v" "(2 :: int) ^ (uint_bits v - 1) < 2 ^ B"
    using assms(1,2) uint_bits_val(2) [OF nz] uint_bits_val(3) [of v] by linarith+
  then have "B - 1 < uint_bits v" "uint_bits v - 1 < B" by (auto intro: power_less_imp_less_exp [rotated])
  then show ?thesis using assms(3) nz by linarith
qed

lemma compact_truncates:
  assumes "0 \<le> N"
  shows "compact_value S (compact_mantissa S N) = N div 256 ^ (S - 3) * 256 ^ (S - 3)"
  by (cases "S \<le> 3") (simp_all add: compact_value_def compact_mantissa_def)

subsection \<open>Properties of 256-bit numbers\<close>

text \<open>
  \<^bold>\<open>C18\<close>. The compact form of a difficulty target: every 256-bit number has one (the assertions of \<^verbatim>\<open>GetCompact\<close> hold),
  reading it back gives no overflow and the sign that was asked for, the number read back has the same compact form, is at most the original and
  differs from it by less than one part in \<open>2 ^ 15\<close>.
\<close>

theorem compact_roundtrip:
  assumes a: "length a = 8"
  shows "\<exists>c v. GetCompact a s = Some c \<and> SetCompact c = (v, s \<and> limbs_val a \<noteq> 0, False) \<and> length v = 8 \<and> GetCompact v s = Some c
    \<and> limbs_val v \<le> limbs_val a \<and> (limbs_val a - limbs_val v) * 2 ^ 15 \<le> limbs_val a"
proof -
  define N where "N = limbs_val a"
  define S where "S = compact_size a"
  define B where "B = uint_bits a"
  define d where "d = (2 :: int) ^ (8 * (S - 3))"
  define M where "M = N div d * d"
  have w: "(256 :: int) ^ n = 2 ^ (8 * n)" for n by (simp add: power_mult)
  have N: "0 \<le> N" "N < 2 ^ 256" "N < 2 ^ B" "B \<noteq> 0 \<Longrightarrow> 2 ^ (B - 1) \<le> N" "N = 0 \<longleftrightarrow> B = 0"
    using limbs_val_bounds [of a] uint_bits_val [of a] a by (simp_all add: N_def B_def)
  obtain c where c: "GetCompact a s = Some c" "uint c div 2 ^ 24 = int S" "uint c mod 2 ^ 23 = compact_mantissa S N" "bit c 23 \<longleftrightarrow> s \<and> N \<noteq> 0"
    using GetCompact_val [OF a, of s] unfolding N_def S_def by blast
  have val: "compact_value S (compact_mantissa S N) = M" unfolding compact_truncates [OF N(1)] w M_def d_def ..
  have d: "0 < d" by (simp add: d_def)
  have M: "0 \<le> M" "M \<le> N" "N - M < d"
    using d N(1) div_mult_mod_eq [of N d] pos_mod_sign [OF d, of N] pos_mod_bound [OF d, of N] unfolding M_def
    by (simp add: pos_imp_zdiv_nonneg_iff, linarith+)
  have exp: "15 + 8 * (S - 3) \<le> B - 1" if "3 < S" using that by (auto simp: S_def compact_size_def B_def split: if_splits)
  have top: "2 ^ (B - 1) \<le> M" if "B \<noteq> 0"
  proof -
    have "8 * (S - 3) \<le> B - 1" using exp by (cases "3 < S") simp_all
    then have p: "(2 :: int) ^ (B - 1) = 2 ^ (B - 1 - 8 * (S - 3)) * d" by (simp add: d_def power_add [symmetric])
    then have "2 ^ (B - 1 - 8 * (S - 3)) \<le> N div d" using N(4) [OF that] int_le_div_iff [OF d] by simp
    then show ?thesis unfolding p M_def using d by (simp add: mult_right_mono)
  qed
  obtain v where v: "SetCompact c = (v, M \<noteq> 0 \<and> bit c 23, 2 ^ 256 \<le> M)" "length v = 8" "limbs_val v = M mod 2 ^ 256"
    using SetCompact_val [of S c "compact_mantissa S N"] c(2,3) unfolding val by auto
  have vM: "limbs_val v = M" using v(3) M N(2) by simp
  have MN: "M \<noteq> 0 \<longleftrightarrow> N \<noteq> 0" using N(5) top M by (cases "B = 0") auto
  have "uint_bits v = B"
  proof (cases "B = 0")
    case True
    then show ?thesis using MN N(5) vM uint_bits_val(1) [of v] by simp
  next
    case False
    then show ?thesis using bits_unique [of B v] top M(2) N(3) vM by simp
  qed
  then have size: "compact_size v = S" by (simp add: compact_size_def S_def B_def)
  have mant: "compact_mantissa S M = compact_mantissa S N" using d by (auto simp: compact_mantissa_def M_def w d_def)
  obtain c' where c': "GetCompact v s = Some c'" "uint c' div 2 ^ 24 = int S" "uint c' mod 2 ^ 23 = compact_mantissa S M" "bit c' 23 \<longleftrightarrow> s \<and> M \<noteq> 0"
    using GetCompact_val [OF v(2), of s] unfolding size vM by blast
  have "c' = c" by (rule compact_unique) (use c c' mant MN in simp_all)
  have err: "(N - M) * 2 ^ 15 \<le> N"
  proof (cases "3 < S")
    case True
    then have nz: "B \<noteq> 0" by (auto simp: S_def compact_size_def B_def split: if_splits)
    have "(N - M) * 2 ^ 15 \<le> d * 2 ^ 15" using M(3) by simp
    also have "\<dots> = 2 ^ (15 + 8 * (S - 3))" by (simp add: d_def power_add)
    also have "\<dots> \<le> 2 ^ (B - 1)" using exp [OF True] by (intro power_increasing) simp_all
    finally show ?thesis using N(4) [OF nz] by linarith
  next
    case False
    then show ?thesis using N(1) by (simp add: M_def d_def)
  qed
  have "SetCompact c = (v, s \<and> N \<noteq> 0, False)" using v(1) c(4) MN M(2) N(2) by auto
  then show ?thesis using c(1) c'(1) \<open>c' = c\<close> v(2) vM M(2) err unfolding N_def by blast
qed

theorem compact_roundtrip_witness:
  "\<exists>c v. GetCompact [0, 0, 0, 0, 0, 0, 0xffff, 0] False = Some c \<and> GetCompact v False = Some c"
  using compact_roundtrip [of "[0, 0, 0, 0, 0, 0, 0xffff, 0]" False] by auto

text \<open>
  \<^bold>\<open>C16\<close>. The arrays of eight 32-bit limbs implement integers modulo \<open>2 ^ 256\<close>: sum, difference and product with their carries,
  the bitwise long division (which throws exactly for a zero divisor), and the comparison compute the operations of theory \<open>Arith256\<close> on the values of the arrays.
\<close>

theorem arith_uint256_refines:
  assumes a: "length a = 8" and b: "length b = 8"
  shows "limbs_val (uint_add a b) = add256 (limbs_val a) (limbs_val b) \<and> limbs_val (uint_sub a b) = sub256 (limbs_val a) (limbs_val b)
    \<and> limbs_val (uint_mul a b) = mul256 (limbs_val a) (limbs_val b) \<and> map_option limbs_val (uint_div a b) = div256 (limbs_val a) (limbs_val b)
    \<and> (CompareTo a b < 0 \<longleftrightarrow> limbs_val a < limbs_val b) \<and> (CompareTo a b = 0 \<longleftrightarrow> limbs_val a = limbs_val b)
    \<and> length (uint_add a b) = 8 \<and> length (uint_sub a b) = 8 \<and> length (uint_mul a b) = 8 \<and> (\<forall>q. uint_div a b = Some q \<longrightarrow> length q = 8)"
proof -
  have div: "map_option limbs_val (uint_div a b) = div256 (limbs_val a) (limbs_val b) \<and> (\<forall>q. uint_div a b = Some q \<longrightarrow> length q = 8)"
    using uint_div_val [of a b] a b by (cases "limbs_val b = 0") (auto simp: div256_def)
  have cmp: "CompareTo a b = sgn (limbs_val a - limbs_val b)" using CompareTo_val [of a b] a b by simp
  show ?thesis
    using uint_add_val [of a b] uint_sub_val [of a b] uint_mul_val [of a b] div a b unfolding cmp
    by (simp add: add256_def sub256_def mul256_def u256_def sgn_if)
qed

theorem arith_uint256_refines_witness:
  "limbs_val (uint_sub [0, 1, 0, 0, 0, 0, 0, 0] [1, 0, 0, 0, 0, 0, 0, 0]) = 2 ^ 32 - 1"
  using arith_uint256_refines [of "[0, 1, 0, 0, 0, 0, 0, 0]" "[1, 0, 0, 0, 0, 0, 0, 0]"] by (simp add: sub256_def u256_def)

end
