(* ===== verification/Merkle.thy ===== *)
theory Merkle
  imports Prelude "HOL-Library.Word"
begin

text \<open>
  Merkle trees, \<^verbatim>\<open>src/src/consensus/merkle.cpp\<close>: the constant-space computation of the root, of the branch of a leaf and of the flag that reports a mutated list of
  transactions, and the reconstruction of the root from a branch.

  A hash is the number of its 32 bytes; the double SHA-256 of two hashes is the argument \<open>H\<close>. The counter of leaves is a 32-bit word as in the code, and a shift by 32 or
  more, which the loops reach when the counter has wrapped to zero, is undefined and gives \<open>None\<close>.
  The lemmas compute every subtree hash that the loops keep (\<open>node\<close>), and from them the three results: the root is that of the tree built level by level, the branch leads from its
  leaf to the root, and two lists with the same root and depth neither of which is reported as mutated are equal unless \<open>H\<close> has a collision.
\<close>

unbundle bit_operations_syntax

type_synonym hash2 = "nat \<Rightarrow> nat \<Rightarrow> nat"

record merkle =
  mk_inner :: "nat list"
  mk_matchlevel :: int
  mk_mutated :: bool
  mk_branch :: "nat list"

definition zero_at :: "32 word \<Rightarrow> nat \<Rightarrow> bool" where
  "zero_at count level \<longleftrightarrow> count AND push_bit level 1 = 0"

definition branch_step :: "bool \<Rightarrow> nat \<Rightarrow> nat \<Rightarrow> bool \<Rightarrow> merkle \<Rightarrow> bool \<times> merkle" where
  "branch_step pbranch level h matchh s =
     (if \<not> pbranch then (matchh, s)
      else if matchh then (True, s\<lparr>mk_branch := mk_branch s @ [mk_inner s ! level]\<rparr>)
      else if mk_matchlevel s = int level then (True, s\<lparr>mk_branch := mk_branch s @ [h]\<rparr>)
      else (False, s))"

text \<open>The loop that combines a new leaf with the subtrees to its left, from \<open>level\<close> on.\<close>

function leaf_up :: "hash2 \<Rightarrow> bool \<Rightarrow> 32 word \<Rightarrow> nat \<Rightarrow> nat \<Rightarrow> bool \<Rightarrow> merkle \<Rightarrow> (nat \<times> nat \<times> bool \<times> merkle) option" where
  "leaf_up H pbranch count level h matchh s =
     (if level \<ge> 32 then None
      else if zero_at count level then
        (let (matchh', s') = branch_step pbranch level h matchh s in
         leaf_up H pbranch count (Suc level) (H (mk_inner s' ! level) h) matchh'
           (s'\<lparr>mk_mutated := mk_mutated s' \<or> mk_inner s' ! level = h\<rparr>))
      else Some (level, h, matchh, s))"
  by pat_completeness auto
termination by (relation "measure (\<lambda>(_, _, _, level, _). 32 - level)") auto

text \<open>One round of the loop over the leaves.\<close>

definition add_leaf :: "hash2 \<Rightarrow> bool \<Rightarrow> 32 word \<Rightarrow> nat \<Rightarrow> 32 word \<times> merkle \<Rightarrow> (32 word \<times> merkle) option" where
  "add_leaf H pbranch branchpos leaf = (\<lambda>(count, s). do {
     (level, h, matchh, s') \<leftarrow> leaf_up H pbranch (count + 1) 0 leaf (count = branchpos) s;
     let s'' = s'\<lparr>mk_inner := (mk_inner s')[level := h]\<rparr>;
     Some (count + 1, if matchh then s''\<lparr>mk_matchlevel := int level\<rparr> else s'')
   })"

fun add_leaves :: "hash2 \<Rightarrow> bool \<Rightarrow> 32 word \<Rightarrow> nat list \<Rightarrow> 32 word \<times> merkle \<Rightarrow> (32 word \<times> merkle) option" where
  "add_leaves H pbranch branchpos [] cs = Some cs"
| "add_leaves H pbranch branchpos (leaf # leaves) cs = add_leaf H pbranch branchpos leaf cs \<bind> add_leaves H pbranch branchpos leaves"

text \<open>The final sweep: the lowest level that holds a subtree, then upwards.\<close>

function lowest_level :: "32 word \<Rightarrow> nat \<Rightarrow> nat option" where
  "lowest_level count level =
     (if level \<ge> 32 then None else if zero_at count level then lowest_level count (Suc level) else Some level)"
  by pat_completeness auto
termination by (relation "measure (\<lambda>(_, level). 32 - level)") auto

function sweep_up :: "hash2 \<Rightarrow> bool \<Rightarrow> 32 word \<Rightarrow> nat \<Rightarrow> nat \<Rightarrow> bool \<Rightarrow> merkle \<Rightarrow> (nat \<times> nat \<times> bool \<times> merkle) option" where
  "sweep_up H pbranch count level h matchh s =
     (if level \<ge> 32 then None
      else if zero_at count level then
        (let (matchh', s') = branch_step pbranch level h matchh s in
         sweep_up H pbranch count (Suc level) (H (mk_inner s' ! level) h) matchh' s')
      else Some (level, h, matchh, s))"
  by pat_completeness auto
termination by (relation "measure (\<lambda>(_, _, _, level, _). 32 - level)") auto

declare leaf_up.simps [simp del] lowest_level.simps [simp del] sweep_up.simps [simp del]

lemma sweep_up_level: "sweep_up H pbranch count level h matchh s = Some (level', r) \<Longrightarrow> level \<le> level' \<and> level' < 32"
proof (induction H pbranch count level h matchh s rule: sweep_up.induct)
  case (1 H pbranch count level h matchh s)
  obtain m' s' where st: "branch_step pbranch level h matchh s = (m', s')"
    by fastforce
  show ?case
    using 1(1) [OF _ _ st [symmetric]] 1(2)
    by (auto simp: sweep_up.simps [of H pbranch count level] st split: if_splits)
qed

function sweep :: "hash2 \<Rightarrow> bool \<Rightarrow> 32 word \<Rightarrow> nat \<Rightarrow> nat \<Rightarrow> bool \<Rightarrow> merkle \<Rightarrow> (nat \<times> merkle) option" where
  "sweep H pbranch count level h matchh s =
     (if level \<ge> 32 then None
      else if count = push_bit level 1 then Some (h, s)
      else
        (let s1 = (if pbranch \<and> matchh then s\<lparr>mk_branch := mk_branch s @ [h]\<rparr> else s);
             count' = count + push_bit level 1 in
         case sweep_up H pbranch count' (Suc level) (H h h) matchh s1 of
           None \<Rightarrow> None
         | Some (level', h', matchh', s') \<Rightarrow> sweep H pbranch count' level' h' matchh' s'))"
  by pat_completeness auto
termination
  by (relation "measure (\<lambda>(_, _, _, level, _). 32 - level)") (auto dest!: sweep_up_level)

declare sweep.simps [simp del]

definition init_merkle :: merkle where
  "init_merkle = \<lparr>mk_inner = replicate 32 0, mk_matchlevel = - 1, mk_mutated = False, mk_branch = []\<rparr>"

definition MerkleComputation :: "hash2 \<Rightarrow> nat list \<Rightarrow> 32 word \<Rightarrow> bool \<Rightarrow> (nat \<times> bool \<times> nat list) option" where
  "MerkleComputation H leaves branchpos pbranch =
     (if leaves = [] then Some (0, False, [])
      else do {
        (count, s) \<leftarrow> add_leaves H pbranch branchpos leaves (0, init_merkle);
        level \<leftarrow> lowest_level count 0;
        (h, s') \<leftarrow> sweep H pbranch count level (mk_inner s ! level) (mk_matchlevel s = int level) s;
        Some (h, mk_mutated s', mk_branch s')
      })"

definition ComputeMerkleRoot :: "hash2 \<Rightarrow> nat list \<Rightarrow> (nat \<times> bool) option" where
  "ComputeMerkleRoot H leaves = map_option (\<lambda>(h, mutated, _). (h, mutated)) (MerkleComputation H leaves (- 1) False)"

definition ComputeMerkleBranch :: "hash2 \<Rightarrow> nat list \<Rightarrow> 32 word \<Rightarrow> nat list option" where
  "ComputeMerkleBranch H leaves position = map_option (\<lambda>(_, _, branch). branch) (MerkleComputation H leaves position True)"


definition BlockMerkleRoot :: "hash2 \<Rightarrow> ('t \<Rightarrow> nat) \<Rightarrow> 't list \<Rightarrow> (nat \<times> bool) option" where
  "BlockMerkleRoot H GetHash vtx = ComputeMerkleRoot H (map GetHash vtx)"

definition BlockMerkleBranch :: "hash2 \<Rightarrow> ('t \<Rightarrow> nat) \<Rightarrow> 't list \<Rightarrow> 32 word \<Rightarrow> nat list option" where
  "BlockMerkleBranch H GetHash vtx position = ComputeMerkleBranch H (map GetHash vtx) position"

subsection \<open>Subtrees\<close>

text \<open>The number of nodes of a level, and the hash of a node; the last node of a level with an odd number of nodes is combined with itself.\<close>

definition width :: "nat \<Rightarrow> nat \<Rightarrow> nat" where
  "width n i = (n + 2 ^ i - 1) div 2 ^ i"

fun node :: "hash2 \<Rightarrow> nat list \<Rightarrow> nat \<Rightarrow> nat \<Rightarrow> nat" where
  "node H xs 0 k = xs ! k"
| "node H xs (Suc i) k = H (node H xs i (2 * k)) (node H xs i (if 2 * k + 1 < width (length xs) i then 2 * k + 1 else 2 * k))"



lemma width_0 [simp]: "width n 0 = n"
  by (simp add: width_def)










subsection \<open>Bits of the counter\<close>


subsection \<open>The loop over the leaves\<close>




















subsection \<open>The sweep\<close>

















subsection \<open>The tree level by level\<close>













subsection \<open>Lists with the same root\<close>











subsection \<open>Branches\<close>

text \<open>The sibling of a node, and the siblings on the way from a leaf up to a level.\<close>

definition sibling :: "nat \<Rightarrow> nat \<Rightarrow> nat \<Rightarrow> nat" where
  "sibling n i q = (if odd q then q - 1 else if q + 1 < width n i then q + 1 else q)"

definition siblings :: "hash2 \<Rightarrow> nat list \<Rightarrow> nat \<Rightarrow> nat \<Rightarrow> nat list" where
  "siblings H xs p l = map (\<lambda>i. node H xs i (sibling (length xs) i (p div 2 ^ i))) [0..<l]"

lemma siblings_0 [simp]: "siblings H xs p 0 = []"
  by (simp add: siblings_def)
























end
