(* ===== verification/Text.thy ===== *)
theory Text
  imports Prelude
begin

text \<open>
  The text formats the token layer builds keys and messages with: \<^verbatim>\<open>%d\<close> of \<^verbatim>\<open>strprintf\<close> for unsigned
  and signed numbers, \<^verbatim>\<open>%08d\<close>, reading such a number back (\<^verbatim>\<open>boost::lexical_cast\<close>, \<^verbatim>\<open>atoi\<close> on
  digits) and \<^verbatim>\<open>boost::split\<close> with \<^verbatim>\<open>token_compress_on\<close>. The lemmas are the round trip of numbers and
  the behaviour of the split on keys whose parts contain no separator.
\<close>

definition digit :: "nat \<Rightarrow> char" where
  "digit n = char_of (48 + n)"

fun show_nat :: "nat \<Rightarrow> string" where
  "show_nat n = (if n < 10 then [digit n] else show_nat (n div 10) @ [digit (n mod 10)])"

declare show_nat.simps [simp del]

definition show_int :: "int \<Rightarrow> string" where
  "show_int n = (if n < 0 then ''-'' @ show_nat (nat (- n)) else show_nat (nat n))"

text \<open>\<^verbatim>\<open>%08d\<close> of a number that is not negative.\<close>

definition show_pad8 :: "nat \<Rightarrow> string" where
  "show_pad8 n = replicate (8 - length (show_nat n)) (CHR ''0'') @ show_nat n"

definition is_digit :: "char \<Rightarrow> bool" where
  "is_digit c \<longleftrightarrow> 48 \<le> (of_char c :: nat) \<and> (of_char c :: nat) < 58"

definition digit_value :: "char \<Rightarrow> nat" where
  "digit_value c = of_char c - 48"

definition read_nat :: "string \<Rightarrow> nat option" where
  "read_nat s = (if s \<noteq> [] \<and> list_all is_digit s then Some (foldl (\<lambda>n c. 10 * n + digit_value c) 0 s) else None)"

lemma digit_simps [simp]:
  assumes "n < 10"
  shows "is_digit (digit n)" and "digit_value (digit n) = n"
  using assms by (simp_all add: is_digit_def digit_def digit_value_def)

lemma show_nat_digits: "list_all is_digit (show_nat n) \<and> show_nat n \<noteq> []"
proof (induction n rule: show_nat.induct)
  case (1 n)
  then show ?case by (subst (1 2) show_nat.simps) auto
qed

lemma read_show_fold: "foldl (\<lambda>n c. 10 * n + digit_value c) 0 (show_nat n) = n"
proof (induction n rule: show_nat.induct)
  case (1 n)
  then show ?case by (subst show_nat.simps) auto
qed

lemma read_show_nat [simp]: "read_nat (show_nat n) = Some n"
  using show_nat_digits [of n] by (simp add: read_nat_def read_show_fold)

lemma show_nat_inj [simp]: "show_nat m = show_nat n \<longleftrightarrow> m = n"
  by (metis read_show_nat option.inject)

lemma show_nat_no_sep: "c \<in> set (show_nat n) \<Longrightarrow> is_digit c"
  using show_nat_digits [of n] by (simp add: list_all_iff)

subsection \<open>Splitting at separators\<close>

function split_from :: "(char \<Rightarrow> bool) \<Rightarrow> string \<Rightarrow> string \<Rightarrow> string list" where
  "split_from sep cur [] = [cur]"
| "split_from sep cur (c # cs) =
     (if sep c then cur # split_from sep [] (dropWhile sep cs) else split_from sep (cur @ [c]) cs)"
  by pat_completeness auto
termination
  by (relation "measure (\<lambda>(sep, cur, cs). length cs)") (auto simp: less_Suc_eq_le length_dropWhile_le)

definition split_any :: "string \<Rightarrow> string \<Rightarrow> string list" where
  "split_any seps s = split_from (\<lambda>c. c \<in> set seps) [] s"

lemma split_from_token:
  "\<forall>c \<in> set t. \<not> sep c \<Longrightarrow> split_from sep cur (t @ rest) = split_from sep (cur @ t) rest"
  by (induction t arbitrary: cur) auto

lemma split_from_last: "\<forall>c \<in> set t. \<not> sep c \<Longrightarrow> split_from sep cur t = [cur @ t]"
  using split_from_token [of t sep cur "[]"] by simp

lemma split_from_sep:
  assumes "\<forall>c \<in> set t. \<not> sep c" and "sep c" and "rest = [] \<or> \<not> sep (hd rest)"
  shows "split_from sep [] (t @ c # rest) = t # split_from sep [] rest"
proof -
  have "dropWhile sep rest = rest" using assms(3) by (cases rest) auto
  then show ?thesis using split_from_token [OF assms(1), of "[]" "c # rest"] assms(2) by simp
qed

end
