(* ===== verification/SpInfo.thy ===== *)
theory SpInfo
  imports Prelude
begin

text \<open>
  The smart property database: \<^verbatim>\<open>CMPSPInfo\<close> of \<^verbatim>\<open>src/src/tokencore/dbspinfo.{h,cpp}\<close>.

  The LevelDB store behind it is a record of finite maps, one per key prefix of the schema in
  \<^verbatim>\<open>dbspinfo.h\<close>: \<^verbatim>\<open>'s'\<close> (entries), \<^verbatim>\<open>'t'\<close> (identifier by transaction), \<^verbatim>\<open>'T'\<close> (identifier
  by ticker), \<^verbatim>\<open>'b'\<close> (previous version of an entry, by block and identifier) and \<^verbatim>\<open>'B'\<close> (watermark).
  Reads and writes of the store succeed, and a value is read back as it was written; hashes are
  natural numbers with 0 for the null hash.

  The lemmas cover the identifiers \<open>putSP\<close> hands out, the index lookups after it, and the rollback of a
  block: \<open>popBlock\<close> undoes a block in which no property is updated twice, and leaves a
  property that was updated twice in its first updated state.
\<close>

subsection \<open>Entries\<close>

record Entry =
  sp_issuer :: string
  sp_prop_type :: nat
  sp_prev_prop_id :: nat
  sp_category :: string
  sp_subcategory :: string
  sp_name :: string
  sp_ticker :: string
  sp_url :: string
  sp_data :: string
  sp_num_tokens :: int
  sp_property_desired :: nat
  sp_deadline :: int
  sp_early_bird :: nat
  sp_percentage :: nat
  sp_close_early :: bool
  sp_max_tokens :: bool
  sp_missedTokens :: int
  sp_timeclosed :: int
  sp_txid_close :: nat
  sp_txid :: nat
  sp_creation_block :: nat
  sp_update_block :: nat
  sp_fixed :: bool
  sp_manual :: bool
  sp_royalties_percentage :: nat
  sp_royalties_receiver :: string
  sp_historicalData :: "(nat \<times> int list) list"
  sp_historicalIssuers :: "((int \<times> int) \<times> string) list"

definition new_entry :: Entry where
  "new_entry = \<lparr>sp_issuer = [], sp_prop_type = 0, sp_prev_prop_id = 0, sp_category = [], sp_subcategory = [],
     sp_name = [], sp_ticker = [], sp_url = [], sp_data = [], sp_num_tokens = 0, sp_property_desired = 0,
     sp_deadline = 0, sp_early_bird = 0, sp_percentage = 0, sp_close_early = False, sp_max_tokens = False,
     sp_missedTokens = 0, sp_timeclosed = 0, sp_txid_close = 0, sp_txid = 0, sp_creation_block = 0,
     sp_update_block = 0, sp_fixed = False, sp_manual = False, sp_royalties_percentage = 0,
     sp_royalties_receiver = [], sp_historicalData = [], sp_historicalIssuers = []\<rparr>"

definition isDivisible :: "Entry \<Rightarrow> bool" where
  "isDivisible e \<longleftrightarrow> sp_prop_type e = 2 \<or> sp_prop_type e = 66 \<or> sp_prop_type e = 130"

definition updateIssuer :: "int \<Rightarrow> int \<Rightarrow> string \<Rightarrow> Entry \<Rightarrow> Entry" where
  "updateIssuer block idx newIssuer e =
     e\<lparr>sp_historicalIssuers := smap_upd (block, idx) newIssuer (sp_historicalIssuers e)\<rparr>"

fun issuer_loop :: "int \<Rightarrow> ((int \<times> int) \<times> string) list \<Rightarrow> string \<Rightarrow> string" where
  "issuer_loop block [] cur = cur"
| "issuer_loop block (((currentBlock, idx), currentIssuer) # it) cur =
     (if currentBlock > block then cur else issuer_loop block it currentIssuer)"

definition getIssuer :: "Entry \<Rightarrow> int \<Rightarrow> string" where
  "getIssuer e block = issuer_loop block (sp_historicalIssuers e) (sp_issuer e)"

subsection \<open>The database\<close>

record CMPSPInfo =
  implied_token :: Entry
  implied_ttoken :: Entry
  next_spid :: nat
  next_test_spid :: nat
  sp_entries :: "(nat \<times> Entry) list"
  tx_index :: "(nat \<times> nat) list"
  ticker_index :: "(string \<times> nat) list"
  prev_entries :: "((nat \<times> nat) \<times> Entry) list"
  sp_watermark :: "nat option"

definition implied_entry :: "string \<Rightarrow> Entry" where
  "implied_entry exodus = (updateIssuer 0 0 exodus (new_entry\<lparr>sp_issuer := exodus\<rparr>))
     \<lparr>sp_prop_type := 1, sp_num_tokens := 0, sp_category := ''N/A'', sp_subcategory := ''N/A'',
      sp_name := ''Reserved'', sp_ticker := ''Reserved'', sp_url := ''N/A'', sp_data := ''Reserved''\<rparr>"

definition init_spids :: "nat \<Rightarrow> nat \<Rightarrow> CMPSPInfo \<Rightarrow> CMPSPInfo" where
  "init_spids nextSPID nextTestSPID db = db\<lparr>next_spid := nextSPID, next_test_spid := nextTestSPID\<rparr>"

definition new_spinfo :: "string \<Rightarrow> CMPSPInfo" where
  "new_spinfo exodus = init_spids 3 TEST_ECO_PROPERTY_1
     \<lparr>implied_token = implied_entry exodus, implied_ttoken = implied_entry exodus, next_spid = 0, next_test_spid = 0,
      sp_entries = [], tx_index = [], ticker_index = [], prev_entries = [], sp_watermark = None\<rparr>"

definition ClearSP :: "CMPSPInfo \<Rightarrow> CMPSPInfo" where
  "ClearSP db = init_spids 3 TEST_ECO_PROPERTY_1
     (db\<lparr>sp_entries := [], tx_index := [], ticker_index := [], prev_entries := [], sp_watermark := None\<rparr>)"

definition peekNextSPID :: "nat \<Rightarrow> CMPSPInfo \<Rightarrow> nat" where
  "peekNextSPID ecosystem db =
     (if ecosystem = 1 then next_spid db else if ecosystem = 2 then next_test_spid db else 0)"

datatype batch_op = PutSP nat Entry | DelSP nat | PutTx nat nat | DelTx nat
  | PutTicker string nat | DelTicker string | PutPrev "nat \<times> nat" Entry | DelPrev "nat \<times> nat"

fun apply_op :: "batch_op \<Rightarrow> CMPSPInfo \<Rightarrow> CMPSPInfo" where
  "apply_op (PutSP p e) db = db\<lparr>sp_entries := smap_upd p e (sp_entries db)\<rparr>"
| "apply_op (DelSP p) db = db\<lparr>sp_entries := smap_del p (sp_entries db)\<rparr>"
| "apply_op (PutTx t p) db = db\<lparr>tx_index := smap_upd t p (tx_index db)\<rparr>"
| "apply_op (DelTx t) db = db\<lparr>tx_index := smap_del t (tx_index db)\<rparr>"
| "apply_op (PutTicker t p) db = db\<lparr>ticker_index := smap_upd t p (ticker_index db)\<rparr>"
| "apply_op (DelTicker t) db = db\<lparr>ticker_index := smap_del t (ticker_index db)\<rparr>"
| "apply_op (PutPrev k e) db = db\<lparr>prev_entries := smap_upd k e (prev_entries db)\<rparr>"
| "apply_op (DelPrev k) db = db\<lparr>prev_entries := smap_del k (prev_entries db)\<rparr>"

text \<open>\<^verbatim>\<open>leveldb::WriteBatch\<close>: the operations are applied in order.\<close>

definition write_batch :: "batch_op list \<Rightarrow> CMPSPInfo \<Rightarrow> CMPSPInfo" where
  "write_batch batch db = fold apply_op batch db"

definition updateSP :: "nat \<Rightarrow> Entry \<Rightarrow> CMPSPInfo \<Rightarrow> bool \<times> CMPSPInfo" where
  "updateSP p info db =
     (if p = 1 \<or> p = 2 then (False, db)
      else
        let batch = (case map_of (sp_entries db) p of
                       Some prev \<Rightarrow> [PutPrev (sp_update_block info, p) prev]
                     | None \<Rightarrow> []) @ [PutSP p info]
        in (True, write_batch batch db))"

definition putSP :: "nat \<Rightarrow> Entry \<Rightarrow> CMPSPInfo \<Rightarrow> nat \<times> CMPSPInfo" where
  "putSP ecosystem info db =
     (let (p, db1) =
        (if ecosystem = 1 then (next_spid db, db\<lparr>next_spid := (next_spid db + 1) mod 2 ^ 32\<rparr>)
         else if ecosystem = 2 then (next_test_spid db, db\<lparr>next_test_spid := (next_test_spid db + 1) mod 2 ^ 32\<rparr>)
         else (0, db))
      in (p, write_batch [PutSP p info, PutTx (sp_txid info) p, PutTicker (sp_ticker info) p] db1))"

definition getSP :: "nat \<Rightarrow> CMPSPInfo \<Rightarrow> Entry option" where
  "getSP p db =
     (if p = 1 then Some (implied_token db)
      else if p = 2 then Some (implied_ttoken db)
      else map_of (sp_entries db) p)"

definition hasSP :: "nat \<Rightarrow> CMPSPInfo \<Rightarrow> bool" where
  "hasSP p db = (if p = 1 \<or> p = 2 then True else map_of (sp_entries db) p \<noteq> None)"

definition findSPByTX :: "nat \<Rightarrow> CMPSPInfo \<Rightarrow> nat" where
  "findSPByTX txid db = (case map_of (tx_index db) txid of None \<Rightarrow> 0 | Some p \<Rightarrow> p)"

definition findSPByTicker :: "string \<Rightarrow> CMPSPInfo \<Rightarrow> nat" where
  "findSPByTicker ticker db = (case map_of (ticker_index db) ticker of None \<Rightarrow> 0 | Some p \<Rightarrow> p)"

fun pop_loop :: "CMPSPInfo \<Rightarrow> nat \<Rightarrow> (nat \<times> Entry) list \<Rightarrow> int \<Rightarrow> batch_op list \<Rightarrow> int + (int \<times> batch_op list)" where
  "pop_loop db block_hash [] remainingSPs commitBatch = Inr (remainingSPs, commitBatch)"
| "pop_loop db block_hash ((p, info) # iter) remainingSPs commitBatch =
     (if sp_update_block info = block_hash then
        if sp_update_block info = sp_creation_block info then
          pop_loop db block_hash iter remainingSPs
            (commitBatch @ [DelSP p, DelTx (sp_txid info), DelTicker (sp_ticker info)])
        else (case map_of (prev_entries db) (sp_update_block info, p) of
            Some prev \<Rightarrow> pop_loop db block_hash iter (remainingSPs + 1)
              (commitBatch @ [PutSP p prev, DelPrev (sp_update_block info, p)])
          | None \<Rightarrow> Inl (- 3))
      else pop_loop db block_hash iter (remainingSPs + 1) commitBatch)"

definition popBlock :: "nat \<Rightarrow> CMPSPInfo \<Rightarrow> int \<times> CMPSPInfo" where
  "popBlock block_hash db =
     (case pop_loop db block_hash (sp_entries db) 0 [] of
        Inl err \<Rightarrow> (err, db)
      | Inr (remainingSPs, commitBatch) \<Rightarrow> (remainingSPs, write_batch commitBatch db))"

definition setWatermark :: "nat \<Rightarrow> CMPSPInfo \<Rightarrow> CMPSPInfo" where
  "setWatermark w db = db\<lparr>sp_watermark := Some w\<rparr>"

definition getWatermark :: "CMPSPInfo \<Rightarrow> nat option" where
  "getWatermark db = sp_watermark db"

definition IsPropertyIdValid :: "nat \<Rightarrow> CMPSPInfo \<Rightarrow> bool" where
  "IsPropertyIdValid p db =
     (if p = 0 then False
      else
        let nextId = (if p < TEST_ECO_PROPERTY_1 then peekNextSPID 1 db else peekNextSPID 2 db)
        in p < nextId)"

definition isPropertyDivisible :: "nat \<Rightarrow> CMPSPInfo \<Rightarrow> bool" where
  "isPropertyDivisible p db = (case getSP p db of Some sp \<Rightarrow> isDivisible sp | None \<Rightarrow> True)"

definition getPropertyName :: "nat \<Rightarrow> CMPSPInfo \<Rightarrow> string" where
  "getPropertyName p db = (case getSP p db of Some sp \<Rightarrow> sp_name sp | None \<Rightarrow> ''Property Name Not Found'')"

definition getPropertyTicker :: "nat \<Rightarrow> CMPSPInfo \<Rightarrow> string" where
  "getPropertyTicker p db = (case getSP p db of Some sp \<Rightarrow> sp_ticker sp | None \<Rightarrow> ''Property Name Not Found'')"

definition GetNextPropertyId :: "bool \<Rightarrow> CMPSPInfo \<Rightarrow> nat" where
  "GetNextPropertyId maineco db = (if maineco then peekNextSPID 1 db else peekNextSPID 2 db)"

definition getTokenLabel :: "nat \<Rightarrow> CMPSPInfo \<Rightarrow> string" where
  "getTokenLabel p db =
     (if p < 3 then if p = 1 then '' TOKEN'' else '' TTOKEN''
      else '' '' @ sp_name (case getSP p db of Some sp \<Rightarrow> sp | None \<Rightarrow> new_entry))"

definition strPropertyType :: "nat \<Rightarrow> string" where
  "strPropertyType t = (if t = 2 then ''divisible'' else if t = 1 then ''indivisible'' else ''unknown'')"

definition strEcosystem :: "nat \<Rightarrow> string" where
  "strEcosystem e = (if e = 1 then ''main'' else if e = 2 then ''test'' else ''unknown'')"

subsection \<open>Well-formed databases\<close>

text \<open>
  The identifiers of both ecosystems are handed out without gaps, and the two indexes agree with
  the entries.
\<close>

definition sp_range :: "CMPSPInfo \<Rightarrow> nat \<Rightarrow> bool" where
  "sp_range db p \<longleftrightarrow> (3 \<le> p \<and> p < next_spid db) \<or> (TEST_ECO_PROPERTY_1 \<le> p \<and> p < next_test_spid db)"

definition index_ok :: "(Entry \<Rightarrow> 'k) \<Rightarrow> (nat \<rightharpoonup> Entry) \<Rightarrow> ('k \<rightharpoonup> nat) \<Rightarrow> bool" where
  "index_ok key es ix \<longleftrightarrow> (\<forall>k p. ix k = Some p \<longleftrightarrow> (\<exists>e. es p = Some e \<and> key e = k))"

definition spdb_ok :: "CMPSPInfo \<Rightarrow> bool" where
  "spdb_ok db \<longleftrightarrow> smap_ok (sp_entries db) \<and> smap_ok (tx_index db) \<and> smap_ok (ticker_index db)
     \<and> smap_ok (prev_entries db)
     \<and> 3 \<le> next_spid db \<and> next_spid db \<le> TEST_ECO_PROPERTY_1
     \<and> TEST_ECO_PROPERTY_1 \<le> next_test_spid db \<and> next_test_spid db < 2 ^ 32
     \<and> (\<forall>p. map_of (sp_entries db) p \<noteq> None \<longleftrightarrow> sp_range db p)
     \<and> index_ok sp_txid (map_of (sp_entries db)) (map_of (tx_index db))
     \<and> index_ok sp_ticker (map_of (sp_entries db)) (map_of (ticker_index db))"

definition sp_room :: "nat \<Rightarrow> CMPSPInfo \<Rightarrow> bool" where
  "sp_room ecosystem db \<longleftrightarrow> (ecosystem = 1 \<and> next_spid db < TEST_ECO_PROPERTY_1)
     \<or> (ecosystem = 2 \<and> next_test_spid db + 1 < 2 ^ 32)"

lemma new_spinfo_ok [simp]: "spdb_ok (new_spinfo exodus)"
  by (auto simp: spdb_ok_def new_spinfo_def init_spids_def smap_ok_def sp_range_def index_ok_def)

lemma index_ok_put:
  assumes "index_ok key es ix" and "es p = None" and "ix (key e) = None"
  shows "index_ok key (es(p \<mapsto> e)) (ix(key e \<mapsto> p))"
proof -
  have "(ix(key e \<mapsto> p)) k = Some q \<longleftrightarrow> (\<exists>x. (es(p \<mapsto> e)) q = Some x \<and> key x = k)" for k q
    using assms(1) [unfolded index_ok_def, rule_format, of k q] assms(2,3) by (cases "q = p"; cases "k = key e") auto
  then show ?thesis by (simp add: index_ok_def)
qed

lemma index_ok_update:
  assumes "index_ok key es ix" and "es p = Some e" and "key e' = key e"
  shows "index_ok key (es(p \<mapsto> e')) ix"
proof -
  have "ix k = Some q \<longleftrightarrow> (\<exists>x. (es(p \<mapsto> e')) q = Some x \<and> key x = k)" for k q
    using assms(1) [unfolded index_ok_def, rule_format, of k q] assms(2,3) by (cases "q = p") auto
  then show ?thesis by (simp add: index_ok_def)
qed

lemma find_none:
  assumes "spdb_ok db"
  shows "findSPByTX t db = 0 \<longleftrightarrow> map_of (tx_index db) t = None"
    and "findSPByTicker k db = 0 \<longleftrightarrow> map_of (ticker_index db) k = None"
proof -
  have pos: "sp_range db p \<Longrightarrow> p \<noteq> 0" for p by (auto simp: sp_range_def)
  have tx: "map_of (tx_index db) t = Some p \<Longrightarrow> sp_range db p" for p
    using assms unfolding spdb_ok_def index_ok_def by blast
  have tk: "map_of (ticker_index db) k = Some p \<Longrightarrow> sp_range db p" for p
    using assms unfolding spdb_ok_def index_ok_def by blast
  show "findSPByTX t db = 0 \<longleftrightarrow> map_of (tx_index db) t = None"
    using pos tx by (auto simp: findSPByTX_def split: option.split)
  show "findSPByTicker k db = 0 \<longleftrightarrow> map_of (ticker_index db) k = None"
    using pos tk by (auto simp: findSPByTicker_def split: option.split)
qed

lemmas batch_simps = write_batch_def map_of_smap_upd

lemma putSP_fields:
  assumes "putSP ecosystem info db = (p, db')"
  shows "sp_entries db' = smap_upd p info (sp_entries db)"
    and "tx_index db' = smap_upd (sp_txid info) p (tx_index db)"
    and "ticker_index db' = smap_upd (sp_ticker info) p (ticker_index db)"
    and "prev_entries db' = prev_entries db" "implied_token db' = implied_token db"
    and "implied_ttoken db' = implied_ttoken db" "sp_watermark db' = sp_watermark db"
  using assms by (auto simp: putSP_def batch_simps split: if_splits)

lemma putSP_counters:
  assumes "putSP ecosystem info db = (p, db')" and "sp_room ecosystem db"
  shows "(p = next_spid db \<and> p < TEST_ECO_PROPERTY_1 \<and> next_spid db' = p + 1 \<and> next_test_spid db' = next_test_spid db
        \<and> ecosystem = 1)
    \<or> (p = next_test_spid db \<and> p + 1 < 2 ^ 32 \<and> next_test_spid db' = p + 1 \<and> next_spid db' = next_spid db
        \<and> ecosystem = 2)"
  using assms by (auto simp: putSP_def batch_simps sp_room_def)

lemma putSP_ids:
  assumes "putSP ecosystem info db = (p, db')" and "sp_room ecosystem db" and "spdb_ok db"
  shows "p = peekNextSPID ecosystem db" and "\<not> sp_range db p"
    and "sp_range db' q \<longleftrightarrow> q = p \<or> sp_range db q" and "p \<noteq> 0" "p \<noteq> 1" "p \<noteq> 2"
    and "3 \<le> next_spid db'" "next_spid db' \<le> TEST_ECO_PROPERTY_1"
    and "TEST_ECO_PROPERTY_1 \<le> next_test_spid db'" "next_test_spid db' < 2 ^ 32"
proof -
  have lim: "3 \<le> next_spid db" "next_spid db \<le> TEST_ECO_PROPERTY_1" "TEST_ECO_PROPERTY_1 \<le> next_test_spid db"
    "next_test_spid db < 2 ^ 32" using assms(3) by (simp_all add: spdb_ok_def)
  note c = putSP_counters [OF assms(1,2)]
  show "p = peekNextSPID ecosystem db" using c by (auto simp: peekNextSPID_def)
  show "\<not> sp_range db p" "sp_range db' q \<longleftrightarrow> q = p \<or> sp_range db q"
    using c lim by (auto simp: sp_range_def)
  show "p \<noteq> 0" "p \<noteq> 1" "p \<noteq> 2" "3 \<le> next_spid db'" "next_spid db' \<le> TEST_ECO_PROPERTY_1"
    "TEST_ECO_PROPERTY_1 \<le> next_test_spid db'" "next_test_spid db' < 2 ^ 32"
    using c lim by auto
qed

lemma putSP_preserves:
  assumes "putSP ecosystem info db = (p, db')" and "sp_room ecosystem db" and "spdb_ok db"
    and "findSPByTX (sp_txid info) db = 0" and "findSPByTicker (sp_ticker info) db = 0"
  shows "spdb_ok db'"
proof -
  note f = putSP_fields [OF assms(1)] and i = putSP_ids [OF assms(1-3)]
  have none: "map_of (tx_index db) (sp_txid info) = None" "map_of (ticker_index db) (sp_ticker info) = None"
    using assms(4,5) find_none [OF assms(3)] by blast+
  have new: "map_of (sp_entries db) p = None" using assms(3) i(2) by (auto simp: spdb_ok_def)
  have "index_ok sp_txid (map_of (sp_entries db')) (map_of (tx_index db'))"
    and "index_ok sp_ticker (map_of (sp_entries db')) (map_of (ticker_index db'))"
    using assms(3) none new by (simp_all add: f spdb_ok_def index_ok_put map_of_smap_upd)
  then show ?thesis
    using assms(3) i(3) i(7-10) by (auto simp: spdb_ok_def f map_of_smap_upd smap_ok_upd)
qed

lemma updateSP_fields:
  assumes "updateSP p info db = (b, db')"
  shows "b \<longleftrightarrow> p \<noteq> 1 \<and> p \<noteq> 2"
    and "sp_entries db' = (if b then smap_upd p info (sp_entries db) else sp_entries db)"
    and "prev_entries db' = (case map_of (sp_entries db) p of
           Some e \<Rightarrow> if b then smap_upd (sp_update_block info, p) e (prev_entries db) else prev_entries db
         | None \<Rightarrow> prev_entries db)"
    and "tx_index db' = tx_index db" "ticker_index db' = ticker_index db"
    and "next_spid db' = next_spid db" "next_test_spid db' = next_test_spid db"
    and "implied_token db' = implied_token db" "implied_ttoken db' = implied_ttoken db"
  using assms by (auto simp: updateSP_def batch_simps split: if_splits option.splits)

lemma updateSP_preserves:
  assumes "updateSP p info db = (b, db')" and "spdb_ok db" and "map_of (sp_entries db) p = Some e"
    and "sp_txid info = sp_txid e" and "sp_ticker info = sp_ticker e"
  shows "spdb_ok db'"
proof -
  note f = updateSP_fields [OF assms(1)]
  have "sp_range db p" using assms(2,3) by (auto simp: spdb_ok_def)
  then show ?thesis
    using assms(2) index_ok_update [where key = sp_txid and es = "map_of (sp_entries db)", OF _ assms(3) assms(4)]
      index_ok_update [where key = sp_ticker and es = "map_of (sp_entries db)", OF _ assms(3) assms(5)]
    by (auto simp: spdb_ok_def f(2-7) map_of_smap_upd smap_ok_upd sp_range_def split: option.splits)
qed

lemma spdb_ok_valid_iff:
  assumes "spdb_ok db"
  shows "IsPropertyIdValid p db \<longleftrightarrow> hasSP p db"
  using assms by (auto simp: IsPropertyIdValid_def hasSP_def peekNextSPID_def spdb_ok_def sp_range_def)

lemma hasSP_getSP: "hasSP p db \<longleftrightarrow> getSP p db \<noteq> None"
  by (simp add: hasSP_def getSP_def)

subsection \<open>Properties of the database\<close>

text \<open>
  Creating a property: with a fresh transaction and a fresh ticker, \<open>putSP\<close> hands out an identifier no
  property has, which then is valid and found by its identifier, transaction and ticker; no other
  property, transaction or ticker lookup changes, and the database stays well formed.
\<close>

lemma putSP_creates:
  assumes "spdb_ok db" and "sp_room ecosystem db" and "putSP ecosystem info db = (p, db')"
    and "findSPByTX (sp_txid info) db = 0" and "findSPByTicker (sp_ticker info) db = 0"
  shows "\<not> hasSP p db \<and> \<not> IsPropertyIdValid p db \<and> p \<noteq> 0 \<and> IsPropertyIdValid p db'
    \<and> (\<forall>q. getSP q db' = (if q = p then Some info else getSP q db))
    \<and> (\<forall>t. findSPByTX t db' = (if t = sp_txid info then p else findSPByTX t db))
    \<and> (\<forall>k. findSPByTicker k db' = (if k = sp_ticker info then p else findSPByTicker k db))
    \<and> spdb_ok db'"
proof -
  note f = putSP_fields [OF assms(3)] and i = putSP_ids [OF assms(3,2,1)]
  have ok: "spdb_ok db'" by (rule putSP_preserves [OF assms(3,2,1,4,5)])
  have "\<not> hasSP p db" using assms(1) i(2,5,6) by (simp add: hasSP_def spdb_ok_def)
  moreover have "hasSP p db'" by (simp add: hasSP_def f map_of_smap_upd)
  ultimately show ?thesis
    using i(4-6) ok spdb_ok_valid_iff [OF assms(1)] spdb_ok_valid_iff [OF ok]
    by (simp add: getSP_def findSPByTX_def findSPByTicker_def f map_of_smap_upd)
qed

definition sample_entry :: Entry where
  "sample_entry = new_entry\<lparr>sp_issuer := ''alice'', sp_prop_type := 1, sp_ticker := ''GOLD'', sp_txid := 77,
     sp_creation_block := 5, sp_update_block := 5\<rparr>"

lemma sample_entry_simps [simp]:
  "sp_update_block sample_entry = 5" "sp_creation_block sample_entry = 5" "sp_txid sample_entry = 77"
  "sp_ticker sample_entry = ''GOLD''" "sp_issuer sample_entry = ''alice''"
  by (simp_all add: sample_entry_def)

text \<open>
  The range check \<open>IsPropertyIdValid\<close> used by every transaction is exact: in a well-formed database it
  accepts an identifier exactly when the property exists, for both ecosystems.
\<close>

lemma IsPropertyIdValid_exact:
  assumes "spdb_ok db"
  shows "IsPropertyIdValid p db \<longleftrightarrow> hasSP p db"
  using assms by (rule spdb_ok_valid_iff)

subsection \<open>Rolling back a block\<close>

definition created_in :: "nat \<Rightarrow> Entry \<Rightarrow> bool" where
  "created_in h e \<longleftrightarrow> sp_update_block e = h \<and> sp_creation_block e = h"

definition pop_ops :: "CMPSPInfo \<Rightarrow> nat \<Rightarrow> nat \<times> Entry \<Rightarrow> batch_op list" where
  "pop_ops db h = (\<lambda>(p, e).
     if sp_update_block e = h then
       if sp_update_block e = sp_creation_block e then [DelSP p, DelTx (sp_txid e), DelTicker (sp_ticker e)]
       else [PutSP p (the (map_of (prev_entries db) (h, p))), DelPrev (h, p)]
     else [])"

definition poppable :: "CMPSPInfo \<Rightarrow> nat \<Rightarrow> nat \<times> Entry \<Rightarrow> bool" where
  "poppable db h = (\<lambda>(p, e). sp_update_block e = h \<longrightarrow> sp_creation_block e \<noteq> h \<longrightarrow> map_of (prev_entries db) (h, p) \<noteq> None)"

text \<open>The entry a property has after the rollback.\<close>

definition rolled :: "CMPSPInfo \<Rightarrow> nat \<Rightarrow> nat \<Rightarrow> Entry \<Rightarrow> Entry option" where
  "rolled db h p e = (if sp_update_block e = h
     then if sp_creation_block e = h then None else map_of (prev_entries db) (h, p)
     else Some e)"

lemma pop_loop_batch:
  "\<forall>x \<in> set es. poppable db h x \<Longrightarrow>
   pop_loop db h es n b = Inr (n + int (length (filter (\<lambda>(p, e). \<not> created_in h e) es)), b @ concat (map (pop_ops db h) es))"
  by (induction es arbitrary: n b) (auto simp: poppable_def pop_ops_def created_in_def)

lemma pop_ops_entries:
  assumes "distinct (map fst es)" and "\<forall>x \<in> set es. poppable db h x"
  shows "map_of (sp_entries (fold apply_op (concat (map (pop_ops db h) es)) d)) p =
    (case map_of es p of None \<Rightarrow> map_of (sp_entries d) p
     | Some e \<Rightarrow> if sp_update_block e = h then rolled db h p e else map_of (sp_entries d) p)"
  using assms
proof (induction es arbitrary: d)
  case (Cons x es)
  obtain q e where x: "x = (q, e)" by (cases x)
  let ?d = "fold apply_op (pop_ops db h x) d"
  have notin: "map_of es q = None" using Cons.prems(1) x by (auto simp: map_of_eq_None_iff)
  have d: "map_of (sp_entries ?d) p = (if p = q \<and> sp_update_block e = h then rolled db h p e else map_of (sp_entries d) p)"
    using Cons.prems(2) x
    by (auto simp: pop_ops_def rolled_def poppable_def map_of_smap_upd smap_del_def map_of_filter_neq)
  have "map_of (sp_entries (fold apply_op (concat (map (pop_ops db h) es)) ?d)) p =
    (case map_of es p of None \<Rightarrow> map_of (sp_entries ?d) p
     | Some e \<Rightarrow> if sp_update_block e = h then rolled db h p e else map_of (sp_entries ?d) p)"
    using Cons by simp
  then show ?case using x notin d by (auto split: option.split)
qed simp

lemma pop_ops_index:
  "map_of (tx_index (fold apply_op (concat (map (pop_ops db h) es)) d)) t =
     (if \<exists>(p, e) \<in> set es. created_in h e \<and> sp_txid e = t then None else map_of (tx_index d) t)"
  "map_of (ticker_index (fold apply_op (concat (map (pop_ops db h) es)) d)) k =
     (if \<exists>(p, e) \<in> set es. created_in h e \<and> sp_ticker e = k then None else map_of (ticker_index d) k)"
proof (induction es arbitrary: d)
  case (Cons x es)
  have d: "map_of (tx_index (fold apply_op (pop_ops db h x) d)) t =
      (if created_in h (snd x) \<and> sp_txid (snd x) = t then None else map_of (tx_index d) t)" for d
    by (auto simp: pop_ops_def created_in_def smap_del_def map_of_filter_neq split: prod.split)
  have d': "map_of (ticker_index (fold apply_op (pop_ops db h x) d)) k =
      (if created_in h (snd x) \<and> sp_ticker (snd x) = k then None else map_of (ticker_index d) k)" for d
    by (auto simp: pop_ops_def created_in_def smap_del_def map_of_filter_neq split: prod.split)
  { case 1 show ?case using Cons.IH(1) d by (auto split: prod.splits) }
  { case 2 show ?case using Cons.IH(2) d' by (auto split: prod.splits) }
qed simp_all

lemma popBlock_effect:
  assumes "spdb_ok db" and "\<forall>x \<in> set (sp_entries db). poppable db h x"
  shows "fst (popBlock h db) = int (length (filter (\<lambda>(p, e). \<not> created_in h e) (sp_entries db)))"
    and "map_of (sp_entries (snd (popBlock h db))) p = Option.bind (map_of (sp_entries db) p) (rolled db h p)"
    and "map_of (tx_index (snd (popBlock h db))) t =
      (if \<exists>q e. map_of (sp_entries db) q = Some e \<and> created_in h e \<and> sp_txid e = t then None else map_of (tx_index db) t)"
    and "map_of (ticker_index (snd (popBlock h db))) k =
      (if \<exists>q e. map_of (sp_entries db) q = Some e \<and> created_in h e \<and> sp_ticker e = k then None else map_of (ticker_index db) k)"
proof -
  have sm: "smap_ok (sp_entries db)" using assms(1) by (simp add: spdb_ok_def)
  have ex: "(\<exists>(p, e) \<in> set (sp_entries db). created_in h e \<and> Q e) \<longleftrightarrow>
      (\<exists>q e. map_of (sp_entries db) q = Some e \<and> created_in h e \<and> Q e)" for Q
    by (simp add: Bex_def smap.member_lookup [OF sm])
  have pb: "popBlock h db = (int (length (filter (\<lambda>(p, e). \<not> created_in h e) (sp_entries db))),
      fold apply_op (concat (map (pop_ops db h) (sp_entries db))) db)"
    using pop_loop_batch [OF assms(2), of 0 "[]"] by (simp add: popBlock_def write_batch_def)
  show "fst (popBlock h db) = int (length (filter (\<lambda>(p, e). \<not> created_in h e) (sp_entries db)))"
    by (simp add: pb)
  show "map_of (sp_entries (snd (popBlock h db))) p = Option.bind (map_of (sp_entries db) p) (rolled db h p)"
    using pop_ops_entries [OF smap_ok_distinct [OF sm] assms(2), of db p]
    by (auto simp: pb rolled_def split: option.split)
  show "map_of (tx_index (snd (popBlock h db))) t =
      (if \<exists>q e. map_of (sp_entries db) q = Some e \<and> created_in h e \<and> sp_txid e = t then None else map_of (tx_index db) t)"
    and "map_of (ticker_index (snd (popBlock h db))) k =
      (if \<exists>q e. map_of (sp_entries db) q = Some e \<and> created_in h e \<and> sp_ticker e = k then None else map_of (ticker_index db) k)"
    by (simp_all only: pb snd_conv pop_ops_index ex)
qed

subsection \<open>A block of changes\<close>

datatype sp_change = Create nat Entry | Update nat Entry

fun run_change :: "sp_change \<Rightarrow> CMPSPInfo \<Rightarrow> CMPSPInfo" where
  "run_change (Create ecosystem info) db = snd (putSP ecosystem info db)"
| "run_change (Update p info) db = snd (updateSP p info db)"

text \<open>
  What the transaction logic does to the database within a block \<open>h\<close>: a created property is stamped with the block
  and has a new transaction and ticker; an update keeps transaction, ticker and creation block. The
  last condition excludes a second update of a property that existed before the block.
\<close>

fun change_ok :: "nat \<Rightarrow> CMPSPInfo \<Rightarrow> sp_change \<Rightarrow> bool" where
  "change_ok h db (Create ecosystem info) \<longleftrightarrow> sp_room ecosystem db \<and> created_in h info
     \<and> findSPByTX (sp_txid info) db = 0 \<and> findSPByTicker (sp_ticker info) db = 0"
| "change_ok h db (Update p info) \<longleftrightarrow> (case map_of (sp_entries db) p of None \<Rightarrow> False
     | Some e \<Rightarrow> sp_txid info = sp_txid e \<and> sp_ticker info = sp_ticker e
         \<and> sp_creation_block info = sp_creation_block e \<and> sp_update_block info = h
         \<and> (created_in h e \<or> sp_update_block e \<noteq> h))"

fun block_ok :: "nat \<Rightarrow> CMPSPInfo \<Rightarrow> sp_change list \<Rightarrow> bool" where
  "block_ok h db [] = True"
| "block_ok h db (c # cs) \<longleftrightarrow> change_ok h db c \<and> block_ok h (run_change c db) cs"

definition untouched :: "nat \<Rightarrow> CMPSPInfo \<Rightarrow> bool" where
  "untouched h db \<longleftrightarrow> (\<forall>(p, e) \<in> set (sp_entries db). sp_update_block e \<noteq> h \<and> sp_creation_block e \<noteq> h)"

definition pop_inv :: "nat \<Rightarrow> CMPSPInfo \<Rightarrow> CMPSPInfo \<Rightarrow> bool" where
  "pop_inv h db0 db \<longleftrightarrow> spdb_ok db
     \<and> (\<forall>p e. map_of (sp_entries db) p = Some e \<longrightarrow> poppable db h (p, e) \<and> (sp_creation_block e = h \<longrightarrow> sp_update_block e = h))
     \<and> (\<forall>p. Option.bind (map_of (sp_entries db) p) (rolled db h p) = map_of (sp_entries db0) p)
     \<and> (\<forall>p e e0. map_of (sp_entries db) p = Some e \<longrightarrow> map_of (sp_entries db0) p = Some e0 \<longrightarrow>
          sp_txid e0 = sp_txid e \<and> sp_ticker e0 = sp_ticker e)"

lemma pop_inv_create:
  assumes "pop_inv h db0 db" and "change_ok h db (Create eco info)"
  shows "pop_inv h db0 (run_change (Create eco info) db)"
proof -
  obtain p db' where put: "putSP eco info db = (p, db')" by fastforce
  note f = putSP_fields [OF put]
  have ok: "spdb_ok db" using assms(1) by (simp add: pop_inv_def)
  have ok': "spdb_ok db'" using putSP_preserves [OF put _ ok] assms(2) by simp
  have new: "map_of (sp_entries db) p = None"
    using putSP_ids(2) [OF put _ ok] assms(2) ok by (auto simp: spdb_ok_def)
  then have "map_of (sp_entries db0) p = None" using assms(1) by (metis pop_inv_def Option.bind.bind_lzero)
  moreover have "rolled db' h = rolled db h" by (simp add: fun_eq_iff rolled_def f)
  ultimately show ?thesis
    using assms ok' new put
    by (auto simp: pop_inv_def f map_of_smap_upd poppable_def created_in_def) (auto simp: rolled_def)
qed

lemma pop_inv_update:
  assumes "pop_inv h db0 db" and "change_ok h db (Update p info)"
  shows "pop_inv h db0 (run_change (Update p info) db)"
proof -
  obtain b db' where upd: "updateSP p info db = (b, db')" by fastforce
  note f = updateSP_fields [OF upd]
  obtain e where e: "map_of (sp_entries db) p = Some e" using assms(2) by (auto split: option.splits)
  have same: "sp_txid info = sp_txid e" "sp_ticker info = sp_ticker e" "sp_creation_block info = sp_creation_block e"
    "sp_update_block info = h" "created_in h e \<or> sp_update_block e \<noteq> h" using assms(2) e by auto
  have ok: "spdb_ok db" using assms(1) by (simp add: pop_inv_def)
  have ok': "spdb_ok db'" using updateSP_preserves [OF upd ok e same(1,2)] .
  have "sp_range db p" using ok e unfolding spdb_ok_def by blast
  then have b: "b" using f(1) by (auto simp: sp_range_def)
  have d0: "map_of (sp_entries db0) p = (if created_in h e then None else Some e)"
  proof -
    have "Option.bind (map_of (sp_entries db) p) (rolled db h p) = map_of (sp_entries db0) p"
      using assms(1) by (simp add: pop_inv_def)
    with e same(5) show ?thesis by (auto simp: rolled_def created_in_def)
  qed
  have eb: "sp_creation_block e = h \<longrightarrow> sp_update_block e = h" using assms(1) e by (simp add: pop_inv_def)
  have other: "rolled db' h q x = rolled db h q x" "poppable db' h (q, x) = poppable db h (q, x)" if "q \<noteq> p" for q x
    using that b e by (auto simp: rolled_def poppable_def f map_of_smap_upd)
  have this_one: "rolled db' h p info = map_of (sp_entries db0) p" "poppable db' h (p, info)"
    using b e same eb d0 by (auto simp: rolled_def poppable_def f map_of_smap_upd created_in_def)
  have es: "map_of (sp_entries db') = (map_of (sp_entries db))(p \<mapsto> info)" using b by (simp add: f map_of_smap_upd)
  have "Option.bind (map_of (sp_entries db') q) (rolled db' h q) = map_of (sp_entries db0) q" for q
  proof (cases "q = p")
    case True
    then show ?thesis using this_one(1) by (simp add: es)
  next
    case False
    then have "Option.bind (map_of (sp_entries db') q) (rolled db' h q) = Option.bind (map_of (sp_entries db) q) (rolled db h q)"
      by (simp add: es other cong: Option.bind_cong)
    then show ?thesis using assms(1) by (simp add: pop_inv_def)
  qed
  moreover have "poppable db' h (q, x) \<and> (sp_creation_block x = h \<longrightarrow> sp_update_block x = h)"
    if "map_of (sp_entries db') q = Some x" for q x
    using that assms(1) this_one(2) same other(2) by (cases "q = p") (auto simp: es pop_inv_def)
  moreover have "sp_txid e0 = sp_txid x \<and> sp_ticker e0 = sp_ticker x"
    if "map_of (sp_entries db') q = Some x" "map_of (sp_entries db0) q = Some e0" for q x e0
    using that assms(1) e same by (cases "q = p") (auto simp: es pop_inv_def)
  ultimately show ?thesis using ok' assms(1) upd by (auto simp: pop_inv_def)
qed

lemma pop_inv_start:
  assumes "spdb_ok db" and "untouched h db"
  shows "pop_inv h db db"
proof -
  have sm: "smap_ok (sp_entries db)" using assms(1) by (simp add: spdb_ok_def)
  have fresh: "sp_update_block e \<noteq> h \<and> sp_creation_block e \<noteq> h" if "map_of (sp_entries db) p = Some e" for p e
    using assms(2) that smap.member_lookup [OF sm] by (auto simp: untouched_def)
  have "Option.bind (map_of (sp_entries db) p) (rolled db h p) = map_of (sp_entries db) p" for p
    using fresh by (cases "map_of (sp_entries db) p") (auto simp: rolled_def)
  then show ?thesis using assms(1) fresh by (auto simp: pop_inv_def poppable_def created_in_def)
qed

lemma pop_inv_run: "pop_inv h db0 db \<Longrightarrow> block_ok h db cs \<Longrightarrow> pop_inv h db0 (fold run_change cs db)"
proof (induction cs arbitrary: db)
  case (Cons c cs)
  then have "pop_inv h db0 (run_change c db)"
    using pop_inv_create pop_inv_update by (cases c) (auto simp del: run_change.simps change_ok.simps)
  then show ?case using Cons by simp
qed simp

text \<open>An index is a function of the entries, so restoring the entries restores both indexes.\<close>

lemma index_ok_unique: "index_ok key es ix \<Longrightarrow> index_ok key es ix' \<Longrightarrow> ix' = ix"
  unfolding index_ok_def by (metis ext not_None_eq)

lemma popBlock_index:
  assumes "pop_inv h db0 db" and "index_ok key (map_of (sp_entries db)) ix"
    and "index_ok key (map_of (sp_entries db0)) ix0"
    and same: "\<And>p e e0. map_of (sp_entries db) p = Some e \<Longrightarrow> map_of (sp_entries db0) p = Some e0 \<Longrightarrow> key e0 = key e"
  shows "(if \<exists>q e. map_of (sp_entries db) q = Some e \<and> created_in h e \<and> key e = k then None else ix k) = ix0 k"
proof -
  have "index_ok key (map_of (sp_entries db0))
      (\<lambda>k. if \<exists>q e. map_of (sp_entries db) q = Some e \<and> created_in h e \<and> key e = k then None else ix k)"
    (is "index_ok _ _ ?jx")
    unfolding index_ok_def
  proof (intro allI)
    fix k p
    have roll: "map_of (sp_entries db0) p = Option.bind (map_of (sp_entries db) p) (rolled db h p)"
      and pop: "map_of (sp_entries db) p = Some e \<Longrightarrow> poppable db h (p, e)" for e
      using assms(1) by (auto simp: pop_inv_def)
    have ix: "ix k = Some p \<longleftrightarrow> (\<exists>e. map_of (sp_entries db) p = Some e \<and> key e = k)"
      and uniq: "map_of (sp_entries db) q = Some e \<Longrightarrow> ix (key e) = Some q" for q e
      using assms(2) by (auto simp: index_ok_def)
    show "?jx k = Some p \<longleftrightarrow> (\<exists>e. map_of (sp_entries db0) p = Some e \<and> key e = k)"
    proof (cases "map_of (sp_entries db) p")
      case None
      then show ?thesis using ix roll by auto
    next
      case (Some e)
      have "created_in h e \<longleftrightarrow> map_of (sp_entries db0) p = None"
        using Some roll pop [OF Some] by (auto simp: rolled_def created_in_def poppable_def)
      moreover have "x = e" if "map_of (sp_entries db) q = Some x" "key x = key e" for q x
        using uniq [OF that(1)] uniq [OF Some] that Some by simp
      ultimately show ?thesis using Some ix same [OF Some] by auto
    qed
  qed
  from index_ok_unique [OF assms(3) this] show ?thesis by (simp add: fun_eq_iff)
qed

text \<open>
  \<^bold>\<open>C19\<close>. Rollback: let a block only create properties and update each older property at
  most once. Then \<open>popBlock\<close> succeeds, every entry and both indexes are again what they were before
  the block, and the result is the number of properties that are left.
\<close>

theorem popBlock_undoes_block:
  assumes "spdb_ok db" and "untouched h db" and "block_ok h db cs"
  shows "\<exists>n db'. popBlock h (fold run_change cs db) = (n, db') \<and> 0 \<le> n
    \<and> (\<forall>p. map_of (sp_entries db') p = map_of (sp_entries db) p)
    \<and> (\<forall>t. findSPByTX t db' = findSPByTX t db) \<and> (\<forall>k. findSPByTicker k db' = findSPByTicker k db)"
proof -
  let ?d = "fold run_change cs db"
  have inv: "pop_inv h db ?d" by (rule pop_inv_run [OF pop_inv_start [OF assms(1,2)] assms(3)])
  then have ok: "spdb_ok ?d" by (simp add: pop_inv_def)
  have "\<forall>x \<in> set (sp_entries ?d). poppable ?d h x"
    using inv ok smap.member_lookup [of "sp_entries ?d"] by (auto simp: pop_inv_def spdb_ok_def)
  note eff = popBlock_effect [OF ok this]
  have "map_of (sp_entries (snd (popBlock h ?d))) p = map_of (sp_entries db) p" for p
    using eff(2) inv by (simp add: pop_inv_def)
  moreover have "map_of (tx_index (snd (popBlock h ?d))) t = map_of (tx_index db) t" for t
    unfolding eff(3) by (rule popBlock_index [OF inv]) (use ok assms(1) inv in \<open>auto simp: spdb_ok_def pop_inv_def\<close>)
  moreover have "map_of (ticker_index (snd (popBlock h ?d))) k = map_of (ticker_index db) k" for k
    unfolding eff(4) by (rule popBlock_index [OF inv]) (use ok assms(1) inv in \<open>auto simp: spdb_ok_def pop_inv_def\<close>)
  ultimately show ?thesis
    using eff(1) by (cases "popBlock h ?d") (auto simp: findSPByTX_def findSPByTicker_def)
qed

theorem popBlock_undoes_block_witness:
  "\<exists>n db'. popBlock 5 (run_change (Create 1 sample_entry) (new_spinfo ''exodus'')) = (n, db')
     \<and> findSPByTicker ''GOLD'' db' = 0"
proof -
  let ?db = "new_spinfo ''exodus''"
  have "block_ok 5 ?db [Create 1 sample_entry]" "untouched 5 ?db"
    by (simp_all add: sp_room_def new_spinfo_def init_spids_def findSPByTX_def findSPByTicker_def
        untouched_def created_in_def sample_entry_def)
  from popBlock_undoes_block [OF new_spinfo_ok this(2,1)]
  show ?thesis by (auto simp: new_spinfo_def init_spids_def findSPByTicker_def)
qed

text \<open>
  The limit of the rollback: when a property of an earlier block is updated twice in one block, the
  second \<open>updateSP\<close> overwrites the saved version with the first update, and \<open>popBlock\<close> of that
  block reports success but leaves the entry of the first update, which still carries the popped block.
\<close>

lemma popBlock_second_update:
  assumes "spdb_ok db" and "untouched h db" and "map_of (sp_entries db) p = Some e"
    and "change_ok h db (Update p e1)" and "sp_update_block e2 = h" and "sp_creation_block e2 = sp_creation_block e1"
    and "sp_txid e2 = sp_txid e1" and "sp_ticker e2 = sp_ticker e1"
  shows "\<exists>n db'. popBlock h (run_change (Update p e2) (run_change (Update p e1) db)) = (n, db') \<and> 0 \<le> n
    \<and> getSP p db' = Some e1 \<and> sp_update_block e1 = h"
proof -
  obtain b1 d1 where u1: "updateSP p e1 db = (b1, d1)" by fastforce
  obtain b2 d2 where u2: "updateSP p e2 d1 = (b2, d2)" by fastforce
  note f1 = updateSP_fields [OF u1] and f2 = updateSP_fields [OF u2]
  have sm: "smap_ok (sp_entries db)" using assms(1) by (simp add: spdb_ok_def)
  have "sp_range db p" using assms(1,3) unfolding spdb_ok_def by blast
  then have p: "p \<noteq> 1" "p \<noteq> 2" and b: "b1" "b2" using f1(1) f2(1) by (auto simp: sp_range_def)
  have e1: "map_of (sp_entries d1) p = Some e1" using b f1(2) by (simp add: map_of_smap_upd)
  have old: "sp_update_block x \<noteq> h \<and> sp_creation_block x \<noteq> h" if "map_of (sp_entries db) q = Some x" for q x
    using assms(2) that smap.member_lookup [OF sm] by (auto simp: untouched_def)
  have up: "sp_update_block e1 = h" and cr: "sp_creation_block e1 = sp_creation_block e"
    and ix: "sp_txid e1 = sp_txid e" "sp_ticker e1 = sp_ticker e" using assms(3,4) by auto
  have ok1: "spdb_ok d1" by (rule updateSP_preserves [OF u1 assms(1,3)]) (use ix in auto)
  have ok2: "spdb_ok d2" by (rule updateSP_preserves [OF u2 ok1 e1]) (use assms(7,8) in auto)
  have es: "map_of (sp_entries d2) = (map_of (sp_entries db))(p \<mapsto> e2)"
    and pr: "map_of (prev_entries d2) (h, p) = Some e1"
    using b f1 f2 e1 assms(5) by (auto simp: map_of_smap_upd fun_eq_iff)
  have "poppable d2 h (q, x)" if "map_of (sp_entries d2) q = Some x" for q x
    using that old pr es by (auto simp: poppable_def split: if_splits)
  then have pop: "\<forall>x \<in> set (sp_entries d2). poppable d2 h x"
    using ok2 smap.member_lookup [of "sp_entries d2"] by (auto simp: spdb_ok_def)
  have "map_of (sp_entries (snd (popBlock h d2))) p = Some e1"
    using popBlock_effect(2) [OF ok2 pop, of p] es pr assms(5,6) cr old [OF assms(3)] by (simp add: rolled_def)
  then show ?thesis
    using popBlock_effect(1) [OF ok2 pop] u1 u2 up p by (cases "popBlock h d2") (auto simp: getSP_def)
qed

subsection \<open>Historical issuers\<close>

lemma smap_upd_append: "\<forall>e \<in> set m. fst e < k \<Longrightarrow> smap_upd k v m = m @ [(k, v)]"
  by (induction k v m rule: smap_upd.induct) auto

lemma issuer_loop_append:
  "\<forall>e \<in> set m. fst e < (B, i) \<Longrightarrow>
   issuer_loop b (m @ [((B, i), n)]) cur = (if B \<le> b then n else issuer_loop b m cur)"
proof (induction b m cur rule: issuer_loop.induct)
  case (2 b c j n' it cur)
  then have "c \<le> B" by (auto simp: less_prod_def)
  with 2 show ?case by auto
qed simp

text \<open>
  Historical issuers: recording a change of issuer after all earlier ones makes the new issuer
  the issuer of that block and of every later one, and leaves the issuer at every earlier block unchanged.
\<close>

lemma getIssuer_updateIssuer:
  assumes "\<forall>(k, n) \<in> set (sp_historicalIssuers e). k < (block, idx)"
  shows "getIssuer (updateIssuer block idx newIssuer e) b = (if block \<le> b then newIssuer else getIssuer e b)"
proof -
  have "\<forall>x \<in> set (sp_historicalIssuers e). fst x < (block, idx)" using assms by auto
  then show ?thesis by (simp add: getIssuer_def updateIssuer_def smap_upd_append issuer_loop_append)
qed

end
