(* ===== verification/Tally.thy ===== *)
theory Tally
  imports Prelude
begin

text \<open>
  The balance records of one address: \<^verbatim>\<open>CMPTally\<close> of \<^verbatim>\<open>src/src/tokencore/tally.{h,cpp}\<close>.

  A tally maps property identifiers to five 64-bit balances. \<open>updateMoney\<close> is the only operation
  that changes a balance; it refuses an update that would overflow \<^verbatim>\<open>int64_t\<close> or that would
  make a balance other than \<open>PENDING\<close> negative. The lemmas state what every lookup returns
  after it, that it keeps the well-formedness of the record, that the loop driven by \<open>init\<close> and
  \<open>next\<close> visits every property once in ascending order, and that \<^verbatim>\<open>operator==\<close> decides
  equality of the stored balances.
\<close>

datatype TallyType = BALANCE | SELLOFFER_RESERVE | ACCEPT_RESERVE | PENDING | METADEX_RESERVE
  | TALLY_TYPE_COUNT

type_synonym BalanceRecord = "TallyType \<Rightarrow> int"

definition zero_record :: BalanceRecord where
  "zero_record = (\<lambda>_. 0)"

record CMPTally =
  mp_token :: "(property_id \<times> BalanceRecord) list"
  my_it :: "property_id option" \<comment> \<open>key of the element the iterator points to, \<open>None\<close> at the end\<close>

definition new_tally :: CMPTally where
  "new_tally = \<lparr>mp_token = [], my_it = None\<rparr>"

subsection \<open>Operations\<close>

definition tally_begin :: "(property_id \<times> BalanceRecord) list \<Rightarrow> property_id option" where
  "tally_begin m = (case m of [] \<Rightarrow> None | e # _ \<Rightarrow> Some (fst e))"

definition tally_init :: "CMPTally \<Rightarrow> property_id \<times> CMPTally" where
  "tally_init t =
     (let it = tally_begin (mp_token t)
      in (case it of None \<Rightarrow> 0 | Some p \<Rightarrow> p, t\<lparr>my_it := it\<rparr>))"

text \<open>\<^verbatim>\<open>++my_it\<close> moves to the least key above the current one.\<close>

definition tally_next :: "CMPTally \<Rightarrow> property_id \<times> CMPTally" where
  "tally_next t =
     (case my_it t of
        None \<Rightarrow> (0, t)
      | Some p \<Rightarrow> (p, t\<lparr>my_it := tally_begin (filter (\<lambda>e. p < fst e) (mp_token t))\<rparr>))"

definition isOverflow :: "int \<Rightarrow> int \<Rightarrow> bool" where
  "isOverflow a b \<longleftrightarrow> (b > 0 \<and> a > MAX_INT64 - b) \<or> (b < 0 \<and> a < MIN_INT64 - b)"

definition record_of :: "CMPTally \<Rightarrow> property_id \<Rightarrow> BalanceRecord" where
  "record_of t p = (case map_of (mp_token t) p of None \<Rightarrow> zero_record | Some r \<Rightarrow> r)"

text \<open>
  \<^verbatim>\<open>mp_token[propertyId]\<close> inserts a zeroed record when there is none, also on the paths that
  then refuse the update.
\<close>

definition updateMoney :: "property_id \<Rightarrow> int \<Rightarrow> TallyType \<Rightarrow> CMPTally \<Rightarrow> bool \<times> CMPTally" where
  "updateMoney p amount ttype t =
     (if ttype = TALLY_TYPE_COUNT \<or> amount = 0 then (False, t)
      else
        let r = record_of t p;
            t1 = t\<lparr>mp_token := smap_upd p r (mp_token t)\<rparr>;
            now64 = r ttype
        in if isOverflow now64 amount then (False, t1)
           else if ttype \<noteq> PENDING \<and> now64 + amount < 0 then (False, t1)
           else (True, t\<lparr>mp_token := smap_upd p (r(ttype := now64 + amount)) (mp_token t)\<rparr>))"

definition getMoney :: "CMPTally \<Rightarrow> property_id \<Rightarrow> TallyType \<Rightarrow> int" where
  "getMoney t p ttype =
     (if ttype = TALLY_TYPE_COUNT then 0
      else case map_of (mp_token t) p of None \<Rightarrow> 0 | Some r \<Rightarrow> r ttype)"

definition getMoneyAvailable :: "CMPTally \<Rightarrow> property_id \<Rightarrow> int" where
  "getMoneyAvailable t p =
     (case map_of (mp_token t) p of
        None \<Rightarrow> 0
      | Some r \<Rightarrow> if r PENDING < 0 then s64 (r BALANCE + r PENDING) else r BALANCE)"

definition getMoneyReserved :: "CMPTally \<Rightarrow> property_id \<Rightarrow> int" where
  "getMoneyReserved t p =
     (case map_of (mp_token t) p of
        None \<Rightarrow> 0
      | Some r \<Rightarrow> s64 (s64 (r SELLOFFER_RESERVE + r ACCEPT_RESERVE) + r METADEX_RESERVE))"

definition real_types :: "TallyType list" where
  "real_types = [BALANCE, SELLOFFER_RESERVE, ACCEPT_RESERVE, PENDING, METADEX_RESERVE]"

fun tally_eq_loop :: "(property_id \<times> BalanceRecord) list \<Rightarrow> (property_id \<times> BalanceRecord) list \<Rightarrow> bool" where
  "tally_eq_loop ((p, r) # m) ((q, s) # n) =
     (if p \<noteq> q then False
      else if list_ex (\<lambda>ty. r ty \<noteq> s ty) real_types then False
      else tally_eq_loop m n)"
| "tally_eq_loop m n = True"

definition tally_eq :: "CMPTally \<Rightarrow> CMPTally \<Rightarrow> bool" where
  "tally_eq a b =
     (if length (mp_token a) \<noteq> length (mp_token b) then False
      else tally_eq_loop (mp_token a) (mp_token b))"

definition tally_print :: "CMPTally \<Rightarrow> property_id \<Rightarrow> int" where
  "tally_print t p =
     (let r = record_of t p
      in s64 (s64 (s64 (r BALANCE + r SELLOFFER_RESERVE) + r ACCEPT_RESERVE) + r METADEX_RESERVE))"

text \<open>The loop \<^verbatim>\<open>t.init(); while (0 != (id = t.next())) ...\<close>: the identifiers it visits.\<close>

fun tally_loop :: "nat \<Rightarrow> CMPTally \<Rightarrow> property_id list" where
  "tally_loop 0 t = []"
| "tally_loop (Suc fuel) t =
     (case tally_next t of (p, t') \<Rightarrow> if p = 0 then [] else p # tally_loop fuel t')"

definition tally_ids :: "CMPTally \<Rightarrow> property_id list" where
  "tally_ids t = tally_loop (Suc (length (mp_token t))) (snd (tally_init t))"

subsection \<open>Well-formedness\<close>

text \<open>
  The type invariant: keys ascend, every balance fits \<^verbatim>\<open>int64_t\<close> and only pending balances are
  negative.
\<close>

definition record_ok :: "BalanceRecord \<Rightarrow> bool" where
  "record_ok r \<longleftrightarrow> (\<forall>ty. r ty \<le> MAX_INT64 \<and> (if ty = PENDING then MIN_INT64 \<le> r ty else 0 \<le> r ty))"

definition tally_ok :: "CMPTally \<Rightarrow> bool" where
  "tally_ok t \<longleftrightarrow> smap_ok (mp_token t) \<and> (\<forall>(p, r) \<in> set (mp_token t). record_ok r)"

lemma record_ok_zero [simp]: "record_ok zero_record"
  by (simp add: record_ok_def zero_record_def)

lemma tally_ok_new [simp]: "tally_ok new_tally"
  by (simp add: tally_ok_def new_tally_def smap_ok_def)

lemma record_of_ok: "tally_ok t \<Longrightarrow> record_ok (record_of t p)"
  by (auto simp: tally_ok_def record_of_def split: option.split dest: map_of_SomeD)

lemma getMoney_record_of: "ty \<noteq> TALLY_TYPE_COUNT \<Longrightarrow> getMoney t p ty = record_of t p ty"
  by (simp add: getMoney_def record_of_def zero_record_def split: option.split)

lemma getMoney_new [simp]: "getMoney new_tally p ty = 0"
  by (simp add: getMoney_def new_tally_def)

lemma getMoney_nonneg: "tally_ok t \<Longrightarrow> ty \<noteq> PENDING \<Longrightarrow> 0 \<le> getMoney t p ty"
  using record_of_ok [of t p] getMoney_record_of [of ty t p]
  by (cases "ty = TALLY_TYPE_COUNT") (auto simp: getMoney_def record_ok_def)

lemma getMoney_le: "tally_ok t \<Longrightarrow> getMoney t p ty \<le> MAX_INT64"
  using record_of_ok [of t p] getMoney_record_of [of ty t p]
  by (cases "ty = TALLY_TYPE_COUNT") (auto simp: getMoney_def record_ok_def)

subsection \<open>What an update does\<close>

definition update_fits :: "int \<Rightarrow> int \<Rightarrow> TallyType \<Rightarrow> bool" where
  "update_fits now64 amount ttype \<longleftrightarrow>
     ttype \<noteq> TALLY_TYPE_COUNT \<and> amount \<noteq> 0 \<and> now64 + amount \<le> MAX_INT64 \<and>
     (if ttype = PENDING then MIN_INT64 \<le> now64 + amount else 0 \<le> now64 + amount)"

lemma updateMoney_result:
  assumes "tally_ok t"
  shows "fst (updateMoney p amount ttype t) \<longleftrightarrow> update_fits (getMoney t p ttype) amount ttype"
proof (cases "ttype = TALLY_TYPE_COUNT \<or> amount = 0")
  case True
  then show ?thesis by (auto simp: updateMoney_def update_fits_def)
next
  case False
  have "record_of t p ttype \<le> MAX_INT64"
    and "if ttype = PENDING then MIN_INT64 \<le> record_of t p ttype else 0 \<le> record_of t p ttype"
    using record_of_ok [OF assms, of p] by (simp_all add: record_ok_def)
  with False getMoney_record_of [of ttype t p] show ?thesis
    by (cases "ttype = PENDING") (auto simp: updateMoney_def update_fits_def Let_def isOverflow_def)
qed

lemma updateMoney_getMoney:
  "getMoney (snd (updateMoney p amount ttype t)) q ty =
     getMoney t q ty + (if fst (updateMoney p amount ttype t) \<and> q = p \<and> ty = ttype then amount else 0)"
  by (auto simp: updateMoney_def getMoney_def record_of_def zero_record_def Let_def map_of_smap_upd
      split: option.split)

lemma updateMoney_ok:
  assumes "tally_ok t"
  shows "tally_ok (snd (updateMoney p amount ttype t))"
proof -
  have sm: "smap_ok (mp_token t)" using assms by (simp add: tally_ok_def)
  have put: "tally_ok (t\<lparr>mp_token := smap_upd p r (mp_token t)\<rparr>)" if "record_ok r" for r
    using assms that by (auto simp: tally_ok_def smap_ok_upd smap.member_upd [OF sm] split: if_splits)
  have "record_ok ((record_of t p)(ttype := record_of t p ttype + amount))"
    if "fst (updateMoney p amount ttype t)"
    using record_of_ok [OF assms, of p] updateMoney_result [OF assms] that
    by (auto simp: record_ok_def update_fits_def getMoney_record_of)
  then show ?thesis
    using put put [OF record_of_ok [OF assms]] assms
    by (auto simp: updateMoney_def Let_def)
qed

subsection \<open>Iteration and comparison\<close>

lemma tally_loop_suffix:
  assumes "sorted_wrt (<) (map fst m)" and "0 \<notin> fst ` set m" and "length m \<le> fuel"
    and "filter (\<lambda>e. case it of None \<Rightarrow> False | Some p \<Rightarrow> p \<le> fst e) (mp_token t) = m"
    and "it = tally_begin m" and "my_it t = it"
  shows "tally_loop (Suc fuel) t = map fst m"
  using assms
proof (induction m arbitrary: fuel it t)
  case Nil
  then show ?case by (simp add: tally_next_def tally_begin_def)
next
  case (Cons e m)
  obtain p r where e: "e = (p, r)" by (cases e)
  from Cons.prems e have it: "it = Some p" and "p \<noteq> 0" by (auto simp: tally_begin_def)
  from Cons.prems(3) obtain k where k: "fuel = Suc k" and "length m \<le> k" by (cases fuel) auto
  let ?t = "t\<lparr>my_it := tally_begin (filter (\<lambda>e. p < fst e) (mp_token t))\<rparr>"
  have "filter (\<lambda>e. p < fst e) (mp_token t) = filter (\<lambda>e. p < fst e) (filter (\<lambda>e. p \<le> fst e) (mp_token t))"
    by (simp, metis less_imp_le)
  also have "\<dots> = filter (\<lambda>e. p < fst e) ((p, r) # m)"
    using Cons.prems(4) it e by simp
  also have "\<dots> = m" using Cons.prems(1) e by (auto simp: filter_id_conv)
  finally have m: "filter (\<lambda>e. p < fst e) (mp_token t) = m" .
  have "filter (\<lambda>e. case tally_begin m of None \<Rightarrow> False | Some q \<Rightarrow> q \<le> fst e) (mp_token t) = m"
  proof (cases m)
    case Nil
    then show ?thesis by (simp add: tally_begin_def)
  next
    case (Cons f n)
    have "filter (\<lambda>e. fst f \<le> fst e) (mp_token t) = filter (\<lambda>e. fst f \<le> fst e) (filter (\<lambda>e. p < fst e) (mp_token t))"
      using \<open>sorted_wrt (<) (map fst (e # m))\<close> e Cons by (auto intro!: filter_cong)
    also have "\<dots> = m" using \<open>sorted_wrt (<) (map fst (e # m))\<close> Cons m
      by (auto simp: filter_id_conv intro: less_imp_le)
    finally show ?thesis using Cons by (simp add: tally_begin_def)
  qed
  then have "tally_loop (Suc k) ?t = map fst m"
    using Cons.IH [of k "tally_begin m" ?t] Cons.prems(1,2) \<open>length m \<le> k\<close> m e by simp
  then show ?case using Cons.prems(6) it \<open>p \<noteq> 0\<close> e k by (simp add: tally_next_def)
qed

text \<open>Property identifiers stored in a tally are never 0, the loop's end marker.\<close>

lemma tally_ids_keys:
  assumes "tally_ok t" and "0 \<notin> fst ` set (mp_token t)"
  shows "tally_ids t = map fst (mp_token t)"
proof -
  have s: "sorted_wrt (<) (map fst (mp_token t))" using assms(1) by (simp add: tally_ok_def smap_ok_def)
  have "filter (\<lambda>e. case tally_begin (mp_token t) of None \<Rightarrow> False | Some p \<Rightarrow> p \<le> fst e) (mp_token t)
      = mp_token t"
    using s by (cases "mp_token t") (auto simp: tally_begin_def filter_id_conv intro: less_imp_le)
  then show ?thesis
    using tally_loop_suffix [OF s assms(2) order_refl]
    by (simp add: tally_ids_def tally_init_def Let_def)
qed

lemma tally_eq_loop_iff:
  "length m = length n \<Longrightarrow>
   tally_eq_loop m n \<longleftrightarrow> map fst m = map fst n \<and>
     list_all2 (\<lambda>e f. \<forall>ty \<in> set real_types. snd e ty = snd f ty) m n"
  by (induction m n rule: tally_eq_loop.induct) (auto simp: list_ex_iff)

lemma set_real_types: "ty \<in> set real_types \<longleftrightarrow> ty \<noteq> TALLY_TYPE_COUNT"
  by (cases ty) (simp_all add: real_types_def)

lemma list_all2_keys_same:
  "map fst m = map fst n \<Longrightarrow> list_all2 (\<lambda>e f. R (snd e) (snd f)) m n \<Longrightarrow>
   rel_option R (map_of m p) (map_of n p)"
  by (induction m arbitrary: n) (auto simp: list_all2_Cons1 Cons_eq_map_conv split: prod.splits)

lemma tally_eq_loop_same:
  assumes "smap_ok m" and "smap_ok n"
    and "fst ` set m = fst ` set n"
    and "\<forall>p ty. ty \<noteq> TALLY_TYPE_COUNT \<longrightarrow> (\<forall>r s. map_of m p = Some r \<longrightarrow> map_of n p = Some s \<longrightarrow> r ty = s ty)"
  shows "length m = length n \<and> map fst m = map fst n
    \<and> list_all2 (\<lambda>e f. \<forall>ty \<in> set real_types. snd e ty = snd f ty) m n"
proof -
  have sd: "sorted (map fst m)" "sorted (map fst n)" "distinct (map fst m)" "distinct (map fst n)"
    using assms(1,2) by (simp_all add: smap_ok_def strict_sorted_iff)
  have keys: "map fst m = map fst n"
    using sd assms(3) by (intro sorted_distinct_set_unique) auto
  then have len: "length m = length n" by (metis length_map)
  have "\<forall>ty \<in> set real_types. snd (m ! i) ty = snd (n ! i) ty" if i: "i < length m" for i
  proof -
    have "map_of m (fst (m ! i)) = Some (snd (m ! i))"
      using sd(3) i by (simp add: map_of_eq_Some_iff)
    moreover have "fst (m ! i) = fst (n ! i)" using keys i len by (metis nth_map)
    then have "map_of n (fst (m ! i)) = Some (snd (n ! i))"
      using sd(4) i len by (simp add: map_of_eq_Some_iff)
    ultimately show ?thesis using assms(4) by (auto simp: set_real_types)
  qed
  then show ?thesis using keys len by (auto simp: list_all2_conv_all_nth)
qed

text \<open>
  \<^verbatim>\<open>CMPTally::operator==\<close> decides equality: on well-formed tallies it holds exactly
  when both have records for the same properties and every balance of every type agrees.
\<close>

lemma tally_eq_decides:
  assumes "tally_ok a" and "tally_ok b"
  shows "tally_eq a b \<longleftrightarrow> fst ` set (mp_token a) = fst ` set (mp_token b)
    \<and> (\<forall>p ty. getMoney a p ty = getMoney b p ty)"
proof
  assume eq: "tally_eq a b"
  then have "length (mp_token a) = length (mp_token b)" by (simp add: tally_eq_def split: if_splits)
  with eq have k: "map fst (mp_token a) = map fst (mp_token b)"
    and r: "list_all2 (\<lambda>e f. \<forall>ty \<in> set real_types. snd e ty = snd f ty) (mp_token a) (mp_token b)"
    by (simp_all add: tally_eq_def tally_eq_loop_iff)
  have "getMoney a p ty = getMoney b p ty" for p ty
    using list_all2_keys_same [OF k r, of p]
    by (cases "map_of (mp_token a) p"; cases "map_of (mp_token b) p") (auto simp: getMoney_def set_real_types)
  moreover have "fst ` set (mp_token a) = fst ` set (mp_token b)" using k by (metis set_map)
  ultimately show "fst ` set (mp_token a) = fst ` set (mp_token b) \<and> (\<forall>p ty. getMoney a p ty = getMoney b p ty)"
    by blast
next
  assume h: "fst ` set (mp_token a) = fst ` set (mp_token b) \<and> (\<forall>p ty. getMoney a p ty = getMoney b p ty)"
  have "r ty = s ty" if "ty \<noteq> TALLY_TYPE_COUNT" "map_of (mp_token a) p = Some r" "map_of (mp_token b) p = Some s" for p ty r s
  proof -
    have "getMoney a p ty = getMoney b p ty" using h by blast
    with that show ?thesis by (simp add: getMoney_def)
  qed
  with h assms tally_eq_loop_same [of "mp_token a" "mp_token b"] show "tally_eq a b"
    by (auto simp: tally_eq_def tally_eq_loop_iff tally_ok_def)
qed

end
