(* ===== verification/Ledger.thy ===== *)
theory Ledger
  imports Tally
begin

text \<open>
  The global token ledger of \<^verbatim>\<open>src/src/tokencore/tokencore.cpp\<close>: the map of tallies of all
  addresses, the freezing state, the balance getters and \<open>update_tally_map\<close>, through which every
  transaction of the token layer moves tokens.

  The ledger is the root of the state records: later components extend it with their own
  fields, so an operation of this theory applies to all of their states and leaves the added
  fields alone. The interface \<open>token_ledger\<close> states what the transaction logic relies on and
  proves, once, that a debit followed by an equal credit succeeds and keeps the supply; it is
  interpreted on the model's \<open>update_tally_map\<close> below.
\<close>

record ledger =
  mp_tally_map :: "(string \<times> CMPTally) list" \<comment> \<open>\<^verbatim>\<open>std::unordered_map\<close>\<close>
  setFreezingEnabledProperties :: "(property_id \<times> int) list" \<comment> \<open>\<^verbatim>\<open>std::set\<close>\<close>
  setFrozenAddresses :: "(string \<times> property_id) list" \<comment> \<open>\<^verbatim>\<open>std::set\<close>\<close>

subsection \<open>Balances\<close>

definition getTally :: "'s ledger_scheme \<Rightarrow> string \<Rightarrow> CMPTally option" where
  "getTally s address = map_of (mp_tally_map s) address"

definition GetTokenBalance :: "'s ledger_scheme \<Rightarrow> string \<Rightarrow> property_id \<Rightarrow> TallyType \<Rightarrow> int" where
  "GetTokenBalance s address p ttype =
     (if ttype = TALLY_TYPE_COUNT then 0
      else case map_of (mp_tally_map s) address of None \<Rightarrow> 0 | Some t \<Rightarrow> getMoney t p ttype)"

definition GetAvailableTokenBalance :: "'s ledger_scheme \<Rightarrow> string \<Rightarrow> property_id \<Rightarrow> int" where
  "GetAvailableTokenBalance s address p =
     (let money = GetTokenBalance s address p BALANCE;
          pending = GetTokenBalance s address p PENDING
      in if 0 > pending then s64 (money + pending) else money)"

definition GetReservedTokenBalance :: "'s ledger_scheme \<Rightarrow> string \<Rightarrow> property_id \<Rightarrow> int" where
  "GetReservedTokenBalance s address p =
     s64 (s64 (GetTokenBalance s address p ACCEPT_RESERVE + GetTokenBalance s address p METADEX_RESERVE)
       + GetTokenBalance s address p SELLOFFER_RESERVE)"

subsection \<open>Ecosystems and freezing\<close>

definition isTestEcosystemProperty :: "property_id \<Rightarrow> bool" where
  "isTestEcosystemProperty p \<longleftrightarrow> TOKEN_PROPERTY_TMSC = p \<or> TEST_ECO_PROPERTY_1 \<le> p"

definition isMainEcosystemProperty :: "property_id \<Rightarrow> bool" where
  "isMainEcosystemProperty p \<longleftrightarrow> TOKEN_PROPERTY_RPD \<noteq> p \<and> \<not> isTestEcosystemProperty p"

definition ClearFreezeState :: "'s ledger_scheme \<Rightarrow> 's ledger_scheme" where
  "ClearFreezeState s = s\<lparr>setFreezingEnabledProperties := [], setFrozenAddresses := []\<rparr>"

definition isFreezingEnabled :: "'s ledger_scheme \<Rightarrow> property_id \<Rightarrow> int \<Rightarrow> bool" where
  "isFreezingEnabled s p block =
     list_ex (\<lambda>(q, itemBlock). p = q \<and> block \<ge> itemBlock) (setFreezingEnabledProperties s)"

definition isAddressFrozen :: "'s ledger_scheme \<Rightarrow> string \<Rightarrow> property_id \<Rightarrow> bool" where
  "isAddressFrozen s address p \<longleftrightarrow> List.member (setFrozenAddresses s) (address, p)"

definition GetFrozenTokenBalance :: "'s ledger_scheme \<Rightarrow> string \<Rightarrow> property_id \<Rightarrow> int" where
  "GetFrozenTokenBalance s address p =
     (if isAddressFrozen s address p then GetTokenBalance s address p BALANCE else 0)"

definition enableFreezing :: "property_id \<Rightarrow> int \<Rightarrow> 's ledger_scheme \<Rightarrow> 's ledger_scheme option" where
  "enableFreezing p liveBlock s =
     (let s' = s\<lparr>setFreezingEnabledProperties := sset_insert (p, liveBlock) (setFreezingEnabledProperties s)\<rparr>
      in if isFreezingEnabled s' p liveBlock then Some s' else None)"

definition freezeAddress :: "string \<Rightarrow> property_id \<Rightarrow> 's ledger_scheme \<Rightarrow> 's ledger_scheme option" where
  "freezeAddress address p s =
     (let s' = s\<lparr>setFrozenAddresses := sset_insert (address, p) (setFrozenAddresses s)\<rparr>
      in if isAddressFrozen s' address p then Some s' else None)"

definition unfreezeAddress :: "string \<Rightarrow> property_id \<Rightarrow> 's ledger_scheme \<Rightarrow> 's ledger_scheme option" where
  "unfreezeAddress address p s =
     (let s' = s\<lparr>setFrozenAddresses := sset_erase (address, p) (setFrozenAddresses s)\<rparr>
      in if \<not> isAddressFrozen s' address p then Some s' else None)"

text \<open>
  The loop of \<open>disableFreezing\<close> erases an entry and then dereferences the iterator to the
  \<^emph>\<open>next\<close> entry in \<^verbatim>\<open>assert(!isAddressFrozen((*it).first, (*it).second))\<close>. At the
  end of the set that dereference is undefined; the argument \<open>ub\<close> is the outcome of the
  assertion there. \<open>kept\<close> is the part of the set already passed.
\<close>

fun unfreeze_loop :: "bool \<Rightarrow> property_id \<Rightarrow> (string \<times> property_id) list \<Rightarrow> (string \<times> property_id) list
    \<Rightarrow> (string \<times> property_id) list option" where
  "unfreeze_loop ub p kept [] = Some kept"
| "unfreeze_loop ub p kept (e # es) =
     (if snd e = p then
        (case es of
           [] \<Rightarrow> if ub then unfreeze_loop ub p kept es else None
         | f # _ \<Rightarrow> if \<not> List.member (kept @ es) f then unfreeze_loop ub p kept es else None)
      else unfreeze_loop ub p (kept @ [e]) es)"

definition disableFreezing :: "bool \<Rightarrow> property_id \<Rightarrow> 's ledger_scheme \<Rightarrow> 's ledger_scheme option" where
  "disableFreezing ub p s =
     (let liveBlock = fold (\<lambda>(q, b) acc. if p = q then b else acc) (setFreezingEnabledProperties s) 0
      in if \<not> liveBlock > 0 then None
         else do {
           let s1 = s\<lparr>setFreezingEnabledProperties := sset_erase (p, liveBlock) (setFreezingEnabledProperties s)\<rparr>;
           frozen \<leftarrow> unfreeze_loop ub p [] (setFrozenAddresses s1);
           let s2 = s1\<lparr>setFrozenAddresses := frozen\<rparr>;
           if \<not> isFreezingEnabled s2 p liveBlock then Some s2 else None
         })"

subsection \<open>Updates\<close>

definition update_tally_map :: "string \<Rightarrow> property_id \<Rightarrow> int \<Rightarrow> TallyType \<Rightarrow> 's ledger_scheme
    \<Rightarrow> (bool \<times> 's ledger_scheme) option" where
  "update_tally_map who p amount ttype s =
     (if amount = 0 then Some (False, s)
      else if ttype = TALLY_TYPE_COUNT then Some (False, s)
      else if ttype = BALANCE \<and> amount < 0 \<and> isAddressFrozen s who p then None
      else
        let before = GetTokenBalance s who p ttype;
            tally = (case map_of (mp_tally_map s) who of None \<Rightarrow> new_tally | Some t \<Rightarrow> t);
            (bRet, tally') = updateMoney p amount ttype tally;
            s' = s\<lparr>mp_tally_map := umap_upd who tally' (mp_tally_map s)\<rparr>;
            after = GetTokenBalance s' who p ttype
        in if \<not> bRet \<and> before \<noteq> after then None else Some (bRet, s'))"

text \<open>\<^verbatim>\<open>assert(update_tally_map(...))\<close>.\<close>

definition assert_update :: "string \<Rightarrow> property_id \<Rightarrow> int \<Rightarrow> TallyType \<Rightarrow> 's ledger_scheme
    \<Rightarrow> 's ledger_scheme option" where
  "assert_update who p amount ttype s =
     (case update_tally_map who p amount ttype s of
        Some (True, s') \<Rightarrow> Some s'
      | _ \<Rightarrow> None)"

subsection \<open>The ledger invariant\<close>

definition tally_total :: "CMPTally \<Rightarrow> property_id \<Rightarrow> int" where
  "tally_total t p = getMoney t p BALANCE + getMoney t p SELLOFFER_RESERVE
     + getMoney t p ACCEPT_RESERVE + getMoney t p METADEX_RESERVE"

definition token_supply :: "'s ledger_scheme \<Rightarrow> property_id \<Rightarrow> int" where
  "token_supply s p = (\<Sum>(a, t)\<leftarrow>mp_tally_map s. tally_total t p)"

text \<open>\<open>tallies_ok\<close> bounds every balance, \<open>ledger_ok\<close> also the supply of every property.\<close>

definition tallies_ok :: "'s ledger_scheme \<Rightarrow> bool" where
  "tallies_ok s \<longleftrightarrow> umap_ok (mp_tally_map s) \<and> (\<forall>(a, t) \<in> set (mp_tally_map s). tally_ok t)"

definition ledger_ok :: "'s ledger_scheme \<Rightarrow> bool" where
  "ledger_ok s \<longleftrightarrow> tallies_ok s \<and> (\<forall>p. token_supply s p \<le> MAX_INT64)"

lemma ledger_tallies [simp]: "ledger_ok s \<Longrightarrow> tallies_ok s"
  by (simp add: ledger_ok_def)

lemma tally_total_nonneg: "tally_ok t \<Longrightarrow> 0 \<le> tally_total t p"
  by (simp add: tally_total_def getMoney_nonneg)

lemma getMoney_le_total:
  "tally_ok t \<Longrightarrow> ty \<noteq> PENDING \<Longrightarrow> getMoney t p ty \<le> tally_total t p"
  using getMoney_nonneg [of t BALANCE p] getMoney_nonneg [of t SELLOFFER_RESERVE p]
    getMoney_nonneg [of t ACCEPT_RESERVE p] getMoney_nonneg [of t METADEX_RESERVE p]
  by (cases ty) (simp_all add: tally_total_def, simp add: getMoney_def)

lemma sum_list_member_le:
  fixes f :: "'a \<Rightarrow> int"
  shows "\<forall>x \<in> set xs. 0 \<le> f x \<Longrightarrow> y \<in> set xs \<Longrightarrow> f y \<le> sum_list (map f xs)"
proof (induction xs)
  case (Cons x xs)
  have "0 \<le> sum_list (map f xs)" using Cons.prems(1) by (intro sum_list_nonneg) auto
  with Cons show ?case by fastforce
qed simp

lemma ledger_tally:
  assumes "tallies_ok s" and "map_of (mp_tally_map s) a = Some t"
  shows "tally_ok t" and "tally_total t p \<le> token_supply s p"
proof -
  from assms(2) have mem: "(a, t) \<in> set (mp_tally_map s)" by (rule map_of_SomeD)
  with assms(1) show "tally_ok t" by (auto simp: tallies_ok_def)
  have "\<forall>e \<in> set (mp_tally_map s). 0 \<le> tally_total (snd e) p"
    using assms(1) by (auto simp: tallies_ok_def intro!: tally_total_nonneg)
  from sum_list_member_le [OF this mem] show "tally_total t p \<le> token_supply s p"
    by (simp add: token_supply_def case_prod_unfold)
qed

lemma token_supply_nonneg: "tallies_ok s \<Longrightarrow> 0 \<le> token_supply s p"
  unfolding token_supply_def by (intro sum_list_nonneg) (auto simp: tallies_ok_def tally_total_nonneg)

lemma balance_nonneg: "tallies_ok s \<Longrightarrow> ty \<noteq> PENDING \<Longrightarrow> 0 \<le> GetTokenBalance s a p ty"
  by (auto simp: GetTokenBalance_def split: option.split intro: getMoney_nonneg dest: ledger_tally(1))

lemma balance_le_supply:
  "tallies_ok s \<Longrightarrow> ty \<noteq> PENDING \<Longrightarrow> GetTokenBalance s a p ty \<le> token_supply s p"
  using token_supply_nonneg [of s p]
  by (auto simp: GetTokenBalance_def split: option.split
      intro: order_trans [OF getMoney_le_total ledger_tally(2)] ledger_tally(1))

lemma balance_le_max: "tallies_ok s \<Longrightarrow> GetTokenBalance s a p ty \<le> MAX_INT64"
  by (auto simp: GetTokenBalance_def split: option.split intro: getMoney_le dest: ledger_tally(1))

subsection \<open>Laws of a single update\<close>

definition counted :: "TallyType \<Rightarrow> bool" where
  "counted ty \<longleftrightarrow> ty \<noteq> PENDING \<and> ty \<noteq> TALLY_TYPE_COUNT"

lemma tally_total_update:
  assumes "tally_ok t"
  shows "tally_total (snd (updateMoney p amount ttype t)) q =
    tally_total t q + (if fst (updateMoney p amount ttype t) \<and> q = p \<and> counted ttype then amount else 0)"
  using updateMoney_result [OF assms, of p amount ttype]
  by (cases ttype) (auto simp: tally_total_def updateMoney_getMoney counted_def update_fits_def)

definition tally_at :: "'s ledger_scheme \<Rightarrow> string \<Rightarrow> CMPTally" where
  "tally_at s a = (case map_of (mp_tally_map s) a of None \<Rightarrow> new_tally | Some t \<Rightarrow> t)"

lemma tally_at_ok: "tallies_ok s \<Longrightarrow> tally_ok (tally_at s a)"
  by (auto simp: tally_at_def split: option.split dest: ledger_tally(1))

lemma balance_tally_at: "GetTokenBalance s a p ty = getMoney (tally_at s a) p ty"
  by (auto simp: GetTokenBalance_def tally_at_def getMoney_def new_tally_def split: option.split)

lemma balance_put:
  "GetTokenBalance (s\<lparr>mp_tally_map := umap_upd a t (mp_tally_map s)\<rparr>) b q ty =
     (if b = a then getMoney t q ty else GetTokenBalance s b q ty)"
  by (simp add: GetTokenBalance_def map_of_umap_upd getMoney_def)

lemma token_supply_put:
  assumes "umap_ok (mp_tally_map s)"
  shows "token_supply (s\<lparr>mp_tally_map := umap_upd a t (mp_tally_map s)\<rparr>) q =
    token_supply s q - tally_total (tally_at s a) q + tally_total t q"
  using umap.sum_upd [OF assms, where a = a and x = t and f = "\<lambda>_ t. tally_total t q"]
  by (auto simp: token_supply_def tally_at_def tally_total_def split: option.split)

lemma tally_at_put [simp]:
  "tally_at (s\<lparr>mp_tally_map := umap_upd a t (mp_tally_map s)\<rparr>) b = (if b = a then t else tally_at s b)"
  by (simp add: tally_at_def map_of_umap_upd)

lemma update_tally_map_unfold:
  "update_tally_map who p amount ttype s =
     (if amount = 0 \<or> ttype = TALLY_TYPE_COUNT then Some (False, s)
      else if ttype = BALANCE \<and> amount < 0 \<and> isAddressFrozen s who p then None
      else let (bRet, t) = updateMoney p amount ttype (tally_at s who)
           in Some (bRet, s\<lparr>mp_tally_map := umap_upd who t (mp_tally_map s)\<rparr>))"
  using updateMoney_getMoney [of p amount ttype "tally_at s who" p ttype]
  by (auto simp: update_tally_map_def balance_tally_at Let_def tally_at_def [symmetric]
      split: prod.split)

lemma assert_update_Some:
  assumes "assert_update a p x t s = Some s'"
  shows "fst (updateMoney p x t (tally_at s a))" and "x \<noteq> 0" and "t \<noteq> TALLY_TYPE_COUNT"
    and "\<not> (t = BALANCE \<and> x < 0 \<and> isAddressFrozen s a p)"
    and "s' = s\<lparr>mp_tally_map := umap_upd a (snd (updateMoney p x t (tally_at s a))) (mp_tally_map s)\<rparr>"
  using assms
  by (auto simp: assert_update_def update_tally_map_unfold Let_def split: if_splits prod.splits bool.splits)

lemma assert_update_iff:
  assumes "tallies_ok s"
  shows "(\<exists>s'. assert_update a p x t s = Some s') \<longleftrightarrow>
    update_fits (GetTokenBalance s a p t) x t \<and> \<not> (t = BALANCE \<and> x < 0 \<and> isAddressFrozen s a p)"
  using updateMoney_result [OF tally_at_ok [OF assms], of p x t a]
  by (auto simp: assert_update_def update_tally_map_unfold Let_def balance_tally_at update_fits_def
      split: prod.splits bool.splits)

lemma assert_update_balance:
  assumes "assert_update a p x t s = Some s'"
  shows "GetTokenBalance s' b q u = GetTokenBalance s b q u + (if b = a \<and> q = p \<and> u = t then x else 0)"
  using assert_update_Some [OF assms]
  by (simp add: balance_put updateMoney_getMoney balance_tally_at)

lemma assert_update_frame:
  assumes "assert_update a p x t s = Some s'"
  shows "\<exists>m. s' = s\<lparr>mp_tally_map := m\<rparr>"
  using assert_update_Some(5) [OF assms] by blast

lemma assert_update_frozen:
  assumes "assert_update a p x t s = Some s'"
  shows "isAddressFrozen s' b q = isAddressFrozen s b q"
  using assert_update_Some(5) [OF assms] by (simp add: isAddressFrozen_def)

lemma assert_update_supply:
  assumes "tallies_ok s" and "assert_update a p x t s = Some s'"
  shows "token_supply s' q = token_supply s q + (if q = p \<and> counted t then x else 0)"
proof -
  have um: "umap_ok (mp_tally_map s)" using assms(1) by (simp add: tallies_ok_def)
  show ?thesis
    using assert_update_Some [OF assms(2)] tally_total_update [OF tally_at_ok [OF assms(1)], of p x t a q]
    by (simp add: token_supply_put [OF um])
qed

lemma assert_update_tallies:
  assumes "tallies_ok s" and "assert_update a p x t s = Some s'"
  shows "tallies_ok s'"
proof -
  have um: "umap_ok (mp_tally_map s)" using assms(1) by (simp add: tallies_ok_def)
  note s' = assert_update_Some(5) [OF assms(2)]
  have "umap_ok (mp_tally_map s')" using um s' by (simp add: umap_ok_upd)
  moreover have "\<forall>(b, u) \<in> set (mp_tally_map s'). tally_ok u"
    using assms(1) s' updateMoney_ok [OF tally_at_ok [OF assms(1)]]
    by (auto simp: tallies_ok_def umap.member_upd [OF um] split: if_splits)
  ultimately show ?thesis by (simp add: tallies_ok_def)
qed

subsection \<open>The interface the transaction logic relies on\<close>

locale token_ledger =
  fixes bal :: "'s \<Rightarrow> string \<Rightarrow> property_id \<Rightarrow> TallyType \<Rightarrow> int"
    and frozen :: "'s \<Rightarrow> string \<Rightarrow> property_id \<Rightarrow> bool"
    and put :: "string \<Rightarrow> property_id \<Rightarrow> int \<Rightarrow> TallyType \<Rightarrow> 's \<Rightarrow> 's option"
    and total :: "'s \<Rightarrow> property_id \<Rightarrow> int"
    and wf :: "'s \<Rightarrow> bool"
    and inv :: "'s \<Rightarrow> bool"
  assumes inv_iff: "inv s \<longleftrightarrow> wf s \<and> (\<forall>p. total s p \<le> MAX_INT64)"
    and put_iff: "wf s \<Longrightarrow> (\<exists>s'. put a p x t s = Some s') \<longleftrightarrow>
        update_fits (bal s a p t) x t \<and> \<not> (t = BALANCE \<and> x < 0 \<and> frozen s a p)"
    and put_bal: "put a p x t s = Some s' \<Longrightarrow>
        bal s' b q u = bal s b q u + (if b = a \<and> q = p \<and> u = t then x else 0)"
    and put_frozen: "put a p x t s = Some s' \<Longrightarrow> frozen s' b q = frozen s b q"
    and put_total: "wf s \<Longrightarrow> put a p x t s = Some s' \<Longrightarrow>
        total s' q = total s q + (if q = p \<and> counted t then x else 0)"
    and put_wf: "wf s \<Longrightarrow> put a p x t s = Some s' \<Longrightarrow> wf s'"
    and bal_nonneg: "wf s \<Longrightarrow> u \<noteq> PENDING \<Longrightarrow> 0 \<le> bal s a p u"
    and bal_le_total: "wf s \<Longrightarrow> u \<noteq> PENDING \<Longrightarrow> bal s a p u \<le> total s p"
    and bal_le: "wf s \<Longrightarrow> bal s a p u \<le> MAX_INT64"
begin

lemma inv_wf: "inv s \<Longrightarrow> wf s"
  by (simp add: inv_iff)

lemma total_le: "inv s \<Longrightarrow> total s p \<le> MAX_INT64"
  by (simp add: inv_iff)

lemma put_inv:
  assumes "inv s" and "put a p x t s = Some s'" and "counted t \<Longrightarrow> total s p + x \<le> MAX_INT64"
  shows "inv s'"
  using assms put_wf [OF inv_wf assms(2)] put_total [OF inv_wf assms(2)] by (auto simp: inv_iff)

lemma put_fits: "wf s \<Longrightarrow> put a p x t s = Some s' \<Longrightarrow> update_fits (bal s a p t) x t"
  using put_iff by blast

text \<open>A debit of tokens that are there, from an address that is not frozen, succeeds.\<close>

lemma debit:
  assumes "wf s" and "0 < x" and "x \<le> bal s a p t" and "counted t"
    and "t = BALANCE \<Longrightarrow> \<not> frozen s a p"
  obtains s' where "put a p (- x) t s = Some s'" and "wf s'" and "inv s \<Longrightarrow> inv s'"
    and "\<And>q. total s' q = total s q - (if q = p then x else 0)"
proof -
  have "bal s a p t \<le> MAX_INT64" by (rule bal_le [OF assms(1)])
  then have "update_fits (bal s a p t) (- x) t"
    using assms(2-4) by (auto simp: update_fits_def counted_def)
  with assms put_iff obtain s' where s': "put a p (- x) t s = Some s'" by blast
  moreover have "wf s'" by (rule put_wf [OF assms(1) s'])
  moreover have "inv s'" if "inv s" using put_inv [OF that s'] total_le [OF that, of p] assms(2) by simp
  moreover have "total s' q = total s q - (if q = p then x else 0)" for q
    using put_total [OF assms(1) s', of q] assms(4) by simp
  ultimately show thesis by (rule that)
qed

text \<open>A credit that keeps the balance in range succeeds.\<close>

lemma credit:
  assumes "wf s" and "0 < x" and "bal s a p t + x \<le> MAX_INT64" and "counted t"
  obtains s' where "put a p x t s = Some s'" and "wf s'"
    and "inv s \<Longrightarrow> total s p + x \<le> MAX_INT64 \<Longrightarrow> inv s'"
    and "\<And>q. total s' q = total s q + (if q = p then x else 0)"
proof -
  have "0 \<le> bal s a p t"
    using bal_nonneg [OF assms(1)] assms(4) by (auto simp: counted_def)
  then have "update_fits (bal s a p t) x t"
    using assms(2-4) by (auto simp: update_fits_def counted_def)
  with assms put_iff [OF assms(1), of a p x t] obtain s' where s': "put a p x t s = Some s'" by auto
  moreover have "wf s'" by (rule put_wf [OF assms(1) s'])
  moreover have "inv s'" if "inv s" "total s p + x \<le> MAX_INT64" using put_inv [OF that(1) s'] that(2) by simp
  moreover have "total s' q = total s q + (if q = p then x else 0)" for q
    using put_total [OF assms(1) s', of q] assms(4) by simp
  ultimately show thesis by (rule that)
qed

text \<open>The pattern of every transfer in the sources: debit one record, credit another.\<close>

lemma move:
  assumes "inv s" and "0 < x" and "x \<le> bal s a p t" and "counted t" and "counted u"
    and "t = BALANCE \<Longrightarrow> \<not> frozen s a p"
  obtains s1 s2 where "put a p (- x) t s = Some s1" and "put b p x u s1 = Some s2" and "inv s2"
    and "\<And>q. total s2 q = total s q"
    and "\<And>c q v. bal s2 c q v = bal s c q v - (if c = a \<and> q = p \<and> v = t then x else 0)
                  + (if c = b \<and> q = p \<and> v = u then x else 0)"
proof -
  obtain s1 where s1: "put a p (- x) t s = Some s1" "inv s1"
      "\<And>q. total s1 q = total s q - (if q = p then x else 0)"
    using debit [OF inv_wf [OF assms(1)] assms(2-4,6)] assms(1) by blast
  have le: "total s1 p + x \<le> MAX_INT64" using s1(3) [of p] total_le [OF assms(1), of p] by simp
  have "bal s1 b p u \<le> total s1 p"
    using bal_le_total [OF inv_wf [OF s1(2)]] assms(5) by (auto simp: counted_def)
  then have "bal s1 b p u + x \<le> MAX_INT64" using le by simp
  from credit [OF inv_wf [OF s1(2)] assms(2) this assms(5)]
  obtain s2 where s2: "put b p x u s1 = Some s2" "inv s2"
      "\<And>q. total s2 q = total s1 q + (if q = p then x else 0)" using s1(2) le by blast
  show thesis
    using that [OF s1(1) s2(1,2)] s1(3) s2(3) put_bal [OF s1(1)] put_bal [OF s2(1)]
    by simp
qed

lemma move_supply:
  assumes "inv s" and "put a p (- x) t s = Some s1" and "put b p x u s1 = Some s2"
    and "counted t" and "counted u" and "0 < x"
  shows "inv s2" and "total s2 q = total s q"
proof -
  have tl: "total s p \<le> MAX_INT64" using total_le [OF assms(1)] .
  have i1: "inv s1" by (rule put_inv [OF assms(1,2)]) (use assms(6) tl in simp)
  have t1: "total s1 q = total s q + (if q = p then - x else 0)" for q
    using put_total [OF inv_wf [OF assms(1)] assms(2), of q] assms(4) by simp
  show "inv s2" by (rule put_inv [OF i1 assms(3)]) (use t1 [of p] tl in simp)
  show "total s2 q = total s q"
    using put_total [OF inv_wf [OF i1] assms(3), of q] assms(5) t1 [of q] by simp
qed

end

interpretation tl: token_ledger GetTokenBalance isAddressFrozen assert_update token_supply tallies_ok ledger_ok
  by unfold_locales
    (fact ledger_ok_def assert_update_iff assert_update_balance assert_update_frozen assert_update_supply
      assert_update_tallies balance_nonneg balance_le_supply balance_le_max)+

lemmas assert_update_ok = tl.put_inv

lemma counted_simps [simp]: "counted BALANCE" "counted SELLOFFER_RESERVE" "counted ACCEPT_RESERVE"
  "counted METADEX_RESERVE" "\<not> counted PENDING"
  by (simp_all add: counted_def)

text \<open>A transfer as the components use it: it succeeds, and only the tally map of the state changes.\<close>

lemma transfer:
  assumes "ledger_ok s" and "0 < x" and "x \<le> GetTokenBalance s a p t" and "counted t" and "counted u"
    and "t = BALANCE \<Longrightarrow> \<not> isAddressFrozen s a p"
  obtains s1 m where "assert_update a p (- x) t s = Some s1"
    and "assert_update b p x u s1 = Some (s\<lparr>mp_tally_map := m\<rparr>)" and "ledger_ok (s\<lparr>mp_tally_map := m\<rparr>)"
    and "\<And>q. token_supply (s\<lparr>mp_tally_map := m\<rparr>) q = token_supply s q"
    and "\<And>c q v. GetTokenBalance (s\<lparr>mp_tally_map := m\<rparr>) c q v = GetTokenBalance s c q v
      - (if c = a \<and> q = p \<and> v = t then x else 0) + (if c = b \<and> q = p \<and> v = u then x else 0)"
proof -
  obtain s1 s2 where m: "assert_update a p (- x) t s = Some s1" "assert_update b p x u s1 = Some s2" "ledger_ok s2"
    "\<And>q. token_supply s2 q = token_supply s q"
    "\<And>c q v. GetTokenBalance s2 c q v = GetTokenBalance s c q v
      - (if c = a \<and> q = p \<and> v = t then x else 0) + (if c = b \<and> q = p \<and> v = u then x else 0)"
    using tl.move [OF assms, of b] by metis
  obtain m1 where "s1 = s\<lparr>mp_tally_map := m1\<rparr>" using assert_update_frame [OF m(1)] by blast
  moreover obtain m2 where "s2 = s1\<lparr>mp_tally_map := m2\<rparr>" using assert_update_frame [OF m(2)] by blast
  ultimately have "s2 = s\<lparr>mp_tally_map := m2\<rparr>" by simp
  with m that show thesis by blast
qed

lemma transfer_if:
  assumes "ledger_ok s" and "0 \<le> x" and "x \<le> GetTokenBalance s a p t" and "counted t" and "counted u"
    and "t = BALANCE \<Longrightarrow> \<not> isAddressFrozen s a p"
  obtains m where "(if x > 0 then assert_update a p (- x) t s \<bind> assert_update b p x u else Some s) = Some (s\<lparr>mp_tally_map := m\<rparr>)"
    and "ledger_ok (s\<lparr>mp_tally_map := m\<rparr>)" and "\<And>q. token_supply (s\<lparr>mp_tally_map := m\<rparr>) q = token_supply s q"
    and "\<And>c q v. GetTokenBalance (s\<lparr>mp_tally_map := m\<rparr>) c q v = GetTokenBalance s c q v
      - (if c = a \<and> q = p \<and> v = t then x else 0) + (if c = b \<and> q = p \<and> v = u then x else 0)"
proof (cases "x > 0")
  case True
  show thesis
  proof (rule transfer [OF assms(1) True assms(3-6), of b])
    fix s1 m
    assume "assert_update a p (- x) t s = Some s1" and "assert_update b p x u s1 = Some (s\<lparr>mp_tally_map := m\<rparr>)"
      and "ledger_ok (s\<lparr>mp_tally_map := m\<rparr>)" and "\<And>q. token_supply (s\<lparr>mp_tally_map := m\<rparr>) q = token_supply s q"
      and "\<And>c q v. GetTokenBalance (s\<lparr>mp_tally_map := m\<rparr>) c q v = GetTokenBalance s c q v
        - (if c = a \<and> q = p \<and> v = t then x else 0) + (if c = b \<and> q = p \<and> v = u then x else 0)"
    then show thesis using True by (intro that [of m]) simp_all
  qed
next
  case False
  then show thesis using assms(1,2) by (intro that [of "mp_tally_map s"]) simp_all
qed

subsection \<open>A sample ledger\<close>

text \<open>Three holders of property 3, used by the witnesses of this and the following theories.\<close>

definition holder :: "property_id \<Rightarrow> int \<Rightarrow> CMPTally" where
  "holder p n = \<lparr>mp_token = [(p, zero_record(BALANCE := n))], my_it = None\<rparr>"

definition sample_tallies :: "(string \<times> CMPTally) list" where
  "sample_tallies = [(''alice'', holder 3 100), (''bob'', holder 3 30), (''carol'', holder 3 20)]"

definition sample_ledger :: ledger where
  "sample_ledger = \<lparr>mp_tally_map = sample_tallies, setFreezingEnabledProperties = [], setFrozenAddresses = []\<rparr>"

lemma holder_simps [simp]:
  "getMoney (holder p n) q ty = (if q = p \<and> ty = BALANCE then n else 0)"
  "tally_total (holder p n) q = (if q = p then n else 0)"
  "0 \<le> n \<Longrightarrow> n \<le> MAX_INT64 \<Longrightarrow> tally_ok (holder p n)"
  by (auto simp: getMoney_def holder_def zero_record_def tally_total_def tally_ok_def smap_ok_def record_ok_def)

lemma sample_tallies_ok:
  assumes "mp_tally_map s = sample_tallies"
  shows "ledger_ok s"
  by (simp add: ledger_ok_def tallies_ok_def umap_ok_def token_supply_def assms sample_tallies_def)

lemma sample_ledger_ok [simp]: "ledger_ok sample_ledger"
  by (rule sample_tallies_ok) (simp add: sample_ledger_def)

subsection \<open>Properties of the ledger\<close>

text \<open>
  \<^bold>\<open>C24\<close>. \<open>update_tally_map\<close> on a well-formed ledger: it stops the process only for a debit of an
  available balance of a frozen address; otherwise it reports success exactly when the new balance
  fits (no \<^verbatim>\<open>int64_t\<close> overflow, no negative balance outside \<open>PENDING\<close>, amount not zero), and
  then changes that one balance by the amount and no other balance; on failure no balance changes
  (an address that had no record may have an empty one).
\<close>

theorem update_tally_map_spec:
  assumes "ledger_ok s"
  shows "(update_tally_map a p x t s = None \<longleftrightarrow>
      x \<noteq> 0 \<and> t = BALANCE \<and> x < 0 \<and> isAddressFrozen s a p)
    \<and> (\<forall>b s'. update_tally_map a p x t s = Some (b, s') \<longrightarrow>
      b = update_fits (GetTokenBalance s a p t) x t
      \<and> (\<forall>c q u. GetTokenBalance s' c q u =
           GetTokenBalance s c q u + (if b \<and> c = a \<and> q = p \<and> u = t then x else 0)))"
  using updateMoney_result [OF tally_at_ok [OF ledger_tallies [OF assms]], of p x t a]
    updateMoney_getMoney [of p x t "tally_at s a"]
  by (auto simp: update_tally_map_unfold balance_tally_at Let_def update_fits_def split: prod.splits)

theorem update_tally_map_spec_witness:
  "\<exists>s'. update_tally_map ''bob'' 3 (- 30) BALANCE sample_ledger = Some (True, s')
     \<and> GetTokenBalance s' ''bob'' 3 BALANCE = 0 \<and> GetTokenBalance s' ''alice'' 3 BALANCE = 100"
proof -
  note spec = update_tally_map_spec [OF sample_ledger_ok, of "''bob''" 3 "- 30" BALANCE]
  have "update_tally_map ''bob'' 3 (- 30) BALANCE sample_ledger \<noteq> None"
    using spec by (simp add: isAddressFrozen_def sample_ledger_def)
  then obtain b s' where run: "update_tally_map ''bob'' 3 (- 30) BALANCE sample_ledger = Some (b, s')" by auto
  have bal: "GetTokenBalance sample_ledger ''bob'' 3 BALANCE = 30" "GetTokenBalance sample_ledger ''alice'' 3 BALANCE = 100"
    by (simp_all add: GetTokenBalance_def sample_ledger_def sample_tallies_def)
  then have b: "b" using spec run by (simp add: update_fits_def)
  then show ?thesis using spec run bal by auto
qed

subsection \<open>Freezing\<close>

lemma unfreeze_loop_stops:
  "\<exists>e \<in> set (butlast es). snd e = p \<Longrightarrow> unfreeze_loop ub p kept es = None"
proof (induction es arbitrary: kept)
  case (Cons e es)
  then show ?case
  proof (cases "snd e = p")
    case True
    with Cons.prems show ?thesis by (cases es) auto
  next
    case False
    with Cons.prems have "es \<noteq> []" "\<exists>e \<in> set (butlast es). snd e = p" by (auto split: if_splits)
    with Cons.IH False show ?thesis by simp
  qed
qed simp

lemma unfreeze_loop_runs:
  "\<forall>e \<in> set (butlast es). snd e \<noteq> p \<Longrightarrow> (es \<noteq> [] \<and> snd (last es) = p \<longrightarrow> ub) \<Longrightarrow>
   unfreeze_loop ub p kept es = Some (kept @ filter (\<lambda>e. snd e \<noteq> p) es)"
proof (induction es arbitrary: kept)
  case (Cons e es)
  then show ?case
  proof (cases "es = []")
    case True
    with Cons.prems show ?thesis by simp
  next
    case False
    with Cons show ?thesis by auto
  qed
qed simp

text \<open>
  \<^bold>\<open>C30\<close>. \<open>disableFreezing\<close> stops the node when some frozen address of the property is not the last
  entry of the set of frozen addresses: after erasing an entry, the loop asserts that the entry
  \<^emph>\<open>following\<close> it is not frozen, although every entry of the set is. The documented behaviour is
  that all addresses of the property become unfrozen.
\<close>

theorem disableFreezing_stops:
  assumes "\<exists>e \<in> set (butlast (setFrozenAddresses s)). snd e = p"
  shows "disableFreezing ub p s = None"
  using unfreeze_loop_stops [OF assms, of ub "[]"] by (simp add: disableFreezing_def Let_def)

theorem disableFreezing_stops_witness:
  "disableFreezing True 3 (sample_ledger\<lparr>setFreezingEnabledProperties := [(3, 10)],
     setFrozenAddresses := [(''bob'', 3), (''carol'', 3)]\<rparr>) = None"
  by (rule disableFreezing_stops) simp

text \<open>
  Outside that case \<open>disableFreezing\<close> does what its comment says: when freezing of the
  property is recorded once, with a positive block, and no frozen address of the property
  precedes another entry, then (provided the assertion on the past-the-end iterator passes)
  it returns, freezing is disabled at every height, no address is
  frozen for that property any more, and the frozen addresses of other properties are unchanged.
\<close>

lemma disableFreezing_unfreezes:
  assumes "filter (\<lambda>(q, b). q = p) (setFreezingEnabledProperties s) = [(p, live)]" and "0 < live"
    and "\<forall>e \<in> set (butlast (setFrozenAddresses s)). snd e \<noteq> p"
  shows "\<exists>s'. disableFreezing True p s = Some s' \<and> (\<forall>block. \<not> isFreezingEnabled s' p block)
    \<and> (\<forall>a. \<not> isAddressFrozen s' a p)
    \<and> (\<forall>a q. q \<noteq> p \<longrightarrow> isAddressFrozen s' a q = isAddressFrozen s a q)
    \<and> mp_tally_map s' = mp_tally_map s"
proof -
  have live: "fold (\<lambda>(q, b) acc. if p = q then b else acc) m 0 = live"
    if "filter (\<lambda>(q, b). q = p) m = [(p, live)]" for m
  proof -
    have "fold (\<lambda>(q, b) acc. if p = q then b else acc) m z = fold (\<lambda>(q, b) acc. b) (filter (\<lambda>(q, b). q = p) m) z" for z
      by (induction m arbitrary: z) auto
    then show ?thesis using that by simp
  qed
  have once: "(q, b) \<in> set (setFreezingEnabledProperties s) \<and> q = p \<longleftrightarrow> (q, b) = (p, live)" for q b
    using arg_cong [OF assms(1), of "\<lambda>m. (q, b) \<in> set m"] by auto
  have run: "unfreeze_loop True p [] (setFrozenAddresses s) = Some (filter (\<lambda>e. snd e \<noteq> p) (setFrozenAddresses s))"
    using unfreeze_loop_runs [OF assms(3), of True "[]"] by simp
  have none: "\<not> isFreezingEnabled (s\<lparr>setFreezingEnabledProperties := sset_erase (p, live) (setFreezingEnabledProperties s),
      setFrozenAddresses := F\<rparr>) p block" for F block
    using once by (auto simp: isFreezingEnabled_def list_ex_iff)
  show ?thesis
    using run none assms(2) by (auto simp: disableFreezing_def live [OF assms(1)] Let_def isAddressFrozen_def)
qed

end
