(* ===== verification/Sto.thy ===== *)
theory Sto
  imports Ledger Arith256
begin

text \<open>
  Send-to-owners distribution: \<^verbatim>\<open>src/src/tokencore/sto.{h,cpp}\<close>.

  \<open>STO_GetReceivers\<close> walks the (unordered) tally map, collects every other holder of a
  property in a set ordered by holdings, and splits an amount in proportion, rounding up and
  clamping to what is left. Three facts make it usable by consensus code: the result does not
  depend on the iteration order of the map, the shares are positive and add up to exactly the
  amount, and none exceeds the holder's rounded-up proportional share.
\<close>

subsection \<open>The ordered set of owners\<close>

definition SendToOwners_compare :: "int \<times> string \<Rightarrow> int \<times> string \<Rightarrow> bool" where
  "SendToOwners_compare p1 p2 =
     (if fst p1 = fst p2 then snd p1 > snd p2 else fst p1 < fst p2)"

interpretation owners: cmp_total_set SendToOwners_compare
  by unfold_locales (auto simp: SendToOwners_compare_def split: if_splits)

definition owned_tokens :: "CMPTally \<Rightarrow> property_id \<Rightarrow> int" where
  "owned_tokens t p =
     s64 (s64 (s64 (s64 (0 + getMoney t p BALANCE) + getMoney t p SELLOFFER_RESERVE)
       + getMoney t p ACCEPT_RESERVE) + getMoney t p METADEX_RESERVE)"

fun sto_collect :: "string \<Rightarrow> property_id \<Rightarrow> (string \<times> CMPTally) list
    \<Rightarrow> int \<times> int \<times> (int \<times> string) list \<Rightarrow> int \<times> int \<times> (int \<times> string) list" where
  "sto_collect sender p [] acc = acc"
| "sto_collect sender p ((address, tally) # m) (totalTokens, senderTokens, ownerAddrSet) =
     (let tokens = owned_tokens tally p
      in if address = sender then sto_collect sender p m (totalTokens, tokens, ownerAddrSet)
         else
           let totalTokens' = s64 (totalTokens + tokens);
               ownerAddrSet' = (if 0 < tokens
                 then set_insert_by SendToOwners_compare (tokens, address) ownerAddrSet
                 else ownerAddrSet)
           in sto_collect sender p m (totalTokens', senderTokens, ownerAddrSet'))"

subsection \<open>The split\<close>

text \<open>The argument list is the set of owners in reverse order, as the reverse iterators visit it.\<close>

fun sto_split :: "int \<Rightarrow> int \<Rightarrow> (int \<times> string) list \<Rightarrow> int \<Rightarrow> (int \<times> string) list
    \<Rightarrow> (int \<times> string) list option" where
  "sto_split amount totalTokens [] sent_so_far receiversSet = Some receiversSet"
| "sto_split amount totalTokens ((n, address) # rest) sent_so_far receiversSet = do {
     owns \<leftarrow> ConvertTo256 n;
     amount256 \<leftarrow> ConvertTo256 amount;
     total256 \<leftarrow> ConvertTo256 totalTokens;
     piece \<leftarrow> DivideAndRoundUp (mul256 owns amount256) total256;
     should_receive \<leftarrow> ConvertTo64 piece;
     let will_really_receive =
       (if s64 (amount - sent_so_far) < should_receive then s64 (amount - sent_so_far) else should_receive);
     let sent_so_far' = s64 (sent_so_far + will_really_receive);
     if will_really_receive > 0
     then sto_split amount totalTokens rest sent_so_far'
            (set_insert_by SendToOwners_compare (will_really_receive, address) receiversSet)
     else Some receiversSet
   }"

definition STO_GetReceivers :: "string \<Rightarrow> property_id \<Rightarrow> int \<Rightarrow> 's ledger_scheme
    \<Rightarrow> (int \<times> string) list option" where
  "STO_GetReceivers sender p amount s =
     (let (totalTokens, _, ownerAddrSet) = sto_collect sender p (mp_tally_map s) (0, 0, [])
      in sto_split amount totalTokens (rev ownerAddrSet) 0 [])"

subsection \<open>Reference: who owns what\<close>

definition sto_owners :: "string \<Rightarrow> property_id \<Rightarrow> (string \<times> CMPTally) list \<Rightarrow> (int \<times> string) set" where
  "sto_owners sender p m =
     {(tally_total t p, a) | a t. (a, t) \<in> set m \<and> a \<noteq> sender \<and> 0 < tally_total t p}"

definition others_total :: "string \<Rightarrow> property_id \<Rightarrow> (string \<times> CMPTally) list \<Rightarrow> int" where
  "others_total sender p m = (\<Sum>(a, t)\<leftarrow>m. if a = sender then 0 else tally_total t p)"

lemma owned_tokens_eq:
  assumes "tally_ok t" and "tally_total t p \<le> MAX_INT64"
  shows "owned_tokens t p = tally_total t p"
proof -
  have "0 \<le> getMoney t p BALANCE" "0 \<le> getMoney t p SELLOFFER_RESERVE"
    "0 \<le> getMoney t p ACCEPT_RESERVE" "0 \<le> getMoney t p METADEX_RESERVE"
    using assms(1) by (simp_all add: getMoney_nonneg)
  with assms(2) show ?thesis by (simp add: owned_tokens_def tally_total_def s64_id)
qed

text \<open>The collecting loop computes the owners of the reference and their total.\<close>

lemma sto_collect_spec:
  assumes "\<forall>(a, t) \<in> set m. tally_ok t" and "0 \<le> tot"
    and "tot + (\<Sum>(a, t)\<leftarrow>m. tally_total t p) \<le> MAX_INT64" and "sorted_wrt SendToOwners_compare os"
    and "sto_collect sender p m (tot, sn, os) = (tot', sn', os')"
  shows "tot' = tot + others_total sender p m \<and> sorted_wrt SendToOwners_compare os'
    \<and> set os' = set os \<union> sto_owners sender p m"
  using assms
proof (induction m arbitrary: tot sn os)
  case Nil
  then show ?case by (simp add: others_total_def sto_owners_def)
next
  case (Cons e m)
  obtain a t where e: "e = (a, t)" by (cases e)
  have ok: "tally_ok t" and nn: "0 \<le> tally_total t p"
    using Cons.prems(1) e by (auto intro: tally_total_nonneg)
  have rest: "0 \<le> (\<Sum>(a, t)\<leftarrow>m. tally_total t p)"
    using Cons.prems(1) by (intro sum_list_nonneg) (auto intro!: tally_total_nonneg)
  have own: "owned_tokens t p = tally_total t p"
    using Cons.prems(2,3) e ok rest by (intro owned_tokens_eq) auto
  have oth: "others_total sender p (e # m) = (if a = sender then 0 else tally_total t p) + others_total sender p m"
    by (simp add: others_total_def e)
  have ow: "sto_owners sender p (e # m) = (if a \<noteq> sender \<and> 0 < tally_total t p
      then insert (tally_total t p, a) (sto_owners sender p m) else sto_owners sender p m)"
    by (auto simp: sto_owners_def e)
  show ?case
  proof (cases "a = sender")
    case True
    have "tot' = tot + others_total sender p m \<and> sorted_wrt SendToOwners_compare os'
        \<and> set os' = set os \<union> sto_owners sender p m"
      using Cons.prems e True nn by (intro Cons.IH [where os = os]) (auto simp: Let_def)
    with True oth ow show ?thesis by simp
  next
    case False
    let ?os = "if 0 < tally_total t p
      then set_insert_by SendToOwners_compare (tally_total t p, a) os else os"
    have so: "sorted_wrt SendToOwners_compare ?os" using Cons.prems(4) by (simp add: owners.sorted_insert)
    have wr: "s64 (tot + tally_total t p) = tot + tally_total t p"
      using Cons.prems(2,3) e nn rest by (intro s64_id) auto
    have "tot' = (tot + tally_total t p) + others_total sender p m \<and> sorted_wrt SendToOwners_compare os'
        \<and> set os' = set ?os \<union> sto_owners sender p m"
      using Cons.prems e False nn own wr so
      by (intro Cons.IH [where os = ?os]) (auto simp: Let_def)
    with False oth ow show ?thesis by (auto simp: owners.set_insert)
  qed
qed

subsection \<open>The split is exact\<close>

text \<open>
  What the loop keeps true: the tokens still to be allocated are covered, in proportion, by the
  owners still to be visited.
\<close>

definition sto_inv :: "int \<Rightarrow> int \<Rightarrow> (int \<times> string) list \<Rightarrow> int \<Rightarrow> (int \<times> string) list \<Rightarrow> bool" where
  "sto_inv amount tot rest sent rs \<longleftrightarrow>
     0 \<le> sent \<and> sent \<le> amount \<and> (amount - sent) * tot \<le> amount * sum_list (map fst rest)
     \<and> (\<forall>(n, a) \<in> set rest. 0 < n \<and> n \<le> tot) \<and> distinct (map snd rest)
     \<and> snd ` set rs \<inter> snd ` set rest = {} \<and> sorted_wrt SendToOwners_compare rs"

definition sto_share :: "int \<Rightarrow> int \<Rightarrow> int \<Rightarrow> int \<Rightarrow> int" where
  "sto_share amount tot sent n = min (amount - sent) (cdiv (n * amount) tot)"

lemma sto_share_step:
  assumes "sto_inv amount tot ((n, a) # rest) sent rs"
    and "0 < amount" "amount \<le> MAX_INT64" "0 < tot" "tot \<le> MAX_INT64"
  shows "sto_split amount tot ((n, a) # rest) sent rs =
      (if sto_share amount tot sent n > 0
       then sto_split amount tot rest (sent + sto_share amount tot sent n)
              (set_insert_by SendToOwners_compare (sto_share amount tot sent n, a) rs)
       else Some rs)"
    and "sto_share amount tot sent n \<le> 0 \<Longrightarrow> sent = amount"
    and "0 < sto_share amount tot sent n \<Longrightarrow>
      sto_inv amount tot rest (sent + sto_share amount tot sent n)
        (set_insert_by SendToOwners_compare (sto_share amount tot sent n, a) rs)"
proof -
  let ?c = "cdiv (n * amount) tot" and ?w = "sto_share amount tot sent n"
  have n: "0 < n" "n \<le> tot" and sent: "0 \<le> sent" "sent \<le> amount"
    using assms(1) by (auto simp: sto_inv_def)
  have prod: "0 \<le> n * amount" "n * amount \<le> 2 ^ 254"
    using mult_int64_bound [of n amount] n assms by auto
  have c: "0 < ?c" "?c \<le> amount" "n * amount \<le> ?c * tot"
    using n assms cdiv_pos [of "n * amount" tot] cdiv_bounds(1) [of tot "n * amount"]
    by (auto intro: cdiv_le)
  have conv: "ConvertTo256 n = Some n" "ConvertTo256 amount = Some amount" "ConvertTo256 tot = Some tot"
    "mul256 n amount = n * amount" "ConvertTo64 ?c = Some ?c"
    using n assms c by (simp_all add: ConvertTo256_eq ConvertTo64_eq mul256_int64)
  have dr: "DivideAndRoundUp (n * amount) tot = Some ?c"
    using prod assms(4) by (rule DivideAndRoundUp_eq)
  have wr: "s64 (amount - sent) = amount - sent" "s64 (sent + ?w) = sent + ?w"
    using sent c assms by (auto intro!: s64_id simp: sto_share_def)
  have w: "(if s64 (amount - sent) < ?c then s64 (amount - sent) else ?c) = ?w"
    using wr by (simp add: sto_share_def)
  show "sto_split amount tot ((n, a) # rest) sent rs =
      (if ?w > 0 then sto_split amount tot rest (sent + ?w)
              (set_insert_by SendToOwners_compare (?w, a) rs)
       else Some rs)"
    using w wr by (simp add: conv dr Let_def)
  show "sent = amount" if "?w \<le> 0" using that c sent by (simp add: sto_share_def)
  show "sto_inv amount tot rest (sent + ?w) (set_insert_by SendToOwners_compare (?w, a) rs)" if "0 < ?w"
  proof -
    have "(amount - (sent + ?w)) * tot \<le> amount * sum_list (map fst rest)"
    proof (cases "?w = amount - sent")
      case True
      have "0 \<le> sum_list (map fst rest)"
        using assms(1) by (intro sum_list_nonneg) (auto simp: sto_inv_def)
      with True assms(2) show ?thesis by simp
    next
      case False
      then have "?w = ?c" by (auto simp: sto_share_def)
      then show ?thesis using assms(1) c(3) by (auto simp: sto_inv_def algebra_simps)
    qed
    moreover have "sent + ?w \<le> amount" by (simp add: sto_share_def)
    ultimately show ?thesis using assms(1) that
      by (auto simp: sto_inv_def owners.set_insert owners.sorted_insert)
  qed
qed

lemma sto_split_exact:
  assumes "sto_inv amount tot rest sent rs"
    and "0 < amount" "amount \<le> MAX_INT64" "0 < tot" "tot \<le> MAX_INT64"
  shows "\<exists>rs'. sto_split amount tot rest sent rs = Some rs'
    \<and> sum_list (map fst rs') = sum_list (map fst rs) + (amount - sent)
    \<and> sorted_wrt SendToOwners_compare rs'
    \<and> (\<forall>(x, a) \<in> set rs'. (x, a) \<in> set rs \<or>
         (0 < x \<and> (\<exists>n. (n, a) \<in> set rest \<and> x \<le> cdiv (n * amount) tot)))
    \<and> snd ` set rs' \<subseteq> snd ` set rs \<union> snd ` set rest \<and> (distinct (map snd rs) \<longrightarrow> distinct (map snd rs'))"
  using assms(1)
proof (induction rest arbitrary: sent rs)
  case Nil
  then have "(amount - sent) * tot \<le> 0" by (simp add: sto_inv_def)
  with Nil assms(4) have "sent = amount" by (simp add: sto_inv_def mult_le_0_iff)
  with Nil show ?case by (auto simp: sto_inv_def)
next
  case (Cons e rest)
  obtain n a where e: "e = (n, a)" by (cases e)
  let ?w = "sto_share amount tot sent n"
  let ?rs = "set_insert_by SendToOwners_compare (?w, a) rs"
  note step = sto_share_step [OF Cons.prems [unfolded e] assms(2-5)]
  show ?case
  proof (cases "0 < ?w")
    case False
    then show ?thesis using step(1,2) Cons.prems e by (auto simp: sto_inv_def)
  next
    case True
    note inv' = step(3) [OF True]
    from Cons.IH [OF inv'] obtain rs' where rs': "sto_split amount tot rest (sent + ?w) ?rs = Some rs'"
      "sum_list (map fst rs') = sum_list (map fst ?rs) + (amount - (sent + ?w))"
      "sorted_wrt SendToOwners_compare rs'"
      "\<forall>(x, a) \<in> set rs'. (x, a) \<in> set ?rs \<or>
         (0 < x \<and> (\<exists>n. (n, a) \<in> set rest \<and> x \<le> cdiv (n * amount) tot))"
      "snd ` set rs' \<subseteq> snd ` set ?rs \<union> snd ` set rest"
      "distinct (map snd ?rs) \<longrightarrow> distinct (map snd rs')" by blast
    have new: "a \<notin> snd ` set rs" using Cons.prems e by (auto simp: sto_inv_def)
    then have nin: "(?w, a) \<notin> set rs" by force
    have le: "?w \<le> cdiv (n * amount) tot" by (simp add: sto_share_def)
    have srt: "sorted_wrt SendToOwners_compare rs" using Cons.prems by (simp add: sto_inv_def)
    have "distinct ?rs" and "distinct rs"
      using owners.sorted_distinct owners.sorted_insert [OF srt] srt by blast+
    then have "distinct (map snd ?rs)" if "distinct (map snd rs)"
      using that new by (auto simp: distinct_map owners.set_insert inj_on_def)
    with rs'(6) have dist: "distinct (map snd rs) \<longrightarrow> distinct (map snd rs')" by blast
    have run: "sto_split amount tot (e # rest) sent rs = Some rs'" using step(1) rs'(1) True e by simp
    have sum: "sum_list (map fst rs') = sum_list (map fst rs) + (amount - sent)"
      using rs'(2) nin by (simp add: owners.sum_insert)
    have "\<forall>(x, b) \<in> set rs'. (x, b) \<in> set rs \<or>
         (0 < x \<and> (\<exists>m. (m, b) \<in> set (e # rest) \<and> x \<le> cdiv (m * amount) tot))"
      using rs'(4) True le e by (fastforce simp: owners.set_insert)
    moreover have "snd ` set rs' \<subseteq> snd ` set rs \<union> snd ` set (e # rest)"
      using rs'(5) e by (auto simp: owners.set_insert)
    ultimately show ?thesis using run sum rs'(3) dist by blast
  qed
qed

subsection \<open>Correctness of the distribution\<close>

lemma sum_filter_pos:
  "(\<Sum>(a, t)\<leftarrow>m. if a = sender then 0 else tally_total t p) =
   sum_list (map fst (map (\<lambda>(a, t). (tally_total t p, a))
      (filter (\<lambda>(a, t). a \<noteq> sender \<and> tally_total t p \<noteq> 0) m)))"
  by (induction m) (auto split: prod.splits)

lemma sto_owners_total:
  assumes "umap_ok m" and "\<forall>(a, t) \<in> set m. tally_ok t"
    and "sorted_wrt SendToOwners_compare os" and "set os = sto_owners sender p m"
  shows "sum_list (map fst os) = others_total sender p m" and "distinct (map snd os)"
proof -
  let ?ys = "map (\<lambda>(a, t). (tally_total t p, a)) (filter (\<lambda>(a, t). a \<noteq> sender \<and> tally_total t p \<noteq> 0) m)"
  have nn: "\<And>a t. (a, t) \<in> set m \<Longrightarrow> 0 \<le> tally_total t p" using assms(2) by (auto intro: tally_total_nonneg)
  have set: "set ?ys = sto_owners sender p m"
    using nn by (force simp: sto_owners_def)
  have dm: "distinct (map fst m)" using assms(1) by (simp add: umap_ok_def)
  have dk: "distinct (map snd ?ys)"
    using distinct_map_filter [OF dm, of "\<lambda>(a, t). a \<noteq> sender \<and> tally_total t p \<noteq> 0"]
    by (simp add: comp_def split_beta)
  then have dy: "distinct ?ys" by (simp only: distinct_map)
  have dos: "distinct os" using assms(3) by (rule owners.sorted_distinct)
  have "sum_list (map fst os) = sum fst (set os)" using dos by (simp add: sum_list_distinct_conv_sum_set)
  also have "\<dots> = sum_list (map fst ?ys)" 
    using sum_list_distinct_conv_sum_set [OF dy, of fst] by (simp only: set assms(4))
  finally show "sum_list (map fst os) = others_total sender p m"
    by (simp only: others_total_def sum_filter_pos)
  have "inj_on snd (set os)" using dk set assms(4) by (metis distinct_map)
  then show "distinct (map snd os)" using dos by (simp add: distinct_map)
qed

lemma others_total_le:
  "\<forall>(a, t) \<in> set m. tally_ok t \<Longrightarrow> others_total sender p m \<le> (\<Sum>(a, t)\<leftarrow>m. tally_total t p)"
  unfolding others_total_def
  by (induction m) (auto split: prod.splits dest: tally_total_nonneg [of _ p])

lemma sto_collect_ledger:
  assumes "tallies_ok s" and "token_supply s p \<le> MAX_INT64"
  obtains sn os where "sto_collect sender p (mp_tally_map s) (0, 0, []) = (others_total sender p (mp_tally_map s), sn, os)"
    and "sorted_wrt SendToOwners_compare os" and "set os = sto_owners sender p (mp_tally_map s)"
    and "sum_list (map fst os) = others_total sender p (mp_tally_map s)" and "distinct (map snd os)"
proof -
  obtain tot sn os where c: "sto_collect sender p (mp_tally_map s) (0, 0, []) = (tot, sn, os)"
    by (cases "sto_collect sender p (mp_tally_map s) (0, 0, [])") auto
  have "tot = 0 + others_total sender p (mp_tally_map s) \<and> sorted_wrt SendToOwners_compare os
      \<and> set os = set [] \<union> sto_owners sender p (mp_tally_map s)"
    using assms c by (intro sto_collect_spec [where os = "[]"]) (auto simp: tallies_ok_def token_supply_def)
  then show thesis
    using that c sto_owners_total [of "mp_tally_map s" os sender p] assms
    by (auto simp: tallies_ok_def)
qed

lemma sto_run:
  assumes "tallies_ok s" and "token_supply s p \<le> MAX_INT64" and "0 < amount" and "amount \<le> MAX_INT64" and "sto_owners sender p (mp_tally_map s) \<noteq> {}"
  shows "\<exists>rs. STO_GetReceivers sender p amount s = Some rs \<and> sum_list (map fst rs) = amount
    \<and> sorted_wrt SendToOwners_compare rs \<and> distinct (map snd rs)
    \<and> (\<forall>(x, a) \<in> set rs. 0 < x \<and> (\<exists>n. (n, a) \<in> sto_owners sender p (mp_tally_map s)
         \<and> x \<le> cdiv (n * amount) (others_total sender p (mp_tally_map s))))"
proof -
  let ?m = "mp_tally_map s" and ?tot = "others_total sender p (mp_tally_map s)"
  obtain sn os where c: "sto_collect sender p ?m (0, 0, []) = (?tot, sn, os)"
    and so: "sorted_wrt SendToOwners_compare os" and set: "set os = sto_owners sender p ?m"
    and sum: "sum_list (map fst os) = ?tot" and dist: "distinct (map snd os)"
    using sto_collect_ledger [OF assms(1,2)] .
  have pos: "\<forall>(n, a) \<in> set os. 0 < n" unfolding set by (auto simp: sto_owners_def)
  have le: "\<forall>e \<in> set os. fst e \<le> ?tot"
    using sum_list_member_le [of os fst] pos sum by fastforce
  have "0 < ?tot"
    using assms(5) set pos le by fastforce
  moreover have "?tot \<le> MAX_INT64"
    using others_total_le [of ?m sender p] assms(1,2) order_trans [of ?tot "token_supply s p" MAX_INT64]
    by (auto simp: tallies_ok_def token_supply_def)
  moreover have "sto_inv amount ?tot (rev os) 0 []"
    using assms(3) sum pos le dist by (auto simp: sto_inv_def rev_map [symmetric])
  ultimately show ?thesis
    using sto_split_exact [of amount ?tot "rev os" 0 "[]"] assms(3,4)
    by (force simp: STO_GetReceivers_def c set)
qed

lemma sto_none:
  assumes "tallies_ok s" and "token_supply s p \<le> MAX_INT64"
    and "amount = 0 \<or> sto_owners sender p (mp_tally_map s) = {}"
  shows "STO_GetReceivers sender p amount s = Some []"
proof -
  let ?tot = "others_total sender p (mp_tally_map s)"
  obtain sn os where c: "sto_collect sender p (mp_tally_map s) (0, 0, []) = (?tot, sn, os)"
    and set: "set os = sto_owners sender p (mp_tally_map s)" and sum: "sum_list (map fst os) = ?tot"
    using sto_collect_ledger [OF assms(1,2)] .
  have pos: "\<forall>(n, a) \<in> set os. 0 < n" unfolding set by (auto simp: sto_owners_def)
  have le: "?tot \<le> MAX_INT64"
    using others_total_le [of "mp_tally_map s" sender p] assms(1,2) by (auto simp: tallies_ok_def token_supply_def)
  show ?thesis
  proof (cases "rev os")
    case Nil
    then show ?thesis by (simp add: STO_GetReceivers_def c)
  next
    case (Cons e rest)
    obtain n a where e: "e = (n, a)" by (cases e)
    have mem: "(n, a) \<in> set os" using Cons e by (metis list.set_intros(1) set_rev)
    then have "0 < n" using pos by auto
    moreover have "n \<le> ?tot" using sum_list_member_le [of os fst "(n, a)"] pos mem sum by fastforce
    moreover have "amount = 0" using assms(3) set mem by auto
    ultimately show ?thesis using Cons e le
      by (simp add: STO_GetReceivers_def c ConvertTo256_eq mul256_int64 DivideAndRoundUp_def ConvertTo64_eq s64_id Let_def)
  qed
qed

text \<open>
  \<^bold>\<open>C1\<close>. Send-to-owners distributes exactly the amount: on a well-formed ledger with at least one
  other holder, \<open>STO_GetReceivers\<close> returns (no assertion of the 256-bit conversions
  fails), the shares are positive and sum to the amount, no address occurs twice, and each share
  is at most the holder's proportional share rounded up.
\<close>

theorem sto_distribution_exact:
  assumes "ledger_ok s" and "0 < amount" and "amount \<le> MAX_INT64"
    and "sto_owners sender p (mp_tally_map s) \<noteq> {}"
  shows "\<exists>rs. STO_GetReceivers sender p amount s = Some rs \<and> sum_list (map fst rs) = amount
    \<and> distinct (map snd rs)
    \<and> (\<forall>(x, a) \<in> set rs. 0 < x \<and> (\<exists>n. (n, a) \<in> sto_owners sender p (mp_tally_map s)
         \<and> x \<le> cdiv (n * amount) (others_total sender p (mp_tally_map s))))"
  using sto_run [OF ledger_tallies [OF assms(1)] tl.total_le [OF assms(1)] assms(2-4)] by blast

theorem sto_distribution_exact_witness:
  "\<exists>rs. STO_GetReceivers ''alice'' 3 7 sample_ledger = Some rs \<and> sum_list (map fst rs) = 7"
proof -
  have "(30, ''bob'') \<in> sto_owners ''alice'' 3 (mp_tally_map sample_ledger)"
    by (force simp: sto_owners_def sample_ledger_def sample_tallies_def)
  then show ?thesis
    using sto_distribution_exact [of sample_ledger 7 "''alice''" 3] by auto
qed

text \<open>
  \<^bold>\<open>C15\<close>. The distribution does not depend on the iteration order of the unordered tally map: two
  well-formed ledgers with the same entries give the same receivers, whatever order the entries
  are stored in. Nodes with different hash seeds therefore agree on the outcome.
\<close>

theorem sto_order_independent:
  assumes "ledger_ok s" and "ledger_ok s'" and "set (mp_tally_map s') = set (mp_tally_map s)"
  shows "STO_GetReceivers sender p amount s' = STO_GetReceivers sender p amount s"
proof -
  obtain sn os where c: "sto_collect sender p (mp_tally_map s) (0, 0, []) = (others_total sender p (mp_tally_map s), sn, os)"
    and os: "sorted_wrt SendToOwners_compare os" "set os = sto_owners sender p (mp_tally_map s)"
      "sum_list (map fst os) = others_total sender p (mp_tally_map s)"
    using sto_collect_ledger [OF ledger_tallies [OF assms(1)] tl.total_le [OF assms(1)]] .
  obtain sn' os' where c': "sto_collect sender p (mp_tally_map s') (0, 0, []) = (others_total sender p (mp_tally_map s'), sn', os')"
    and os': "sorted_wrt SendToOwners_compare os'" "set os' = sto_owners sender p (mp_tally_map s')"
      "sum_list (map fst os') = others_total sender p (mp_tally_map s')"
    using sto_collect_ledger [OF ledger_tallies [OF assms(2)] tl.total_le [OF assms(2)]] .
  have "os' = os"
    using os(1,2) os'(1,2) assms(3) by (intro owners.sorted_unique) (simp_all add: sto_owners_def)
  then show ?thesis using c c' os(3) os'(3) by (simp add: STO_GetReceivers_def)
qed

theorem sto_order_independent_witness:
  "STO_GetReceivers ''alice'' 3 7 (sample_ledger\<lparr>mp_tally_map := rev sample_tallies\<rparr>)
    = STO_GetReceivers ''alice'' 3 7 sample_ledger"
proof -
  let ?s = "sample_ledger\<lparr>mp_tally_map := rev sample_tallies\<rparr>"
  have ok: "ledger_ok ?s" by (simp add: ledger_ok_def tallies_ok_def umap_ok_def token_supply_def sample_tallies_def)
  have "set (mp_tally_map ?s) = set (mp_tally_map sample_ledger)" by (simp add: sample_ledger_def)
  then show ?thesis by (rule sto_order_independent [OF sample_ledger_ok ok])
qed

end
