(* ===== verification/Fees.thy ===== *)
theory Fees
  imports SpInfo Sto
begin

text \<open>
  The fee cache of the distributed exchange and the distribution of fees:
  \<^verbatim>\<open>src/src/tokencore/dbfees.{h,cpp}\<close>, with \<^verbatim>\<open>getTotalTokens\<close> and
  \<^verbatim>\<open>NotifyTotalTokensChanged\<close> of \<^verbatim>\<open>tokencore.cpp\<close>.

  The cache stores one text value per property, \<^verbatim>\<open>block:amount,block:amount,...\<close>; here it is the list of
  those pairs in textual order. A record of the fee history,
  \<^verbatim>\<open>block:property:total:address=amount,...\<close>, is the tuple of its parts. \<open>AbortNode\<close> requests a
  shutdown and returns, so the code after it still runs: it is the flag \<open>shutdownRequested\<close>.

  The lemmas show that fees are neither created nor lost between the ledger and the cache,
  what a rollback restores, that the history never overwrites a record, and where a distribution
  stops the node.
\<close>

type_synonym feeCacheItem = "int \<times> int"
type_synonym feeHistoryItem = "string \<times> int"
type_synonym feeHistoryDetail = "int \<times> property_id \<times> int \<times> feeHistoryItem list"

record fee_state = ledger +
  pDbSpInfo :: CMPSPInfo
  pDbFeeCache :: "(property_id \<times> feeCacheItem list) list"
  pDbFeeHistory :: "(nat \<times> feeHistoryDetail) list"
  distributionThresholds :: "(property_id \<times> int) list"
  msc_debug_fees :: bool
  overrideforcedshutdown :: bool
  shutdownRequested :: bool

abbreviation TOKEN_FEE_THRESHOLD :: int where "TOKEN_FEE_THRESHOLD \<equiv> 100000"
abbreviation MAX_STATE_HISTORY :: int where "MAX_STATE_HISTORY \<equiv> 50"

subsection \<open>The fee cache\<close>

text \<open>\<^verbatim>\<open>std::set<feeCacheItem>\<close>: the items sorted by block, then amount.\<close>

definition GetCacheHistory :: "'s fee_state_scheme \<Rightarrow> property_id \<Rightarrow> feeCacheItem list" where
  "GetCacheHistory s p = (case map_of (pDbFeeCache s) p of None \<Rightarrow> [] | Some items \<Rightarrow> fold sset_insert items [])"

definition GetCachedAmount :: "'s fee_state_scheme \<Rightarrow> property_id \<Rightarrow> int" where
  "GetCachedAmount s p = (case GetCacheHistory s p of [] \<Rightarrow> 0 | items \<Rightarrow> snd (last items))"

definition put_cache :: "property_id \<Rightarrow> feeCacheItem list \<Rightarrow> 's fee_state_scheme \<Rightarrow> 's fee_state_scheme" where
  "put_cache p items s = s\<lparr>pDbFeeCache := smap_upd p items (pDbFeeCache s)\<rparr>"

definition PruneCache :: "property_id \<Rightarrow> int \<Rightarrow> 's fee_state_scheme \<Rightarrow> 's fee_state_scheme" where
  "PruneCache p block s =
     (let pruneBlock = block - MAX_STATE_HISTORY;
          history = GetCacheHistory s p
      in case history of
           [] \<Rightarrow> s
         | firstItem # _ \<Rightarrow>
             if fst firstItem \<ge> pruneBlock then s
             else
               let newValue = filter (\<lambda>item. \<not> (fst item < pruneBlock \<and> msc_debug_fees s)) history
               in put_cache p (if newValue = [] then [last history] else newValue) s)"

definition ClearCache :: "property_id \<Rightarrow> int \<Rightarrow> 's fee_state_scheme \<Rightarrow> 's fee_state_scheme" where
  "ClearCache p block s =
     PruneCache p block (put_cache p (filter (\<lambda>item. fst item \<noteq> block) (GetCacheHistory s p) @ [(block, 0)]) s)"

fun rollback_loop :: "int \<Rightarrow> property_id list \<Rightarrow> 's fee_state_scheme \<Rightarrow> 's fee_state_scheme" where
  "rollback_loop block [] s = s"
| "rollback_loop block (p # ps) s =
     (let history = GetCacheHistory s p
      in if history = [] then rollback_loop block ps s
         else if fst (last history) < block then rollback_loop block ps s
         else rollback_loop block ps (put_cache p (filter (\<lambda>item. \<not> fst item \<ge> block) history) s))"

definition RollBackCache :: "int \<Rightarrow> 's fee_state_scheme \<Rightarrow> 's fee_state_scheme" where
  "RollBackCache block s =
     (let s1 = rollback_loop block [1..<peekNextSPID 1 (pDbSpInfo s)] s
      in rollback_loop block [TEST_ECO_PROPERTY_1..<peekNextSPID 2 (pDbSpInfo s1)] s1)"

subsection \<open>The fee history\<close>

definition CountRecords :: "'s fee_state_scheme \<Rightarrow> nat" where
  "CountRecords s = length (pDbFeeHistory s)"

definition RecordFeeDistribution :: "property_id \<Rightarrow> int \<Rightarrow> int \<Rightarrow> feeHistoryItem list
    \<Rightarrow> 's fee_state_scheme \<Rightarrow> 's fee_state_scheme" where
  "RecordFeeDistribution p block total_sent feeRecipients s =
     (let count = CountRecords s + 1
      in s\<lparr>pDbFeeHistory := smap_upd count (block, p, total_sent, feeRecipients) (pDbFeeHistory s)\<rparr>)"

definition RollBackHistory :: "int \<Rightarrow> 's fee_state_scheme \<Rightarrow> 's fee_state_scheme" where
  "RollBackHistory block s =
     s\<lparr>pDbFeeHistory := filter (\<lambda>(key, feeBlock, _). \<not> feeBlock \<ge> block) (pDbFeeHistory s)\<rparr>"

definition GetDistributionsForProperty :: "'s fee_state_scheme \<Rightarrow> property_id \<Rightarrow> nat list" where
  "GetDistributionsForProperty s p =
     map fst (filter (\<lambda>(key, feeBlock, prop, _). prop = p) (pDbFeeHistory s))"

definition GetDistributionData :: "'s fee_state_scheme \<Rightarrow> nat \<Rightarrow> (property_id \<times> int \<times> int) option" where
  "GetDistributionData s key =
     map_option (\<lambda>(block, p, total_sent, _). (p, block, total_sent)) (map_of (pDbFeeHistory s) key)"

definition GetFeeDistribution :: "'s fee_state_scheme \<Rightarrow> nat \<Rightarrow> feeHistoryItem list" where
  "GetFeeDistribution s key =
     (case map_of (pDbFeeHistory s) key of
        None \<Rightarrow> []
      | Some (block, p, total_sent, items) \<Rightarrow> fold sset_insert items [])"

subsection \<open>Total tokens and thresholds\<close>

fun total_loop :: "property_id \<Rightarrow> (string \<times> CMPTally) list \<Rightarrow> int \<times> int \<times> int \<Rightarrow> int \<times> int" where
  "total_loop p [] (prev, owners, totalTokens) = (owners, totalTokens)"
| "total_loop p ((address, tally) # it) (prev, owners, totalTokens) =
     (let t1 = s64 (totalTokens + getMoney tally p BALANCE);
          t2 = s64 (t1 + getMoney tally p SELLOFFER_RESERVE);
          t3 = s64 (t2 + getMoney tally p ACCEPT_RESERVE);
          t4 = s64 (t3 + getMoney tally p METADEX_RESERVE)
      in if prev \<noteq> t4 then total_loop p it (t4, s64 (owners + 1), t4)
         else total_loop p it (prev, owners, t4))"

text \<open>
  \<open>want_owners\<close> is whether the caller passes \<^verbatim>\<open>n_owners_total\<close>; the result is the total and the value
  written through that pointer.
\<close>

definition getTotalTokens_owners :: "'s fee_state_scheme \<Rightarrow> property_id \<Rightarrow> bool \<Rightarrow> int \<times> int" where
  "getTotalTokens_owners s p want_owners =
     (case getSP p (pDbSpInfo s) of
        None \<Rightarrow> (0, 0)
      | Some property \<Rightarrow>
          let (owners, totalTokens) =
            (if \<not> sp_fixed property \<or> want_owners then
               (let (o1, t1) = total_loop p (mp_tally_map s) (0, 0, 0) in (o1, s64 (t1 + GetCachedAmount s p)))
             else (0, 0))
          in (if sp_fixed property then sp_num_tokens property else totalTokens, owners))"

definition getTotalTokens :: "'s fee_state_scheme \<Rightarrow> property_id \<Rightarrow> int" where
  "getTotalTokens s p = fst (getTotalTokens_owners s p False)"

definition UpdateDistributionThresholds :: "property_id \<Rightarrow> 's fee_state_scheme \<Rightarrow> 's fee_state_scheme" where
  "UpdateDistributionThresholds p s =
     (let threshold = sdiv64 (getTotalTokens s p) TOKEN_FEE_THRESHOLD
      in s\<lparr>distributionThresholds := smap_upd p (if threshold \<le> 0 then 1 else threshold) (distributionThresholds s)\<rparr>)"

text \<open>\<^verbatim>\<open>distributionThresholds[propertyId]\<close> inserts 0 for a missing key.\<close>

definition GetDistributionThreshold :: "property_id \<Rightarrow> 's fee_state_scheme \<Rightarrow> int \<times> 's fee_state_scheme" where
  "GetDistributionThreshold p s =
     (case map_of (distributionThresholds s) p of
        Some v \<Rightarrow> (v, s)
      | None \<Rightarrow> (0, s\<lparr>distributionThresholds := smap_upd p 0 (distributionThresholds s)\<rparr>))"

subsection \<open>Distribution\<close>

fun distribute_loop :: "property_id \<Rightarrow> (int \<times> string) list \<Rightarrow> int \<Rightarrow> feeHistoryItem list
    \<Rightarrow> 's fee_state_scheme \<Rightarrow> (int \<times> feeHistoryItem list \<times> 's fee_state_scheme) option" where
  "distribute_loop p [] sent_so_far historyItems s = Some (sent_so_far, historyItems, s)"
| "distribute_loop p ((will_really_receive, address) # it) sent_so_far historyItems s = do {
     s1 \<leftarrow> assert_update address p will_really_receive BALANCE s;
     distribute_loop p it (s64 (sent_so_far + will_really_receive))
       (sset_insert (address, will_really_receive) historyItems) s1
   }"

definition DistributeCache :: "property_id \<Rightarrow> int \<Rightarrow> 's fee_state_scheme \<Rightarrow> 's fee_state_scheme option" where
  "DistributeCache p block s = do {
     let cachedAmount = GetCachedAmount s p;
     receiversSet \<leftarrow> STO_GetReceivers ''FEEDISTRIBUTION''
       (if isTestEcosystemProperty p then TOKEN_PROPERTY_TMSC else TOKEN_PROPERTY_MSC) cachedAmount s;
     (sent_so_far, historyItems, s1) \<leftarrow> distribute_loop p (rev receiversSet) 0 [] s;
     let s2 = RecordFeeDistribution p block sent_so_far historyItems s1;
     if sent_so_far = cachedAmount then Some (ClearCache p block s2) else None
   }"

definition EvalCache :: "property_id \<Rightarrow> int \<Rightarrow> 's fee_state_scheme \<Rightarrow> 's fee_state_scheme option" where
  "EvalCache p block s =
     (let (threshold, s1) = GetDistributionThreshold p s
      in if GetCachedAmount s1 p \<ge> threshold then DistributeCache p block s1 else Some s1)"

definition AddFee :: "property_id \<Rightarrow> int \<Rightarrow> int \<Rightarrow> 's fee_state_scheme \<Rightarrow> 's fee_state_scheme option" where
  "AddFee p block amount s =
     (let currentCachedAmount = GetCachedAmount s p;
          s1 = (if currentCachedAmount > 0 \<and> amount > MAX_INT64 - currentCachedAmount
                   \<and> \<not> overrideforcedshutdown s then s\<lparr>shutdownRequested := True\<rparr> else s);
          newCachedAmount = s64 (currentCachedAmount + amount);
          newValue = filter (\<lambda>item. fst item \<noteq> block) (GetCacheHistory s1 p) @ [(block, newCachedAmount)]
      in EvalCache p block (PruneCache p block (put_cache p newValue s1)))"

definition NotifyTotalTokensChanged :: "property_id \<Rightarrow> int \<Rightarrow> 's fee_state_scheme \<Rightarrow> 's fee_state_scheme option" where
  "NotifyTotalTokensChanged p block s = EvalCache p block (UpdateDistributionThresholds p s)"

subsection \<open>Well-formed caches\<close>

text \<open>
  Every stored history ascends strictly in the block, ends at or before the current block and holds
  non-negative amounts; then reading a value back gives the stored list.
\<close>

definition items_ok :: "int \<Rightarrow> feeCacheItem list \<Rightarrow> bool" where
  "items_ok block items \<longleftrightarrow> sorted_wrt (<) (map fst items)
     \<and> (\<forall>(b, a) \<in> set items. b \<le> block \<and> 0 \<le> a \<and> a \<le> MAX_INT64)"

definition cache_ok :: "int \<Rightarrow> 's fee_state_scheme \<Rightarrow> bool" where
  "cache_ok block s \<longleftrightarrow> smap_ok (pDbFeeCache s)
     \<and> (\<forall>p items. map_of (pDbFeeCache s) p = Some items \<longrightarrow> items_ok block items)"

lemma sset_insert_last: "\<forall>y \<in> set ys. y < x \<Longrightarrow> sset_insert x ys = ys @ [x]"
  by (induction ys) auto

lemma fold_sset_insert_sorted: "sset_ok (ys @ xs) \<Longrightarrow> fold sset_insert xs ys = ys @ xs"
proof (induction xs arbitrary: ys)
  case (Cons x xs)
  have "sset_insert x ys = ys @ [x]"
    using Cons.prems by (intro sset_insert_last) (auto simp: sset_ok_def sorted_wrt_append)
  then show ?case using Cons.IH [of "ys @ [x]"] Cons.prems by simp
qed simp

lemma items_sset_ok: "sorted_wrt (<) (map fst items) \<Longrightarrow> sset_ok items"
  unfolding sset_ok_def sorted_wrt_map by (erule sorted_wrt_mono_rel [rotated]) (auto simp: less_prod_def)

lemma items_read: "items_ok block items \<Longrightarrow> fold sset_insert items [] = items"
  using fold_sset_insert_sorted [of "[]" items] by (simp add: items_ok_def items_sset_ok)

lemma history_ok: "cache_ok block s \<Longrightarrow> items_ok block (GetCacheHistory s p)"
  using items_read [of block] by (cases "map_of (pDbFeeCache s) p") (auto simp: cache_ok_def GetCacheHistory_def items_ok_def)

lemma history_put:
  assumes "items_ok block items"
  shows "GetCacheHistory (put_cache p items s) q = (if q = p then items else GetCacheHistory s q)"
  by (simp add: put_cache_def GetCacheHistory_def map_of_smap_upd items_read [OF assms])

lemma cache_ok_put: "cache_ok block s \<Longrightarrow> items_ok block items \<Longrightarrow> cache_ok block (put_cache p items s)"
  by (auto simp: cache_ok_def put_cache_def map_of_smap_upd smap_ok_upd)

lemma cache_ok_mono: "cache_ok block s \<Longrightarrow> block \<le> block' \<Longrightarrow> cache_ok block' s"
  by (fastforce simp: cache_ok_def items_ok_def)

lemma items_ok_filter: "items_ok block items \<Longrightarrow> items_ok block (filter P items)"
  by (induction items) (auto simp: items_ok_def)

lemma items_ok_append:
  assumes "items_ok block items" and "0 \<le> a" and "a \<le> MAX_INT64"
  shows "items_ok block (filter (\<lambda>item. fst item \<noteq> block) items @ [(block, a)])"
proof -
  have "items_ok block (filter (\<lambda>item. fst item \<noteq> block) items)" by (rule items_ok_filter [OF assms(1)])
  moreover have "fst e < block" if "e \<in> set items" "fst e \<noteq> block" for e
    using assms(1) that by (fastforce simp: items_ok_def)
  ultimately show ?thesis using assms(2,3) by (auto simp: items_ok_def sorted_wrt_append)
qed

lemma last_filter_keep: "items \<noteq> [] \<Longrightarrow> P (last items) \<Longrightarrow> last (filter P items) = last items"
  by (induction items rule: rev_induct) auto

lemma cached_last: "GetCacheHistory s p \<noteq> [] \<Longrightarrow> GetCachedAmount s p = snd (last (GetCacheHistory s p))"
  by (cases "GetCacheHistory s p") (auto simp: GetCachedAmount_def)

lemma sorted_fst_last: "sorted_wrt (<) (map fst items) \<Longrightarrow> e \<in> set items \<Longrightarrow> fst e \<le> fst (last items)"
  for items :: "feeCacheItem list"
proof (induction items)
  case (Cons x items)
  then show ?case by (cases items) (auto intro: less_imp_le)
qed simp

lemma prune_last:
  assumes "items_ok block items" and "items \<noteq> []"
    and "new = filter (\<lambda>item. \<not> (fst item < b \<and> d)) items"
  shows "last (if new = [] then [last items] else new) = last items"
proof (cases "new = []")
  case False
  then obtain e where e: "e \<in> set items" "\<not> (fst e < b \<and> d)" using assms(3) by (auto simp: filter_empty_conv)
  then have "\<not> (fst (last items) < b \<and> d)"
    using sorted_fst_last [of items e] assms(1) by (auto simp: items_ok_def)
  then show ?thesis using False assms(2,3) by (simp add: last_filter_keep)
qed simp

text \<open>Pruning keeps the cached amount of every property and changes nothing but the cache.\<close>

lemma PruneCache_spec:
  assumes "cache_ok block' s"
  shows "cache_ok block' (PruneCache p block s)" (is ?ok)
    and "GetCachedAmount (PruneCache p block s) q = GetCachedAmount s q" (is ?amount)
    and "\<exists>c. PruneCache p block s = s\<lparr>pDbFeeCache := c\<rparr>" (is ?frame)
proof -
  let ?h = "GetCacheHistory s p"
  let ?new = "filter (\<lambda>item. \<not> (fst item < block - MAX_STATE_HISTORY \<and> msc_debug_fees s)) ?h"
  let ?v = "if ?new = [] then [last ?h] else ?new"
  have h: "items_ok block' ?h" by (rule history_ok [OF assms])
  have cases: "PruneCache p block s = s \<or> (?h \<noteq> [] \<and> PruneCache p block s = put_cache p ?v s)"
    by (auto simp: PruneCache_def Let_def split: list.split)
  have v: "items_ok block' ?v" if "?h \<noteq> []"
    using h last_in_set [OF that] items_ok_filter [OF h] by (auto simp: items_ok_def)
  show ?ok using cases v assms by (auto simp del: filter_empty_conv intro!: cache_ok_put)
  show ?amount
  proof (cases "PruneCache p block s = s")
    case False
    with cases have "?h \<noteq> []" and e: "PruneCache p block s = put_cache p ?v s" by auto
    have l: "?v \<noteq> []" "last ?v = last ?h" using prune_last [OF h \<open>?h \<noteq> []\<close> refl] by (simp_all split: if_splits)
    have hist: "GetCacheHistory (PruneCache p block s) q = (if q = p then ?v else GetCacheHistory s q)"
      unfolding e by (rule history_put [OF v [OF \<open>?h \<noteq> []\<close>]])
    show ?thesis
    proof (cases "q = p")
      case True
      then show ?thesis using hist l \<open>?h \<noteq> []\<close> cached_last [of s p] cached_last [of "PruneCache p block s" p] by simp
    next
      case False
      then show ?thesis using hist by (simp add: GetCachedAmount_def)
    qed
  qed simp
  have "\<exists>c. s = s\<lparr>pDbFeeCache := c\<rparr>" by (rule exI [of _ "pDbFeeCache s"]) simp
  then show ?frame using cases unfolding put_cache_def by metis
qed

lemma cached_put:
  assumes "items_ok block items" and "items \<noteq> []"
  shows "GetCachedAmount (put_cache p items s) q = (if q = p then snd (last items) else GetCachedAmount s q)"
  using assms(2) by (auto simp: GetCachedAmount_def history_put [OF assms(1)] split: list.split)

lemma cached_bounds:
  assumes "cache_ok block s"
  shows "0 \<le> GetCachedAmount s p \<and> GetCachedAmount s p \<le> MAX_INT64"
proof (cases "GetCacheHistory s p = []")
  case True
  then show ?thesis by (simp add: GetCachedAmount_def)
next
  case False
  obtain b a where l: "last (GetCacheHistory s p) = (b, a)" by fastforce
  then have "(b, a) \<in> set (GetCacheHistory s p)" using last_in_set [OF False] by simp
  then show ?thesis using history_ok [OF assms, of p] False l by (auto simp: cached_last items_ok_def)
qed

text \<open>The common core of \<open>ClearCache\<close> and \<open>AddFee\<close>: replace the entry of the current block and prune.\<close>

lemma write_entry:
  fixes s :: "'s fee_state_scheme"
  assumes "cache_ok block s" and "0 \<le> a" and "a \<le> MAX_INT64"
    and "s' = PruneCache p block (put_cache p (filter (\<lambda>item. fst item \<noteq> block) (GetCacheHistory s p) @ [(block, a)]) s)"
  shows "cache_ok block s'" and "GetCachedAmount s' q = (if q = p then a else GetCachedAmount s q)"
    and "\<exists>c. s' = s\<lparr>pDbFeeCache := c\<rparr>"
proof -
  let ?items = "filter (\<lambda>item. fst item \<noteq> block) (GetCacheHistory s p) @ [(block, a)]"
  have i: "items_ok block ?items" by (rule items_ok_append [OF history_ok [OF assms(1)] assms(2,3)])
  have c: "cache_ok block (put_cache p ?items s)" by (rule cache_ok_put [OF assms(1) i])
  show "cache_ok block s'" unfolding assms(4) by (rule PruneCache_spec(1) [OF c])
  show "GetCachedAmount s' q = (if q = p then a else GetCachedAmount s q)"
    unfolding assms(4) PruneCache_spec(2) [OF c] using cached_put [OF i, of p s q] by simp
  show "\<exists>c. s' = s\<lparr>pDbFeeCache := c\<rparr>"
    using PruneCache_spec(3) [OF c, of p block] assms(4) by (auto simp: put_cache_def)
qed

subsection \<open>Conservation of fees\<close>

text \<open>
  \<open>fee_ok\<close>: ledger and cache are well formed, and for every property the tokens held by
  addresses and the tokens in the cache together fit \<^verbatim>\<open>int64_t\<close>.
\<close>

definition fee_ok :: "int \<Rightarrow> 's fee_state_scheme \<Rightarrow> bool" where
  "fee_ok block s \<longleftrightarrow> ledger_ok s \<and> cache_ok block s
     \<and> (\<forall>p. token_supply s p + GetCachedAmount s p \<le> MAX_INT64)"

definition fee_holders :: "property_id \<Rightarrow> 's fee_state_scheme \<Rightarrow> (int \<times> string) set" where
  "fee_holders p s = sto_owners ''FEEDISTRIBUTION''
     (if isTestEcosystemProperty p then TOKEN_PROPERTY_TMSC else TOKEN_PROPERTY_MSC) (mp_tally_map s)"

lemma tallies_cong: "mp_tally_map s' = mp_tally_map s \<Longrightarrow> tallies_ok s' = tallies_ok s"
  by (simp add: tallies_ok_def)

lemma supply_cong: "mp_tally_map s' = mp_tally_map s \<Longrightarrow> token_supply s' p = token_supply s p"
  by (simp add: token_supply_def)

lemma balance_cong: "mp_tally_map s' = mp_tally_map s \<Longrightarrow> GetTokenBalance s' a p ty = GetTokenBalance s a p ty"
  by (simp add: GetTokenBalance_def)

text \<open>Crediting a list of receivers: what is paid out is added to the supply.\<close>

lemma distribute_loop_ok:
  fixes s :: "'s fee_state_scheme"
  assumes "tallies_ok s" and "\<forall>(x, a) \<in> set rs. 0 < x"
    and "\<forall>a. GetTokenBalance s a p BALANCE + sum_list (map fst rs) \<le> MAX_INT64"
    and "0 \<le> sent" and "sent + sum_list (map fst rs) \<le> MAX_INT64"
  shows "\<exists>hs' s'. distribute_loop p rs sent hs s = Some (sent + sum_list (map fst rs), hs', s') \<and> tallies_ok s'
    \<and> (\<forall>q. token_supply s' q = token_supply s q + (if q = p then sum_list (map fst rs) else 0))
    \<and> (\<exists>m. s' = s\<lparr>mp_tally_map := m\<rparr>)
    \<and> (\<forall>a q ty. GetTokenBalance s a q ty \<le> GetTokenBalance s' a q ty
         \<and> (q \<noteq> p \<or> ty \<noteq> BALANCE \<longrightarrow> GetTokenBalance s' a q ty = GetTokenBalance s a q ty))"
  using assms
proof (induction rs arbitrary: sent hs s)
  case Nil
  have "\<exists>m. s = s\<lparr>mp_tally_map := m\<rparr>" by (rule exI [of _ "mp_tally_map s"]) simp
  with Nil show ?case by simp
next
  case (Cons e rs)
  obtain x a where e: "e = (x, a)" by (cases e)
  have x: "0 < x" using Cons.prems(2) e by auto
  have nn: "0 \<le> sum_list (map fst rs)" using Cons.prems(2) by (intro sum_list_nonneg) auto
  have "GetTokenBalance s a p BALANCE + x \<le> MAX_INT64" using Cons.prems(3) [rule_format, of a] e nn by simp
  from tl.credit [OF Cons.prems(1) x this, simplified]
  obtain s1 where s1: "assert_update a p x BALANCE s = Some s1" "tallies_ok s1"
      "\<And>q. token_supply s1 q = token_supply s q + (if q = p then x else 0)" by blast
  note bal = assert_update_balance [OF s1(1)]
  have wrap: "s64 (sent + x) = sent + x" using Cons.prems(4,5) x nn e by (intro s64_id) auto
  have room: "\<forall>b. GetTokenBalance s1 b p BALANCE + sum_list (map fst rs) \<le> MAX_INT64"
  proof
    fix b
    show "GetTokenBalance s1 b p BALANCE + sum_list (map fst rs) \<le> MAX_INT64"
      using Cons.prems(3) [rule_format, of b] e x by (auto simp: bal)
  qed
  have "\<exists>hs' s'. distribute_loop p rs (sent + x) (sset_insert (a, x) hs) s1
        = Some (sent + x + sum_list (map fst rs), hs', s') \<and> tallies_ok s'
    \<and> (\<forall>q. token_supply s' q = token_supply s1 q + (if q = p then sum_list (map fst rs) else 0))
    \<and> (\<exists>m. s' = s1\<lparr>mp_tally_map := m\<rparr>)
    \<and> (\<forall>a q ty. GetTokenBalance s1 a q ty \<le> GetTokenBalance s' a q ty
         \<and> (q \<noteq> p \<or> ty \<noteq> BALANCE \<longrightarrow> GetTokenBalance s' a q ty = GetTokenBalance s1 a q ty))"
    by (rule Cons.IH [OF s1(2) _ room]) (use Cons.prems x e in auto)
  then obtain hs' s' where s': "distribute_loop p rs (sent + x) (sset_insert (a, x) hs) s1
        = Some (sent + x + sum_list (map fst rs), hs', s')" "tallies_ok s'"
    "\<forall>q. token_supply s' q = token_supply s1 q + (if q = p then sum_list (map fst rs) else 0)"
    "\<exists>m. s' = s1\<lparr>mp_tally_map := m\<rparr>"
    "\<forall>a q ty. GetTokenBalance s1 a q ty \<le> GetTokenBalance s' a q ty
         \<and> (q \<noteq> p \<or> ty \<noteq> BALANCE \<longrightarrow> GetTokenBalance s' a q ty = GetTokenBalance s1 a q ty)" by blast
  have "distribute_loop p (e # rs) sent hs s = Some (sent + sum_list (map fst (e # rs)), hs', s')"
    using s'(1) s1(1) wrap e by (simp add: ac_simps)
  moreover have "\<exists>m. s' = s\<lparr>mp_tally_map := m\<rparr>"
    using s'(4) assert_update_frame [OF s1(1)] by auto
  moreover have "GetTokenBalance s b q ty \<le> GetTokenBalance s' b q ty
      \<and> (q \<noteq> p \<or> ty \<noteq> BALANCE \<longrightarrow> GetTokenBalance s' b q ty = GetTokenBalance s b q ty)" for b q ty
    using s'(5) [rule_format, of b q ty] bal [of b q ty] x by (auto split: if_splits)
  ultimately show ?case using s'(2,3) s1(3) e by auto
qed

text \<open>The fields that fee accounting may change, and the accounting itself.\<close>

definition fee_frame :: "'s fee_state_scheme \<Rightarrow> 's fee_state_scheme \<Rightarrow> bool" where
  "fee_frame s s' \<longleftrightarrow> (\<exists>m c h d b. s' = s\<lparr>mp_tally_map := m, pDbFeeCache := c, pDbFeeHistory := h,
     distributionThresholds := d, shutdownRequested := b\<rparr>)"

definition fee_step :: "int \<Rightarrow> property_id \<Rightarrow> int \<Rightarrow> 's fee_state_scheme \<Rightarrow> 's fee_state_scheme \<Rightarrow> bool" where
  "fee_step block p amount s s' \<longleftrightarrow> tallies_ok s' \<and> cache_ok block s' \<and> fee_frame s s'
     \<and> (\<forall>q. token_supply s' q + GetCachedAmount s' q = token_supply s q + GetCachedAmount s q + (if q = p then amount else 0))
     \<and> (\<forall>q. token_supply s q \<le> token_supply s' q)
     \<and> (\<forall>a q ty. GetTokenBalance s a q ty \<le> GetTokenBalance s' a q ty
          \<and> (q \<noteq> p \<or> ty \<noteq> BALANCE \<longrightarrow> GetTokenBalance s' a q ty = GetTokenBalance s a q ty))"

lemma fee_frame_trans: "fee_frame s s1 \<Longrightarrow> fee_frame s1 s2 \<Longrightarrow> fee_frame s s2"
  by (auto simp: fee_frame_def) blast

lemma fee_frameI:
  "fee_frame s (s\<lparr>mp_tally_map := m\<rparr>)"
  "fee_frame s (s\<lparr>pDbFeeCache := c\<rparr>)"
  "fee_frame s (s\<lparr>pDbFeeHistory := h\<rparr>)"
  "fee_frame s (s\<lparr>distributionThresholds := d\<rparr>)"
  "fee_frame s (s\<lparr>shutdownRequested := b\<rparr>)"
  "fee_frame s s"
proof -
  have e: "fee_frame s (s\<lparr>mp_tally_map := m, pDbFeeCache := c, pDbFeeHistory := h,
     distributionThresholds := d, shutdownRequested := b\<rparr>)" for m c h d b
    unfolding fee_frame_def by blast
  show "fee_frame s (s\<lparr>mp_tally_map := m\<rparr>)"
    using e [where m = m and c = "pDbFeeCache s" and h = "pDbFeeHistory s" and d = "distributionThresholds s" and b = "shutdownRequested s"] by simp
  show "fee_frame s (s\<lparr>pDbFeeCache := c\<rparr>)"
    using e [where m = "mp_tally_map s" and c = c and h = "pDbFeeHistory s" and d = "distributionThresholds s" and b = "shutdownRequested s"] by simp
  show "fee_frame s (s\<lparr>pDbFeeHistory := h\<rparr>)"
    using e [where m = "mp_tally_map s" and c = "pDbFeeCache s" and h = h and d = "distributionThresholds s" and b = "shutdownRequested s"] by simp
  show "fee_frame s (s\<lparr>distributionThresholds := d\<rparr>)"
    using e [where m = "mp_tally_map s" and c = "pDbFeeCache s" and h = "pDbFeeHistory s" and d = d and b = "shutdownRequested s"] by simp
  show "fee_frame s (s\<lparr>shutdownRequested := b\<rparr>)"
    using e [where m = "mp_tally_map s" and c = "pDbFeeCache s" and h = "pDbFeeHistory s" and d = "distributionThresholds s" and b = b] by simp
  show "fee_frame s s"
    using e [where m = "mp_tally_map s" and c = "pDbFeeCache s" and h = "pDbFeeHistory s" and d = "distributionThresholds s" and b = "shutdownRequested s"] by simp
qed

lemma DistributeCache_ok:
  fixes s :: "'s fee_state_scheme"
  assumes "tallies_ok s" and "cache_ok block s"
    and "\<And>m. m = TOKEN_PROPERTY_MSC \<or> m = TOKEN_PROPERTY_TMSC \<Longrightarrow> token_supply s m \<le> MAX_INT64"
    and "\<forall>a. GetTokenBalance s a p BALANCE + GetCachedAmount s p \<le> MAX_INT64"
    and "GetCachedAmount s p = 0 \<or> fee_holders p s \<noteq> {}"
  shows "\<exists>s'. DistributeCache p block s = Some s' \<and> fee_step block p 0 s s' \<and> GetCachedAmount s' p = 0"
proof -
  let ?c = "GetCachedAmount s p"
  let ?m = "if isTestEcosystemProperty p then TOKEN_PROPERTY_TMSC else TOKEN_PROPERTY_MSC"
  have c: "0 \<le> ?c" "?c \<le> MAX_INT64" using cached_bounds [OF assms(2)] by auto
  have m: "token_supply s ?m \<le> MAX_INT64" by (rule assms(3)) simp
  obtain rs where rs: "STO_GetReceivers ''FEEDISTRIBUTION'' ?m ?c s = Some rs" "sum_list (map fst rs) = ?c"
      "\<forall>(x, a) \<in> set rs. 0 < x"
  proof (cases "?c = 0")
    case True
    then show thesis using that [of "[]"] sto_none [OF assms(1) m, of ?c] by simp
  next
    case False
    then have "sto_owners ''FEEDISTRIBUTION'' ?m (mp_tally_map s) \<noteq> {}" using assms(5) by (simp add: fee_holders_def)
    from sto_run [OF assms(1) m _ c(2) this] False c(1) show thesis using that by fastforce
  qed
  have room: "\<forall>a. GetTokenBalance s a p BALANCE + sum_list (map fst (rev rs)) \<le> MAX_INT64"
    and pos: "\<forall>(x, a) \<in> set (rev rs). 0 < x" and sum: "sum_list (map fst (rev rs)) = ?c"
    using assms(4) rs(2,3) by (simp_all add: rev_map [symmetric])
  have tot: "0 + sum_list (map fst (rev rs)) \<le> MAX_INT64" using sum c(2) by simp
  obtain hs s1 where s1: "distribute_loop p (rev rs) 0 [] s = Some (?c, hs, s1)" "tallies_ok s1"
      "\<forall>q. token_supply s1 q = token_supply s q + (if q = p then ?c else 0)" "\<exists>m. s1 = s\<lparr>mp_tally_map := m\<rparr>"
      "\<forall>a q ty. GetTokenBalance s a q ty \<le> GetTokenBalance s1 a q ty
         \<and> (q \<noteq> p \<or> ty \<noteq> BALANCE \<longrightarrow> GetTokenBalance s1 a q ty = GetTokenBalance s a q ty)"
    using distribute_loop_ok [OF assms(1) pos room order_refl tot, of "[]"] unfolding sum by auto
  let ?s2 = "RecordFeeDistribution p block ?c hs s1" and ?s3 = "ClearCache p block (RecordFeeDistribution p block ?c hs s1)"
  have s2: "mp_tally_map ?s2 = mp_tally_map s1" "pDbFeeCache ?s2 = pDbFeeCache s" "fee_frame s ?s2"
    using s1(4) fee_frame_trans [OF fee_frameI(1) fee_frameI(3)] by (auto simp: RecordFeeDistribution_def Let_def)
  have c2: "cache_ok block ?s2" using assms(2) s2(2) by (simp add: cache_ok_def)
  have cached2: "GetCachedAmount ?s2 q = GetCachedAmount s q" for q
    using s2(2) by (simp add: GetCachedAmount_def GetCacheHistory_def)
  note w = write_entry [OF c2 order_refl _ ClearCache_def, of p]
  have s3: "mp_tally_map ?s3 = mp_tally_map s1" using w(3) s2(1) by auto
  have "fee_frame ?s2 ?s3" using w(3) fee_frameI(2) by auto
  with s2(3) have "fee_frame s ?s3" by (rule fee_frame_trans)
  then have "fee_step block p 0 s ?s3 \<and> GetCachedAmount ?s3 p = 0"
    using s1(2,3,5) w(1,2) c cached2 tallies_cong [OF s3] supply_cong [OF s3] balance_cong [OF s3]
    by (auto simp: fee_step_def)
  moreover have "DistributeCache p block s = Some ?s3"
    using rs(1) s1(1) by (simp add: DistributeCache_def)
  ultimately show ?thesis by blast
qed

lemma fee_step_from:
  assumes "fee_step block p amount s1 s'" and "fee_frame s s1" and "mp_tally_map s1 = mp_tally_map s"
    and "\<And>q. GetCachedAmount s1 q = GetCachedAmount s q + (if q = p then x else 0)"
  shows "fee_step block p (amount + x) s s'"
  using assms(1,4) fee_frame_trans [OF assms(2)] supply_cong [OF assms(3)] balance_cong [OF assms(3)]
  by (auto simp: fee_step_def)

lemma EvalCache_ok:
  fixes s :: "'s fee_state_scheme"
  assumes "tallies_ok s" and "cache_ok block s"
    and "\<And>m. m = TOKEN_PROPERTY_MSC \<or> m = TOKEN_PROPERTY_TMSC \<Longrightarrow> token_supply s m \<le> MAX_INT64"
    and "\<forall>a. GetTokenBalance s a p BALANCE + GetCachedAmount s p \<le> MAX_INT64"
    and "GetCachedAmount s p = 0 \<or> fee_holders p s \<noteq> {}"
  shows "\<exists>s'. EvalCache p block s = Some s' \<and> fee_step block p 0 s s'"
proof -
  obtain t s1 where th: "GetDistributionThreshold p s = (t, s1)" by fastforce
  then have m: "mp_tally_map s1 = mp_tally_map s" and c: "pDbFeeCache s1 = pDbFeeCache s" and fr: "fee_frame s s1"
    by (auto simp: GetDistributionThreshold_def intro: fee_frameI split: option.splits)
  have cached: "GetCachedAmount s1 q = GetCachedAmount s q" for q
    using c by (simp add: GetCachedAmount_def GetCacheHistory_def)
  have "\<exists>s'. DistributeCache p block s1 = Some s' \<and> fee_step block p 0 s1 s' \<and> GetCachedAmount s' p = 0"
    by (rule DistributeCache_ok)
      (use assms m c in \<open>auto simp: tallies_cong [OF m] supply_cong [OF m] balance_cong [OF m] cached fee_holders_def
        simp: cache_ok_def\<close>)
  moreover have "fee_step block p 0 s1 s1"
    using assms(1,2) m c by (auto simp: fee_step_def tallies_cong [OF m] cache_ok_def intro: fee_frameI)
  ultimately have "\<exists>s'. EvalCache p block s = Some s' \<and> fee_step block p 0 s1 s'"
    using th by (auto simp: EvalCache_def)
  then show ?thesis using fee_step_from [OF _ fr m, of block p 0 _ 0] cached by auto
qed

lemma AddFee_ok:
  fixes s :: "'s fee_state_scheme"
  assumes "tallies_ok s" and "cache_ok block s"
    and "\<And>m. m = TOKEN_PROPERTY_MSC \<or> m = TOKEN_PROPERTY_TMSC \<Longrightarrow> token_supply s m \<le> MAX_INT64"
    and "0 \<le> amount" and "\<forall>a. GetTokenBalance s a p BALANCE + GetCachedAmount s p + amount \<le> MAX_INT64"
    and "fee_holders p s \<noteq> {}"
  shows "\<exists>s'. AddFee p block amount s = Some s' \<and> fee_step block p amount s s'"
proof -
  let ?c = "GetCachedAmount s p"
  have c: "0 \<le> ?c" using cached_bounds [OF assms(2)] by auto
  have sum: "?c + amount \<le> MAX_INT64"
    using assms(5) [rule_format, of "[]"] tl.bal_nonneg [OF assms(1), of BALANCE "[]" p] by simp
  have w: "s64 (?c + amount) = ?c + amount" using c assms(4) sum by (intro s64_id) auto
  let ?s1 = "PruneCache p block (put_cache p (filter (\<lambda>item. fst item \<noteq> block) (GetCacheHistory s p) @ [(block, ?c + amount)]) s)"
  have run: "AddFee p block amount s = EvalCache p block ?s1"
    using sum c by (simp add: AddFee_def Let_def w)
  note we = write_entry [OF assms(2) _ sum refl, of p]
  have ok1: "cache_ok block ?s1" using we(1) c assms(4) by simp
  have cached1: "GetCachedAmount ?s1 q = GetCachedAmount s q + (if q = p then amount else 0)" for q
    using we(2) c assms(4) by simp
  have fr: "fee_frame s ?s1" and m: "mp_tally_map ?s1 = mp_tally_map s" using we(3) c assms(4) fee_frameI(2) by fastforce+
  have "\<exists>s'. EvalCache p block ?s1 = Some s' \<and> fee_step block p 0 ?s1 s'"
    by (rule EvalCache_ok) (use assms ok1 cached1 m in \<open>auto simp: tallies_cong [OF m] supply_cong [OF m] balance_cong [OF m]
        fee_holders_def add.assoc\<close>)
  then show ?thesis using fee_step_from [OF _ fr m cached1, of block 0] run by auto
qed

subsection \<open>Properties of fees\<close>

text \<open>
  \<^bold>\<open>C22\<close>. Fees are conserved: while the main (or test) token has a holder and the tokens of the property
  fit, \<open>AddFee\<close> returns, and for every property the tokens of all addresses plus the cached fee change by exactly the added
  amount, whether or not the fee triggers a distribution; no balance decreases, only available balances of that
  property change, and the state stays well formed.
\<close>

theorem AddFee_conserves:
  fixes s :: fee_state
  assumes "fee_ok block s" and "0 \<le> amount" and "token_supply s p + GetCachedAmount s p + amount \<le> MAX_INT64"
    and "fee_holders p s \<noteq> {}"
  shows "\<exists>s'. AddFee p block amount s = Some s' \<and> fee_ok block s'
    \<and> (\<forall>q. token_supply s' q + GetCachedAmount s' q = token_supply s q + GetCachedAmount s q + (if q = p then amount else 0))
    \<and> (\<forall>a q ty. GetTokenBalance s a q ty \<le> GetTokenBalance s' a q ty
         \<and> (q \<noteq> p \<or> ty \<noteq> BALANCE \<longrightarrow> GetTokenBalance s' a q ty = GetTokenBalance s a q ty))"
proof -
  have ok: "tallies_ok s" "cache_ok block s" and le: "\<And>q. token_supply s q \<le> MAX_INT64"
    and sumle: "\<And>q. token_supply s q + GetCachedAmount s q \<le> MAX_INT64"
    using assms(1) by (auto simp: fee_ok_def ledger_ok_def)
  have "GetTokenBalance s a p BALANCE + GetCachedAmount s p + amount \<le> MAX_INT64" for a
    using tl.bal_le_total [OF ok(1), of BALANCE a p] assms(3) by simp
  then obtain s' where s': "AddFee p block amount s = Some s'" "fee_step block p amount s s'"
    using AddFee_ok [OF ok le assms(2) _ assms(4)] by blast
  have c: "0 \<le> GetCachedAmount s' q" for q using s'(2) cached_bounds [of block s' q] by (auto simp: fee_step_def)
  have eq: "token_supply s' q + GetCachedAmount s' q = token_supply s q + GetCachedAmount s q + (if q = p then amount else 0)" for q
    using s'(2) by (simp add: fee_step_def)
  have max: "token_supply s' q + GetCachedAmount s' q \<le> MAX_INT64" for q
    using eq [of q] sumle [of q] assms(3) by auto
  have "token_supply s' q \<le> MAX_INT64" for q using max [of q] c [of q] by linarith
  then have "fee_ok block s'" using s'(2) max by (simp add: fee_ok_def ledger_ok_def fee_step_def)
  then show ?thesis using s' eq by (auto simp: fee_step_def)
qed

definition sample_fees :: "int \<Rightarrow> fee_state" where
  "sample_fees n = \<lparr>mp_tally_map = [(''exodus'', holder 1 n), (''alice'', holder 3 100)],
     setFreezingEnabledProperties = [], setFrozenAddresses = [], pDbSpInfo = new_spinfo ''exodus'',
     pDbFeeCache = [(3, [(10, 4)])], pDbFeeHistory = [], distributionThresholds = [(3, 6)],
     msc_debug_fees = False, overrideforcedshutdown = False, shutdownRequested = False\<rparr>"

lemma sample_fees_ok: "0 \<le> n \<Longrightarrow> n \<le> 1000 \<Longrightarrow> fee_ok 12 (sample_fees n)"
  by (auto simp: fee_ok_def ledger_ok_def tallies_ok_def umap_ok_def token_supply_def sample_fees_def cache_ok_def
      smap_ok_def items_ok_def GetCachedAmount_def GetCacheHistory_def split: if_splits)

theorem AddFee_conserves_witness:
  "\<exists>s'. AddFee 3 12 2 (sample_fees 50) = Some s' \<and> token_supply s' 3 + GetCachedAmount s' 3 = 106"
proof -
  have "(50, ''exodus'') \<in> fee_holders 3 (sample_fees 50)"
    by (force simp: fee_holders_def sto_owners_def sample_fees_def isTestEcosystemProperty_def)
  then have h: "fee_holders 3 (sample_fees 50) \<noteq> {}" by blast
  have v: "token_supply (sample_fees 50) 3 = 100" "GetCachedAmount (sample_fees 50) 3 = 4"
    by (simp_all add: token_supply_def sample_fees_def GetCachedAmount_def GetCacheHistory_def)
  show ?thesis using AddFee_conserves [OF sample_fees_ok [of 50] _ _ h, of 2] v by fastforce
qed

text \<open>
  \<^bold>\<open>C32\<close>. A distribution without a receiver stops the node: when the cache holds a fee and no address holds the token
  of that ecosystem, nothing is sent and the final assertion fails. The comment in the code
  says that there will always be such addresses, but nothing credits the test ecosystem's token.
\<close>

theorem DistributeCache_without_holders:
  fixes s :: fee_state
  assumes "fee_ok block s" and "0 < GetCachedAmount s p" and "fee_holders p s = {}"
  shows "DistributeCache p block s = None"
  using assms sto_none [of s "if isTestEcosystemProperty p then TOKEN_PROPERTY_TMSC else TOKEN_PROPERTY_MSC"
      "GetCachedAmount s p" "''FEEDISTRIBUTION''"]
  by (simp add: DistributeCache_def fee_ok_def ledger_ok_def fee_holders_def)

theorem DistributeCache_without_holders_witness: "DistributeCache 3 12 (sample_fees 0) = None"
proof (rule DistributeCache_without_holders [OF sample_fees_ok])
  show "0 < GetCachedAmount (sample_fees 0) 3"
    by (simp add: sample_fees_def GetCachedAmount_def GetCacheHistory_def)
  show "fee_holders 3 (sample_fees 0) = {}"
    by (auto simp: fee_holders_def sto_owners_def sample_fees_def isTestEcosystemProperty_def split: if_splits)
qed simp_all

text \<open>
  Pruning only happens while debug logging is on: the statement that discards a matured entry stands
  inside the logging condition, so without \<^verbatim>\<open>msc_debug_fees\<close> no history loses an entry, however old.
\<close>

lemma PruneCache_keeps_matured:
  fixes s :: fee_state
  assumes "cache_ok block' s" and "\<not> msc_debug_fees s"
  shows "GetCacheHistory (PruneCache p block s) q = GetCacheHistory s q"
  using assms(2) history_put [OF history_ok [OF assms(1)], of p p s q]
  by (auto simp: PruneCache_def Let_def split: list.split)

lemma rollback_loop_history:
  assumes "cache_ok block' s"
  shows "cache_ok block' (rollback_loop b ps s) \<and> pDbSpInfo (rollback_loop b ps s) = pDbSpInfo s
    \<and> (\<forall>p. GetCacheHistory (rollback_loop b ps s) p =
      (if p \<in> set ps then filter (\<lambda>item. fst item < b) (GetCacheHistory s p) else GetCacheHistory s p))"
  using assms
proof (induction ps arbitrary: s)
  case (Cons q ps)
  let ?h = "GetCacheHistory s q" and ?f = "filter (\<lambda>item. fst item < b) (GetCacheHistory s q)"
  have h: "items_ok block' ?h" by (rule history_ok [OF Cons.prems])
  obtain s1 where s1: "s1 = (if ?h = [] \<or> fst (last ?h) < b then s else put_cache q ?f s)" by blast
  have step: "rollback_loop b (q # ps) s = rollback_loop b ps s1" by (auto simp: s1 Let_def not_le)
  have keep: "?f = ?h" if "?h = [] \<or> fst (last ?h) < b"
    using that sorted_fst_last [of ?h] h by (fastforce simp: items_ok_def filter_id_conv)
  have ok1: "cache_ok block' s1" using Cons.prems cache_ok_put [OF Cons.prems items_ok_filter [OF h]] by (simp add: s1)
  have hist: "GetCacheHistory s1 r = (if r = q then ?f else GetCacheHistory s r)" for r
    using keep history_put [OF items_ok_filter [OF h], of q "\<lambda>item. fst item < b" s r] by (auto simp: s1)
  have sp: "pDbSpInfo s1 = pDbSpInfo s" by (simp add: s1 put_cache_def)
  have idem: "filter (\<lambda>item. fst item < b) ?f = ?f" by simp
  show ?case unfolding step using Cons.IH [OF ok1] hist sp idem by auto
qed simp

text \<open>
  Rolling back the cache to a block keeps, for every property that exists, exactly the entries before that
  block, so its cached amount is again the one recorded by the last earlier entry.
\<close>

lemma RollBackCache_exact:
  fixes s :: fee_state
  assumes "cache_ok block s" and "spdb_ok (pDbSpInfo s)" and "IsPropertyIdValid p (pDbSpInfo s)"
  shows "GetCacheHistory (RollBackCache b s) p = filter (\<lambda>item. fst item < b) (GetCacheHistory s p)"
proof -
  define db where "db = pDbSpInfo s"
  define s1 where "s1 = rollback_loop b [1..<peekNextSPID 1 db] s"
  note r1 = rollback_loop_history [OF assms(1), of b "[1..<peekNextSPID 1 db]", folded s1_def]
  then have ok1: "cache_ok block s1" and sp: "pDbSpInfo s1 = db" by (simp_all add: db_def)
  note r2 = rollback_loop_history [OF ok1, of b "[TEST_ECO_PROPERTY_1..<peekNextSPID 2 db]"]
  have run: "RollBackCache b s = rollback_loop b [TEST_ECO_PROPERTY_1..<peekNextSPID 2 db] s1"
    by (simp only: RollBackCache_def Let_def db_def [symmetric] s1_def [symmetric] sp)
  have "p \<in> set [1..<peekNextSPID 1 db] \<or> p \<in> set [TEST_ECO_PROPERTY_1..<peekNextSPID 2 db]"
    using assms(3) unfolding db_def [symmetric] by (auto simp: IsPropertyIdValid_def Let_def split: if_splits)
  then show ?thesis unfolding run using r1 r2 by (auto simp del: set_upt)
qed

subsection \<open>The fee history\<close>

text \<open>Records are numbered from 1 without gaps and ascend in the block.\<close>

definition fee_history_ok :: "int \<Rightarrow> 's fee_state_scheme \<Rightarrow> bool" where
  "fee_history_ok block s \<longleftrightarrow> map fst (pDbFeeHistory s) = [1..<length (pDbFeeHistory s) + 1]
     \<and> sorted (map (\<lambda>(key, b, _). b) (pDbFeeHistory s)) \<and> (\<forall>(key, b, _) \<in> set (pDbFeeHistory s). b \<le> block)"

lemma filter_sorted_take:
  fixes f :: "'a \<Rightarrow> int"
  shows "sorted (map f xs) \<Longrightarrow> filter (\<lambda>x. \<not> f x \<ge> b) xs = take (length (filter (\<lambda>x. \<not> f x \<ge> b) xs)) xs"
proof (induction xs)
  case (Cons x xs)
  have "filter (\<lambda>x. \<not> f x \<ge> b) xs = []" if "f x \<ge> b"
    using that Cons.prems by (auto simp: filter_empty_conv)
  with Cons show ?case by (cases "f x \<ge> b") auto
qed simp

lemma RollBackHistory_ok:
  assumes "fee_history_ok block s"
  shows "fee_history_ok block (RollBackHistory b s)"
proof -
  let ?h = "pDbFeeHistory s" and ?f = "\<lambda>(key, b, _). b" and ?P = "\<lambda>(key :: nat, feeBlock, _). \<not> feeBlock \<ge> b"
  let ?n = "length (filter ?P ?h)"
  have srt: "sorted (map ?f ?h)" and keys: "map fst ?h = [1..<length ?h + 1]"
    using assms by (simp_all add: fee_history_ok_def case_prod_unfold)
  have P: "?P = (\<lambda>x. \<not> ?f x \<ge> b)" by (auto simp: fun_eq_iff)
  have t: "filter ?P ?h = take ?n ?h" unfolding P by (rule filter_sorted_take [OF srt])
  have n: "?n \<le> length ?h" by simp
  have "map fst (take ?n ?h) = take ?n [1..<length ?h + 1]" by (metis keys take_map)
  also have "\<dots> = [1..<1 + ?n]" by (rule take_upt) (use n in simp)
  finally have "map fst (filter ?P ?h) = [1..<?n + 1]" using t by (simp only: add.commute)
  moreover have "sorted (map ?f (filter ?P ?h))" using srt by (rule sorted_filter)
  moreover have "\<forall>(key, b, _) \<in> set (filter ?P ?h). b \<le> block" using assms by (auto simp: fee_history_ok_def)
  ultimately show ?thesis by (simp add: fee_history_ok_def RollBackHistory_def)
qed

text \<open>
  The fee history never overwrites a record: with its records numbered from 1 without gaps, a new distribution
  gets a number no record has and can be read back under it, all others are unchanged, and the
  numbering stays without gaps, also after rolling back to any block.
\<close>

lemma RecordFeeDistribution_appends:
  fixes s :: fee_state
  assumes "fee_history_ok block s" and "s' = RecordFeeDistribution p block n items s"
  shows "map_of (pDbFeeHistory s) (CountRecords s + 1) = None
    \<and> GetDistributionData s' (CountRecords s + 1) = Some (p, block, n)
    \<and> (\<forall>key. key \<noteq> CountRecords s + 1 \<longrightarrow> GetDistributionData s' key = GetDistributionData s key)
    \<and> fee_history_ok block s' \<and> (\<forall>b. fee_history_ok block (RollBackHistory b s'))"
proof -
  let ?h = "pDbFeeHistory s"
  have keys: "map fst ?h = [1..<length ?h + 1]" using assms(1) by (simp add: fee_history_ok_def)
  then have set: "fst ` set ?h = {1..<length ?h + 1}" by (metis set_map set_upt)
  then have new: "map_of ?h (length ?h + 1) = None" by (simp add: map_of_eq_None_iff)
  then have "\<forall>e \<in> set ?h. fst e < length ?h + 1" using imageI [of _ "set ?h" fst] unfolding set by fastforce
  then have h': "pDbFeeHistory s' = ?h @ [(length ?h + 1, block, p, n, items)]"
    using assms(2) by (simp add: RecordFeeDistribution_def CountRecords_def smap_upd_append)
  have ok: "fee_history_ok block s'"
    using assms(1) keys by (auto simp: fee_history_ok_def h' sorted_append)
  have look: "map_of (pDbFeeHistory s') = (map_of ?h)(length ?h + 1 \<mapsto> (block, p, n, items))"
    using assms(2) by (simp add: RecordFeeDistribution_def CountRecords_def map_of_smap_upd)
  show ?thesis
    using new ok RollBackHistory_ok [OF ok] by (simp add: CountRecords_def GetDistributionData_def look)
qed

subsection \<open>Total tokens\<close>

lemma total_loop_spec:
  assumes "\<forall>(a, t) \<in> set m. tally_ok t" and "0 \<le> n" and "n + (\<Sum>(a, t)\<leftarrow>m. tally_total t p) \<le> MAX_INT64"
    and "0 \<le> k" and "k \<le> n"
  shows "total_loop p m (n, k, n) =
    (k + int (length (filter (\<lambda>(a, t). tally_total t p \<noteq> 0) m)), n + (\<Sum>(a, t)\<leftarrow>m. tally_total t p))"
  using assms
proof (induction m arbitrary: n k)
  case (Cons e m)
  obtain a t where e: "e = (a, t)" by (cases e)
  have ok: "tally_ok t" using Cons.prems(1) e by auto
  have rest: "0 \<le> (\<Sum>(a, t)\<leftarrow>m. tally_total t p)"
    using Cons.prems(1) by (intro sum_list_nonneg) (auto intro: tally_total_nonneg)
  have nn: "0 \<le> getMoney t p BALANCE" "0 \<le> getMoney t p SELLOFFER_RESERVE" "0 \<le> getMoney t p ACCEPT_RESERVE"
    "0 \<le> getMoney t p METADEX_RESERVE" using getMoney_nonneg [OF ok] by simp_all
  have le: "n + tally_total t p \<le> MAX_INT64" using Cons.prems(3) rest e by simp
  have w: "s64 (s64 (s64 (s64 (n + getMoney t p BALANCE) + getMoney t p SELLOFFER_RESERVE) + getMoney t p ACCEPT_RESERVE)
      + getMoney t p METADEX_RESERVE) = n + tally_total t p"
    using nn le Cons.prems(2) by (simp add: s64_id tally_total_def)
  have tot: "0 \<le> tally_total t p" by (rule tally_total_nonneg [OF ok])
  have step: "total_loop p (e # m) (n, k, n) = total_loop p m (n + tally_total t p,
      if tally_total t p \<noteq> 0 then k + 1 else k, n + tally_total t p)"
    using w s64_id [of "k + 1"] Cons.prems(4,5) tot le by (auto simp: e Let_def)
  show ?case
    unfolding step using Cons.IH [of "n + tally_total t p" "if tally_total t p \<noteq> 0 then k + 1 else k"]
      Cons.prems tot e by (auto simp: ac_simps)
qed simp

lemma getTotalTokens_eq:
  assumes "fee_ok block s" and "getSP p (pDbSpInfo s) = Some property" and "\<not> sp_fixed property"
  shows "getTotalTokens s p = token_supply s p + GetCachedAmount s p
    \<and> getTotalTokens_owners s p True =
        (token_supply s p + GetCachedAmount s p, int (card {a. tally_total (tally_at s a) p \<noteq> 0}))"
proof -
  let ?m = "mp_tally_map s" and ?own = "filter (\<lambda>(a, t). tally_total t p \<noteq> 0) (mp_tally_map s)"
  have ok: "umap_ok ?m" "\<forall>(a, t) \<in> set ?m. tally_ok t" "token_supply s p \<le> MAX_INT64" "cache_ok block s"
    and le: "token_supply s p + GetCachedAmount s p \<le> MAX_INT64"
    using assms(1) by (auto simp: fee_ok_def ledger_ok_def tallies_ok_def)
  have loop: "total_loop p ?m (0, 0, 0) = (int (length ?own), token_supply s p)"
    using total_loop_spec [OF ok(2), of 0 p 0] ok(3) by (simp add: token_supply_def)
  have c: "0 \<le> GetCachedAmount s p" "0 \<le> token_supply s p"
    using cached_bounds [OF ok(4)] token_supply_nonneg [of s p] assms(1) by (auto simp: fee_ok_def)
  have w: "s64 (token_supply s p + GetCachedAmount s p) = token_supply s p + GetCachedAmount s p"
    using c le by (intro s64_id) auto
  have d: "distinct (map fst ?own)" using ok(1) by (simp add: umap_ok_def distinct_map_filter)
  have "a \<in> fst ` set ?own \<longleftrightarrow> tally_total (tally_at s a) p \<noteq> 0" for a
    using umap.member_lookup [OF ok(1), of a]
    by (force simp: tally_at_def tally_total_def image_iff split: option.split)
  then have "fst ` set ?own = {a. tally_total (tally_at s a) p \<noteq> 0}" by blast
  then have "card {a. tally_total (tally_at s a) p \<noteq> 0} = length ?own"
    using distinct_card [OF d] by simp
  then show ?thesis using assms(2,3) loop w by (simp add: getTotalTokens_def getTotalTokens_owners_def)
qed

text \<open>
  \<^bold>\<open>C27\<close>. \<open>getTotalTokens\<close> is exact for every property without a fixed supply: it returns the tokens of all addresses in
  available and reserved balances plus the cached fees, without wrap-around, and the optional
  owner count is the number of addresses that own any, although it is computed by comparing running totals.
\<close>

theorem getTotalTokens_exact:
  fixes s :: fee_state
  assumes "fee_ok block s" and "getSP p (pDbSpInfo s) = Some property" and "\<not> sp_fixed property"
  shows "getTotalTokens s p = token_supply s p + GetCachedAmount s p
    \<and> getTotalTokens_owners s p True =
        (token_supply s p + GetCachedAmount s p, int (card {a. tally_total (tally_at s a) p \<noteq> 0}))"
  using assms by (rule getTotalTokens_eq)

theorem getTotalTokens_exact_witness:
  "getTotalTokens (sample_fees 50) 1 = 50"
proof -
  have "getSP 1 (pDbSpInfo (sample_fees 50)) = Some (implied_entry ''exodus'')"
    by (simp add: getSP_def sample_fees_def new_spinfo_def init_spids_def)
  moreover have "\<not> sp_fixed (implied_entry ''exodus'')" by (simp add: implied_entry_def updateIssuer_def new_entry_def)
  ultimately have "getTotalTokens (sample_fees 50) 1 = token_supply (sample_fees 50) 1 + GetCachedAmount (sample_fees 50) 1"
    using getTotalTokens_exact [OF sample_fees_ok [of 50]] by auto
  then show ?thesis by (simp add: token_supply_def sample_fees_def GetCachedAmount_def GetCacheHistory_def)
qed

end
