(* ===== verification/Fundraiser.thy ===== *)
theory Fundraiser
  imports Arith256
begin

text \<open>
  The token calculation of a crowdsale purchase: \<^verbatim>\<open>calculateFundraiser\<close> of
  \<^verbatim>\<open>src/src/tokencore/sp.cpp\<close>, in three parts in the order of the code. All intermediate results are
  \<^verbatim>\<open>arith_uint256\<close>; a division by zero throws and nothing catches the exception, so it is \<open>None\<close>, as is a failed
  assertion.

  The lemmas show that no intermediate product overflows for any arguments of the C++ types, give the exact
  quotients that are computed, and cover the branch that caps the total.
\<close>

text \<open>The bonus percentage of the buyer, with a precision of \<open>10 ^ 12\<close>.\<close>

definition fundraiser_bonus :: "nat \<Rightarrow> int \<Rightarrow> int \<Rightarrow> int option" where
  "fundraiser_bonus bonusPerc fundraiserSecs currentSecs = do {
     bonusSeconds \<leftarrow> (if currentSecs < fundraiserSecs then do {
         f \<leftarrow> ConvertTo256 fundraiserSecs;
         c \<leftarrow> ConvertTo256 currentSecs;
         Some (sub256 f c)
       } else Some 0);
     w \<leftarrow> div256 bonusSeconds 604800;
     rest \<leftarrow> Modulo256 bonusSeconds 604800;
     frac \<leftarrow> div256 (mul256 rest 1000000000000) 604800;
     let weeks = add256 (mul256 w 1000000000000) frac;
     bonus \<leftarrow> ConvertTo256 (int bonusPerc);
     let ebPercentage = mul256 weeks bonus;
     div256 (add256 (mul256 1000000000000 100) ebPercentage) 100
   }"

text \<open>The tokens for the buyer and for the issuer, before the limit on the total is applied.\<close>

definition fundraiser_tokens :: "bool \<Rightarrow> int \<Rightarrow> int \<Rightarrow> int \<Rightarrow> nat \<Rightarrow> (int \<times> int) option" where
  "fundraiser_tokens inflateAmount amtTransfer bonusPercentage numProps issuerPerc = do {
     ip \<leftarrow> ConvertTo256 (int issuerPerc);
     issuerPercentage \<leftarrow> div256 (mul256 ip 1000000000000) 100;
     amt \<leftarrow> ConvertTo256 amtTransfer;
     let inflated = (if inflateAmount then mul256 amt 100000000 else amt);
     props \<leftarrow> ConvertTo256 numProps;
     let createdTokens = mul256 (mul256 inflated props) bonusPercentage;
     i1 \<leftarrow> div256 createdTokens 100000000;
     i2 \<leftarrow> div256 i1 1000000000000;
     ip100 \<leftarrow> div256 issuerPercentage 100;
     let issuerTokens = mul256 (mul256 i2 ip100) 1000000000000;
     c1 \<leftarrow> div256 createdTokens 1000000000000;
     createdTokens_int \<leftarrow> div256 c1 100000000;
     j1 \<leftarrow> div256 issuerTokens 1000000000000;
     j2 \<leftarrow> div256 j1 100000000;
     issuerTokens_int \<leftarrow> div256 j2 100;
     Some (createdTokens_int, issuerTokens_int)
   }"

text \<open>The result is the pair \<^verbatim>\<open>tokens\<close> and the new value of \<^verbatim>\<open>close_crowdsale\<close>.\<close>

definition calculateFundraiser :: "bool \<Rightarrow> int \<Rightarrow> nat \<Rightarrow> int \<Rightarrow> int \<Rightarrow> int \<Rightarrow> nat \<Rightarrow> int \<Rightarrow> bool \<Rightarrow> ((int \<times> int) \<times> bool) option" where
  "calculateFundraiser inflateAmount amtTransfer bonusPerc fundraiserSecs currentSecs numProps issuerPerc totalTokens close_crowdsale = do {
     bonusPercentage \<leftarrow> fundraiser_bonus bonusPerc fundraiserSecs currentSecs;
     (createdTokens_int, issuerTokens_int) \<leftarrow> fundraiser_tokens inflateAmount amtTransfer bonusPercentage numProps issuerPerc;
     total256 \<leftarrow> ConvertTo256 totalTokens;
     let newTotalCreated = add256 (add256 total256 createdTokens_int) issuerTokens_int;
     (createdTokens_int', issuerTokens_int', close') \<leftarrow>
       (if newTotalCreated > MAX_INT64 then do {
          let maxCreatable = sub256 MAX_INT64 total256;
          let created = add256 createdTokens_int issuerTokens_int;
          ratio \<leftarrow> div256 (mul256 (mul256 created 1000000000000) 100000000) maxCreatable;
          issuer \<leftarrow> div256 (mul256 (mul256 issuerTokens_int 1000000000000) 100000000) ratio;
          if issuer \<le> maxCreatable then Some (sub256 maxCreatable issuer, issuer, True) else None
        } else Some (createdTokens_int, issuerTokens_int, close_crowdsale));
     first \<leftarrow> ConvertTo64 createdTokens_int';
     second \<leftarrow> ConvertTo64 issuerTokens_int';
     Some ((first, second), close')
   }"

subsection \<open>What calculateFundraiser computes\<close>

text \<open>Reference definitions over the integers, with exact quotients.\<close>

definition bonus_percentage :: "nat \<Rightarrow> int \<Rightarrow> int \<Rightarrow> int" where
  "bonus_percentage bonusPerc fundraiserSecs currentSecs =
     (10 ^ 14 + (max 0 (fundraiserSecs - currentSecs) * 10 ^ 12 div 604800) * int bonusPerc) div 100"

definition created_tokens :: "bool \<Rightarrow> int \<Rightarrow> nat \<Rightarrow> int \<Rightarrow> int \<Rightarrow> int \<Rightarrow> int" where
  "created_tokens inflateAmount amtTransfer bonusPerc fundraiserSecs currentSecs numProps =
     amtTransfer * (if inflateAmount then 10 ^ 8 else 1) * numProps * bonus_percentage bonusPerc fundraiserSecs currentSecs div 10 ^ 20"

lemma weeks_exact: "0 < d \<Longrightarrow> (x div d) * k + (x mod d) * k div d = x * k div (d :: int)"
proof -
  assume "0 < d"
  have "x * k = ((x div d) * d + x mod d) * k" by simp
  also have "\<dots> = (x mod d) * k + (x div d * k) * d"
  proof -
    have "(q * d + r) * k = r * k + q * k * d" for q r :: int by (simp add: algebra_simps)
    then show ?thesis .
  qed
  finally show ?thesis using \<open>0 < d\<close> by simp
qed

lemma bonus_percentage_bounds:
  assumes "0 \<le> currentSecs" and "fundraiserSecs \<le> MAX_INT64" and "bonusPerc < 256"
  shows "0 \<le> bonus_percentage bonusPerc fundraiserSecs currentSecs"
    and "bonus_percentage bonusPerc fundraiserSecs currentSecs \<le> 2 ^ 90"
proof -
  let ?w = "max 0 (fundraiserSecs - currentSecs) * 10 ^ 12 div 604800"
  have "max 0 (fundraiserSecs - currentSecs) * 10 ^ 12 \<le> MAX_INT64 * 10 ^ 12" using assms(1,2) by auto
  then have w: "?w \<le> MAX_INT64 * 10 ^ 12 div 604800" by (rule zdiv_mono1) simp
  have "0 \<le> max 0 (fundraiserSecs - currentSecs) * 10 ^ 12" by simp
  then have w0: "0 \<le> ?w" by (simp only: pos_imp_zdiv_nonneg_iff)
  from w w0 have "?w * int bonusPerc \<le> (MAX_INT64 * 10 ^ 12 div 604800) * 255"
    using assms(3) by (intro mult_mono) auto
  then have "bonus_percentage bonusPerc fundraiserSecs currentSecs \<le> (10 ^ 14 + (MAX_INT64 * 10 ^ 12 div 604800) * 255) div 100"
    unfolding bonus_percentage_def by (intro zdiv_mono1) auto
  also have "\<dots> \<le> 2 ^ 90" by simp
  finally show "bonus_percentage bonusPerc fundraiserSecs currentSecs \<le> 2 ^ 90" .
  show "0 \<le> bonus_percentage bonusPerc fundraiserSecs currentSecs"
    unfolding bonus_percentage_def using mult_nonneg_nonneg [OF w0, of "int bonusPerc"]
    by (simp only: pos_imp_zdiv_nonneg_iff) simp
qed

lemma weeks_chain:
  assumes "0 \<le> x" and "x \<le> 2 ^ 63"
  shows "mul256 (x div 604800) 1000000000000 = x div 604800 * 1000000000000"
    and "mul256 (x mod 604800) 1000000000000 = x mod 604800 * 1000000000000"
    and "add256 (x div 604800 * 1000000000000) (x mod 604800 * 1000000000000 div 604800) = x * 1000000000000 div 604800"
    and "0 \<le> x * 1000000000000 div 604800" and "x * 1000000000000 div 604800 \<le> 2 ^ 104"
proof -
  define d k :: int where "d = 604800" and "k = 1000000000000"
  have d: "0 < d" and k: "0 \<le> k" "k \<le> 2 ^ 40" by (simp_all add: d_def k_def)
  define Q R where "Q = x div d" and "R = x mod d"
  have Q: "0 \<le> Q" "Q \<le> 2 ^ 63" and R: "0 \<le> R" "R \<le> 2 ^ 63"
    using assms d zdiv_le_self [of x d] pos_mod_bound [of d x]
    by (auto simp: Q_def R_def pos_imp_zdiv_nonneg_iff d_def)
  define F where "F = R * k div d"
  have Qk: "0 \<le> Q * k" "Q * k \<le> 2 ^ 103" and Rk: "0 \<le> R * k" "R * k \<le> 2 ^ 103"
    using mult_pow_bound [OF Q k] mult_pow_bound [OF R k] Q R k by simp_all
  have F: "0 \<le> F" "F \<le> 2 ^ 103"
    using zdiv_le_self [OF Rk(1) d] Rk d by (simp_all add: F_def pos_imp_zdiv_nonneg_iff)
  have W: "x * k div d = Q * k + F" unfolding Q_def R_def F_def by (rule weeks_exact [OF d, symmetric])
  show "mul256 (x div 604800) 1000000000000 = x div 604800 * 1000000000000"
    using mul256_pow [OF Q k] by (simp add: Q_def d_def k_def)
  show "mul256 (x mod 604800) 1000000000000 = x mod 604800 * 1000000000000"
    using mul256_pow [OF R k] by (simp add: R_def d_def k_def)
  have "add256 (Q * k) F = x * k div d" unfolding W by (rule add256_eq) (use Qk F in simp_all)
  then show "add256 (x div 604800 * 1000000000000) (x mod 604800 * 1000000000000 div 604800) = x * 1000000000000 div 604800"
    by (simp only: Q_def F_def R_def d_def k_def)
  have "0 \<le> x * k div d" "x * k div d \<le> 2 ^ 104" unfolding W using Qk F by simp_all
  then show "0 \<le> x * 1000000000000 div 604800" "x * 1000000000000 div 604800 \<le> 2 ^ 104"
    by (simp_all only: d_def k_def)
qed

lemma fundraiser_bonus_eq:
  assumes "0 \<le> currentSecs" and "fundraiserSecs \<le> MAX_INT64" and "bonusPerc < 256"
  shows "fundraiser_bonus bonusPerc fundraiserSecs currentSecs = Some (bonus_percentage bonusPerc fundraiserSecs currentSecs)"
proof -
  define x where "x = max 0 (fundraiserSecs - currentSecs)"
  have x: "0 \<le> x" "x \<le> 2 ^ 63" using assms by (auto simp: x_def)
  have secs: "(if currentSecs < fundraiserSecs then do {
         f \<leftarrow> ConvertTo256 fundraiserSecs; c \<leftarrow> ConvertTo256 currentSecs; Some (sub256 f c) } else Some 0) = Some x"
    using assms by (auto simp: x_def ConvertTo256_eq sub256_eq max_def)
  note c = weeks_chain [OF x]
  define W where "W = x * 1000000000000 div 604800"
  have W: "0 \<le> W" "W \<le> 2 ^ 104" using c(4,5) by (simp_all only: W_def)
  have b: "0 \<le> int bonusPerc" "int bonusPerc \<le> 2 ^ 8" using assms(3) by simp_all
  have e: "mul256 W (int bonusPerc) = W * int bonusPerc" using mul256_pow [OF W b] by simp
  have le: "0 \<le> W * int bonusPerc" "W * int bonusPerc \<le> 2 ^ 112" using mult_pow_bound [OF W b] W by simp_all
  have m: "Modulo256 x 604800 = Some (x mod 604800)" by (rule Modulo256_eq) (use x in simp_all)
  have h: "mul256 1000000000000 100 = 10 ^ 14" by (rule trans [OF mul256_eq]) simp_all
  have "add256 (10 ^ 14) (W * int bonusPerc) = 10 ^ 14 + W * int bonusPerc" by (rule add256_eq) (use le in simp_all)
  then have "fundraiser_bonus bonusPerc fundraiserSecs currentSecs = Some ((10 ^ 14 + W * int bonusPerc) div 100)"
    unfolding fundraiser_bonus_def secs div256_def using m c(1-3) e h ConvertTo256_eq [of "int bonusPerc"] assms(3)
    by (simp add: W_def [symmetric] Let_def)
  then show ?thesis by (simp add: bonus_percentage_def x_def W_def)
qed

lemma fundraiser_tokens_eq:
  assumes "0 \<le> amt" "amt \<le> MAX_INT64" and "0 \<le> props" "props \<le> MAX_INT64"
    and "0 \<le> bonus" "bonus \<le> 2 ^ 90" and "issuerPerc < 256"
    and "C = amt * (if inflate then 10 ^ 8 else 1) * props * bonus div 10 ^ 20"
  shows "fundraiser_tokens inflate amt bonus props issuerPerc = Some (C, C * int issuerPerc div 100)"
    and "0 \<le> C" and "C \<le> 2 ^ 177"
proof -
  define A where "A = (if inflate then mul256 amt 100000000 else amt)"
  define T where "T = A * props * bonus"
  define ip where "ip = int issuerPerc"
  have amt: "amt \<le> 2 ^ 63" and props: "props \<le> 2 ^ 63" using assms by simp_all
  have infl: "mul256 amt 100000000 = amt * 10 ^ 8" using mul256_pow [OF assms(1) amt, of 100000000 27] by simp
  have A: "A = amt * (if inflate then 10 ^ 8 else 1)" by (simp add: A_def infl)
  have A0: "0 \<le> A" "A \<le> 2 ^ 90" using A assms(1) mult_pow_bound [OF assms(1) amt, of "10 ^ 8" 27] amt by auto
  have P: "mul256 A props = A * props" "0 \<le> A * props" "A * props \<le> 2 ^ 153"
    using mul256_pow [OF A0 assms(3) props] mult_pow_bound [OF A0 assms(3) props] A0 assms(3) by simp_all
  have T: "mul256 (mul256 A props) bonus = T" "0 \<le> T" "T \<le> 2 ^ 243"
    using mul256_pow [OF P(2,3) assms(5,6)] mult_pow_bound [OF P(2,3) assms(5,6)] P assms(5) by (simp_all add: T_def)
  have C: "C = T div 10 ^ 20" using assms(8) by (simp only: T_def A)
  have split: "T div 100000000 div 1000000000000 = C" "T div 1000000000000 div 100000000 = C"
    by (simp_all add: C zdiv_zmult2_eq [symmetric])
  show C0: "0 \<le> C" using T(2) by (simp only: C pos_imp_zdiv_nonneg_iff) simp
  have "C \<le> 2 ^ 243 div 10 ^ 20" unfolding C by (rule zdiv_mono1) (use T(3) in simp_all)
  also have "\<dots> \<le> 2 ^ 177" by simp
  finally show C1: "C \<le> 2 ^ 177" .
  have ip: "0 \<le> ip" "ip \<le> 255" "ip \<le> 2 ^ 8" using assms(7) by (simp_all add: ip_def)
  have i1: "mul256 ip 1000000000000 = ip * 10000000000 * 100" using mul256_pow [OF ip(1,3), of 1000000000000 40] by simp
  have ip8: "0 \<le> ip * 100000000" "ip * 100000000 \<le> 2 ^ 35" using ip by simp_all
  have I: "mul256 C (ip * 100000000) = C * (ip * 100000000)" "0 \<le> C * (ip * 100000000)" "C * (ip * 100000000) \<le> 2 ^ 212"
    using mul256_pow [OF C0 C1 ip8] mult_pow_bound [OF C0 C1 ip8] C0 ip8 by simp_all
  have J: "mul256 (C * (ip * 100000000)) 1000000000000 = C * (ip * 100000000) * 1000000000000"
    using mul256_pow [OF I(2,3), of 1000000000000 40] by simp
  have i2: "ip * 10000000000 * 100 div 100 = ip * 10000000000" "ip * 10000000000 div 100 = ip * 100000000"
    "C * (ip * 100000000) * 1000000000000 div 1000000000000 = C * (ip * 100000000)"
    "C * (ip * 100000000) div 100000000 = C * ip"
    by (simp_all)
  have cv: "ConvertTo256 ip = Some ip" "ConvertTo256 amt = Some amt" "ConvertTo256 props = Some props"
    using assms ip by (simp_all add: ConvertTo256_eq)
  show "fundraiser_tokens inflate amt bonus props issuerPerc = Some (C, C * int issuerPerc div 100)"
    unfolding fundraiser_tokens_def ip_def [symmetric] cv div256_def bind.bind_lunit Let_def A_def [symmetric] T i1
    by (simp only: if_False split i2 I J bind.bind_lunit numeral_neq_zero simp_thms)
qed

text \<open>
  The cap: with \<open>M\<close> tokens left to create and more than that wanted, the issuer's part scaled by the
  rounded ratio stays within \<open>M\<close>, because the scale \<open>10 ^ 20\<close> exceeds every 64-bit amount.
\<close>

lemma scaled_issuer_le:
  fixes c i M :: int
  assumes "0 < M" and "M \<le> MAX_INT64" and "M < c" and "0 \<le> i" and "i \<le> c"
  shows "0 < c * 10 ^ 20 div M" and "i * 10 ^ 20 div (c * 10 ^ 20 div M) \<le> M"
proof -
  let ?K = "10 ^ 20 :: int"
  define R where "R = c * ?K div M"
  have "M * ?K \<le> c * ?K" using assms(3) by simp
  then have "M * ?K div M \<le> R" unfolding R_def using assms(1) by (rule zdiv_mono1)
  then have RK: "?K \<le> R" using assms(1) by simp
  then show "0 < c * 10 ^ 20 div M" using R_def by simp
  have "c * ?K = R * M + (c * ?K) mod M" unfolding R_def by simp
  then have "c * ?K < R * M + M" using pos_mod_bound [OF assms(1), of "c * ?K"] by linarith
  also have "\<dots> \<le> R * M + R" using RK assms(2) by simp
  also have "\<dots> = (M + 1) * R" by (simp add: algebra_simps)
  finally have "c * ?K < (M + 1) * R" .
  moreover have "i * ?K \<le> c * ?K" using assms(5) by simp
  ultimately have lt: "i * ?K < (M + 1) * R" by (rule order.strict_trans1 [rotated])
  have R0: "0 < R" using RK by simp
  have "i * ?K div R * R \<le> i * ?K"
    using minus_mod_eq_div_mult [of "i * ?K" R] pos_mod_sign [OF R0, of "i * ?K"] by linarith
  from order.strict_trans1 [OF this lt] have "i * ?K div R * R < (M + 1) * R" .
  then have "i * ?K div R < M + 1" by (rule mult_right_less_imp_less) (use R0 in simp)
  then show "i * 10 ^ 20 div (c * 10 ^ 20 div M) \<le> M" by (simp add: R_def)
qed

text \<open>The result of \<open>calculateFundraiser\<close> over the integers.\<close>

definition fundraiser_result :: "int \<Rightarrow> int \<Rightarrow> int \<Rightarrow> bool \<Rightarrow> (int \<times> int) \<times> bool" where
  "fundraiser_result C I total_before close =
     (if total_before + C + I \<le> MAX_INT64 then ((C, I), close)
      else let M = MAX_INT64 - total_before; issuer = I * 10 ^ 20 div ((C + I) * 10 ^ 20 div M)
           in ((M - issuer, issuer), True))"

lemma cap_eq:
  assumes "0 \<le> C" "C \<le> 2 ^ 177" and "0 \<le> I" "I \<le> 2 ^ 179" and "0 \<le> t" "t < MAX_INT64" and "MAX_INT64 < t + C + I"
  shows "do {
          let maxCreatable = sub256 MAX_INT64 t;
          let created = add256 C I;
          ratio \<leftarrow> div256 (mul256 (mul256 created 1000000000000) 100000000) maxCreatable;
          issuer \<leftarrow> div256 (mul256 (mul256 I 1000000000000) 100000000) ratio;
          if issuer \<le> maxCreatable then Some (sub256 maxCreatable issuer, issuer, True) else None
        } = Some (let M = MAX_INT64 - t; issuer = I * 10 ^ 20 div ((C + I) * 10 ^ 20 div M) in (M - issuer, issuer, True))"
proof -
  define M where "M = MAX_INT64 - t"
  have M: "0 < M" "M \<le> MAX_INT64" "M < C + I" using assms by (simp_all add: M_def)
  have sub: "sub256 MAX_INT64 t = M" using sub256_eq [of t MAX_INT64] assms by (simp add: M_def)
  have c: "0 \<le> C + I" "C + I \<le> 2 ^ 180" and add: "add256 C I = C + I"
    using assms add256_eq [of C I] by simp_all
  have k: "mul256 (mul256 x 1000000000000) 100000000 = x * 10 ^ 20" if "0 \<le> x" "x \<le> 2 ^ 180" for x
  proof -
    have "mul256 x 1000000000000 = x * 1000000000000" using mul256_pow [OF that, of 1000000000000 40] by simp
    moreover have "x * 1000000000000 \<le> 2 ^ 220" using mult_pow_bound [OF that, of 1000000000000 40] by simp
    ultimately show ?thesis using mul256_pow [of "x * 1000000000000" 220 100000000 27] that(1) by simp
  qed
  have I: "0 \<le> I" "I \<le> 2 ^ 180" "I \<le> C + I" using assms by simp_all
  note s = scaled_issuer_le [OF M I(1,3)]
  define J where "J = I * 10 ^ 20 div ((C + I) * 10 ^ 20 div M)"
  have J: "0 \<le> J" "J \<le> M" using s I(1) by (simp_all add: J_def pos_imp_zdiv_nonneg_iff)
  have subJ: "sub256 M J = M - J" using sub256_eq [of J M] J M by simp
  show ?thesis
    unfolding sub add k [OF c] k [OF I(1,2)] div256_def Let_def M_def [symmetric] J_def [symmetric]
    using s(1) M(1) J subJ by (simp add: J_def)
qed

lemma calculateFundraiser_eq:
  assumes "0 \<le> amt" "amt \<le> MAX_INT64" and "bonusPerc < 256" and "fundraiserSecs \<le> MAX_INT64" "0 \<le> currentSecs"
    and "0 \<le> numProps" "numProps \<le> MAX_INT64" and "issuerPerc < 256" and "0 \<le> t" "t \<le> MAX_INT64"
    and "C = created_tokens inflate amt bonusPerc fundraiserSecs currentSecs numProps" and "I = C * int issuerPerc div 100"
  shows "t < MAX_INT64 \<or> C = 0 \<Longrightarrow>
      calculateFundraiser inflate amt bonusPerc fundraiserSecs currentSecs numProps issuerPerc t close
        = Some (fundraiser_result C I t close)"
    and "t = MAX_INT64 \<Longrightarrow> 0 < C \<Longrightarrow>
      calculateFundraiser inflate amt bonusPerc fundraiserSecs currentSecs numProps issuerPerc t close = None"
    and "0 \<le> C" and "0 \<le> I"
proof -
  note b = bonus_percentage_bounds [OF assms(5,4,3)]
  note tk = fundraiser_tokens_eq [OF assms(1,2,6,7) b assms(8) assms(11) [unfolded created_tokens_def]]
  show C0: "0 \<le> C" by (rule tk(2))
  have ip: "0 \<le> int issuerPerc" "int issuerPerc \<le> 2 ^ 8" using assms(8) by simp_all
  have CI: "0 \<le> C * int issuerPerc" "C * int issuerPerc \<le> 2 ^ 185"
    using mult_pow_bound [OF tk(2,3) ip] C0 by simp_all
  show I0: "0 \<le> I" using CI(1) by (simp add: assms(12) pos_imp_zdiv_nonneg_iff)
  have "I \<le> 2 ^ 185 div 100" unfolding assms(12) by (rule zdiv_mono1) (use CI(2) in simp_all)
  also have "\<dots> \<le> 2 ^ 179" by simp
  finally have I1: "I \<le> 2 ^ 179" .
  have tok: "fundraiser_tokens inflate amt (bonus_percentage bonusPerc fundraiserSecs currentSecs) numProps issuerPerc = Some (C, I)"
    using tk(1) assms(12) by simp
  have a: "add256 t C = t + C" "add256 (t + C) I = t + C + I"
    using add256_eq [of t C] add256_eq [of "t + C" I] C0 tk(3) I0 I1 assms(9,10) by simp_all
  note run = calculateFundraiser_def fundraiser_bonus_eq [OF assms(5,4,3)] tok bind.bind_lunit
    ConvertTo256_eq [OF assms(9,10)] a case_prod_conv
  show "calculateFundraiser inflate amt bonusPerc fundraiserSecs currentSecs numProps issuerPerc t close
        = Some (fundraiser_result C I t close)" if h: "t < MAX_INT64 \<or> C = 0"
  proof (cases "t + C + I \<le> MAX_INT64")
    case True
    then have "C \<le> MAX_INT64" "I \<le> MAX_INT64" using C0 I0 assms(9) by simp_all
    then show ?thesis using True C0 I0 unfolding run Let_def a by (simp add: fundraiser_result_def ConvertTo64_eq)
  next
    case False
    have t: "t < MAX_INT64" using h False assms(10,12) by auto
    define M J where "M = MAX_INT64 - t" and "J = I * 10 ^ 20 div ((C + I) * 10 ^ 20 div M)"
    note cap = cap_eq [OF tk(2,3) I0 I1 assms(9) t, folded M_def] 
    have M: "0 < M" "M \<le> MAX_INT64" "M < C + I" using t False assms(9) by (simp_all add: M_def)
    note s = scaled_issuer_le [OF M I0]
    have J: "0 \<le> J" "J \<le> M" using s I0 C0 by (simp_all add: J_def pos_imp_zdiv_nonneg_iff)
    have "ConvertTo64 (M - J) = Some (M - J)" "ConvertTo64 J = Some J"
      using J M by (simp_all add: ConvertTo64_eq)
    then show ?thesis
      using False cap unfolding run Let_def a by (simp add: fundraiser_result_def Let_def M_def J_def)
  qed
  show "calculateFundraiser inflate amt bonusPerc fundraiserSecs currentSecs numProps issuerPerc t close = None"
    if "t = MAX_INT64" "0 < C"
    using that I0 sub256_eq [of MAX_INT64 MAX_INT64] unfolding run Let_def a by (simp add: div256_def)
qed

subsection \<open>Properties of the calculation\<close>

text \<open>
  \<^bold>\<open>C23\<close>. For all arguments of the C++ types that are not negative and fewer than \<^verbatim>\<open>max_int64\<close> tokens so far, the calculation
  returns without overflow or failed assertion. The buyer gets amount times price times bonus and the
  issuer its percentage of that, both rounded down; if the total would exceed \<^verbatim>\<open>int64_t\<close>, both parts are
  non-negative, they sum to exactly what is left, and the crowdsale is closed.
\<close>

theorem calculateFundraiser_exact:
  assumes "0 \<le> amt" "amt \<le> MAX_INT64" and "bonusPerc < 256" and "fundraiserSecs \<le> MAX_INT64" "0 \<le> currentSecs"
    and "0 \<le> numProps" "numProps \<le> MAX_INT64" and "issuerPerc < 256" and "0 \<le> t" "t < MAX_INT64"
    and "C = created_tokens inflate amt bonusPerc fundraiserSecs currentSecs numProps"
  shows "\<exists>u i close'. calculateFundraiser inflate amt bonusPerc fundraiserSecs currentSecs numProps issuerPerc t close
      = Some ((u, i), close') \<and> 0 \<le> u \<and> 0 \<le> i
    \<and> (if t + C + C * int issuerPerc div 100 \<le> MAX_INT64
       then u = C \<and> i = C * int issuerPerc div 100 \<and> close' = close
       else t + u + i = MAX_INT64 \<and> close')"
proof -
  define I where "I = C * int issuerPerc div 100"
  have t: "t \<le> MAX_INT64" using assms(10) by simp
  note r = calculateFundraiser_eq [OF assms(1-9) t assms(11) I_def]
  show ?thesis
  proof (cases "t + C + I \<le> MAX_INT64")
    case True
    then show ?thesis using r assms(10) by (simp add: fundraiser_result_def I_def)
  next
    case False
    have M: "0 < MAX_INT64 - t" "MAX_INT64 - t \<le> MAX_INT64" "MAX_INT64 - t < C + I" using False assms(9,10) by simp_all
    have "I \<le> C + I" using r(3) by simp
    note s = scaled_issuer_le [OF M r(4) this]
    have "0 \<le> I * 10 ^ 20 div ((C + I) * 10 ^ 20 div (MAX_INT64 - t))"
      using s(1) r(4) by (simp add: pos_imp_zdiv_nonneg_iff)
    then show ?thesis using r(1) assms(10) False s(2)
      by (auto simp: fundraiser_result_def Let_def I_def [symmetric])
  qed
qed

theorem calculateFundraiser_exact_witness:
  "calculateFundraiser False 100000000 10 604800 0 500 20 0 False = Some ((550, 110), False)"
proof -
  have "created_tokens False 100000000 10 604800 0 500 = 550" by (simp add: created_tokens_def bonus_percentage_def)
  then show ?thesis
    using calculateFundraiser_exact [OF _ _ _ _ _ _ _ _ _ _ refl,
        of 100000000 10 604800 0 500 20 0 False False] by auto
qed

text \<open>
  When exactly \<^verbatim>\<open>max_int64\<close> tokens already exist, any purchase that would create a token divides by zero and the
  exception ends the process. That state is reachable: a purchase that brings the total to exactly
  \<^verbatim>\<open>max_int64\<close> does not exceed the limit and leaves the crowdsale open.
\<close>

lemma calculateFundraiser_full_stops:
  assumes "0 \<le> amt" "amt \<le> MAX_INT64" and "bonusPerc < 256" and "fundraiserSecs \<le> MAX_INT64" "0 \<le> currentSecs"
    and "0 \<le> numProps" "numProps \<le> MAX_INT64" and "issuerPerc < 256"
    and "0 < created_tokens inflate amt bonusPerc fundraiserSecs currentSecs numProps"
  shows "calculateFundraiser inflate amt bonusPerc fundraiserSecs currentSecs numProps issuerPerc MAX_INT64 close = None"
  using calculateFundraiser_eq(2) [OF assms(1-8) _ order_refl refl refl refl assms(9)] by simp

end
