(* ===== verification/Crowdsale.thy ===== *)
theory Crowdsale
  imports Fees Fundraiser
begin

text \<open>
  Crowdsales: \<^verbatim>\<open>src/src/tokencore/sp.{h,cpp}\<close>, on top of the property database, the ledger and the fee cache.

  The state adds the map of active crowdsales, keyed by the address of the issuer, and the part of the
  block chain the code asks for, the hash of the block at a height (\<^verbatim>\<open>chainActive[block]\<close>, \<open>None\<close>
  for a null pointer). The arithmetic is that of \<^verbatim>\<open>arith_uint256\<close>: a division by zero throws
  and nothing catches the exception, so it is \<open>None\<close>.

  The lemmas show that no 256-bit intermediate result of \<open>calculateFundraiser\<close> overflows and what
  it computes, that closing a crowdsale never creates tokens beyond \<^verbatim>\<open>int64_t\<close>, and that the handler of expired
  crowdsales never stops the node on a consistent state.
\<close>

record CMPCrowd =
  crowd_propertyId :: property_id
  crowd_nValue :: int
  crowd_property_desired :: property_id
  crowd_deadline :: int
  crowd_early_bird :: nat
  crowd_percentage :: nat
  crowd_u_created :: int
  crowd_i_created :: int
  crowd_txid :: nat
  crowd_txFundraiserData :: "(nat \<times> int list) list"

definition new_crowd :: "property_id \<Rightarrow> int \<Rightarrow> property_id \<Rightarrow> int \<Rightarrow> nat \<Rightarrow> nat \<Rightarrow> int \<Rightarrow> int \<Rightarrow> CMPCrowd" where
  "new_crowd pid nv cd dl eb per uct ict =
     \<lparr>crowd_propertyId = pid, crowd_nValue = nv, crowd_property_desired = cd, crowd_deadline = dl,
      crowd_early_bird = eb, crowd_percentage = per, crowd_u_created = uct, crowd_i_created = ict,
      crowd_txid = 0, crowd_txFundraiserData = []\<rparr>"

definition incTokensUserCreated :: "int \<Rightarrow> CMPCrowd \<Rightarrow> CMPCrowd" where
  "incTokensUserCreated amount c = c\<lparr>crowd_u_created := s64 (crowd_u_created c + amount)\<rparr>"

definition incTokensIssuerCreated :: "int \<Rightarrow> CMPCrowd \<Rightarrow> CMPCrowd" where
  "incTokensIssuerCreated amount c = c\<lparr>crowd_i_created := s64 (crowd_i_created c + amount)\<rparr>"

text \<open>\<^verbatim>\<open>std::map::insert\<close> keeps an existing entry.\<close>

definition insertDatabase :: "nat \<Rightarrow> int list \<Rightarrow> CMPCrowd \<Rightarrow> CMPCrowd" where
  "insertDatabase txHash txData c =
     (case map_of (crowd_txFundraiserData c) txHash of
        Some _ \<Rightarrow> c
      | None \<Rightarrow> c\<lparr>crowd_txFundraiserData := smap_upd txHash txData (crowd_txFundraiserData c)\<rparr>)"

record crowd_state = fee_state +
  my_crowds :: "(string \<times> CMPCrowd) list"
  chainActive :: "int \<Rightarrow> nat option"

definition getCrowd :: "'s crowd_state_scheme \<Rightarrow> string \<Rightarrow> CMPCrowd option" where
  "getCrowd s address = map_of (my_crowds s) address"

definition isCrowdsaleActive :: "'s crowd_state_scheme \<Rightarrow> property_id \<Rightarrow> bool" where
  "isCrowdsaleActive s p = list_ex (\<lambda>(address, crowd). crowd_propertyId crowd = p) (my_crowds s)"

subsection \<open>Token calculations\<close>

definition GetMissedIssuerBonus :: "'s crowd_state_scheme \<Rightarrow> Entry \<Rightarrow> CMPCrowd \<Rightarrow> int option" where
  "GetMissedIssuerBonus s sp crowdsale =
     (if getTotalTokens s (crowd_propertyId crowdsale) \<noteq> s64 (crowd_i_created crowdsale + crowd_u_created crowdsale) then None
      else do {
        bonusPercentForIssuer \<leftarrow> ConvertTo256 (int (sp_percentage sp));
        amountAlreadyCreditedToIssuer \<leftarrow> ConvertTo256 (crowd_i_created crowdsale);
        amountCreditedToUsers \<leftarrow> ConvertTo256 (crowd_u_created crowdsale);
        let amountTotal = add256 amountCreditedToUsers amountAlreadyCreditedToIssuer;
        exactBonus \<leftarrow> div256 (mul256 amountCreditedToUsers bonusPercentForIssuer) 100;
        if exactBonus < amountAlreadyCreditedToIssuer then Some 0
        else do {
          let amountMissing = (if exactBonus > amountAlreadyCreditedToIssuer
                               then sub256 exactBonus amountAlreadyCreditedToIssuer else 0);
          let newTotal = add256 amountTotal amountMissing;
          let amountMissing' = (if newTotal > MAX_INT64 then sub256 MAX_INT64 amountTotal else amountMissing);
          ConvertTo64 amountMissing'
        }
      })"

subsection \<open>Lookups\<close>

definition at2 :: "int list \<Rightarrow> (int \<times> int) option" where
  "at2 xs = (if 3 < length xs then Some (xs ! 2, xs ! 3) else None)"

fun purchase_in_properties :: "'s crowd_state_scheme \<Rightarrow> nat \<Rightarrow> property_id list \<Rightarrow> (property_id \<times> int \<times> int) option option" where
  "purchase_in_properties s txid [] = Some None"
| "purchase_in_properties s txid (p # ps) =
     (case getSP p (pDbSpInfo s) of
        None \<Rightarrow> purchase_in_properties s txid ps
      | Some sp \<Rightarrow> (case map_of (sp_historicalData sp) txid of
            Some vals \<Rightarrow> map_option (\<lambda>(u, i). Some (p, u, i)) (at2 vals)
          | None \<Rightarrow> purchase_in_properties s txid ps))"

text \<open>
  \<^verbatim>\<open>Some (Some (propertyId, userTokens, issuerTokens))\<close> for a purchase, \<open>Some None\<close> otherwise; \<open>None\<close> is the
  exception of \<^verbatim>\<open>vector::at\<close>, e.g. for the grants of a managed property.
\<close>

definition isCrowdsalePurchase :: "'s crowd_state_scheme \<Rightarrow> nat \<Rightarrow> string \<Rightarrow> (property_id \<times> int \<times> int) option option" where
  "isCrowdsalePurchase s txid address =
     (case Option.bind (getCrowd s address) (\<lambda>c. map_of (crowd_txFundraiserData c) txid) of
        Some vals \<Rightarrow> map_option (\<lambda>(u, i). Some (crowd_propertyId (the (getCrowd s address)), u, i)) (at2 vals)
      | None \<Rightarrow> purchase_in_properties s txid
          ([1..<peekNextSPID 1 (pDbSpInfo s)] @ [TEST_ECO_PROPERTY_1..<peekNextSPID 2 (pDbSpInfo s)]))"

subsection \<open>Closing crowdsales\<close>

definition eraseMaxedCrowdsale :: "string \<Rightarrow> int \<Rightarrow> int \<Rightarrow> 's crowd_state_scheme \<Rightarrow> 's crowd_state_scheme option" where
  "eraseMaxedCrowdsale address blockTime block s =
     (case map_of (my_crowds s) address of
        None \<Rightarrow> Some s
      | Some crowdsale \<Rightarrow> do {
          sp \<leftarrow> getSP (crowd_propertyId crowdsale) (pDbSpInfo s);
          h \<leftarrow> chainActive s block;
          let sp' = sp\<lparr>sp_historicalData := crowd_txFundraiserData crowdsale, sp_close_early := True, sp_max_tokens := True,
            sp_timeclosed := blockTime, sp_update_block := h\<rparr>;
          let (ok, db') = updateSP (crowd_propertyId crowdsale) sp' (pDbSpInfo s);
          if ok then Some (s\<lparr>pDbSpInfo := db', my_crowds := smap_del address (my_crowds s)\<rparr>) else None
        })"

definition expire_crowdsale :: "nat \<Rightarrow> string \<Rightarrow> CMPCrowd \<Rightarrow> 's crowd_state_scheme \<Rightarrow> 's crowd_state_scheme option" where
  "expire_crowdsale blockHash address crowdsale s = do {
     sp \<leftarrow> getSP (crowd_propertyId crowdsale) (pDbSpInfo s);
     missedTokens \<leftarrow> GetMissedIssuerBonus s sp crowdsale;
     let sp' = sp\<lparr>sp_historicalData := crowd_txFundraiserData crowdsale, sp_missedTokens := missedTokens, sp_update_block := blockHash\<rparr>;
     let (ok, db') = updateSP (crowd_propertyId crowdsale) sp' (pDbSpInfo s);
     s1 \<leftarrow> (if ok then Some (s\<lparr>pDbSpInfo := db'\<rparr>) else None);
     s2 \<leftarrow> (if missedTokens > 0 then assert_update (sp_issuer sp') (crowd_propertyId crowdsale) missedTokens BALANCE s1 else Some s1);
     Some (s2\<lparr>my_crowds := smap_del address (my_crowds s2)\<rparr>)
   }"

fun expire_loop :: "int \<Rightarrow> nat \<Rightarrow> (string \<times> CMPCrowd) list \<Rightarrow> nat \<Rightarrow> 's crowd_state_scheme \<Rightarrow> (nat \<times> 's crowd_state_scheme) option" where
  "expire_loop blockTime blockHash [] how_many_erased s = Some (how_many_erased, s)"
| "expire_loop blockTime blockHash ((address, crowdsale) # it) how_many_erased s =
     (if blockTime > crowd_deadline crowdsale then do {
        s' \<leftarrow> expire_crowdsale blockHash address crowdsale s;
        expire_loop blockTime blockHash it (how_many_erased + 1) s'
      } else expire_loop blockTime blockHash it how_many_erased s)"

text \<open>The block index is its time and hash; \<open>None\<close> is the null pointer.\<close>

definition eraseExpiredCrowdsale :: "(int \<times> nat) option \<Rightarrow> 's crowd_state_scheme \<Rightarrow> (nat \<times> 's crowd_state_scheme) option" where
  "eraseExpiredCrowdsale pBlockIndex s =
     (case pBlockIndex of
        None \<Rightarrow> Some (0, s)
      | Some (blockTime, blockHash) \<Rightarrow> expire_loop blockTime blockHash (my_crowds s) 0 s)"

subsection \<open>Consistent crowdsales\<close>

text \<open>
  Every active crowdsale belongs to a stored property without a fixed supply, no two share a property, and
  the tokens that exist are those created for users and issuer. \<open>missed_bonus\<close> is the reference for
  the tokens credited at the end.
\<close>

definition crowd_inv :: "'s crowd_state_scheme \<Rightarrow> CMPCrowd \<Rightarrow> bool" where
  "crowd_inv s c \<longleftrightarrow> (\<exists>sp. map_of (sp_entries (pDbSpInfo s)) (crowd_propertyId c) = Some sp \<and> \<not> sp_fixed sp
       \<and> sp_percentage sp < 256)
     \<and> 0 \<le> crowd_u_created c \<and> 0 \<le> crowd_i_created c
     \<and> token_supply s (crowd_propertyId c) + GetCachedAmount s (crowd_propertyId c) = crowd_u_created c + crowd_i_created c"

definition crowd_ok :: "int \<Rightarrow> 's crowd_state_scheme \<Rightarrow> bool" where
  "crowd_ok block s \<longleftrightarrow> fee_ok block s \<and> spdb_ok (pDbSpInfo s) \<and> smap_ok (my_crowds s)
     \<and> distinct (map (\<lambda>(a, c). crowd_propertyId c) (my_crowds s)) \<and> (\<forall>(a, c) \<in> set (my_crowds s). crowd_inv s c)"

definition missed_bonus :: "nat \<Rightarrow> CMPCrowd \<Rightarrow> int" where
  "missed_bonus percentage c =
     max 0 (min (crowd_u_created c * int percentage div 100 - crowd_i_created c)
       (MAX_INT64 - (crowd_u_created c + crowd_i_created c)))"

lemma fee_ok_cong: "mp_tally_map s' = mp_tally_map s \<Longrightarrow> pDbFeeCache s' = pDbFeeCache s \<Longrightarrow> fee_ok block s' = fee_ok block s"
  by (simp add: fee_ok_def ledger_ok_def tallies_ok_def token_supply_def cache_ok_def GetCachedAmount_def GetCacheHistory_def)

lemma cached_cong: "pDbFeeCache s' = pDbFeeCache s \<Longrightarrow> GetCachedAmount s' p = GetCachedAmount s p"
  by (simp add: GetCachedAmount_def GetCacheHistory_def)

lemma stored_id: "spdb_ok db \<Longrightarrow> map_of (sp_entries db) p = Some e \<Longrightarrow> p \<noteq> 0 \<and> p \<noteq> 1 \<and> p \<noteq> 2 \<and> getSP p db = Some e"
proof -
  assume ok: "spdb_ok db" and e: "map_of (sp_entries db) p = Some e"
  then have "sp_range db p" unfolding spdb_ok_def by blast
  then show ?thesis using e by (auto simp: sp_range_def getSP_def)
qed

lemma GetMissedIssuerBonus_eq:
  assumes "fee_ok block s" and "spdb_ok (pDbSpInfo s)" and "crowd_inv s c"
    and "map_of (sp_entries (pDbSpInfo s)) (crowd_propertyId c) = Some sp"
  shows "GetMissedIssuerBonus s sp c = Some (missed_bonus (sp_percentage sp) c)"
    and "crowd_u_created c + crowd_i_created c + missed_bonus (sp_percentage sp) c \<le> MAX_INT64"
proof -
  define u i q where "u = crowd_u_created c" and "i = crowd_i_created c" and "q = int (sp_percentage sp)"
  have sp: "getSP (crowd_propertyId c) (pDbSpInfo s) = Some sp" "\<not> sp_fixed sp" "sp_percentage sp < 256"
    using assms(2-4) stored_id by (auto simp: crowd_inv_def)
  have ui: "0 \<le> u" "0 \<le> i" and sum: "token_supply s (crowd_propertyId c) + GetCachedAmount s (crowd_propertyId c) = u + i"
    using assms(3) by (simp_all add: crowd_inv_def u_def i_def)
  have le: "u + i \<le> MAX_INT64" using assms(1) sum unfolding fee_ok_def by metis
  have tot: "getTotalTokens s (crowd_propertyId c) = s64 (i + u)"
    using getTotalTokens_eq [OF assms(1) sp(1,2)] sum s64_id [of "i + u"] ui le by (simp add: add.commute)
  have q: "0 \<le> q" "q \<le> 2 ^ 8" using sp(3) by (simp_all add: q_def)
  have u63: "u \<le> 2 ^ 63" using ui le by simp
  have uq: "mul256 u q = u * q" "0 \<le> u * q" "u * q \<le> 2 ^ 71"
    using mul256_pow [OF ui(1) u63 q] mult_pow_bound [OF ui(1) u63 q] ui q by simp_all
  define b where "b = u * q div 100"
  have b: "0 \<le> b" "b \<le> 2 ^ 71" using uq zdiv_le_self [of "u * q" 100] by (simp_all add: b_def pos_imp_zdiv_nonneg_iff)
  have conv: "ConvertTo256 q = Some q" "ConvertTo256 i = Some i" "ConvertTo256 u = Some u" "add256 u i = u + i"
    using q ui le by (simp_all add: ConvertTo256_eq add256_eq)
  have sub: "sub256 b i = b - i" "add256 (u + i) (b - i) = u + i + (b - i)" if "i < b"
    using that b ui le sub256_eq [of i b] add256_eq [of "u + i" "b - i"] by simp_all
  have sub': "sub256 MAX_INT64 (u + i) = MAX_INT64 - (u + i)" using sub256_eq [of "u + i" MAX_INT64] ui le by simp
  have z: "add256 (u + i) 0 = u + i" using add256_eq [of "u + i" 0] ui le by simp
  have r: "missed_bonus (sp_percentage sp) c = max 0 (min (b - i) (MAX_INT64 - (u + i)))"
    by (simp add: missed_bonus_def b_def u_def i_def q_def)
  have "0 \<le> max 0 (min (b - i) (MAX_INT64 - (u + i)))" "max 0 (min (b - i) (MAX_INT64 - (u + i))) \<le> MAX_INT64"
    using ui le by auto
  then have cv64: "ConvertTo64 (max 0 (min (b - i) (MAX_INT64 - (u + i)))) = Some (max 0 (min (b - i) (MAX_INT64 - (u + i))))"
    by (rule ConvertTo64_eq)
  show "GetMissedIssuerBonus s sp c = Some (missed_bonus (sp_percentage sp) c)"
    unfolding GetMissedIssuerBonus_def u_def [symmetric] i_def [symmetric] q_def [symmetric] tot r
    using conv uq(1) sub sub' z le cv64 ui
    by (auto simp: div256_def b_def [symmetric] Let_def max_def min_def split: if_splits)
  show "crowd_u_created c + crowd_i_created c + missed_bonus (sp_percentage sp) c \<le> MAX_INT64"
    using le by (simp add: r u_def i_def)
qed

text \<open>Closing one expired crowdsale.\<close>

lemma expire_crowdsale_ok:
  fixes s :: "'s crowd_state_scheme"
  assumes "crowd_ok block s" and "map_of (my_crowds s) a = Some c"
    and "map_of (sp_entries (pDbSpInfo s)) (crowd_propertyId c) = Some sp"
  shows "\<exists>s'. expire_crowdsale h a c s = Some s' \<and> crowd_ok block s'
    \<and> my_crowds s' = smap_del a (my_crowds s) \<and> pDbFeeCache s' = pDbFeeCache s
    \<and> (\<forall>q. token_supply s' q = token_supply s q + (if q = crowd_propertyId c then missed_bonus (sp_percentage sp) c else 0))
    \<and> (\<forall>q. q \<noteq> crowd_propertyId c \<longrightarrow> map_of (sp_entries (pDbSpInfo s')) q = map_of (sp_entries (pDbSpInfo s)) q)"
proof -
  let ?p = "crowd_propertyId c" and ?m = "missed_bonus (sp_percentage sp) c" and ?db = "pDbSpInfo s"
  have ok: "fee_ok block s" "spdb_ok ?db" "smap_ok (my_crowds s)"
    and dist: "distinct (map (\<lambda>(a, c). crowd_propertyId c) (my_crowds s))"
    and invs: "\<forall>(a, c) \<in> set (my_crowds s). crowd_inv s c" using assms(1) by (simp_all add: crowd_ok_def)
  have mem: "(a, c) \<in> set (my_crowds s)" using assms(2) by (rule map_of_SomeD)
  then have ci: "crowd_inv s c" using invs by auto
  note bonus = GetMissedIssuerBonus_eq [OF ok(1,2) ci assms(3)]
  define sp' where "sp' = sp\<lparr>sp_historicalData := crowd_txFundraiserData c, sp_missedTokens := ?m, sp_update_block := h\<rparr>"
  obtain b db' where upd: "updateSP ?p sp' ?db = (b, db')" by fastforce
  have p: "?p \<noteq> 1" "?p \<noteq> 2" "getSP ?p ?db = Some sp" using stored_id [OF ok(2) assms(3)] by auto
  then have b: "b" using updateSP_fields(1) [OF upd] by simp
  have ok': "spdb_ok db'" by (rule updateSP_preserves [OF upd ok(2) assms(3)]) (simp_all add: sp'_def)
  have es: "map_of (sp_entries db') = (map_of (sp_entries ?db))(?p \<mapsto> sp')"
    using updateSP_fields(2) [OF upd] b by (simp add: map_of_smap_upd)
  define s1 where "s1 = s\<lparr>pDbSpInfo := db'\<rparr>"
  have sum: "token_supply s ?p + GetCachedAmount s ?p = crowd_u_created c + crowd_i_created c"
    using ci by (simp add: crowd_inv_def)
  have m0: "0 \<le> ?m" by (simp add: missed_bonus_def)
  have room: "token_supply s ?p + GetCachedAmount s ?p + ?m \<le> MAX_INT64" using sum bonus(2) by simp
  have c0: "0 \<le> GetCachedAmount s q" for q using cached_bounds [of block s q] ok(1) by (simp add: fee_ok_def)
  obtain s2 where s2: "(if ?m > 0 then assert_update (sp_issuer sp') ?p ?m BALANCE s1 else Some s1) = Some s2"
    "\<exists>m. s2 = s1\<lparr>mp_tally_map := m\<rparr>" "ledger_ok s2"
    "\<And>q. token_supply s2 q = token_supply s q + (if q = ?p then ?m else 0)"
  proof (cases "?m > 0")
    case True
    have l1: "ledger_ok s1" and t1: "\<And>q. token_supply s1 q = token_supply s q"
      using ok(1) by (simp_all add: s1_def fee_ok_def ledger_ok_def tallies_ok_def token_supply_def)
    have le: "token_supply s1 ?p + ?m \<le> MAX_INT64" using room c0 [of ?p] t1 by simp
    have "GetTokenBalance s1 (sp_issuer sp') ?p BALANCE + ?m \<le> MAX_INT64"
      using tl.bal_le_total [OF ledger_tallies [OF l1], of BALANCE "sp_issuer sp'" ?p] le by simp
    from tl.credit [OF ledger_tallies [OF l1] True this, simplified]
    obtain s2 where "assert_update (sp_issuer sp') ?p ?m BALANCE s1 = Some s2" "ledger_ok s2"
      "\<And>q. token_supply s2 q = token_supply s1 q + (if q = ?p then ?m else 0)" using l1 le by blast
    with True t1 assert_update_frame show thesis by (intro that) auto
  next
    case False
    have "\<exists>m. s1 = s1\<lparr>mp_tally_map := m\<rparr>" by (rule exI [of _ "mp_tally_map s1"]) simp
    moreover have "ledger_ok s1" "token_supply s1 q = token_supply s q" for q
      using ok(1) by (simp_all add: s1_def fee_ok_def ledger_ok_def tallies_ok_def token_supply_def)
    ultimately show thesis using False m0 by (intro that [of s1]) auto
  qed
  define s3 where "s3 = s2\<lparr>my_crowds := smap_del a (my_crowds s2)\<rparr>"
  have f: "pDbFeeCache s3 = pDbFeeCache s" "pDbSpInfo s3 = db'" "my_crowds s3 = smap_del a (my_crowds s)"
    "mp_tally_map s3 = mp_tally_map s2"
    using s2(2) by (auto simp: s3_def s1_def)
  note cong = supply_cong [OF f(4)] cached_cong [OF f(1)]
  have "fee_ok block s3"
    using ok(1) s2(3,4) room cong f by (auto simp: fee_ok_def cache_ok_def ledger_ok_def tallies_ok_def)
  moreover have "distinct (map (\<lambda>(a, c). crowd_propertyId c) (smap_del a (my_crowds s)))"
    unfolding smap_del_def using dist by (rule distinct_map_filter)
  moreover have "crowd_inv s3 c'" if "(a', c') \<in> set (smap_del a (my_crowds s))" for a' c'
  proof -
    have in_s: "(a', c') \<in> set (my_crowds s)" "a' \<noteq> a" using that by (auto simp: smap_del_def)
    then have "crowd_propertyId c' \<noteq> ?p" using dist mem inj_onD [of "\<lambda>(a, c). crowd_propertyId c" "set (my_crowds s)" "(a', c')" "(a, c)"]
      by (auto simp: distinct_map)
    then show ?thesis using invs in_s s2(4) cong f(2) es by (auto simp: crowd_inv_def)
  qed
  ultimately have "crowd_ok block s3"
    using ok(3) ok' f smap.ok_del [of "my_crowds s" a] by (auto simp: crowd_ok_def)
  moreover have "expire_crowdsale h a c s = Some s3"
    using p(3) bonus(1) upd b s2(1) unfolding expire_crowdsale_def s3_def s1_def sp'_def
    by (simp add: Let_def split: if_splits)
  ultimately show ?thesis using f es cong s2(4) by auto
qed

definition expired :: "int \<Rightarrow> string \<times> CMPCrowd \<Rightarrow> bool" where
  "expired blockTime = (\<lambda>(a, c). blockTime > crowd_deadline c)"

lemma expire_loop_ok:
  fixes s :: "'s crowd_state_scheme"
  assumes "crowd_ok block s" and "set it \<subseteq> set (my_crowds s)" and "distinct (map fst it)"
    and "distinct (map (\<lambda>(a, c). crowd_propertyId c) it)"
  shows "\<exists>s'. expire_loop t h it n s = Some (n + length (filter (expired t) it), s') \<and> crowd_ok block s'
    \<and> my_crowds s' = filter (\<lambda>e. \<not> (expired t e \<and> e \<in> set it)) (my_crowds s) \<and> pDbFeeCache s' = pDbFeeCache s
    \<and> (\<forall>q. (\<forall>(a, c) \<in> set it. expired t (a, c) \<longrightarrow> crowd_propertyId c \<noteq> q) \<longrightarrow>
         token_supply s' q = token_supply s q \<and> map_of (sp_entries (pDbSpInfo s')) q = map_of (sp_entries (pDbSpInfo s)) q)
    \<and> (\<forall>(a, c) \<in> set it. expired t (a, c) \<longrightarrow>
         (\<forall>sp. map_of (sp_entries (pDbSpInfo s)) (crowd_propertyId c) = Some sp \<longrightarrow>
            token_supply s' (crowd_propertyId c) = token_supply s (crowd_propertyId c) + missed_bonus (sp_percentage sp) c))"
  using assms
proof (induction it arbitrary: n s)
  case Nil
  then show ?case by simp
next
  case (Cons e it)
  obtain a c where e: "e = (a, c)" by (cases e)
  show ?case
  proof (cases "expired t e")
    case False
    have step: "expire_loop t h (e # it) n s = expire_loop t h it n s" using False e by (simp add: expired_def)
    have keep: "filter (\<lambda>x. \<not> (expired t x \<and> x \<in> set (e # it))) (my_crowds s) = filter (\<lambda>x. \<not> (expired t x \<and> x \<in> set it)) (my_crowds s)"
      using False by (intro filter_cong) auto
    have "set it \<subseteq> set (my_crowds s)" "distinct (map fst it)" "distinct (map (\<lambda>(a, c). crowd_propertyId c) it)"
      using Cons.prems by auto
    from Cons.IH [OF Cons.prems(1) this, of n] show ?thesis
      unfolding step keep using False e by auto
  next
    case True
    let ?p = "crowd_propertyId c"
    have sm: "smap_ok (my_crowds s)" using Cons.prems(1) by (simp add: crowd_ok_def)
    have look: "map_of (my_crowds s) a = Some c" using Cons.prems(2) e smap.member_lookup [OF sm] by auto
    obtain sp where sp: "map_of (sp_entries (pDbSpInfo s)) ?p = Some sp"
      using Cons.prems(1,2) e by (auto simp: crowd_ok_def crowd_inv_def)
    obtain s1 where s1: "expire_crowdsale h a c s = Some s1" "crowd_ok block s1" "my_crowds s1 = smap_del a (my_crowds s)"
      "pDbFeeCache s1 = pDbFeeCache s"
      "\<And>q. token_supply s1 q = token_supply s q + (if q = ?p then missed_bonus (sp_percentage sp) c else 0)"
      "\<And>q. q \<noteq> ?p \<Longrightarrow> map_of (sp_entries (pDbSpInfo s1)) q = map_of (sp_entries (pDbSpInfo s)) q"
      using expire_crowdsale_ok [OF Cons.prems(1) look sp, of h] by blast
    have other: "(b, d) \<in> set it \<Longrightarrow> b \<noteq> a \<and> crowd_propertyId d \<noteq> ?p" for b d
      using Cons.prems(3,4) e by force
    have sub: "set it \<subseteq> set (my_crowds s1)" using Cons.prems(2) s1(3) by (auto simp: smap_del_def dest: other)
    obtain s' where s': "expire_loop t h it (n + 1) s1 = Some (n + 1 + length (filter (expired t) it), s')" "crowd_ok block s'"
      "my_crowds s' = filter (\<lambda>e. \<not> (expired t e \<and> e \<in> set it)) (my_crowds s1)" "pDbFeeCache s' = pDbFeeCache s1"
      "\<forall>q. (\<forall>(a, c) \<in> set it. expired t (a, c) \<longrightarrow> crowd_propertyId c \<noteq> q) \<longrightarrow>
         token_supply s' q = token_supply s1 q \<and> map_of (sp_entries (pDbSpInfo s')) q = map_of (sp_entries (pDbSpInfo s1)) q"
      "\<forall>(a, c) \<in> set it. expired t (a, c) \<longrightarrow>
         (\<forall>sp. map_of (sp_entries (pDbSpInfo s1)) (crowd_propertyId c) = Some sp \<longrightarrow>
            token_supply s' (crowd_propertyId c) = token_supply s1 (crowd_propertyId c) + missed_bonus (sp_percentage sp) c)"
      using Cons.IH [OF s1(2) sub, of "n + 1"] Cons.prems(3,4) by auto
    have keys: "x \<in> set (my_crowds s) \<Longrightarrow> fst x = a \<longleftrightarrow> x = e" for x
      using look smap.member_lookup [OF sm, of "fst x" "snd x"] e by auto
    have mc: "my_crowds s' = filter (\<lambda>x. \<not> (expired t x \<and> x \<in> set (e # it))) (my_crowds s)"
      unfolding s'(3) s1(3) smap_del_def filter_filter using keys True by (intro filter_cong) auto
    have run: "expire_loop t h (e # it) n s = Some (n + length (filter (expired t) (e # it)), s')"
      using True e s1(1) s'(1) by (simp add: expired_def)
    have self: "token_supply s' ?p = token_supply s ?p + missed_bonus (sp_percentage sp) c"
      using s'(5) [rule_format, of ?p] other s1(5) [of ?p] by fastforce
    show ?thesis unfolding run mc [symmetric]
      using s'(2,4,5,6) s1(4-6) other self sp e True by (fastforce simp: split_beta)
  qed
qed

subsection \<open>Properties of crowdsales\<close>

text \<open>
  Expired crowdsales: on a consistent state the handler returns (no consistency check, conversion or credit
  fails), erases exactly the crowdsales past their deadline, credits for each of them the
  bonus the issuer missed, capped so that the total stays within \<^verbatim>\<open>int64_t\<close>, leaves every other property alone, and the
  state stays consistent.
\<close>

lemma eraseExpiredCrowdsale_ok:
  fixes s :: crowd_state
  assumes "crowd_ok block s"
  shows "\<exists>s'. eraseExpiredCrowdsale (Some (t, h)) s = Some (length (filter (expired t) (my_crowds s)), s') \<and> crowd_ok block s'
    \<and> my_crowds s' = filter (\<lambda>e. \<not> expired t e) (my_crowds s)
    \<and> (\<forall>q. (\<forall>(a, c) \<in> set (my_crowds s). expired t (a, c) \<longrightarrow> crowd_propertyId c \<noteq> q) \<longrightarrow> token_supply s' q = token_supply s q)
    \<and> (\<forall>(a, c) \<in> set (my_crowds s). expired t (a, c) \<longrightarrow>
         (\<forall>sp. getSP (crowd_propertyId c) (pDbSpInfo s) = Some sp \<longrightarrow>
            token_supply s' (crowd_propertyId c) = token_supply s (crowd_propertyId c) + missed_bonus (sp_percentage sp) c))"
proof -
  have d: "distinct (map fst (my_crowds s))" "distinct (map (\<lambda>(a, c). crowd_propertyId c) (my_crowds s))"
    using assms smap_ok_distinct [of "my_crowds s"] by (auto simp: crowd_ok_def)
  have stored: "getSP (crowd_propertyId c) (pDbSpInfo s) = map_of (sp_entries (pDbSpInfo s)) (crowd_propertyId c)"
    if "(a, c) \<in> set (my_crowds s)" for a c
    using that assms stored_id [of "pDbSpInfo s" "crowd_propertyId c"] by (fastforce simp: crowd_ok_def crowd_inv_def)
  have keep: "filter (\<lambda>e. \<not> (expired t e \<and> e \<in> set (my_crowds s))) (my_crowds s) = filter (\<lambda>e. \<not> expired t e) (my_crowds s)"
    by (rule filter_cong) auto
  show ?thesis
    using expire_loop_ok [OF assms order_refl d, of t h 0] stored unfolding keep
    by (fastforce simp: eraseExpiredCrowdsale_def)
qed

definition sample_crowd :: CMPCrowd where
  "sample_crowd = new_crowd 3 500 0 1000 10 20 550 100"

definition sample_crowds :: crowd_state where
  "sample_crowds = fee_state.extend
     (sample_fees 50\<lparr>mp_tally_map := [(''bob'', holder 3 550), (''alice'', holder 3 100)], pDbFeeCache := [],
       pDbSpInfo := snd (putSP 1 (sample_entry\<lparr>sp_percentage := 20\<rparr>) (new_spinfo ''exodus''))\<rparr>)
     (crowd_state.fields [(''alice'', sample_crowd)] (\<lambda>_. None))"

lemma sample_crowds_ok: "crowd_ok 12 sample_crowds"
proof -
  obtain db where e: "putSP 1 (sample_entry\<lparr>sp_percentage := 20\<rparr>) (new_spinfo ''exodus'') = (3, db)"
    by (simp add: putSP_def new_spinfo_def init_spids_def)
  have ok: "spdb_ok db"
    by (rule putSP_preserves [OF e _ new_spinfo_ok])
      (simp_all add: sp_room_def new_spinfo_def init_spids_def findSPByTX_def findSPByTicker_def)
  have es: "map_of (sp_entries db) 3 = Some (sample_entry\<lparr>sp_percentage := 20\<rparr>)"
    using putSP_fields(1) [OF e] by (simp add: map_of_smap_upd)
  have f: "mp_tally_map sample_crowds = [(''bob'', holder 3 550), (''alice'', holder 3 100)]" "pDbFeeCache sample_crowds = []"
    "pDbSpInfo sample_crowds = db" "my_crowds sample_crowds = [(''alice'', sample_crowd)]"
    using e by (simp_all add: sample_crowds_def fee_state.defs crowd_state.defs sample_fees_def)
  have fee: "fee_ok 12 sample_crowds"
    by (simp add: fee_ok_def ledger_ok_def tallies_ok_def umap_ok_def token_supply_def cache_ok_def smap_ok_def
        GetCachedAmount_def GetCacheHistory_def f)
  have "crowd_inv sample_crowds sample_crowd"
    using es by (simp add: crowd_inv_def f token_supply_def GetCachedAmount_def GetCacheHistory_def sample_crowd_def new_crowd_def
        sample_entry_def new_entry_def)
  then show ?thesis using fee ok by (simp add: crowd_ok_def f smap_ok_def)
qed

text \<open>
  \<^bold>\<open>C28\<close>. The bonus an issuer missed: on a consistent state \<open>GetMissedIssuerBonus\<close> returns the issuer's percentage of the tokens created
  for users, less what the issuer already got, but not less than 0 and never more than what
  keeps the total within \<^verbatim>\<open>int64_t\<close>.
\<close>

theorem GetMissedIssuerBonus_exact:
  fixes s :: crowd_state
  assumes "crowd_ok block s" and "(a, c) \<in> set (my_crowds s)" and "getSP (crowd_propertyId c) (pDbSpInfo s) = Some sp"
  shows "GetMissedIssuerBonus s sp c =
      Some (max 0 (min (crowd_u_created c * int (sp_percentage sp) div 100 - crowd_i_created c)
        (MAX_INT64 - (crowd_u_created c + crowd_i_created c))))"
proof -
  have inv: "fee_ok block s" "spdb_ok (pDbSpInfo s)" "crowd_inv s c" using assms(1,2) by (auto simp: crowd_ok_def)
  then obtain sp' where "map_of (sp_entries (pDbSpInfo s)) (crowd_propertyId c) = Some sp'" by (auto simp: crowd_inv_def)
  then have "map_of (sp_entries (pDbSpInfo s)) (crowd_propertyId c) = Some sp"
    using stored_id [OF inv(2)] assms(3) by auto
  from GetMissedIssuerBonus_eq(1) [OF inv this] show ?thesis by (simp add: missed_bonus_def)
qed

theorem GetMissedIssuerBonus_exact_witness:
  "GetMissedIssuerBonus sample_crowds (sample_entry\<lparr>sp_percentage := 20\<rparr>) sample_crowd = Some 10"
proof -
  have "(''alice'', sample_crowd) \<in> set (my_crowds sample_crowds)"
    by (simp add: sample_crowds_def fee_state.defs crowd_state.defs)
  moreover have "getSP (crowd_propertyId sample_crowd) (pDbSpInfo sample_crowds) = Some (sample_entry\<lparr>sp_percentage := 20\<rparr>)"
    by (simp add: sample_crowds_def fee_state.defs crowd_state.defs getSP_def putSP_def new_spinfo_def init_spids_def
        write_batch_def sample_crowd_def new_crowd_def)
  ultimately show ?thesis
    using GetMissedIssuerBonus_exact [OF sample_crowds_ok, of "''alice''" sample_crowd] by (simp add: sample_crowd_def new_crowd_def)
qed

end
