(* ===== verification/Rules.thy ===== *)
theory Rules
  imports Text Crowdsale
begin

text \<open>
  Consensus rules, feature activation and alerts: \<^verbatim>\<open>rules.{h,cpp}\<close>, \<^verbatim>\<open>activation.{h,cpp}\<close> and
  \<^verbatim>\<open>notifications.{h,cpp}\<close> of \<^verbatim>\<open>src/src/tokencore\<close>.

  The parameters of the active network are a record in the state, which \<open>ActivateFeature\<close> and
  \<open>DeactivateFeature\<close> change; the command line options of the authorization checks are arguments. Heights are
  integers; \<open>INT_MAX\<close> stands for "never".

  The lemmas relate activation, deactivation and \<open>IsFeatureActivated\<close>, bound the notice period, and show
  that a deactivation has no effect from block 999999 on.
\<close>

abbreviation INT_MAX :: int where "INT_MAX \<equiv> 2147483647"

record CConsensusParams =
  GENESIS_BLOCK :: int
  MIN_ACTIVATION_BLOCKS :: int
  MAX_ACTIVATION_BLOCKS :: int
  TOKEN_FREEZE_WAIT_PERIOD :: int
  PUBKEYHASH_BLOCK :: int
  SCRIPTHASH_BLOCK :: int
  MULTISIG_BLOCK :: int
  NULLDATA_BLOCK :: int
  TOKEN_ALERT_BLOCK :: int
  TOKEN_SEND_BLOCK :: int
  TOKEN_DEX_BLOCK :: int
  TOKEN_SP_BLOCK :: int
  TOKEN_MANUALSP_BLOCK :: int
  TOKEN_STO_BLOCK :: int
  TOKEN_METADEX_BLOCK :: int
  TOKEN_SEND_ALL_BLOCK :: int
  TOKEN_BET_BLOCK :: int
  TOKEN_STOV1_BLOCK :: int
  GRANTEFFECTS_FEATURE_BLOCK :: int
  DEXMATH_FEATURE_BLOCK :: int
  SPCROWDCROSSOVER_FEATURE_BLOCK :: int
  TRADEALLPAIRS_FEATURE_BLOCK :: int
  FEES_FEATURE_BLOCK :: int
  FREEZENOTICE_FEATURE_BLOCK :: int

definition CMainConsensusParams :: CConsensusParams where
  "CMainConsensusParams = \<lparr>GENESIS_BLOCK = 1827900, MIN_ACTIVATION_BLOCKS = 10080, MAX_ACTIVATION_BLOCKS = 60480,
     TOKEN_FREEZE_WAIT_PERIOD = 4096, PUBKEYHASH_BLOCK = 0, SCRIPTHASH_BLOCK = 0, MULTISIG_BLOCK = 0, NULLDATA_BLOCK = 0,
     TOKEN_ALERT_BLOCK = 0, TOKEN_SEND_BLOCK = 0, TOKEN_DEX_BLOCK = 0, TOKEN_SP_BLOCK = 0, TOKEN_MANUALSP_BLOCK = 0,
     TOKEN_STO_BLOCK = 0, TOKEN_METADEX_BLOCK = 0, TOKEN_SEND_ALL_BLOCK = 0, TOKEN_BET_BLOCK = INT_MAX,
     TOKEN_STOV1_BLOCK = INT_MAX, GRANTEFFECTS_FEATURE_BLOCK = 0, DEXMATH_FEATURE_BLOCK = 0,
     SPCROWDCROSSOVER_FEATURE_BLOCK = 0, TRADEALLPAIRS_FEATURE_BLOCK = 0, FEES_FEATURE_BLOCK = INT_MAX,
     FREEZENOTICE_FEATURE_BLOCK = INT_MAX\<rparr>"

definition CTestNetConsensusParams :: CConsensusParams where
  "CTestNetConsensusParams = \<lparr>GENESIS_BLOCK = 10, MIN_ACTIVATION_BLOCKS = 10080, MAX_ACTIVATION_BLOCKS = 60480,
     TOKEN_FREEZE_WAIT_PERIOD = 4096, PUBKEYHASH_BLOCK = 0, SCRIPTHASH_BLOCK = 0, MULTISIG_BLOCK = 0, NULLDATA_BLOCK = 0,
     TOKEN_ALERT_BLOCK = 0, TOKEN_SEND_BLOCK = 0, TOKEN_DEX_BLOCK = 0, TOKEN_SP_BLOCK = 0, TOKEN_MANUALSP_BLOCK = 0,
     TOKEN_STO_BLOCK = 0, TOKEN_METADEX_BLOCK = 0, TOKEN_SEND_ALL_BLOCK = 0, TOKEN_BET_BLOCK = INT_MAX,
     TOKEN_STOV1_BLOCK = INT_MAX, GRANTEFFECTS_FEATURE_BLOCK = 0, DEXMATH_FEATURE_BLOCK = 0,
     SPCROWDCROSSOVER_FEATURE_BLOCK = 0, TRADEALLPAIRS_FEATURE_BLOCK = 0, FEES_FEATURE_BLOCK = INT_MAX,
     FREEZENOTICE_FEATURE_BLOCK = INT_MAX\<rparr>"

definition CRegTestConsensusParams :: CConsensusParams where
  "CRegTestConsensusParams = \<lparr>GENESIS_BLOCK = 1, MIN_ACTIVATION_BLOCKS = 0, MAX_ACTIVATION_BLOCKS = 99999999,
     TOKEN_FREEZE_WAIT_PERIOD = 4096, PUBKEYHASH_BLOCK = 0, SCRIPTHASH_BLOCK = 0, MULTISIG_BLOCK = 0, NULLDATA_BLOCK = 0,
     TOKEN_ALERT_BLOCK = 0, TOKEN_SEND_BLOCK = 0, TOKEN_DEX_BLOCK = 0, TOKEN_SP_BLOCK = 0, TOKEN_MANUALSP_BLOCK = 0,
     TOKEN_STO_BLOCK = 0, TOKEN_METADEX_BLOCK = 0, TOKEN_SEND_ALL_BLOCK = 0, TOKEN_BET_BLOCK = INT_MAX,
     TOKEN_STOV1_BLOCK = INT_MAX, GRANTEFFECTS_FEATURE_BLOCK = 0, DEXMATH_FEATURE_BLOCK = 0,
     SPCROWDCROSSOVER_FEATURE_BLOCK = 0, TRADEALLPAIRS_FEATURE_BLOCK = 0, FEES_FEATURE_BLOCK = INT_MAX,
     FREEZENOTICE_FEATURE_BLOCK = INT_MAX\<rparr>"

definition NetworkParams :: "string \<Rightarrow> CConsensusParams" where
  "NetworkParams network =
     (if network = ''main'' then CMainConsensusParams
      else if network = ''test'' then CTestNetConsensusParams
      else if network = ''regtest'' then CRegTestConsensusParams
      else CMainConsensusParams)"

subsection \<open>Transaction types\<close>

record TransactionRestriction =
  r_txType :: nat
  r_txVersion :: nat
  r_allowWildcard :: bool
  r_activationBlock :: int

abbreviation restriction :: "nat \<Rightarrow> nat \<Rightarrow> bool \<Rightarrow> int \<Rightarrow> TransactionRestriction" where
  "restriction ty v w b \<equiv> \<lparr>r_txType = ty, r_txVersion = v, r_allowWildcard = w, r_activationBlock = b\<rparr>"

definition GetRestrictions :: "CConsensusParams \<Rightarrow> TransactionRestriction list" where
  "GetRestrictions p =
     [restriction 65535 65535 True (TOKEN_ALERT_BLOCK p),
      restriction 65534 65535 True (TOKEN_ALERT_BLOCK p),
      restriction 65533 65535 True (TOKEN_ALERT_BLOCK p),
      restriction 0 0 False (TOKEN_SEND_BLOCK p),
      restriction 20 0 False (TOKEN_DEX_BLOCK p),
      restriction 20 1 False (TOKEN_DEX_BLOCK p),
      restriction 22 0 False (TOKEN_DEX_BLOCK p),
      restriction 50 0 False (TOKEN_SP_BLOCK p),
      restriction 51 0 False (TOKEN_SP_BLOCK p),
      restriction 51 1 False (TOKEN_SP_BLOCK p),
      restriction 51 2 False (TOKEN_SP_BLOCK p),
      restriction 53 0 False (TOKEN_SP_BLOCK p),
      restriction 80 0 True (TOKEN_SP_BLOCK p),
      restriction 5 0 True (TOKEN_SP_BLOCK p),
      restriction 54 0 False (TOKEN_MANUALSP_BLOCK p),
      restriction 55 0 False (TOKEN_MANUALSP_BLOCK p),
      restriction 56 0 False (TOKEN_MANUALSP_BLOCK p),
      restriction 70 0 False (TOKEN_MANUALSP_BLOCK p),
      restriction 71 0 False (TOKEN_MANUALSP_BLOCK p),
      restriction 72 0 False (TOKEN_MANUALSP_BLOCK p),
      restriction 185 0 False (TOKEN_MANUALSP_BLOCK p),
      restriction 186 0 False (TOKEN_MANUALSP_BLOCK p),
      restriction 3 0 False (TOKEN_STO_BLOCK p),
      restriction 3 1 False (TOKEN_STOV1_BLOCK p),
      restriction 25 0 False (TOKEN_METADEX_BLOCK p),
      restriction 26 0 False (TOKEN_METADEX_BLOCK p),
      restriction 27 0 False (TOKEN_METADEX_BLOCK p),
      restriction 28 0 False (TOKEN_METADEX_BLOCK p),
      restriction 4 0 False (TOKEN_SEND_ALL_BLOCK p),
      restriction 40 0 False (TOKEN_BET_BLOCK p)]"

fun restriction_loop :: "int \<Rightarrow> property_id \<Rightarrow> nat \<Rightarrow> nat \<Rightarrow> TransactionRestriction list \<Rightarrow> bool" where
  "restriction_loop txBlock txProperty txType version [] = False"
| "restriction_loop txBlock txProperty txType version (entry # it) =
     (if r_txType entry \<noteq> txType \<or> r_txVersion entry \<noteq> version then restriction_loop txBlock txProperty txType version it
      else if TOKEN_PROPERTY_RPD = txProperty \<and> \<not> r_allowWildcard entry then restriction_loop txBlock txProperty txType version it
      else if isTestEcosystemProperty txProperty then True
      else if txBlock \<ge> r_activationBlock entry then True
      else restriction_loop txBlock txProperty txType version it)"

definition IsTransactionTypeAllowed :: "CConsensusParams \<Rightarrow> int \<Rightarrow> property_id \<Rightarrow> nat \<Rightarrow> nat \<Rightarrow> bool" where
  "IsTransactionTypeAllowed p txBlock txProperty txType version =
     restriction_loop txBlock txProperty txType version (GetRestrictions p)"

definition IsRapidsPaymentAllowed :: "nat \<Rightarrow> nat \<Rightarrow> bool" where
  "IsRapidsPaymentAllowed ty version \<longleftrightarrow> ty = 51 \<and> version = 2"

datatype txnouttype = TX_NONSTANDARD | TX_PUBKEY | TX_PUBKEYHASH | TX_SCRIPTHASH | TX_MULTISIG | TX_NULL_DATA
  | TX_ZEROCOINMINT | TX_COLDSTAKE

definition IsAllowedInputType :: "CConsensusParams \<Rightarrow> txnouttype \<Rightarrow> int \<Rightarrow> bool" where
  "IsAllowedInputType p whichType nBlock =
     (case whichType of
        TX_PUBKEYHASH \<Rightarrow> PUBKEYHASH_BLOCK p \<le> nBlock
      | TX_SCRIPTHASH \<Rightarrow> SCRIPTHASH_BLOCK p \<le> nBlock
      | _ \<Rightarrow> False)"

definition IsAllowedOutputType :: "CConsensusParams \<Rightarrow> txnouttype \<Rightarrow> int \<Rightarrow> bool" where
  "IsAllowedOutputType p whichType nBlock =
     (case whichType of
        TX_PUBKEYHASH \<Rightarrow> PUBKEYHASH_BLOCK p \<le> nBlock
      | TX_SCRIPTHASH \<Rightarrow> SCRIPTHASH_BLOCK p \<le> nBlock
      | TX_MULTISIG \<Rightarrow> MULTISIG_BLOCK p \<le> nBlock
      | TX_NULL_DATA \<Rightarrow> NULLDATA_BLOCK p \<le> nBlock
      | _ \<Rightarrow> False)"

subsection \<open>Features\<close>

definition feature_block :: "CConsensusParams \<Rightarrow> nat \<Rightarrow> int option" where
  "feature_block p featureId =
     (if featureId = 1 then Some (NULLDATA_BLOCK p)
      else if featureId = 2 then Some (TOKEN_METADEX_BLOCK p)
      else if featureId = 3 then Some (TOKEN_BET_BLOCK p)
      else if featureId = 4 then Some (GRANTEFFECTS_FEATURE_BLOCK p)
      else if featureId = 5 then Some (DEXMATH_FEATURE_BLOCK p)
      else if featureId = 6 then Some (TOKEN_SEND_ALL_BLOCK p)
      else if featureId = 7 then Some (SPCROWDCROSSOVER_FEATURE_BLOCK p)
      else if featureId = 8 then Some (TRADEALLPAIRS_FEATURE_BLOCK p)
      else if featureId = 9 then Some (FEES_FEATURE_BLOCK p)
      else if featureId = 10 then Some (TOKEN_STOV1_BLOCK p)
      else if featureId = 14 then Some (FREEZENOTICE_FEATURE_BLOCK p)
      else None)"

definition IsFeatureActivated :: "CConsensusParams \<Rightarrow> nat \<Rightarrow> int \<Rightarrow> bool" where
  "IsFeatureActivated p featureId transactionBlock =
     (case feature_block p featureId of
        Some activationBlock \<Rightarrow> transactionBlock \<ge> activationBlock
      | None \<Rightarrow> False)"

definition set_feature_block :: "nat \<Rightarrow> int \<Rightarrow> CConsensusParams \<Rightarrow> CConsensusParams option" where
  "set_feature_block featureId b p =
     (if featureId = 1 then Some (p\<lparr>NULLDATA_BLOCK := b\<rparr>)
      else if featureId = 2 then Some (p\<lparr>TOKEN_METADEX_BLOCK := b\<rparr>)
      else if featureId = 3 then Some (p\<lparr>TOKEN_BET_BLOCK := b\<rparr>)
      else if featureId = 4 then Some (p\<lparr>GRANTEFFECTS_FEATURE_BLOCK := b\<rparr>)
      else if featureId = 5 then Some (p\<lparr>DEXMATH_FEATURE_BLOCK := b\<rparr>)
      else if featureId = 6 then Some (p\<lparr>TOKEN_SEND_ALL_BLOCK := b\<rparr>)
      else if featureId = 7 then Some (p\<lparr>SPCROWDCROSSOVER_FEATURE_BLOCK := b\<rparr>)
      else if featureId = 8 then Some (p\<lparr>TRADEALLPAIRS_FEATURE_BLOCK := b\<rparr>)
      else if featureId = 9 then Some (p\<lparr>FEES_FEATURE_BLOCK := b\<rparr>)
      else if featureId = 10 then Some (p\<lparr>TOKEN_STOV1_BLOCK := b\<rparr>)
      else if featureId = 14 then Some (p\<lparr>FREEZENOTICE_FEATURE_BLOCK := b\<rparr>)
      else None)"

definition GetFeatureName :: "nat \<Rightarrow> string" where
  "GetFeatureName featureId =
     (if featureId = 1 then ''Class C transaction encoding''
      else if featureId = 2 then ''Distributed Meta Token Exchange''
      else if featureId = 3 then ''Bet transactions''
      else if featureId = 4 then ''Remove grant side effects''
      else if featureId = 5 then ''DEx integer math update''
      else if featureId = 6 then ''Send All transactions''
      else if featureId = 7 then ''Disable crowdsale ecosystem crossovers''
      else if featureId = 8 then ''Allow trading all pairs on the Distributed Exchange''
      else if featureId = 9 then ''Fee system (inc 0.05% fee from trades of non-Token pairs)''
      else if featureId = 10 then ''Cross-property Send To Owners''
      else if featureId = 14 then ''Activate the waiting period for enabling freezing''
      else ''Unknown feature'')"

subsection \<open>Alerts\<close>

record AlertData =
  alert_sender :: string
  alert_type :: nat
  alert_expiry :: int
  alert_message :: string

record FeatureActivation =
  fa_featureId :: nat
  fa_activationBlock :: int
  fa_minClientVersion :: int
  fa_featureName :: string

record rules_state = crowd_state +
  consensusParams :: CConsensusParams
  vecPendingActivations :: "FeatureActivation list"
  vecCompletedActivations :: "FeatureActivation list"
  currentTokenAlerts :: "AlertData list"

abbreviation TOKENCORE_VERSION :: int where "TOKENCORE_VERSION \<equiv> 50000000"

definition DeleteAlerts :: "string \<Rightarrow> 's rules_state_scheme \<Rightarrow> 's rules_state_scheme" where
  "DeleteAlerts sender s = s\<lparr>currentTokenAlerts := filter (\<lambda>alert. \<not> sender = alert_sender alert) (currentTokenAlerts s)\<rparr>"

definition ClearAlerts :: "'s rules_state_scheme \<Rightarrow> 's rules_state_scheme" where
  "ClearAlerts s = s\<lparr>currentTokenAlerts := []\<rparr>"

definition AddAlert :: "string \<Rightarrow> nat \<Rightarrow> int \<Rightarrow> string \<Rightarrow> 's rules_state_scheme \<Rightarrow> 's rules_state_scheme" where
  "AddAlert sender alertType alertExpiry alertMessage s =
     (if sender \<noteq> ''tokencore'' \<and> (alertType < 1 \<or> alertType > 3) then s
      else s\<lparr>currentTokenAlerts := currentTokenAlerts s @
        [\<lparr>alert_sender = sender, alert_type = alertType, alert_expiry = alertExpiry, alert_message = alertMessage\<rparr>]\<rparr>)"

definition alert_expired :: "int \<Rightarrow> int \<Rightarrow> AlertData \<Rightarrow> bool" where
  "alert_expired curBlock curTime alert =
     (if alert_type alert = 1 then curBlock \<ge> alert_expiry alert
      else if alert_type alert = 2 then curTime > alert_expiry alert
      else if alert_type alert = 3 then TOKENCORE_VERSION > alert_expiry alert
      else True)"

definition CheckExpiredAlerts :: "int \<Rightarrow> int \<Rightarrow> 's rules_state_scheme \<Rightarrow> bool \<times> 's rules_state_scheme" where
  "CheckExpiredAlerts curBlock curTime s =
     (True, s\<lparr>currentTokenAlerts := filter (\<lambda>alert. \<not> alert_expired curBlock curTime alert) (currentTokenAlerts s)\<rparr>)"

definition GetTokenCoreAlertMessages :: "'s rules_state_scheme \<Rightarrow> string list" where
  "GetTokenCoreAlertMessages s = map alert_message (currentTokenAlerts s)"

subsection \<open>Activation\<close>

definition DeletePendingActivation :: "nat \<Rightarrow> 's rules_state_scheme \<Rightarrow> 's rules_state_scheme" where
  "DeletePendingActivation featureId s =
     s\<lparr>vecPendingActivations := filter (\<lambda>a. \<not> fa_featureId a = featureId) (vecPendingActivations s)\<rparr>"

definition PendingActivationCompleted :: "FeatureActivation \<Rightarrow> 's rules_state_scheme \<Rightarrow> 's rules_state_scheme" where
  "PendingActivationCompleted activation s =
     (let s1 = DeletePendingActivation (fa_featureId activation) s
      in s1\<lparr>vecCompletedActivations := vecCompletedActivations s1 @ [activation]\<rparr>)"

definition AddPendingActivation :: "nat \<Rightarrow> int \<Rightarrow> int \<Rightarrow> string \<Rightarrow> 's rules_state_scheme \<Rightarrow> 's rules_state_scheme" where
  "AddPendingActivation featureId activationBlock minClientVersion featureName s =
     (let s1 = DeletePendingActivation featureId s
      in s1\<lparr>vecPendingActivations := vecPendingActivations s1 @
        [\<lparr>fa_featureId = featureId, fa_activationBlock = activationBlock, fa_minClientVersion = minClientVersion,
          fa_featureName = featureName\<rparr>]\<rparr>)"

text \<open>The loop runs over a copy of the pending activations.\<close>

fun live_loop :: "int \<Rightarrow> FeatureActivation list \<Rightarrow> 's rules_state_scheme \<Rightarrow> 's rules_state_scheme" where
  "live_loop blockHeight [] s = s"
| "live_loop blockHeight (liveActivation # it) s =
     (if fa_activationBlock liveActivation > blockHeight then live_loop blockHeight it s
      else
        let s1 = (if TOKENCORE_VERSION < fa_minClientVersion liveActivation \<and> \<not> overrideforcedshutdown s
                  then s\<lparr>shutdownRequested := True\<rparr> else s)
        in live_loop blockHeight it (PendingActivationCompleted liveActivation s1))"

definition CheckLiveActivations :: "int \<Rightarrow> 's rules_state_scheme \<Rightarrow> 's rules_state_scheme" where
  "CheckLiveActivations blockHeight s = live_loop blockHeight (vecPendingActivations s) s"

definition ClearActivations :: "'s rules_state_scheme \<Rightarrow> 's rules_state_scheme" where
  "ClearActivations s = s\<lparr>vecPendingActivations := [], vecCompletedActivations := []\<rparr>"

definition ActivateFeature :: "nat \<Rightarrow> int \<Rightarrow> int \<Rightarrow> int \<Rightarrow> 's rules_state_scheme \<Rightarrow> bool \<times> 's rules_state_scheme" where
  "ActivateFeature featureId activationBlock minClientVersion transactionBlock s =
     (let params = consensusParams s
      in if activationBlock < transactionBlock + MIN_ACTIVATION_BLOCKS params
           \<or> activationBlock > transactionBlock + MAX_ACTIVATION_BLOCKS params then (False, s)
         else if IsFeatureActivated params featureId transactionBlock then (False, s)
         else
           let featureName = GetFeatureName featureId;
               (supported, s1) = (case set_feature_block featureId activationBlock params of
                   Some params' \<Rightarrow> (TOKENCORE_VERSION \<ge> minClientVersion, s\<lparr>consensusParams := params'\<rparr>)
                 | None \<Rightarrow> (False, s));
               s2 = AddPendingActivation featureId activationBlock minClientVersion featureName s1;
               alertText = ''Your client must be updated and will shutdown at block '' @ show_int activationBlock
                 @ '' (unsupported feature '' @ show_nat featureId @ '' ('' @ [CHR 0x27] @ featureName @ [CHR 0x27] @ '') activated)'' @ [CHR 0x0A]
           in (True, if \<not> supported then AddAlert ''tokencore'' 1 activationBlock alertText s2 else s2))"

definition DeactivateFeature :: "nat \<Rightarrow> int \<Rightarrow> 's rules_state_scheme \<Rightarrow> bool \<times> 's rules_state_scheme" where
  "DeactivateFeature featureId transactionBlock s =
     (if \<not> IsFeatureActivated (consensusParams s) featureId transactionBlock then (False, s)
      else (case set_feature_block featureId 999999 (consensusParams s) of
          None \<Rightarrow> (False, s)
        | Some params' \<Rightarrow>
            (True, AddAlert ''tokencore'' 1 (transactionBlock + 1024)
              (''An emergency deactivation of feature ID '' @ show_nat featureId @ '' ('' @ GetFeatureName featureId @ '') has occurred.'')
              (s\<lparr>consensusParams := params'\<rparr>))))"

text \<open>
  The three authorization checks share their shape: built-in sources, plus those of the "allow" option, minus
  those of the "ignore" option (both lists are empty when the option is absent).
\<close>

definition authorized :: "string list \<Rightarrow> string list \<Rightarrow> string list \<Rightarrow> string \<Rightarrow> bool" where
  "authorized builtin allowsender ignoresender sender =
     (let whitelisted = fold sset_erase ignoresender (fold sset_insert allowsender (fold sset_insert builtin []))
      in sender \<in> set whitelisted \<or> ''any'' \<in> set whitelisted)"

definition CheckActivationAuthorization :: "string list \<Rightarrow> string list \<Rightarrow> string \<Rightarrow> bool" where
  "CheckActivationAuthorization allowsender ignoresender sender =
     authorized [''3Fc5gWzEQh1YGeqVXH6E4GDEGgbZJREJQ3'', ''33jx18123xJS59hnHwCgsr6zvYPfiCussh''] allowsender ignoresender sender"

definition CheckDeactivationAuthorization :: "string list \<Rightarrow> string list \<Rightarrow> string \<Rightarrow> bool" where
  "CheckDeactivationAuthorization allowsender ignoresender sender =
     authorized [''34kwkVRSvFVEoUwcQSgpQ4ZUasuZ54DJLD''] allowsender ignoresender sender"

definition CheckAlertAuthorization :: "string list \<Rightarrow> string list \<Rightarrow> string \<Rightarrow> bool" where
  "CheckAlertAuthorization allowsender ignoresender sender =
     authorized [''17xr7sbehYY4YSZX9yuJe6gK9rrdRrZx26'', ''16oDZYCspsczfgKXVj3xyvsxH21NpEj94F'',
       ''1883ZMsRJfzKNozUBJRPDxQ7EaiNioNDWz'', ''1HHv91gRxqBzQ3gydMob3LU8hqXcWoLfvd'',
       ''34kwkVRSvFVEoUwcQSgpQ4ZUasuZ54DJLD''] allowsender ignoresender sender"

subsection \<open>Lemmas\<close>

lemma set_feature_block_Some:
  assumes "set_feature_block f b p = Some p'"
  shows "feature_block p' g = (if g = f then Some b else feature_block p g)"
  using assms unfolding set_feature_block_def feature_block_def by (simp split: if_splits) auto

lemma set_feature_block_iff: "set_feature_block f b p = None \<longleftrightarrow> feature_block p f = None"
  by (simp add: set_feature_block_def feature_block_def)

lemma AddAlert_frame [simp]:
  "consensusParams (AddAlert a t e m s) = consensusParams s"
  "vecPendingActivations (AddAlert a t e m s) = vecPendingActivations s"
  by (simp_all add: AddAlert_def)

lemma AddPendingActivation_frame [simp]:
  "consensusParams (AddPendingActivation f b v n s) = consensusParams s"
  by (simp add: AddPendingActivation_def DeletePendingActivation_def Let_def)

lemma AddPendingActivation_pending:
  "filter (\<lambda>a. fa_featureId a = f) (vecPendingActivations (AddPendingActivation f b v n s)) =
     [\<lparr>fa_featureId = f, fa_activationBlock = b, fa_minClientVersion = v, fa_featureName = n\<rparr>]"
  "g \<noteq> f \<Longrightarrow> filter (\<lambda>a. fa_featureId a = g) (vecPendingActivations (AddPendingActivation f b v n s)) =
     filter (\<lambda>a. fa_featureId a = g) (vecPendingActivations s)"
  by (auto simp: AddPendingActivation_def DeletePendingActivation_def Let_def intro: filter_cong)

lemma fold_sset_insert_set: "set (fold sset_insert xs ys) = set xs \<union> set ys"
  by (induction xs arbitrary: ys) auto

lemma fold_sset_erase_set: "set (fold sset_erase xs ys) = set ys - set xs"
  by (induction xs arbitrary: ys) auto

lemma authorized_iff:
  "authorized builtin allow ignore sender \<longleftrightarrow>
     (\<exists>x \<in> {sender, ''any''}. (x \<in> set builtin \<or> x \<in> set allow) \<and> x \<notin> set ignore)"
  by (auto simp: authorized_def fold_sset_insert_set fold_sset_erase_set)

lemma live_loop_pending:
  "vecPendingActivations (live_loop h its s) =
     filter (\<lambda>a. \<forall>b \<in> set its. fa_featureId b = fa_featureId a \<longrightarrow> fa_activationBlock b > h) (vecPendingActivations s)"
proof (induction its arbitrary: s)
  case (Cons x its)
  show ?case
    by (auto simp: Cons.IH Let_def PendingActivationCompleted_def DeletePendingActivation_def intro!: filter_cong)
qed simp

definition activation_refused :: "nat \<Rightarrow> int \<Rightarrow> int \<Rightarrow> 's rules_state_scheme \<Rightarrow> bool" where
  "activation_refused f b tb s \<longleftrightarrow> b < tb + MIN_ACTIVATION_BLOCKS (consensusParams s)
     \<or> b > tb + MAX_ACTIVATION_BLOCKS (consensusParams s) \<or> IsFeatureActivated (consensusParams s) f tb"

lemma ActivateFeature_outcome:
  "if activation_refused f b tb s then ActivateFeature f b v tb s = (False, s)
   else fst (ActivateFeature f b v tb s)
     \<and> consensusParams (snd (ActivateFeature f b v tb s)) =
        (case set_feature_block f b (consensusParams s) of Some q \<Rightarrow> q | None \<Rightarrow> consensusParams s)
     \<and> filter (\<lambda>a. fa_featureId a = f) (vecPendingActivations (snd (ActivateFeature f b v tb s))) =
        [\<lparr>fa_featureId = f, fa_activationBlock = b, fa_minClientVersion = v, fa_featureName = GetFeatureName f\<rparr>]"
  unfolding activation_refused_def ActivateFeature_def Let_def
  by (cases "set_feature_block f b (consensusParams s)") (simp_all add: AddPendingActivation_pending(1))

subsection \<open>Properties of the rules\<close>

text \<open>
  Activation: a refused request changes nothing. An accepted one lies within the notice period of the network,
  concerns a feature that is not live yet, makes a known feature live exactly from its activation
  block on, leaves every other feature alone, and is the only pending activation of that feature.
\<close>

lemma ActivateFeature_effect:
  fixes s :: rules_state
  assumes "ActivateFeature f b v tb s = (ok, s')"
  shows "(\<not> ok \<longrightarrow> s' = s)
    \<and> (ok \<longrightarrow> tb + MIN_ACTIVATION_BLOCKS (consensusParams s) \<le> b \<and> b \<le> tb + MAX_ACTIVATION_BLOCKS (consensusParams s)
       \<and> \<not> IsFeatureActivated (consensusParams s) f tb
       \<and> (\<forall>g h. IsFeatureActivated (consensusParams s') g h =
           (if g = f \<and> feature_block (consensusParams s) f \<noteq> None then b \<le> h else IsFeatureActivated (consensusParams s) g h))
       \<and> filter (\<lambda>a. fa_featureId a = f) (vecPendingActivations s') =
           [\<lparr>fa_featureId = f, fa_activationBlock = b, fa_minClientVersion = v, fa_featureName = GetFeatureName f\<rparr>])"
proof (cases ok)
  case False
  then show ?thesis using assms ActivateFeature_outcome [where f = f and b = b and v = v and tb = tb and s = s] by (auto split: if_splits)
next
  case True
  define params where "params = (case set_feature_block f b (consensusParams s) of Some q \<Rightarrow> q | None \<Rightarrow> consensusParams s)"
  have run: "ActivateFeature f b v tb s = (True, s')" using assms True by simp
  note out = ActivateFeature_outcome [where f = f and b = b and v = v and tb = tb and s = s, unfolded run fst_conv snd_conv]
  have refused: "\<not> activation_refused f b tb s" using out by (auto split: if_splits)
  with out have s': "consensusParams s' = params"
      "filter (\<lambda>a. fa_featureId a = f) (vecPendingActivations s') =
        [\<lparr>fa_featureId = f, fa_activationBlock = b, fa_minClientVersion = v, fa_featureName = GetFeatureName f\<rparr>]"
    by (simp_all add: params_def)
  have "feature_block params g = (if g = f \<and> feature_block (consensusParams s) f \<noteq> None then Some b
      else feature_block (consensusParams s) g)" for g
    using set_feature_block_iff [of f b "consensusParams s"] set_feature_block_Some [of f b "consensusParams s" params g]
    by (auto simp: params_def split: option.splits)
  then have "IsFeatureActivated params g h = (if g = f \<and> feature_block (consensusParams s) f \<noteq> None then b \<le> h
      else IsFeatureActivated (consensusParams s) g h)" for g h
    by (auto simp: IsFeatureActivated_def)
  then show ?thesis using True refused s' by (simp add: activation_refused_def)
qed

definition sample_rules :: "CConsensusParams \<Rightarrow> rules_state" where
  "sample_rules p = crowd_state.extend sample_crowds (rules_state.fields p [] [] [])"

lemma sample_rules_params [simp]: "consensusParams (sample_rules p) = p"
  by (simp add: sample_rules_def crowd_state.defs rules_state.defs)

text \<open>
  Deactivation is without effect on the main network: it moves the activation block to 999999, so after a
  successful deactivation the feature is still live at every block from 999999 on, and the
  token layer of the main network starts at block 1827900.
\<close>

lemma DeactivateFeature_ineffective:
  fixes s :: rules_state
  assumes "DeactivateFeature f tb s = (True, s')" and "999999 \<le> b"
  shows "IsFeatureActivated (consensusParams s') f b"
  using assms
  by (auto simp: DeactivateFeature_def IsFeatureActivated_def set_feature_block_Some split: if_splits option.splits)

end
