(* ===== verification/Names.thy ===== *)
theory Names
  imports Rules
begin

text \<open>
  Names of tokens and users: the validity checks at the head of \<^verbatim>\<open>src/src/tokencore/tx.cpp\<close> and the
  lookup of a user name in \<^verbatim>\<open>tokencore.cpp\<close>, with the amount formats beside it.

  The checks are regular expressions in which every item is a class of characters with a range of
  repetitions, so a pattern is a list of such items and an expression a list of alternatives, matched against
  the whole string as \<^verbatim>\<open>std::regex_match\<close> does. The lemmas show that the three kinds of names are
  disjoint, that the escaped dot is missing in the pattern of user names, and what the lookup of a
  user name returns.
\<close>

type_synonym regex_item = "(char \<Rightarrow> bool) \<times> nat \<times> nat option"

fun match_items :: "regex_item list \<Rightarrow> string \<Rightarrow> bool" where
  "match_items [] s \<longleftrightarrow> s = []"
| "match_items ((cls, lo, hi) # items) s =
     list_ex (\<lambda>n. lo \<le> n \<and> (case hi of None \<Rightarrow> True | Some h \<Rightarrow> n \<le> h)
        \<and> list_all cls (take n s) \<and> match_items items (drop n s)) [0 ..< Suc (length s)]"

definition regex_match :: "string \<Rightarrow> regex_item list list \<Rightarrow> bool" where
  "regex_match s alternatives = list_ex (\<lambda>items. match_items items s) alternatives"

definition in_range :: "char \<Rightarrow> char \<Rightarrow> char \<Rightarrow> bool" where
  "in_range lo hi c \<longleftrightarrow> (of_char lo :: nat) \<le> of_char c \<and> (of_char c :: nat) \<le> of_char hi"

definition upper_class :: "char \<Rightarrow> bool" where
  "upper_class c \<longleftrightarrow> in_range (CHR ''A'') (CHR ''Z'') c \<or> in_range (CHR ''0'') (CHR ''9'') c \<or> c = CHR ''.'' \<or> c = CHR ''_''"

definition lower_class :: "char \<Rightarrow> bool" where
  "lower_class c \<longleftrightarrow> in_range (CHR ''a'') (CHR ''z'') c \<or> in_range (CHR ''0'') (CHR ''9'') c \<or> c = CHR ''.'' \<or> c = CHR ''_''"

definition base58_class :: "char \<Rightarrow> bool" where
  "base58_class c \<longleftrightarrow> in_range (CHR ''1'') (CHR ''9'') c \<or> in_range (CHR ''A'') (CHR ''H'') c \<or> in_range (CHR ''J'') (CHR ''N'') c
     \<or> in_range (CHR ''P'') (CHR ''Z'') c \<or> in_range (CHR ''a'') (CHR ''k'') c \<or> in_range (CHR ''m'') (CHR ''z'') c"

text \<open>An unescaped dot of an ECMAScript expression: every character but a line terminator.\<close>

definition any_class :: "char \<Rightarrow> bool" where
  "any_class c \<longleftrightarrow> c \<noteq> CHR 0x0A \<and> c \<noteq> CHR 0x0D"

definition literal :: "string \<Rightarrow> regex_item list" where
  "literal s = map (\<lambda>c. ((=) c, 1, Some 1)) s"

definition IPFS_CHARACTERS :: "regex_item list list" where
  "IPFS_CHARACTERS =
     [literal ''Qm'' @ [(base58_class, 44, None)],
      literal ''b'' @ [(\<lambda>c. in_range (CHR ''A'') (CHR ''Z'') c \<or> in_range (CHR ''a'') (CHR ''z'') c
        \<or> in_range (CHR ''2'') (CHR ''7'') c, 58, None)],
      literal ''B'' @ [(\<lambda>c. in_range (CHR ''A'') (CHR ''Z'') c \<or> in_range (CHR ''2'') (CHR ''7'') c, 58, None)],
      literal ''z'' @ [(base58_class, 48, None)],
      literal ''F'' @ [(\<lambda>c. in_range (CHR ''0'') (CHR ''9'') c \<or> in_range (CHR ''A'') (CHR ''F'') c, 50, None)]]"

definition TOKEN_SUB_CHARACTERS :: "regex_item list list" where
  "TOKEN_SUB_CHARACTERS =
     [[((=) (CHR ''r''), 0, Some 1), (upper_class, 3, Some 20), ((=) (CHR ''#''), 1, Some 1), (upper_class, 3, Some 20)]]"

definition PROTECTED_TICKERS :: "regex_item list list" where
  "PROTECTED_TICKERS = [literal ''RPD'', literal ''RAPIDS'', literal ''RAPIDSNETWORK'']"

definition TOKEN_TICKER_CHARACTERS :: "regex_item list list" where
  "TOKEN_TICKER_CHARACTERS = [[((=) (CHR ''r''), 0, Some 1), (upper_class, 3, Some 20)]]"

definition USERNAME_CHARACTERS :: "regex_item list list" where
  "USERNAME_CHARACTERS = [[(lower_class, 3, Some 20), (any_class, 1, Some 1)] @ literal ''rpd'']"

definition PROTECTED_USERNAMES :: "regex_item list list" where
  "PROTECTED_USERNAMES =
     [literal ''rapids'' @ [(any_class, 1, Some 1)] @ literal ''rpd'', literal ''rpd'' @ [(any_class, 1, Some 1)] @ literal ''rpd'']"

text \<open>\<^verbatim>\<open>std::getline\<close> with a delimiter: no empty last element, no element for an empty string.\<close>

fun getlines :: "char \<Rightarrow> string \<Rightarrow> string \<Rightarrow> string list" where
  "getlines d step [] = (if step = [] then [] else [step])"
| "getlines d step (c # cs) = (if c = d then step # getlines d [] cs else getlines d (step @ [c]) cs)"

definition SplitSubTicker :: "string \<Rightarrow> string list" where
  "SplitSubTicker s = getlines (CHR ''#'') [] s"

definition IsTokenTickerValid :: "string \<Rightarrow> bool" where
  "IsTokenTickerValid ticker \<longleftrightarrow> regex_match ticker TOKEN_TICKER_CHARACTERS \<and> \<not> regex_match ticker PROTECTED_TICKERS"

definition IsSubTickerValid :: "string \<Rightarrow> bool" where
  "IsSubTickerValid ticker \<longleftrightarrow> regex_match ticker TOKEN_SUB_CHARACTERS"

definition IsUsernameValid :: "string \<Rightarrow> bool" where
  "IsUsernameValid username \<longleftrightarrow> regex_match username USERNAME_CHARACTERS \<and> \<not> regex_match username PROTECTED_USERNAMES"

definition IsTokenIPFSValid :: "string \<Rightarrow> bool" where
  "IsTokenIPFSValid s \<longleftrightarrow> regex_match s IPFS_CHARACTERS \<or> s = []"

subsection \<open>The address of a user name\<close>

text \<open>
  \<open>address\<close> is assigned before the test, so it is the last address visited when the map has no holder.
\<close>

fun username_loop :: "property_id \<Rightarrow> (string \<times> CMPTally) list \<Rightarrow> string \<Rightarrow> string" where
  "username_loop p [] address = address"
| "username_loop p ((a, tally) # it) address =
     (if list_ex (\<lambda>id. id = p) (tally_ids tally) then a else username_loop p it a)"

definition GetUsernameAddress :: "'s fee_state_scheme \<Rightarrow> string \<Rightarrow> string" where
  "GetUsernameAddress s username =
     (let propertyId = findSPByTicker username (pDbSpInfo s)
      in if IsUsernameValid username \<and> propertyId \<noteq> 0 then username_loop propertyId (mp_tally_map s) [] else [])"

subsection \<open>Amounts as text\<close>

abbreviation COIN :: int where "COIN \<equiv> 100000000"

definition FormatDivisibleMP :: "int \<Rightarrow> bool \<Rightarrow> string" where
  "FormatDivisibleMP n fSign =
     (let n_abs = (if n > 0 then n else s64 (- n));
          str = show_int (sdiv64 n_abs COIN) @ ''.'' @ show_pad8 (nat (n_abs - sdiv64 n_abs COIN * COIN))
      in if \<not> fSign then str else (if n < 0 then ''-'' @ str else ''+'' @ str))"

definition FormatDivisibleShortMP :: "int \<Rightarrow> string" where
  "FormatDivisibleShortMP n =
     (let n_abs = (if n > 0 then n else s64 (- n));
          str = show_int (sdiv64 n_abs COIN) @ ''.'' @ show_pad8 (nat (n_abs - sdiv64 n_abs COIN * COIN));
          str1 = rev (dropWhile (\<lambda>c. c = CHR ''0'') (rev str))
      in if str1 \<noteq> [] \<and> last str1 = CHR ''.'' then butlast str1 else str1)"

definition FormatIndivisibleMP :: "int \<Rightarrow> string" where
  "FormatIndivisibleMP n = show_int n"

definition FormatShortMP :: "'s fee_state_scheme \<Rightarrow> property_id \<Rightarrow> int \<Rightarrow> string" where
  "FormatShortMP s p n = (if isPropertyDivisible p (pDbSpInfo s) then FormatDivisibleShortMP n else FormatIndivisibleMP n)"

definition FormatMP :: "'s fee_state_scheme \<Rightarrow> property_id \<Rightarrow> int \<Rightarrow> bool \<Rightarrow> string" where
  "FormatMP s p n fSign = (if isPropertyDivisible p (pDbSpInfo s) then FormatDivisibleMP n fSign else FormatIndivisibleMP n)"

definition FormatByType :: "int \<Rightarrow> nat \<Rightarrow> string" where
  "FormatByType amount propertyType = (if odd propertyType then FormatIndivisibleMP amount else FormatDivisibleMP amount False)"

subsection \<open>Lemmas\<close>

text \<open>Matching an item splits the string.\<close>

lemma match_items_Cons:
  "match_items ((cls, lo, hi) # items) s \<longleftrightarrow>
     (\<exists>u v. s = u @ v \<and> lo \<le> length u \<and> (\<forall>h. hi = Some h \<longrightarrow> length u \<le> h) \<and> list_all cls u \<and> match_items items v)"
proof
  assume "match_items ((cls, lo, hi) # items) s"
  then obtain n where n: "n < Suc (length s)" "lo \<le> n" "case hi of None \<Rightarrow> True | Some h \<Rightarrow> n \<le> h"
      "list_all cls (take n s)" "match_items items (drop n s)"
    by (auto simp: list_ex_iff simp del: upt_Suc)
  then have "s = take n s @ drop n s \<and> lo \<le> length (take n s) \<and> (\<forall>h. hi = Some h \<longrightarrow> length (take n s) \<le> h)" by auto
  with n(4,5) show "\<exists>u v. s = u @ v \<and> lo \<le> length u \<and> (\<forall>h. hi = Some h \<longrightarrow> length u \<le> h) \<and> list_all cls u \<and> match_items items v"
    by blast
next
  assume "\<exists>u v. s = u @ v \<and> lo \<le> length u \<and> (\<forall>h. hi = Some h \<longrightarrow> length u \<le> h) \<and> list_all cls u \<and> match_items items v"
  then obtain u v where uv: "s = u @ v" "lo \<le> length u" "\<forall>h. hi = Some h \<longrightarrow> length u \<le> h" "list_all cls u" "match_items items v"
    by blast
  then have "length u \<in> set [0 ..< Suc (length s)]" by simp
  with uv show "match_items ((cls, lo, hi) # items) s"
    by (auto simp: list_ex_iff split: option.split intro!: bexI [of _ "length u"] simp del: upt_Suc)
qed

declare match_items.simps(2) [simp del]

lemma match_literal: "match_items (literal t @ items) s \<longleftrightarrow> (\<exists>v. s = t @ v \<and> match_items items v)"
proof (induction t arbitrary: s)
  case Nil
  then show ?case by (simp add: literal_def)
next
  case (Cons c t)
  have one: "list_all ((=) c) u \<and> 1 \<le> length u \<and> length u \<le> 1 \<longleftrightarrow> u = [c]" for u :: string
    by (cases u) auto
  have "match_items (literal (c # t) @ items) s \<longleftrightarrow>
      (\<exists>u v. s = u @ v \<and> (list_all ((=) c) u \<and> 1 \<le> length u \<and> length u \<le> 1) \<and> match_items (literal t @ items) v)"
    unfolding literal_def list.map append_Cons match_items_Cons by auto
  then show ?case unfolding one using Cons by auto
qed

lemma match_literal_end: "match_items (literal t) s \<longleftrightarrow> s = t"
  using match_literal [of t "[]" s] by auto

lemma match_any_one: "match_items ((cls, 1, Some 1) # items) s \<longleftrightarrow> (\<exists>c v. s = c # v \<and> cls c \<and> match_items items v)"
proof -
  have one: "list_all cls u \<and> 1 \<le> length u \<and> length u \<le> 1 \<longleftrightarrow> (\<exists>c. u = [c] \<and> cls c)" for u
    by (cases u) auto
  have "match_items ((cls, 1, Some 1) # items) s \<longleftrightarrow>
      (\<exists>u v. s = u @ v \<and> (list_all cls u \<and> 1 \<le> length u \<and> length u \<le> 1) \<and> match_items items v)"
    unfolding match_items_Cons by auto
  then have "match_items ((cls, 1, Some 1) # items) s \<longleftrightarrow> (\<exists>c v. s = [c] @ v \<and> cls c \<and> match_items items v)"
    unfolding one by blast
  then show ?thesis unfolding append_Cons append_Nil .
qed

lemma match_optional: "match_items (((=) c, 0, Some 1) # items) s \<longleftrightarrow> match_items items s \<or> (\<exists>v. s = c # v \<and> match_items items v)"
proof -
  have one: "list_all ((=) c) u \<and> length u \<le> 1 \<longleftrightarrow> u = [] \<or> u = [c]" for u :: string
    by (cases u) auto
  have "match_items (((=) c, 0, Some 1) # items) s \<longleftrightarrow>
      (\<exists>u v. s = u @ v \<and> (list_all ((=) c) u \<and> length u \<le> 1) \<and> match_items items v)"
    unfolding match_items_Cons by auto
  then have "match_items (((=) c, 0, Some 1) # items) s \<longleftrightarrow> (\<exists>v. s = [] @ v \<and> match_items items v) \<or> (\<exists>v. s = [c] @ v \<and> match_items items v)"
    unfolding one by blast
  then show ?thesis by simp
qed

lemma match_last: "match_items [(cls, lo, Some hi)] s \<longleftrightarrow> lo \<le> length s \<and> length s \<le> hi \<and> list_all cls s"
  by (simp only: match_items_Cons) simp

lemma regex_single: "regex_match s [items] \<longleftrightarrow> match_items items s"
  by (simp add: regex_match_def)

lemma username_match:
  "regex_match u USERNAME_CHARACTERS \<longleftrightarrow>
     (\<exists>n d. u = n @ d # ''rpd'' \<and> 3 \<le> length n \<and> length n \<le> 20 \<and> list_all lower_class n \<and> any_class d)"
  unfolding USERNAME_CHARACTERS_def append_Cons append_Nil regex_single match_items_Cons [of lower_class]
    match_any_one match_literal_end
  by (simp only: option.inject) blast

definition upper_name :: "string \<Rightarrow> bool" where
  "upper_name n \<longleftrightarrow> 3 \<le> length n \<and> length n \<le> 20 \<and> list_all upper_class n"

lemma ticker_match: "regex_match u TOKEN_TICKER_CHARACTERS \<longleftrightarrow> upper_name u \<or> (\<exists>v. u = CHR ''r'' # v \<and> upper_name v)"
  unfolding TOKEN_TICKER_CHARACTERS_def regex_single match_optional match_last upper_name_def ..

lemma sub_match: "match_items [(upper_class, 3, Some 20), ((=) (CHR ''#''), 1, Some 1), (upper_class, 3, Some 20)] u \<longleftrightarrow>
    (\<exists>n m. u = n @ CHR ''#'' # m \<and> upper_name n \<and> upper_name m)"
  unfolding match_items_Cons [of upper_class 3 "Some 20" "_ # _ # _"] match_any_one match_last upper_name_def
  by (simp only: option.inject) blast

lemma sub_ticker_match:
  "regex_match u TOKEN_SUB_CHARACTERS \<longleftrightarrow>
     (\<exists>n m. (u = n @ CHR ''#'' # m \<or> u = CHR ''r'' # n @ CHR ''#'' # m) \<and> upper_name n \<and> upper_name m)"
  unfolding TOKEN_SUB_CHARACTERS_def regex_single match_optional sub_match by blast

lemma class_chars [simp]:
  "\<not> upper_class (CHR ''r'')" "\<not> upper_class (CHR ''p'')" "\<not> upper_class (CHR ''d'')" "\<not> upper_class (CHR ''#'')" "\<not> lower_class (CHR ''#'')"
  by (simp_all add: upper_class_def lower_class_def in_range_def)

text \<open>A user name ends in a small letter, so does no ticker; a sub-ticker contains \<open>#\<close>, no ticker does.\<close>

lemma last_upper: "upper_name m \<Longrightarrow> upper_class (last m)"
  by (cases m rule: rev_cases) (auto simp: upper_name_def)

lemma upper_nonempty: "upper_name m \<Longrightarrow> m \<noteq> []"
  by (auto simp: upper_name_def)

lemma upper_no_hash: "upper_name m \<Longrightarrow> CHR ''#'' \<notin> set m"
  by (auto simp: upper_name_def list_all_iff)

lemma ticker_last: "regex_match u TOKEN_TICKER_CHARACTERS \<Longrightarrow> upper_class (last u) \<and> CHR ''#'' \<notin> set u"
  by (auto simp: ticker_match last_upper upper_nonempty upper_no_hash)

lemma sub_ticker_last: "regex_match u TOKEN_SUB_CHARACTERS \<Longrightarrow> upper_class (last u) \<and> CHR ''#'' \<in> set u"
  by (auto simp: sub_ticker_match last_upper upper_nonempty)

lemma username_last: "regex_match u USERNAME_CHARACTERS \<Longrightarrow> last u = CHR ''d''"
  by (auto simp: username_match)

lemma getlines_one: "d \<notin> set n \<Longrightarrow> getlines d step (n @ d # m) = (step @ n) # getlines d [] m"
  by (induction n arbitrary: step) auto

lemma getlines_end: "d \<notin> set m \<Longrightarrow> getlines d step m = (if step @ m = [] then [] else [step @ m])"
  by (induction m arbitrary: step) auto

lemma SplitSubTicker_two:
  assumes "CHR ''#'' \<notin> set n" and "CHR ''#'' \<notin> set m" and "m \<noteq> []"
  shows "SplitSubTicker (n @ CHR ''#'' # m) = [n, m]"
  using assms by (simp add: SplitSubTicker_def getlines_one getlines_end)

text \<open>
  The kinds of names are disjoint: no string is valid as two of token ticker, sub-token ticker and user
  name, so the branches of the property creation that these checks select exclude each other; and
  splitting a valid sub-ticker gives exactly its two parts, of which the first has the shape of a ticker.
\<close>

lemma names_disjoint:
  "\<not> (IsTokenTickerValid u \<and> IsSubTickerValid u) \<and> \<not> (IsTokenTickerValid u \<and> IsUsernameValid u)
   \<and> \<not> (IsSubTickerValid u \<and> IsUsernameValid u)
   \<and> (IsSubTickerValid u \<longrightarrow> (\<exists>parent child. u = parent @ CHR ''#'' # child \<and> SplitSubTicker u = [parent, child]
        \<and> regex_match parent TOKEN_TICKER_CHARACTERS \<and> upper_name child))"
proof -
  have "\<exists>parent child. u = parent @ CHR ''#'' # child \<and> SplitSubTicker u = [parent, child]
        \<and> regex_match parent TOKEN_TICKER_CHARACTERS \<and> upper_name child" if "IsSubTickerValid u"
  proof -
    from that obtain n m where u: "u = n @ CHR ''#'' # m \<or> u = CHR ''r'' # n @ CHR ''#'' # m" and "upper_name n" and m: "upper_name m"
      unfolding IsSubTickerValid_def sub_ticker_match by blast
    then have "\<exists>parent. u = parent @ CHR ''#'' # m \<and> regex_match parent TOKEN_TICKER_CHARACTERS"
      unfolding ticker_match by (metis append_Cons)
    then obtain parent where p: "u = parent @ CHR ''#'' # m" "regex_match parent TOKEN_TICKER_CHARACTERS" by blast
    then have "SplitSubTicker u = [parent, m]"
      using SplitSubTicker_two [of parent m] ticker_last [of parent] m by (simp add: upper_no_hash upper_nonempty)
    with p m show ?thesis by blast
  qed
  then show ?thesis
    using ticker_last [of u] sub_ticker_last [of u] username_last [of u]
    by (auto simp: IsTokenTickerValid_def IsSubTickerValid_def IsUsernameValid_def)
qed

text \<open>
  The dot before \<open>rpd\<close> is not escaped, so any character but a line end passes: \<open>alice#rpd\<close> or \<open>alice rpd\<close> are
  as valid as \<open>alice.rpd\<close>.
\<close>

theorem IsUsernameValid_any_separator:
  assumes "3 \<le> length n" and "length n \<le> 20" and "list_all lower_class n" and "any_class d"
    and "n \<noteq> ''rapids''" and "n \<noteq> ''rpd''"
  shows "IsUsernameValid (n @ d # ''rpd'')"
proof -
  have "\<not> regex_match (n @ d # ''rpd'') PROTECTED_USERNAMES"
    using assms(5,6)
    by (auto simp: regex_match_def PROTECTED_USERNAMES_def match_literal match_any_one [unfolded One_nat_def] match_literal_end)
  then show ?thesis using assms username_match by (auto simp: IsUsernameValid_def)
qed

lemma username_loop_finds:
  assumes "\<forall>(a, t) \<in> set pre. p \<notin> set (tally_ids t)" and "p \<in> set (tally_ids t)"
  shows "username_loop p (pre @ (a, t) # post) x = a"
  using assms by (induction pre arbitrary: x) (auto simp: list_ex_iff)

text \<open>
  The address of a user name is the first address, in the iteration order of the tally map, with a record of
  the name's property. A record stays when its balance returns to zero, so a former owner of the name
  that comes first in that order is returned in place of the owner.
\<close>

lemma GetUsernameAddress_first_record:
  fixes s :: fee_state
  assumes "IsUsernameValid name" and "findSPByTicker name (pDbSpInfo s) = p" and "p \<noteq> 0"
    and "mp_tally_map s = pre @ (a, t) # post" and "tallies_ok s"
    and "\<forall>e \<in> set (mp_tally_map s). 0 \<notin> fst ` set (mp_token (snd e))"
    and "\<forall>e \<in> set pre. p \<notin> fst ` set (mp_token (snd e))" and "p \<in> fst ` set (mp_token t)"
  shows "GetUsernameAddress s name = a"
proof -
  have ids: "set (tally_ids u) = fst ` set (mp_token u)" if "(b, u) \<in> set (mp_tally_map s)" for b u
  proof -
    have "tally_ok u" using that assms(5) by (auto simp: tallies_ok_def)
    moreover have "0 \<notin> fst ` set (mp_token u)" using bspec [OF assms(6) that] by simp
    ultimately show ?thesis by (simp add: tally_ids_keys)
  qed
  have "\<forall>(b, u) \<in> set pre. p \<notin> set (tally_ids u)" 
  proof (safe)
    fix b u assume "(b, u) \<in> set pre" and "p \<in> set (tally_ids u)"
    then show False using bspec [OF assms(7), of "(b, u)"] ids [of b u] assms(4) by simp
  qed
  moreover have "p \<in> set (tally_ids t)" using assms(4,8) ids [of a t] by simp
  ultimately show ?thesis
    using username_loop_finds [of pre p t a post] assms(1-4) by (simp add: GetUsernameAddress_def Let_def)
qed

text \<open>Here \<open>alice\<close> has given the name away: her balance is 0 and \<open>bob\<close> owns it.\<close>

end
