(* ===== verification/Doubles.thy ===== *)
theory Doubles
  imports Prelude
begin

text \<open>
  The double precision calculations of the token layer: non-negative IEEE 754 doubles as pairs of
  a mantissa and a binary exponent, with multiplication and division rounded to the nearest
  representable value, ties to even, and \<^verbatim>\<open>rounduint64\<close> of \<^verbatim>\<open>src/src/tokencore/convert.cpp\<close>.

  The calculations start from 64-bit integers and use at most one division and one product, so no
  exponent leaves the range of a normal double. The lemmas bound the error of a rounding and show that integers
  below \<open>2 ^ 53\<close> are exact.
\<close>

type_synonym double = "int \<times> int"

fun bits :: "nat \<Rightarrow> nat" where
  "bits n = (if n = 0 then 0 else Suc (bits (n div 2)))"

declare bits.simps [simp del]

definition round_even :: "int \<Rightarrow> int \<Rightarrow> int" where
  "round_even n d =
     (let q = n div d; r = n mod d in if 2 * r < d \<or> (2 * r = d \<and> even q) then q else q + 1)"

definition double_ratio :: "int \<Rightarrow> int \<Rightarrow> double" where
  "double_ratio n d =
     (if n = 0 then (0, 0)
      else
        let e = int (bits (nat n)) - int (bits (nat d)) - 53;
            n' = n * 2 ^ nat (- e);
            d' = d * 2 ^ nat e
        in if n' < d' * 2 ^ 53 then (round_even n' d', e) else (round_even n' (2 * d'), e + 1))"

definition double_of_uint64 :: "int \<Rightarrow> double" where
  "double_of_uint64 n = double_ratio n 1"

definition double_mult :: "double \<Rightarrow> double \<Rightarrow> double" where
  "double_mult x y = (let (m, e) = double_ratio (fst x * fst y) 1 in (m, e + snd x + snd y))"

definition double_div :: "double \<Rightarrow> double \<Rightarrow> double" where
  "double_div x y = (let (m, e) = double_ratio (fst x) (fst y) in (m, e + snd x - snd y))"

text \<open>\<^verbatim>\<open>roundl\<close> rounds halves away from zero.\<close>

definition rounduint64 :: "double \<Rightarrow> int" where
  "rounduint64 x =
     (let (m, e) = x
      in u64 (if e \<ge> 0 then m * 2 ^ nat e else (m + 2 ^ nat (- e - 1)) div 2 ^ nat (- e)))"

lemma round_even_error:
  assumes "0 < d"
  shows "2 * \<bar>round_even n d * d - n\<bar> \<le> d"
proof -
  define q r where "q = n div d" and "r = n mod d"
  have n: "n = q * d + r" and r: "0 \<le> r" "r < d" using assms by (simp_all add: q_def r_def)
  show ?thesis
    using r unfolding round_even_def Let_def q_def [symmetric] r_def [symmetric] n
    by (auto simp: algebra_simps)
qed

lemma round_even_exact: "0 < d \<Longrightarrow> round_even (k * d) d = k"
  by (simp add: round_even_def Let_def)

lemma bits_bounds: "0 < n \<Longrightarrow> 2 ^ (bits n - 1) \<le> n \<and> n < 2 ^ bits n \<and> 0 < bits n"
proof (induction n rule: bits.induct)
  case (1 n)
  show ?case
  proof (cases "n div 2 = 0")
    case True
    then have "bits n = 1" using 1 by (subst bits.simps) (simp add: bits.simps)
    then show ?thesis using 1 True by auto
  next
    case False
    then have IH: "2 ^ (bits (n div 2) - 1) \<le> n div 2" "n div 2 < 2 ^ bits (n div 2)" "0 < bits (n div 2)"
      using 1 by auto
    then obtain b where b: "bits (n div 2) = Suc b" by (cases "bits (n div 2)") auto
    have "bits n = Suc (Suc b)" using b 1(2) by (subst bits.simps) simp
    then show ?thesis using IH b by auto
  qed
qed

lemma double_of_uint64_exact:
  assumes "0 < n" and "n < 2 ^ 53"
  shows "fst (double_of_uint64 n) = n * 2 ^ nat (- snd (double_of_uint64 n)) \<and> snd (double_of_uint64 n) \<le> 0"
proof -
  define b where "b = bits (nat n)"
  have nn: "2 ^ (b - 1) \<le> nat n" "nat n < 2 ^ b" "0 < b" using bits_bounds [of "nat n"] assms(1) by (simp_all add: b_def)
  have b: "n < 2 ^ b" "0 < b" using nn(2,3) assms(1) by (simp_all add: nat_less_iff)
  have bits1: "bits (nat 1) = 1" by (simp add: bits.simps)
  have "2 ^ (b - 1) \<le> n" using nn(1) assms(1) by (simp add: le_nat_iff)
  then have "(2::int) ^ (b - 1) < 2 ^ 53" using assms by linarith
  then have b53: "b - 1 < 53" by (rule power_less_imp_less_exp [rotated]) simp
  define e where "e = int (bits (nat n)) - int (bits (nat 1)) - 53"
  have "e = int b - 54" using bits1 by (simp add: e_def b_def)
  then have e: "e < 0" "nat e = 0" using b53 b(2) by auto
  have run: "double_of_uint64 n = (if n * 2 ^ nat (- e) < 2 ^ 53 then (round_even (n * 2 ^ nat (- e)) 1, e)
      else (round_even (n * 2 ^ nat (- e)) 2, e + 1))"
    unfolding double_of_uint64_def double_ratio_def Let_def e_def [symmetric] e(2) using assms(1) by simp
  have "nat (- e) = Suc (nat (- (e + 1)))" using e(1) by simp
  then have twice: "n * 2 ^ nat (- e) = (n * 2 ^ nat (- (e + 1))) * 2" by simp
  have half: "round_even (n * 2 ^ nat (- e)) 2 = n * 2 ^ nat (- (e + 1))"
    unfolding twice by (rule round_even_exact) simp
  have whole: "round_even (n * 2 ^ nat (- e)) 1 = n * 2 ^ nat (- e)"
    using round_even_exact [of 1 "n * 2 ^ nat (- e)"] by simp
  show ?thesis
    unfolding run half whole using e(1) by (cases "n * 2 ^ nat (- e) < 2 ^ 53") simp_all
qed

end
