(* ===== verification/Dex.thy ===== *)
theory Dex
  imports Names Doubles
begin

text \<open>
  The exchange of tokens for RPD, \<^verbatim>\<open>src/src/tokencore/dex.{h,cpp}\<close>: sell offers, accepts, payments and
  the expiry of accepts.

  Offers and accepts are kept in maps whose keys are text, built as \<^verbatim>\<open>seller-property\<close> and
  \<^verbatim>\<open>seller-property+buyer\<close> and taken apart again by the lookups; the model keeps that. An operation returns the
  code the C++ function returns and the new state; \<open>None\<close> means that an assertion stopped the process. The
  two calculations in floating point that apply before feature 5 is live use theory \<open>Doubles\<close>.

  The invariant \<open>dex_ok\<close> states that reserves are backed: what an address has in its accept reserve
  is exactly the sum of its open accepts, and there is no sell-offer reserve without an offer.
  Every operation keeps it, keeps the supply, and is shown not to stop; the remaining lemmas give the
  price of a purchase, and the conditions under which a payment stops the node.
\<close>

abbreviation DEX_ERROR_SELLOFFER :: int where "DEX_ERROR_SELLOFFER \<equiv> - 10000"
abbreviation DEX_ERROR_ACCEPT :: int where "DEX_ERROR_ACCEPT \<equiv> - 20000"
abbreviation DEX_ERROR_PAYMENT :: int where "DEX_ERROR_PAYMENT \<equiv> - 30000"
abbreviation FEATURE_DEXMATH :: nat where "FEATURE_DEXMATH \<equiv> 5"

record CMPOffer =
  offerBlock :: int
  offer_amount_original :: int
  offer_property :: property_id
  offer_RPD_desired :: int
  offer_min_fee :: int
  offer_blocktimelimit :: nat
  offer_txid :: nat
  offer_subaction :: nat

record CMPAccept =
  accept_amount_original :: int
  accept_amount_remaining :: int
  accept_blocktimelimit :: nat
  accept_property :: property_id
  accept_offer_amount :: int
  accept_RPD_desired :: int
  accept_offer_txid :: nat
  accept_block :: int

text \<open>The arguments of \<^verbatim>\<open>recordPaymentTX\<close>.\<close>

record PaymentTX =
  pay_txid :: nat
  pay_valid :: bool
  pay_block :: int
  pay_vout :: nat
  pay_property :: property_id
  pay_amount :: int
  pay_buyer :: string
  pay_seller :: string

record dex_state = rules_state +
  my_offers :: "(string \<times> CMPOffer) list" \<comment> \<open>\<^verbatim>\<open>std::map\<close>\<close>
  my_accepts :: "(string \<times> CMPAccept) list" \<comment> \<open>\<^verbatim>\<open>std::map\<close>\<close>
  recordedPayments :: "PaymentTX list" \<comment> \<open>the calls of \<^verbatim>\<open>recordPaymentTX\<close>\<close>

definition STR_SELLOFFER_ADDR_PROP_COMBO :: "string \<Rightarrow> property_id \<Rightarrow> string" where
  "STR_SELLOFFER_ADDR_PROP_COMBO address propertyId = address @ ''-'' @ show_nat propertyId"

definition STR_ACCEPT_ADDR_PROP_ADDR_COMBO :: "string \<Rightarrow> string \<Rightarrow> property_id \<Rightarrow> string" where
  "STR_ACCEPT_ADDR_PROP_ADDR_COMBO seller buyer propertyId = seller @ ''-'' @ show_nat propertyId @ ''+'' @ buyer"

definition STR_PAYMENT_SUBKEY_TXID_PAYMENT_COMBO :: "string \<Rightarrow> nat \<Rightarrow> string" where
  "STR_PAYMENT_SUBKEY_TXID_PAYMENT_COMBO txidStr paymentNumber = txidStr @ ''-'' @ show_nat paymentNumber"

definition STR_REF_SUBKEY_TXID_REF_COMBO :: "string \<Rightarrow> nat \<Rightarrow> string" where
  "STR_REF_SUBKEY_TXID_REF_COMBO txidStr refNumber = txidStr @ show_nat refNumber"

definition new_accept :: "int \<Rightarrow> int \<Rightarrow> nat \<Rightarrow> property_id \<Rightarrow> int \<Rightarrow> int \<Rightarrow> nat \<Rightarrow> CMPAccept" where
  "new_accept amountAccepted blockIn paymentWindow propertyId offerAmountOriginal amountDesired txid =
     \<lparr>accept_amount_original = amountAccepted, accept_amount_remaining = amountAccepted,
      accept_blocktimelimit = paymentWindow, accept_property = propertyId, accept_offer_amount = offerAmountOriginal,
      accept_RPD_desired = amountDesired, accept_offer_txid = txid, accept_block = blockIn\<rparr>"

definition reduceAcceptAmountRemaining_andIsZero :: "int \<Rightarrow> CMPAccept \<Rightarrow> bool \<times> CMPAccept" where
  "reduceAcceptAmountRemaining_andIsZero really_purchased a =
     (really_purchased \<ge> accept_amount_remaining a,
      a\<lparr>accept_amount_remaining := s64 (accept_amount_remaining a - really_purchased)\<rparr>)"

subsection \<open>Lookups\<close>

definition DEx_offerExists :: "'s dex_state_scheme \<Rightarrow> string \<Rightarrow> property_id \<Rightarrow> bool" where
  "DEx_offerExists s addressSeller propertyId =
     (map_of (my_offers s) (STR_SELLOFFER_ADDR_PROP_COMBO addressSeller propertyId) \<noteq> None)"

text \<open>\<^verbatim>\<open>key.find(address) == 0\<close>.\<close>

definition starts_with :: "string \<Rightarrow> string \<Rightarrow> bool" where
  "starts_with key address \<longleftrightarrow> take (length address) key = address"

definition DEx_hasOffer :: "'s dex_state_scheme \<Rightarrow> string \<Rightarrow> bool" where
  "DEx_hasOffer s addressSeller = list_ex (\<lambda>offer. starts_with (fst offer) addressSeller) (my_offers s)"

text \<open>\<^verbatim>\<open>boost::lexical_cast<uint32_t>\<close> of text without a minus sign.\<close>

definition lexical_cast_u32 :: "string \<Rightarrow> nat option" where
  "lexical_cast_u32 t =
     (case read_nat (case t of c # ds \<Rightarrow> if c = CHR ''+'' then ds else t | [] \<Rightarrow> t) of
        Some n \<Rightarrow> if n < 2 ^ 32 then Some n else None
      | None \<Rightarrow> None)"

fun for_sale_loop :: "string \<Rightarrow> (string \<times> CMPOffer) list \<Rightarrow> property_id option" where
  "for_sale_loop addressSeller [] = None"
| "for_sale_loop addressSeller (offer # it) =
     (if starts_with (fst offer) addressSeller then
        (let vstr = split_any ''-'' (fst offer)
         in if length vstr \<noteq> 2 then None
            else case lexical_cast_u32 (vstr ! 1) of
                Some retTokenId \<Rightarrow> Some retTokenId
              | None \<Rightarrow> for_sale_loop addressSeller it)
      else for_sale_loop addressSeller it)"

definition DEx_getTokenForSale :: "'s dex_state_scheme \<Rightarrow> string \<Rightarrow> property_id option" where
  "DEx_getTokenForSale s addressSeller = for_sale_loop addressSeller (my_offers s)"

definition DEx_getOffer :: "'s dex_state_scheme \<Rightarrow> string \<Rightarrow> property_id \<Rightarrow> CMPOffer option" where
  "DEx_getOffer s addressSeller propertyId =
     map_of (my_offers s) (STR_SELLOFFER_ADDR_PROP_COMBO addressSeller propertyId)"

definition DEx_acceptExists :: "'s dex_state_scheme \<Rightarrow> string \<Rightarrow> property_id \<Rightarrow> string \<Rightarrow> bool" where
  "DEx_acceptExists s addressSeller propertyId addressBuyer =
     (map_of (my_accepts s) (STR_ACCEPT_ADDR_PROP_ADDR_COMBO addressSeller addressBuyer propertyId) \<noteq> None)"

definition DEx_getAccept :: "'s dex_state_scheme \<Rightarrow> string \<Rightarrow> property_id \<Rightarrow> string \<Rightarrow> CMPAccept option" where
  "DEx_getAccept s addressSeller propertyId addressBuyer =
     map_of (my_accepts s) (STR_ACCEPT_ADDR_PROP_ADDR_COMBO addressSeller addressBuyer propertyId)"

subsection \<open>Offers\<close>

text \<open>The product is one of 64-bit integers and wraps before it becomes a double.\<close>

definition legacy_calculateDesiredRPD :: "int \<Rightarrow> int \<Rightarrow> int \<Rightarrow> int" where
  "legacy_calculateDesiredRPD amountOffered amountDesired amountAvailable =
     (let nValue = u64 amountOffered;
          amount_des = u64 amountDesired;
          balanceReallyAvailable = u64 amountAvailable;
          RPD = double_of_uint64 (u64 (amount_des * balanceReallyAvailable))
      in s64 (rounduint64 (double_div RPD (double_of_uint64 nValue))))"

definition calculateDesiredRPD :: "int \<Rightarrow> int \<Rightarrow> int \<Rightarrow> int option" where
  "calculateDesiredRPD amountOffered amountDesired amountAvailable =
     (if amountOffered = 0 then Some 0
      else do {
        amountOffered256 \<leftarrow> ConvertTo256 amountOffered;
        amountDesired256 \<leftarrow> ConvertTo256 amountDesired;
        amountAvailable256 \<leftarrow> ConvertTo256 amountAvailable;
        q \<leftarrow> DivideAndRoundUp (mul256 amountDesired256 amountAvailable256) amountOffered256;
        ConvertTo64 q
      })"

text \<open>\<open>nAmended\<close> is the third result where the function may write through the pointer.\<close>

definition DEx_offerCreate :: "string \<Rightarrow> property_id \<Rightarrow> int \<Rightarrow> int \<Rightarrow> int \<Rightarrow> int \<Rightarrow> nat \<Rightarrow> nat
    \<Rightarrow> 's dex_state_scheme \<Rightarrow> (int \<times> 's dex_state_scheme \<times> int option) option" where
  "DEx_offerCreate addressSeller propertyId amountOffered block amountDesired minAcceptFee paymentWindow txid s =
     (if paymentWindow = 0 then Some (DEX_ERROR_SELLOFFER - 101, s, None)
      else if amountDesired = 0 then Some (DEX_ERROR_SELLOFFER - 101, s, None)
      else if DEx_getOffer s addressSeller propertyId \<noteq> None then Some (DEX_ERROR_SELLOFFER - 10, s, None)
      else if DEx_hasOffer s addressSeller then Some (DEX_ERROR_SELLOFFER - 10, s, None)
      else
        let key = STR_SELLOFFER_ADDR_PROP_COMBO addressSeller propertyId;
            balanceReallyAvailable = GetTokenBalance s addressSeller propertyId BALANCE
        in if IsFeatureActivated (consensusParams s) FEATURE_DEXMATH block \<and> amountOffered > balanceReallyAvailable
           then Some (DEX_ERROR_SELLOFFER - 25, s, None)
           else
             let (amountDesired', amountOffered', nAmended) =
               (if amountOffered > balanceReallyAvailable
                then (legacy_calculateDesiredRPD amountOffered amountDesired balanceReallyAvailable, balanceReallyAvailable, Some balanceReallyAvailable)
                else (amountDesired, amountOffered, None))
             in if amountOffered' > 0 then do {
                  s1 \<leftarrow> assert_update addressSeller propertyId (- amountOffered') BALANCE s;
                  s2 \<leftarrow> assert_update addressSeller propertyId amountOffered' SELLOFFER_RESERVE s1;
                  let sellOffer = \<lparr>offerBlock = block, offer_amount_original = amountOffered', offer_property = propertyId,
                    offer_RPD_desired = amountDesired', offer_min_fee = minAcceptFee, offer_blocktimelimit = paymentWindow,
                    offer_txid = txid, offer_subaction = 0\<rparr>;
                  Some (0, s2\<lparr>my_offers := smap_upd key sellOffer (my_offers s2)\<rparr>, nAmended)
                }
                else Some (DEX_ERROR_SELLOFFER, s, nAmended))"

definition DEx_offerDestroy :: "string \<Rightarrow> property_id \<Rightarrow> 's dex_state_scheme \<Rightarrow> (int \<times> 's dex_state_scheme) option" where
  "DEx_offerDestroy addressSeller propertyId s =
     (if \<not> DEx_offerExists s addressSeller propertyId then Some (DEX_ERROR_SELLOFFER - 11, s)
      else do {
        let amountReserved = GetTokenBalance s addressSeller propertyId SELLOFFER_RESERVE;
        s2 \<leftarrow> (if amountReserved > 0 then do {
            s1 \<leftarrow> assert_update addressSeller propertyId (- amountReserved) SELLOFFER_RESERVE s;
            assert_update addressSeller propertyId amountReserved BALANCE s1
          } else Some s);
        let key = STR_SELLOFFER_ADDR_PROP_COMBO addressSeller propertyId;
        Some (0, s2\<lparr>my_offers := smap_del key (my_offers s2)\<rparr>)
      })"

definition DEx_offerUpdate :: "string \<Rightarrow> property_id \<Rightarrow> int \<Rightarrow> int \<Rightarrow> int \<Rightarrow> int \<Rightarrow> nat \<Rightarrow> nat
    \<Rightarrow> 's dex_state_scheme \<Rightarrow> (int \<times> 's dex_state_scheme \<times> int option) option" where
  "DEx_offerUpdate addressSeller propertyId amountOffered block amountDesired minAcceptFee paymentWindow txid s =
     (if \<not> DEx_offerExists s addressSeller propertyId then Some (DEX_ERROR_SELLOFFER - 12, s, None)
      else do {
        (rc, s1) \<leftarrow> DEx_offerDestroy addressSeller propertyId s;
        if rc = 0
        then DEx_offerCreate addressSeller propertyId amountOffered block amountDesired minAcceptFee paymentWindow txid s1
        else Some (rc, s1, None)
      })"

subsection \<open>Accepts\<close>

definition DEx_acceptCreate :: "string \<Rightarrow> string \<Rightarrow> property_id \<Rightarrow> int \<Rightarrow> int \<Rightarrow> int
    \<Rightarrow> 's dex_state_scheme \<Rightarrow> (int \<times> 's dex_state_scheme \<times> int option) option" where
  "DEx_acceptCreate addressBuyer addressSeller propertyId amountAccepted block feePaid s =
     (let keySellOffer = STR_SELLOFFER_ADDR_PROP_COMBO addressSeller propertyId;
          keyAcceptOrder = STR_ACCEPT_ADDR_PROP_ADDR_COMBO addressSeller addressBuyer propertyId
      in case map_of (my_offers s) keySellOffer of
           None \<Rightarrow> Some (DEX_ERROR_ACCEPT - 15, s, None)
         | Some offer \<Rightarrow>
             if DEx_acceptExists s addressSeller propertyId addressBuyer then Some (DEX_ERROR_ACCEPT - 205, s, None)
             else if feePaid < offer_min_fee offer then Some (DEX_ERROR_ACCEPT - 105, s, None)
             else
               let amountRemainingForSale = GetTokenBalance s addressSeller propertyId SELLOFFER_RESERVE;
                   amountReserved = (if amountRemainingForSale \<ge> amountAccepted then amountAccepted else amountRemainingForSale)
               in if amountReserved > 0 then do {
                    s1 \<leftarrow> assert_update addressSeller propertyId (- amountReserved) SELLOFFER_RESERVE s;
                    s2 \<leftarrow> assert_update addressSeller propertyId amountReserved ACCEPT_RESERVE s1;
                    let acceptOffer = new_accept amountReserved block (offer_blocktimelimit offer) (offer_property offer)
                      (offer_amount_original offer) (offer_RPD_desired offer) (offer_txid offer);
                    Some (0, s2\<lparr>my_accepts := smap_upd keyAcceptOrder acceptOffer (my_accepts s2)\<rparr>, Some amountReserved)
                  }
                  else Some (DEX_ERROR_ACCEPT - 10, s, Some amountReserved))"

definition DEx_acceptDestroy :: "string \<Rightarrow> string \<Rightarrow> property_id \<Rightarrow> bool \<Rightarrow> 's dex_state_scheme
    \<Rightarrow> (int \<times> 's dex_state_scheme) option" where
  "DEx_acceptDestroy addressBuyer addressSeller propertyid fForceErase s =
     (case DEx_getAccept s addressSeller propertyid addressBuyer of
        None \<Rightarrow> Some (DEX_ERROR_ACCEPT - 20, s)
      | Some p_accept \<Rightarrow> do {
          let fReturnToMoney = (case DEx_getOffer s addressSeller propertyid of
              None \<Rightarrow> True
            | Some p_offer \<Rightarrow> offer_txid p_offer \<noteq> accept_offer_txid p_accept);
          let amountRemaining = accept_amount_remaining p_accept;
          s2 \<leftarrow> (if amountRemaining > 0 then
              (if fReturnToMoney then do {
                 s1 \<leftarrow> assert_update addressSeller propertyid (- amountRemaining) ACCEPT_RESERVE s;
                 assert_update addressSeller propertyid amountRemaining BALANCE s1
               } else do {
                 s1 \<leftarrow> assert_update addressSeller propertyid (- amountRemaining) ACCEPT_RESERVE s;
                 assert_update addressSeller propertyid amountRemaining SELLOFFER_RESERVE s1
               })
            else Some s);
          let key = STR_ACCEPT_ADDR_PROP_ADDR_COMBO addressSeller addressBuyer propertyid;
          Some (0, if fForceErase then s2\<lparr>my_accepts := smap_del key (my_accepts s2)\<rparr> else s2)
        })"

subsection \<open>Payments\<close>

definition legacy_calculateDExPurchase :: "int \<Rightarrow> int \<Rightarrow> int \<Rightarrow> int" where
  "legacy_calculateDExPurchase amountOffered amountDesired amountPaid =
     (let perc_X = double_div (double_of_uint64 (u64 amountPaid)) (double_of_uint64 (u64 amountDesired));
          Purchased = double_mult (double_of_uint64 (u64 amountOffered)) perc_X
      in s64 (rounduint64 Purchased))"

definition calculateDExPurchase :: "int \<Rightarrow> int \<Rightarrow> int \<Rightarrow> int option" where
  "calculateDExPurchase amountOffered amountDesired amountPaid = do {
     amountOffered256 \<leftarrow> ConvertTo256 amountOffered;
     amountDesired256 \<leftarrow> ConvertTo256 amountDesired;
     amountPaid256 \<leftarrow> ConvertTo256 amountPaid;
     amountPurchased256 \<leftarrow> DivideAndRoundUp (mul256 amountPaid256 amountOffered256) amountDesired256;
     ConvertTo64 amountPurchased256
   }"

text \<open>
  \<^verbatim>\<open>pDbSpInfo->getSP\<close> leaves the default entry when there is no property. The royalties are found in the
  payments of the transaction, and count as paid unless the seller receives them.
\<close>

definition royalties :: "'s dex_state_scheme \<Rightarrow> property_id \<Rightarrow> int \<Rightarrow> nat \<times> string \<times> int" where
  "royalties s propertyId amountDesired =
     (let royaltiesSP = (case getSP propertyId (pDbSpInfo s) of Some sp \<Rightarrow> sp | None \<Rightarrow> new_entry);
          royaltiesReceiver = (if IsUsernameValid (sp_royalties_receiver royaltiesSP)
            then GetUsernameAddress (fee_state.truncate s) (sp_royalties_receiver royaltiesSP)
            else sp_royalties_receiver royaltiesSP);
          percentage = sp_royalties_percentage royaltiesSP
      in (percentage, royaltiesReceiver, if percentage > 0 then sdiv64 (s64 (amountDesired * int percentage)) 100 else 0))"

definition DEx_payment :: "nat \<Rightarrow> nat \<Rightarrow> string \<Rightarrow> string \<Rightarrow> int \<Rightarrow> int \<Rightarrow> (string \<times> int) list
    \<Rightarrow> 's dex_state_scheme \<Rightarrow> (int \<times> 's dex_state_scheme \<times> int option) option" where
  "DEx_payment txid vout addressSeller addressBuyer amountPaid block payments s =
     (case DEx_getTokenForSale s addressSeller of
        None \<Rightarrow> Some (DEX_ERROR_PAYMENT - 1, s, None)
      | Some propertyId \<Rightarrow>
     (case DEx_getAccept s addressSeller propertyId addressBuyer of
        None \<Rightarrow> Some (DEX_ERROR_PAYMENT - 1, s, None)
      | Some p_accept \<Rightarrow>
          let amountDesired = accept_RPD_desired p_accept;
              amountOffered = accept_offer_amount p_accept
          in if amountDesired = 0 then Some (DEX_ERROR_PAYMENT - 2, s, None)
             else
               let (percentage, royaltiesReceiver, royaltiesAmount) = royalties s propertyId amountDesired
               in if percentage > 0 \<and> \<not> list_ex (\<lambda>p. fst p = royaltiesReceiver \<and> snd p \<ge> royaltiesAmount) payments
                  then Some (DEX_ERROR_PAYMENT - 3, s, None)
                  else do {
                    let amountPaid' = (if addressSeller \<noteq> royaltiesReceiver then s64 (amountPaid + royaltiesAmount) else amountPaid);
                    amountPurchased0 \<leftarrow> (if IsFeatureActivated (consensusParams s) FEATURE_DEXMATH block
                       then calculateDExPurchase amountOffered amountDesired amountPaid'
                       else Some (legacy_calculateDExPurchase amountOffered amountDesired amountPaid'));
                    let amountRemaining = accept_amount_remaining p_accept;
                    let (amountPurchased, nAmended) = (if amountRemaining < amountPurchased0 then (amountRemaining, Some amountRemaining)
                       else (amountPurchased0, None));
                    (rc, s1) \<leftarrow> (if amountPurchased > 0 then do {
                        t1 \<leftarrow> assert_update addressSeller propertyId (- amountPurchased) ACCEPT_RESERVE s;
                        t2 \<leftarrow> assert_update addressBuyer propertyId amountPurchased BALANCE t1;
                        Some (0, t2\<lparr>recordedPayments := recordedPayments t2 @
                          [\<lparr>pay_txid = txid, pay_valid = True, pay_block = block, pay_vout = vout, pay_property = propertyId,
                            pay_amount = amountPurchased, pay_buyer = addressBuyer, pay_seller = addressSeller\<rparr>]\<rparr>)
                      } else Some (DEX_ERROR_PAYMENT, s));
                    let (isZero, p_accept') = reduceAcceptAmountRemaining_andIsZero amountPurchased p_accept;
                    let key = STR_ACCEPT_ADDR_PROP_ADDR_COMBO addressSeller addressBuyer propertyId;
                    let s2 = s1\<lparr>my_accepts := smap_upd key p_accept' (my_accepts s1)\<rparr>;
                    if isZero then do {
                      let reserveSell = GetTokenBalance s2 addressSeller propertyId SELLOFFER_RESERVE;
                      let reserveAccept = GetTokenBalance s2 addressSeller propertyId ACCEPT_RESERVE;
                      (_, s3) \<leftarrow> DEx_acceptDestroy addressBuyer addressSeller propertyId True s2;
                      if reserveSell = 0 \<and> reserveAccept = 0 then do {
                        (_, s4) \<leftarrow> DEx_offerDestroy addressSeller propertyId s3;
                        Some (rc, s4, nAmended)
                      } else Some (rc, s3, nAmended)
                    } else Some (rc, s2, nAmended)
                  }))"

subsection \<open>Expiry\<close>

text \<open>\<^verbatim>\<open>atoi\<close> on leading digits, with a 64-bit \<^verbatim>\<open>long\<close> cut to 32 bits.\<close>

definition atoi_u32 :: "string \<Rightarrow> nat" where
  "atoi_u32 t = foldl (\<lambda>n c. 10 * n + digit_value c) 0 (takeWhile is_digit t) mod 2 ^ 32"

text \<open>The iterator runs over the accepts in key order; erasing the current one leaves the rest.\<close>

fun expired_loop :: "int \<Rightarrow> (string \<times> CMPAccept) list \<Rightarrow> nat \<Rightarrow> 's dex_state_scheme \<Rightarrow> (nat \<times> 's dex_state_scheme) option" where
  "expired_loop blockNow [] how_many_erased s = Some (how_many_erased, s)"
| "expired_loop blockNow ((key, acceptOrder) # it) how_many_erased s =
     (if blockNow - accept_block acceptOrder \<ge> int (accept_blocktimelimit acceptOrder) then
        (case split_any ''-+'' key of
           addressSeller # property # addressBuyer # _ \<Rightarrow> do {
             (_, s1) \<leftarrow> DEx_acceptDestroy addressBuyer addressSeller (atoi_u32 property) False s;
             expired_loop blockNow it (how_many_erased + 1) (s1\<lparr>my_accepts := smap_del key (my_accepts s1)\<rparr>)
           }
         | _ \<Rightarrow> None)
      else expired_loop blockNow it how_many_erased s)"

definition eraseExpiredAccepts :: "int \<Rightarrow> 's dex_state_scheme \<Rightarrow> (nat \<times> 's dex_state_scheme) option" where
  "eraseExpiredAccepts blockNow s = expired_loop blockNow (my_accepts s) 0 s"

subsection \<open>Keys\<close>

text \<open>Addresses contain no separator.\<close>

definition addr_ok :: "string \<Rightarrow> bool" where
  "addr_ok a \<longleftrightarrow> CHR ''-'' \<notin> set a \<and> CHR ''+'' \<notin> set a"

lemma digit_not_sep: "is_digit c \<Longrightarrow> c \<noteq> CHR ''-'' \<and> c \<noteq> CHR ''+''"
  by (auto simp: is_digit_def)

lemma show_nat_seps: "c \<in> set (show_nat n) \<Longrightarrow> c \<noteq> CHR ''-'' \<and> c \<noteq> CHR ''+''"
  using show_nat_no_sep digit_not_sep by blast

lemma show_nat_hd: "show_nat n \<noteq> []" "hd (show_nat n) \<noteq> CHR ''-''" "hd (show_nat n) \<noteq> CHR ''+''"
  using show_nat_digits [of n] show_nat_seps [of "hd (show_nat n)" n] by auto

lemma split_accept_key:
  assumes "addr_ok seller" and "addr_ok buyer"
  shows "split_any ''-+'' (STR_ACCEPT_ADDR_PROP_ADDR_COMBO seller buyer p) = [seller, show_nat p, buyer]"
proof -
  define sep where "sep = (\<lambda>c. c \<in> set ''-+'')"
  have sep: "sep c \<longleftrightarrow> c = CHR ''-'' \<or> c = CHR ''+''" for c by (auto simp: sep_def)
  have seller: "\<forall>c \<in> set seller. \<not> sep c" and buyer: "\<forall>c \<in> set buyer. \<not> sep c"
    using assms by (auto simp: addr_ok_def sep)
  have num: "\<forall>c \<in> set (show_nat p). \<not> sep c" using show_nat_seps by (auto simp: sep)
  have "split_from sep [] (seller @ CHR ''-'' # show_nat p @ CHR ''+'' # buyer)
      = seller # split_from sep [] (show_nat p @ CHR ''+'' # buyer)"
    using show_nat_hd [of p] by (intro split_from_sep [OF seller]) (auto simp: sep)
  also have "split_from sep [] (show_nat p @ CHR ''+'' # buyer) = show_nat p # split_from sep [] buyer"
  proof (rule split_from_sep [OF num])
    show "sep (CHR ''+'')" by (simp add: sep)
    show "buyer = [] \<or> \<not> sep (hd buyer)" using buyer hd_in_set by blast
  qed
  also have "split_from sep [] buyer = [buyer]" using split_from_last [OF buyer, of "[]"] by simp
  finally show ?thesis
    unfolding split_any_def STR_ACCEPT_ADDR_PROP_ADDR_COMBO_def sep_def [symmetric] append_Cons append_Nil .
qed

lemma split_offer_key:
  assumes "addr_ok seller"
  shows "split_any ''-'' (STR_SELLOFFER_ADDR_PROP_COMBO seller p) = [seller, show_nat p]"
proof -
  define sep where "sep = (\<lambda>c. c \<in> set ''-'')"
  have sep: "sep c \<longleftrightarrow> c = CHR ''-''" for c by (auto simp: sep_def)
  have seller: "\<forall>c \<in> set seller. \<not> sep c" using assms by (auto simp: addr_ok_def sep)
  have num: "\<forall>c \<in> set (show_nat p). \<not> sep c" using show_nat_seps by (auto simp: sep)
  have "split_from sep [] (seller @ CHR ''-'' # show_nat p) = seller # split_from sep [] (show_nat p)"
    using show_nat_hd [of p] by (intro split_from_sep [OF seller]) (auto simp: sep)
  also have "split_from sep [] (show_nat p) = [show_nat p]" using split_from_last [OF num, of "[]"] by simp
  finally show ?thesis
    unfolding split_any_def STR_SELLOFFER_ADDR_PROP_COMBO_def sep_def [symmetric] append_Cons append_Nil .
qed

lemma accept_key_inj [simp]:
  assumes "addr_ok a" and "addr_ok b" and "addr_ok c" and "addr_ok d"
  shows "STR_ACCEPT_ADDR_PROP_ADDR_COMBO a b p = STR_ACCEPT_ADDR_PROP_ADDR_COMBO c d q \<longleftrightarrow> a = c \<and> b = d \<and> p = q"
proof
  assume "STR_ACCEPT_ADDR_PROP_ADDR_COMBO a b p = STR_ACCEPT_ADDR_PROP_ADDR_COMBO c d q"
  then have "[a, show_nat p, b] = [c, show_nat q, d]"
    unfolding split_accept_key [OF assms(1,2), symmetric] split_accept_key [OF assms(3,4), symmetric] by (rule arg_cong)
  then show "a = c \<and> b = d \<and> p = q" by simp
qed simp

lemma offer_key_inj [simp]:
  assumes "addr_ok a" and "addr_ok b"
  shows "STR_SELLOFFER_ADDR_PROP_COMBO a p = STR_SELLOFFER_ADDR_PROP_COMBO b q \<longleftrightarrow> a = b \<and> p = q"
proof
  assume "STR_SELLOFFER_ADDR_PROP_COMBO a p = STR_SELLOFFER_ADDR_PROP_COMBO b q"
  then have "[a, show_nat p] = [b, show_nat q]"
    unfolding split_offer_key [OF assms(1), symmetric] split_offer_key [OF assms(2), symmetric] by (rule arg_cong)
  then show "a = b \<and> p = q" by simp
qed simp

lemma cast_show_nat [simp]:
  assumes "p < 2 ^ 32"
  shows "lexical_cast_u32 (show_nat p) = Some p" and "atoi_u32 (show_nat p) = p"
proof -
  have "(case show_nat p of c # ds \<Rightarrow> if c = CHR ''+'' then ds else show_nat p | [] \<Rightarrow> show_nat p) = show_nat p"
    using show_nat_hd [of p] by (auto split: list.split)
  then show "lexical_cast_u32 (show_nat p) = Some p" using assms by (simp add: lexical_cast_u32_def)
  have "takeWhile is_digit (show_nat p) = show_nat p" by (rule iffD2 [OF takeWhile_eq_all_conv]) (blast intro: show_nat_no_sep)
  then show "atoi_u32 (show_nat p) = p" using assms unfolding atoi_u32_def by (simp only: read_show_fold mod_less)
qed

subsection \<open>The exchange invariant\<close>

definition accept_of :: "string \<Rightarrow> string \<Rightarrow> property_id \<Rightarrow> bool" where
  "accept_of k a p \<longleftrightarrow> take 2 (split_any ''-+'' k) = [a, show_nat p]"

definition accepted :: "(string \<times> CMPAccept) list \<Rightarrow> string \<Rightarrow> property_id \<Rightarrow> int" where
  "accepted A a p = (\<Sum>(k, acc)\<leftarrow>A. if accept_of k a p then accept_amount_remaining acc else 0)"

definition offer_ok :: "string \<Rightarrow> CMPOffer \<Rightarrow> bool" where
  "offer_ok k o' \<longleftrightarrow> (\<exists>a p. addr_ok a \<and> p < 2 ^ 32 \<and> k = STR_SELLOFFER_ADDR_PROP_COMBO a p \<and> offer_property o' = p)"

definition accept_ok :: "string \<Rightarrow> CMPAccept \<Rightarrow> bool" where
  "accept_ok k acc \<longleftrightarrow> 0 \<le> accept_amount_remaining acc \<and> (\<exists>a p b. addr_ok a \<and> addr_ok b \<and> p < 2 ^ 32
     \<and> k = STR_ACCEPT_ADDR_PROP_ADDR_COMBO a b p \<and> accept_property acc = p)"

text \<open>The maps against the balances.\<close>

definition dex_maps_ok :: "(string \<Rightarrow> property_id \<Rightarrow> TallyType \<Rightarrow> int) \<Rightarrow> (string \<times> CMPOffer) list \<Rightarrow> (string \<times> CMPAccept) list \<Rightarrow> bool" where
  "dex_maps_ok bal F A \<longleftrightarrow> smap_ok F \<and> smap_ok A
     \<and> (\<forall>k o'. map_of F k = Some o' \<longrightarrow> offer_ok k o') \<and> (\<forall>k acc. map_of A k = Some acc \<longrightarrow> accept_ok k acc)
     \<and> (\<forall>a p. addr_ok a \<longrightarrow> bal a p ACCEPT_RESERVE = accepted A a p)
     \<and> (\<forall>a p. addr_ok a \<longrightarrow> 0 < bal a p SELLOFFER_RESERVE \<longrightarrow> map_of F (STR_SELLOFFER_ADDR_PROP_COMBO a p) \<noteq> None)"

definition dex_ok :: "'s dex_state_scheme \<Rightarrow> bool" where
  "dex_ok s \<longleftrightarrow> ledger_ok s \<and> dex_maps_ok (GetTokenBalance s) (my_offers s) (my_accepts s)"

lemma dex_frame [simp]:
  "GetTokenBalance (s\<lparr>my_offers := x\<rparr>) = GetTokenBalance s" "GetTokenBalance (s\<lparr>my_accepts := y\<rparr>) = GetTokenBalance s"
  "GetTokenBalance (s\<lparr>recordedPayments := z\<rparr>) = GetTokenBalance s"
  "ledger_ok (s\<lparr>my_offers := x\<rparr>) = ledger_ok s" "ledger_ok (s\<lparr>my_accepts := y\<rparr>) = ledger_ok s"
  "ledger_ok (s\<lparr>recordedPayments := z\<rparr>) = ledger_ok s"
  "token_supply (s\<lparr>my_offers := x\<rparr>) = token_supply s" "token_supply (s\<lparr>my_accepts := y\<rparr>) = token_supply s"
  "token_supply (s\<lparr>recordedPayments := z\<rparr>) = token_supply s"
  by (simp_all add: fun_eq_iff GetTokenBalance_def ledger_ok_def tallies_ok_def token_supply_def)

lemma accept_of_key [simp]:
  assumes "addr_ok a" and "addr_ok b"
  shows "accept_of (STR_ACCEPT_ADDR_PROP_ADDR_COMBO a b p) c q \<longleftrightarrow> c = a \<and> q = p"
  unfolding accept_of_def split_accept_key [OF assms] by auto

lemma accepted_upd:
  assumes "smap_ok A" and "addr_ok a" and "addr_ok b"
  shows "accepted (smap_upd (STR_ACCEPT_ADDR_PROP_ADDR_COMBO a b p) acc A) c q = accepted A c q
    + (if c = a \<and> q = p then accept_amount_remaining acc
       - (case map_of A (STR_ACCEPT_ADDR_PROP_ADDR_COMBO a b p) of None \<Rightarrow> 0 | Some old \<Rightarrow> accept_amount_remaining old) else 0)"
  using assms(2,3) unfolding accepted_def smap.sum_upd [OF assms(1)] by (auto split: option.split)

lemma accepted_del:
  assumes "smap_ok A" and "addr_ok a" and "addr_ok b"
  shows "accepted (smap_del (STR_ACCEPT_ADDR_PROP_ADDR_COMBO a b p) A) c q = accepted A c q
    - (if c = a \<and> q = p then (case map_of A (STR_ACCEPT_ADDR_PROP_ADDR_COMBO a b p) of None \<Rightarrow> 0
       | Some old \<Rightarrow> accept_amount_remaining old) else 0)"
  using assms(2,3) unfolding accepted_def smap.sum_del [OF assms(1)] by (auto split: option.split)

lemma accepted_ge:
  assumes "dex_maps_ok bal F A" and "map_of A (STR_ACCEPT_ADDR_PROP_ADDR_COMBO a b p) = Some acc" and "addr_ok a" and "addr_ok b"
  shows "accept_amount_remaining acc \<le> bal a p ACCEPT_RESERVE"
proof -
  let ?f = "\<lambda>(k, acc). if accept_of k a p then accept_amount_remaining acc else 0"
  have sm: "smap_ok A" using assms(1) by (simp add: dex_maps_ok_def)
  have nonneg: "0 \<le> ?f e" if "e \<in> set A" for e
  proof -
    obtain k ac where e: "e = (k, ac)" by (cases e)
    then have "accept_ok k ac" using that assms(1) smap.member_lookup [OF sm] by (simp add: dex_maps_ok_def)
    then show ?thesis using e by (simp add: accept_ok_def)
  qed
  have "(STR_ACCEPT_ADDR_PROP_ADDR_COMBO a b p, acc) \<in> set A" using assms(2) smap.member_lookup [OF sm] by simp
  from sum_list_member_le [OF _ this, of ?f] have "accept_amount_remaining acc \<le> accepted A a p"
    using nonneg assms(3,4) by (simp add: accepted_def)
  then show ?thesis using assms(1,3) by (simp add: dex_maps_ok_def)
qed

lemma dex_maps_upd:
  assumes "dex_maps_ok bal F A" and "smap_ok F'" and "smap_ok A'"
    and "\<And>k o'. map_of F' k = Some o' \<Longrightarrow> map_of F k = Some o' \<or> offer_ok k o'"
    and "\<And>k acc. map_of A' k = Some acc \<Longrightarrow> map_of A k = Some acc \<or> accept_ok k acc"
    and "\<And>a p. addr_ok a \<Longrightarrow> bal' a p ACCEPT_RESERVE - bal a p ACCEPT_RESERVE = accepted A' a p - accepted A a p"
    and "\<And>a p. addr_ok a \<Longrightarrow> 0 < bal' a p SELLOFFER_RESERVE \<Longrightarrow> map_of F' (STR_SELLOFFER_ADDR_PROP_COMBO a p) \<noteq> None"
  shows "dex_maps_ok bal' F' A'"
  unfolding dex_maps_ok_def
proof (intro conjI allI impI)
  fix k o' assume "map_of F' k = Some o'"
  from assms(4) [OF this] show "offer_ok k o'" using assms(1) by (auto simp: dex_maps_ok_def)
next
  fix k acc assume "map_of A' k = Some acc"
  from assms(5) [OF this] show "accept_ok k acc" using assms(1) by (auto simp: dex_maps_ok_def)
next
  fix a p assume a: "addr_ok a"
  then have "bal a p ACCEPT_RESERVE = accepted A a p" using assms(1) by (simp add: dex_maps_ok_def)
  then show "bal' a p ACCEPT_RESERVE = accepted A' a p" using assms(6) [OF a, of p] by simp
qed (use assms in auto)

lemma dex_sell_offer:
  "dex_maps_ok bal F A \<Longrightarrow> addr_ok a \<Longrightarrow> 0 < bal a p SELLOFFER_RESERVE \<Longrightarrow> map_of F (STR_SELLOFFER_ADDR_PROP_COMBO a p) \<noteq> None"
  by (simp add: dex_maps_ok_def)

lemma dex_maps_smap: "dex_maps_ok bal F A \<Longrightarrow> smap_ok F \<and> smap_ok A"
  by (simp add: dex_maps_ok_def)

text \<open>What every operation keeps: the invariant and the supply of every property.\<close>

definition dex_keeps :: "'s dex_state_scheme \<Rightarrow> 's dex_state_scheme \<Rightarrow> bool" where
  "dex_keeps s s' \<longleftrightarrow> dex_ok s' \<and> (\<forall>q. token_supply s' q = token_supply s q)
     \<and> (\<forall>a q. isAddressFrozen s' a q = isAddressFrozen s a q) \<and> consensusParams s' = consensusParams s"

lemma dex_keeps_refl: "dex_ok s \<Longrightarrow> dex_keeps s s"
  by (simp add: dex_keeps_def)

lemma dex_keeps_trans: "dex_keeps s t \<Longrightarrow> dex_keeps t u \<Longrightarrow> dex_keeps s u"
  by (simp add: dex_keeps_def)

subsection \<open>Offers\<close>

definition offer_acceptable :: "'s dex_state_scheme \<Rightarrow> string \<Rightarrow> property_id \<Rightarrow> int \<Rightarrow> int \<Rightarrow> nat \<Rightarrow> bool" where
  "offer_acceptable s a p x d w \<longleftrightarrow> w \<noteq> 0 \<and> d \<noteq> 0 \<and> \<not> DEx_hasOffer s a \<and> 0 < x \<and> x \<le> GetTokenBalance s a p BALANCE"

lemma getOffer_hasOffer: "DEx_getOffer s a p \<noteq> None \<Longrightarrow> DEx_hasOffer s a"
  unfolding DEx_getOffer_def DEx_hasOffer_def
  by (auto simp: list_ex_iff starts_with_def STR_SELLOFFER_ADDR_PROP_COMBO_def dest!: map_of_SomeD
      intro!: bexI [of _ "(a @ ''-'' @ show_nat p, _)"])

lemma offerCreate_refused:
  assumes "IsFeatureActivated (consensusParams s) FEATURE_DEXMATH b" and "\<not> offer_acceptable s a p x d w"
  shows "\<exists>rc < 0. DEx_offerCreate a p x b d fee w txid s = Some (rc, s, None)"
  using assms unfolding DEx_offerCreate_def offer_acceptable_def Let_def by (simp add: linorder_not_le) blast

abbreviation created_offer :: "int \<Rightarrow> property_id \<Rightarrow> int \<Rightarrow> int \<Rightarrow> int \<Rightarrow> nat \<Rightarrow> nat \<Rightarrow> CMPOffer" where
  "created_offer b p x d fee w txid \<equiv> \<lparr>offerBlock = b, offer_amount_original = x, offer_property = p, offer_RPD_desired = d,
     offer_min_fee = fee, offer_blocktimelimit = w, offer_txid = txid, offer_subaction = 0\<rparr>"

lemma offerCreate_accepted:
  fixes s :: "'s dex_state_scheme"
  assumes "dex_ok s" and "addr_ok a" and "p < 2 ^ 32" and "\<not> isAddressFrozen s a p" and "offer_acceptable s a p x d w"
  shows "\<exists>s'. DEx_offerCreate a p x b d fee w txid s = Some (0, s', None) \<and> dex_keeps s s'
    \<and> my_offers s' = smap_upd (STR_SELLOFFER_ADDR_PROP_COMBO a p) (created_offer b p x d fee w txid) (my_offers s)
    \<and> my_accepts s' = my_accepts s
    \<and> (\<forall>c q v. GetTokenBalance s' c q v = GetTokenBalance s c q v
        - (if c = a \<and> q = p \<and> v = BALANCE then x else 0) + (if c = a \<and> q = p \<and> v = SELLOFFER_RESERVE then x else 0))"
proof -
  have ok: "ledger_ok s" "dex_maps_ok (GetTokenBalance s) (my_offers s) (my_accepts s)" using assms(1) by (simp_all add: dex_ok_def)
  have x: "0 < x" "x \<le> GetTokenBalance s a p BALANCE" using assms(5) by (simp_all add: offer_acceptable_def)
  from transfer [OF ok(1) x, of SELLOFFER_RESERVE a] assms(4)
  obtain s1 m where m: "assert_update a p (- x) BALANCE s = Some s1"
      "assert_update a p x SELLOFFER_RESERVE s1 = Some (s\<lparr>mp_tally_map := m\<rparr>)"
      "ledger_ok (s\<lparr>mp_tally_map := m\<rparr>)" "\<And>q. token_supply (s\<lparr>mp_tally_map := m\<rparr>) q = token_supply s q"
      and bal: "\<And>c q v. GetTokenBalance (s\<lparr>mp_tally_map := m\<rparr>) c q v = GetTokenBalance s c q v
        - (if c = a \<and> q = p \<and> v = BALANCE then x else 0) + (if c = a \<and> q = p \<and> v = SELLOFFER_RESERVE then x else 0)"
    by (metis counted_simps(1,2))
  define O' where "O' = smap_upd (STR_SELLOFFER_ADDR_PROP_COMBO a p) (created_offer b p x d fee w txid) (my_offers s)"
  define s' where "s' = s\<lparr>mp_tally_map := m, my_offers := O'\<rparr>"
  have none: "DEx_getOffer s a p = None" using assms(5) getOffer_hasOffer [of s a p] unfolding offer_acceptable_def by blast
  have run: "DEx_offerCreate a p x b d fee w txid s = Some (0, s', None)"
    using assms(5) none m(1,2) unfolding DEx_offerCreate_def offer_acceptable_def Let_def by (simp add: s'_def O'_def)
  have "dex_maps_ok (GetTokenBalance s') (my_offers s') (my_accepts s')"
  proof (rule dex_maps_upd [OF ok(2)])
    show "smap_ok (my_offers s')" "smap_ok (my_accepts s')" using dex_maps_smap [OF ok(2)] by (simp_all add: s'_def O'_def smap_ok_upd)
    show "map_of (my_offers s) k = Some o' \<or> offer_ok k o'" if "map_of (my_offers s') k = Some o'" for k o'
      using that assms(2,3) by (auto simp: s'_def O'_def map_of_smap_upd offer_ok_def split: if_splits)
    show "map_of (my_accepts s) k = Some acc \<or> accept_ok k acc" if "map_of (my_accepts s') k = Some acc" for k acc
      using that by (simp add: s'_def)
    show "GetTokenBalance s' c q ACCEPT_RESERVE - GetTokenBalance s c q ACCEPT_RESERVE = accepted (my_accepts s') c q - accepted (my_accepts s) c q" for c q
      by (simp add: s'_def bal)
    show "map_of (my_offers s') (STR_SELLOFFER_ADDR_PROP_COMBO c q) \<noteq> None" if "addr_ok c" "0 < GetTokenBalance s' c q SELLOFFER_RESERVE" for c q
      using that dex_sell_offer [OF ok(2) that(1), of q] assms(2)
      by (auto simp: s'_def O'_def bal map_of_smap_upd split: if_splits)
  qed
  then have "dex_keeps s s'" using m(3,4) by (simp add: dex_keeps_def dex_ok_def s'_def isAddressFrozen_def)
  with run show ?thesis by (intro exI [of _ s'] conjI) (simp_all add: s'_def O'_def bal)
qed

lemma offerDestroy_ok:
  fixes s :: "'s dex_state_scheme"
  assumes "dex_ok s" and "addr_ok a" and "DEx_offerExists s a p"
  shows "\<exists>s'. DEx_offerDestroy a p s = Some (0, s') \<and> dex_keeps s s'
    \<and> my_offers s' = smap_del (STR_SELLOFFER_ADDR_PROP_COMBO a p) (my_offers s) \<and> my_accepts s' = my_accepts s
    \<and> (\<forall>c q v. GetTokenBalance s' c q v = GetTokenBalance s c q v
        - (if c = a \<and> q = p \<and> v = SELLOFFER_RESERVE then GetTokenBalance s a p SELLOFFER_RESERVE else 0)
        + (if c = a \<and> q = p \<and> v = BALANCE then GetTokenBalance s a p SELLOFFER_RESERVE else 0))"
proof -
  let ?x = "GetTokenBalance s a p SELLOFFER_RESERVE" and ?k = "STR_SELLOFFER_ADDR_PROP_COMBO a p"
  have ok: "ledger_ok s" "dex_maps_ok (GetTokenBalance s) (my_offers s) (my_accepts s)" using assms(1) by (simp_all add: dex_ok_def)
  have nonneg: "0 \<le> ?x" by (rule balance_nonneg) (simp_all add: ok)
  obtain m where m: "(if ?x > 0 then assert_update a p (- ?x) SELLOFFER_RESERVE s \<bind> assert_update a p ?x BALANCE else Some s)
        = Some (s\<lparr>mp_tally_map := m\<rparr>)"
      "ledger_ok (s\<lparr>mp_tally_map := m\<rparr>)" "\<And>q. token_supply (s\<lparr>mp_tally_map := m\<rparr>) q = token_supply s q"
      and bal: "\<And>c q v. GetTokenBalance (s\<lparr>mp_tally_map := m\<rparr>) c q v = GetTokenBalance s c q v
        - (if c = a \<and> q = p \<and> v = SELLOFFER_RESERVE then ?x else 0) + (if c = a \<and> q = p \<and> v = BALANCE then ?x else 0)"
    by (rule transfer_if [OF ok(1) nonneg order_refl, of BALANCE a]) simp_all
  define s' where "s' = s\<lparr>mp_tally_map := m, my_offers := smap_del ?k (my_offers s)\<rparr>"
  have run: "DEx_offerDestroy a p s = Some (0, s')"
    using assms(3) unfolding DEx_offerDestroy_def Let_def m(1) by (simp add: s'_def)
  have "dex_maps_ok (GetTokenBalance s') (my_offers s') (my_accepts s')"
  proof (rule dex_maps_upd [OF ok(2)])
    show sm: "smap_ok (my_offers s')" "smap_ok (my_accepts s')" using dex_maps_smap [OF ok(2)] by (simp_all add: s'_def smap.ok_del)
    show "map_of (my_offers s) k = Some o' \<or> offer_ok k o'" if "map_of (my_offers s') k = Some o'" for k o'
      using that dex_maps_smap [OF ok(2)] by (auto simp: s'_def smap.lookup_del split: if_splits)
    show "map_of (my_accepts s) k = Some acc \<or> accept_ok k acc" if "map_of (my_accepts s') k = Some acc" for k acc
      using that by (simp add: s'_def)
    show "GetTokenBalance s' c q ACCEPT_RESERVE - GetTokenBalance s c q ACCEPT_RESERVE = accepted (my_accepts s') c q - accepted (my_accepts s) c q" for c q
      by (simp add: s'_def bal)
    show "map_of (my_offers s') (STR_SELLOFFER_ADDR_PROP_COMBO c q) \<noteq> None" if "addr_ok c" "0 < GetTokenBalance s' c q SELLOFFER_RESERVE" for c q
      using that dex_sell_offer [OF ok(2) that(1), of q] assms(2) dex_maps_smap [OF ok(2)]
      by (auto simp: s'_def bal smap.lookup_del split: if_splits)
  qed
  then have "dex_keeps s s'" using m(2,3) by (simp add: dex_keeps_def dex_ok_def s'_def isAddressFrozen_def)
  with run show ?thesis by (intro exI [of _ s'] conjI) (simp_all add: s'_def bal)
qed

lemma offerCreate_keeps:
  fixes s :: "'s dex_state_scheme"
  assumes "dex_ok s" and "addr_ok a" and "p < 2 ^ 32" and "\<not> isAddressFrozen s a p"
    and "IsFeatureActivated (consensusParams s) FEATURE_DEXMATH b"
  shows "\<exists>rc s'. DEx_offerCreate a p x b d fee w txid s = Some (rc, s', None) \<and> dex_keeps s s'"
  using offerCreate_accepted [OF assms(1-4)] offerCreate_refused [OF assms(5)] dex_keeps_refl [OF assms(1)] by meson

lemma offerDestroy_keeps:
  fixes s :: "'s dex_state_scheme"
  assumes "dex_ok s" and "addr_ok a"
  shows "\<exists>rc s'. DEx_offerDestroy a p s = Some (rc, s') \<and> dex_keeps s s'"
proof (cases "DEx_offerExists s a p")
  case True
  with offerDestroy_ok [OF assms] show ?thesis by blast
qed (simp add: DEx_offerDestroy_def dex_keeps_refl [OF assms(1)])

lemma offerUpdate_keeps:
  fixes s :: "'s dex_state_scheme"
  assumes "dex_ok s" and "addr_ok a" and "p < 2 ^ 32" and "\<not> isAddressFrozen s a p"
    and "IsFeatureActivated (consensusParams s) FEATURE_DEXMATH b"
  shows "\<exists>rc s'. DEx_offerUpdate a p x b d fee w txid s = Some (rc, s', None) \<and> dex_keeps s s'"
proof (cases "DEx_offerExists s a p")
  case True
  from offerDestroy_ok [OF assms(1,2) this] obtain s1 where s1: "DEx_offerDestroy a p s = Some (0, s1)" "dex_keeps s s1" by blast
  then have "dex_ok s1" "\<not> isAddressFrozen s1 a p" "IsFeatureActivated (consensusParams s1) FEATURE_DEXMATH b"
    using assms(4,5) by (simp_all add: dex_keeps_def)
  from offerCreate_keeps [OF this(1) assms(2,3) this(2,3)] obtain rc s2
    where "DEx_offerCreate a p x b d fee w txid s1 = Some (rc, s2, None)" "dex_keeps s1 s2" by blast
  then show ?thesis using s1 True dex_keeps_trans [OF s1(2)] by (simp add: DEx_offerUpdate_def)
qed (simp add: DEx_offerUpdate_def dex_keeps_refl [OF assms(1)])

subsection \<open>Accepts\<close>

lemma offer_property_key:
  assumes "dex_maps_ok bal F A" and "map_of F (STR_SELLOFFER_ADDR_PROP_COMBO a p) = Some o'" and "addr_ok a"
  shows "offer_property o' = p" and "p < 2 ^ 32"
proof -
  have "offer_ok (STR_SELLOFFER_ADDR_PROP_COMBO a p) o'" using assms(1,2) by (simp add: dex_maps_ok_def)
  then show "offer_property o' = p" and "p < 2 ^ 32" using assms(3) unfolding offer_ok_def by (metis offer_key_inj)+
qed

lemma acceptCreate_accepted:
  fixes s :: "'s dex_state_scheme"
  assumes "dex_ok s" and "addr_ok seller" and "addr_ok buyer" and "DEx_getOffer s seller p = Some o'"
    and "\<not> DEx_acceptExists s seller p buyer" and "offer_min_fee o' \<le> fee"
    and y: "y = min x (GetTokenBalance s seller p SELLOFFER_RESERVE)" "0 < y"
  shows "\<exists>s'. DEx_acceptCreate buyer seller p x b fee s = Some (0, s', Some y) \<and> dex_keeps s s'
    \<and> my_offers s' = my_offers s
    \<and> my_accepts s' = smap_upd (STR_ACCEPT_ADDR_PROP_ADDR_COMBO seller buyer p)
        (new_accept y b (offer_blocktimelimit o') p (offer_amount_original o') (offer_RPD_desired o') (offer_txid o')) (my_accepts s)
    \<and> (\<forall>c q v. GetTokenBalance s' c q v = GetTokenBalance s c q v
        - (if c = seller \<and> q = p \<and> v = SELLOFFER_RESERVE then y else 0) + (if c = seller \<and> q = p \<and> v = ACCEPT_RESERVE then y else 0))"
proof -
  let ?k = "STR_ACCEPT_ADDR_PROP_ADDR_COMBO seller buyer p"
  have ok: "ledger_ok s" "dex_maps_ok (GetTokenBalance s) (my_offers s) (my_accepts s)" using assms(1) by (simp_all add: dex_ok_def)
  have offer: "map_of (my_offers s) (STR_SELLOFFER_ADDR_PROP_COMBO seller p) = Some o'" using assms(4) by (simp add: DEx_getOffer_def)
  note pid = offer_property_key [OF ok(2) offer assms(2)]
  have none: "map_of (my_accepts s) ?k = None" using assms(5) by (simp add: DEx_acceptExists_def)
  have le: "y \<le> GetTokenBalance s seller p SELLOFFER_RESERVE" using y(1) by simp
  obtain s1 m where m: "assert_update seller p (- y) SELLOFFER_RESERVE s = Some s1"
      "assert_update seller p y ACCEPT_RESERVE s1 = Some (s\<lparr>mp_tally_map := m\<rparr>)"
      "ledger_ok (s\<lparr>mp_tally_map := m\<rparr>)" "\<And>q. token_supply (s\<lparr>mp_tally_map := m\<rparr>) q = token_supply s q"
      and bal: "\<And>c q v. GetTokenBalance (s\<lparr>mp_tally_map := m\<rparr>) c q v = GetTokenBalance s c q v
        - (if c = seller \<and> q = p \<and> v = SELLOFFER_RESERVE then y else 0) + (if c = seller \<and> q = p \<and> v = ACCEPT_RESERVE then y else 0)"
    by (rule transfer [OF ok(1) y(2) le, of ACCEPT_RESERVE seller]) simp_all
  define acc where "acc = new_accept y b (offer_blocktimelimit o') p (offer_amount_original o') (offer_RPD_desired o') (offer_txid o')"
  have rem: "accept_amount_remaining acc = y" "accept_property acc = p" by (simp_all add: acc_def new_accept_def)
  define s' where "s' = s\<lparr>mp_tally_map := m, my_accepts := smap_upd ?k acc (my_accepts s)\<rparr>"
  have "(if GetTokenBalance s seller p SELLOFFER_RESERVE \<ge> x then x else GetTokenBalance s seller p SELLOFFER_RESERVE) = y"
    using y(1) by (simp add: min_def)
  then have run: "DEx_acceptCreate buyer seller p x b fee s = Some (0, s', Some y)"
    using assms(5,6) offer m(1,2) y(2) pid unfolding DEx_acceptCreate_def Let_def by (simp add: s'_def acc_def)
  have "dex_maps_ok (GetTokenBalance s') (my_offers s') (my_accepts s')"
  proof (rule dex_maps_upd [OF ok(2)])
    show "smap_ok (my_offers s')" "smap_ok (my_accepts s')" using dex_maps_smap [OF ok(2)] by (simp_all add: s'_def smap_ok_upd)
    show "map_of (my_offers s) k = Some o' \<or> offer_ok k o'" if "map_of (my_offers s') k = Some o'" for k o'
      using that by (simp add: s'_def)
    show "map_of (my_accepts s) k = Some ac \<or> accept_ok k ac" if "map_of (my_accepts s') k = Some ac" for k ac
      using that assms(2,3) pid(2) rem y(2) by (auto simp: s'_def map_of_smap_upd accept_ok_def split: if_splits)
    show "GetTokenBalance s' c q ACCEPT_RESERVE - GetTokenBalance s c q ACCEPT_RESERVE = accepted (my_accepts s') c q - accepted (my_accepts s) c q" for c q
      using dex_maps_smap [OF ok(2)] assms(2,3) none by (simp add: s'_def bal accepted_upd rem)
    show "map_of (my_offers s') (STR_SELLOFFER_ADDR_PROP_COMBO c q) \<noteq> None" if "addr_ok c" "0 < GetTokenBalance s' c q SELLOFFER_RESERVE" for c q
      using that dex_sell_offer [OF ok(2) that(1), of q] offer by (auto simp: s'_def bal split: if_splits)
  qed
  then have "dex_keeps s s'" using m(3,4) by (simp add: dex_keeps_def dex_ok_def s'_def isAddressFrozen_def)
  with run show ?thesis by (intro exI [of _ s'] conjI) (simp_all add: s'_def acc_def bal)
qed

lemma acceptCreate_refused:
  assumes "\<nexists>o'. DEx_getOffer s seller p = Some o' \<and> \<not> DEx_acceptExists s seller p buyer \<and> offer_min_fee o' \<le> fee
     \<and> 0 < min x (GetTokenBalance s seller p SELLOFFER_RESERVE)"
  shows "\<exists>rc n. rc < 0 \<and> DEx_acceptCreate buyer seller p x b fee s = Some (rc, s, n)"
proof (cases "DEx_getOffer s seller p")
  case None
  then show ?thesis by (simp add: DEx_acceptCreate_def DEx_getOffer_def)
next
  case (Some o')
  with assms have "DEx_acceptExists s seller p buyer \<or> fee < offer_min_fee o'
      \<or> min x (GetTokenBalance s seller p SELLOFFER_RESERVE) \<le> 0" by force
  then show ?thesis using Some unfolding DEx_acceptCreate_def DEx_getOffer_def Let_def by (auto simp: min_def split: if_splits)
qed

lemma acceptCreate_keeps:
  fixes s :: "'s dex_state_scheme"
  assumes "dex_ok s" and "addr_ok seller" and "addr_ok buyer"
  shows "\<exists>rc s' n. DEx_acceptCreate buyer seller p x b fee s = Some (rc, s', n) \<and> dex_keeps s s'"
  using acceptCreate_accepted [OF assms _ _ _ refl] acceptCreate_refused [of s seller p buyer fee x] dex_keeps_refl [OF assms(1)]
  by meson

text \<open>
  \<open>goes_back_to\<close> is the record that receives what an accept did not buy: the sell-offer reserve if the offer is
  still the one that was accepted, the balance otherwise.
\<close>

definition goes_back_to :: "'s dex_state_scheme \<Rightarrow> string \<Rightarrow> property_id \<Rightarrow> CMPAccept \<Rightarrow> TallyType" where
  "goes_back_to s seller p acc =
     (case DEx_getOffer s seller p of
        Some o' \<Rightarrow> if offer_txid o' = accept_offer_txid acc then SELLOFFER_RESERVE else BALANCE
      | None \<Rightarrow> BALANCE)"

lemma acceptDestroy_ok:
  fixes s :: "'s dex_state_scheme"
  assumes "dex_ok s" and "addr_ok seller" and "addr_ok buyer" and "DEx_getAccept s seller p buyer = Some acc"
  shows "\<exists>m s'. DEx_acceptDestroy buyer seller p force s = Some (0, if force then s' else s\<lparr>mp_tally_map := m\<rparr>)
    \<and> s' = s\<lparr>mp_tally_map := m, my_accepts := smap_del (STR_ACCEPT_ADDR_PROP_ADDR_COMBO seller buyer p) (my_accepts s)\<rparr>
    \<and> dex_keeps s s'
    \<and> (\<forall>c q v. GetTokenBalance s' c q v = GetTokenBalance s c q v
        - (if c = seller \<and> q = p \<and> v = ACCEPT_RESERVE then accept_amount_remaining acc else 0)
        + (if c = seller \<and> q = p \<and> v = goes_back_to s seller p acc then accept_amount_remaining acc else 0))"
proof -
  let ?k = "STR_ACCEPT_ADDR_PROP_ADDR_COMBO seller buyer p" and ?x = "accept_amount_remaining acc" and ?u = "goes_back_to s seller p acc"
  have ok: "ledger_ok s" "dex_maps_ok (GetTokenBalance s) (my_offers s) (my_accepts s)" using assms(1) by (simp_all add: dex_ok_def)
  have acc: "map_of (my_accepts s) ?k = Some acc" using assms(4) by (simp add: DEx_getAccept_def)
  then have x: "0 \<le> ?x" using ok(2) by (auto simp: dex_maps_ok_def accept_ok_def)
  have u: "?u \<noteq> ACCEPT_RESERVE" "counted ?u" by (auto simp: goes_back_to_def split: option.split)
  have sell: "?u = SELLOFFER_RESERVE \<Longrightarrow> map_of (my_offers s) (STR_SELLOFFER_ADDR_PROP_COMBO seller p) \<noteq> None"
    by (auto simp: goes_back_to_def DEx_getOffer_def split: option.splits)
  obtain m where m: "(if ?x > 0 then assert_update seller p (- ?x) ACCEPT_RESERVE s \<bind> assert_update seller p ?x ?u else Some s)
        = Some (s\<lparr>mp_tally_map := m\<rparr>)"
      "ledger_ok (s\<lparr>mp_tally_map := m\<rparr>)" "\<And>q. token_supply (s\<lparr>mp_tally_map := m\<rparr>) q = token_supply s q"
      and bal: "\<And>c q v. GetTokenBalance (s\<lparr>mp_tally_map := m\<rparr>) c q v = GetTokenBalance s c q v
        - (if c = seller \<and> q = p \<and> v = ACCEPT_RESERVE then ?x else 0) + (if c = seller \<and> q = p \<and> v = ?u then ?x else 0)"
    by (rule transfer_if [OF ok(1) x accepted_ge [OF ok(2) acc assms(2,3)] _ u(2), of seller]) simp_all
  define s' where "s' = s\<lparr>mp_tally_map := m, my_accepts := smap_del ?k (my_accepts s)\<rparr>"
  have ret: "(case DEx_getOffer s seller p of None \<Rightarrow> True | Some o' \<Rightarrow> offer_txid o' \<noteq> accept_offer_txid acc) \<longleftrightarrow> ?u = BALANCE"
    by (auto simp: goes_back_to_def split: option.split)
  have pay: "(if ?x > 0 then (if ?u = BALANCE then do {s1 \<leftarrow> assert_update seller p (- ?x) ACCEPT_RESERVE s; assert_update seller p ?x BALANCE s1}
      else do {s1 \<leftarrow> assert_update seller p (- ?x) ACCEPT_RESERVE s; assert_update seller p ?x SELLOFFER_RESERVE s1}) else Some s)
      = Some (s\<lparr>mp_tally_map := m\<rparr>)"
    using m(1) by (auto simp: goes_back_to_def split: option.splits if_splits)
  have run: "DEx_acceptDestroy buyer seller p force s = Some (0, if force then s' else s\<lparr>mp_tally_map := m\<rparr>)"
    unfolding DEx_acceptDestroy_def assms(4) Let_def option.case ret pay by (simp add: s'_def)
  have "dex_maps_ok (GetTokenBalance s') (my_offers s') (my_accepts s')"
  proof (rule dex_maps_upd [OF ok(2)])
    show "smap_ok (my_offers s')" "smap_ok (my_accepts s')" using dex_maps_smap [OF ok(2)] by (simp_all add: s'_def smap.ok_del)
    show "map_of (my_offers s) k = Some o' \<or> offer_ok k o'" if "map_of (my_offers s') k = Some o'" for k o'
      using that by (simp add: s'_def)
    show "map_of (my_accepts s) k = Some ac \<or> accept_ok k ac" if "map_of (my_accepts s') k = Some ac" for k ac
      using that dex_maps_smap [OF ok(2)] by (auto simp: s'_def smap.lookup_del split: if_splits)
    show "GetTokenBalance s' c q ACCEPT_RESERVE - GetTokenBalance s c q ACCEPT_RESERVE = accepted (my_accepts s') c q - accepted (my_accepts s) c q" for c q
      using dex_maps_smap [OF ok(2)] assms(2,3) acc u(1) by (simp add: s'_def bal accepted_del)
    show "map_of (my_offers s') (STR_SELLOFFER_ADDR_PROP_COMBO c q) \<noteq> None" if "addr_ok c" "0 < GetTokenBalance s' c q SELLOFFER_RESERVE" for c q
      using that dex_sell_offer [OF ok(2) that(1), of q] sell by (auto simp: s'_def bal split: if_splits)
  qed
  then have "dex_keeps s s'" using m(2,3) by (simp add: dex_keeps_def dex_ok_def s'_def isAddressFrozen_def)
  with run show ?thesis by (intro exI [of _ m] exI [of _ s'] conjI) (simp_all add: s'_def bal)
qed

subsection \<open>Expiry\<close>

definition accept_expired :: "int \<Rightarrow> CMPAccept \<Rightarrow> bool" where
  "accept_expired now acc \<longleftrightarrow> now - accept_block acc \<ge> int (accept_blocktimelimit acc)"

lemma fold_smap_del: "fold smap_del ks m = filter (\<lambda>e. fst e \<notin> set ks) m"
  by (induction ks arbitrary: m) (auto simp: smap_del_def intro!: filter_cong)

lemma expired_loop_ok:
  fixes s :: "'s dex_state_scheme"
  assumes "dex_ok s" and "distinct (map fst it)" and "\<forall>(k, acc) \<in> set it. map_of (my_accepts s) k = Some acc"
  shows "\<exists>s'. expired_loop now it n s = Some (n + length (filter (\<lambda>e. accept_expired now (snd e)) it), s')
    \<and> dex_keeps s s' \<and> my_offers s' = my_offers s
    \<and> my_accepts s' = fold smap_del (map fst (filter (\<lambda>e. accept_expired now (snd e)) it)) (my_accepts s)"
  using assms
proof (induction it arbitrary: s n)
  case Nil
  then show ?case by (simp add: dex_keeps_refl)
next
  case (Cons e it)
  obtain k acc where e: "e = (k, acc)" by (cases e)
  have lookup: "map_of (my_accepts s) k = Some acc" and rest: "\<forall>(k, acc) \<in> set it. map_of (my_accepts s) k = Some acc"
    and new: "k \<notin> fst ` set it" "distinct (map fst it)" using Cons.prems e by auto
  show ?case
  proof (cases "accept_expired now acc")
    case False
    then show ?thesis using Cons.IH [OF Cons.prems(1) new(2) rest] e by (simp add: accept_expired_def)
  next
    case True
    have ok: "dex_maps_ok (GetTokenBalance s) (my_offers s) (my_accepts s)" using Cons.prems(1) by (simp add: dex_ok_def)
    then have "accept_ok k acc" using lookup by (simp add: dex_maps_ok_def)
    then obtain a p b where k: "addr_ok a" "addr_ok b" "p < 2 ^ 32" "k = STR_ACCEPT_ADDR_PROP_ADDR_COMBO a b p"
      by (auto simp: accept_ok_def)
    have "DEx_getAccept s a p b = Some acc" using lookup k(4) by (simp add: DEx_getAccept_def)
    from acceptDestroy_ok [OF Cons.prems(1) k(1,2) this, of False] obtain m s1
      where d: "DEx_acceptDestroy b a p False s = Some (0, s\<lparr>mp_tally_map := m\<rparr>)"
        and s1: "s1 = s\<lparr>mp_tally_map := m, my_accepts := smap_del k (my_accepts s)\<rparr>" and keeps: "dex_keeps s s1"
      unfolding k(4) [symmetric] by auto
    have run: "expired_loop now (e # it) n s = expired_loop now it (n + 1) s1"
      using True d unfolding e k(4) expired_loop.simps split_accept_key [OF k(1,2)] accept_expired_def list.case
      by (simp add: cast_show_nat(2) [OF k(3)] s1 k(4))
    have "\<forall>(k, acc) \<in> set it. map_of (my_accepts s1) k = Some acc"
    proof (safe)
      fix k' acc' assume mem: "(k', acc') \<in> set it"
      then have "k' \<noteq> k" using new(1) by force
      then show "map_of (my_accepts s1) k' = Some acc'"
        using bspec [OF rest mem] dex_maps_smap [OF ok] by (simp add: s1 smap.lookup_del)
    qed
    from Cons.IH [OF _ new(2) this, of "n + 1"] keeps obtain s' where s':
      "expired_loop now it (n + 1) s1 = Some (n + 1 + length (filter (\<lambda>e. accept_expired now (snd e)) it), s')" "dex_keeps s1 s'"
      "my_offers s' = my_offers s1" "my_accepts s' = fold smap_del (map fst (filter (\<lambda>e. accept_expired now (snd e)) it)) (my_accepts s1)"
      by (auto simp: dex_keeps_def)
    then show ?thesis using run True e dex_keeps_trans [OF keeps s'(2)] by (simp add: s1)
  qed
qed

lemma eraseExpiredAccepts_ok:
  fixes s :: "'s dex_state_scheme"
  assumes "dex_ok s"
  shows "\<exists>s'. eraseExpiredAccepts now s = Some (length (filter (\<lambda>e. accept_expired now (snd e)) (my_accepts s)), s')
    \<and> dex_keeps s s' \<and> my_offers s' = my_offers s
    \<and> my_accepts s' = filter (\<lambda>e. \<not> accept_expired now (snd e)) (my_accepts s)"
proof -
  have sm: "smap_ok (my_accepts s)" using assms by (simp add: dex_ok_def dex_maps_ok_def)
  have d: "distinct (map fst (my_accepts s))" by (rule smap_ok_distinct [OF sm])
  have "\<forall>(k, acc) \<in> set (my_accepts s). map_of (my_accepts s) k = Some acc" using smap.member_lookup [OF sm] by auto
  from expired_loop_ok [OF assms d this, of now 0] obtain s' where
    s': "eraseExpiredAccepts now s = Some (length (filter (\<lambda>e. accept_expired now (snd e)) (my_accepts s)), s')" "dex_keeps s s'"
      "my_offers s' = my_offers s" "my_accepts s' = fold smap_del (map fst (filter (\<lambda>e. accept_expired now (snd e)) (my_accepts s))) (my_accepts s)"
    by (auto simp: eraseExpiredAccepts_def)
  have "filter (\<lambda>e. fst e \<notin> fst ` {e \<in> set (my_accepts s). accept_expired now (snd e)}) (my_accepts s)
      = filter (\<lambda>e. \<not> accept_expired now (snd e)) (my_accepts s)"
  proof (rule filter_cong [OF refl])
    fix e assume e: "e \<in> set (my_accepts s)"
    have same: "e' = e" if "e' \<in> set (my_accepts s)" "fst e' = fst e" for e'
      using inj_onD [OF _ that(2) that(1) e] d unfolding distinct_map by blast
    show "(fst e \<notin> fst ` {e \<in> set (my_accepts s). accept_expired now (snd e)}) = (\<not> accept_expired now (snd e))"
    proof (cases "accept_expired now (snd e)")
      case False
      then have "fst e \<noteq> fst e'" if "e' \<in> set (my_accepts s)" "accept_expired now (snd e')" for e'
        using same [OF that(1)] that(2) by force
      then show ?thesis using False by blast
    qed (use e in blast)
  qed
  then show ?thesis using s' by (auto simp: fold_smap_del)
qed

subsection \<open>Payments\<close>

lemma calculateDExPurchase_eq:
  assumes "0 \<le> off" and "off \<le> MAX_INT64" and "0 < d" and "d \<le> MAX_INT64" and "0 \<le> paid" and "paid \<le> MAX_INT64"
  shows "calculateDExPurchase off d paid = (if cdiv (paid * off) d \<le> MAX_INT64 then Some (cdiv (paid * off) d) else None)"
proof -
  have "0 \<le> paid * off" "paid * off \<le> 2 ^ 254" and mul: "mul256 paid off = paid * off"
    using assms mul256_int64 [of paid off] mult_int64_bound [of paid off] by simp_all
  then have q: "DivideAndRoundUp (mul256 paid off) d = Some (cdiv (paid * off) d)"
    using DivideAndRoundUp_eq [of "paid * off" d] assms(3) by simp
  have "0 \<le> cdiv (paid * off) d" using \<open>0 \<le> paid * off\<close> assms(3) by (rule cdiv_nonneg)
  then show ?thesis
    using assms q ConvertTo64_eq [of "cdiv (paid * off) d"] ConvertTo64_big [of "cdiv (paid * off) d"]
    by (simp add: calculateDExPurchase_def ConvertTo256_eq)
qed

lemma calculateDExPurchase_negative: "d < 0 \<Longrightarrow> calculateDExPurchase off d paid = None"
  by (simp add: calculateDExPurchase_def ConvertTo256_neg split: bind_splits)

text \<open>The tokens change hands, and the accept is reduced.\<close>

lemma payment_step:
  fixes s :: "'s dex_state_scheme"
  assumes "dex_ok s" and "addr_ok seller" and "addr_ok buyer" and "DEx_getAccept s seller p buyer = Some acc"
    and "0 \<le> x" and "x \<le> accept_amount_remaining acc"
  shows "\<exists>m rp s2. (if x > 0 then do {
        t1 \<leftarrow> assert_update seller p (- x) ACCEPT_RESERVE s;
        t2 \<leftarrow> assert_update buyer p x BALANCE t1;
        Some (0::int, t2\<lparr>recordedPayments := recordedPayments t2 @ [rec]\<rparr>) } else Some (DEX_ERROR_PAYMENT, s))
      = Some (if x > 0 then 0 else DEX_ERROR_PAYMENT, s\<lparr>mp_tally_map := m, recordedPayments := rp\<rparr>)
    \<and> s2 = s\<lparr>mp_tally_map := m, recordedPayments := rp, my_accepts := smap_upd (STR_ACCEPT_ADDR_PROP_ADDR_COMBO seller buyer p)
        (acc\<lparr>accept_amount_remaining := accept_amount_remaining acc - x\<rparr>) (my_accepts s)\<rparr>
    \<and> dex_keeps s s2
    \<and> (\<forall>c q v. GetTokenBalance s2 c q v = GetTokenBalance s c q v
        - (if c = seller \<and> q = p \<and> v = ACCEPT_RESERVE then x else 0) + (if c = buyer \<and> q = p \<and> v = BALANCE then x else 0))"
proof -
  let ?k = "STR_ACCEPT_ADDR_PROP_ADDR_COMBO seller buyer p"
  have ok: "ledger_ok s" "dex_maps_ok (GetTokenBalance s) (my_offers s) (my_accepts s)" using assms(1) by (simp_all add: dex_ok_def)
  have acc: "map_of (my_accepts s) ?k = Some acc" using assms(4) by (simp add: DEx_getAccept_def)
  have aok: "accept_ok ?k acc" using acc ok(2) by (simp add: dex_maps_ok_def)
  have le: "x \<le> GetTokenBalance s seller p ACCEPT_RESERVE" using accepted_ge [OF ok(2) acc assms(2,3)] assms(6) by simp
  obtain m where m: "(if x > 0 then assert_update seller p (- x) ACCEPT_RESERVE s \<bind> assert_update buyer p x BALANCE else Some s)
        = Some (s\<lparr>mp_tally_map := m\<rparr>)"
      "ledger_ok (s\<lparr>mp_tally_map := m\<rparr>)" "\<And>q. token_supply (s\<lparr>mp_tally_map := m\<rparr>) q = token_supply s q"
      and bal: "\<And>c q v. GetTokenBalance (s\<lparr>mp_tally_map := m\<rparr>) c q v = GetTokenBalance s c q v
        - (if c = seller \<and> q = p \<and> v = ACCEPT_RESERVE then x else 0) + (if c = buyer \<and> q = p \<and> v = BALANCE then x else 0)"
    by (rule transfer_if [OF ok(1) assms(5) le, of BALANCE buyer]) simp_all
  define rp where "rp = (if x > 0 then recordedPayments s @ [rec] else recordedPayments s)"
  define acc' where "acc' = acc\<lparr>accept_amount_remaining := accept_amount_remaining acc - x\<rparr>"
  define s2 where "s2 = s\<lparr>mp_tally_map := m, recordedPayments := rp, my_accepts := smap_upd ?k acc' (my_accepts s)\<rparr>"
  have pay: "(if x > 0 then do {
        t1 \<leftarrow> assert_update seller p (- x) ACCEPT_RESERVE s;
        t2 \<leftarrow> assert_update buyer p x BALANCE t1;
        Some (0::int, t2\<lparr>recordedPayments := recordedPayments t2 @ [rec]\<rparr>) } else Some (DEX_ERROR_PAYMENT, s))
      = Some (if x > 0 then 0 else DEX_ERROR_PAYMENT, s\<lparr>mp_tally_map := m, recordedPayments := rp\<rparr>)"
  proof (cases "x > 0")
    case True
    then obtain t1 where "assert_update seller p (- x) ACCEPT_RESERVE s = Some t1" "assert_update buyer p x BALANCE t1 = Some (s\<lparr>mp_tally_map := m\<rparr>)"
      using m(1) by (auto simp: bind_eq_Some_conv)
    then show ?thesis using True by (simp add: rp_def)
  next
    case False
    then have "s\<lparr>mp_tally_map := m\<rparr> = s" using m(1) by simp
    then have "s\<lparr>mp_tally_map := m, recordedPayments := rp\<rparr> = s\<lparr>recordedPayments := rp\<rparr>" by simp
    then show ?thesis using False by (simp add: rp_def)
  qed
  have "dex_maps_ok (GetTokenBalance s2) (my_offers s2) (my_accepts s2)"
  proof (rule dex_maps_upd [OF ok(2)])
    show "smap_ok (my_offers s2)" "smap_ok (my_accepts s2)" using dex_maps_smap [OF ok(2)] by (simp_all add: s2_def smap_ok_upd)
    show "map_of (my_offers s) k = Some o' \<or> offer_ok k o'" if "map_of (my_offers s2) k = Some o'" for k o'
      using that by (simp add: s2_def)
    show "map_of (my_accepts s) k = Some ac \<or> accept_ok k ac" if "map_of (my_accepts s2) k = Some ac" for k ac
    proof (cases "k = ?k")
      case True
      have "accept_ok ?k acc'" using aok assms(6) unfolding accept_ok_def acc'_def by (simp add: diff_ge_0_iff_ge)
      then show ?thesis using that True by (simp add: s2_def map_of_smap_upd)
    qed (use that in \<open>simp add: s2_def map_of_smap_upd\<close>)
    show "GetTokenBalance s2 c q ACCEPT_RESERVE - GetTokenBalance s c q ACCEPT_RESERVE = accepted (my_accepts s2) c q - accepted (my_accepts s) c q" for c q
      using dex_maps_smap [OF ok(2)] assms(2,3) acc by (simp add: s2_def bal accepted_upd acc'_def)
    show "map_of (my_offers s2) (STR_SELLOFFER_ADDR_PROP_COMBO c q) \<noteq> None" if "addr_ok c" "0 < GetTokenBalance s2 c q SELLOFFER_RESERVE" for c q
      using that dex_sell_offer [OF ok(2) that(1), of q] by (auto simp: s2_def bal split: if_splits)
  qed
  then have "dex_keeps s s2" using m(2,3) by (simp add: dex_keeps_def dex_ok_def s2_def isAddressFrozen_def)
  with pay show ?thesis by (intro exI [of _ m] exI [of _ rp] exI [of _ s2] conjI) (simp_all add: s2_def acc'_def bal)
qed

text \<open>
  The end of a payment: an accept with nothing remaining is destroyed, and the offer with it when both
  reserves of the seller are empty. No tokens move.
\<close>

lemma payment_cleanup:
  fixes s :: "'s dex_state_scheme"
  assumes "dex_ok s" and "addr_ok seller" and "addr_ok buyer" and "DEx_getAccept s seller p buyer = Some acc"
    and "accept_amount_remaining acc = 0"
  shows "\<exists>s3. DEx_acceptDestroy buyer seller p True s = Some (0, s3) \<and> dex_keeps s s3
    \<and> GetTokenBalance s3 = GetTokenBalance s \<and> DEx_getAccept s3 seller p buyer = None
    \<and> (GetTokenBalance s seller p SELLOFFER_RESERVE = 0 \<longrightarrow>
       (\<exists>rc s4. DEx_offerDestroy seller p s3 = Some (rc, s4) \<and> dex_keeps s s4
          \<and> GetTokenBalance s4 = GetTokenBalance s \<and> DEx_getAccept s4 seller p buyer = None))"
proof -
  from acceptDestroy_ok [OF assms(1-4), of True] obtain m s3 where s3: "DEx_acceptDestroy buyer seller p True s = Some (0, s3)"
      "s3 = s\<lparr>mp_tally_map := m, my_accepts := smap_del (STR_ACCEPT_ADDR_PROP_ADDR_COMBO seller buyer p) (my_accepts s)\<rparr>"
      "dex_keeps s s3" "\<And>c q v. GetTokenBalance s3 c q v = GetTokenBalance s c q v"
    using assms(5) by auto
  have sm: "smap_ok (my_accepts s)" using assms(1) by (simp add: dex_ok_def dex_maps_ok_def)
  have bal: "GetTokenBalance s3 = GetTokenBalance s" using s3(4) by (simp add: fun_eq_iff)
  have gone: "DEx_getAccept s3 seller p buyer = None" by (simp add: s3(2) DEx_getAccept_def smap.lookup_del [OF sm])
  have "\<exists>rc s4. DEx_offerDestroy seller p s3 = Some (rc, s4) \<and> dex_keeps s s4
      \<and> GetTokenBalance s4 = GetTokenBalance s \<and> DEx_getAccept s4 seller p buyer = None"
    if zero: "GetTokenBalance s seller p SELLOFFER_RESERVE = 0"
  proof (cases "DEx_offerExists s3 seller p")
    case True
    have "dex_ok s3" using s3(3) by (simp add: dex_keeps_def)
    from offerDestroy_ok [OF this assms(2) True] obtain s4 where s4: "DEx_offerDestroy seller p s3 = Some (0, s4)" "dex_keeps s3 s4"
        "my_accepts s4 = my_accepts s3" "\<And>c q v. GetTokenBalance s4 c q v = GetTokenBalance s3 c q v"
      using zero by (auto simp: bal)
    have "GetTokenBalance s4 = GetTokenBalance s" using s4(4) bal by (simp add: fun_eq_iff)
    then show ?thesis using s4 gone dex_keeps_trans [OF s3(3) s4(2)] by (simp add: DEx_getAccept_def)
  next
    case False
    then show ?thesis using s3(3) bal gone by (simp add: DEx_offerDestroy_def)
  qed
  with s3(1,3) bal gone show ?thesis by blast
qed

definition payment_credit :: "'s dex_state_scheme \<Rightarrow> string \<Rightarrow> property_id \<Rightarrow> int \<Rightarrow> int \<Rightarrow> int" where
  "payment_credit s seller p d paid =
     (case royalties s p d of (_, receiver, amount) \<Rightarrow> if seller \<noteq> receiver then s64 (paid + amount) else paid)"

definition royalties_paid :: "'s dex_state_scheme \<Rightarrow> property_id \<Rightarrow> int \<Rightarrow> (string \<times> int) list \<Rightarrow> bool" where
  "royalties_paid s p d payments =
     (case royalties s p d of (pct, receiver, amount) \<Rightarrow> pct > 0 \<longrightarrow> (\<exists>x \<in> set payments. fst x = receiver \<and> snd x \<ge> amount))"

lemma payment_ok:
  fixes s :: "'s dex_state_scheme"
  assumes ok: "dex_ok s" and addr: "addr_ok seller" "addr_ok buyer"
    and sale: "DEx_getTokenForSale s seller = Some p" and acc: "DEx_getAccept s seller p buyer = Some acc"
    and d: "d = accept_RPD_desired acc" "d \<noteq> 0" and roy: "royalties_paid s p d payments"
    and dexmath: "IsFeatureActivated (consensusParams s) FEATURE_DEXMATH block"
    and purchase: "calculateDExPurchase (accept_offer_amount acc) d (payment_credit s seller p d paid) = Some n" "0 \<le> n"
    and x: "x = min n (accept_amount_remaining acc)"
  shows "\<exists>s' am. DEx_payment txid vout seller buyer paid block payments s = Some (if x > 0 then 0 else DEX_ERROR_PAYMENT, s', am)
    \<and> dex_keeps s s'
    \<and> DEx_getAccept s' seller p buyer = (if x = accept_amount_remaining acc then None
        else Some (acc\<lparr>accept_amount_remaining := accept_amount_remaining acc - x\<rparr>))
    \<and> (\<forall>c q v. GetTokenBalance s' c q v = GetTokenBalance s c q v
        - (if c = seller \<and> q = p \<and> v = ACCEPT_RESERVE then x else 0) + (if c = buyer \<and> q = p \<and> v = BALANCE then x else 0))
    \<and> (x < accept_amount_remaining acc \<longrightarrow> my_offers s' = my_offers s \<and> pDbSpInfo s' = pDbSpInfo s)"
proof -
  let ?k = "STR_ACCEPT_ADDR_PROP_ADDR_COMBO seller buyer p" and ?rem = "accept_amount_remaining acc"
  have maps: "dex_maps_ok (GetTokenBalance s) (my_offers s) (my_accepts s)" "ledger_ok s" using ok by (simp_all add: dex_ok_def)
  have lookup: "map_of (my_accepts s) ?k = Some acc" using acc by (simp add: DEx_getAccept_def)
  then have rem: "0 \<le> ?rem" using maps(1) by (auto simp: dex_maps_ok_def accept_ok_def)
  have remle: "?rem \<le> MAX_INT64"
    using accepted_ge [OF maps(1) lookup addr] balance_le_max [OF ledger_tallies [OF maps(2)], of seller p ACCEPT_RESERVE] by linarith
  have xb: "0 \<le> x" "x \<le> ?rem" using x purchase(2) rem by simp_all
  obtain pct receiver amount where r: "royalties s p d = (pct, receiver, amount)" by (cases "royalties s p d")
  let ?paid = "if seller \<noteq> receiver then s64 (paid + amount) else paid"
  have credit: "payment_credit s seller p d paid = ?paid" by (simp add: payment_credit_def r)
  have guard: "\<not> (pct > 0 \<and> \<not> list_ex (\<lambda>x. fst x = receiver \<and> snd x \<ge> amount) payments)"
    using roy by (auto simp: royalties_paid_def r list_ex_iff)
  define rec where "rec = \<lparr>pay_txid = txid, pay_valid = True, pay_block = block, pay_vout = vout, pay_property = p,
    pay_amount = x, pay_buyer = buyer, pay_seller = seller\<rparr>"
  define am where "am = (if ?rem < n then Some ?rem else None)"
  have amended: "(if ?rem < n then (?rem, Some ?rem) else (n, None)) = (x, am)" using x by (simp add: am_def min_def)
  from payment_step [OF ok addr acc xb, of rec] obtain m rp s2 where
    pay: "(if x > 0 then do {
        t1 \<leftarrow> assert_update seller p (- x) ACCEPT_RESERVE s;
        t2 \<leftarrow> assert_update buyer p x BALANCE t1;
        Some (0::int, t2\<lparr>recordedPayments := recordedPayments t2 @ [rec]\<rparr>) } else Some (DEX_ERROR_PAYMENT, s))
      = Some (if x > 0 then 0 else DEX_ERROR_PAYMENT, s\<lparr>mp_tally_map := m, recordedPayments := rp\<rparr>)"
    and s2: "s2 = s\<lparr>mp_tally_map := m, recordedPayments := rp, my_accepts := smap_upd ?k (acc\<lparr>accept_amount_remaining := ?rem - x\<rparr>) (my_accepts s)\<rparr>"
    and keeps: "dex_keeps s s2"
    and bal: "\<And>c q v. GetTokenBalance s2 c q v = GetTokenBalance s c q v
        - (if c = seller \<and> q = p \<and> v = ACCEPT_RESERVE then x else 0) + (if c = buyer \<and> q = p \<and> v = BALANCE then x else 0)"
    by blast
  have red: "reduceAcceptAmountRemaining_andIsZero x acc = (x = ?rem, acc\<lparr>accept_amount_remaining := ?rem - x\<rparr>)"
    using xb remle by (auto simp: reduceAcceptAmountRemaining_andIsZero_def s64_id)
  define fin where "fin = (if x = ?rem then do {
      (u, s3) \<leftarrow> DEx_acceptDestroy buyer seller p True s2;
      if GetTokenBalance s2 seller p SELLOFFER_RESERVE = 0 \<and> GetTokenBalance s2 seller p ACCEPT_RESERVE = 0 then do {
        (u, s4) \<leftarrow> DEx_offerDestroy seller p s3;
        Some (if x > 0 then 0 else DEX_ERROR_PAYMENT, s4, am)
      } else Some (if x > 0 then 0 else DEX_ERROR_PAYMENT, s3, am)
    } else Some (if x > 0 then 0 else DEX_ERROR_PAYMENT, s2, am))"
  have run: "DEx_payment txid vout seller buyer paid block payments s = fin"
    unfolding DEx_payment_def sale acc option.case Let_def d(1) [symmetric] if_not_P [OF d(2)] r prod.case if_not_P [OF guard]
      if_P [OF dexmath] purchase(1) [unfolded credit] bind.simps amended rec_def [symmetric] pay red fin_def s2
    by (cases "x = ?rem") simp_all
  have get2: "DEx_getAccept s2 seller p buyer = Some (acc\<lparr>accept_amount_remaining := ?rem - x\<rparr>)"
    by (simp add: DEx_getAccept_def s2 map_of_smap_upd)
  show ?thesis
  proof (cases "x = ?rem")
    case False
    have "my_offers s2 = my_offers s" "pDbSpInfo s2 = pDbSpInfo s" by (simp_all add: s2)
    with False show ?thesis using run keeps get2 bal by (simp add: fin_def)
  next
    case True
    have "dex_ok s2" using keeps by (simp add: dex_keeps_def)
    from payment_cleanup [OF this addr get2] True obtain s3 where s3: "DEx_acceptDestroy buyer seller p True s2 = Some (0, s3)"
        "dex_keeps s2 s3" "GetTokenBalance s3 = GetTokenBalance s2" "DEx_getAccept s3 seller p buyer = None"
      and off: "GetTokenBalance s2 seller p SELLOFFER_RESERVE = 0 \<Longrightarrow> \<exists>rc s4. DEx_offerDestroy seller p s3 = Some (rc, s4)
        \<and> dex_keeps s2 s4 \<and> GetTokenBalance s4 = GetTokenBalance s2 \<and> DEx_getAccept s4 seller p buyer = None" by auto
    show ?thesis
    proof (cases "GetTokenBalance s2 seller p SELLOFFER_RESERVE = 0 \<and> GetTokenBalance s2 seller p ACCEPT_RESERVE = 0")
      case False
      then show ?thesis using run s3 True bal dex_keeps_trans [OF keeps s3(2)] by (auto simp: fin_def)
    next
      case both: True
      with off obtain rc s4 where s4: "DEx_offerDestroy seller p s3 = Some (rc, s4)" "dex_keeps s2 s4"
        "GetTokenBalance s4 = GetTokenBalance s2" "DEx_getAccept s4 seller p buyer = None" by blast
      then show ?thesis using run s3(1) True both bal dex_keeps_trans [OF keeps s4(2)] by (auto simp: fin_def)
    qed
  qed
qed

subsection \<open>The exchange as a state machine\<close>

lemma ConvertTo64_nonneg: "0 \<le> q \<Longrightarrow> ConvertTo64 q = Some n \<Longrightarrow> 0 \<le> n"
  using ConvertTo64_eq [of q] ConvertTo64_big [of q] by (cases "q \<le> MAX_INT64") auto

lemma calculateDExPurchase_nonneg:
  assumes "calculateDExPurchase off d paid = Some n"
  shows "0 \<le> n"
proof -
  have u: "0 \<le> u256 z" for z unfolding u256_def by simp
  from assms obtain q where q: "ConvertTo64 q = Some n" "\<exists>a b. DivideAndRoundUp a b = Some q"
    by (auto simp: calculateDExPurchase_def bind_eq_Some_conv)
  then have "0 \<le> q" using u by (auto simp: DivideAndRoundUp_def add256_def bind_eq_Some_conv split: if_splits)
  then show ?thesis using q(1) by (rule ConvertTo64_nonneg)
qed

lemma payment_keeps:
  fixes s :: "'s dex_state_scheme"
  assumes ok: "dex_ok s" and addr: "addr_ok seller" "addr_ok buyer"
    and dexmath: "IsFeatureActivated (consensusParams s) FEATURE_DEXMATH block"
    and run: "DEx_payment txid vout seller buyer paid block payments s = Some (rc, s', am)"
  shows "dex_keeps s s'"
proof (cases "DEx_getTokenForSale s seller")
  case None
  then show ?thesis using run dex_keeps_refl [OF ok] by (simp add: DEx_payment_def)
next
  case sale: (Some p)
  show ?thesis
  proof (cases "DEx_getAccept s seller p buyer")
    case None
    then show ?thesis using run sale dex_keeps_refl [OF ok] by (simp add: DEx_payment_def)
  next
    case acc: (Some acc)
    define d where "d = accept_RPD_desired acc"
    obtain pct receiver amount where r: "royalties s p d = (pct, receiver, amount)" by (cases "royalties s p d")
    show ?thesis
    proof (cases "d = 0 \<or> \<not> royalties_paid s p d payments")
      case True
      then have "s' = s"
        using run unfolding DEx_payment_def sale acc option.case Let_def d_def [symmetric] r prod.case
        by (auto simp: royalties_paid_def r list_ex_iff split: if_splits)
      then show ?thesis using dex_keeps_refl [OF ok] by simp
    next
      case False
      then have nz: "d \<noteq> 0" and roy: "royalties_paid s p d payments" by auto
      then have guard: "\<not> (pct > 0 \<and> \<not> list_ex (\<lambda>x. fst x = receiver \<and> snd x \<ge> amount) payments)"
        by (auto simp: royalties_paid_def r list_ex_iff)
      have "calculateDExPurchase (accept_offer_amount acc) d (payment_credit s seller p d paid) \<noteq> None"
        using run unfolding DEx_payment_def sale acc option.case Let_def d_def [symmetric] if_not_P [OF nz] r prod.case
          if_not_P [OF guard] if_P [OF dexmath] payment_credit_def
        by (auto simp: bind_eq_Some_conv)
      then obtain n where n: "calculateDExPurchase (accept_offer_amount acc) d (payment_credit s seller p d paid) = Some n" by auto
      from payment_ok [OF ok addr sale acc d_def nz roy dexmath n calculateDExPurchase_nonneg [OF n] refl, of txid vout] run
      show ?thesis by auto
    qed
  qed
qed

text \<open>
  The calls the transaction logic and the block handler make, in any order. A seller's address is not
  frozen when an offer is created, and the integer calculation is live.
\<close>

inductive dex_step :: "'s dex_state_scheme \<Rightarrow> 's dex_state_scheme \<Rightarrow> bool" where
  create: "addr_ok a \<Longrightarrow> p < 2 ^ 32 \<Longrightarrow> \<not> isAddressFrozen s a p \<Longrightarrow> IsFeatureActivated (consensusParams s) FEATURE_DEXMATH b \<Longrightarrow>
     DEx_offerCreate a p x b d fee w txid s = Some (rc, s', am) \<Longrightarrow> dex_step s s'"
| update: "addr_ok a \<Longrightarrow> p < 2 ^ 32 \<Longrightarrow> \<not> isAddressFrozen s a p \<Longrightarrow> IsFeatureActivated (consensusParams s) FEATURE_DEXMATH b \<Longrightarrow>
     DEx_offerUpdate a p x b d fee w txid s = Some (rc, s', am) \<Longrightarrow> dex_step s s'"
| destroy: "addr_ok a \<Longrightarrow> DEx_offerDestroy a p s = Some (rc, s') \<Longrightarrow> dex_step s s'"
| accept: "addr_ok seller \<Longrightarrow> addr_ok buyer \<Longrightarrow> DEx_acceptCreate buyer seller p x b fee s = Some (rc, s', am) \<Longrightarrow> dex_step s s'"
| pay: "addr_ok seller \<Longrightarrow> addr_ok buyer \<Longrightarrow> IsFeatureActivated (consensusParams s) FEATURE_DEXMATH b \<Longrightarrow>
     DEx_payment txid vout seller buyer paid b payments s = Some (rc, s', am) \<Longrightarrow> dex_step s s'"
| expire: "eraseExpiredAccepts now s = Some (n, s') \<Longrightarrow> dex_step s s'"

lemma dex_step_keeps: "dex_step s s' \<Longrightarrow> dex_ok s \<Longrightarrow> dex_keeps s s'"
proof (induction rule: dex_step.induct)
  case (create a p s b x d fee w txid rc s' am)
  then show ?case using offerCreate_keeps [OF create.prems create.hyps(1-4), of x d fee w txid] by auto
next
  case (update a p s b x d fee w txid rc s' am)
  then show ?case using offerUpdate_keeps [OF update.prems update.hyps(1-4), of x d fee w txid] by auto
next
  case (destroy a p s rc s')
  then show ?case using offerDestroy_keeps [OF destroy.prems destroy.hyps(1), of p] by auto
next
  case (accept seller buyer p x b fee s rc s' am)
  then show ?case using acceptCreate_keeps [OF accept.prems accept.hyps(1,2), of p x b fee] by auto
next
  case (pay seller buyer s b txid vout paid payments rc s' am)
  then show ?case using payment_keeps [OF pay.prems pay.hyps(1-4)] by simp
next
  case (expire now s n s')
  then show ?case using eraseExpiredAccepts_ok [OF expire.prems, of now] by auto
qed

lemma dex_steps_keep: "dex_step\<^sup>*\<^sup>* s s' \<Longrightarrow> dex_ok s \<Longrightarrow> dex_keeps s s'"
proof (induction rule: rtranclp_induct)
  case (step t u)
  then have "dex_keeps s t" by simp
  moreover from this have "dex_keeps t u" using dex_step_keeps [OF step.hyps(2)] by (simp add: dex_keeps_def)
  ultimately show ?case by (rule dex_keeps_trans)
qed (simp add: dex_keeps_refl)

subsection \<open>A sample exchange\<close>

text \<open>Alice sells 50 units of property 3 for 100; Bob has accepted 20 of them.\<close>

definition sample_offer :: CMPOffer where
  "sample_offer = \<lparr>offerBlock = 1, offer_amount_original = 50, offer_property = 3, offer_RPD_desired = 100, offer_min_fee = 0,
     offer_blocktimelimit = 10, offer_txid = 7, offer_subaction = 0\<rparr>"

definition sample_accept :: "int \<Rightarrow> CMPAccept" where
  "sample_accept d = new_accept 20 5 10 3 50 d 7"

definition sample_dex :: "int \<Rightarrow> dex_state" where
  "sample_dex d = (rules_state.extend (sample_rules CMainConsensusParams)
     (dex_state.fields [(STR_SELLOFFER_ADDR_PROP_COMBO ''alice'' 3, sample_offer)]
        [(STR_ACCEPT_ADDR_PROP_ADDR_COMBO ''alice'' ''bob'' 3, sample_accept d)] []))
     \<lparr>mp_tally_map := [(''alice'', \<lparr>mp_token = [(3, zero_record(SELLOFFER_RESERVE := 30, ACCEPT_RESERVE := 20))], my_it = None\<rparr>)],
       setFrozenAddresses := [], pDbSpInfo := new_spinfo ''exodus''\<rparr>"

lemma sample_dex_fields [simp]:
  "my_offers (sample_dex d) = [(STR_SELLOFFER_ADDR_PROP_COMBO ''alice'' 3, sample_offer)]"
  "my_accepts (sample_dex d) = [(STR_ACCEPT_ADDR_PROP_ADDR_COMBO ''alice'' ''bob'' 3, sample_accept d)]"
  "mp_tally_map (sample_dex d) = [(''alice'', \<lparr>mp_token = [(3, zero_record(SELLOFFER_RESERVE := 30, ACCEPT_RESERVE := 20))], my_it = None\<rparr>)]"
  "consensusParams (sample_dex d) = CMainConsensusParams" "pDbSpInfo (sample_dex d) = new_spinfo ''exodus''"
  by (simp_all add: sample_dex_def sample_rules_def dex_state.defs rules_state.defs crowd_state.defs)

lemma sample_addr [simp]: "addr_ok ''alice''" "addr_ok ''bob''" "addr_ok ''carol''"
  by (simp_all add: addr_ok_def)

lemma sample_dex_balance:
  "GetTokenBalance (sample_dex d) a p ty =
     (if a = ''alice'' \<and> p = 3 \<and> ty = SELLOFFER_RESERVE then 30 else if a = ''alice'' \<and> p = 3 \<and> ty = ACCEPT_RESERVE then 20 else 0)"
  by (auto simp: GetTokenBalance_def getMoney_def zero_record_def)

lemma sample_dex_ok: "dex_ok (sample_dex d)"
proof -
  have total: "token_supply (sample_dex d) p = (if p = 3 then 50 else 0)" for p
    by (simp add: token_supply_def tally_total_def getMoney_def zero_record_def)
  have "ledger_ok (sample_dex d)"
    unfolding ledger_ok_def total
    by (auto simp: tallies_ok_def umap_ok_def tally_ok_def smap_ok_def record_ok_def zero_record_def)
  moreover have "offer_ok (STR_SELLOFFER_ADDR_PROP_COMBO ''alice'' 3) sample_offer"
    unfolding offer_ok_def by (rule exI [of _ "''alice''"], rule exI [of _ 3]) (simp add: sample_offer_def)
  moreover have "accept_ok (STR_ACCEPT_ADDR_PROP_ADDR_COMBO ''alice'' ''bob'' 3) (sample_accept d)"
    unfolding accept_ok_def
    by (rule conjI, simp add: sample_accept_def new_accept_def, rule exI [of _ "''alice''"], rule exI [of _ 3], rule exI [of _ "''bob''"])
      (simp add: sample_accept_def new_accept_def)
  moreover have "accepted (my_accepts (sample_dex d)) a p = (if a = ''alice'' \<and> p = 3 then 20 else 0)" for a p
    by (simp add: accepted_def sample_accept_def new_accept_def)
  ultimately have "dex_ok (sample_dex d) = dex_maps_ok (GetTokenBalance (sample_dex d)) (my_offers (sample_dex d)) (my_accepts (sample_dex d))"
      "dex_maps_ok (GetTokenBalance (sample_dex d)) (my_offers (sample_dex d)) (my_accepts (sample_dex d))"
    by (simp_all add: dex_ok_def dex_maps_ok_def sample_dex_balance smap_ok_def)
  then show ?thesis by simp
qed

subsection \<open>Properties of the exchange\<close>

text \<open>
  \<^bold>\<open>C2\<close>. Reserves stay backed: along any sequence of offers, updates, cancellations, accepts, payments and expiries that
  starts in a consistent state, every accept reserve is exactly the sum of the open accepts of that
  seller and property, no sell-offer reserve exists without an offer, every balance and supply stays in range, and
  the supply of no property changes.
\<close>

theorem dex_reach_invariant:
  fixes s s' :: dex_state
  assumes "dex_step\<^sup>*\<^sup>* s s'" and "dex_ok s"
  shows "dex_ok s' \<and> (\<forall>p. token_supply s' p = token_supply s p)
    \<and> (\<forall>a p. addr_ok a \<longrightarrow> GetTokenBalance s' a p ACCEPT_RESERVE = accepted (my_accepts s') a p)
    \<and> (\<forall>a p. addr_ok a \<and> 0 < GetTokenBalance s' a p SELLOFFER_RESERVE \<longrightarrow> DEx_offerExists s' a p)"
proof -
  have k: "dex_keeps s s'" by (rule dex_steps_keep [OF assms])
  then have "dex_ok s'" by (simp add: dex_keeps_def)
  moreover from this have "dex_maps_ok (GetTokenBalance s') (my_offers s') (my_accepts s')" by (simp add: dex_ok_def)
  ultimately show ?thesis using k by (auto simp: dex_keeps_def dex_maps_ok_def DEx_offerExists_def)
qed

theorem dex_reach_invariant_witness:
  "\<exists>n s'. eraseExpiredAccepts 20 (sample_dex 100) = Some (n, s') \<and> token_supply s' 3 = token_supply (sample_dex 100) 3"
proof -
  obtain n s' where run: "eraseExpiredAccepts 20 (sample_dex 100) = Some (n, s')"
    using eraseExpiredAccepts_ok [OF sample_dex_ok, of 20 100] by blast
  then have "dex_step\<^sup>*\<^sup>* (sample_dex 100) s'" by (blast intro: dex_step.expire)
  from dex_reach_invariant [OF this sample_dex_ok] run show ?thesis by blast
qed

text \<open>
  An offer is created exactly when the payment window and the desired amount are not zero, the seller has no
  offer and has the amount available; it then moves the amount from the balance to the sell-offer reserve and stores
  the offer; otherwise nothing changes. The process never stops.
\<close>

lemma DEx_offerCreate_spec:
  fixes s :: dex_state
  assumes "dex_ok s" and "addr_ok a" and "p < 2 ^ 32" and "\<not> isAddressFrozen s a p"
    and "IsFeatureActivated (consensusParams s) FEATURE_DEXMATH b"
  shows "if offer_acceptable s a p x d w
    then \<exists>s'. DEx_offerCreate a p x b d fee w txid s = Some (0, s', None)
      \<and> DEx_getOffer s' a p = Some (created_offer b p x d fee w txid)
      \<and> (\<forall>c q v. GetTokenBalance s' c q v = GetTokenBalance s c q v
        - (if c = a \<and> q = p \<and> v = BALANCE then x else 0) + (if c = a \<and> q = p \<and> v = SELLOFFER_RESERVE then x else 0))
    else \<exists>rc < 0. DEx_offerCreate a p x b d fee w txid s = Some (rc, s, None)"
proof (cases "offer_acceptable s a p x d w")
  case True
  from offerCreate_accepted [OF assms(1-4) True, of b fee txid] obtain s' where
    "DEx_offerCreate a p x b d fee w txid s = Some (0, s', None)"
    "my_offers s' = smap_upd (STR_SELLOFFER_ADDR_PROP_COMBO a p) (created_offer b p x d fee w txid) (my_offers s)"
    "\<forall>c q v. GetTokenBalance s' c q v = GetTokenBalance s c q v
        - (if c = a \<and> q = p \<and> v = BALANCE then x else 0) + (if c = a \<and> q = p \<and> v = SELLOFFER_RESERVE then x else 0)" by blast
  then have "\<exists>s'. DEx_offerCreate a p x b d fee w txid s = Some (0, s', None)
      \<and> DEx_getOffer s' a p = Some (created_offer b p x d fee w txid)
      \<and> (\<forall>c q v. GetTokenBalance s' c q v = GetTokenBalance s c q v
        - (if c = a \<and> q = p \<and> v = BALANCE then x else 0) + (if c = a \<and> q = p \<and> v = SELLOFFER_RESERVE then x else 0))"
    by (intro exI [of _ s'] conjI) (simp_all add: DEx_getOffer_def map_of_smap_upd)
  then show ?thesis unfolding if_P [OF True] .
next
  case False
  show ?thesis unfolding if_not_P [OF False] by (rule offerCreate_refused [OF assms(5) False])
qed

text \<open>
  \<^bold>\<open>C3\<close>. A payment buys \<open>\<lceil>paid * offered / desired\<rceil>\<close> units, at most what the accept still reserves: they move from the
  seller's accept reserve to the buyer's balance and no other balance changes; the accept is
  reduced by that amount and removed once nothing remains. The payment counts royalties that were paid to somebody
  else, and is refused without any change when the property asks for royalties that were not paid.
\<close>

theorem DEx_payment_spec:
  fixes s :: dex_state
  assumes "dex_ok s" and "addr_ok seller" and "addr_ok buyer"
    and "DEx_getTokenForSale s seller = Some p" and "DEx_getAccept s seller p buyer = Some acc"
    and "IsFeatureActivated (consensusParams s) FEATURE_DEXMATH block"
    and "d = accept_RPD_desired acc" and "0 < d" and "d \<le> MAX_INT64"
    and "off = accept_offer_amount acc" and "0 \<le> off" and "off \<le> MAX_INT64"
    and "credit = payment_credit s seller p d paid" and "0 \<le> credit" and "credit \<le> MAX_INT64"
    and "cdiv (credit * off) d \<le> MAX_INT64"
    and "x = min (cdiv (credit * off) d) (accept_amount_remaining acc)"
  shows "if royalties_paid s p d payments
    then \<exists>s' am. DEx_payment txid vout seller buyer paid block payments s = Some (if x > 0 then 0 else DEX_ERROR_PAYMENT, s', am)
      \<and> dex_ok s'
      \<and> DEx_getAccept s' seller p buyer = (if x = accept_amount_remaining acc then None
          else Some (acc\<lparr>accept_amount_remaining := accept_amount_remaining acc - x\<rparr>))
      \<and> (\<forall>c q v. GetTokenBalance s' c q v = GetTokenBalance s c q v
          - (if c = seller \<and> q = p \<and> v = ACCEPT_RESERVE then x else 0) + (if c = buyer \<and> q = p \<and> v = BALANCE then x else 0))
    else DEx_payment txid vout seller buyer paid block payments s = Some (DEX_ERROR_PAYMENT - 3, s, None)"
proof (cases "royalties_paid s p d payments")
  case True
  have n: "calculateDExPurchase (accept_offer_amount acc) d (payment_credit s seller p d paid) = Some (cdiv (credit * off) d)"
    using calculateDExPurchase_eq [OF assms(11,12,8,9,14,15)] assms(10,13,16) by simp
  have nn: "0 \<le> cdiv (credit * off) d" using assms by (intro cdiv_nonneg mult_nonneg_nonneg) auto
  have nz: "d \<noteq> 0" using assms(8) by simp
  from payment_ok [OF assms(1-5,7) nz True assms(6) n nn assms(17), of txid vout] show ?thesis
    unfolding if_P [OF True] dex_keeps_def by blast
next
  case False
  obtain pct receiver amount where r: "royalties s p d = (pct, receiver, amount)" by (cases "royalties s p d")
  have guard: "pct > 0 \<and> \<not> list_ex (\<lambda>x. fst x = receiver \<and> snd x \<ge> amount) payments"
    using False by (auto simp: royalties_paid_def r list_ex_iff)
  have "d \<noteq> 0" using assms(8) by simp
  then show ?thesis unfolding if_not_P [OF False]
    unfolding DEx_payment_def assms(4,5) option.case Let_def assms(7) [symmetric] r prod.case if_P [OF guard] by simp
qed

lemma sample_dex_sale: "DEx_getTokenForSale (sample_dex d) ''alice'' = Some 3"
proof -
  have "starts_with (STR_SELLOFFER_ADDR_PROP_COMBO ''alice'' 3) ''alice''"
    by (simp add: starts_with_def STR_SELLOFFER_ADDR_PROP_COMBO_def)
  then show ?thesis by (simp add: DEx_getTokenForSale_def split_offer_key)
qed

lemma sample_dex_royalties: "royalties (sample_dex d) 3 x = (0, [], 0)"
proof -
  have "getSP 3 (new_spinfo ''exodus'') = None" by (simp add: getSP_def new_spinfo_def init_spids_def)
  moreover have "\<not> IsUsernameValid []" by (simp add: IsUsernameValid_def username_match)
  ultimately show ?thesis by (simp add: royalties_def new_entry_def Let_def)
qed

lemma sample_dex_accept: "DEx_getAccept (sample_dex d) ''alice'' 3 ''bob'' = Some (sample_accept d)"
  by (simp add: DEx_getAccept_def)

lemma sample_dexmath: "IsFeatureActivated (consensusParams (sample_dex d)) FEATURE_DEXMATH 10"
  by (simp add: IsFeatureActivated_def feature_block_def CMainConsensusParams_def)

theorem DEx_payment_spec_witness:
  "\<exists>s' am. DEx_payment 9 0 ''alice'' ''bob'' 29 10 [] (sample_dex 100) = Some (0, s', am)
     \<and> GetTokenBalance s' ''bob'' 3 BALANCE = 15 \<and> GetTokenBalance s' ''alice'' 3 ACCEPT_RESERVE = 5"
proof -
  have credit: "29 = payment_credit (sample_dex 100) ''alice'' 3 100 29"
    by (simp add: payment_credit_def sample_dex_royalties s64_id)
  have acc: "100 = accept_RPD_desired (sample_accept 100)" "50 = accept_offer_amount (sample_accept 100)"
    by (simp_all add: sample_accept_def new_accept_def)
  have c: "cdiv (29 * 50) 100 = 15" by (simp add: cdiv_def)
  then have x: "15 = min (cdiv (29 * 50) 100) (accept_amount_remaining (sample_accept 100))"
    by (simp add: sample_accept_def new_accept_def)
  have le: "cdiv (29 * 50) 100 \<le> MAX_INT64" by (simp only: c)
  have "royalties_paid (sample_dex 100) 3 100 []" by (simp add: royalties_paid_def sample_dex_royalties)
  then show ?thesis
    using DEx_payment_spec [OF sample_dex_ok sample_addr(1,2) sample_dex_sale sample_dex_accept sample_dexmath acc(1) _ _ acc(2) _ _ credit _ _ le x,
      where txid = 9 and vout = 0 and payments = "[]"]
    by (auto simp: sample_dex_balance)
qed

text \<open>
  The block handler removes exactly the accepts whose payment window has passed, counts them, leaves the offers alone
  and keeps the exchange consistent; in particular it never stops the process.
\<close>

lemma eraseExpiredAccepts_spec:
  fixes s :: dex_state
  assumes "dex_ok s"
  shows "\<exists>s'. eraseExpiredAccepts now s = Some (length (filter (\<lambda>e. accept_expired now (snd e)) (my_accepts s)), s')
    \<and> dex_ok s' \<and> my_offers s' = my_offers s
    \<and> my_accepts s' = filter (\<lambda>e. \<not> accept_expired now (snd e)) (my_accepts s)
    \<and> (\<forall>p. token_supply s' p = token_supply s p)"
  using eraseExpiredAccepts_ok [OF assms, of now] by (auto simp: dex_keeps_def)

text \<open>
  \<^bold>\<open>C29\<close>. A payment stops the process, on every node that sees it, when the accepted offer asked for a negative amount, or
  when the exact amount it buys does not fit 64 bits (before it is cut to what the accept
  reserves). The desired amount of an offer is only compared with zero when the offer is made.
\<close>

theorem DEx_payment_stops:
  fixes s :: dex_state
  assumes "DEx_getTokenForSale s seller = Some p" and "DEx_getAccept s seller p buyer = Some acc"
    and "IsFeatureActivated (consensusParams s) FEATURE_DEXMATH block"
    and "d = accept_RPD_desired acc" and "royalties_paid s p d payments" and "credit = payment_credit s seller p d paid"
    and "d < 0 \<or> (0 < d \<and> d \<le> MAX_INT64 \<and> 0 \<le> accept_offer_amount acc \<and> accept_offer_amount acc \<le> MAX_INT64
       \<and> 0 \<le> credit \<and> credit \<le> MAX_INT64 \<and> MAX_INT64 * d < credit * accept_offer_amount acc)"
  shows "DEx_payment txid vout seller buyer paid block payments s = None"
proof -
  obtain pct receiver amount where r: "royalties s p d = (pct, receiver, amount)" by (cases "royalties s p d")
  have guard: "\<not> (pct > 0 \<and> \<not> list_ex (\<lambda>x. fst x = receiver \<and> snd x \<ge> amount) payments)"
    using assms(5) by (auto simp: royalties_paid_def r list_ex_iff)
  have nz: "d \<noteq> 0" using assms(7) by auto
  have "calculateDExPurchase (accept_offer_amount acc) d credit = None"
  proof (cases "d < 0")
    case True
    then show ?thesis by (rule calculateDExPurchase_negative)
  next
    case False
    then have b: "0 < d" "d \<le> MAX_INT64" "0 \<le> accept_offer_amount acc" "accept_offer_amount acc \<le> MAX_INT64"
      "0 \<le> credit" "credit \<le> MAX_INT64" "MAX_INT64 * d < credit * accept_offer_amount acc" using assms(7) by auto
    have "credit * accept_offer_amount acc \<le> cdiv (credit * accept_offer_amount acc) d * d" by (rule cdiv_bounds(1) [OF b(1)])
    then have "MAX_INT64 * d < cdiv (credit * accept_offer_amount acc) d * d" using b(7) by linarith
    then have "MAX_INT64 < cdiv (credit * accept_offer_amount acc) d" using b(1) by (simp add: mult_less_cancel_right)
    then show ?thesis using calculateDExPurchase_eq [OF b(3,4,1,2,5,6)] by simp
  qed
  then have none: "calculateDExPurchase (accept_offer_amount acc) d (if seller \<noteq> receiver then s64 (paid + amount) else paid) = None"
    unfolding assms(6) payment_credit_def r prod.case .
  show ?thesis
    unfolding DEx_payment_def assms(1,2) option.case Let_def assms(4) [symmetric] if_not_P [OF nz] r prod.case if_not_P [OF guard]
      if_P [OF assms(3)] none by simp
qed

theorem DEx_payment_stops_witness: "DEx_payment 9 0 ''alice'' ''bob'' 29 10 [] (sample_dex (- 5)) = None"
proof (rule DEx_payment_stops [OF sample_dex_sale sample_dex_accept sample_dexmath _ _ refl])
  show "- 5 = accept_RPD_desired (sample_accept (- 5))" by (simp add: sample_accept_def new_accept_def)
  show "royalties_paid (sample_dex (- 5)) 3 (- 5) []" by (simp add: royalties_paid_def sample_dex_royalties)
qed simp

text \<open>
  When the seller cancels the offer, an accept of it stays open and its tokens stay reserved, but a payment for it is no
  longer recognised: the buyer's money is gone and the tokens return to the seller when the accept expires.
\<close>

lemma DEx_payment_after_cancel:
  fixes s :: dex_state
  assumes "dex_ok s" and "addr_ok seller" and "my_offers s = [(STR_SELLOFFER_ADDR_PROP_COMBO seller p, o')]"
    and "DEx_getAccept s seller p buyer = Some acc"
  shows "\<exists>s'. DEx_offerDestroy seller p s = Some (0, s') \<and> DEx_getAccept s' seller p buyer = Some acc
    \<and> DEx_payment txid vout seller buyer paid block payments s' = Some (DEX_ERROR_PAYMENT - 1, s', None)"
proof -
  have "DEx_offerExists s seller p" using assms(3) by (simp add: DEx_offerExists_def)
  from offerDestroy_ok [OF assms(1,2) this] obtain s' where s': "DEx_offerDestroy seller p s = Some (0, s')"
    "my_offers s' = smap_del (STR_SELLOFFER_ADDR_PROP_COMBO seller p) (my_offers s)" "my_accepts s' = my_accepts s" by blast
  then have "DEx_getTokenForSale s' seller = None" by (simp add: DEx_getTokenForSale_def assms(3) smap_del_def)
  then show ?thesis using s' assms(4) by (simp add: DEx_payment_def DEx_getAccept_def)
qed

end
