(* ===== verification/MetaDex.thy ===== *)
theory MetaDex
  imports Complex_Main Dex
begin

text \<open>
  The distributed exchange of token pairs, \<^verbatim>\<open>src/src/tokencore/mdex.{h,cpp}\<close>: the order book, the matching of a
  new order against it, insertion and the cancellations.

  The book is what the code keeps: a map from properties to maps from prices to sets of orders, sorted by
  block and index within the block. \<^verbatim>\<open>rational_t\<close> is a rational number: the fractions the code builds have 64-bit
  numerators and denominators, for which the checked 128-bit arithmetic of comparisons does not
  overflow. The calls that record trades and cancellations in the databases are kept as lists. A loop over a set
  returns the new set; the code erases an order and inserts its replacement, which has the same block
  and index and so takes the same place.

  The invariant \<open>mdex_ok\<close> states that the reserve of every address is exactly what its open orders
  still offer, and that the book is sorted by the orders' own prices and positions. The lemmas
  show that matching never fails one of its many assertions, keeps the invariant and the total of every property
  (supply plus cached fees), and that every match respects the price limits of both orders.
\<close>

abbreviation METADEX_ERROR :: int where "METADEX_ERROR \<equiv> - 81000"
abbreviation FEATURE_FEES :: nat where "FEATURE_FEES \<equiv> 9"
abbreviation ADD :: nat where "ADD \<equiv> 1"
abbreviation CANCEL_AT_PRICE :: nat where "CANCEL_AT_PRICE \<equiv> 2"

record CMPMetaDEx =
  md_block :: int
  md_txid :: nat
  md_idx :: nat
  md_property :: property_id
  md_amount_forsale :: int
  md_desired_property :: property_id
  md_amount_desired :: int
  md_amount_remaining :: int
  md_subaction :: nat
  md_addr :: string

definition new_metadex :: "string \<Rightarrow> int \<Rightarrow> property_id \<Rightarrow> int \<Rightarrow> property_id \<Rightarrow> int \<Rightarrow> nat \<Rightarrow> nat \<Rightarrow> nat \<Rightarrow> CMPMetaDEx" where
  "new_metadex addr b c nValue cd ad tx i suba =
     \<lparr>md_block = b, md_txid = tx, md_idx = i, md_property = c, md_amount_forsale = nValue, md_desired_property = cd,
      md_amount_desired = ad, md_amount_remaining = nValue, md_subaction = suba, md_addr = addr\<rparr>"

text \<open>A default rational is zero.\<close>

definition unitPrice :: "CMPMetaDEx \<Rightarrow> rat" where
  "unitPrice m = (if md_amount_forsale m \<noteq> 0 then of_int (md_amount_desired m) / of_int (md_amount_forsale m) else 0)"

definition inversePrice :: "CMPMetaDEx \<Rightarrow> rat" where
  "inversePrice m = (if md_amount_desired m \<noteq> 0 then of_int (md_amount_forsale m) / of_int (md_amount_desired m) else 0)"

definition getAmountToFill :: "CMPMetaDEx \<Rightarrow> int option" where
  "getAmountToFill m = do {
     r \<leftarrow> ConvertTo256 (md_amount_remaining m);
     d \<leftarrow> ConvertTo256 (md_amount_desired m);
     f \<leftarrow> ConvertTo256 (md_amount_forsale m);
     iAmountNeededToFill \<leftarrow> DivideAndRoundUp (mul256 r d) f;
     ConvertTo64 iAmountNeededToFill
   }"

definition MetaDEx_compare :: "CMPMetaDEx \<Rightarrow> CMPMetaDEx \<Rightarrow> bool" where
  "MetaDEx_compare lhs rhs =
     (if md_block lhs = md_block rhs then md_idx lhs < md_idx rhs else md_block lhs < md_block rhs)"

type_synonym md_Set = "CMPMetaDEx list"
type_synonym md_PricesMap = "(rat \<times> md_Set) list"
type_synonym md_PropertiesMap = "(property_id \<times> md_PricesMap) list"

text \<open>The arguments of \<^verbatim>\<open>recordMatchedTrade\<close> and \<^verbatim>\<open>recordMetaDExCancelTX\<close>.\<close>

record MatchedTrade =
  mt_txid1 :: nat
  mt_txid2 :: nat
  mt_address1 :: string
  mt_address2 :: string
  mt_prop1 :: property_id
  mt_prop2 :: property_id
  mt_amount1 :: int
  mt_amount2 :: int
  mt_block :: int
  mt_fee :: int

record CancelTX =
  ct_txid :: nat
  ct_cancelled :: nat
  ct_valid :: bool
  ct_block :: int
  ct_property :: property_id
  ct_amount :: int

record mdex_state = dex_state +
  metadex :: md_PropertiesMap
  recordedTrades :: "MatchedTrade list"
  recordedCancels :: "CancelTX list"

definition get_Prices :: "property_id \<Rightarrow> 's mdex_state_scheme \<Rightarrow> md_PricesMap option" where
  "get_Prices p s = map_of (metadex s) p"

definition get_Indexes :: "md_PricesMap \<Rightarrow> rat \<Rightarrow> md_Set option" where
  "get_Indexes prices price = map_of prices price"

datatype MatchReturnType = NOTHING | TRADED | TRADED_MOREINSELLER | TRADED_MOREINBUYER | ADDED | CANCELLED

subsection \<open>Matching\<close>

text \<open>How many units the new order can buy from the old one, and what it has to pay: \<open>None\<close> if an assertion fails.\<close>

definition could_buy :: "CMPMetaDEx \<Rightarrow> CMPMetaDEx \<Rightarrow> int option" where
  "could_buy pnew pold = do {
     n \<leftarrow> ConvertTo256 (md_amount_remaining pnew);
     f \<leftarrow> ConvertTo256 (md_amount_forsale pold);
     d \<leftarrow> ConvertTo256 (md_amount_desired pold);
     iCouldBuy \<leftarrow> div256 (mul256 n f) d;
     r \<leftarrow> ConvertTo256 (md_amount_remaining pold);
     if iCouldBuy < r then ConvertTo64 iCouldBuy else Some (md_amount_remaining pold)
   }"

definition would_pay :: "int \<Rightarrow> CMPMetaDEx \<Rightarrow> int option" where
  "would_pay nCouldBuy pold = do {
     n \<leftarrow> ConvertTo256 nCouldBuy;
     d \<leftarrow> ConvertTo256 (md_amount_desired pold);
     f \<leftarrow> ConvertTo256 (md_amount_forsale pold);
     iWouldPay \<leftarrow> DivideAndRoundUp (mul256 n d) f;
     ConvertTo64 iWouldPay
   }"

text \<open>
  The transfers of a match, with the fee of the pairs without a native token. The result has the fee, what the buyer
  gets after it, and the state.
\<close>

definition execute_match :: "CMPMetaDEx \<Rightarrow> CMPMetaDEx \<Rightarrow> int \<Rightarrow> int \<Rightarrow> 's mdex_state_scheme
    \<Rightarrow> (int \<times> int \<times> 's mdex_state_scheme) option" where
  "execute_match pnew pold buyer_amountGot seller_amountGot s = do {
     (tradingFee, s0) \<leftarrow>
       (if IsFeatureActivated (consensusParams s) FEATURE_FEES (md_block pnew)
           \<and> md_property pold > TOKEN_PROPERTY_TMSC \<and> md_desired_property pold > TOKEN_PROPERTY_TMSC
        then do {
          let fee = sdiv64 buyer_amountGot 2000;
          s' \<leftarrow> AddFee (md_desired_property pnew) (md_block pnew) fee s;
          Some (fee, s')
        } else Some (0, s));
     let buyer_amountGotAfterFee = s64 (buyer_amountGot - tradingFee);
     s1 \<leftarrow> assert_update (md_addr pnew) (md_property pnew) (- seller_amountGot) BALANCE s0;
     s2 \<leftarrow> assert_update (md_addr pold) (md_desired_property pold) seller_amountGot BALANCE s1;
     s3 \<leftarrow> assert_update (md_addr pold) (md_property pold) (- buyer_amountGot) METADEX_RESERVE s2;
     s4 \<leftarrow> assert_update (md_addr pnew) (md_desired_property pnew) buyer_amountGotAfterFee BALANCE s3;
     Some (tradingFee, buyer_amountGotAfterFee, s4)
   }"

text \<open>
  The inner loop, over the orders of one price. \<open>pnew\<close> and the state are threaded through; the result
  is the set of orders left, whether the buyer is satisfied, and the last return code.
\<close>

fun trade_offers :: "rat \<Rightarrow> md_Set \<Rightarrow> CMPMetaDEx \<Rightarrow> MatchReturnType \<Rightarrow> 's mdex_state_scheme
    \<Rightarrow> (md_Set \<times> CMPMetaDEx \<times> bool \<times> MatchReturnType \<times> 's mdex_state_scheme) option" where
  "trade_offers sellersPrice [] pnew ret s = Some ([], pnew, False, ret, s)"
| "trade_offers sellersPrice (pold # offers) pnew ret s =
     (let skip = do {
          (rest, pnew', sat, ret', s') \<leftarrow> trade_offers sellersPrice offers pnew ret s;
          Some (pold # rest, pnew', sat, ret', s')
        }
      in if unitPrice pold \<noteq> sellersPrice then None
         else if md_desired_property pold \<noteq> md_property pnew then skip
         else if \<not> (0 < md_amount_remaining pold \<and> 0 < md_amount_remaining pnew
                \<and> md_property pnew \<noteq> md_desired_property pnew \<and> md_property pnew = md_desired_property pold
                \<and> md_property pold = md_desired_property pnew
                \<and> unitPrice pold \<le> inversePrice pnew \<and> unitPrice pnew \<le> inversePrice pold) then None
         else do {
           nCouldBuy \<leftarrow> could_buy pnew pold;
           if nCouldBuy = 0 then skip
           else do {
             nWouldPay \<leftarrow> would_pay nCouldBuy pold;
             let xEffectivePrice = (of_int nWouldPay / of_int nCouldBuy :: rat);
             if xEffectivePrice > inversePrice pnew then skip
             else do {
               let buyer_amountLeft = s64 (md_amount_remaining pnew - nWouldPay);
               let seller_amountLeft = s64 (md_amount_remaining pold - nCouldBuy);
               if \<not> (xEffectivePrice \<ge> unitPrice pold \<and> xEffectivePrice \<le> inversePrice pnew
                      \<and> 0 \<le> seller_amountLeft \<and> 0 \<le> buyer_amountLeft
                      \<and> md_amount_remaining pold = s64 (seller_amountLeft + nCouldBuy)
                      \<and> md_amount_remaining pnew = s64 (buyer_amountLeft + nWouldPay)) then None
               else do {
                 (tradingFee, buyer_amountGotAfterFee, s1) \<leftarrow> execute_match pnew pold nCouldBuy nWouldPay s;
                 let seller_replacement = pold\<lparr>md_amount_remaining := seller_amountLeft\<rparr>;
                 let pnew1 = pnew\<lparr>md_amount_remaining := buyer_amountLeft\<rparr>;
                 let ret1 = (if 0 < seller_amountLeft then TRADED_MOREINSELLER
                   else if 0 < buyer_amountLeft then TRADED_MOREINBUYER else TRADED);
                 let s2 = s1\<lparr>recordedTrades := recordedTrades s1 @
                   [\<lparr>mt_txid1 = md_txid pold, mt_txid2 = md_txid pnew, mt_address1 = md_addr pold, mt_address2 = md_addr pnew,
                     mt_prop1 = md_desired_property pold, mt_prop2 = md_desired_property pnew, mt_amount1 = nWouldPay,
                     mt_amount2 = buyer_amountGotAfterFee, mt_block = md_block pnew, mt_fee = tradingFee\<rparr>]\<rparr>;
                 let kept = (if 0 < seller_amountLeft then [seller_replacement] else []);
                 if buyer_amountLeft = 0 then Some (kept @ offers, pnew1, True, ret1, s2)
                 else do {
                   (rest, pnew', sat, ret', s') \<leftarrow> trade_offers sellersPrice offers pnew1 ret1 s2;
                   Some (kept @ rest, pnew', sat, ret', s')
                 }
               }
             }
           }
         })"

text \<open>The outer loop, over all prices: prices above the buyer's are passed over.\<close>

fun trade_prices :: "md_PricesMap \<Rightarrow> CMPMetaDEx \<Rightarrow> MatchReturnType \<Rightarrow> 's mdex_state_scheme
    \<Rightarrow> (md_PricesMap \<times> CMPMetaDEx \<times> MatchReturnType \<times> 's mdex_state_scheme) option" where
  "trade_prices [] pnew ret s = Some ([], pnew, ret, s)"
| "trade_prices ((sellersPrice, offerSet) # prices) pnew ret s =
     (if inversePrice pnew < sellersPrice then do {
        (rest, pnew', ret', s') \<leftarrow> trade_prices prices pnew ret s;
        Some ((sellersPrice, offerSet) # rest, pnew', ret', s')
      } else do {
        (offerSet', pnew1, sat, ret1, s1) \<leftarrow> trade_offers sellersPrice offerSet pnew ret s;
        if sat then Some ((sellersPrice, offerSet') # prices, pnew1, ret1, s1)
        else do {
          (rest, pnew', ret', s') \<leftarrow> trade_prices prices pnew1 ret1 s1;
          Some ((sellersPrice, offerSet') # rest, pnew', ret', s')
        }
      })"

definition x_Trade :: "CMPMetaDEx \<Rightarrow> 's mdex_state_scheme \<Rightarrow> (MatchReturnType \<times> CMPMetaDEx \<times> 's mdex_state_scheme) option" where
  "x_Trade pnew s =
     (case get_Prices (md_desired_property pnew) s of
        None \<Rightarrow> Some (NOTHING, pnew, s)
      | Some ppriceMap \<Rightarrow> do {
          (prices, pnew', ret, s') \<leftarrow> trade_prices ppriceMap pnew NOTHING s;
          Some (ret, pnew', s'\<lparr>metadex := smap_upd (md_desired_property pnew) prices (metadex s')\<rparr>)
        })"

subsection \<open>Insertion\<close>

text \<open>\<^verbatim>\<open>std::set::insert\<close> reports whether there was no equivalent order.\<close>

definition md_insert :: "CMPMetaDEx \<Rightarrow> md_Set \<Rightarrow> bool \<times> md_Set" where
  "md_insert m indexes =
     (list_all (\<lambda>x. MetaDEx_compare x m \<or> MetaDEx_compare m x) indexes, set_insert_by MetaDEx_compare m indexes)"

definition MetaDEx_INSERT :: "CMPMetaDEx \<Rightarrow> 's mdex_state_scheme \<Rightarrow> bool \<times> 's mdex_state_scheme" where
  "MetaDEx_INSERT objMetaDEx s =
     (let prices = (case get_Prices (md_property objMetaDEx) s of Some p \<Rightarrow> p | None \<Rightarrow> []);
          indexes = (case get_Indexes prices (unitPrice objMetaDEx) of Some i \<Rightarrow> i | None \<Rightarrow> []);
          (new, indexes') = md_insert objMetaDEx indexes
      in if \<not> new then (False, s)
         else (True, s\<lparr>metadex := smap_upd (md_property objMetaDEx)
           (smap_upd (unitPrice objMetaDEx) indexes' prices) (metadex s)\<rparr>))"

definition MetaDEx_ADD :: "string \<Rightarrow> property_id \<Rightarrow> int \<Rightarrow> int \<Rightarrow> property_id \<Rightarrow> int \<Rightarrow> nat \<Rightarrow> nat
    \<Rightarrow> 's mdex_state_scheme \<Rightarrow> (int \<times> 's mdex_state_scheme) option" where
  "MetaDEx_ADD sender_addr p amount block property_desired amount_desired txid idx s =
     (let new_mdex = new_metadex sender_addr block p amount property_desired amount_desired txid idx ADD
      in if 0 \<ge> unitPrice new_mdex then Some (METADEX_ERROR - 66, s)
         else do {
           (_, new_mdex', s1) \<leftarrow> x_Trade new_mdex s;
           if 0 < md_amount_remaining new_mdex' then
             (let (inserted, s2) = MetaDEx_INSERT new_mdex' s1
              in if \<not> inserted then Some (METADEX_ERROR - 70, s1)
                 else do {
                   s3 \<leftarrow> assert_update sender_addr p (- md_amount_remaining new_mdex') BALANCE s2;
                   s4 \<leftarrow> assert_update sender_addr p (md_amount_remaining new_mdex') METADEX_RESERVE s3;
                   Some (0, s4)
                 })
           else Some (0, s1)
         })"

subsection \<open>Cancellation\<close>

text \<open>Moving what an order still offers from the reserve to the balance.\<close>

definition refund :: "CMPMetaDEx \<Rightarrow> 's mdex_state_scheme \<Rightarrow> 's mdex_state_scheme option" where
  "refund m s = do {
     s1 \<leftarrow> assert_update (md_addr m) (md_property m) (- md_amount_remaining m) METADEX_RESERVE s;
     assert_update (md_addr m) (md_property m) (md_amount_remaining m) BALANCE s1
   }"

definition recordMetaDExCancelTX :: "nat \<Rightarrow> int \<Rightarrow> CMPMetaDEx \<Rightarrow> 's mdex_state_scheme \<Rightarrow> 's mdex_state_scheme" where
  "recordMetaDExCancelTX txid block m s = s\<lparr>recordedCancels := recordedCancels s @
     [\<lparr>ct_txid = txid, ct_cancelled = md_txid m, ct_valid = True, ct_block = block, ct_property = md_property m,
       ct_amount = md_amount_remaining m\<rparr>]\<rparr>"

text \<open>
  The loop over a set that removes the orders in question; \<open>rc\<close> becomes 0 when there is one. The record is
  passed as a function, since a shutdown records nothing.
\<close>

fun cancel_set :: "(CMPMetaDEx \<Rightarrow> bool) \<Rightarrow> (CMPMetaDEx \<Rightarrow> 's mdex_state_scheme \<Rightarrow> 's mdex_state_scheme) \<Rightarrow> md_Set \<Rightarrow> int
    \<Rightarrow> 's mdex_state_scheme \<Rightarrow> (md_Set \<times> int \<times> 's mdex_state_scheme) option" where
  "cancel_set which rec [] rc s = Some ([], rc, s)"
| "cancel_set which rec (m # indexes) rc s =
     (if \<not> which m then do {
        (rest, rc', s') \<leftarrow> cancel_set which rec indexes rc s;
        Some (m # rest, rc', s')
      } else do {
        s1 \<leftarrow> refund m s;
        cancel_set which rec indexes 0 (rec m s1)
      })"

fun cancel_prices :: "(rat \<Rightarrow> bool) \<Rightarrow> (CMPMetaDEx \<Rightarrow> bool) \<Rightarrow> (CMPMetaDEx \<Rightarrow> 's mdex_state_scheme \<Rightarrow> 's mdex_state_scheme)
    \<Rightarrow> md_PricesMap \<Rightarrow> int \<Rightarrow> 's mdex_state_scheme \<Rightarrow> (md_PricesMap \<times> int \<times> 's mdex_state_scheme) option" where
  "cancel_prices at_price which rec [] rc s = Some ([], rc, s)"
| "cancel_prices at_price which rec ((price, indexes) # prices) rc s =
     (if \<not> at_price price then do {
        (rest, rc', s') \<leftarrow> cancel_prices at_price which rec prices rc s;
        Some ((price, indexes) # rest, rc', s')
      } else do {
        (indexes', rc1, s1) \<leftarrow> cancel_set which rec indexes rc s;
        (rest, rc', s') \<leftarrow> cancel_prices at_price which rec prices rc1 s1;
        Some ((price, indexes') # rest, rc', s')
      })"

fun cancel_properties :: "(property_id \<Rightarrow> bool) \<Rightarrow> (CMPMetaDEx \<Rightarrow> bool) \<Rightarrow> (CMPMetaDEx \<Rightarrow> 's mdex_state_scheme \<Rightarrow> 's mdex_state_scheme)
    \<Rightarrow> md_PropertiesMap \<Rightarrow> int \<Rightarrow> 's mdex_state_scheme \<Rightarrow> (md_PropertiesMap \<times> int \<times> 's mdex_state_scheme) option" where
  "cancel_properties of_prop which rec [] rc s = Some ([], rc, s)"
| "cancel_properties of_prop which rec ((p, prices) # props) rc s =
     (if \<not> of_prop p then do {
        (rest, rc', s') \<leftarrow> cancel_properties of_prop which rec props rc s;
        Some ((p, prices) # rest, rc', s')
      } else do {
        (prices', rc1, s1) \<leftarrow> cancel_prices (\<lambda>_. True) which rec prices rc s;
        (rest, rc', s') \<leftarrow> cancel_properties of_prop which rec props rc1 s1;
        Some ((p, prices') # rest, rc', s')
      })"

definition MetaDEx_CANCEL_AT_PRICE :: "nat \<Rightarrow> int \<Rightarrow> string \<Rightarrow> property_id \<Rightarrow> int \<Rightarrow> property_id \<Rightarrow> int
    \<Rightarrow> 's mdex_state_scheme \<Rightarrow> (int \<times> 's mdex_state_scheme) option" where
  "MetaDEx_CANCEL_AT_PRICE txid block sender_addr p amount property_desired amount_desired s =
     (let mdex = new_metadex sender_addr 0 p amount property_desired amount_desired 0 0 CANCEL_AT_PRICE
      in case get_Prices p s of
           None \<Rightarrow> Some (METADEX_ERROR - 20 - 1, s)
         | Some prices \<Rightarrow> do {
             (prices', rc, s') \<leftarrow> cancel_prices (\<lambda>price. unitPrice mdex = price)
               (\<lambda>m. \<not> (md_desired_property m \<noteq> property_desired \<or> md_addr m \<noteq> sender_addr))
               (recordMetaDExCancelTX txid block) prices (METADEX_ERROR - 20) s;
             Some (rc, s'\<lparr>metadex := smap_upd p prices' (metadex s')\<rparr>)
           })"

definition MetaDEx_CANCEL_ALL_FOR_PAIR :: "nat \<Rightarrow> int \<Rightarrow> string \<Rightarrow> property_id \<Rightarrow> property_id
    \<Rightarrow> 's mdex_state_scheme \<Rightarrow> (int \<times> 's mdex_state_scheme) option" where
  "MetaDEx_CANCEL_ALL_FOR_PAIR txid block sender_addr p property_desired s =
     (case get_Prices p s of
        None \<Rightarrow> Some (METADEX_ERROR - 30 - 1, s)
      | Some prices \<Rightarrow> do {
          (prices', rc, s') \<leftarrow> cancel_prices (\<lambda>_. True)
            (\<lambda>m. \<not> (md_desired_property m \<noteq> property_desired \<or> md_addr m \<noteq> sender_addr))
            (recordMetaDExCancelTX txid block) prices (METADEX_ERROR - 30) s;
          Some (rc, s'\<lparr>metadex := smap_upd p prices' (metadex s')\<rparr>)
        })"

definition MetaDEx_CANCEL_EVERYTHING :: "nat \<Rightarrow> int \<Rightarrow> string \<Rightarrow> nat \<Rightarrow> 's mdex_state_scheme \<Rightarrow> (int \<times> 's mdex_state_scheme) option" where
  "MetaDEx_CANCEL_EVERYTHING txid block sender_addr ecosystem s = do {
     (book, rc, s') \<leftarrow> cancel_properties
       (\<lambda>p. \<not> (isMainEcosystemProperty ecosystem \<and> \<not> isMainEcosystemProperty p)
          \<and> \<not> (isTestEcosystemProperty ecosystem \<and> \<not> isTestEcosystemProperty p))
       (\<lambda>m. md_addr m = sender_addr) (recordMetaDExCancelTX txid block) (metadex s) (METADEX_ERROR - 40) s;
     Some (rc, s'\<lparr>metadex := book\<rparr>)
   }"

definition MetaDEx_SHUTDOWN :: "'s mdex_state_scheme \<Rightarrow> (int \<times> 's mdex_state_scheme) option" where
  "MetaDEx_SHUTDOWN s = do {
     (book, _, s') \<leftarrow> cancel_properties (\<lambda>_. True) (\<lambda>_. True) (\<lambda>_ s. s) (metadex s) 0 s;
     Some (0, s'\<lparr>metadex := book\<rparr>)
   }"

text \<open>
  The loop of \<^verbatim>\<open>MetaDEx_SHUTDOWN_ALLPAIR\<close> advances its iterator only when it erases: at an order
  that it keeps it stays where it is. \<open>None\<close> means that the loop does not return (or that an assertion failed).
\<close>

definition allpair :: "CMPMetaDEx \<Rightarrow> bool" where
  "allpair m \<longleftrightarrow> md_desired_property m > TOKEN_PROPERTY_TMSC \<and> md_property m > TOKEN_PROPERTY_TMSC"

partial_function (option) allpair_loop :: "md_Set \<Rightarrow> 's mdex_state_scheme \<Rightarrow> 's mdex_state_scheme option" where
  "allpair_loop indexes s =
     (case indexes of
        [] \<Rightarrow> Some s
      | m # rest \<Rightarrow> if allpair m then Option.bind (refund m s) (allpair_loop rest) else allpair_loop indexes s)"

fun allpair_prices :: "md_PricesMap \<Rightarrow> 's mdex_state_scheme \<Rightarrow> (md_PricesMap \<times> 's mdex_state_scheme) option" where
  "allpair_prices [] s = Some ([], s)"
| "allpair_prices ((price, indexes) # prices) s = do {
     s1 \<leftarrow> allpair_loop indexes s;
     (rest, s') \<leftarrow> allpair_prices prices s1;
     Some ((price, []) # rest, s')
   }"

fun allpair_properties :: "md_PropertiesMap \<Rightarrow> 's mdex_state_scheme \<Rightarrow> (md_PropertiesMap \<times> 's mdex_state_scheme) option" where
  "allpair_properties [] s = Some ([], s)"
| "allpair_properties ((p, prices) # props) s = do {
     (prices', s1) \<leftarrow> allpair_prices prices s;
     (rest, s') \<leftarrow> allpair_properties props s1;
     Some ((p, prices') # rest, s')
   }"

definition MetaDEx_SHUTDOWN_ALLPAIR :: "'s mdex_state_scheme \<Rightarrow> (int \<times> 's mdex_state_scheme) option" where
  "MetaDEx_SHUTDOWN_ALLPAIR s = do {
     (book, s') \<leftarrow> allpair_properties (metadex s) s;
     Some (0, s'\<lparr>metadex := book\<rparr>)
   }"

subsection \<open>Queries\<close>

definition MetaDEx_isOpen :: "'s mdex_state_scheme \<Rightarrow> nat \<Rightarrow> property_id \<Rightarrow> bool" where
  "MetaDEx_isOpen s txid propertyIdForSale =
     list_ex (\<lambda>(p, prices). \<not> (propertyIdForSale \<noteq> 0 \<and> propertyIdForSale \<noteq> p)
       \<and> list_ex (\<lambda>(price, indexes). list_ex (\<lambda>obj. md_txid obj = txid) indexes) prices) (metadex s)"

definition MetaDEx_RetrieveTrade :: "'s mdex_state_scheme \<Rightarrow> nat \<Rightarrow> CMPMetaDEx option" where
  "MetaDEx_RetrieveTrade s txid =
     List.find (\<lambda>m. txid = md_txid m) (concat (map (\<lambda>(p, prices). concat (map snd prices)) (metadex s)))"

abbreviation TRADE_INVALID :: int where "TRADE_INVALID \<equiv> - 1"
abbreviation TRADE_OPEN :: int where "TRADE_OPEN \<equiv> 1"
abbreviation TRADE_OPEN_PART_FILLED :: int where "TRADE_OPEN_PART_FILLED \<equiv> 2"
abbreviation TRADE_FILLED :: int where "TRADE_FILLED \<equiv> 3"
abbreviation TRADE_CANCELLED :: int where "TRADE_CANCELLED \<equiv> 4"
abbreviation TRADE_CANCELLED_PART_FILLED :: int where "TRADE_CANCELLED_PART_FILLED \<equiv> 5"

definition MetaDEx_getStatusText :: "int \<Rightarrow> string" where
  "MetaDEx_getStatusText tradeStatus =
     (if tradeStatus = TRADE_OPEN then ''open''
      else if tradeStatus = TRADE_OPEN_PART_FILLED then ''open part filled''
      else if tradeStatus = TRADE_FILLED then ''filled''
      else if tradeStatus = TRADE_CANCELLED then ''cancelled''
      else if tradeStatus = TRADE_CANCELLED_PART_FILLED then ''cancelled part filled''
      else if tradeStatus = TRADE_INVALID then ''trade invalid''
      else ''unknown'')"

text \<open>\<open>valid\<close> is the answer of \<^verbatim>\<open>getValidMPTX\<close>, \<open>sold\<close> the amount \<^verbatim>\<open>getMatchingTrades\<close> finds when the caller passes -1.\<close>

definition MetaDEx_getStatus :: "'s mdex_state_scheme \<Rightarrow> bool \<Rightarrow> int \<Rightarrow> nat \<Rightarrow> property_id \<Rightarrow> int \<Rightarrow> int \<Rightarrow> int" where
  "MetaDEx_getStatus s valid sold txid propertyIdForSale amountForSale totalSold =
     (let totalSold' = (if totalSold = - 1 then sold else totalSold)
      in if \<not> valid then TRADE_INVALID
         else if MetaDEx_isOpen s txid propertyIdForSale
         then (if totalSold' = 0 then TRADE_OPEN else TRADE_OPEN_PART_FILLED)
         else if totalSold' = 0 then TRADE_CANCELLED
         else if totalSold' < amountForSale then TRADE_CANCELLED_PART_FILLED
         else TRADE_FILLED)"

subsection \<open>The comparator\<close>

interpretation md: cmp_set MetaDEx_compare
  by unfold_locales (auto simp: MetaDEx_compare_def split: if_splits)

subsection \<open>The arithmetic of a match\<close>

definition order_ok :: "CMPMetaDEx \<Rightarrow> bool" where
  "order_ok m \<longleftrightarrow> 0 < md_amount_forsale m \<and> md_amount_forsale m \<le> MAX_INT64
     \<and> 0 < md_amount_desired m \<and> md_amount_desired m \<le> MAX_INT64
     \<and> 0 < md_amount_remaining m \<and> md_amount_remaining m \<le> md_amount_forsale m
     \<and> md_property m \<noteq> md_desired_property m"

lemma prices_pos:
  assumes "order_ok m"
  shows "unitPrice m = of_int (md_amount_desired m) / of_int (md_amount_forsale m)"
    and "inversePrice m = of_int (md_amount_forsale m) / of_int (md_amount_desired m)"
    and "0 < unitPrice m" and "0 < inversePrice m" and "unitPrice m = inverse (inversePrice m)"
  using assms by (simp_all add: order_ok_def unitPrice_def inversePrice_def)

lemma prices_swap:
  assumes "order_ok m" and "order_ok n" and "unitPrice m \<le> inversePrice n"
  shows "unitPrice n \<le> inversePrice m"
proof -
  have "inverse (inversePrice n) \<le> inverse (unitPrice m)"
    using assms(3) prices_pos(3) [OF assms(1)] by (rule le_imp_inverse_le)
  then show ?thesis using prices_pos(5) [OF assms(2)] prices_pos(5) [OF assms(1)] by simp
qed

definition buys :: "CMPMetaDEx \<Rightarrow> CMPMetaDEx \<Rightarrow> int" where
  "buys pnew pold = min (md_amount_remaining pnew * md_amount_forsale pold div md_amount_desired pold) (md_amount_remaining pold)"

definition pays :: "CMPMetaDEx \<Rightarrow> CMPMetaDEx \<Rightarrow> int" where
  "pays pnew pold = cdiv (buys pnew pold * md_amount_desired pold) (md_amount_forsale pold)"

lemma buys_bounds:
  assumes "order_ok pnew" and "order_ok pold"
  shows "0 \<le> buys pnew pold" and "buys pnew pold \<le> md_amount_remaining pold"
    and "buys pnew pold * md_amount_desired pold \<le> md_amount_remaining pnew * md_amount_forsale pold"
proof -
  let ?n = "md_amount_remaining pnew * md_amount_forsale pold" and ?d = "md_amount_desired pold"
  have d: "0 < ?d" and n: "0 \<le> ?n" using assms by (simp_all add: order_ok_def)
  then show "0 \<le> buys pnew pold" using assms(2) by (simp add: buys_def order_ok_def pos_imp_zdiv_nonneg_iff)
  show "buys pnew pold \<le> md_amount_remaining pold" by (simp add: buys_def)
  have "buys pnew pold \<le> ?n div ?d" by (simp add: buys_def)
  then have "buys pnew pold * ?d \<le> ?n div ?d * ?d" using d by (intro mult_right_mono) simp_all
  also have "\<dots> \<le> ?n" using pos_mod_sign [OF d, of ?n] div_mult_mod_eq [of ?n ?d] by linarith
  finally show "buys pnew pold * ?d \<le> ?n" .
qed

lemma could_buy_eq:
  assumes "order_ok pnew" and "order_ok pold"
  shows "could_buy pnew pold = Some (buys pnew pold)"
proof -
  let ?rn = "md_amount_remaining pnew" and ?f = "md_amount_forsale pold" and ?d = "md_amount_desired pold" and ?r = "md_amount_remaining pold"
  have b: "0 \<le> ?rn" "?rn \<le> MAX_INT64" "0 \<le> ?f" "?f \<le> MAX_INT64" "0 < ?d" "?d \<le> MAX_INT64" "0 \<le> ?r" "?r \<le> MAX_INT64"
    using assms by (auto simp: order_ok_def)
  have q: "div256 (mul256 ?rn ?f) ?d = Some (?rn * ?f div ?d)" using b mul256_int64 [OF b(1-4)] by (simp add: div256_def)
  have nn: "0 \<le> ?rn * ?f div ?d" using b by (simp add: pos_imp_zdiv_nonneg_iff)
  show ?thesis
  proof (cases "?rn * ?f div ?d < ?r")
    case True
    then have "ConvertTo64 (?rn * ?f div ?d) = Some (?rn * ?f div ?d)" using nn b(8) by (intro ConvertTo64_eq) linarith+
    then show ?thesis using True b q by (simp add: could_buy_def ConvertTo256_eq buys_def)
  next
    case False
    then show ?thesis using b q by (simp add: could_buy_def ConvertTo256_eq buys_def)
  qed
qed

lemma pays_bounds:
  assumes "order_ok pnew" and "order_ok pold" and "buys pnew pold \<noteq> 0"
  shows "0 < pays pnew pold" and "pays pnew pold \<le> md_amount_remaining pnew"
    and "would_pay (buys pnew pold) pold = Some (pays pnew pold)"
    and "unitPrice pold \<le> of_int (pays pnew pold) / of_int (buys pnew pold)"
proof -
  let ?n = "buys pnew pold" and ?d = "md_amount_desired pold" and ?f = "md_amount_forsale pold"
  note bb = buys_bounds [OF assms(1,2)]
  have b: "0 < ?n" "0 < ?d" "?d \<le> MAX_INT64" "0 < ?f" "?f \<le> MAX_INT64" "md_amount_remaining pnew \<le> MAX_INT64"
    using assms bb(1) by (auto simp: order_ok_def)
  have nle: "?n \<le> MAX_INT64" using bb(2) assms(2) by (auto simp: order_ok_def)
  show pos: "0 < pays pnew pold" unfolding pays_def using b by (intro cdiv_pos) simp_all
  have "(pays pnew pold - 1) * ?f < ?n * ?d" unfolding pays_def by (rule cdiv_bounds(2) [OF b(4)])
  then have "(pays pnew pold - 1) * ?f < md_amount_remaining pnew * ?f" using bb(3) by linarith
  then have "pays pnew pold - 1 < md_amount_remaining pnew" using b(4) by (simp add: mult_less_cancel_right)
  then show le: "pays pnew pold \<le> md_amount_remaining pnew" by simp
  have m: "mul256 ?n ?d = ?n * ?d" "?n * ?d \<le> 2 ^ 254" "0 \<le> ?n * ?d"
    using mul256_int64 [of ?n ?d] mult_int64_bound [of ?n ?d] b nle by simp_all
  then have "DivideAndRoundUp (mul256 ?n ?d) ?f = Some (pays pnew pold)"
    using DivideAndRoundUp_eq [of "?n * ?d" ?f] b by (simp add: pays_def)
  moreover have "ConvertTo64 (pays pnew pold) = Some (pays pnew pold)" using pos le b(6) by (intro ConvertTo64_eq) linarith+
  ultimately show "would_pay ?n pold = Some (pays pnew pold)" using b nle by (simp add: would_pay_def ConvertTo256_eq)
  have "?n * ?d \<le> pays pnew pold * ?f" unfolding pays_def by (rule cdiv_bounds(1) [OF b(4)])
  then have "rat_of_int (?n * ?d) \<le> rat_of_int (pays pnew pold * ?f)" by (rule iffD2 [OF of_int_le_iff])
  then have "rat_of_int ?n * rat_of_int ?d \<le> rat_of_int (pays pnew pold) * rat_of_int ?f" unfolding of_int_mult .
  then show "unitPrice pold \<le> of_int (pays pnew pold) / of_int ?n"
    unfolding prices_pos(1) [OF assms(2)] using b by (simp add: field_simps)
qed

subsection \<open>The transfers of a match\<close>

text \<open>Who receives fees depends on the balances only.\<close>

definition held :: "'s ledger_scheme \<Rightarrow> string \<Rightarrow> property_id \<Rightarrow> int" where
  "held s a p = GetTokenBalance s a p BALANCE + GetTokenBalance s a p SELLOFFER_RESERVE
     + GetTokenBalance s a p ACCEPT_RESERVE + GetTokenBalance s a p METADEX_RESERVE"

lemma sto_owners_held:
  assumes "tallies_ok s"
  shows "sto_owners sender p (mp_tally_map s) = {(held s a p, a) | a. a \<noteq> sender \<and> 0 < held s a p}"
proof -
  have um: "umap_ok (mp_tally_map s)" using assms by (simp add: tallies_ok_def)
  have total: "held s a p = (case map_of (mp_tally_map s) a of None \<Rightarrow> 0 | Some t \<Rightarrow> tally_total t p)" for a
    by (auto simp: held_def GetTokenBalance_def tally_total_def split: option.split)
  show ?thesis
    unfolding sto_owners_def using umap.member_lookup [OF um] by (auto simp: total split: option.splits)
qed

lemma fee_holders_cong:
  assumes "tallies_ok s" and "tallies_ok s'"
    and "\<And>a ty m. m = TOKEN_PROPERTY_MSC \<or> m = TOKEN_PROPERTY_TMSC \<Longrightarrow> GetTokenBalance s' a m ty = GetTokenBalance s a m ty"
  shows "fee_holders q s' = fee_holders q s"
  unfolding fee_holders_def sto_owners_held [OF assms(1)] sto_owners_held [OF assms(2)] by (simp add: held_def assms(3))

definition fees_apply :: "'s mdex_state_scheme \<Rightarrow> CMPMetaDEx \<Rightarrow> bool" where
  "fees_apply s pnew \<longleftrightarrow> IsFeatureActivated (consensusParams s) FEATURE_FEES (md_block pnew)
     \<and> md_desired_property pnew > TOKEN_PROPERTY_TMSC \<and> md_property pnew > TOKEN_PROPERTY_TMSC"

text \<open>What a match may change besides the balances.\<close>

definition mdex_frame :: "'s mdex_state_scheme \<Rightarrow> 's mdex_state_scheme \<Rightarrow> bool" where
  "mdex_frame s s' \<longleftrightarrow> (\<exists>m c h d b t. s' = s\<lparr>mp_tally_map := m, pDbFeeCache := c, pDbFeeHistory := h,
     distributionThresholds := d, shutdownRequested := b, recordedTrades := t\<rparr>)"

lemma mdex_frame_refl: "mdex_frame s s"
  unfolding mdex_frame_def
  by (rule exI [of _ "mp_tally_map s"], rule exI [of _ "pDbFeeCache s"], rule exI [of _ "pDbFeeHistory s"],
      rule exI [of _ "distributionThresholds s"], rule exI [of _ "shutdownRequested s"], rule exI [of _ "recordedTrades s"]) simp

lemma mdex_frame_fee: "fee_frame s s' \<Longrightarrow> mdex_frame s s'"
proof -
  assume "fee_frame s s'"
  then obtain m c h d b where "s' = s\<lparr>mp_tally_map := m, pDbFeeCache := c, pDbFeeHistory := h,
      distributionThresholds := d, shutdownRequested := b\<rparr>" by (auto simp: fee_frame_def)
  then have "s' = s\<lparr>mp_tally_map := m, pDbFeeCache := c, pDbFeeHistory := h,
      distributionThresholds := d, shutdownRequested := b, recordedTrades := recordedTrades s\<rparr>" by simp
  then show ?thesis unfolding mdex_frame_def by blast
qed

lemma mdex_frame_trans: "mdex_frame s s1 \<Longrightarrow> mdex_frame s1 s2 \<Longrightarrow> mdex_frame s s2"
  by (auto simp: mdex_frame_def) blast

lemma mdex_frame_fields:
  assumes "mdex_frame s s'"
  shows "consensusParams s' = consensusParams s" and "metadex s' = metadex s" and "my_offers s' = my_offers s"
    and "my_accepts s' = my_accepts s" and "isAddressFrozen s' = isAddressFrozen s"
  using assms by (auto simp: mdex_frame_def isAddressFrozen_def fun_eq_iff)

lemma match_transfers:
  fixes s :: "'s mdex_state_scheme"
  assumes wf: "tallies_ok s" and tot: "\<And>r. token_supply s r \<le> MAX_INT64 + (if r = q then fee else 0)" and pq: "p \<noteq> q"
    and pay: "0 < pay" "pay \<le> GetTokenBalance s a p BALANCE" "\<not> isAddressFrozen s a p"
    and n: "0 < n" "n \<le> GetTokenBalance s b q METADEX_RESERVE" and fee: "0 \<le> fee" "fee < n"
  shows "\<exists>s1 s2 s3 m. assert_update a p (- pay) BALANCE s = Some s1 \<and> assert_update b p pay BALANCE s1 = Some s2
    \<and> assert_update b q (- n) METADEX_RESERVE s2 = Some s3 \<and> assert_update a q (n - fee) BALANCE s3 = Some (s\<lparr>mp_tally_map := m\<rparr>)
    \<and> tallies_ok (s\<lparr>mp_tally_map := m\<rparr>)
    \<and> (\<forall>r. token_supply (s\<lparr>mp_tally_map := m\<rparr>) r = token_supply s r - (if r = q then fee else 0))
    \<and> (\<forall>c r ty. GetTokenBalance (s\<lparr>mp_tally_map := m\<rparr>) c r ty = GetTokenBalance s c r ty
        - (if c = a \<and> r = p \<and> ty = BALANCE then pay else 0) + (if c = b \<and> r = p \<and> ty = BALANCE then pay else 0)
        - (if c = b \<and> r = q \<and> ty = METADEX_RESERVE then n else 0) + (if c = a \<and> r = q \<and> ty = BALANCE then n - fee else 0))"
proof -
  obtain s1 where s1: "assert_update a p (- pay) BALANCE s = Some s1" "tallies_ok s1"
      "\<And>r. token_supply s1 r = token_supply s r - (if r = p then pay else 0)"
    using tl.debit [OF wf pay(1,2)] pay(3) by (metis counted_simps(1))
  have "GetTokenBalance s1 b p BALANCE \<le> token_supply s1 p" by (rule balance_le_supply [OF s1(2)]) simp
  then have room1: "GetTokenBalance s1 b p BALANCE + pay \<le> MAX_INT64" using s1(3) [of p] tot [of p] pq by simp
  obtain s2 where s2: "assert_update b p pay BALANCE s1 = Some s2" "tallies_ok s2"
      "\<And>r. token_supply s2 r = token_supply s1 r + (if r = p then pay else 0)"
    using tl.credit [OF s1(2) pay(1) room1] by (metis counted_simps(1))
  note bal1 = assert_update_balance [OF s1(1)] and bal2 = assert_update_balance [OF s2(1)]
  have le: "n \<le> GetTokenBalance s2 b q METADEX_RESERVE" using n(2) bal1 bal2 by simp
  obtain s3 where s3: "assert_update b q (- n) METADEX_RESERVE s2 = Some s3" "tallies_ok s3"
      "\<And>r. token_supply s3 r = token_supply s2 r - (if r = q then n else 0)"
    using tl.debit [OF s2(2) n(1) le] by (metis counted_simps(4) TallyType.distinct(7))
  have "GetTokenBalance s3 a q BALANCE \<le> token_supply s3 q" by (rule balance_le_supply [OF s3(2)]) simp
  then have room2: "GetTokenBalance s3 a q BALANCE + (n - fee) \<le> MAX_INT64"
    using s3(3) [of q] s2(3) [of q] s1(3) [of q] tot [of q] pq by simp
  have pos: "0 < n - fee" using fee(2) by simp
  obtain s4 where s4: "assert_update a q (n - fee) BALANCE s3 = Some s4" "tallies_ok s4"
      "\<And>r. token_supply s4 r = token_supply s3 r + (if r = q then n - fee else 0)"
    using tl.credit [OF s3(2) pos room2] by (metis counted_simps(1))
  note bal3 = assert_update_balance [OF s3(1)] and bal4 = assert_update_balance [OF s4(1)]
  obtain m where m: "s4 = s\<lparr>mp_tally_map := m\<rparr>"
    using assert_update_frame [OF s1(1)] assert_update_frame [OF s2(1)] assert_update_frame [OF s3(1)] assert_update_frame [OF s4(1)]
    by auto
  have sup: "\<forall>r. token_supply s4 r = token_supply s r - (if r = q then fee else 0)"
    using s1(3) s2(3) s3(3) s4(3) by simp
  have bal: "\<forall>c r ty. GetTokenBalance s4 c r ty = GetTokenBalance s c r ty
        - (if c = a \<and> r = p \<and> ty = BALANCE then pay else 0) + (if c = b \<and> r = p \<and> ty = BALANCE then pay else 0)
        - (if c = b \<and> r = q \<and> ty = METADEX_RESERVE then n else 0) + (if c = a \<and> r = q \<and> ty = BALANCE then n - fee else 0)"
    by (intro allI) (simp add: bal1 bal2 bal3 bal4)
  show ?thesis
    by (intro exI [of _ s1] exI [of _ s2] exI [of _ s3] exI [of _ m] conjI) (use s1 s2 s3 s4 sup bal m in simp_all)
qed

lemma fee_step_refl: "tallies_ok s \<Longrightarrow> cache_ok block s \<Longrightarrow> fee_step block p 0 s s"
  using fee_frameI(1) [of s "mp_tally_map s"] by (simp add: fee_step_def)

text \<open>
  Taking the fee: the fee moves into the cache before the tokens it is taken from leave the seller's
  reserve, so the total is too high by the fee for a moment.
\<close>

lemma match_fee:
  fixes s :: "'s mdex_state_scheme"
  assumes ok: "fee_ok b s" and b: "b = md_block pnew" and q: "q = md_desired_property pnew"
    and old: "md_property pold = q" "md_desired_property pold = md_property pnew"
    and n: "0 < n" "n \<le> GetTokenBalance s a q METADEX_RESERVE" and holders: "fees_apply s pnew \<Longrightarrow> fee_holders q s \<noteq> {}"
  shows "\<exists>fee s0. (if IsFeatureActivated (consensusParams s) FEATURE_FEES (md_block pnew)
           \<and> md_property pold > TOKEN_PROPERTY_TMSC \<and> md_desired_property pold > TOKEN_PROPERTY_TMSC
        then do {
          let fee = sdiv64 n 2000;
          s' \<leftarrow> AddFee (md_desired_property pnew) (md_block pnew) fee s;
          Some (fee, s')
        } else Some (0, s)) = Some (fee, s0) \<and> fee_step b q fee s s0 \<and> 0 \<le> fee \<and> fee < n
     \<and> fee = (if fees_apply s pnew then n div 2000 else 0)"
proof -
  have wf: "tallies_ok s" and cache: "cache_ok b s" and le: "\<And>r. token_supply s r + GetCachedAmount s r \<le> MAX_INT64"
    using ok by (simp_all add: fee_ok_def)
  have cond: "(IsFeatureActivated (consensusParams s) FEATURE_FEES (md_block pnew)
      \<and> md_property pold > TOKEN_PROPERTY_TMSC \<and> md_desired_property pold > TOKEN_PROPERTY_TMSC) \<longleftrightarrow> fees_apply s pnew"
    using old q by (simp add: fees_apply_def)
  show ?thesis
  proof (cases "fees_apply s pnew")
    case False
    then show ?thesis unfolding cond using n(1) fee_step_refl [OF wf cache] by simp
  next
    case True
    have fee: "sdiv64 n 2000 = n div 2000" "0 \<le> n div 2000" "n div 2000 < n"
      using n(1) by (simp_all add: sdiv64_def pos_imp_zdiv_nonneg_iff)
    obtain s1 where s1: "assert_update a q (- n) METADEX_RESERVE s = Some s1" "tallies_ok s1"
        "\<And>r. token_supply s1 r = token_supply s r - (if r = q then n else 0)"
      using tl.debit [OF wf n] by (metis counted_simps(4) TallyType.distinct(7))
    have room: "GetTokenBalance s c q BALANCE + GetCachedAmount s q + n div 2000 \<le> MAX_INT64" for c
    proof -
      have "GetTokenBalance s c q BALANCE = GetTokenBalance s1 c q BALANCE" using assert_update_balance [OF s1(1)] by simp
      also have "\<dots> \<le> token_supply s1 q" by (rule balance_le_supply [OF s1(2)]) simp
      finally have "GetTokenBalance s c q BALANCE + n \<le> token_supply s q" using s1(3) [of q] by simp
      then show ?thesis using le [of q] fee(3) by linarith
    qed
    have "token_supply s m \<le> MAX_INT64" for m using ok by (simp add: fee_ok_def ledger_ok_def)
    then obtain s0 where "AddFee q b (n div 2000) s = Some s0" "fee_step b q (n div 2000) s s0"
      using AddFee_ok [OF wf cache _ fee(2) _ holders [OF True]] room by auto
    then show ?thesis unfolding cond using True fee b q by simp
  qed
qed

lemma execute_match_ok:
  fixes s :: "'s mdex_state_scheme"
  assumes ok: "fee_ok b s" and b: "b = md_block pnew" and p: "p = md_property pnew" and q: "q = md_desired_property pnew"
    and pq: "p \<noteq> q" and old: "md_property pold = q" "md_desired_property pold = p"
    and n: "0 < n" "n \<le> GetTokenBalance s (md_addr pold) q METADEX_RESERVE"
    and pay: "0 < pay" "pay \<le> GetTokenBalance s (md_addr pnew) p BALANCE" "\<not> isAddressFrozen s (md_addr pnew) p"
    and holders: "fees_apply s pnew \<Longrightarrow> fee_holders q s \<noteq> {}"
  shows "\<exists>fee s'. execute_match pnew pold n pay s = Some (fee, n - fee, s') \<and> fee_ok b s' \<and> fee_frame s s'
    \<and> fee = (if fees_apply s pnew then n div 2000 else 0)
    \<and> (\<forall>r. token_supply s' r + GetCachedAmount s' r = token_supply s r + GetCachedAmount s r)
    \<and> (\<forall>c r ty. ty \<noteq> BALANCE \<longrightarrow> GetTokenBalance s' c r ty = GetTokenBalance s c r ty
        - (if c = md_addr pold \<and> r = q \<and> ty = METADEX_RESERVE then n else 0))
    \<and> GetTokenBalance s (md_addr pnew) p BALANCE - pay \<le> GetTokenBalance s' (md_addr pnew) p BALANCE
    \<and> (fees_apply s pnew \<longrightarrow> fee_holders q s' \<noteq> {})"
proof -
  let ?a = "md_addr pnew" and ?b = "md_addr pold"
  have cache: "cache_ok b s" and le: "\<And>r. token_supply s r + GetCachedAmount s r \<le> MAX_INT64" and wf: "tallies_ok s"
    using ok by (simp_all add: fee_ok_def)
  obtain fee s0 where f: "(if IsFeatureActivated (consensusParams s) FEATURE_FEES (md_block pnew)
           \<and> md_property pold > TOKEN_PROPERTY_TMSC \<and> md_desired_property pold > TOKEN_PROPERTY_TMSC
        then do {
          let fee = sdiv64 n 2000;
          s' \<leftarrow> AddFee (md_desired_property pnew) (md_block pnew) fee s;
          Some (fee, s')
        } else Some (0, s)) = Some (fee, s0)"
      and step: "fee_step b q fee s s0" and fee: "0 \<le> fee" "fee < n" "fee = (if fees_apply s pnew then n div 2000 else 0)"
    using match_fee [OF ok b q old(1) _ n holders] old(2) p by auto
  have wf0: "tallies_ok s0" and cache0: "cache_ok b s0" and fr: "fee_frame s s0"
    and tot: "\<And>r. token_supply s0 r + GetCachedAmount s0 r = token_supply s r + GetCachedAmount s r + (if r = q then fee else 0)"
    and mono: "\<And>c r ty. GetTokenBalance s c r ty \<le> GetTokenBalance s0 c r ty"
    and same: "\<And>c r ty. r \<noteq> q \<or> ty \<noteq> BALANCE \<Longrightarrow> GetTokenBalance s0 c r ty = GetTokenBalance s c r ty"
    using step by (auto simp: fee_step_def)
  have tot0: "token_supply s0 r \<le> MAX_INT64 + (if r = q then fee else 0)" for r
    using tot [of r] le [of r] cached_bounds [OF cache0, of r] by auto
  have froz: "\<not> isAddressFrozen s0 ?a p" using pay(3) mdex_frame_fields(5) [OF mdex_frame_fee [OF fr]] by simp
  have pay0: "pay \<le> GetTokenBalance s0 ?a p BALANCE" using pay(2) mono [of ?a p BALANCE] by simp
  have n0: "n \<le> GetTokenBalance s0 ?b q METADEX_RESERVE" using n(2) same [of q METADEX_RESERVE] by simp
  from match_transfers [OF wf0 tot0 pq pay(1) pay0 froz n(1) n0 fee(1,2)] obtain s1 s2 s3 m where
    m: "assert_update ?a p (- pay) BALANCE s0 = Some s1" "assert_update ?b p pay BALANCE s1 = Some s2"
      "assert_update ?b q (- n) METADEX_RESERVE s2 = Some s3" "assert_update ?a q (n - fee) BALANCE s3 = Some (s0\<lparr>mp_tally_map := m\<rparr>)"
      "tallies_ok (s0\<lparr>mp_tally_map := m\<rparr>)"
    and sup: "\<And>r. token_supply (s0\<lparr>mp_tally_map := m\<rparr>) r = token_supply s0 r - (if r = q then fee else 0)"
    and bal: "\<And>c r ty. GetTokenBalance (s0\<lparr>mp_tally_map := m\<rparr>) c r ty = GetTokenBalance s0 c r ty
        - (if c = ?a \<and> r = p \<and> ty = BALANCE then pay else 0) + (if c = ?b \<and> r = p \<and> ty = BALANCE then pay else 0)
        - (if c = ?b \<and> r = q \<and> ty = METADEX_RESERVE then n else 0) + (if c = ?a \<and> r = q \<and> ty = BALANCE then n - fee else 0)"
    by blast
  define s' where "s' = s0\<lparr>mp_tally_map := m\<rparr>"
  have "n \<le> MAX_INT64" using n0 balance_le_max [OF wf0, of ?b q METADEX_RESERVE] by linarith
  then have w: "s64 (n - fee) = n - fee" using fee(1,2) by (intro s64_id) linarith+
  have run: "execute_match pnew pold n pay s = Some (fee, n - fee, s')"
    unfolding execute_match_def f
    using m(1-4) by (simp add: s'_def w old p [symmetric] q [symmetric])
  have cached: "GetCachedAmount s' r = GetCachedAmount s0 r" for r by (simp add: s'_def GetCachedAmount_def GetCacheHistory_def)
  have total: "token_supply s' r + GetCachedAmount s' r = token_supply s r + GetCachedAmount s r" for r
    using sup [of r] tot [of r] cached [of r] by (simp add: s'_def)
  have cache': "cache_ok b s'" using cache0 by (simp add: cache_ok_def s'_def)
  have wf': "tallies_ok s'" using m(5) by (simp add: s'_def)
  have "token_supply s' r \<le> MAX_INT64" for r using total [of r] le [of r] cached_bounds [OF cache', of r] by linarith
  then have ok': "fee_ok b s'" using total le cache' wf' by (simp add: fee_ok_def ledger_ok_def)
  have frame: "fee_frame s s'" using fee_frame_trans [OF fr fee_frameI(1) [of s0 m]] by (simp add: s'_def)
  have other: "GetTokenBalance s' c r ty = GetTokenBalance s c r ty - (if c = ?b \<and> r = q \<and> ty = METADEX_RESERVE then n else 0)"
    if "ty \<noteq> BALANCE" for c r ty using that by (simp add: s'_def bal same)
  have buyer: "GetTokenBalance s ?a p BALANCE - pay \<le> GetTokenBalance s' ?a p BALANCE"
    using mono [of ?a p BALANCE] pay(1) pq by (auto simp: s'_def bal)
  have "fee_holders q s' \<noteq> {}" if "fees_apply s pnew"
  proof -
    have "GetTokenBalance s' c k ty = GetTokenBalance s c k ty" if "k = TOKEN_PROPERTY_MSC \<or> k = TOKEN_PROPERTY_TMSC" for c ty k
    proof -
      have "k \<noteq> p" "k \<noteq> q" using that \<open>fees_apply s pnew\<close> p q by (auto simp: fees_apply_def)
      then show ?thesis by (simp add: s'_def bal same)
    qed
    from fee_holders_cong [OF wf wf' this] show ?thesis using holders [OF that] by simp
  qed
  with run ok' frame fee(3) total other buyer show ?thesis by blast
qed

subsection \<open>The loop over the orders of one price\<close>

definition offered :: "md_Set \<Rightarrow> string \<Rightarrow> property_id \<Rightarrow> int" where
  "offered ms a r = (\<Sum>m\<leftarrow>ms. if md_addr m = a \<and> md_property m = r then md_amount_remaining m else 0)"

lemma offered_simps [simp]:
  "offered [] a r = 0"
  "offered (m # ms) a r = (if md_addr m = a \<and> md_property m = r then md_amount_remaining m else 0) + offered ms a r"
  "offered (ms @ ns) a r = offered ms a r + offered ns a r"
  by (simp_all add: offered_def)

lemma offered_nonneg: "\<forall>m \<in> set ms. order_ok m \<Longrightarrow> 0 \<le> offered ms a r"
  by (induction ms) (auto simp: order_ok_def)

definition funded :: "'s mdex_state_scheme \<Rightarrow> CMPMetaDEx \<Rightarrow> bool" where
  "funded s pnew \<longleftrightarrow> fee_ok (md_block pnew) s \<and> order_ok pnew \<and> \<not> isAddressFrozen s (md_addr pnew) (md_property pnew)
     \<and> md_amount_remaining pnew \<le> GetTokenBalance s (md_addr pnew) (md_property pnew) BALANCE
     \<and> (fees_apply s pnew \<longrightarrow> fee_holders (md_desired_property pnew) s \<noteq> {})"

text \<open>A recorded trade keeps to the limit of the new order, and to that of one of the old orders.\<close>

definition fair :: "CMPMetaDEx \<Rightarrow> md_Set \<Rightarrow> MatchedTrade \<Rightarrow> bool" where
  "fair pnew ms t \<longleftrightarrow> of_int (mt_amount1 t) / of_int (mt_amount2 t + mt_fee t) \<le> inversePrice pnew
     \<and> (\<exists>m \<in> set ms. md_txid m = mt_txid1 t \<and> unitPrice m \<le> of_int (mt_amount1 t) / of_int (mt_amount2 t + mt_fee t))"

text \<open>From \<open>s\<close> to \<open>s'\<close> the new order traded against \<open>ms\<close> until \<open>x\<close> of it is left, and \<open>ms'\<close> of the old orders.\<close>

definition traded :: "CMPMetaDEx \<Rightarrow> md_Set \<Rightarrow> 's mdex_state_scheme \<Rightarrow> md_Set \<Rightarrow> int \<Rightarrow> 's mdex_state_scheme \<Rightarrow> bool" where
  "traded pnew ms s ms' x s' \<longleftrightarrow> fee_ok (md_block pnew) s' \<and> mdex_frame s s'
     \<and> (\<forall>r. token_supply s' r + GetCachedAmount s' r = token_supply s r + GetCachedAmount s r)
     \<and> (\<forall>c r ty. ty \<noteq> BALANCE \<longrightarrow> GetTokenBalance s' c r ty = GetTokenBalance s c r ty
          + (if ty = METADEX_RESERVE then offered ms' c r - offered ms c r else 0))
     \<and> 0 \<le> x \<and> x \<le> md_amount_remaining pnew \<and> (0 < x \<longrightarrow> funded s' (pnew\<lparr>md_amount_remaining := x\<rparr>))
     \<and> (\<exists>ts. recordedTrades s' = recordedTrades s @ ts \<and> (\<forall>t \<in> set ts. fair pnew ms t)
          \<and> md_amount_remaining pnew - x = (\<Sum>t\<leftarrow>ts. mt_amount1 t))"

lemma traded_refl: "funded s pnew \<Longrightarrow> traded pnew [] s [] (md_amount_remaining pnew) s"
  by (simp add: traded_def funded_def mdex_frame_refl order_ok_def)

lemma traded_skip:
  assumes "traded pnew ms s ms' x s'"
  shows "traded pnew (m # ms) s (m # ms') x s'"
  using assms unfolding traded_def by (auto simp: fair_def)

lemma inversePrice_remaining [simp]: "inversePrice (m\<lparr>md_amount_remaining := x\<rparr>) = inversePrice m"
  "unitPrice (m\<lparr>md_amount_remaining := x\<rparr>) = unitPrice m"
  by (simp_all add: inversePrice_def unitPrice_def)

lemma fair_remaining [simp]: "fair (m\<lparr>md_amount_remaining := x\<rparr>) ms t = fair m ms t"
  by (simp add: fair_def)

lemma fair_mono: "fair m ms t \<Longrightarrow> set ms \<subseteq> set ns \<Longrightarrow> fair m ns t"
  by (auto simp: fair_def)

lemma traded_trans:
  assumes "traded pnew ms s ms' x s1" and "traded (pnew\<lparr>md_amount_remaining := x\<rparr>) ns s1 ns' y s2"
  shows "traded pnew (ms @ ns) s (ms' @ ns') y s2"
proof -
  obtain ts where ts: "recordedTrades s1 = recordedTrades s @ ts" "\<forall>t \<in> set ts. fair pnew ms t"
      "md_amount_remaining pnew - x = (\<Sum>t\<leftarrow>ts. mt_amount1 t)" using assms(1) unfolding traded_def by blast
  obtain us where us: "recordedTrades s2 = recordedTrades s1 @ us" "\<forall>t \<in> set us. fair pnew ns t"
      "x - y = (\<Sum>t\<leftarrow>us. mt_amount1 t)" using assms(2) unfolding traded_def by auto
  have "\<exists>vs. recordedTrades s2 = recordedTrades s @ vs \<and> (\<forall>t \<in> set vs. fair pnew (ms @ ns) t)
      \<and> md_amount_remaining pnew - y = (\<Sum>t\<leftarrow>vs. mt_amount1 t)"
    using ts us fair_mono [of pnew ms _ "ms @ ns"] fair_mono [of pnew ns _ "ms @ ns"] by (intro exI [of _ "ts @ us"]) auto
  then show ?thesis
    using assms mdex_frame_trans [of s s1 s2] unfolding traded_def by simp
qed

lemma traded_append: "traded pnew ms s ms' x s' \<Longrightarrow> traded pnew (ms @ ns) s (ms' @ ns) x s'"
  using fair_mono [of pnew ms _ "ms @ ns"] unfolding traded_def by auto

text \<open>One match.\<close>

lemma traded_match:
  assumes f: "funded s pnew" and old: "order_ok pold" "unitPrice pold \<le> inversePrice pnew"
      "md_property pold = md_desired_property pnew" "md_desired_property pold = md_property pnew"
    and res: "md_amount_remaining pold \<le> GetTokenBalance s (md_addr pold) (md_desired_property pnew) METADEX_RESERVE"
    and nz: "buys pnew pold \<noteq> 0" and eff: "of_int (pays pnew pold) / of_int (buys pnew pold) \<le> inversePrice pnew"
  shows "\<exists>fee s1. execute_match pnew pold (buys pnew pold) (pays pnew pold) s = Some (fee, buys pnew pold - fee, s1)
    \<and> traded pnew [pold] s
        (if 0 < md_amount_remaining pold - buys pnew pold then [pold\<lparr>md_amount_remaining := md_amount_remaining pold - buys pnew pold\<rparr>] else [])
        (md_amount_remaining pnew - pays pnew pold)
        (s1\<lparr>recordedTrades := recordedTrades s1 @
          [\<lparr>mt_txid1 = md_txid pold, mt_txid2 = md_txid pnew, mt_address1 = md_addr pold, mt_address2 = md_addr pnew,
            mt_prop1 = md_desired_property pold, mt_prop2 = md_desired_property pnew, mt_amount1 = pays pnew pold,
            mt_amount2 = buys pnew pold - fee, mt_block = md_block pnew, mt_fee = fee\<rparr>]\<rparr>)"
proof -
  let ?n = "buys pnew pold" and ?y = "pays pnew pold" and ?p = "md_property pnew" and ?q = "md_desired_property pnew"
  have fd: "fee_ok (md_block pnew) s" "order_ok pnew" "\<not> isAddressFrozen s (md_addr pnew) ?p"
      "md_amount_remaining pnew \<le> GetTokenBalance s (md_addr pnew) ?p BALANCE" "fees_apply s pnew \<Longrightarrow> fee_holders ?q s \<noteq> {}"
    using f by (auto simp: funded_def)
  note bb = buys_bounds [OF fd(2) old(1)] and pb = pays_bounds [OF fd(2) old(1) nz]
  have pq: "?p \<noteq> ?q" using fd(2) by (simp add: order_ok_def)
  have n: "0 < ?n" "?n \<le> GetTokenBalance s (md_addr pold) ?q METADEX_RESERVE" using bb nz res by linarith+
  have y: "0 < ?y" "?y \<le> GetTokenBalance s (md_addr pnew) ?p BALANCE" using pb(1,2) fd(4) by linarith+
  from execute_match_ok [OF fd(1) refl refl refl pq old(3,4) n y fd(3,5)] obtain fee s1 where
    run: "execute_match pnew pold ?n ?y s = Some (fee, ?n - fee, s1)" and ok1: "fee_ok (md_block pnew) s1" and fr: "fee_frame s s1"
    and tot: "\<And>r. token_supply s1 r + GetCachedAmount s1 r = token_supply s r + GetCachedAmount s r"
    and bal: "\<And>c r ty. ty \<noteq> BALANCE \<Longrightarrow> GetTokenBalance s1 c r ty = GetTokenBalance s c r ty
        - (if c = md_addr pold \<and> r = ?q \<and> ty = METADEX_RESERVE then ?n else 0)"
    and buyer: "GetTokenBalance s (md_addr pnew) ?p BALANCE - ?y \<le> GetTokenBalance s1 (md_addr pnew) ?p BALANCE"
    and hold: "fees_apply s pnew \<Longrightarrow> fee_holders ?q s1 \<noteq> {}" by blast
  define rec where "rec = \<lparr>mt_txid1 = md_txid pold, mt_txid2 = md_txid pnew, mt_address1 = md_addr pold, mt_address2 = md_addr pnew,
            mt_prop1 = md_desired_property pold, mt_prop2 = md_desired_property pnew, mt_amount1 = ?y,
            mt_amount2 = ?n - fee, mt_block = md_block pnew, mt_fee = fee\<rparr>"
  define s2 where "s2 = s1\<lparr>recordedTrades := recordedTrades s1 @ [rec]\<rparr>"
  have same: "mp_tally_map s2 = mp_tally_map s1" "pDbFeeCache s2 = pDbFeeCache s1" by (simp_all add: s2_def)
  have ok2: "fee_ok (md_block pnew) s2" and tot2: "token_supply s2 r + GetCachedAmount s2 r = token_supply s r + GetCachedAmount s r" for r
    using ok1 tot [of r] by (simp_all add: fee_ok_def ledger_ok_def tallies_ok_def token_supply_def cache_ok_def GetCachedAmount_def GetCacheHistory_def s2_def)
  have bal2: "GetTokenBalance s2 = GetTokenBalance s1" by (simp add: s2_def fun_eq_iff GetTokenBalance_def)
  have rt: "recordedTrades s2 = recordedTrades s @ [rec]" using fr by (auto simp: s2_def fee_frame_def)
  have "mdex_frame s1 s2" unfolding mdex_frame_def s2_def
    by (rule exI [of _ "mp_tally_map s1"], rule exI [of _ "pDbFeeCache s1"], rule exI [of _ "pDbFeeHistory s1"],
      rule exI [of _ "distributionThresholds s1"], rule exI [of _ "shutdownRequested s1"], rule exI [of _ "recordedTrades s1 @ [rec]"]) simp
  then have fr2: "mdex_frame s s2" by (rule mdex_frame_trans [OF mdex_frame_fee [OF fr]])
  note fields = mdex_frame_fields [OF fr2]
  have fees: "fees_apply s2 (pnew\<lparr>md_amount_remaining := x\<rparr>) = fees_apply s pnew" for x by (simp add: fees_apply_def fields(1))
  have hold2: "fees_apply s pnew \<Longrightarrow> fee_holders ?q s2 \<noteq> {}" using hold by (simp add: fee_holders_def same)
  have "funded s2 (pnew\<lparr>md_amount_remaining := md_amount_remaining pnew - ?y\<rparr>)" if "0 < md_amount_remaining pnew - ?y"
    unfolding funded_def fees using that ok2 fd(2-4) hold2 fields(5) buyer pb(1) by (auto simp: order_ok_def bal2)
  moreover have "fair pnew [pold] rec" unfolding fair_def using eff pb(4) by (simp add: rec_def)
  moreover have "(if 0 < md_amount_remaining pold - ?n then md_amount_remaining pold - ?n else 0) = md_amount_remaining pold - ?n"
    using bb(2) by auto
  ultimately have "traded pnew [pold] s
      (if 0 < md_amount_remaining pold - ?n then [pold\<lparr>md_amount_remaining := md_amount_remaining pold - ?n\<rparr>] else [])
      (md_amount_remaining pnew - ?y) s2"
    unfolding traded_def using ok2 fr2 tot2 bal rt pb(1,2) old(3) bb(2)
    by (auto simp: bal2 rec_def intro!: exI [of _ "[rec]"])
  then show ?thesis using run by (auto simp: s2_def rec_def)
qed

definition md_key :: "CMPMetaDEx \<Rightarrow> int \<times> nat" where
  "md_key m = (md_block m, md_idx m)"

lemma compare_key: "MetaDEx_compare x y \<longleftrightarrow> md_key x < md_key y"
  by (auto simp: MetaDEx_compare_def md_key_def less_prod_def' split: if_splits)

definition level_ok :: "property_id \<Rightarrow> rat \<Rightarrow> md_Set \<Rightarrow> bool" where
  "level_ok q price ms \<longleftrightarrow> sorted_wrt (<) (map md_key ms)
     \<and> (\<forall>m \<in> set ms. order_ok m \<and> unitPrice m = price \<and> md_property m = q)"

lemma level_ok_Cons:
  "level_ok q price (m # ms) \<longleftrightarrow> order_ok m \<and> unitPrice m = price \<and> md_property m = q \<and> level_ok q price ms
     \<and> (\<forall>k \<in> md_key ` set ms. md_key m < k)"
  by (auto simp: level_ok_def)

definition sublevel :: "md_Set \<Rightarrow> md_Set \<Rightarrow> bool" where
  "sublevel ms' ms \<longleftrightarrow> md_key ` set ms' \<subseteq> md_key ` set ms"

lemma trade_offers_ok:
  fixes s :: "'s mdex_state_scheme"
  assumes "funded s pnew" and "level_ok (md_desired_property pnew) price offers" and "price \<le> inversePrice pnew"
    and "\<forall>a r. offered offers a r \<le> GetTokenBalance s a r METADEX_RESERVE"
  shows "\<exists>offers' x ret' s'. trade_offers price offers pnew ret s = Some (offers', pnew\<lparr>md_amount_remaining := x\<rparr>, x = 0, ret', s')
    \<and> traded pnew offers s offers' x s' \<and> level_ok (md_desired_property pnew) price offers' \<and> sublevel offers' offers"
  using assms
proof (induction offers arbitrary: pnew ret s)
  case Nil
  have "0 < md_amount_remaining pnew" using Nil(1) by (simp add: funded_def order_ok_def)
  then show ?case using traded_refl [OF Nil(1)] by (auto simp: level_ok_def sublevel_def intro!: exI [of _ "md_amount_remaining pnew"])
next
  case (Cons pold offers)
  let ?q = "md_desired_property pnew" and ?p = "md_property pnew"
  have new: "order_ok pnew" using Cons.prems(1) by (simp add: funded_def)
  from Cons.prems(2) have old: "order_ok pold" "unitPrice pold = price" "md_property pold = ?q" and lvl: "level_ok ?q price offers"
    and first: "\<forall>k \<in> md_key ` set offers. md_key pold < k" by (auto simp: level_ok_Cons)
  have pos: "0 < md_amount_remaining pold" "0 < md_amount_remaining pnew" using old(1) new by (simp_all add: order_ok_def)
  have rest_res: "offered offers a r \<le> GetTokenBalance s a r METADEX_RESERVE" for a r
    using Cons.prems(4) [rule_format, of a r] pos(1) by (auto split: if_splits)
  have skip: "\<exists>offers' x ret' s'. (do {
          (rest, pnew', sat, ret', s') \<leftarrow> trade_offers price offers pnew ret s;
          Some (pold # rest, pnew', sat, ret', s')
        }) = Some (offers', pnew\<lparr>md_amount_remaining := x\<rparr>, x = 0, ret', s')
      \<and> traded pnew (pold # offers) s offers' x s' \<and> level_ok ?q price offers' \<and> sublevel offers' (pold # offers)"
  proof -
    from Cons.IH [OF Cons.prems(1) lvl Cons.prems(3), of ret] rest_res obtain rest x ret' s' where
      r: "trade_offers price offers pnew ret s = Some (rest, pnew\<lparr>md_amount_remaining := x\<rparr>, x = 0, ret', s')"
        "traded pnew offers s rest x s'" "level_ok ?q price rest" "sublevel rest offers" by blast
    then have "level_ok ?q price (pold # rest)" "sublevel (pold # rest) (pold # offers)"
      using old first by (auto simp: level_ok_Cons sublevel_def)
    then show ?thesis using r traded_skip [OF r(2), of pold] by auto
  qed
  show ?case
  proof (cases "md_desired_property pold = ?p")
    case False
    then show ?thesis using skip old(2) unfolding trade_offers.simps Let_def by simp
  next
    case True
    have up: "unitPrice pold \<le> inversePrice pnew" using old(2) Cons.prems(3) by simp
    have guard: "0 < md_amount_remaining pold \<and> 0 < md_amount_remaining pnew
                \<and> md_property pnew \<noteq> md_desired_property pnew \<and> md_property pnew = md_desired_property pold
                \<and> md_property pold = md_desired_property pnew
                \<and> unitPrice pold \<le> inversePrice pnew \<and> unitPrice pnew \<le> inversePrice pold"
      using pos new True old(3) up prices_swap [OF old(1) new up] by (simp add: order_ok_def)
    note cb = could_buy_eq [OF new old(1)]
    show ?thesis
    proof (cases "buys pnew pold = 0 \<or> inversePrice pnew < of_int (pays pnew pold) / of_int (buys pnew pold)")
      case no: True
      show ?thesis
        using skip guard old(2) True no pays_bounds(3) [OF new old(1)] unfolding trade_offers.simps Let_def
        by (cases "buys pnew pold = 0") (simp_all add: cb)
    next
      case False
      let ?n = "buys pnew pold" and ?y = "pays pnew pold"
      from False have nz: "?n \<noteq> 0" and eff: "of_int ?y / of_int ?n \<le> inversePrice pnew" by auto
      note bb = buys_bounds [OF new old(1)] and pb = pays_bounds [OF new old(1) nz]
      have le64: "md_amount_remaining pnew \<le> MAX_INT64" "md_amount_remaining pold \<le> MAX_INT64"
        using new old(1) by (auto simp: order_ok_def)
      have w: "s64 (md_amount_remaining pnew - ?y) = md_amount_remaining pnew - ?y"
          "s64 (md_amount_remaining pold - ?n) = md_amount_remaining pold - ?n"
          "s64 (md_amount_remaining pnew) = md_amount_remaining pnew" "s64 (md_amount_remaining pold) = md_amount_remaining pold"
        using le64 pos bb pb(1,2) by (auto intro!: s64_id)
      have post: "of_int ?y / of_int ?n \<ge> unitPrice pold \<and> of_int ?y / of_int ?n \<le> inversePrice pnew
          \<and> 0 \<le> md_amount_remaining pold - ?n \<and> 0 \<le> md_amount_remaining pnew - ?y
          \<and> md_amount_remaining pold = s64 (md_amount_remaining pold - ?n + ?n)
          \<and> md_amount_remaining pnew = s64 (md_amount_remaining pnew - ?y + ?y)"
        using pb(2,4) bb(2) eff w(3,4) by simp
      have res: "md_amount_remaining pold \<le> GetTokenBalance s (md_addr pold) ?q METADEX_RESERVE"
        using Cons.prems(4) [rule_format, of "md_addr pold" ?q] offered_nonneg [of offers "md_addr pold" ?q] lvl old(3)
        by (simp add: level_ok_def)
      let ?kept = "if 0 < md_amount_remaining pold - ?n then [pold\<lparr>md_amount_remaining := md_amount_remaining pold - ?n\<rparr>] else []"
      let ?x = "md_amount_remaining pnew - ?y"
      from traded_match [OF Cons.prems(1) old(1) up old(3) True res nz eff] obtain fee s1 s2 where
        run: "execute_match pnew pold ?n ?y s = Some (fee, ?n - fee, s1)" and step: "traded pnew [pold] s ?kept ?x s2"
        and s2: "s2 = s1\<lparr>recordedTrades := recordedTrades s1 @
          [\<lparr>mt_txid1 = md_txid pold, mt_txid2 = md_txid pnew, mt_address1 = md_addr pold, mt_address2 = md_addr pnew,
            mt_prop1 = md_desired_property pold, mt_prop2 = md_desired_property pnew, mt_amount1 = ?y,
            mt_amount2 = ?n - fee, mt_block = md_block pnew, mt_fee = fee\<rparr>]\<rparr>" by blast
      define ret1 where "ret1 = (if 0 < md_amount_remaining pold - ?n then TRADED_MOREINSELLER
        else if 0 < ?x then TRADED_MOREINBUYER else TRADED)"
      have kept_lvl: "level_ok ?q price (?kept @ rest)" "sublevel (?kept @ rest) (pold # offers)"
        if "level_ok ?q price rest" "sublevel rest offers" for rest
      proof -
        have "order_ok (pold\<lparr>md_amount_remaining := md_amount_remaining pold - ?n\<rparr>)" if "0 < md_amount_remaining pold - ?n"
          using old(1) that bb(1) by (auto simp: order_ok_def)
        moreover have "md_key (pold\<lparr>md_amount_remaining := z\<rparr>) = md_key pold" for z by (simp add: md_key_def)
        ultimately show "level_ok ?q price (?kept @ rest)" "sublevel (?kept @ rest) (pold # offers)"
          using that old first by (auto simp: level_ok_Cons sublevel_def)
      qed
      have unfold: "trade_offers price (pold # offers) pnew ret s =
          (if ?x = 0 then Some (?kept @ offers, pnew\<lparr>md_amount_remaining := ?x\<rparr>, True, ret1, s2)
           else do {
             (rest, pnew', sat, ret', s') \<leftarrow> trade_offers price offers (pnew\<lparr>md_amount_remaining := ?x\<rparr>) ret1 s2;
             Some (?kept @ rest, pnew', sat, ret', s')
           })"
        using guard old(2) True nz eff post run unfolding trade_offers.simps Let_def
        by (simp add: cb pb(3) w(1,2) s2 ret1_def not_less s64_id [of 0])
      show ?thesis
      proof (cases "?x = 0")
        case fin: True
        have "sublevel offers offers" by (simp add: sublevel_def)
        from kept_lvl [OF lvl this] show ?thesis
          using unfold fin traded_append [OF step, of offers] by (intro exI [of _ "?kept @ offers"] exI [of _ 0]) auto
      next
        case more: False
        let ?new = "pnew\<lparr>md_amount_remaining := ?x\<rparr>"
        have f2: "funded s2 ?new" using step more unfolding traded_def by auto
        have res2: "\<forall>a r. offered offers a r \<le> GetTokenBalance s2 a r METADEX_RESERVE"
        proof (intro allI)
          fix a r
          have "GetTokenBalance s2 a r METADEX_RESERVE = GetTokenBalance s a r METADEX_RESERVE + (offered ?kept a r - offered [pold] a r)"
            using step unfolding traded_def by simp
          moreover have "0 \<le> offered ?kept a r" by simp
          ultimately show "offered offers a r \<le> GetTokenBalance s2 a r METADEX_RESERVE"
            using Cons.prems(4) [rule_format, of a r] by simp
        qed
        from Cons.IH [OF f2 _ _ res2, of ret1] lvl Cons.prems(3) obtain rest y ret' s' where
          r: "trade_offers price offers ?new ret1 s2 = Some (rest, pnew\<lparr>md_amount_remaining := y\<rparr>, y = 0, ret', s')"
            "traded ?new offers s2 rest y s'" "level_ok ?q price rest" "sublevel rest offers" by auto
        from traded_trans [OF step r(2)] have "traded pnew (pold # offers) s (?kept @ rest) y s'" by simp
        then show ?thesis using unfold more r(1) kept_lvl [OF r(3,4)] by (intro exI [of _ "?kept @ rest"] exI [of _ y]) auto
      qed
    qed
  qed
qed

subsection \<open>The loop over the prices, and the order book\<close>

definition orders :: "md_PricesMap \<Rightarrow> md_Set" where
  "orders prices = concat (map snd prices)"

lemma orders_simps [simp]: "orders [] = []" "orders ((price, ms) # prices) = ms @ orders prices"
  by (simp_all add: orders_def)

definition levels_ok :: "property_id \<Rightarrow> md_PricesMap \<Rightarrow> bool" where
  "levels_ok q prices \<longleftrightarrow> (\<forall>(price, ms) \<in> set prices. level_ok q price ms)"

lemma levels_ok_simps [simp]: "levels_ok q []" "levels_ok q ((price, ms) # prices) \<longleftrightarrow> level_ok q price ms \<and> levels_ok q prices"
  by (simp_all add: levels_ok_def)

lemma orders_ok: "levels_ok q prices \<Longrightarrow> \<forall>m \<in> set (orders prices). order_ok m"
  by (induction prices) (auto simp: level_ok_def)

lemma traded_skip_list: "traded pnew ms s ms' x s' \<Longrightarrow> traded pnew (ns @ ms) s (ns @ ms') x s'"
  by (induction ns) (simp_all add: traded_skip)

lemma trade_prices_ok:
  fixes s :: "'s mdex_state_scheme"
  assumes "funded s pnew" and "levels_ok (md_desired_property pnew) prices"
    and "\<forall>a r. offered (orders prices) a r \<le> GetTokenBalance s a r METADEX_RESERVE"
  shows "\<exists>prices' x ret' s'. trade_prices prices pnew ret s = Some (prices', pnew\<lparr>md_amount_remaining := x\<rparr>, ret', s')
    \<and> traded pnew (orders prices) s (orders prices') x s' \<and> levels_ok (md_desired_property pnew) prices' \<and> map fst prices' = map fst prices"
  using assms
proof (induction prices arbitrary: pnew ret s)
  case Nil
  then show ?case using traded_refl [OF Nil(1)] by (auto intro!: exI [of _ "md_amount_remaining pnew"])
next
  case (Cons e prices)
  obtain price ms where e: "e = (price, ms)" by (cases e)
  let ?q = "md_desired_property pnew"
  have lvl: "level_ok ?q price ms" "levels_ok ?q prices" using Cons.prems(2) e by simp_all
  have nn: "0 \<le> offered ms a r" "0 \<le> offered (orders prices) a r" for a r
    using offered_nonneg [of ms a r] offered_nonneg [OF orders_ok [OF lvl(2)], of a r] lvl(1) by (auto simp: level_ok_def)
  have res: "\<forall>a r. offered ms a r \<le> GetTokenBalance s a r METADEX_RESERVE" "\<forall>a r. offered (orders prices) a r \<le> GetTokenBalance s a r METADEX_RESERVE"
  proof -
    have sum: "offered ms a r + offered (orders prices) a r \<le> GetTokenBalance s a r METADEX_RESERVE" for a r
      using Cons.prems(3) e by simp
    show "\<forall>a r. offered ms a r \<le> GetTokenBalance s a r METADEX_RESERVE" "\<forall>a r. offered (orders prices) a r \<le> GetTokenBalance s a r METADEX_RESERVE"
      using sum nn by (smt (verit))+
  qed
  show ?case
  proof (cases "inversePrice pnew < price")
    case True
    from Cons.IH [OF Cons.prems(1) lvl(2) res(2), of ret] obtain rest x ret' s' where
      r: "trade_prices prices pnew ret s = Some (rest, pnew\<lparr>md_amount_remaining := x\<rparr>, ret', s')"
        "traded pnew (orders prices) s (orders rest) x s'" "levels_ok ?q rest" "map fst rest = map fst prices" by blast
    then show ?thesis using True e lvl(1) traded_skip_list [OF r(2), of ms] by (auto intro!: exI [of _ "(price, ms) # rest"])
  next
    case False
    then have "price \<le> inversePrice pnew" by simp
    from trade_offers_ok [OF Cons.prems(1) lvl(1) this res(1), of ret] obtain ms' x ret1 s1 where
      o: "trade_offers price ms pnew ret s = Some (ms', pnew\<lparr>md_amount_remaining := x\<rparr>, x = 0, ret1, s1)"
        "traded pnew ms s ms' x s1" "level_ok ?q price ms'" by blast
    show ?thesis
    proof (cases "x = 0")
      case True
      then show ?thesis using o False e lvl(2) traded_append [OF o(2), of "orders prices"]
        by (auto intro!: exI [of _ "(price, ms') # prices"] exI [of _ 0])
    next
      case more: False
      let ?new = "pnew\<lparr>md_amount_remaining := x\<rparr>"
      have f1: "funded s1 ?new" using o(2) more unfolding traded_def by auto
      have "0 \<le> offered ms' a r" for a r using offered_nonneg [of ms' a r] o(3) by (simp add: level_ok_def)
      moreover have "GetTokenBalance s1 a r METADEX_RESERVE = GetTokenBalance s a r METADEX_RESERVE + (offered ms' a r - offered ms a r)" for a r
        using o(2) unfolding traded_def by simp
      ultimately have res1: "\<forall>a r. offered (orders prices) a r \<le> GetTokenBalance s1 a r METADEX_RESERVE"
        using Cons.prems(3) e by (simp add: add.commute) (smt (verit))
      have lvl2: "levels_ok (md_desired_property ?new) prices" using lvl(2) by simp
      from Cons.IH [OF f1 lvl2 res1, of ret1] obtain rest y ret' s' where
        r: "trade_prices prices ?new ret1 s1 = Some (rest, pnew\<lparr>md_amount_remaining := y\<rparr>, ret', s')"
          "traded ?new (orders prices) s1 (orders rest) y s'" "levels_ok ?q rest" "map fst rest = map fst prices" by auto
      then show ?thesis using o False e more traded_trans [OF o(2) r(2)]
        by (auto intro!: exI [of _ "(price, ms') # rest"] exI [of _ y])
    qed
  qed
qed

definition offered_book :: "md_PropertiesMap \<Rightarrow> string \<Rightarrow> property_id \<Rightarrow> int" where
  "offered_book M a r = (\<Sum>(p, prices)\<leftarrow>M. offered (orders prices) a r)"

definition book_ok :: "md_PropertiesMap \<Rightarrow> bool" where
  "book_ok M \<longleftrightarrow> smap_ok M \<and> (\<forall>(p, prices) \<in> set M. smap_ok prices \<and> levels_ok p prices)"

definition mdex_ok :: "int \<Rightarrow> 's mdex_state_scheme \<Rightarrow> bool" where
  "mdex_ok b s \<longleftrightarrow> fee_ok b s \<and> book_ok (metadex s)
     \<and> (\<forall>a r. GetTokenBalance s a r METADEX_RESERVE = offered_book (metadex s) a r)"

lemma book_ok_lookup: "book_ok M \<Longrightarrow> map_of M p = Some prices \<Longrightarrow> smap_ok prices \<and> levels_ok p prices"
  by (auto simp: book_ok_def dest!: map_of_SomeD)

lemma book_ok_upd:
  assumes "book_ok M" and "smap_ok prices" and "levels_ok p prices"
  shows "book_ok (smap_upd p prices M)"
  using assms smap.member_upd [of M _ _ p prices] by (auto simp: book_ok_def smap_ok_upd split: if_splits)

lemma offered_book_upd:
  assumes "book_ok M"
  shows "offered_book (smap_upd p prices M) a r = offered_book M a r
    - (case map_of M p of None \<Rightarrow> 0 | Some old \<Rightarrow> offered (orders old) a r) + offered (orders prices) a r"
  using assms smap.sum_upd [of M "\<lambda>p prices. offered (orders prices) a r" p prices] by (simp add: offered_book_def book_ok_def)

lemma offered_book_ge:
  assumes "book_ok M" and "map_of M p = Some prices"
  shows "offered (orders prices) a r \<le> offered_book M a r"
proof -
  have mem: "(p, prices) \<in> set M" using assms(2) by (rule map_of_SomeD)
  have "\<forall>e \<in> set M. 0 \<le> (case e of (p, prices) \<Rightarrow> offered (orders prices) a r)"
  proof
    fix e assume "e \<in> set M"
    then have "levels_ok (fst e) (snd e)" using assms(1) by (auto simp: book_ok_def)
    then show "0 \<le> (case e of (p, prices) \<Rightarrow> offered (orders prices) a r)"
      using offered_nonneg [OF orders_ok] by (simp add: case_prod_unfold)
  qed
  from sum_list_member_le [OF this mem] show ?thesis by (simp add: offered_book_def)
qed

lemma smap_ok_keys: "map fst m' = map fst m \<Longrightarrow> smap_ok m' = smap_ok m"
  by (simp add: smap_ok_def)

lemma x_Trade_ok:
  fixes s :: "'s mdex_state_scheme"
  assumes ok: "mdex_ok (md_block pnew) s" and f: "funded s pnew"
  shows "\<exists>ret x s'. x_Trade pnew s = Some (ret, pnew\<lparr>md_amount_remaining := x\<rparr>, s') \<and> mdex_ok (md_block pnew) s'
    \<and> (\<exists>ms ms' s0 M. traded pnew ms s ms' x s0 \<and> s' = s0\<lparr>metadex := M\<rparr> \<and> set ms \<subseteq> set (concat (map (orders \<circ> snd) (metadex s))))"
proof (cases "map_of (metadex s) (md_desired_property pnew)")
  case None
  have "traded pnew [] s [] (md_amount_remaining pnew) s" by (rule traded_refl [OF f])
  moreover have "\<exists>M. s = s\<lparr>metadex := M\<rparr>" by (rule exI [of _ "metadex s"]) simp
  moreover have "x_Trade pnew s = Some (NOTHING, pnew\<lparr>md_amount_remaining := md_amount_remaining pnew\<rparr>, s)"
    using None by (simp add: x_Trade_def get_Prices_def)
  ultimately show ?thesis using ok by (metis empty_subsetI list.set(1))
next
  case (Some prices)
  let ?q = "md_desired_property pnew"
  have book: "book_ok (metadex s)" and res: "\<And>a r. GetTokenBalance s a r METADEX_RESERVE = offered_book (metadex s) a r"
    using ok by (simp_all add: mdex_ok_def)
  note pr = book_ok_lookup [OF book Some]
  have le: "\<forall>a r. offered (orders prices) a r \<le> GetTokenBalance s a r METADEX_RESERVE"
    using offered_book_ge [OF book Some] res by simp
  from trade_prices_ok [OF f conjunct2 [OF pr] le, of NOTHING] obtain prices' x ret s0 where
    run: "trade_prices prices pnew NOTHING s = Some (prices', pnew\<lparr>md_amount_remaining := x\<rparr>, ret, s0)"
    and tr: "traded pnew (orders prices) s (orders prices') x s0" and lv: "levels_ok ?q prices'" and keys: "map fst prices' = map fst prices"
    by blast
  define s' where "s' = s0\<lparr>metadex := smap_upd ?q prices' (metadex s0)\<rparr>"
  have fr: "mdex_frame s s0" and ok0: "fee_ok (md_block pnew) s0" using tr by (simp_all add: traded_def)
  have md: "metadex s0 = metadex s" by (rule mdex_frame_fields(2) [OF fr])
  have bal: "GetTokenBalance s' = GetTokenBalance s0" by (simp add: s'_def fun_eq_iff GetTokenBalance_def)
  have ok': "fee_ok (md_block pnew) s'"
    using ok0 by (simp add: s'_def fee_ok_def ledger_ok_def tallies_ok_def token_supply_def cache_ok_def GetCachedAmount_def GetCacheHistory_def)
  have "book_ok (metadex s')" using book_ok_upd [OF book _ lv] smap_ok_keys [OF keys] pr by (simp add: s'_def md)
  moreover have "GetTokenBalance s' a r METADEX_RESERVE = offered_book (metadex s') a r" for a r
  proof -
    have "GetTokenBalance s0 a r METADEX_RESERVE = GetTokenBalance s a r METADEX_RESERVE + (offered (orders prices') a r - offered (orders prices) a r)"
      using tr by (simp add: traded_def)
    then show ?thesis using res [of a r] Some by (simp add: bal) (simp add: s'_def md offered_book_upd [OF book])
  qed
  ultimately have "mdex_ok (md_block pnew) s'" using ok' by (simp add: mdex_ok_def)
  moreover have "x_Trade pnew s = Some (ret, pnew\<lparr>md_amount_remaining := x\<rparr>, s')"
    using Some run by (simp add: x_Trade_def get_Prices_def s'_def)
  moreover have "set (orders prices) \<subseteq> set (concat (map (orders \<circ> snd) (metadex s)))"
    using map_of_SomeD [OF Some] by force
  moreover have "\<exists>M. s' = s0\<lparr>metadex := M\<rparr>" unfolding s'_def by blast
  ultimately show ?thesis using tr by blast
qed

subsection \<open>Adding an order\<close>

lemma set_insert_by_offered:
  assumes "list_all (\<lambda>x. MetaDEx_compare x m \<or> MetaDEx_compare m x) ms"
  shows "offered (set_insert_by MetaDEx_compare m ms) a r = offered [m] a r + offered ms a r"
  using assms by (induction ms) auto

lemma md_insert_ok:
  assumes "md_insert m ms = (True, ms')" and "level_ok q price ms" and "order_ok m" and "unitPrice m = price" and "md_property m = q"
  shows "level_ok q price ms'" and "offered ms' a r = offered [m] a r + offered ms a r"
proof -
  have new: "list_all (\<lambda>x. MetaDEx_compare x m \<or> MetaDEx_compare m x) ms" and ms': "ms' = set_insert_by MetaDEx_compare m ms"
    using assms(1) by (auto simp: md_insert_def)
  have "sorted_wrt MetaDEx_compare ms" using assms(2) by (simp add: level_ok_def sorted_wrt_map compare_key [abs_def])
  then have "sorted_wrt MetaDEx_compare ms'" unfolding ms' by (rule md.sorted_insert)
  then have "sorted_wrt (<) (map md_key ms')" by (simp add: sorted_wrt_map compare_key [abs_def])
  moreover have "set ms' \<subseteq> insert m (set ms)" unfolding ms' by (rule set_insert_by_subset)
  ultimately show "level_ok q price ms'" using assms(2-5) by (auto simp: level_ok_def)
  show "offered ms' a r = offered [m] a r + offered ms a r" unfolding ms' by (rule set_insert_by_offered [OF new])
qed

lemma orders_upd:
  assumes "smap_ok prices"
  shows "offered (orders (smap_upd price ms prices)) a r = offered (orders prices) a r
    - (case map_of prices price of None \<Rightarrow> 0 | Some old \<Rightarrow> offered old a r) + offered ms a r"
proof -
  have sum: "offered (orders ps) a r = (\<Sum>(price, ms)\<leftarrow>ps. offered ms a r)" for ps
    by (induction ps) auto
  show ?thesis unfolding sum by (rule smap.sum_upd [OF assms])
qed

lemma levels_ok_upd: "smap_ok prices \<Longrightarrow> levels_ok q prices \<Longrightarrow> level_ok q price ms \<Longrightarrow> levels_ok q (smap_upd price ms prices)"
  using smap.member_upd [of prices _ _ price ms] by (auto simp: levels_ok_def split: if_splits)

lemma INSERT_ok:
  assumes book: "book_ok (metadex s)" and m: "order_ok m" and ins: "MetaDEx_INSERT m s = (True, s')"
  shows "\<exists>M. s' = s\<lparr>metadex := M\<rparr> \<and> book_ok M \<and> (\<forall>a r. offered_book M a r = offered_book (metadex s) a r + offered [m] a r)"
proof -
  let ?p = "md_property m" and ?u = "unitPrice m"
  define prices where "prices = (case map_of (metadex s) ?p of Some p \<Rightarrow> p | None \<Rightarrow> [])"
  define ms where "ms = (case map_of prices ?u of Some i \<Rightarrow> i | None \<Rightarrow> [])"
  have pr: "smap_ok prices" "levels_ok ?p prices" using book_ok_lookup [OF book, of ?p]
    by (auto simp: prices_def smap.ok_empty split: option.split)
  have lv: "level_ok ?p ?u ms" using pr(2) by (auto simp: ms_def levels_ok_def level_ok_def split: option.split dest!: map_of_SomeD)
  obtain ms' where mi: "md_insert m ms = (True, ms')" and s': "s' = s\<lparr>metadex := smap_upd ?p (smap_upd ?u ms' prices) (metadex s)\<rparr>"
    using ins unfolding MetaDEx_INSERT_def Let_def get_Prices_def get_Indexes_def prices_def [symmetric] ms_def [symmetric]
    by (auto split: prod.splits if_splits)
  note ok' = md_insert_ok [OF mi lv m refl refl]
  have "book_ok (smap_upd ?p (smap_upd ?u ms' prices) (metadex s))"
    by (rule book_ok_upd [OF book smap_ok_upd [OF pr(1)] levels_ok_upd [OF pr ok'(1)]])
  moreover have "offered_book (smap_upd ?p (smap_upd ?u ms' prices) (metadex s)) a r = offered_book (metadex s) a r + offered [m] a r" for a r
  proof -
    have "(case map_of (metadex s) ?p of None \<Rightarrow> 0 | Some old \<Rightarrow> offered (orders old) a r) = offered (orders prices) a r"
      by (simp add: prices_def split: option.split)
    moreover have "(case map_of prices ?u of None \<Rightarrow> 0 | Some old \<Rightarrow> offered old a r) = offered ms a r"
      by (simp add: ms_def split: option.split)
    ultimately show ?thesis using ok'(2) [of a r] by (simp add: offered_book_upd [OF book] orders_upd [OF pr(1)])
  qed
  ultimately show ?thesis using s' by blast
qed

lemma mdex_fee_ok_cong:
  assumes "mp_tally_map s' = mp_tally_map s" and "pDbFeeCache s' = pDbFeeCache s"
  shows "fee_ok b s' = fee_ok b s"
  using assms by (simp add: fee_ok_def ledger_ok_def tallies_ok_def token_supply_def cache_ok_def GetCachedAmount_def GetCacheHistory_def)

text \<open>What the addition of an order keeps of a state.\<close>

definition mdex_keeps :: "int \<Rightarrow> 's mdex_state_scheme \<Rightarrow> 's mdex_state_scheme \<Rightarrow> bool" where
  "mdex_keeps b s s' \<longleftrightarrow> mdex_ok b s'
     \<and> (\<forall>r. token_supply s' r + GetCachedAmount s' r = token_supply s r + GetCachedAmount s r)
     \<and> (\<forall>c r ty. ty \<noteq> BALANCE \<and> ty \<noteq> METADEX_RESERVE \<longrightarrow> GetTokenBalance s' c r ty = GetTokenBalance s c r ty)
     \<and> isAddressFrozen s' = isAddressFrozen s \<and> my_offers s' = my_offers s \<and> my_accepts s' = my_accepts s
     \<and> consensusParams s' = consensusParams s"

lemma reserve_rest:
  fixes s :: "'s mdex_state_scheme"
  assumes ok: "mdex_ok b s" and m: "order_ok m" and ins: "MetaDEx_INSERT m s = (True, s1)"
    and bal: "md_amount_remaining m \<le> GetTokenBalance s (md_addr m) (md_property m) BALANCE"
    and fz: "\<not> isAddressFrozen s (md_addr m) (md_property m)"
  shows "\<exists>s2 s3. assert_update (md_addr m) (md_property m) (- md_amount_remaining m) BALANCE s1 = Some s2
    \<and> assert_update (md_addr m) (md_property m) (md_amount_remaining m) METADEX_RESERVE s2 = Some s3 \<and> mdex_keeps b s s3
    \<and> recordedTrades s3 = recordedTrades s"
proof -
  let ?a = "md_addr m" and ?p = "md_property m" and ?x = "md_amount_remaining m"
  have fok: "fee_ok b s" and book: "book_ok (metadex s)" and res: "\<And>a r. GetTokenBalance s a r METADEX_RESERVE = offered_book (metadex s) a r"
    using ok by (simp_all add: mdex_ok_def)
  from INSERT_ok [OF book m ins] obtain M where M: "s1 = s\<lparr>metadex := M\<rparr>" "book_ok M"
    "\<And>a r. offered_book M a r = offered_book (metadex s) a r + offered [m] a r" by blast
  have fok1: "fee_ok b s1" using fok mdex_fee_ok_cong [of s1 s b] by (simp add: M(1))
  then have lok: "ledger_ok s1" by (simp add: fee_ok_def)
  have bal1: "GetTokenBalance s1 = GetTokenBalance s" by (simp add: M(1) fun_eq_iff GetTokenBalance_def)
  have x: "0 < ?x" "?x \<le> GetTokenBalance s1 ?a ?p BALANCE" using m bal by (simp_all add: order_ok_def bal1)
  have fz1: "\<not> isAddressFrozen s1 ?a ?p" using fz by (simp add: M(1) isAddressFrozen_def)
  obtain s2 mm where t: "assert_update ?a ?p (- ?x) BALANCE s1 = Some s2"
      "assert_update ?a ?p ?x METADEX_RESERVE s2 = Some (s1\<lparr>mp_tally_map := mm\<rparr>)" "ledger_ok (s1\<lparr>mp_tally_map := mm\<rparr>)"
      and sup: "\<And>q. token_supply (s1\<lparr>mp_tally_map := mm\<rparr>) q = token_supply s1 q"
      and b3: "\<And>c q v. GetTokenBalance (s1\<lparr>mp_tally_map := mm\<rparr>) c q v = GetTokenBalance s1 c q v
        - (if c = ?a \<and> q = ?p \<and> v = BALANCE then ?x else 0) + (if c = ?a \<and> q = ?p \<and> v = METADEX_RESERVE then ?x else 0)"
    using transfer [OF lok x, of METADEX_RESERVE ?a] fz1 by (metis counted_simps(1,4))
  define s3 where "s3 = s1\<lparr>mp_tally_map := mm\<rparr>"
  have c3: "GetCachedAmount s3 q = GetCachedAmount s q" "token_supply s3 q = token_supply s q" for q
    using sup [of q] by (simp_all add: s3_def M(1) GetCachedAmount_def GetCacheHistory_def token_supply_def)
  have "cache_ok b s3" using fok by (simp add: s3_def M(1) fee_ok_def cache_ok_def)
  then have "fee_ok b s3" using t(3) fok c3 by (simp add: fee_ok_def s3_def)
  moreover have "GetTokenBalance s3 a r METADEX_RESERVE = offered_book (metadex s3) a r" for a r
    using M(3) [of a r] res [of a r] by (simp add: s3_def b3 bal1) (auto simp: M(1))
  ultimately have "mdex_keeps b s s3"
    using M(2) c3 by (simp add: mdex_keeps_def mdex_ok_def s3_def b3 bal1) (simp add: M(1) isAddressFrozen_def fun_eq_iff)
  moreover have "recordedTrades s3 = recordedTrades s" by (simp add: s3_def M(1))
  ultimately show ?thesis using t by (auto simp: s3_def)
qed

lemma traded_keeps:
  assumes "traded pnew ms s ms' x s0" and "s' = s0\<lparr>metadex := M\<rparr>" and "mdex_ok (md_block pnew) s'"
  shows "mdex_keeps (md_block pnew) s s'"
proof -
  have fr: "mdex_frame s s0" using assms(1) by (simp add: traded_def)
  note fields = mdex_frame_fields [OF fr]
  have "GetTokenBalance s' = GetTokenBalance s0" "token_supply s' = token_supply s0" "isAddressFrozen s' = isAddressFrozen s0"
      "GetCachedAmount s' r = GetCachedAmount s0 r" for r
    by (simp_all add: assms(2) fun_eq_iff GetTokenBalance_def token_supply_def isAddressFrozen_def GetCachedAmount_def GetCacheHistory_def)
  then show ?thesis using assms fields by (simp add: mdex_keeps_def traded_def)
qed

lemma mdex_keeps_trans: "mdex_keeps b s t \<Longrightarrow> mdex_keeps b t u \<Longrightarrow> mdex_keeps b s u"
  by (simp add: mdex_keeps_def)

lemma MetaDEx_ADD_ok:
  fixes s :: "'s mdex_state_scheme"
  assumes ok: "mdex_ok block s" and new: "new = new_metadex a block p amount pd ad txid idx ADD"
    and amount: "0 < amount" "amount \<le> GetTokenBalance s a p BALANCE" and ad: "0 < ad" "ad \<le> MAX_INT64" and ppd: "p \<noteq> pd"
    and fz: "\<not> isAddressFrozen s a p" and holders: "fees_apply s new \<Longrightarrow> fee_holders pd s \<noteq> {}"
  shows "\<exists>rc s'. MetaDEx_ADD a p amount block pd ad txid idx s = Some (rc, s') \<and> rc \<in> {0, METADEX_ERROR - 70} \<and> mdex_keeps block s s'
    \<and> (\<exists>ts. recordedTrades s' = recordedTrades s @ ts \<and> (\<forall>t \<in> set ts. fair new (concat (map (orders \<circ> snd) (metadex s))) t)
        \<and> (\<Sum>t\<leftarrow>ts. mt_amount1 t) \<le> amount)"
proof -
  have fok: "fee_ok block s" using ok by (simp add: mdex_ok_def)
  then have "amount \<le> MAX_INT64" using amount(2) balance_le_max [of s a p BALANCE] by (auto simp: fee_ok_def)
  then have ook: "order_ok new" using amount(1) ad ppd by (simp add: new new_metadex_def order_ok_def)
  have sel: "md_block new = block" "md_addr new = a" "md_property new = p" "md_desired_property new = pd" "md_amount_remaining new = amount"
    by (simp_all add: new new_metadex_def)
  have fd: "funded s new" using fok ook fz amount(2) holders by (simp add: funded_def sel)
  have ok': "mdex_ok (md_block new) s" using ok by (simp add: sel)
  have price: "\<not> 0 \<ge> unitPrice new" using prices_pos(3) [OF ook] by simp
  from x_Trade_ok [OF ok' fd] obtain ret x s1 ms ms' s0 M where
    run: "x_Trade new s = Some (ret, new\<lparr>md_amount_remaining := x\<rparr>, s1)" and ok1: "mdex_ok block s1"
    and tr: "traded new ms s ms' x s0" and s1: "s1 = s0\<lparr>metadex := M\<rparr>"
    and sub: "set ms \<subseteq> set (concat (map (orders \<circ> snd) (metadex s)))" by (auto simp: sel)
  have keeps1: "mdex_keeps block s s1" using traded_keeps [OF tr s1] ok1 by (simp add: sel)
  obtain ts where ts: "recordedTrades s1 = recordedTrades s @ ts" "\<forall>t \<in> set ts. fair new (concat (map (orders \<circ> snd) (metadex s))) t"
      "(\<Sum>t\<leftarrow>ts. mt_amount1 t) \<le> amount"
  proof -
    from tr obtain ts where t: "recordedTrades s0 = recordedTrades s @ ts" "\<forall>t \<in> set ts. fair new ms t"
        "md_amount_remaining new - x = (\<Sum>t\<leftarrow>ts. mt_amount1 t)" "0 \<le> x" by (auto simp: traded_def)
    then show thesis using fair_mono [OF _ sub] by (intro that [of ts]) (auto simp: s1 sel)
  qed
  have add: "MetaDEx_ADD a p amount block pd ad txid idx s =
      (if 0 < x then
         (let (inserted, s2) = MetaDEx_INSERT (new\<lparr>md_amount_remaining := x\<rparr>) s1
          in if \<not> inserted then Some (METADEX_ERROR - 70, s1)
             else do {
               s3 \<leftarrow> assert_update a p (- x) BALANCE s2;
               s4 \<leftarrow> assert_update a p x METADEX_RESERVE s3;
               Some (0, s4)
             })
       else Some (0, s1))"
    unfolding MetaDEx_ADD_def new [symmetric] Let_def using price run by (simp split: prod.split)
  show ?thesis
  proof (cases "0 < x \<and> fst (MetaDEx_INSERT (new\<lparr>md_amount_remaining := x\<rparr>) s1)")
    case False
    then have "MetaDEx_ADD a p amount block pd ad txid idx s = Some (if 0 < x then METADEX_ERROR - 70 else 0, s1)"
      unfolding add by (auto split: prod.split)
    then show ?thesis using keeps1 ts by (auto split: if_splits)
  next
    case True
    let ?m = "new\<lparr>md_amount_remaining := x\<rparr>"
    have fd1: "funded s0 ?m" using tr True by (simp add: traded_def)
    then have m: "order_ok ?m" by (simp add: funded_def)
    have b1: "GetTokenBalance s1 = GetTokenBalance s0" "isAddressFrozen s1 = isAddressFrozen s0"
      by (simp_all add: s1 fun_eq_iff GetTokenBalance_def isAddressFrozen_def)
    obtain s2 where ins: "MetaDEx_INSERT ?m s1 = (True, s2)" using True by (cases "MetaDEx_INSERT ?m s1") auto
    have "md_amount_remaining ?m \<le> GetTokenBalance s1 (md_addr ?m) (md_property ?m) BALANCE" "\<not> isAddressFrozen s1 (md_addr ?m) (md_property ?m)"
      using fd1 unfolding b1 funded_def by blast+
    from reserve_rest [OF ok1 m ins this] obtain s3 s4 where
      "assert_update a p (- x) BALANCE s2 = Some s3" "assert_update a p x METADEX_RESERVE s3 = Some s4" "mdex_keeps block s1 s4"
      "recordedTrades s4 = recordedTrades s1" by (auto simp: sel)
    then show ?thesis using add True ins ts mdex_keeps_trans [OF keeps1] by auto
  qed
qed

subsection \<open>Cancelling orders\<close>

text \<open>A recording function changes the records only.\<close>

definition rec_ok :: "(CMPMetaDEx \<Rightarrow> 's mdex_state_scheme \<Rightarrow> 's mdex_state_scheme) \<Rightarrow> bool" where
  "rec_ok rec \<longleftrightarrow> (\<forall>m s. \<exists>c. rec m s = s\<lparr>recordedCancels := c\<rparr>)"

lemma rec_ok_instances: "rec_ok (recordMetaDExCancelTX txid block)" "rec_ok (\<lambda>_ s. s)"
proof -
  show "rec_ok (recordMetaDExCancelTX txid block)" unfolding rec_ok_def recordMetaDExCancelTX_def by blast
  have "\<exists>c. s = s\<lparr>recordedCancels := c\<rparr>" for s :: "'b mdex_state_scheme" by (rule exI [of _ "recordedCancels s"]) simp
  then show "rec_ok (\<lambda>_ s :: 'b mdex_state_scheme. s)" by (simp add: rec_ok_def)
qed

text \<open>The orders \<open>ms\<close> have been refunded.\<close>

definition refunded :: "md_Set \<Rightarrow> 's mdex_state_scheme \<Rightarrow> 's mdex_state_scheme \<Rightarrow> bool" where
  "refunded ms s s' \<longleftrightarrow> ledger_ok s' \<and> (\<exists>m c. s' = s\<lparr>mp_tally_map := m, recordedCancels := c\<rparr>)
     \<and> (\<forall>q. token_supply s' q = token_supply s q)
     \<and> (\<forall>a r ty. GetTokenBalance s' a r ty = GetTokenBalance s a r ty
          + (if ty = BALANCE then offered ms a r else if ty = METADEX_RESERVE then - offered ms a r else 0))"

lemma refunded_refl: "ledger_ok s \<Longrightarrow> refunded [] s s"
proof -
  have "\<exists>m c. s = s\<lparr>mp_tally_map := m, recordedCancels := c\<rparr>"
    by (rule exI [of _ "mp_tally_map s"], rule exI [of _ "recordedCancels s"]) simp
  then show "ledger_ok s \<Longrightarrow> refunded [] s s" by (simp add: refunded_def)
qed

lemma refunded_trans:
  assumes "refunded ms s s1" and "refunded ns s1 s2"
  shows "refunded (ms @ ns) s s2"
proof -
  have "\<exists>m c. s2 = s\<lparr>mp_tally_map := m, recordedCancels := c\<rparr>" using assms by (auto simp: refunded_def) blast
  then show ?thesis using assms by (simp add: refunded_def)
qed

lemma refund_ok:
  fixes s :: "'s mdex_state_scheme"
  assumes "ledger_ok s" and "order_ok m" and "md_amount_remaining m \<le> GetTokenBalance s (md_addr m) (md_property m) METADEX_RESERVE"
    and "rec_ok rec"
  shows "\<exists>s1. refund m s = Some s1 \<and> refunded [m] s (rec m s1)"
proof -
  let ?a = "md_addr m" and ?p = "md_property m" and ?x = "md_amount_remaining m"
  have x: "0 < ?x" using assms(2) by (simp add: order_ok_def)
  obtain s1 mm where t: "assert_update ?a ?p (- ?x) METADEX_RESERVE s = Some s1"
      "assert_update ?a ?p ?x BALANCE s1 = Some (s\<lparr>mp_tally_map := mm\<rparr>)" "ledger_ok (s\<lparr>mp_tally_map := mm\<rparr>)"
      and sup: "\<And>q. token_supply (s\<lparr>mp_tally_map := mm\<rparr>) q = token_supply s q"
      and bal: "\<And>c q v. GetTokenBalance (s\<lparr>mp_tally_map := mm\<rparr>) c q v = GetTokenBalance s c q v
        - (if c = ?a \<and> q = ?p \<and> v = METADEX_RESERVE then ?x else 0) + (if c = ?a \<and> q = ?p \<and> v = BALANCE then ?x else 0)"
    by (rule transfer [OF assms(1) x assms(3), of BALANCE ?a]) simp_all
  obtain c where c: "rec m (s\<lparr>mp_tally_map := mm\<rparr>) = s\<lparr>mp_tally_map := mm, recordedCancels := c\<rparr>"
    using assms(4) unfolding rec_ok_def by blast
  have frame: "GetTokenBalance (t\<lparr>recordedCancels := c\<rparr>) = GetTokenBalance t" "ledger_ok (t\<lparr>recordedCancels := c\<rparr>) = ledger_ok t"
      "token_supply (t\<lparr>recordedCancels := c\<rparr>) = token_supply t" for t :: "'s mdex_state_scheme"
    by (simp_all add: fun_eq_iff GetTokenBalance_def ledger_ok_def tallies_ok_def token_supply_def)
  have "refunded [m] s (rec m (s\<lparr>mp_tally_map := mm\<rparr>))"
    unfolding c refunded_def using t(3) sup bal by (auto simp: frame)
  then show ?thesis using t by (simp add: refund_def)
qed

lemma offered_filter: "offered (filter P ms) a r + offered (filter (\<lambda>m. \<not> P m) ms) a r = offered ms a r"
  by (induction ms) auto

lemma cancel_set_ok:
  fixes s :: "'s mdex_state_scheme"
  assumes "ledger_ok s" and "\<forall>m \<in> set ms. order_ok m" and "\<forall>a r. offered ms a r \<le> GetTokenBalance s a r METADEX_RESERVE" and "rec_ok rec"
  shows "\<exists>s'. cancel_set which rec ms rc s = Some (filter (\<lambda>m. \<not> which m) ms, if list_ex which ms then 0 else rc, s')
    \<and> refunded (filter which ms) s s'"
  using assms(1-3)
proof (induction ms arbitrary: rc s)
  case Nil
  then show ?case by (simp add: refunded_refl)
next
  case (Cons m ms)
  have nn: "0 \<le> offered ms a r" "0 < md_amount_remaining m" for a r
    using offered_nonneg [of ms a r] Cons.prems(2) by (auto simp: order_ok_def)
  have le: "offered [m] a r + offered ms a r \<le> GetTokenBalance s a r METADEX_RESERVE" for a r using Cons.prems(3) by simp
  show ?case
  proof (cases "which m")
    case False
    have "\<forall>a r. offered ms a r \<le> GetTokenBalance s a r METADEX_RESERVE"
    proof (intro allI)
      fix a r
      have "0 \<le> offered [m] a r" using nn(2) by simp
      then show "offered ms a r \<le> GetTokenBalance s a r METADEX_RESERVE" using le [of a r] by linarith
    qed
    from Cons.IH [OF Cons.prems(1) _ this, of rc] Cons.prems(2) False show ?thesis by auto
  next
    case True
    have "md_amount_remaining m \<le> GetTokenBalance s (md_addr m) (md_property m) METADEX_RESERVE"
      using le [of "md_addr m" "md_property m"] nn(1) [of "md_addr m" "md_property m"] by simp
    then obtain s1 where s1: "refund m s = Some s1" "refunded [m] s (rec m s1)"
      using refund_ok [OF Cons.prems(1) _ _ assms(4)] Cons.prems(2) by force
    have "\<forall>a r. offered ms a r \<le> GetTokenBalance (rec m s1) a r METADEX_RESERVE"
    proof (intro allI)
      fix a r
      have "GetTokenBalance (rec m s1) a r METADEX_RESERVE = GetTokenBalance s a r METADEX_RESERVE - offered [m] a r"
        using s1(2) by (simp add: refunded_def)
      then show "offered ms a r \<le> GetTokenBalance (rec m s1) a r METADEX_RESERVE" using le [of a r] by linarith
    qed
    from Cons.IH [OF _ _ this, of 0] s1(2) Cons.prems(2) obtain s' where
      "cancel_set which rec ms 0 (rec m s1) = Some (filter (\<lambda>m. \<not> which m) ms, 0, s')" "refunded (filter which ms) (rec m s1) s'"
      by (auto simp: refunded_def)
    then show ?thesis using True s1(1) refunded_trans [OF s1(2)] by simp
  qed
qed

definition kept_prices :: "(rat \<Rightarrow> bool) \<Rightarrow> (CMPMetaDEx \<Rightarrow> bool) \<Rightarrow> md_PricesMap \<Rightarrow> md_PricesMap" where
  "kept_prices at_price which = map (\<lambda>(price, ms). (price, if at_price price then filter (\<lambda>m. \<not> which m) ms else ms))"

definition cut_prices :: "(rat \<Rightarrow> bool) \<Rightarrow> (CMPMetaDEx \<Rightarrow> bool) \<Rightarrow> md_PricesMap \<Rightarrow> md_Set" where
  "cut_prices at_price which prices = concat (map (\<lambda>(price, ms). if at_price price then filter which ms else []) prices)"

lemma cut_kept: "offered (cut_prices at_price which prices) a r + offered (orders (kept_prices at_price which prices)) a r = offered (orders prices) a r"
proof (induction prices)
  case (Cons e prices)
  obtain price ms where "e = (price, ms)" by (cases e)
  then show ?case using Cons offered_filter [of which ms a r] by (simp add: cut_prices_def kept_prices_def)
qed (simp add: cut_prices_def kept_prices_def)

lemma level_ok_filter: "level_ok q price ms \<Longrightarrow> level_ok q price (filter P ms)"
  by (auto simp: level_ok_def sorted_wrt_map intro: sorted_wrt_filter)

lemma kept_ok: "levels_ok q prices \<Longrightarrow> levels_ok q (kept_prices at_price which prices)" "map fst (kept_prices at_price which prices) = map fst prices"
  by (auto simp: levels_ok_def kept_prices_def level_ok_filter)

lemma cancel_prices_ok:
  fixes s :: "'s mdex_state_scheme"
  assumes "ledger_ok s" and "levels_ok q prices" and "\<forall>a r. offered (orders prices) a r \<le> GetTokenBalance s a r METADEX_RESERVE" and "rec_ok rec"
  shows "\<exists>s'. cancel_prices at_price which rec prices rc s =
      Some (kept_prices at_price which prices, if cut_prices at_price which prices \<noteq> [] then 0 else rc, s')
    \<and> refunded (cut_prices at_price which prices) s s'"
  using assms(1-3)
proof (induction prices arbitrary: rc s)
  case Nil
  then show ?case by (simp add: refunded_refl kept_prices_def cut_prices_def)
next
  case (Cons e prices)
  obtain price ms where e: "e = (price, ms)" by (cases e)
  have lv: "level_ok q price ms" "levels_ok q prices" using Cons.prems(2) e by simp_all
  have nn: "0 \<le> offered ms a r" "0 \<le> offered (orders prices) a r" for a r
    using offered_nonneg [of ms a r] offered_nonneg [OF orders_ok [OF lv(2)], of a r] lv(1) by (auto simp: level_ok_def)
  have le: "offered ms a r + offered (orders prices) a r \<le> GetTokenBalance s a r METADEX_RESERVE" for a r using Cons.prems(3) e by simp
  have cons: "kept_prices at_price which (e # prices) = (price, if at_price price then filter (\<lambda>m. \<not> which m) ms else ms) # kept_prices at_price which prices"
      "cut_prices at_price which (e # prices) = (if at_price price then filter which ms else []) @ cut_prices at_price which prices"
    by (simp_all add: e kept_prices_def cut_prices_def)
  show ?case
  proof (cases "at_price price")
    case False
    have "\<forall>a r. offered (orders prices) a r \<le> GetTokenBalance s a r METADEX_RESERVE"
    proof (intro allI)
      fix a r
      show "offered (orders prices) a r \<le> GetTokenBalance s a r METADEX_RESERVE" using le [of a r] nn(1) [of a r] by linarith
    qed
    from Cons.IH [OF Cons.prems(1) lv(2) this, of rc] show ?thesis using False e unfolding cons by auto
  next
    case True
    have "\<forall>a r. offered ms a r \<le> GetTokenBalance s a r METADEX_RESERVE"
    proof (intro allI)
      fix a r
      show "offered ms a r \<le> GetTokenBalance s a r METADEX_RESERVE" using le [of a r] nn(2) [of a r] by linarith
    qed
    from cancel_set_ok [OF Cons.prems(1) _ this assms(4), of which rc] lv(1) obtain s1 where
      s1: "cancel_set which rec ms rc s = Some (filter (\<lambda>m. \<not> which m) ms, if list_ex which ms then 0 else rc, s1)"
        "refunded (filter which ms) s s1" by (auto simp: level_ok_def)
    have sub: "offered (filter which ms) a r \<le> offered ms a r" for a r
      using offered_filter [of which ms a r] offered_nonneg [of "filter (\<lambda>m. \<not> which m) ms" a r] lv(1) by (simp add: level_ok_def)
    have "\<forall>a r. offered (orders prices) a r \<le> GetTokenBalance s1 a r METADEX_RESERVE"
    proof (intro allI)
      fix a r
      have "GetTokenBalance s1 a r METADEX_RESERVE = GetTokenBalance s a r METADEX_RESERVE - offered (filter which ms) a r"
        using s1(2) by (simp add: refunded_def)
      then show "offered (orders prices) a r \<le> GetTokenBalance s1 a r METADEX_RESERVE" using sub [of a r] le [of a r] by linarith
    qed
    from Cons.IH [OF _ lv(2) this, of "if list_ex which ms then 0 else rc"] s1(2) obtain s' where
      "cancel_prices at_price which rec prices (if list_ex which ms then 0 else rc) s1 = Some (kept_prices at_price which prices,
         if cut_prices at_price which prices \<noteq> [] then 0 else (if list_ex which ms then 0 else rc), s')"
      "refunded (cut_prices at_price which prices) s1 s'" by (auto simp: refunded_def)
    then show ?thesis using True e s1(1) refunded_trans [OF s1(2)] unfolding cons
      by (auto simp: list_ex_iff filter_empty_conv)
  qed
qed


text \<open>The same over the whole book.\<close>

definition kept_book :: "(property_id \<Rightarrow> bool) \<Rightarrow> (rat \<Rightarrow> bool) \<Rightarrow> (CMPMetaDEx \<Rightarrow> bool) \<Rightarrow> md_PropertiesMap \<Rightarrow> md_PropertiesMap" where
  "kept_book of_prop at_price which = map (\<lambda>(p, prices). (p, if of_prop p then kept_prices at_price which prices else prices))"

definition cut_book :: "(property_id \<Rightarrow> bool) \<Rightarrow> (rat \<Rightarrow> bool) \<Rightarrow> (CMPMetaDEx \<Rightarrow> bool) \<Rightarrow> md_PropertiesMap \<Rightarrow> md_Set" where
  "cut_book of_prop at_price which M = concat (map (\<lambda>(p, prices). if of_prop p then cut_prices at_price which prices else []) M)"

lemma cut_book_Nil [simp]: "kept_book of_prop at_price which [] = []" "cut_book of_prop at_price which [] = []"
  by (simp_all add: kept_book_def cut_book_def)

lemma cut_book_Cons [simp]:
  "kept_book of_prop at_price which ((p, prices) # M)
     = (p, if of_prop p then kept_prices at_price which prices else prices) # kept_book of_prop at_price which M"
  "cut_book of_prop at_price which ((p, prices) # M)
     = (if of_prop p then cut_prices at_price which prices else []) @ cut_book of_prop at_price which M"
  by (simp_all add: kept_book_def cut_book_def)

lemma offered_book_simps [simp]:
  "offered_book [] a r = 0" "offered_book ((p, prices) # M) a r = offered (orders prices) a r + offered_book M a r"
  by (simp_all add: offered_book_def)

lemma cut_kept_book:
  "offered (cut_book of_prop at_price which M) a r + offered_book (kept_book of_prop at_price which M) a r = offered_book M a r"
proof (induction M)
  case (Cons e M)
  obtain p prices where "e = (p, prices)" by (cases e)
  then show ?case using Cons cut_kept [of at_price which prices a r] by simp
qed simp

lemma kept_book_ok:
  assumes "book_ok M"
  shows "book_ok (kept_book of_prop at_price which M)"
proof -
  have "map fst (kept_book of_prop at_price which M) = map fst M" by (auto simp: kept_book_def)
  moreover have "smap_ok prices \<and> levels_ok p prices" if "(p, prices) \<in> set (kept_book of_prop at_price which M)" for p prices
  proof -
    obtain ps where ps: "(p, ps) \<in> set M" "prices = (if of_prop p then kept_prices at_price which ps else ps)"
      using \<open>(p, prices) \<in> set (kept_book of_prop at_price which M)\<close> by (auto simp: kept_book_def)
    then have "smap_ok ps" "levels_ok p ps" using assms by (auto simp: book_ok_def)
    then show ?thesis unfolding ps(2) using kept_ok(1) smap_ok_keys [OF kept_ok(2), of at_price which ps] by simp
  qed
  ultimately show ?thesis using assms smap_ok_keys by (auto simp: book_ok_def)
qed

lemma kept_book_one:
  assumes "smap_ok M" and "map_of M p = Some prices"
  shows "smap_upd p (kept_prices at_price which prices) M = kept_book (\<lambda>q. q = p) at_price which M"
    "cut_prices at_price which prices = cut_book (\<lambda>q. q = p) at_price which M"
proof -
  have absent: "kept_book (\<lambda>q. q = p) at_price which M = M \<and> cut_book (\<lambda>q. q = p) at_price which M = []" if "p \<notin> fst ` set M" for M
    using that by (induction M) auto
  have "smap_upd p (kept_prices at_price which prices) M = kept_book (\<lambda>q. q = p) at_price which M
      \<and> cut_prices at_price which prices = cut_book (\<lambda>q. q = p) at_price which M"
    using assms
  proof (induction M)
    case (Cons e M)
    obtain q ps where e: "e = (q, ps)" by (cases e)
    have lt: "\<forall>k \<in> fst ` set M. q < k" "smap_ok M" using Cons.prems(1) e by (auto simp: smap_ok_def)
    show ?case
    proof (cases "q = p")
      case True
      then have "p \<notin> fst ` set M" using lt(1) by auto
      then show ?thesis using True Cons.prems(2) absent by (simp add: e)
    next
      case False
      then have m: "map_of M p = Some prices" using Cons.prems(2) e by simp
      then have "p \<in> fst ` set M" by (metis map_of_eq_None_iff option.distinct(1))
      then have "q < p" using lt(1) by blast
      then show ?thesis using Cons.IH [OF lt(2) m] False by (simp add: e)
    qed
  qed simp
  then show "smap_upd p (kept_prices at_price which prices) M = kept_book (\<lambda>q. q = p) at_price which M"
    "cut_prices at_price which prices = cut_book (\<lambda>q. q = p) at_price which M" by simp_all
qed

lemma offered_book_nonneg: "\<forall>(p, prices) \<in> set M. levels_ok p prices \<Longrightarrow> 0 \<le> offered_book M a r"
proof (induction M)
  case (Cons e M)
  obtain p prices where "e = (p, prices)" by (cases e)
  then show ?case using Cons offered_nonneg [OF orders_ok, of p prices a r] by simp
qed simp

lemma cancel_properties_ok:
  fixes s :: "'s mdex_state_scheme"
  assumes "ledger_ok s" and "\<forall>(p, prices) \<in> set M. levels_ok p prices"
    and "\<forall>a r. offered_book M a r \<le> GetTokenBalance s a r METADEX_RESERVE" and "rec_ok rec"
  shows "\<exists>s'. cancel_properties of_prop which rec M rc s =
      Some (kept_book of_prop (\<lambda>_. True) which M, if cut_book of_prop (\<lambda>_. True) which M \<noteq> [] then 0 else rc, s')
    \<and> refunded (cut_book of_prop (\<lambda>_. True) which M) s s'"
  using assms(1-3)
proof (induction M arbitrary: rc s)
  case Nil
  then show ?case by (simp add: refunded_refl)
next
  case (Cons e M)
  obtain p prices where e: "e = (p, prices)" by (cases e)
  have lv: "levels_ok p prices" "\<forall>(p, prices) \<in> set M. levels_ok p prices" using Cons.prems(2) e by auto
  have nn: "0 \<le> offered (orders prices) a r" "0 \<le> offered_book M a r" for a r
    using offered_nonneg [OF orders_ok [OF lv(1)]] offered_book_nonneg [OF lv(2)] by blast+
  have le: "offered (orders prices) a r + offered_book M a r \<le> GetTokenBalance s a r METADEX_RESERVE" for a r using Cons.prems(3) e by simp
  show ?case
  proof (cases "of_prop p")
    case False
    have "\<forall>a r. offered_book M a r \<le> GetTokenBalance s a r METADEX_RESERVE"
    proof (intro allI)
      fix a r
      show "offered_book M a r \<le> GetTokenBalance s a r METADEX_RESERVE" using le [of a r] nn(1) [of a r] by linarith
    qed
    from Cons.IH [OF Cons.prems(1) lv(2) this, of rc] show ?thesis using False e by auto
  next
    case True
    let ?cut = "cut_prices (\<lambda>_. True) which prices"
    have "\<forall>a r. offered (orders prices) a r \<le> GetTokenBalance s a r METADEX_RESERVE"
    proof (intro allI)
      fix a r
      show "offered (orders prices) a r \<le> GetTokenBalance s a r METADEX_RESERVE" using le [of a r] nn(2) [of a r] by linarith
    qed
    from cancel_prices_ok [OF Cons.prems(1) lv(1) this assms(4), of "\<lambda>_. True" which rc] obtain s1 where
      s1: "cancel_prices (\<lambda>_. True) which rec prices rc s = Some (kept_prices (\<lambda>_. True) which prices, if ?cut \<noteq> [] then 0 else rc, s1)"
        "refunded ?cut s s1" by blast
    have "\<forall>a r. offered_book M a r \<le> GetTokenBalance s1 a r METADEX_RESERVE"
    proof (intro allI)
      fix a r
      have "GetTokenBalance s1 a r METADEX_RESERVE = GetTokenBalance s a r METADEX_RESERVE - offered ?cut a r"
        using s1(2) by (simp add: refunded_def)
      moreover have "offered ?cut a r \<le> offered (orders prices) a r"
        using cut_kept [of "\<lambda>_. True" which prices a r] offered_nonneg [OF orders_ok [OF kept_ok(1) [OF lv(1)]], of "\<lambda>_. True" which a r] by linarith
      ultimately show "offered_book M a r \<le> GetTokenBalance s1 a r METADEX_RESERVE" using le [of a r] by linarith
    qed
    from Cons.IH [OF _ lv(2) this, of "if ?cut \<noteq> [] then 0 else rc"] s1(2) obtain s' where
      "cancel_properties of_prop which rec M (if ?cut \<noteq> [] then 0 else rc) s1 = Some (kept_book of_prop (\<lambda>_. True) which M,
         if cut_book of_prop (\<lambda>_. True) which M \<noteq> [] then 0 else (if ?cut \<noteq> [] then 0 else rc), s')"
      "refunded (cut_book of_prop (\<lambda>_. True) which M) s1 s'" by (auto simp: refunded_def)
    then show ?thesis using True e s1(1) refunded_trans [OF s1(2)] by auto
  qed
qed

text \<open>What a cancellation of the orders \<open>ms\<close> leaves: the book without them, and their remaining amounts back in the balances.\<close>

definition cancelled :: "int \<Rightarrow> md_Set \<Rightarrow> md_PropertiesMap \<Rightarrow> 's mdex_state_scheme \<Rightarrow> 's mdex_state_scheme \<Rightarrow> bool" where
  "cancelled b ms book s s' \<longleftrightarrow> mdex_keeps b s s' \<and> metadex s' = book \<and> recordedTrades s' = recordedTrades s
     \<and> (\<forall>q. token_supply s' q = token_supply s q)
     \<and> (\<forall>a r. GetTokenBalance s' a r BALANCE = GetTokenBalance s a r BALANCE + offered ms a r)"

lemma cancelled_ok:
  fixes s :: "'s mdex_state_scheme"
  assumes ok: "mdex_ok b s" and rf: "refunded (cut_book of_prop at_price which (metadex s)) s s1"
  shows "cancelled b (cut_book of_prop at_price which (metadex s)) (kept_book of_prop at_price which (metadex s)) s
    (s1\<lparr>metadex := kept_book of_prop at_price which (metadex s)\<rparr>)"
proof -
  let ?cut = "cut_book of_prop at_price which (metadex s)" and ?kept = "kept_book of_prop at_price which (metadex s)"
  define s' where "s' = s1\<lparr>metadex := ?kept\<rparr>"
  obtain m c where s1: "s1 = s\<lparr>mp_tally_map := m, recordedCancels := c\<rparr>" using rf by (auto simp: refunded_def)
  have b': "GetTokenBalance s' = GetTokenBalance s1" "token_supply s' = token_supply s1" "ledger_ok s' = ledger_ok s1"
    by (simp_all add: s'_def fun_eq_iff GetTokenBalance_def token_supply_def ledger_ok_def tallies_ok_def)
  have cached: "GetCachedAmount s' = GetCachedAmount s" "cache_ok b s' = cache_ok b s"
    by (simp_all add: s'_def s1 fun_eq_iff GetCachedAmount_def GetCacheHistory_def cache_ok_def)
  have sup: "token_supply s' q = token_supply s q" for q using rf by (simp add: b' refunded_def)
  have bal: "GetTokenBalance s' a r ty = GetTokenBalance s a r ty
      + (if ty = BALANCE then offered ?cut a r else if ty = METADEX_RESERVE then - offered ?cut a r else 0)" for a r ty
    using rf by (simp add: b' refunded_def)
  have "fee_ok b s'" using ok rf sup cached b'(3) by (simp add: mdex_ok_def fee_ok_def refunded_def)
  moreover have "GetTokenBalance s' a r METADEX_RESERVE = offered_book (metadex s') a r" for a r
    using ok cut_kept_book [of of_prop at_price which "metadex s" a r] bal [of a r METADEX_RESERVE]
    by (simp add: mdex_ok_def) (simp add: s'_def)
  moreover have "book_ok (metadex s')" using ok kept_book_ok by (auto simp: mdex_ok_def s'_def)
  ultimately have "mdex_keeps b s s'" using sup cached bal
    by (simp add: mdex_keeps_def mdex_ok_def) (simp add: s'_def s1 fun_eq_iff isAddressFrozen_def)
  then have "cancelled b ?cut ?kept s s'" using sup bal by (simp add: cancelled_def) (simp add: s'_def s1)
  then show ?thesis by (simp add: s'_def)
qed

lemma cancel_pair_ok:
  fixes s :: "'s mdex_state_scheme"
  assumes ok: "mdex_ok b s" and "get_Prices p s = Some prices" and "rec_ok rec"
  shows "\<exists>s1. cancel_prices at_price which rec prices rc s
      = Some (kept_prices at_price which prices, if cut_book (\<lambda>q. q = p) at_price which (metadex s) \<noteq> [] then 0 else rc, s1)
    \<and> cancelled b (cut_book (\<lambda>q. q = p) at_price which (metadex s)) (kept_book (\<lambda>q. q = p) at_price which (metadex s)) s
        (s1\<lparr>metadex := smap_upd p (kept_prices at_price which prices) (metadex s1)\<rparr>)"
proof -
  have m: "map_of (metadex s) p = Some prices" using assms(2) by (simp add: get_Prices_def)
  have fok: "ledger_ok s" and book: "book_ok (metadex s)" and res: "\<And>a r. GetTokenBalance s a r METADEX_RESERVE = offered_book (metadex s) a r"
    using ok by (simp_all add: mdex_ok_def fee_ok_def)
  have one: "smap_upd p (kept_prices at_price which prices) (metadex s) = kept_book (\<lambda>q. q = p) at_price which (metadex s)"
    "cut_prices at_price which prices = cut_book (\<lambda>q. q = p) at_price which (metadex s)"
    using kept_book_one [OF _ m] book by (auto simp: book_ok_def)
  from cancel_prices_ok [OF fok conjunct2 [OF book_ok_lookup [OF book m]] _ assms(3), of at_price which rc] offered_book_ge [OF book m] obtain s1 where
    s1: "cancel_prices at_price which rec prices rc s
        = Some (kept_prices at_price which prices, if cut_prices at_price which prices \<noteq> [] then 0 else rc, s1)"
      "refunded (cut_prices at_price which prices) s s1" by (auto simp: res)
  have "metadex s1 = metadex s" using s1(2) by (auto simp: refunded_def)
  then show ?thesis using s1 cancelled_ok [OF ok, of "\<lambda>q. q = p" at_price which s1] by (simp add: one)
qed

lemma CANCEL_AT_PRICE_ok:
  fixes s :: "'s mdex_state_scheme" and a :: string and amount ad :: int and pd :: property_id
  assumes "mdex_ok b s" and "get_Prices p s = Some prices"
  defines "price \<equiv> unitPrice (new_metadex a 0 p amount pd ad 0 0 CANCEL_AT_PRICE)" and "which \<equiv> \<lambda>m. md_desired_property m = pd \<and> md_addr m = a"
  defines "ms \<equiv> cut_book (\<lambda>q. q = p) (\<lambda>q. price = q) which (metadex s)"
  shows "\<exists>s'. MetaDEx_CANCEL_AT_PRICE txid block a p amount pd ad s = Some (if ms \<noteq> [] then 0 else METADEX_ERROR - 20, s')
    \<and> cancelled b ms (kept_book (\<lambda>q. q = p) (\<lambda>q. price = q) which (metadex s)) s s'"
proof -
  have w: "(\<lambda>m. \<not> (md_desired_property m \<noteq> pd \<or> md_addr m \<noteq> a)) = which" by (simp add: which_def)
  from cancel_pair_ok [OF assms(1,2) rec_ok_instances(1), of "\<lambda>q. price = q" which txid block "METADEX_ERROR - 20"]
  show ?thesis unfolding MetaDEx_CANCEL_AT_PRICE_def Let_def assms(2) option.case w price_def [symmetric] ms_def by auto
qed

lemma CANCEL_ALL_FOR_PAIR_ok:
  fixes s :: "'s mdex_state_scheme" and a :: string and pd :: property_id
  assumes "mdex_ok b s" and "get_Prices p s = Some prices"
  defines "which \<equiv> \<lambda>m. md_desired_property m = pd \<and> md_addr m = a"
  defines "ms \<equiv> cut_book (\<lambda>q. q = p) (\<lambda>_. True) which (metadex s)"
  shows "\<exists>s'. MetaDEx_CANCEL_ALL_FOR_PAIR txid block a p pd s = Some (if ms \<noteq> [] then 0 else METADEX_ERROR - 30, s')
    \<and> cancelled b ms (kept_book (\<lambda>q. q = p) (\<lambda>_. True) which (metadex s)) s s'"
proof -
  have w: "(\<lambda>m. \<not> (md_desired_property m \<noteq> pd \<or> md_addr m \<noteq> a)) = which" by (simp add: which_def)
  from cancel_pair_ok [OF assms(1,2) rec_ok_instances(1), of "\<lambda>_. True" which txid block "METADEX_ERROR - 30"]
  show ?thesis unfolding MetaDEx_CANCEL_ALL_FOR_PAIR_def assms(2) option.case w ms_def by auto
qed

lemma cancel_book_ok:
  fixes s :: "'s mdex_state_scheme"
  assumes ok: "mdex_ok b s" and "rec_ok rec"
  defines "ms \<equiv> \<lambda>of_prop which. cut_book of_prop (\<lambda>_. True) which (metadex s)"
  shows "\<exists>s1. cancel_properties of_prop which rec (metadex s) rc s
      = Some (kept_book of_prop (\<lambda>_. True) which (metadex s), if ms of_prop which \<noteq> [] then 0 else rc, s1)
    \<and> cancelled b (ms of_prop which) (kept_book of_prop (\<lambda>_. True) which (metadex s)) s
        (s1\<lparr>metadex := kept_book of_prop (\<lambda>_. True) which (metadex s)\<rparr>)"
proof -
  have "ledger_ok s" "\<forall>(p, prices) \<in> set (metadex s). levels_ok p prices"
    "\<forall>a r. offered_book (metadex s) a r \<le> GetTokenBalance s a r METADEX_RESERVE"
    using ok by (auto simp: mdex_ok_def fee_ok_def book_ok_def)
  from cancel_properties_ok [OF this assms(2), of of_prop which rc] show ?thesis
    using cancelled_ok [OF ok, of of_prop "\<lambda>_. True" which] by (auto simp: ms_def)
qed

lemma CANCEL_EVERYTHING_ok:
  fixes s :: "'s mdex_state_scheme" and a :: string and eco :: nat
  assumes "mdex_ok b s"
  defines "of_prop \<equiv> \<lambda>p. \<not> (isMainEcosystemProperty eco \<and> \<not> isMainEcosystemProperty p) \<and> \<not> (isTestEcosystemProperty eco \<and> \<not> isTestEcosystemProperty p)"
  defines "ms \<equiv> cut_book of_prop (\<lambda>_. True) (\<lambda>m. md_addr m = a) (metadex s)"
  shows "\<exists>s'. MetaDEx_CANCEL_EVERYTHING txid block a eco s = Some (if ms \<noteq> [] then 0 else METADEX_ERROR - 40, s')
    \<and> cancelled b ms (kept_book of_prop (\<lambda>_. True) (\<lambda>m. md_addr m = a) (metadex s)) s s'"
  using cancel_book_ok [OF assms(1) rec_ok_instances(1), of of_prop "\<lambda>m. md_addr m = a" txid block "METADEX_ERROR - 40"]
  unfolding MetaDEx_CANCEL_EVERYTHING_def of_prop_def [symmetric] ms_def by auto

lemma SHUTDOWN_ok:
  fixes s :: "'s mdex_state_scheme"
  assumes "mdex_ok b s"
  shows "\<exists>s'. MetaDEx_SHUTDOWN s = Some (0, s')
    \<and> cancelled b (cut_book (\<lambda>_. True) (\<lambda>_. True) (\<lambda>_. True) (metadex s)) (kept_book (\<lambda>_. True) (\<lambda>_. True) (\<lambda>_. True) (metadex s)) s s'"
  using cancel_book_ok [OF assms rec_ok_instances(2), of "\<lambda>_. True" "\<lambda>_. True" 0] unfolding MetaDEx_SHUTDOWN_def by auto

subsection \<open>The open orders\<close>

definition book_orders :: "md_PropertiesMap \<Rightarrow> md_Set" where
  "book_orders M = concat (map (orders \<circ> snd) M)"

lemma book_orders_simps [simp]: "book_orders [] = []" "book_orders ((p, prices) # M) = orders prices @ book_orders M"
  by (simp_all add: book_orders_def)

lemma offered_book_orders: "offered_book M a r = offered (book_orders M) a r"
  by (induction M) auto

lemma in_kept_prices:
  assumes "levels_ok q prices"
  shows "m \<in> set (orders (kept_prices at_price which prices))
    \<longleftrightarrow> m \<in> set (orders prices) \<and> \<not> (at_price (unitPrice m) \<and> which m)"
  using assms
proof (induction prices)
  case (Cons e prices)
  obtain price ms where e: "e = (price, ms)" by (cases e)
  have "\<forall>m \<in> set ms. unitPrice m = price" using Cons.prems by (simp add: e level_ok_def)
  then show ?case using Cons by (auto simp: e kept_prices_def)
qed (simp add: kept_prices_def)

lemma orders_property: "levels_ok q prices \<Longrightarrow> m \<in> set (orders prices) \<Longrightarrow> md_property m = q"
  by (auto simp: levels_ok_def orders_def level_ok_def)

lemma in_kept_book:
  assumes "book_ok M"
  shows "m \<in> set (book_orders (kept_book of_prop at_price which M))
    \<longleftrightarrow> m \<in> set (book_orders M) \<and> \<not> (of_prop (md_property m) \<and> at_price (unitPrice m) \<and> which m)"
proof -
  have "\<forall>(p, prices) \<in> set M. levels_ok p prices" using assms by (auto simp: book_ok_def)
  then show ?thesis
  proof (induction M)
    case (Cons e M)
    obtain p prices where e: "e = (p, prices)" by (cases e)
    have lv: "levels_ok p prices" using Cons.prems by (simp add: e)
    have IH: "m \<in> set (book_orders (kept_book of_prop at_price which M))
      \<longleftrightarrow> m \<in> set (book_orders M) \<and> \<not> (of_prop (md_property m) \<and> at_price (unitPrice m) \<and> which m)" using Cons by simp
    show ?case using orders_property [OF lv, of m] by (simp add: e IH in_kept_prices [OF lv]) blast
  qed simp
qed

lemma in_cut_prices:
  assumes "levels_ok q prices"
  shows "m \<in> set (cut_prices at_price which prices) \<longleftrightarrow> m \<in> set (orders prices) \<and> at_price (unitPrice m) \<and> which m"
  using assms
proof (induction prices)
  case (Cons e prices)
  obtain price ms where e: "e = (price, ms)" by (cases e)
  have "\<forall>m \<in> set ms. unitPrice m = price" using Cons.prems by (simp add: e level_ok_def)
  then show ?case using Cons by (auto simp: e cut_prices_def)
qed (simp add: cut_prices_def)

lemma in_cut_book:
  assumes "book_ok M"
  shows "m \<in> set (cut_book of_prop at_price which M)
    \<longleftrightarrow> m \<in> set (book_orders M) \<and> of_prop (md_property m) \<and> at_price (unitPrice m) \<and> which m"
proof -
  have "\<forall>(p, prices) \<in> set M. levels_ok p prices" using assms by (auto simp: book_ok_def)
  then show ?thesis
  proof (induction M)
    case (Cons e M)
    obtain p prices where e: "e = (p, prices)" by (cases e)
    have lv: "levels_ok p prices" using Cons.prems by (simp add: e)
    have IH: "m \<in> set (cut_book of_prop at_price which M)
      \<longleftrightarrow> m \<in> set (book_orders M) \<and> of_prop (md_property m) \<and> at_price (unitPrice m) \<and> which m" using Cons by simp
    show ?case using orders_property [OF lv, of m] by (simp add: e IH in_cut_prices [OF lv]) blast
  qed simp
qed

lemma offered_absent: "(\<And>m. m \<in> set ms \<Longrightarrow> \<not> (md_addr m = a \<and> md_property m = r)) \<Longrightarrow> offered ms a r = 0"
  by (induction ms) auto

text \<open>After a cancellation that covers all orders of an address for a property, its reserve is back in its balance.\<close>

lemma cancelled_reserve:
  assumes ok: "mdex_ok b s" and c: "cancelled b ms (kept_book of_prop (\<lambda>_. True) which (metadex s)) s s'"
    and r: "of_prop r" "\<And>m. md_addr m = a \<Longrightarrow> which m"
  shows "GetTokenBalance s' a r METADEX_RESERVE = 0"
    "ms = cut_book of_prop (\<lambda>_. True) which (metadex s) \<Longrightarrow>
       GetTokenBalance s' a r BALANCE = GetTokenBalance s a r BALANCE + GetTokenBalance s a r METADEX_RESERVE"
proof -
  have book: "book_ok (metadex s)" and res: "GetTokenBalance s a r METADEX_RESERVE = offered_book (metadex s) a r"
    using ok by (simp_all add: mdex_ok_def)
  have kept: "offered_book (kept_book of_prop (\<lambda>_. True) which (metadex s)) a r = 0"
    unfolding offered_book_orders using in_kept_book [OF book] r by (intro offered_absent) auto
  have "GetTokenBalance s' a r METADEX_RESERVE = offered_book (metadex s') a r"
    using c by (simp add: cancelled_def mdex_keeps_def mdex_ok_def)
  then show "GetTokenBalance s' a r METADEX_RESERVE = 0" using c kept by (simp add: cancelled_def)
  show "GetTokenBalance s' a r BALANCE = GetTokenBalance s a r BALANCE + GetTokenBalance s a r METADEX_RESERVE"
    if "ms = cut_book of_prop (\<lambda>_. True) which (metadex s)"
    using c cut_kept_book [of of_prop "\<lambda>_. True" which "metadex s" a r] that by (simp add: kept res cancelled_def)
qed

lemma isOpen_orders: "MetaDEx_isOpen s txid 0 \<longleftrightarrow> txid \<in> md_txid ` set (book_orders (metadex s))"
  by (force simp: MetaDEx_isOpen_def book_orders_def orders_def list_ex_iff)

lemma RetrieveTrade_orders: "MetaDEx_RetrieveTrade s txid = List.find (\<lambda>m. txid = md_txid m) (book_orders (metadex s))"
  by (simp add: MetaDEx_RetrieveTrade_def book_orders_def orders_def comp_def case_prod_unfold)

subsection \<open>The shutdown of all-pair orders\<close>

lemma allpair_loop_returns: "allpair_loop ms s = Some s' \<Longrightarrow> list_all allpair ms"
proof (rule allpair_loop.raw_induct [of "\<lambda>ms s s'. list_all allpair ms" ms s s'])
  fix loop :: "md_Set \<Rightarrow> 's mdex_state_scheme \<Rightarrow> 's mdex_state_scheme option" and ms s s'
  assume IH: "\<And>ms s s'. loop ms s = Some s' \<Longrightarrow> list_all allpair ms"
    and run: "(case ms of [] \<Rightarrow> Some s | m # rest \<Rightarrow> if allpair m then Option.bind (refund m s) (loop rest) else loop ms s) = Some s'"
  show "list_all allpair ms"
  proof (cases ms)
    case (Cons m rest)
    show ?thesis
    proof (cases "allpair m")
      case True
      then obtain s1 where "loop rest s1 = Some s'" using run Cons by (auto simp: bind_eq_Some_conv)
      then show ?thesis using IH True Cons by simp
    next
      case False
      then have "loop ms s = Some s'" using run Cons by simp
      then show ?thesis by (rule IH)
    qed
  qed simp
qed

lemma allpair_loop_Nil [simp]: "allpair_loop [] s = Some s"
  by (subst allpair_loop.simps) simp

lemma allpair_loop_Cons: "allpair m \<Longrightarrow> allpair_loop (m # rest) s = Option.bind (refund m s) (allpair_loop rest)"
  by (subst allpair_loop.simps) simp

lemma cancel_set_all: "cancel_set (\<lambda>_. True) (\<lambda>_ s. s) ms rc s = Some (ms', rc', s') \<Longrightarrow> ms' = []"
  by (induction ms arbitrary: rc s) (auto simp: bind_eq_Some_conv)

lemma allpair_loop_eq:
  "list_all allpair ms \<Longrightarrow> Option.bind (allpair_loop ms s) f = Option.bind (cancel_set (\<lambda>_. True) (\<lambda>_ s. s) ms rc s) (\<lambda>(_, _, s'). f s')"
proof (induction ms arbitrary: rc s)
  case (Cons m ms)
  then show ?case by (cases "refund m s") (simp_all add: allpair_loop_Cons)
qed simp

lemma allpair_prices_returns: "allpair_prices prices s = Some (prices', s') \<Longrightarrow> list_all allpair (orders prices)"
proof (induction prices arbitrary: s prices')
  case (Cons e prices)
  then show ?case by (cases e) (auto simp: bind_eq_Some_conv dest: allpair_loop_returns)
qed simp

lemma allpair_prices_eq:
  "list_all allpair (orders prices) \<Longrightarrow> Option.bind (allpair_prices prices s) (\<lambda>(ps, s'). f ps s')
     = Option.bind (cancel_prices (\<lambda>_. True) (\<lambda>_. True) (\<lambda>_ s. s) prices rc s) (\<lambda>(ps, _, s'). f ps s')"
proof (induction prices arbitrary: rc s f)
  case (Cons e prices)
  obtain price ms where e: "e = (price, ms)" by (cases e)
  have all: "list_all allpair ms" "list_all allpair (orders prices)" using Cons.prems by (simp_all add: e)
  have IH: "Option.bind (allpair_prices prices s1) (\<lambda>(rest, s'). f ((price, ms') # rest) s')
      = Option.bind (cancel_prices (\<lambda>_. True) (\<lambda>_. True) (\<lambda>_ s. s) prices rc1 s1) (\<lambda>(rest, _, s'). f ((price, ms') # rest) s')" for s1 rc1 ms'
    by (rule Cons.IH [OF all(2)])
  have "Option.bind (allpair_prices (e # prices) s) (\<lambda>(ps, s'). f ps s')
      = Option.bind (allpair_loop ms s) (\<lambda>s1. Option.bind (allpair_prices prices s1) (\<lambda>(rest, s'). f ((price, []) # rest) s'))"
    by (simp add: e bind_assoc case_prod_unfold)
  also have "\<dots> = Option.bind (cancel_set (\<lambda>_. True) (\<lambda>_ s. s) ms rc s)
      (\<lambda>(_, _, s1). Option.bind (allpair_prices prices s1) (\<lambda>(rest, s'). f ((price, []) # rest) s'))"
    by (rule allpair_loop_eq [OF all(1)])
  also have "\<dots> = Option.bind (cancel_prices (\<lambda>_. True) (\<lambda>_. True) (\<lambda>_ s. s) (e # prices) rc s) (\<lambda>(ps, _, s'). f ps s')"
  proof (cases "cancel_set (\<lambda>_. True) (\<lambda>_ s. s) ms rc s")
    case (Some x)
    obtain ms' rc1 s1 where x: "x = (ms', rc1, s1)" by (cases x)
    have "ms' = []" using cancel_set_all Some x by blast
    then show ?thesis using IH [of s1 "[]" rc1] by (simp add: e Some x bind_assoc case_prod_unfold)
  qed (simp add: e)
  finally show ?case .
qed simp

lemma allpair_properties_returns: "allpair_properties M s = Some (M', s') \<Longrightarrow> list_all allpair (book_orders M)"
proof (induction M arbitrary: s M')
  case (Cons e M)
  then show ?case by (cases e) (auto simp: bind_eq_Some_conv dest: allpair_prices_returns)
qed simp

lemma allpair_properties_eq:
  "list_all allpair (book_orders M) \<Longrightarrow> Option.bind (allpair_properties M s) (\<lambda>(book, s'). f book s')
     = Option.bind (cancel_properties (\<lambda>_. True) (\<lambda>_. True) (\<lambda>_ s. s) M rc s) (\<lambda>(book, _, s'). f book s')"
proof (induction M arbitrary: rc s f)
  case (Cons e M)
  obtain p prices where e: "e = (p, prices)" by (cases e)
  have all: "list_all allpair (orders prices)" "list_all allpair (book_orders M)" using Cons.prems by (simp_all add: e)
  have IH: "Option.bind (allpair_properties M s1) (\<lambda>(rest, s'). f ((p, ps) # rest) s')
      = Option.bind (cancel_properties (\<lambda>_. True) (\<lambda>_. True) (\<lambda>_ s. s) M rc1 s1) (\<lambda>(rest, _, s'). f ((p, ps) # rest) s')" for s1 rc1 ps
    by (rule Cons.IH [OF all(2)])
  have "Option.bind (allpair_properties (e # M) s) (\<lambda>(book, s'). f book s')
      = Option.bind (allpair_prices prices s) (\<lambda>(ps, s1). Option.bind (allpair_properties M s1) (\<lambda>(rest, s'). f ((p, ps) # rest) s'))"
    by (simp add: e bind_assoc case_prod_unfold)
  also have "\<dots> = Option.bind (cancel_prices (\<lambda>_. True) (\<lambda>_. True) (\<lambda>_ s. s) prices rc s)
      (\<lambda>(ps, _, s1). Option.bind (allpair_properties M s1) (\<lambda>(rest, s'). f ((p, ps) # rest) s'))"
    by (rule allpair_prices_eq [OF all(1)])
  also have "\<dots> = Option.bind (cancel_properties (\<lambda>_. True) (\<lambda>_. True) (\<lambda>_ s. s) (e # M) rc s) (\<lambda>(book, _, s'). f book s')"
  proof (cases "cancel_prices (\<lambda>_. True) (\<lambda>_. True) (\<lambda>_ s. s) prices rc s")
    case (Some x)
    then show ?thesis using IH by (cases x) (simp add: e bind_assoc case_prod_unfold)
  qed (simp add: e)
  finally show ?case .
qed simp

subsection \<open>A sample book\<close>

text \<open>Alice sells 30 units of property 3 for 60 of property 1; Bob owns 50 of property 1.\<close>

definition sample_order :: CMPMetaDEx where
  "sample_order = new_metadex ''alice'' 5 3 30 1 60 77 0 ADD"

definition sample_mdex :: mdex_state where
  "sample_mdex = (dex_state.extend (sample_dex 100) (mdex_state.fields [(3, [(2, [sample_order])])] [] []))
     \<lparr>mp_tally_map := [(''alice'', \<lparr>mp_token = [(3, zero_record(METADEX_RESERVE := 30))], my_it = None\<rparr>), (''bob'', holder 1 50)],
       my_offers := [], my_accepts := []\<rparr>"

lemma sample_mdex_fields [simp]:
  "mp_tally_map sample_mdex = [(''alice'', \<lparr>mp_token = [(3, zero_record(METADEX_RESERVE := 30))], my_it = None\<rparr>), (''bob'', holder 1 50)]"
  "metadex sample_mdex = [(3, [(2, [sample_order])])]" "pDbFeeCache sample_mdex = []" "setFrozenAddresses sample_mdex = []"
  "my_offers sample_mdex = []" "my_accepts sample_mdex = []" "recordedTrades sample_mdex = []"
  by (simp_all add: sample_mdex_def sample_dex_def sample_rules_def sample_crowds_def dex_state.defs rules_state.defs crowd_state.defs
      fee_state.defs mdex_state.defs)

lemma sample_order_fields [simp]:
  "md_block sample_order = 5" "md_txid sample_order = 77" "md_idx sample_order = 0" "md_property sample_order = 3"
  "md_amount_forsale sample_order = 30" "md_desired_property sample_order = 1" "md_amount_desired sample_order = 60"
  "md_amount_remaining sample_order = 30" "md_addr sample_order = ''alice''"
  by (simp_all add: sample_order_def new_metadex_def)

lemma sample_mdex_balance:
  "GetTokenBalance sample_mdex a p ty =
     (if a = ''alice'' \<and> p = 3 \<and> ty = METADEX_RESERVE then 30 else if a = ''bob'' \<and> p = 1 \<and> ty = BALANCE then 50 else 0)"
  by (auto simp: GetTokenBalance_def getMoney_def zero_record_def holder_def)

lemma sample_mdex_ok: "mdex_ok 12 sample_mdex"
proof -
  have total: "token_supply sample_mdex p = (if p = 3 then 30 else if p = 1 then 50 else 0)" for p
    by (simp add: token_supply_def tally_total_def getMoney_def zero_record_def holder_def)
  have "ledger_ok sample_mdex"
    unfolding ledger_ok_def total
    by (auto simp: tallies_ok_def umap_ok_def tally_ok_def smap_ok_def record_ok_def zero_record_def holder_def)
  then have "fee_ok 12 sample_mdex"
    by (simp add: fee_ok_def total cache_ok_def smap_ok_def GetCachedAmount_def GetCacheHistory_def)
  moreover have "order_ok sample_order" "unitPrice sample_order = 2" by (simp_all add: order_ok_def unitPrice_def)
  then have "book_ok (metadex sample_mdex)" by (simp add: book_ok_def smap_ok_def level_ok_def)
  ultimately show ?thesis by (simp add: mdex_ok_def sample_mdex_balance)
qed

subsection \<open>Properties of the exchange of tokens\<close>

text \<open>
  \<^bold>\<open>C10\<close>. Adding an order the sender can fund (a positive amount of at most the balance, for a positive amount of a different
  property, no freeze, and an owner to pay fees to where fees apply): no assertion of the matching fails and the loops end; the
  invariant holds afterwards: every reserve is what the open orders still offer and the book is sorted. Supply plus cached fees of
  every property are kept, no other kind of balance, offer or accept changes. Every recorded trade keeps to the limit
  price of the new order and to that of the order it matched, and the sender pays at most the amount put up.
\<close>

theorem MetaDEx_ADD_spec:
  fixes s :: mdex_state
  assumes "mdex_ok block s" and "new = new_metadex a block p amount pd ad txid idx ADD"
    and "0 < amount" and "amount \<le> GetTokenBalance s a p BALANCE" and "0 < ad" and "ad \<le> MAX_INT64" and "p \<noteq> pd"
    and "\<not> isAddressFrozen s a p" and "fees_apply s new \<Longrightarrow> fee_holders pd s \<noteq> {}"
  shows "\<exists>rc s'. MetaDEx_ADD a p amount block pd ad txid idx s = Some (rc, s') \<and> rc \<in> {0, METADEX_ERROR - 70}
    \<and> mdex_ok block s'
    \<and> (\<forall>r. token_supply s' r + GetCachedAmount s' r = token_supply s r + GetCachedAmount s r)
    \<and> (\<forall>c r ty. ty = BALANCE \<or> ty = METADEX_RESERVE \<or> GetTokenBalance s' c r ty = GetTokenBalance s c r ty)
    \<and> my_offers s' = my_offers s \<and> my_accepts s' = my_accepts s
    \<and> (\<exists>ts. recordedTrades s' = recordedTrades s @ ts \<and> list_all (fair new (book_orders (metadex s))) ts
        \<and> (\<Sum>t\<leftarrow>ts. mt_amount1 t) \<le> amount)"
proof -
  from MetaDEx_ADD_ok [OF assms] obtain rc s' ts where run: "MetaDEx_ADD a p amount block pd ad txid idx s = Some (rc, s')"
      "rc \<in> {0, METADEX_ERROR - 70}" "mdex_keeps block s s'" "recordedTrades s' = recordedTrades s @ ts"
      "\<forall>t \<in> set ts. fair new (book_orders (metadex s)) t" "(\<Sum>t\<leftarrow>ts. mt_amount1 t) \<le> amount"
    by (auto simp: book_orders_def)
  moreover have "\<forall>c r ty. ty = BALANCE \<or> ty = METADEX_RESERVE \<or> GetTokenBalance s' c r ty = GetTokenBalance s c r ty"
    using run(3) unfolding mdex_keeps_def by blast
  ultimately show ?thesis by (simp add: mdex_keeps_def list_all_iff)
qed

theorem MetaDEx_ADD_spec_witness:
  "\<exists>rc s'. MetaDEx_ADD ''bob'' 1 50 12 3 25 78 4 sample_mdex = Some (rc, s') \<and> mdex_ok 12 s' \<and> token_supply s' 3 + GetCachedAmount s' 3 = 30"
proof -
  have "\<not> isAddressFrozen sample_mdex ''bob'' 1" by (simp add: isAddressFrozen_def)
  moreover have "\<not> fees_apply sample_mdex (new_metadex ''bob'' 12 1 50 3 25 78 4 ADD)" by (simp add: fees_apply_def new_metadex_def)
  moreover have "token_supply sample_mdex 3 + GetCachedAmount sample_mdex 3 = 30"
    by (simp add: token_supply_def tally_total_def getMoney_def zero_record_def holder_def GetCachedAmount_def GetCacheHistory_def)
  ultimately show ?thesis
    using MetaDEx_ADD_spec [OF sample_mdex_ok refl, of 50 "''bob''" 1 25 3 78 4] by (auto simp: sample_mdex_balance)
qed

text \<open>
  \<^bold>\<open>C33\<close>. Cancelling everything of an address in an ecosystem: no assertion fails; exactly the orders of the address for
  properties of that ecosystem leave the book; for each such property the reserve of the address is zero and its former
  amount is in the balance; all other orders, the supplies and the invariant are kept. The code is 0 when there was such an order.
\<close>

theorem MetaDEx_CANCEL_EVERYTHING_spec:
  fixes s :: mdex_state and eco :: nat
  assumes "mdex_ok b s" and "of_prop = (\<lambda>p. if isMainEcosystemProperty eco then isMainEcosystemProperty p
    else if isTestEcosystemProperty eco then isTestEcosystemProperty p else True)"
  shows "\<exists>rc s'. MetaDEx_CANCEL_EVERYTHING txid block a eco s = Some (rc, s') \<and> mdex_ok b s'
    \<and> (\<forall>m. m \<in> set (book_orders (metadex s')) \<longleftrightarrow> m \<in> set (book_orders (metadex s)) \<and> \<not> (md_addr m = a \<and> of_prop (md_property m)))
    \<and> (rc = 0 \<longleftrightarrow> (\<exists>m \<in> set (book_orders (metadex s)). md_addr m = a \<and> of_prop (md_property m)))
    \<and> (\<forall>r. of_prop r \<longrightarrow> GetTokenBalance s' a r METADEX_RESERVE = 0
        \<and> GetTokenBalance s' a r BALANCE = GetTokenBalance s a r BALANCE + GetTokenBalance s a r METADEX_RESERVE)
    \<and> (\<forall>q. token_supply s' q = token_supply s q)"
proof -
  let ?which = "\<lambda>m. md_addr m = a" and ?true = "\<lambda>_ :: rat. True"
  have eco: "\<not> (isMainEcosystemProperty eco \<and> isTestEcosystemProperty eco)"
    by (auto simp: isMainEcosystemProperty_def isTestEcosystemProperty_def)
  have of_prop: "(\<lambda>p. \<not> (isMainEcosystemProperty eco \<and> \<not> isMainEcosystemProperty p)
      \<and> \<not> (isTestEcosystemProperty eco \<and> \<not> isTestEcosystemProperty p)) = of_prop"
    using eco unfolding assms(2) by auto
  define ms where "ms = cut_book of_prop ?true ?which (metadex s)"
  from CANCEL_EVERYTHING_ok [OF assms(1), where eco = eco and a = a and txid = txid and block = block] obtain s' where
    run: "MetaDEx_CANCEL_EVERYTHING txid block a eco s = Some (if ms \<noteq> [] then 0 else METADEX_ERROR - 40, s')"
      and c: "cancelled b ms (kept_book of_prop ?true ?which (metadex s)) s s'" unfolding of_prop ms_def by blast
  have book: "book_ok (metadex s)" using assms(1) by (simp add: mdex_ok_def)
  have kept: "m \<in> set (book_orders (metadex s')) \<longleftrightarrow> m \<in> set (book_orders (metadex s)) \<and> \<not> (md_addr m = a \<and> of_prop (md_property m))" for m
    using c in_kept_book [OF book, of m of_prop ?true ?which] by (auto simp: cancelled_def)
  have "ms \<noteq> [] \<longleftrightarrow> (\<exists>m \<in> set (book_orders (metadex s)). md_addr m = a \<and> of_prop (md_property m))"
    unfolding ms_def using in_cut_book [OF book, of _ of_prop ?true ?which] by (metis list.set_intros(1) list.set_cases neq_Nil_conv empty_iff list.set(1))
  then show ?thesis
    using run kept c cancelled_reserve [OF assms(1) c, of _ a] by (auto simp: ms_def cancelled_def mdex_keeps_def)
qed

theorem MetaDEx_CANCEL_EVERYTHING_spec_witness:
  "\<exists>s'. MetaDEx_CANCEL_EVERYTHING 90 12 ''alice'' 1 sample_mdex = Some (0, s') \<and> book_orders (metadex s') = []
     \<and> GetTokenBalance s' ''alice'' 3 BALANCE = 30"
proof -
  have main: "isMainEcosystemProperty 1" "isMainEcosystemProperty 3" by (simp_all add: isMainEcosystemProperty_def isTestEcosystemProperty_def)
  have eco: "isMainEcosystemProperty = (\<lambda>p. if isMainEcosystemProperty 1 then isMainEcosystemProperty p
      else if isTestEcosystemProperty 1 then isTestEcosystemProperty p else True)" unfolding if_P [OF main(1)] by (rule refl)
  from MetaDEx_CANCEL_EVERYTHING_spec [OF sample_mdex_ok eco, where txid = 90 and block = 12 and a = "''alice''"] obtain rc s' where
    run: "MetaDEx_CANCEL_EVERYTHING 90 12 ''alice'' 1 sample_mdex = Some (rc, s')"
      "\<forall>m. m \<in> set (book_orders (metadex s')) \<longleftrightarrow> m \<in> set (book_orders (metadex sample_mdex)) \<and> \<not> (md_addr m = ''alice'' \<and> isMainEcosystemProperty (md_property m))"
      "rc = 0 \<longleftrightarrow> (\<exists>m \<in> set (book_orders (metadex sample_mdex)). md_addr m = ''alice'' \<and> isMainEcosystemProperty (md_property m))"
      "GetTokenBalance s' ''alice'' 3 BALANCE = GetTokenBalance sample_mdex ''alice'' 3 BALANCE + GetTokenBalance sample_mdex ''alice'' 3 METADEX_RESERVE"
    using main(2) by blast
  have "rc = 0" using run(3) main(2) by simp
  moreover have "set (book_orders (metadex s')) = {}"
  proof (rule equals0I)
    fix m assume "m \<in> set (book_orders (metadex s'))"
    then show False using run(2) main(2) by auto
  qed
  ultimately have "rc = 0" "book_orders (metadex s') = []" by simp_all
  then show ?thesis using run(1,4) by (simp add: sample_mdex_balance)
qed

text \<open>
  A shutdown of the exchange never fails an assertion and returns everything that is reserved: afterwards no order is
  open, all reserves are zero, every balance has grown by exactly the reserve, and no supply has changed.
\<close>

lemma MetaDEx_SHUTDOWN_spec:
  fixes s :: mdex_state
  assumes "mdex_ok b s"
  shows "\<exists>s'. MetaDEx_SHUTDOWN s = Some (0, s') \<and> mdex_ok b s' \<and> (\<forall>txid. \<not> MetaDEx_isOpen s' txid 0)
    \<and> (\<forall>a r. GetTokenBalance s' a r METADEX_RESERVE = 0
        \<and> GetTokenBalance s' a r BALANCE = GetTokenBalance s a r BALANCE + GetTokenBalance s a r METADEX_RESERVE)
    \<and> (\<forall>q. token_supply s' q = token_supply s q)"
proof -
  let ?t = "\<lambda>_. True"
  from SHUTDOWN_ok [OF assms] obtain s' where s': "MetaDEx_SHUTDOWN s = Some (0, s')"
    and c: "cancelled b (cut_book ?t ?t ?t (metadex s)) (kept_book ?t ?t ?t (metadex s)) s s'" by blast
  have "m \<notin> set (book_orders (metadex s'))" for m
    using c in_kept_book [of "metadex s" m ?t ?t ?t] assms by (simp add: cancelled_def mdex_ok_def)
  then have "\<not> MetaDEx_isOpen s' txid 0" for txid by (auto simp: isOpen_orders)
  moreover have "mdex_ok b s'" "\<forall>q. token_supply s' q = token_supply s q" using c by (simp_all add: cancelled_def mdex_keeps_def)
  moreover have "GetTokenBalance s' a r METADEX_RESERVE = 0
      \<and> GetTokenBalance s' a r BALANCE = GetTokenBalance s a r BALANCE + GetTokenBalance s a r METADEX_RESERVE" for a r
    using cancelled_reserve [OF assms c, where r = r and a = a] by blast
  ultimately show ?thesis using s' by blast
qed

text \<open>
  \<^bold>\<open>C34\<close>. The shutdown of all-pair orders does what a complete shutdown does when every open order is an all-pair order. As soon as
  one open order has a native token on either side, it does not return: its loop stays at that order.
\<close>

theorem MetaDEx_SHUTDOWN_ALLPAIR_loops:
  fixes s :: mdex_state
  shows "MetaDEx_SHUTDOWN_ALLPAIR s = (if list_all allpair (book_orders (metadex s)) then MetaDEx_SHUTDOWN s else None)"
proof (cases "list_all allpair (book_orders (metadex s))")
  case True
  then show ?thesis
    using allpair_properties_eq [of "metadex s" s "\<lambda>book s'. Some (0, s'\<lparr>metadex := book\<rparr>)" 0]
    by (simp add: MetaDEx_SHUTDOWN_ALLPAIR_def MetaDEx_SHUTDOWN_def)
next
  case False
  then have "allpair_properties (metadex s) s = None"
    using allpair_properties_returns by (cases "allpair_properties (metadex s) s") auto
  then show ?thesis using False by (simp add: MetaDEx_SHUTDOWN_ALLPAIR_def)
qed

end
