(* ===== verification/Governance.thy ===== *)
theory Governance
  imports Prelude
begin

text \<open>
  The governance database, \<^verbatim>\<open>src/src/governance/governance.{h,cpp}\<close>: the costs of issuing tokens and the scripts that receive fees and
  the developer fund, each with the block height from which it counts.

  The database is kept as three sorted association lists, one per key prefix; reads and writes succeed. A value in force is the one with
  the greatest height. Iteration order does not matter for that. The parameters of the network (\<^verbatim>\<open>Params()\<close>) are arguments.

  The locale \<open>versioned\<close> states what block processing relies on: an update above all recorded heights is in force at once, and its
  reversal when the block is disconnected restores the database. It is interpreted for costs, fee scripts and developer scripts.
\<close>

record CGovernance =
  gov_init :: bool
  gov_costs :: "((int \<times> int) \<times> int) list" \<comment> \<open>type and height\<close>
  gov_fee_scripts :: "(int \<times> string) list"
  gov_dev_scripts :: "(int \<times> string) list"

abbreviation GOVERNANCE_COST_FIXED :: int where "GOVERNANCE_COST_FIXED \<equiv> 1"
abbreviation GOVERNANCE_COST_MANAGED :: int where "GOVERNANCE_COST_MANAGED \<equiv> 2"
abbreviation GOVERNANCE_COST_VARIABLE :: int where "GOVERNANCE_COST_VARIABLE \<equiv> 3"
abbreviation GOVERNANCE_COST_USERNAME :: int where "GOVERNANCE_COST_USERNAME \<equiv> 4"
abbreviation GOVERNANCE_COST_SUB :: int where "GOVERNANCE_COST_SUB \<equiv> 5"

definition DUMMY_SCRIPT :: string where
  "DUMMY_SCRIPT = map char_of [0x05, 0x68, 0x85, 0x77, 0x77, 0x89 :: nat]"

record GovernanceParams =
  GovernanceFixedFee :: int
  GovernanceManagedFee :: int
  GovernanceVariableFee :: int
  GovernanceUsernameFee :: int
  GovernanceSubFee :: int
  governanceFeeScript :: string \<comment> \<open>\<^verbatim>\<open>GetScriptForDestination\<close> of the fee address\<close>
  devFundScript :: string

definition governance_Init :: "bool \<Rightarrow> GovernanceParams \<Rightarrow> CGovernance \<Rightarrow> bool \<times> CGovernance" where
  "governance_Init fWipe params g =
     (if fWipe \<or> \<not> gov_init g then
        (True, g\<lparr>gov_costs := fold (\<lambda>(k, v). smap_upd k v)
            [((0, 0), 0), ((GOVERNANCE_COST_FIXED, 0), GovernanceFixedFee params), ((GOVERNANCE_COST_MANAGED, 0), GovernanceManagedFee params),
             ((GOVERNANCE_COST_VARIABLE, 0), GovernanceVariableFee params), ((GOVERNANCE_COST_USERNAME, 0), GovernanceUsernameFee params),
             ((GOVERNANCE_COST_SUB, 0), GovernanceSubFee params)] (gov_costs g),
          gov_fee_scripts := smap_upd 0 (governanceFeeScript params) (gov_fee_scripts g),
          gov_dev_scripts := smap_upd 0 (devFundScript params) (gov_dev_scripts g), gov_init := True\<rparr>)
      else (True, g))"

text \<open>The loop of the getters: the value of the greatest height seen so far.\<close>

fun latest :: "(int \<times> 'v) list \<Rightarrow> int \<Rightarrow> 'v \<Rightarrow> 'v" where
  "latest [] height details = details"
| "latest ((h, v) # es) height details = (if h > height then latest es h v else latest es height details)"

definition GetCost :: "CGovernance \<Rightarrow> int \<Rightarrow> int" where
  "GetCost g ty = latest (map (\<lambda>((t, h), cost). (h, cost)) (filter (\<lambda>((t, h), cost). t = ty) (gov_costs g))) (- 1) 0"

definition UpdateCost :: "int \<Rightarrow> int \<Rightarrow> int \<Rightarrow> CGovernance \<Rightarrow> bool \<times> CGovernance" where
  "UpdateCost cost ty height g =
     (if ty \<noteq> GOVERNANCE_COST_FIXED \<and> ty \<noteq> GOVERNANCE_COST_MANAGED \<and> ty \<noteq> GOVERNANCE_COST_VARIABLE then (False, g)
      else case map_of (gov_costs g) (ty, height) of
             None \<Rightarrow> (True, g\<lparr>gov_costs := smap_upd (ty, height) cost (gov_costs g)\<rparr>)
           | Some _ \<Rightarrow> (True, g))"

definition RevertUpdateCost :: "int \<Rightarrow> int \<Rightarrow> CGovernance \<Rightarrow> bool \<times> CGovernance" where
  "RevertUpdateCost ty height g =
     (case map_of (gov_costs g) (ty, height) of
        Some _ \<Rightarrow> (True, g\<lparr>gov_costs := smap_del (ty, height) (gov_costs g)\<rparr>)
      | None \<Rightarrow> (False, g))"

definition GetFeeScript :: "CGovernance \<Rightarrow> string" where
  "GetFeeScript g = latest (gov_fee_scripts g) (- 1) DUMMY_SCRIPT"

definition UpdateFeeScript :: "string \<Rightarrow> int \<Rightarrow> CGovernance \<Rightarrow> bool \<times> CGovernance" where
  "UpdateFeeScript script height g =
     (case map_of (gov_fee_scripts g) height of
        None \<Rightarrow> (True, g\<lparr>gov_fee_scripts := smap_upd height script (gov_fee_scripts g)\<rparr>)
      | Some _ \<Rightarrow> (True, g))"

definition RevertUpdateFeeScript :: "int \<Rightarrow> CGovernance \<Rightarrow> bool \<times> CGovernance" where
  "RevertUpdateFeeScript height g =
     (case map_of (gov_fee_scripts g) height of
        Some _ \<Rightarrow> (True, g\<lparr>gov_fee_scripts := smap_del height (gov_fee_scripts g)\<rparr>)
      | None \<Rightarrow> (False, g))"

definition GetDevScript :: "CGovernance \<Rightarrow> string" where
  "GetDevScript g = latest (gov_dev_scripts g) (- 1) DUMMY_SCRIPT"

definition UpdateDevScript :: "string \<Rightarrow> int \<Rightarrow> CGovernance \<Rightarrow> bool \<times> CGovernance" where
  "UpdateDevScript script height g =
     (case map_of (gov_dev_scripts g) height of
        None \<Rightarrow> (True, g\<lparr>gov_dev_scripts := smap_upd height script (gov_dev_scripts g)\<rparr>)
      | Some _ \<Rightarrow> (True, g))"

definition RevertUpdateDevScript :: "int \<Rightarrow> CGovernance \<Rightarrow> bool \<times> CGovernance" where
  "RevertUpdateDevScript height g =
     (case map_of (gov_dev_scripts g) height of
        Some _ \<Rightarrow> (True, g\<lparr>gov_dev_scripts := smap_del height (gov_dev_scripts g)\<rparr>)
      | None \<Rightarrow> (False, g))"

subsection \<open>Versioned values\<close>

locale versioned =
  fixes ok :: "'s \<Rightarrow> bool" and fresh :: "'s \<Rightarrow> int \<Rightarrow> bool" \<comment> \<open>above all recorded heights\<close>
    and current :: "'s \<Rightarrow> 'v" and upd :: "'v \<Rightarrow> int \<Rightarrow> 's \<Rightarrow> bool \<times> 's" and undo :: "int \<Rightarrow> 's \<Rightarrow> bool \<times> 's"
  assumes upd_ok: "\<lbrakk>ok s; fresh s h\<rbrakk> \<Longrightarrow> fst (upd v h s) \<and> ok (snd (upd v h s)) \<and> current (snd (upd v h s)) = v"
    and upd_fresh: "\<lbrakk>ok s; fresh s h; h < k\<rbrakk> \<Longrightarrow> fresh (snd (upd v h s)) k"
    and undo_upd: "\<lbrakk>ok s; fresh s h\<rbrakk> \<Longrightarrow> undo h (snd (upd v h s)) = (True, s)"
begin

text \<open>The updates of a chain of blocks, and their reversal from the last one.\<close>

fun run :: "(int \<times> 'v) list \<Rightarrow> 's \<Rightarrow> 's" where
  "run [] s = s"
| "run ((h, v) # us) s = run us (snd (upd v h s))"

fun unwind :: "(int \<times> 'v) list \<Rightarrow> 's \<Rightarrow> 's" where
  "unwind [] s = s"
| "unwind ((h, v) # us) s = snd (undo h (unwind us s))"

lemma unwind_run:
  assumes "ok s" and "\<forall>(h, v) \<in> set us. fresh s h" and "sorted_wrt (<) (map fst us)"
  shows "unwind us (run us s) = s" and "ok (run us s)" and "us \<noteq> [] \<Longrightarrow> current (run us s) = snd (last us)"
proof -
  have "unwind us (run us s) = s \<and> ok (run us s) \<and> (us \<noteq> [] \<longrightarrow> current (run us s) = snd (last us))"
    using assms
  proof (induction us arbitrary: s)
    case (Cons u us)
    obtain h v where u: "u = (h, v)" by (cases u)
    let ?s = "snd (upd v h s)"
    have fr: "fresh s h" using Cons.prems(2) by (simp add: u)
    have lt: "\<forall>(k, w) \<in> set us. h < k" and so: "sorted_wrt (<) (map fst us)" using Cons.prems(3) by (auto simp: u)
    have ok: "ok ?s" "current ?s = v" using upd_ok [OF Cons.prems(1) fr] by simp_all
    have "\<forall>(k, w) \<in> set us. fresh ?s k" using lt upd_fresh [OF Cons.prems(1) fr] by auto
    from Cons.IH [OF ok(1) this so] have IH: "unwind us (run us ?s) = ?s" "ok (run us ?s)" "us \<noteq> [] \<Longrightarrow> current (run us ?s) = snd (last us)" by simp_all
    show ?case using IH ok(2) undo_upd [OF Cons.prems(1) fr] by (cases "us = []") (simp_all add: u)
  qed simp
  then show "unwind us (run us s) = s" "ok (run us s)" "us \<noteq> [] \<Longrightarrow> current (run us s) = snd (last us)" by simp_all
qed

end

subsection \<open>The value in force\<close>

lemma latest_max:
  assumes "(h, v) \<in> set es" and "\<forall>(k, w) \<in> set es. k < h \<or> (k, w) = (h, v)" and "height < h"
  shows "latest es height d = v"
  using assms
proof (induction es arbitrary: height d)
  case (Cons e es)
  obtain k w where e: "e = (k, w)" by (cases e)
  have stop: "latest es h v = v" if "\<forall>(k, w) \<in> set es. k < h \<or> (k, w) = (h, v)" for es
    using that by (induction es) auto
  show ?case
  proof (cases "(k, w) = (h, v)")
    case True
    then show ?thesis using Cons.prems stop [of es] by (auto simp: e)
  next
    case False
    then have "k < h" "(h, v) \<in> set es" using Cons.prems by (auto simp: e)
    then show ?thesis using Cons.IH Cons.prems by (auto simp: e)
  qed
qed simp

definition governance_ok :: "CGovernance \<Rightarrow> bool" where
  "governance_ok g \<longleftrightarrow> smap_ok (gov_costs g) \<and> smap_ok (gov_fee_scripts g) \<and> smap_ok (gov_dev_scripts g)"

definition above :: "int \<Rightarrow> (int \<times> 'v) list \<Rightarrow> bool" where
  "above h es \<longleftrightarrow> 0 \<le> h \<and> (\<forall>(k, w) \<in> set es. k < h)"

lemma smap_upd_del:
  assumes "smap_ok m" and "map_of m k = None"
  shows "smap_del k (smap_upd k v m) = m"
proof (rule smap_eqI)
  show "smap_ok (smap_del k (smap_upd k v m))" "smap_ok m"
    using assms(1) by (simp_all add: smap_ok_upd smap_del_def smap_ok_filter)
  show "map_of (smap_del k (smap_upd k v m)) = map_of m"
    using assms(2) smap.lookup_del [of "smap_upd k v m" k] smap_ok_upd [OF assms(1)] by (auto simp: map_of_smap_upd fun_eq_iff)
qed

lemma latest_upd:
  assumes "smap_ok es" and "above h es"
  shows "latest (smap_upd h v es) (- 1) d = v" and "map_of es h = None" and "h < k \<Longrightarrow> above k (smap_upd h v es)"
proof -
  have mem: "(a, w) \<in> set (smap_upd h v es) \<longleftrightarrow> (if a = h then w = v else (a, w) \<in> set es)" for a w
    using smap.member_upd [OF assms(1)] by simp
  show "latest (smap_upd h v es) (- 1) d = v" using mem assms(2) by (intro latest_max [of h]) (auto simp: above_def split: if_splits)
  show "map_of es h = None" using assms(2) by (auto simp: above_def map_of_eq_None_iff)
  show "h < k \<Longrightarrow> above k (smap_upd h v es)" using mem assms(2) by (force simp: above_def split: if_splits)
qed

interpretation fee: versioned governance_ok "\<lambda>g h. above h (gov_fee_scripts g)" GetFeeScript UpdateFeeScript RevertUpdateFeeScript
proof
  fix g :: CGovernance and h k :: int and v :: string
  assume g: "governance_ok g" "above h (gov_fee_scripts g)"
  then have m: "smap_ok (gov_fee_scripts g)" by (simp add: governance_ok_def)
  note l = latest_upd [OF m g(2)]
  show "fst (UpdateFeeScript v h g) \<and> governance_ok (snd (UpdateFeeScript v h g)) \<and> GetFeeScript (snd (UpdateFeeScript v h g)) = v"
    using g(1) l m by (simp add: UpdateFeeScript_def GetFeeScript_def governance_ok_def smap_ok_upd)
  show "h < k \<Longrightarrow> above k (gov_fee_scripts (snd (UpdateFeeScript v h g)))" using l by (simp add: UpdateFeeScript_def)
  show "RevertUpdateFeeScript h (snd (UpdateFeeScript v h g)) = (True, g)"
    using l m by (simp add: UpdateFeeScript_def RevertUpdateFeeScript_def map_of_smap_upd smap_upd_del)
qed

interpretation dev: versioned governance_ok "\<lambda>g h. above h (gov_dev_scripts g)" GetDevScript UpdateDevScript RevertUpdateDevScript
proof
  fix g :: CGovernance and h k :: int and v :: string
  assume g: "governance_ok g" "above h (gov_dev_scripts g)"
  then have m: "smap_ok (gov_dev_scripts g)" by (simp add: governance_ok_def)
  note l = latest_upd [OF m g(2)]
  show "fst (UpdateDevScript v h g) \<and> governance_ok (snd (UpdateDevScript v h g)) \<and> GetDevScript (snd (UpdateDevScript v h g)) = v"
    using g(1) l m by (simp add: UpdateDevScript_def GetDevScript_def governance_ok_def smap_ok_upd)
  show "h < k \<Longrightarrow> above k (gov_dev_scripts (snd (UpdateDevScript v h g)))" using l by (simp add: UpdateDevScript_def)
  show "RevertUpdateDevScript h (snd (UpdateDevScript v h g)) = (True, g)"
    using l m by (simp add: UpdateDevScript_def RevertUpdateDevScript_def map_of_smap_upd smap_upd_del)
qed

definition costs_of :: "CGovernance \<Rightarrow> int \<Rightarrow> (int \<times> int) list" where
  "costs_of g ty = map (\<lambda>((t, h), cost). (h, cost)) (filter (\<lambda>((t, h), cost). t = ty) (gov_costs g))"

lemma costs_of_member: "(h, c) \<in> set (costs_of g ty) \<longleftrightarrow> ((ty, h), c) \<in> set (gov_costs g)"
  by (force simp: costs_of_def)

lemma versioned_cost:
  assumes ty: "ty = GOVERNANCE_COST_FIXED \<or> ty = GOVERNANCE_COST_MANAGED \<or> ty = GOVERNANCE_COST_VARIABLE"
  shows "versioned governance_ok (\<lambda>g h. above h (costs_of g ty)) (\<lambda>g. GetCost g ty) (\<lambda>v. UpdateCost v ty) (RevertUpdateCost ty)"
proof
  fix g :: CGovernance and h k v :: int
  assume g: "governance_ok g" "above h (costs_of g ty)"
  then have m: "smap_ok (gov_costs g)" by (simp add: governance_ok_def)
  have none: "map_of (gov_costs g) (ty, h) = None"
  proof (cases "map_of (gov_costs g) (ty, h)")
    case (Some c)
    then have "(h, c) \<in> set (costs_of g ty)" by (simp add: costs_of_member map_of_SomeD)
    then show ?thesis using g(2) by (auto simp: above_def)
  qed simp
  define g' where "g' = snd (UpdateCost v ty h g)"
  have run: "UpdateCost v ty h g = (True, g')" "g' = g\<lparr>gov_costs := smap_upd (ty, h) v (gov_costs g)\<rparr>"
    using ty none by (auto simp: UpdateCost_def g'_def)
  have mem: "(a, c) \<in> set (costs_of g' ty) \<longleftrightarrow> (if a = h then c = v else (a, c) \<in> set (costs_of g ty))" for a c
    using smap.member_upd [OF m, of "(ty, a)" c "(ty, h)" v] by (simp add: costs_of_member run(2))
  have "latest (costs_of g' ty) (- 1) 0 = v" using mem g(2) by (intro latest_max [of h]) (auto simp: above_def split: if_splits)
  then show "fst (UpdateCost v ty h g) \<and> governance_ok (snd (UpdateCost v ty h g)) \<and> GetCost (snd (UpdateCost v ty h g)) ty = v"
    using g(1) m by (simp add: run(1)) (simp add: run(2) GetCost_def costs_of_def governance_ok_def smap_ok_upd)
  show "h < k \<Longrightarrow> above k (costs_of (snd (UpdateCost v ty h g)) ty)" using mem g(2) by (force simp: run(1) above_def split: if_splits)
  show "RevertUpdateCost ty h (snd (UpdateCost v ty h g)) = (True, g)"
    using none m by (simp add: run(1)) (simp add: run(2) RevertUpdateCost_def map_of_smap_upd smap_upd_del)
qed

interpretation fixed: versioned governance_ok "\<lambda>g h. above h (costs_of g 1)" "\<lambda>g. GetCost g 1" "\<lambda>v. UpdateCost v 1" "RevertUpdateCost 1"
  by (rule versioned_cost) simp

interpretation managed: versioned governance_ok "\<lambda>g h. above h (costs_of g 2)" "\<lambda>g. GetCost g 2" "\<lambda>v. UpdateCost v 2" "RevertUpdateCost 2"
  by (rule versioned_cost) simp

interpretation variable: versioned governance_ok "\<lambda>g h. above h (costs_of g 3)" "\<lambda>g. GetCost g 3" "\<lambda>v. UpdateCost v 3" "RevertUpdateCost 3"
  by (rule versioned_cost) simp

subsection \<open>Connecting and disconnecting a block\<close>

datatype gov_update = Cost int int | Fee string | Dev string

fun gov_apply :: "int \<Rightarrow> gov_update \<Rightarrow> CGovernance \<Rightarrow> CGovernance" where
  "gov_apply h (Cost ty c) g = snd (UpdateCost c ty h g)"
| "gov_apply h (Fee s) g = snd (UpdateFeeScript s h g)"
| "gov_apply h (Dev s) g = snd (UpdateDevScript s h g)"

fun gov_revert :: "int \<Rightarrow> gov_update \<Rightarrow> CGovernance \<Rightarrow> CGovernance" where
  "gov_revert h (Cost ty c) g = snd (RevertUpdateCost ty h g)"
| "gov_revert h (Fee s) g = snd (RevertUpdateFeeScript h g)"
| "gov_revert h (Dev s) g = snd (RevertUpdateDevScript h g)"

text \<open>\<open>g'\<close> differs from \<open>g\<close> at height \<open>h\<close> only, where it has no entries but for the kinds of update \<open>K\<close>.\<close>

fun kind :: "gov_update \<Rightarrow> nat \<times> int" where
  "kind (Cost ty c) = (0, ty)"
| "kind (Fee s) = (1, 0)"
| "kind (Dev s) = (2, 0)"

definition differs_at :: "int \<Rightarrow> (nat \<times> int) set \<Rightarrow> CGovernance \<Rightarrow> CGovernance \<Rightarrow> bool" where
  "differs_at h K g g' \<longleftrightarrow> governance_ok g' \<and> gov_init g' = gov_init g
     \<and> (\<forall>t k. k \<noteq> h \<longrightarrow> map_of (gov_costs g') (t, k) = map_of (gov_costs g) (t, k))
     \<and> (\<forall>k. k \<noteq> h \<longrightarrow> map_of (gov_fee_scripts g') k = map_of (gov_fee_scripts g) k \<and> map_of (gov_dev_scripts g') k = map_of (gov_dev_scripts g) k)
     \<and> (\<forall>t. map_of (gov_costs g') (t, h) \<noteq> None \<longrightarrow> (0, t) \<in> K)
     \<and> (map_of (gov_fee_scripts g') h \<noteq> None \<longrightarrow> (1, 0) \<in> K) \<and> (map_of (gov_dev_scripts g') h \<noteq> None \<longrightarrow> (2, 0) \<in> K)"

lemma differs_apply: "differs_at h K g g' \<Longrightarrow> differs_at h (insert (kind u) K) g (gov_apply h u g')"
  by (cases u) (auto simp: differs_at_def governance_ok_def UpdateCost_def UpdateFeeScript_def UpdateDevScript_def map_of_smap_upd smap_ok_upd split: option.split)

lemma differs_revert: "differs_at h K g g' \<Longrightarrow> differs_at h (K - {kind u}) g (gov_revert h u g')"
  by (cases u) (auto simp: differs_at_def governance_ok_def RevertUpdateCost_def RevertUpdateFeeScript_def RevertUpdateDevScript_def smap_del_def
      map_of_filter_neq smap_ok_filter split: option.split)

lemma differs_apply_all: "differs_at h K g g' \<Longrightarrow> differs_at h (K \<union> kind ` set us) g (fold (gov_apply h) us g')"
proof (induction us arbitrary: g' K)
  case (Cons u us)
  have "insert (kind u) K \<union> kind ` set us = K \<union> kind ` set (u # us)" by auto
  then show ?case using Cons.IH [OF differs_apply [OF Cons.prems, of u]] by simp
qed simp

lemma differs_revert_all: "differs_at h K g g' \<Longrightarrow> differs_at h (K - kind ` set us) g (fold (gov_revert h) us g')"
proof (induction us arbitrary: g' K)
  case (Cons u us)
  have "K - {kind u} - kind ` set us = K - kind ` set (u # us)" by auto
  then show ?case using Cons.IH [OF differs_revert [OF Cons.prems, of u]] by simp
qed simp

lemma differs_none:
  assumes "differs_at h {} g g'" and "governance_ok g"
    and "\<forall>t. map_of (gov_costs g) (t, h) = None" "map_of (gov_fee_scripts g) h = None" "map_of (gov_dev_scripts g) h = None"
  shows "g' = g"
proof -
  have "map_of (gov_costs g') = map_of (gov_costs g)"
  proof
    fix x :: "int \<times> int"
    show "map_of (gov_costs g') x = map_of (gov_costs g) x" using assms(1,3) by (cases x; cases "snd x = h") (auto simp: differs_at_def)
  qed
  moreover have "map_of (gov_fee_scripts g') k = map_of (gov_fee_scripts g) k" "map_of (gov_dev_scripts g') k = map_of (gov_dev_scripts g) k" for k
    using assms(1,4,5) by (cases "k = h"; auto simp: differs_at_def)+
  ultimately have "gov_costs g' = gov_costs g" "gov_fee_scripts g' = gov_fee_scripts g" "gov_dev_scripts g' = gov_dev_scripts g" "gov_init g' = gov_init g"
    using assms(1,2) by (auto simp: differs_at_def governance_ok_def intro!: smap_eqI)
  then show ?thesis by simp
qed

subsection \<open>Properties of governance\<close>

text \<open>
  \<^bold>\<open>C35\<close>. Disconnecting a block undoes its governance transactions exactly: after any updates of costs, fee scripts and developer scripts at a height that has
  no entry yet (also repeated ones and ones of unknown type, which change nothing), reverting updates of the same kinds in any order gives back the database.
\<close>

theorem governance_block_undone:
  assumes "governance_ok g" and "\<forall>t. map_of (gov_costs g) (t, h) = None" "map_of (gov_fee_scripts g) h = None" "map_of (gov_dev_scripts g) h = None"
    and "kind ` set us' = kind ` set us"
  shows "fold (gov_revert h) us' (fold (gov_apply h) us g) = g"
proof (rule differs_none [OF _ assms(1-4)])
  have "differs_at h {} g g" using assms(1-4) by (simp add: differs_at_def)
  from differs_revert_all [OF differs_apply_all [OF this, of us], of us'] assms(5)
  show "differs_at h {} g (fold (gov_revert h) us' (fold (gov_apply h) us g))" by simp
qed

definition sample_governance :: CGovernance where
  "sample_governance = snd (governance_Init False \<lparr>GovernanceFixedFee = 100, GovernanceManagedFee = 200, GovernanceVariableFee = 300, GovernanceUsernameFee = 400,
     GovernanceSubFee = 500, governanceFeeScript = ''f'', devFundScript = ''d''\<rparr> \<lparr>gov_init = False, gov_costs = [], gov_fee_scripts = [], gov_dev_scripts = []\<rparr>)"

theorem governance_block_undone_witness:
  "fold (gov_revert 7) [Fee ''g'', Cost 1 150] (fold (gov_apply 7) [Cost 1 150, Fee ''g'', Cost 1 160] sample_governance) = sample_governance"
proof (rule governance_block_undone)
  show "governance_ok sample_governance" by (simp add: sample_governance_def governance_Init_def governance_ok_def smap_ok_def)
  show "\<forall>t. map_of (gov_costs sample_governance) (t, 7) = None" by (simp add: sample_governance_def governance_Init_def)
  show "kind ` set [Fee ''g'', Cost 1 150] = kind ` set [Cost 1 150, Fee ''g'', Cost 1 160]" by auto
qed (simp_all add: sample_governance_def governance_Init_def)

end
