(* ===== verification/Bytes.thy ===== *)
theory Bytes
  imports Text "HOL-Library.Word"
begin

unbundle bit_operations_syntax

text \<open>
  Bytes of packets (\<^verbatim>\<open>src/src/tokencore/parsing.cpp\<close>), hexadecimal text (\<^verbatim>\<open>src/src/utilstrencodings.cpp\<close>,
  \<^verbatim>\<open>src/src/arith_uint256.cpp\<close>) and C strings in a buffer. A byte is a \<^typ>\<open>char\<close>. A number in
  memory is little-endian, as on the hosts the program is built for (on a big-endian host the swap functions return at once).

  The lemmas are the round trips: a number written to a packet is read back, in network byte order, and likewise for hexadecimal text.
\<close>

subsection \<open>Byte order\<close>

definition SwapByteOrder16 :: "16 word \<Rightarrow> 16 word" where
  "SwapByteOrder16 us = drop_bit 8 us OR push_bit 8 us"

definition SwapByteOrder32 :: "32 word \<Rightarrow> 32 word" where
  "SwapByteOrder32 ui = drop_bit 24 ui OR (push_bit 8 ui AND 0x00FF0000) OR (drop_bit 8 ui AND 0x0000FF00) OR push_bit 24 ui"

definition SwapByteOrder64 :: "64 word \<Rightarrow> 64 word" where
  "SwapByteOrder64 ull = drop_bit 56 ull OR (push_bit 40 ull AND 0x00FF000000000000) OR (push_bit 24 ull AND 0x0000FF0000000000)
     OR (push_bit 8 ull AND 0x000000FF00000000) OR (drop_bit 8 ull AND 0x00000000FF000000) OR (drop_bit 24 ull AND 0x0000000000FF0000)
     OR (drop_bit 40 ull AND 0x000000000000FF00) OR push_bit 56 ull"

lemma mask_byte: "(0x00FF0000 :: 32 word) = push_bit 16 (mask 8)" "(0x0000FF00 :: 32 word) = push_bit 8 (mask 8)"
  "(0x00FF000000000000 :: 64 word) = push_bit 48 (mask 8)" "(0x0000FF0000000000 :: 64 word) = push_bit 40 (mask 8)"
  "(0x000000FF00000000 :: 64 word) = push_bit 32 (mask 8)" "(0x00000000FF000000 :: 64 word) = push_bit 24 (mask 8)"
  "(0x0000000000FF0000 :: 64 word) = push_bit 16 (mask 8)" "(0x000000000000FF00 :: 64 word) = push_bit 8 (mask 8)"
  by (simp_all add: mask_eq_exp_minus_1 push_bit_eq_mult)

lemma swap16 [simp]: "SwapByteOrder16 (SwapByteOrder16 w) = w"
proof (rule bit_word_eqI)
  fix n assume "n < LENGTH(16)"
  then show "bit (SwapByteOrder16 (SwapByteOrder16 w)) n = bit w n"
    by (cases "n < 8") (auto simp: SwapByteOrder16_def bit_simps dest: bit_imp_le_length)
qed

text \<open>Byte \<open>q\<close> of a swapped number is byte \<open>3 - q\<close>, or \<open>7 - q\<close>, of the number.\<close>

lemma bit_beyond: "bit (w :: 32 word) n \<Longrightarrow> n < 32" "bit (v :: 64 word) n \<Longrightarrow> n < 64"
  using bit_imp_le_length [of w n] bit_imp_le_length [of v n] by simp_all

lemma swap32_byte:
  assumes "r < 8"
  shows "bit (SwapByteOrder32 w) r = bit w (24 + r)" "bit (SwapByteOrder32 w) (8 + r) = bit w (16 + r)"
    "bit (SwapByteOrder32 w) (16 + r) = bit w (8 + r)" "bit (SwapByteOrder32 w) (24 + r) = bit w r"
  using assms by (auto simp: SwapByteOrder32_def mask_byte bit_simps dest: bit_beyond)

lemma swap64_byte:
  assumes "r < 8"
  shows "bit (SwapByteOrder64 w) r = bit w (56 + r)" "bit (SwapByteOrder64 w) (8 + r) = bit w (48 + r)"
    "bit (SwapByteOrder64 w) (16 + r) = bit w (40 + r)" "bit (SwapByteOrder64 w) (24 + r) = bit w (32 + r)"
    "bit (SwapByteOrder64 w) (32 + r) = bit w (24 + r)" "bit (SwapByteOrder64 w) (40 + r) = bit w (16 + r)"
    "bit (SwapByteOrder64 w) (48 + r) = bit w (8 + r)" "bit (SwapByteOrder64 w) (56 + r) = bit w r"
  using assms by (auto simp: SwapByteOrder64_def mask_byte bit_simps dest: bit_beyond)

lemma byte_cases:
  assumes "n < 8 * k"
  obtains q r where "n = 8 * q + r" "r < 8" "q < (k::nat)"
  using assms by (metis div_mult_mod_eq less_mult_imp_div_less mod_less_divisor mult.commute zero_less_numeral)

lemma swap32 [simp]: "SwapByteOrder32 (SwapByteOrder32 w) = w"
proof (rule bit_word_eqI)
  fix n assume "n < LENGTH(32)"
  then have "n < 8 * 4" by simp
  then obtain q r where n: "n = 8 * q + r" "r < 8" "q < 4" by (rule byte_cases)
  then have "q = 0 \<or> q = 1 \<or> q = 2 \<or> q = 3" by linarith
  then show "bit (SwapByteOrder32 (SwapByteOrder32 w)) n = bit w n"
    using n(2) by (auto simp: n(1) swap32_byte)
qed

lemma swap64 [simp]: "SwapByteOrder64 (SwapByteOrder64 w) = w"
proof (rule bit_word_eqI)
  fix n assume "n < LENGTH(64)"
  then have "n < 8 * 8" by simp
  then obtain q r where n: "n = 8 * q + r" "r < 8" "q < 8" by (rule byte_cases)
  then have "q = 0 \<or> q = 1 \<or> q = 2 \<or> q = 3 \<or> q = 4 \<or> q = 5 \<or> q = 6 \<or> q = 7" by linarith
  then show "bit (SwapByteOrder64 (SwapByteOrder64 w)) n = bit w n"
    using n(2) by (auto simp: n(1) swap64_byte)
qed

subsection \<open>Numbers in memory\<close>

fun le_nat :: "string \<Rightarrow> nat" where
  "le_nat [] = 0"
| "le_nat (c # cs) = of_char c + 256 * le_nat cs"

fun le_bytes :: "nat \<Rightarrow> nat \<Rightarrow> string" where
  "le_bytes 0 k = []"
| "le_bytes (Suc n) k = char_of k # le_bytes n (k div 256)"

lemma length_le_bytes [simp]: "length (le_bytes n k) = n"
  by (induction n arbitrary: k) auto

lemma le_nat_bytes: "le_nat (le_bytes n k) = k mod 256 ^ n"
  by (induction n arbitrary: k) (simp_all add: mod_mult2_eq)

lemma of_char_less: "(of_char c :: nat) < 256"
  by (metis mod_less_divisor of_char_mod_256 zero_less_numeral)

lemma of_char_div: "(of_char c :: nat) div 16 < 16"
  using of_char_less [of c] by linarith

lemma le_nat_less: "le_nat cs < 256 ^ length cs"
proof (induction cs)
  case (Cons c cs)
  have "of_char c + 256 * le_nat cs < 256 + 256 * le_nat cs" using of_char_less [of c] by linarith
  also have "\<dots> \<le> 256 * 256 ^ length cs" using Cons by simp
  finally show ?case by simp
qed simp

text \<open>\<^verbatim>\<open>memcpy\<close> from the packet followed by a swap, and a swap followed by \<^verbatim>\<open>PUSH_BACK_BYTES\<close>.\<close>

definition get_u8 :: "string \<Rightarrow> nat" where
  "get_u8 s = le_nat (take 1 s)"

definition get_u16 :: "string \<Rightarrow> nat" where
  "get_u16 s = unat (SwapByteOrder16 (word_of_nat (le_nat (take 2 s))))"

definition get_u32 :: "string \<Rightarrow> nat" where
  "get_u32 s = unat (SwapByteOrder32 (word_of_nat (le_nat (take 4 s))))"

definition get_u64 :: "string \<Rightarrow> int" where
  "get_u64 s = uint (SwapByteOrder64 (word_of_nat (le_nat (take 8 s))))"

definition put_u8 :: "nat \<Rightarrow> string" where
  "put_u8 v = le_bytes 1 v"

definition put_u16 :: "nat \<Rightarrow> string" where
  "put_u16 v = le_bytes 2 (unat (SwapByteOrder16 (word_of_nat v)))"

definition put_u32 :: "nat \<Rightarrow> string" where
  "put_u32 v = le_bytes 4 (unat (SwapByteOrder32 (word_of_nat v)))"

definition put_u64 :: "int \<Rightarrow> string" where
  "put_u64 v = le_bytes 8 (unat (SwapByteOrder64 (word_of_int v)))"

lemma length_put [simp]: "length (put_u8 a) = 1" "length (put_u16 a) = 2" "length (put_u32 a) = 4" "length (put_u64 v) = 8"
  by (simp_all add: put_u8_def put_u16_def put_u32_def put_u64_def)

lemma get_put [simp]:
  "a < 2 ^ 8 \<Longrightarrow> get_u8 (put_u8 a @ s) = a"
  "b < 2 ^ 16 \<Longrightarrow> get_u16 (put_u16 b @ s) = b"
  "c < 2 ^ 32 \<Longrightarrow> get_u32 (put_u32 c @ s) = c"
  "0 \<le> v \<Longrightarrow> v < 2 ^ 64 \<Longrightarrow> get_u64 (put_u64 v @ s) = v"
proof -
  have n: "unat (w :: 16 word) mod 65536 = unat w" "unat (x :: 32 word) mod 4294967296 = unat x" "unat (y :: 64 word) mod 18446744073709551616 = unat y" for w x y
    using unsigned_less [of w, where 'a = nat] unsigned_less [of x, where 'a = nat] unsigned_less [of y, where 'a = nat] by simp_all
  show "a < 2 ^ 8 \<Longrightarrow> get_u8 (put_u8 a @ s) = a"
    by (simp add: get_u8_def put_u8_def)
  show "b < 2 ^ 16 \<Longrightarrow> get_u16 (put_u16 b @ s) = b"
    by (simp add: get_u16_def put_u16_def le_nat_bytes n unat_of_nat)
  show "c < 2 ^ 32 \<Longrightarrow> get_u32 (put_u32 c @ s) = c"
    by (simp add: get_u32_def put_u32_def le_nat_bytes n unat_of_nat)
  show "0 \<le> v \<Longrightarrow> v < 2 ^ 64 \<Longrightarrow> get_u64 (put_u64 v @ s) = v"
    by (simp add: get_u64_def put_u64_def le_nat_bytes n uint_word_of_int)
qed

subsection \<open>C strings\<close>

text \<open>\<^verbatim>\<open>std::string(p)\<close> for a position in a buffer; \<open>None\<close> when the buffer has no terminator from there on.\<close>

definition cstring_at :: "string \<Rightarrow> nat \<Rightarrow> string option" where
  "cstring_at buf p = (if CHR 0x00 \<in> set (drop p buf) then Some (takeWhile (\<lambda>c. c \<noteq> CHR 0x00) (drop p buf)) else None)"

lemma cstring_at_append:
  assumes "length pre = p" and "CHR 0x00 \<notin> set s"
  shows "cstring_at (pre @ s @ [CHR 0x00] @ post) p = Some s"
proof -
  have "\<forall>c \<in> set s. c \<noteq> CHR 0x00" using assms(2) by auto
  then have "takeWhile (\<lambda>c. c \<noteq> CHR 0x00) (s @ [CHR 0x00] @ post) = s" by (subst takeWhile_append2) auto
  then show ?thesis using assms(1) by (simp add: cstring_at_def)
qed

subsection \<open>Hexadecimal text\<close>

definition HexDigit :: "char \<Rightarrow> int" where
  "HexDigit c = (let n = of_char c :: nat in
     if 48 \<le> n \<and> n \<le> 57 then int n - 48 else if 65 \<le> n \<and> n \<le> 70 then int n - 55
     else if 97 \<le> n \<and> n \<le> 102 then int n - 87 else - 1)"

definition IsHex :: "string \<Rightarrow> bool" where
  "IsHex str \<longleftrightarrow> list_all (\<lambda>c. HexDigit c \<ge> 0) str \<and> length str > 0 \<and> length str mod 2 = 0"

text \<open>\<^verbatim>\<open>%02x\<close> of every byte, from the most significant one.\<close>

definition hex_char :: "nat \<Rightarrow> char" where
  "hex_char d = char_of (if d < 10 then 48 + d else 87 + d)"

definition hex_byte :: "char \<Rightarrow> string" where
  "hex_byte c = [hex_char (of_char c div 16), hex_char (of_char c mod 16)]"

definition GetHex :: "nat \<Rightarrow> string" where
  "GetHex n = concat (map hex_byte (rev (le_bytes 32 n)))"

text \<open>The digits of \<^verbatim>\<open>SetHex\<close> from the last one; a byte is complete when there is a further digit.\<close>

fun set_hex_loop :: "string \<Rightarrow> string" where
  "set_hex_loop [] = []"
| "set_hex_loop [c] = [char_of (nat (HexDigit c))]"
| "set_hex_loop (c # d # s) = char_of (nat (HexDigit c) + 16 * nat (HexDigit d)) # set_hex_loop s"

definition is_space :: "char \<Rightarrow> bool" where
  "is_space c \<longleftrightarrow> c = CHR '' '' \<or> (9 \<le> (of_char c :: nat) \<and> (of_char c :: nat) \<le> 13)"

definition SetHex :: "string \<Rightarrow> nat" where
  "SetHex str = (let s1 = dropWhile is_space str;
       s2 = (case s1 of c # d # s \<Rightarrow> if c = CHR ''0'' \<and> (d = CHR ''x'' \<or> d = CHR ''X'') then s else s1 | _ \<Rightarrow> s1)
     in le_nat (take 32 (set_hex_loop (rev (takeWhile (\<lambda>c. HexDigit c \<noteq> - 1) s2)))))"

text \<open>\<^verbatim>\<open>ParseHashV\<close> (\<^verbatim>\<open>src/src/rpc/server.cpp\<close>); \<open>None\<close> is the exception.\<close>

definition ParseHashV :: "string \<Rightarrow> nat option" where
  "ParseHashV strHex = (if \<not> IsHex strHex then None else if length strHex \<noteq> 64 then None else Some (SetHex strHex))"

lemma HexDigit_hex_char [simp]: "d < 16 \<Longrightarrow> HexDigit (hex_char d) = int d"
  by (simp add: HexDigit_def hex_char_def)

lemma hex_loop_bytes: "set_hex_loop (rev (concat (map hex_byte (rev cs)))) = cs"
proof (induction cs)
  case (Cons c cs)
  have "(of_char c :: nat) div 16 < 16" by (rule of_char_div)
  then have "nat (HexDigit (hex_char (of_char c mod 16))) + 16 * nat (HexDigit (hex_char (of_char c div 16))) = of_char c" by simp
  then show ?case using Cons by (simp add: hex_byte_def)
qed simp

lemma GetHex_digits: "c \<in> set (GetHex n) \<Longrightarrow> 0 \<le> HexDigit c \<and> c \<noteq> CHR 0x00 \<and> \<not> is_space c \<and> c \<noteq> CHR ''x'' \<and> c \<noteq> CHR ''X''"
proof -
  assume "c \<in> set (GetHex n)"
  then obtain b where "c \<in> set (hex_byte b)" by (auto simp: GetHex_def)
  then obtain d where "d < 16" "c = hex_char d" using of_char_div [of b] mod_less_divisor [of 16 "of_char b"]
    by (auto simp del: mod_less_divisor simp: hex_byte_def)
  then have "0 \<le> HexDigit c" by simp
  moreover have "HexDigit (CHR 0x00) < 0" "HexDigit (CHR ''x'') < 0" "HexDigit (CHR ''X'') < 0" by (simp_all add: HexDigit_def)
  moreover have "is_space c \<Longrightarrow> HexDigit c < 0" by (auto simp: HexDigit_def is_space_def)
  ultimately show ?thesis by force
qed

lemma length_GetHex: "length (GetHex n) = 64"
proof -
  have "length (concat (map hex_byte cs)) = 2 * length cs" for cs by (induction cs) (simp_all add: hex_byte_def)
  then show ?thesis by (simp add: GetHex_def)
qed

lemma ParseHashV_GetHex:
  assumes "n < 2 ^ 256"
  shows "ParseHashV (GetHex n) = Some n"
proof -
  obtain c d s where g: "GetHex n = c # d # s" using length_GetHex [of n] by (cases "GetHex n"; cases "tl (GetHex n)") auto
  then have "dropWhile is_space (GetHex n) = GetHex n" "\<not> (d = CHR ''x'' \<or> d = CHR ''X'')" using GetHex_digits [of _ n] by auto
  moreover have "takeWhile (\<lambda>c. HexDigit c \<noteq> - 1) (GetHex n) = GetHex n" using GetHex_digits [of _ n] by (force simp: takeWhile_eq_all_conv)
  ultimately have "SetHex (GetHex n) = le_nat (take 32 (set_hex_loop (rev (GetHex n))))" by (simp add: SetHex_def g)
  also have "\<dots> = n mod 256 ^ 32" by (simp add: GetHex_def hex_loop_bytes le_nat_bytes)
  finally have "SetHex (GetHex n) = n" using assms by simp
  moreover have "IsHex (GetHex n)" using GetHex_digits by (auto simp: IsHex_def list_all_iff length_GetHex)
  ultimately show ?thesis by (simp add: ParseHashV_def length_GetHex)
qed

end
