(* ===== verification/Payload.thy ===== *)
theory Payload
  imports Bytes
begin

text \<open>
  Transaction packets: the class \<^verbatim>\<open>CMPTransaction\<close> (\<^verbatim>\<open>src/src/tokencore/tx.h\<close>), the parsing of its packet
  (\<^verbatim>\<open>interpret_*\<close> in \<^verbatim>\<open>tx.cpp\<close>) and the construction of packets (\<^verbatim>\<open>createpayload.cpp\<close>).

  The packet is the buffer of 7906 bytes of the class, with the number of bytes in use. \<open>None\<close> stands for what the
  code leaves undefined or throws: a C string without terminator in the buffer, a read past its end, a royalties receiver that fills
  its array, a transaction hash that is not hexadecimal. The text fields are adjacent arrays of 256 characters, filled with
  \<^verbatim>\<open>memcpy\<close>; a field holds what reading it as a C string gives, so a text of 256 or more characters is cut and
  runs on into the next field.

  Addresses in packets depend on the encoding of addresses, whose functions are parameters: \<open>hashToAddress\<close>
  (\<^verbatim>\<open>HashToAddress\<close>), \<open>validDestination\<close> (\<^verbatim>\<open>DecodeDestination\<close> and \<^verbatim>\<open>IsValidDestination\<close>) and
  \<open>decodeBase58\<close>.

  The main result is the round trip of all messages.
\<close>

subsection \<open>The transaction object\<close>

definition PKT_LEN :: nat where
  "PKT_LEN = 1 + 255 * 31"

abbreviation SP_STRING_FIELD_LEN :: nat where "SP_STRING_FIELD_LEN \<equiv> 256"

record CMPTransaction =
  tx_txid :: nat
  tx_block :: int
  tx_blockTime :: int
  tx_idx :: nat
  tx_fee_paid :: int
  pkt_size :: nat
  pkt :: string
  encodingClass :: nat
  tx_sender :: string
  tx_receiver :: string
  tx_type :: nat
  tx_version :: nat
  nValue :: int
  nNewValue :: int
  nDonation :: int
  tx_property :: nat
  distribution_property :: nat
  tx_ecosystem :: nat
  tx_prop_type :: nat
  tx_prev_prop_id :: nat
  tx_category :: string
  tx_subcategory :: string
  tx_name :: string
  tx_ticker :: string
  tx_url :: string
  tx_data :: string
  royaltiesReceiver :: string
  royaltiesPercentage :: nat
  tx_deadline :: int
  tx_early_bird :: nat
  tx_percentage :: nat
  desired_property :: nat
  desired_value :: int
  tx_action :: nat
  amount_desired :: int
  blocktimelimit :: nat
  tx_min_fee :: int
  tx_subaction :: nat
  numberOfSTMReceivers :: nat
  outputValuesForSTM :: "(nat \<times> int) list"
  validOutputAddressesForSTM :: "(nat \<times> string) list"
  tx_alert_type :: nat
  tx_alert_expiry :: nat
  tx_alert_text :: string
  feature_id :: nat
  activation_block :: nat
  min_client_version :: nat
  linked_txid :: nat
  rpcOnly :: bool

text \<open>\<^verbatim>\<open>SetNull\<close> leaves the ticker, the royalties and the linked transaction as they are.\<close>

definition SetNull :: "CMPTransaction \<Rightarrow> CMPTransaction" where
  "SetNull t = t\<lparr>tx_txid := 0, tx_block := - 1, tx_blockTime := 0, tx_idx := 0, tx_fee_paid := 0, pkt_size := 0,
     pkt := replicate PKT_LEN (CHR 0x00), encodingClass := 0, tx_sender := [], tx_receiver := [], tx_type := 0, tx_version := 0,
     nValue := 0, nNewValue := 0, nDonation := 0, tx_property := 0, tx_ecosystem := 0, tx_prop_type := 0, tx_prev_prop_id := 0,
     tx_category := [], tx_subcategory := [], tx_name := [], tx_url := [], tx_data := [], tx_deadline := 0, tx_early_bird := 0,
     tx_percentage := 0, desired_property := 0, desired_value := 0, tx_action := 0, amount_desired := 0, blocktimelimit := 0,
     tx_min_fee := 0, tx_subaction := 0, tx_alert_type := 0, tx_alert_expiry := 0, tx_alert_text := [], rpcOnly := True, feature_id := 0,
     activation_block := 0, min_client_version := 0, distribution_property := 0, numberOfSTMReceivers := 0,
     outputValuesForSTM := [], validOutputAddressesForSTM := []\<rparr>"

definition Set_block :: "nat \<Rightarrow> int \<Rightarrow> nat \<Rightarrow> int \<Rightarrow> int \<Rightarrow> CMPTransaction \<Rightarrow> CMPTransaction" where
  "Set_block txid b idx bt donation t = t\<lparr>tx_txid := txid, tx_block := b, tx_idx := idx, tx_blockTime := bt, nDonation := donation\<rparr>"

definition Set_packet :: "string \<Rightarrow> string \<Rightarrow> int \<Rightarrow> nat \<Rightarrow> int \<Rightarrow> nat \<Rightarrow> string \<Rightarrow> nat \<Rightarrow> int \<Rightarrow> CMPTransaction \<Rightarrow> CMPTransaction" where
  "Set_packet s r n txid b idx p encodingClassIn txf t =
     (let size = (if length p < PKT_LEN then length p else PKT_LEN)
      in t\<lparr>tx_sender := s, tx_receiver := r, tx_txid := txid, tx_block := b, tx_idx := idx, pkt_size := size, nValue := n,
        nNewValue := n, encodingClass := encodingClassIn, tx_fee_paid := txf, pkt := take size p @ drop size (pkt t)\<rparr>)"

definition unlockLogic :: "CMPTransaction \<Rightarrow> CMPTransaction" where
  "unlockLogic t = t\<lparr>rpcOnly := False\<rparr>"

definition addValidStmAddress :: "nat \<Rightarrow> string \<Rightarrow> CMPTransaction \<Rightarrow> CMPTransaction" where
  "addValidStmAddress out address t = t\<lparr>validOutputAddressesForSTM := smap_upd out address (validOutputAddressesForSTM t)\<rparr>"

definition getValidStmAddressAt :: "CMPTransaction \<Rightarrow> nat \<Rightarrow> string option" where
  "getValidStmAddressAt t out = map_of (validOutputAddressesForSTM t) out"

text \<open>The order of transactions: later ones first.\<close>

definition tx_less :: "CMPTransaction \<Rightarrow> CMPTransaction \<Rightarrow> bool" where
  "tx_less t other = (if tx_block t \<noteq> tx_block other then tx_block t > tx_block other else tx_idx t > tx_idx other)"

subsection \<open>Reading the packet\<close>

definition u8_at :: "CMPTransaction \<Rightarrow> nat \<Rightarrow> nat" where
  "u8_at t p = get_u8 (drop p (pkt t))"

definition u16_at :: "CMPTransaction \<Rightarrow> nat \<Rightarrow> nat" where
  "u16_at t p = get_u16 (drop p (pkt t))"

definition u32_at :: "CMPTransaction \<Rightarrow> nat \<Rightarrow> nat" where
  "u32_at t p = get_u32 (drop p (pkt t))"

definition u64_at :: "CMPTransaction \<Rightarrow> nat \<Rightarrow> int" where
  "u64_at t p = get_u64 (drop p (pkt t))"

definition isOverrun :: "CMPTransaction \<Rightarrow> nat \<Rightarrow> bool" where
  "isOverrun t p \<longleftrightarrow> p > pkt_size t"

definition interpret_TransactionType :: "CMPTransaction \<Rightarrow> bool \<times> CMPTransaction" where
  "interpret_TransactionType t =
     (if pkt_size t < 4 then (False, t) else (True, t\<lparr>tx_version := u16_at t 0, tx_type := u16_at t 2\<rparr>))"

definition set_value :: "int \<Rightarrow> CMPTransaction \<Rightarrow> CMPTransaction" where
  "set_value v t = t\<lparr>nValue := v, nNewValue := v\<rparr>"

text \<open>Without a receiver the tokens go to the sender.\<close>

definition default_receiver :: "CMPTransaction \<Rightarrow> CMPTransaction" where
  "default_receiver t = (if tx_receiver t = [] then t\<lparr>tx_receiver := tx_sender t\<rparr> else t)"

definition interpret_SimpleSend :: "CMPTransaction \<Rightarrow> bool \<times> CMPTransaction" where
  "interpret_SimpleSend t =
     (if pkt_size t < 16 then (False, t)
      else (True, default_receiver (set_value (u64_at t 8) (t\<lparr>tx_property := u32_at t 4\<rparr>))))"

definition interpret_SendToOwners :: "CMPTransaction \<Rightarrow> bool \<times> CMPTransaction" where
  "interpret_SendToOwners t =
     (if pkt_size t < (if tx_version t = 0 then 16 else 20) then (False, t)
      else (let t1 = set_value (u64_at t 8) (t\<lparr>tx_property := u32_at t 4\<rparr>)
            in (True, if tx_version t > 0 then t1\<lparr>distribution_property := u32_at t 16\<rparr> else t1)))"

definition interpret_SendAll :: "CMPTransaction \<Rightarrow> bool \<times> CMPTransaction" where
  "interpret_SendAll t =
     (if pkt_size t < 5 then (False, t)
      else (True, default_receiver (t\<lparr>tx_ecosystem := u8_at t 4, tx_property := u8_at t 4\<rparr>)))"

text \<open>The loop over the receivers adds the values without a check for overflow.\<close>

fun stm_loop :: "nat \<Rightarrow> nat \<Rightarrow> CMPTransaction \<Rightarrow> CMPTransaction" where
  "stm_loop 0 pos t = t"
| "stm_loop (Suc n) pos t =
     (let outputN = u8_at t pos; valueN = u64_at t (pos + 1)
      in stm_loop n (pos + 9) (t\<lparr>outputValuesForSTM := outputValuesForSTM t @ [(outputN, valueN)], nValue := u64 (nValue t + valueN)\<rparr>))"

definition interpret_SendToMany :: "CMPTransaction \<Rightarrow> bool \<times> CMPTransaction" where
  "interpret_SendToMany t =
     (if pkt_size t < 9 then (False, t)
      else (let t1 = t\<lparr>tx_property := u32_at t 4, numberOfSTMReceivers := u8_at t 8\<rparr>
            in if pkt_size t1 < 9 + numberOfSTMReceivers t1 * (1 + 8) then (False, t1)
               else (let t2 = stm_loop (numberOfSTMReceivers t1) 9 t1 in (True, t2\<lparr>nNewValue := nValue t2\<rparr>))))"

definition interpret_TradeOffer :: "CMPTransaction \<Rightarrow> bool \<times> CMPTransaction" where
  "interpret_TradeOffer t =
     (if pkt_size t < (if tx_version t = 0 then 33 else 34) then (False, t)
      else (let t1 = (set_value (u64_at t 8) (t\<lparr>tx_property := u32_at t 4\<rparr>))
                \<lparr>amount_desired := u64_at t 16, blocktimelimit := u8_at t 24, tx_min_fee := u64_at t 25\<rparr>
            in (True, if tx_version t > 0 then t1\<lparr>tx_subaction := u8_at t 33\<rparr> else t1)))"

definition interpret_AcceptOfferRPD :: "CMPTransaction \<Rightarrow> bool \<times> CMPTransaction" where
  "interpret_AcceptOfferRPD t =
     (if pkt_size t < 16 then (False, t) else (True, set_value (u64_at t 8) (t\<lparr>tx_property := u32_at t 4\<rparr>)))"

definition interpret_MetaDExTrade :: "CMPTransaction \<Rightarrow> bool \<times> CMPTransaction" where
  "interpret_MetaDExTrade t =
     (if pkt_size t < 28 then (False, t)
      else (True, (set_value (u64_at t 8) (t\<lparr>tx_property := u32_at t 4\<rparr>))
        \<lparr>desired_property := u32_at t 16, desired_value := u64_at t 20, tx_action := 1\<rparr>))"

definition interpret_MetaDExCancelPrice :: "CMPTransaction \<Rightarrow> bool \<times> CMPTransaction" where
  "interpret_MetaDExCancelPrice t =
     (if pkt_size t < 28 then (False, t)
      else (True, (set_value (u64_at t 8) (t\<lparr>tx_property := u32_at t 4\<rparr>))
        \<lparr>desired_property := u32_at t 16, desired_value := u64_at t 20, tx_action := 2\<rparr>))"

definition interpret_MetaDExCancelPair :: "CMPTransaction \<Rightarrow> bool \<times> CMPTransaction" where
  "interpret_MetaDExCancelPair t =
     (if pkt_size t < 12 then (False, t)
      else (True, (set_value 0 (t\<lparr>tx_property := u32_at t 4, desired_property := u32_at t 8\<rparr>))\<lparr>desired_value := 0, tx_action := 3\<rparr>))"

definition interpret_MetaDExCancelEcosystem :: "CMPTransaction \<Rightarrow> bool \<times> CMPTransaction" where
  "interpret_MetaDExCancelEcosystem t =
     (if pkt_size t < 5 then (False, t)
      else (let e = u8_at t 4
            in (True, (set_value 0 (t\<lparr>tx_ecosystem := e, tx_property := e, desired_property := e\<rparr>))\<lparr>desired_value := 0, tx_action := 4\<rparr>)))"

text \<open>The strings from position \<open>p\<close>, and the position after them.\<close>

fun read_strings :: "nat \<Rightarrow> CMPTransaction \<Rightarrow> nat \<Rightarrow> (string list \<times> nat) option" where
  "read_strings 0 t p = Some ([], p)"
| "read_strings (Suc n) t p = do {
     s \<leftarrow> cstring_at (pkt t) p;
     (ss, q) \<leftarrow> read_strings n t (p + length s + 1);
     Some (s # ss, q)
   }"

text \<open>What adjacent arrays read as after \<^verbatim>\<open>memcpy\<close> of 256 bytes each; \<open>following\<close> is what follows the last of them.\<close>

fun text_fields :: "string list \<Rightarrow> string \<Rightarrow> string list" where
  "text_fields [] following = []"
| "text_fields (s # ss) following =
     (let fs = text_fields ss following
      in (if length s < SP_STRING_FIELD_LEN then s
          else take SP_STRING_FIELD_LEN s @ (case fs of [] \<Rightarrow> following | f # _ \<Rightarrow> f)) # fs)"

definition set_text :: "string list \<Rightarrow> CMPTransaction \<Rightarrow> CMPTransaction" where
  "set_text fs t = t\<lparr>tx_category := fs ! 0, tx_subcategory := fs ! 1, tx_name := fs ! 2, tx_ticker := fs ! 3, tx_url := fs ! 4, tx_data := fs ! 5\<rparr>"

definition in_buffer :: "CMPTransaction \<Rightarrow> nat \<Rightarrow> nat \<Rightarrow> bool" where
  "in_buffer t p n \<longleftrightarrow> p + n \<le> length (pkt t)"

definition property_header :: "CMPTransaction \<Rightarrow> CMPTransaction" where
  "property_header t = t\<lparr>tx_ecosystem := u8_at t 4, tx_prop_type := u16_at t 5, tx_prev_prop_id := u32_at t 7\<rparr>"

definition interpret_CreatePropertyFixed :: "CMPTransaction \<Rightarrow> (bool \<times> CMPTransaction) option" where
  "interpret_CreatePropertyFixed t =
     (if pkt_size t < 25 then Some (False, t)
      else do {
        let t1 = property_header t;
        (spstr, p) \<leftarrow> read_strings 7 t1 11;
        if length (spstr ! 6) \<ge> SP_STRING_FIELD_LEN \<or> \<not> in_buffer t p 9 then None
        else do {
          let fs = text_fields spstr [];
          let t2 = set_value (u64_at t p) ((set_text fs t1)\<lparr>royaltiesReceiver := fs ! 6\<rparr>);
          let t3 = t2\<lparr>royaltiesPercentage := u8_at t (p + 8)\<rparr>;
          Some (\<not> isOverrun t (p + 9), t3)
        }
      })"

definition interpret_CreatePropertyVariable :: "CMPTransaction \<Rightarrow> (bool \<times> CMPTransaction) option" where
  "interpret_CreatePropertyVariable t =
     (if pkt_size t < 39 then Some (False, t)
      else do {
        let t1 = property_header t;
        (spstr, p) \<leftarrow> read_strings 6 t1 11;
        if \<not> in_buffer t p 22 then None
        else do {
          let t2 = set_text (text_fields spstr (royaltiesReceiver t)) t1;
          let t3 = set_value (u64_at t (p + 4)) (t2\<lparr>tx_property := u32_at t p\<rparr>);
          let t4 = t3\<lparr>tx_deadline := u64_at t (p + 12), tx_early_bird := u8_at t (p + 20), tx_percentage := u8_at t (p + 21)\<rparr>;
          Some (\<not> isOverrun t (p + 22), t4)
        }
      })"

definition interpret_CloseCrowdsale :: "CMPTransaction \<Rightarrow> bool \<times> CMPTransaction" where
  "interpret_CloseCrowdsale t = (if pkt_size t < 8 then (False, t) else (True, t\<lparr>tx_property := u32_at t 4\<rparr>))"

definition interpret_CreatePropertyManaged :: "CMPTransaction \<Rightarrow> (bool \<times> CMPTransaction) option" where
  "interpret_CreatePropertyManaged t =
     (if pkt_size t < 17 then Some (False, t)
      else do {
        let t1 = property_header t;
        (spstr, p) \<leftarrow> read_strings 6 t1 11;
        Some (\<not> isOverrun t p, set_text (text_fields spstr (royaltiesReceiver t)) t1)
      })"

definition interpret_GrantTokens :: "CMPTransaction \<Rightarrow> bool \<times> CMPTransaction" where
  "interpret_GrantTokens t =
     (if pkt_size t < 16 then (False, t)
      else (True, default_receiver (set_value (u64_at t 8) (t\<lparr>tx_property := u32_at t 4\<rparr>))))"

definition interpret_RevokeTokens :: "CMPTransaction \<Rightarrow> bool \<times> CMPTransaction" where
  "interpret_RevokeTokens t =
     (if pkt_size t < 16 then (False, t) else (True, set_value (u64_at t 8) (t\<lparr>tx_property := u32_at t 4\<rparr>)))"

definition interpret_ChangeIssuer :: "CMPTransaction \<Rightarrow> bool \<times> CMPTransaction" where
  "interpret_ChangeIssuer t = (if pkt_size t < 8 then (False, t) else (True, t\<lparr>tx_property := u32_at t 4\<rparr>))"

definition interpret_EnableFreezing :: "CMPTransaction \<Rightarrow> bool \<times> CMPTransaction" where
  "interpret_EnableFreezing t = (if pkt_size t < 8 then (False, t) else (True, t\<lparr>tx_property := u32_at t 4\<rparr>))"

definition interpret_DisableFreezing :: "CMPTransaction \<Rightarrow> bool \<times> CMPTransaction" where
  "interpret_DisableFreezing t = (if pkt_size t < 8 then (False, t) else (True, t\<lparr>tx_property := u32_at t 4\<rparr>))"

definition interpret_FreezeTokens :: "(nat \<Rightarrow> string \<Rightarrow> string) \<Rightarrow> (string \<Rightarrow> bool) \<Rightarrow> CMPTransaction \<Rightarrow> bool \<times> CMPTransaction" where
  "interpret_FreezeTokens hashToAddress validDestination t =
     (if pkt_size t < 37 then (False, t)
      else (let t1 = set_value (u64_at t 8) (t\<lparr>tx_property := u32_at t 4\<rparr>);
                t2 = t1\<lparr>tx_receiver := hashToAddress (u8_at t 16) (take 20 (drop 17 (pkt t)))\<rparr>
            in if tx_receiver t2 = [] then (False, t2) else if \<not> validDestination (tx_receiver t2) then (False, t2) else (True, t2)))"

definition interpret_UnfreezeTokens :: "(nat \<Rightarrow> string \<Rightarrow> string) \<Rightarrow> (string \<Rightarrow> bool) \<Rightarrow> CMPTransaction \<Rightarrow> bool \<times> CMPTransaction" where
  "interpret_UnfreezeTokens hashToAddress validDestination t =
     (if pkt_size t < 37 then (False, t)
      else (let t1 = set_value (u64_at t 8) (t\<lparr>tx_property := u32_at t 4\<rparr>);
                t2 = t1\<lparr>tx_receiver := hashToAddress (u8_at t 16) (take 20 (drop 17 (pkt t)))\<rparr>
            in if tx_receiver t2 = [] then (False, t2) else if \<not> validDestination (tx_receiver t2) then (False, t2) else (True, t2)))"

definition interpret_Deactivation :: "CMPTransaction \<Rightarrow> bool \<times> CMPTransaction" where
  "interpret_Deactivation t = (if pkt_size t < 6 then (False, t) else (True, t\<lparr>feature_id := u16_at t 4\<rparr>))"

definition interpret_RapidsPayment :: "CMPTransaction \<Rightarrow> (bool \<times> CMPTransaction) option" where
  "interpret_RapidsPayment t =
     (if pkt_size t < 36 then Some (False, t)
      else do {
        hash \<leftarrow> cstring_at (pkt t) 4;
        txid \<leftarrow> ParseHashV hash;
        Some (True, t\<lparr>linked_txid := txid\<rparr>)
      })"

definition interpret_Activation :: "CMPTransaction \<Rightarrow> bool \<times> CMPTransaction" where
  "interpret_Activation t =
     (if pkt_size t < 14 then (False, t)
      else (True, t\<lparr>feature_id := u16_at t 4, activation_block := u32_at t 6, min_client_version := u32_at t 10\<rparr>))"

definition interpret_Alert :: "CMPTransaction \<Rightarrow> (bool \<times> CMPTransaction) option" where
  "interpret_Alert t =
     (if pkt_size t < 11 then Some (False, t)
      else do {
        spstr \<leftarrow> cstring_at (pkt t) 10;
        let n = min (length spstr) (SP_STRING_FIELD_LEN - 1);
        let t1 = t\<lparr>tx_alert_type := u16_at t 4, tx_alert_expiry := u32_at t 6, tx_alert_text := take n spstr @ drop n (tx_alert_text t)\<rparr>;
        Some (\<not> isOverrun t 10, t1)
      })"

definition interpret_Transaction :: "(nat \<Rightarrow> string \<Rightarrow> string) \<Rightarrow> (string \<Rightarrow> bool) \<Rightarrow> CMPTransaction \<Rightarrow> (bool \<times> CMPTransaction) option" where
  "interpret_Transaction hashToAddress validDestination t0 =
     (let (ok, t) = interpret_TransactionType t0
      in if \<not> ok then Some (False, t)
         else if tx_type t = 0 then Some (interpret_SimpleSend t)
         else if tx_type t = 5 then Some (interpret_SendToMany t)
         else if tx_type t = 3 then Some (interpret_SendToOwners t)
         else if tx_type t = 4 then Some (interpret_SendAll t)
         else if tx_type t = 20 then Some (interpret_TradeOffer t)
         else if tx_type t = 22 then Some (interpret_AcceptOfferRPD t)
         else if tx_type t = 25 then Some (interpret_MetaDExTrade t)
         else if tx_type t = 26 then Some (interpret_MetaDExCancelPrice t)
         else if tx_type t = 27 then Some (interpret_MetaDExCancelPair t)
         else if tx_type t = 28 then Some (interpret_MetaDExCancelEcosystem t)
         else if tx_type t = 50 then interpret_CreatePropertyFixed t
         else if tx_type t = 51 then interpret_CreatePropertyVariable t
         else if tx_type t = 54 then interpret_CreatePropertyManaged t
         else if tx_type t = 53 then Some (interpret_CloseCrowdsale t)
         else if tx_type t = 55 then Some (interpret_GrantTokens t)
         else if tx_type t = 56 then Some (interpret_RevokeTokens t)
         else if tx_type t = 70 then Some (interpret_ChangeIssuer t)
         else if tx_type t = 71 then Some (interpret_EnableFreezing t)
         else if tx_type t = 72 then Some (interpret_DisableFreezing t)
         else if tx_type t = 185 then Some (interpret_FreezeTokens hashToAddress validDestination t)
         else if tx_type t = 186 then Some (interpret_UnfreezeTokens hashToAddress validDestination t)
         else if tx_type t = 65533 then Some (interpret_Deactivation t)
         else if tx_type t = 80 then interpret_RapidsPayment t
         else if tx_type t = 65534 then Some (interpret_Activation t)
         else if tx_type t = 65535 then interpret_Alert t
         else Some (False, t))"

subsection \<open>Building packets\<close>

definition header :: "nat \<Rightarrow> nat \<Rightarrow> string" where
  "header messageVer messageType = put_u16 messageVer @ put_u16 messageType"

definition put_cstring :: "string \<Rightarrow> string" where
  "put_cstring s = s @ [CHR 0x00]"

definition substr255 :: "string \<Rightarrow> string" where
  "substr255 s = (if length s > 255 then take 255 s else s)"

text \<open>An address that does not decode is logged; what was decoded is used all the same.\<close>

definition AddressToBytes :: "(string \<Rightarrow> string) \<Rightarrow> string \<Rightarrow> string" where
  "AddressToBytes decodeBase58 address = (let addressBytes = decodeBase58 address in if length addressBytes = 25 then take 21 addressBytes else addressBytes)"

definition CreatePayload_SimpleSend :: "nat \<Rightarrow> int \<Rightarrow> string" where
  "CreatePayload_SimpleSend propertyId amount = header 0 0 @ put_u32 propertyId @ put_u64 amount"

definition CreatePayload_SendToMany :: "nat \<Rightarrow> (nat \<times> int) list \<Rightarrow> string" where
  "CreatePayload_SendToMany propertyId outputValues =
     (let values = (if length outputValues > 255 then take 255 outputValues else outputValues)
      in header 0 5 @ put_u32 propertyId @ put_u8 (length values) @ concat (map (\<lambda>(vout, amount). put_u8 vout @ put_u64 amount) values))"

definition CreatePayload_RapidsPayment :: "nat \<Rightarrow> string" where
  "CreatePayload_RapidsPayment linkedtxid = header 0 80 @ put_cstring (GetHex linkedtxid)"

definition CreatePayload_SendAll :: "nat \<Rightarrow> string" where
  "CreatePayload_SendAll ecosystem = header 0 4 @ put_u8 ecosystem"

definition CreatePayload_DExSell :: "nat \<Rightarrow> int \<Rightarrow> int \<Rightarrow> nat \<Rightarrow> int \<Rightarrow> nat \<Rightarrow> string" where
  "CreatePayload_DExSell propertyId amountForSale amountDesired timeLimit minFee subAction =
     header 1 20 @ put_u32 propertyId @ put_u64 amountForSale @ put_u64 amountDesired @ put_u8 timeLimit @ put_u64 minFee @ put_u8 subAction"

definition CreatePayload_DExAccept :: "nat \<Rightarrow> int \<Rightarrow> string" where
  "CreatePayload_DExAccept propertyId amount = header 0 22 @ put_u32 propertyId @ put_u64 amount"

definition CreatePayload_SendToOwners :: "nat \<Rightarrow> int \<Rightarrow> nat \<Rightarrow> string" where
  "CreatePayload_SendToOwners propertyId amount distributionProperty =
     (let v0 = (propertyId = distributionProperty)
      in header (if v0 then 0 else 1) 3 @ put_u32 propertyId @ put_u64 amount @ (if v0 then [] else put_u32 distributionProperty))"

definition CreatePayload_IssuanceFixed :: "nat \<Rightarrow> nat \<Rightarrow> nat \<Rightarrow> string \<Rightarrow> string \<Rightarrow> string \<Rightarrow> string \<Rightarrow> string \<Rightarrow> string \<Rightarrow> int \<Rightarrow> string \<Rightarrow> nat \<Rightarrow> string" where
  "CreatePayload_IssuanceFixed ecosystem propertyType previousPropertyId category subcategory name ticker url data amount receiver percentage =
     header 0 50 @ put_u8 ecosystem @ put_u16 propertyType @ put_u32 previousPropertyId
       @ put_cstring (substr255 category) @ put_cstring (substr255 subcategory) @ put_cstring (substr255 name) @ put_cstring (substr255 ticker) @ put_cstring (substr255 url) @ put_cstring (substr255 data)
       @ put_cstring (substr255 receiver) @ put_u64 amount @ put_u8 percentage"

text \<open>The other two forms do not cut the ticker.\<close>

definition CreatePayload_IssuanceVariable :: "nat \<Rightarrow> nat \<Rightarrow> nat \<Rightarrow> string \<Rightarrow> string \<Rightarrow> string \<Rightarrow> string \<Rightarrow> string \<Rightarrow> string \<Rightarrow> nat \<Rightarrow> int \<Rightarrow> int \<Rightarrow> nat \<Rightarrow> nat \<Rightarrow> string" where
  "CreatePayload_IssuanceVariable ecosystem propertyType previousPropertyId category subcategory name ticker url data propertyIdDesired amountPerUnit deadline earlyBonus issuerPercentage =
     header (if propertyIdDesired = 0 then 2 else 0) 51 @ put_u8 ecosystem @ put_u16 propertyType @ put_u32 previousPropertyId
       @ put_cstring (substr255 category) @ put_cstring (substr255 subcategory) @ put_cstring (substr255 name) @ put_cstring ticker @ put_cstring (substr255 url) @ put_cstring (substr255 data)
       @ put_u32 propertyIdDesired @ put_u64 amountPerUnit @ put_u64 deadline @ put_u8 earlyBonus @ put_u8 issuerPercentage"

definition CreatePayload_IssuanceManaged :: "nat \<Rightarrow> nat \<Rightarrow> nat \<Rightarrow> string \<Rightarrow> string \<Rightarrow> string \<Rightarrow> string \<Rightarrow> string \<Rightarrow> string \<Rightarrow> string" where
  "CreatePayload_IssuanceManaged ecosystem propertyType previousPropertyId category subcategory name ticker url data =
     header 0 54 @ put_u8 ecosystem @ put_u16 propertyType @ put_u32 previousPropertyId
       @ put_cstring (substr255 category) @ put_cstring (substr255 subcategory) @ put_cstring (substr255 name) @ put_cstring ticker @ put_cstring (substr255 url) @ put_cstring (substr255 data)"

definition CreatePayload_CloseCrowdsale :: "nat \<Rightarrow> string" where
  "CreatePayload_CloseCrowdsale propertyId = header 0 53 @ put_u32 propertyId"

definition CreatePayload_Grant :: "nat \<Rightarrow> int \<Rightarrow> string \<Rightarrow> string" where
  "CreatePayload_Grant propertyId amount memo = header 0 55 @ put_u32 propertyId @ put_u64 amount @ put_cstring (substr255 memo)"

definition CreatePayload_Revoke :: "nat \<Rightarrow> int \<Rightarrow> string \<Rightarrow> string" where
  "CreatePayload_Revoke propertyId amount memo = header 0 56 @ put_u32 propertyId @ put_u64 amount @ put_cstring (substr255 memo)"

definition CreatePayload_ChangeIssuer :: "nat \<Rightarrow> string" where
  "CreatePayload_ChangeIssuer propertyId = header 0 70 @ put_u32 propertyId"

definition CreatePayload_EnableFreezing :: "nat \<Rightarrow> string" where
  "CreatePayload_EnableFreezing propertyId = header 0 71 @ put_u32 propertyId"

definition CreatePayload_DisableFreezing :: "nat \<Rightarrow> string" where
  "CreatePayload_DisableFreezing propertyId = header 0 72 @ put_u32 propertyId"

definition CreatePayload_FreezeTokens :: "(string \<Rightarrow> string) \<Rightarrow> nat \<Rightarrow> int \<Rightarrow> string \<Rightarrow> string" where
  "CreatePayload_FreezeTokens decodeBase58 propertyId amount address =
     header 0 185 @ put_u32 propertyId @ put_u64 amount @ AddressToBytes decodeBase58 address"

definition CreatePayload_UnfreezeTokens :: "(string \<Rightarrow> string) \<Rightarrow> nat \<Rightarrow> int \<Rightarrow> string \<Rightarrow> string" where
  "CreatePayload_UnfreezeTokens decodeBase58 propertyId amount address =
     header 0 186 @ put_u32 propertyId @ put_u64 amount @ AddressToBytes decodeBase58 address"

definition CreatePayload_MetaDExTrade :: "nat \<Rightarrow> int \<Rightarrow> nat \<Rightarrow> int \<Rightarrow> string" where
  "CreatePayload_MetaDExTrade propertyIdForSale amountForSale propertyIdDesired amountDesired =
     header 0 25 @ put_u32 propertyIdForSale @ put_u64 amountForSale @ put_u32 propertyIdDesired @ put_u64 amountDesired"

definition CreatePayload_MetaDExCancelPrice :: "nat \<Rightarrow> int \<Rightarrow> nat \<Rightarrow> int \<Rightarrow> string" where
  "CreatePayload_MetaDExCancelPrice propertyIdForSale amountForSale propertyIdDesired amountDesired =
     header 0 26 @ put_u32 propertyIdForSale @ put_u64 amountForSale @ put_u32 propertyIdDesired @ put_u64 amountDesired"

definition CreatePayload_MetaDExCancelPair :: "nat \<Rightarrow> nat \<Rightarrow> string" where
  "CreatePayload_MetaDExCancelPair propertyIdForSale propertyIdDesired = header 0 27 @ put_u32 propertyIdForSale @ put_u32 propertyIdDesired"

definition CreatePayload_MetaDExCancelEcosystem :: "nat \<Rightarrow> string" where
  "CreatePayload_MetaDExCancelEcosystem ecosystem = header 0 28 @ put_u8 ecosystem"

definition CreatePayload_DeactivateFeature :: "nat \<Rightarrow> string" where
  "CreatePayload_DeactivateFeature featureId = header 65535 65533 @ put_u16 featureId"

definition CreatePayload_ActivateFeature :: "nat \<Rightarrow> nat \<Rightarrow> nat \<Rightarrow> string" where
  "CreatePayload_ActivateFeature featureId activationBlock minClientVersion =
     header 65535 65534 @ put_u16 featureId @ put_u32 activationBlock @ put_u32 minClientVersion"

definition CreatePayload_TokenCoreAlert :: "nat \<Rightarrow> nat \<Rightarrow> string \<Rightarrow> string" where
  "CreatePayload_TokenCoreAlert alertType expiryValue alertMessage =
     header 65535 65535 @ put_u16 alertType @ put_u32 expiryValue @ put_cstring alertMessage"

subsection \<open>Messages\<close>

text \<open>The abstract messages, their encoding by the functions above, and what a parsed transaction stands for.\<close>

datatype message =
    SimpleSend nat int | SendToMany nat "(nat \<times> int) list" | SendToOwners nat int nat | SendAll nat
  | DExSell nat int int nat int nat | DExAccept nat int
  | MetaDExTrade nat int nat int | MetaDExCancelPrice nat int nat int | MetaDExCancelPair nat nat | MetaDExCancelEcosystem nat
  | IssuanceFixed nat nat nat "string list" int nat | IssuanceVariable nat nat nat "string list" nat int int nat nat
  | IssuanceManaged nat nat nat "string list"
  | CloseCrowdsale nat | Grant nat int | Revoke nat int | ChangeIssuer nat
  | EnableFreezing nat | DisableFreezing nat | FreezeTokens nat int string | UnfreezeTokens nat int string
  | RapidsPayment nat | Deactivate nat | Activate nat nat nat | TokenCoreAlert nat nat string

fun create_payload :: "(string \<Rightarrow> string) \<Rightarrow> string \<Rightarrow> message \<Rightarrow> string" where
  "create_payload dec memo (SimpleSend p n) = CreatePayload_SimpleSend p n"
| "create_payload dec memo (SendToMany p vs) = CreatePayload_SendToMany p vs"
| "create_payload dec memo (SendToOwners p n q) = CreatePayload_SendToOwners p n q"
| "create_payload dec memo (SendAll e) = CreatePayload_SendAll e"
| "create_payload dec memo (DExSell p n d l f sub) = CreatePayload_DExSell p n d l f sub"
| "create_payload dec memo (DExAccept p n) = CreatePayload_DExAccept p n"
| "create_payload dec memo (MetaDExTrade p n q d) = CreatePayload_MetaDExTrade p n q d"
| "create_payload dec memo (MetaDExCancelPrice p n q d) = CreatePayload_MetaDExCancelPrice p n q d"
| "create_payload dec memo (MetaDExCancelPair p q) = CreatePayload_MetaDExCancelPair p q"
| "create_payload dec memo (MetaDExCancelEcosystem e) = CreatePayload_MetaDExCancelEcosystem e"
| "create_payload dec memo (IssuanceFixed e ty prev ss n pct) =
     CreatePayload_IssuanceFixed e ty prev (ss ! 0) (ss ! 1) (ss ! 2) (ss ! 3) (ss ! 4) (ss ! 5) n (ss ! 6) pct"
| "create_payload dec memo (IssuanceVariable e ty prev ss q n dl eb pct) =
     CreatePayload_IssuanceVariable e ty prev (ss ! 0) (ss ! 1) (ss ! 2) (ss ! 3) (ss ! 4) (ss ! 5) q n dl eb pct"
| "create_payload dec memo (IssuanceManaged e ty prev ss) =
     CreatePayload_IssuanceManaged e ty prev (ss ! 0) (ss ! 1) (ss ! 2) (ss ! 3) (ss ! 4) (ss ! 5)"
| "create_payload dec memo (CloseCrowdsale p) = CreatePayload_CloseCrowdsale p"
| "create_payload dec memo (Grant p n) = CreatePayload_Grant p n memo"
| "create_payload dec memo (Revoke p n) = CreatePayload_Revoke p n memo"
| "create_payload dec memo (ChangeIssuer p) = CreatePayload_ChangeIssuer p"
| "create_payload dec memo (EnableFreezing p) = CreatePayload_EnableFreezing p"
| "create_payload dec memo (DisableFreezing p) = CreatePayload_DisableFreezing p"
| "create_payload dec memo (FreezeTokens p n a) = CreatePayload_FreezeTokens dec p n a"
| "create_payload dec memo (UnfreezeTokens p n a) = CreatePayload_UnfreezeTokens dec p n a"
| "create_payload dec memo (RapidsPayment txid) = CreatePayload_RapidsPayment txid"
| "create_payload dec memo (Deactivate f) = CreatePayload_DeactivateFeature f"
| "create_payload dec memo (Activate f b v) = CreatePayload_ActivateFeature f b v"
| "create_payload dec memo (TokenCoreAlert ty ex msg) = CreatePayload_TokenCoreAlert ty ex msg"

definition texts_of :: "CMPTransaction \<Rightarrow> string list" where
  "texts_of t = [tx_category t, tx_subcategory t, tx_name t, tx_ticker t, tx_url t, tx_data t]"

definition message_of :: "CMPTransaction \<Rightarrow> message option" where
  "message_of t = map_of
     [(0, SimpleSend (tx_property t) (nValue t)),
      (5, SendToMany (tx_property t) (outputValuesForSTM t)),
      (3, SendToOwners (tx_property t) (nValue t) (if tx_version t = 0 then tx_property t else distribution_property t)),
      (4, SendAll (tx_ecosystem t)),
      (20, DExSell (tx_property t) (nValue t) (amount_desired t) (blocktimelimit t) (tx_min_fee t) (tx_subaction t)),
      (22, DExAccept (tx_property t) (nValue t)),
      (25, MetaDExTrade (tx_property t) (nValue t) (desired_property t) (desired_value t)),
      (26, MetaDExCancelPrice (tx_property t) (nValue t) (desired_property t) (desired_value t)),
      (27, MetaDExCancelPair (tx_property t) (desired_property t)),
      (28, MetaDExCancelEcosystem (tx_ecosystem t)),
      (50, IssuanceFixed (tx_ecosystem t) (tx_prop_type t) (tx_prev_prop_id t) (texts_of t @ [royaltiesReceiver t]) (nValue t) (royaltiesPercentage t)),
      (51, IssuanceVariable (tx_ecosystem t) (tx_prop_type t) (tx_prev_prop_id t) (texts_of t) (tx_property t) (nValue t) (tx_deadline t)
             (tx_early_bird t) (tx_percentage t)),
      (54, IssuanceManaged (tx_ecosystem t) (tx_prop_type t) (tx_prev_prop_id t) (texts_of t)),
      (53, CloseCrowdsale (tx_property t)), (55, Grant (tx_property t) (nValue t)), (56, Revoke (tx_property t) (nValue t)),
      (70, ChangeIssuer (tx_property t)), (71, EnableFreezing (tx_property t)), (72, DisableFreezing (tx_property t)),
      (185, FreezeTokens (tx_property t) (nValue t) (tx_receiver t)), (186, UnfreezeTokens (tx_property t) (nValue t) (tx_receiver t)),
      (65533, Deactivate (feature_id t)), (80, RapidsPayment (linked_txid t)),
      (65534, Activate (feature_id t) (activation_block t) (min_client_version t)),
      (65535, TokenCoreAlert (tx_alert_type t) (tx_alert_expiry t) (tx_alert_text t))] (tx_type t)"

abbreviation is_u8 :: "nat \<Rightarrow> bool" where "is_u8 n \<equiv> n < 256"
abbreviation is_u16 :: "nat \<Rightarrow> bool" where "is_u16 n \<equiv> n < 65536"
abbreviation is_u32 :: "nat \<Rightarrow> bool" where "is_u32 n \<equiv> n < 4294967296"
abbreviation is_u64 :: "int \<Rightarrow> bool" where "is_u64 n \<equiv> 0 \<le> n \<and> n < 18446744073709551616"

definition text_ok :: "string \<Rightarrow> bool" where
  "text_ok s \<longleftrightarrow> length s \<le> 255 \<and> CHR 0x00 \<notin> set s"

text \<open>An address decodes to 25 bytes, its version and hash encode to it, and it is a valid destination.\<close>

definition address_ok :: "(string \<Rightarrow> string) \<Rightarrow> (nat \<Rightarrow> string \<Rightarrow> string) \<Rightarrow> (string \<Rightarrow> bool) \<Rightarrow> string \<Rightarrow> bool" where
  "address_ok dec hashToAddress validDestination a \<longleftrightarrow> a \<noteq> [] \<and> length (dec a) = 25
     \<and> hashToAddress (get_u8 (dec a)) (take 20 (drop 1 (dec a))) = a \<and> validDestination a"

text \<open>The range of the fields of a message: the widths of its numbers, and texts that fit.\<close>

fun message_ok :: "(string \<Rightarrow> bool) \<Rightarrow> message \<Rightarrow> bool" where
  "message_ok adr (SimpleSend p n) = (is_u32 p \<and> is_u64 n)"
| "message_ok adr (SendToMany p vs) = (is_u32 p \<and> length vs \<le> 255 \<and> list_all (\<lambda>(o', n). is_u8 o' \<and> is_u64 n) vs)"
| "message_ok adr (SendToOwners p n q) = (is_u32 p \<and> is_u64 n \<and> is_u32 q)"
| "message_ok adr (SendAll e) = is_u8 e"
| "message_ok adr (DExSell p n d l f sub) = (is_u32 p \<and> is_u64 n \<and> is_u64 d \<and> is_u8 l \<and> is_u64 f \<and> is_u8 sub)"
| "message_ok adr (DExAccept p n) = (is_u32 p \<and> is_u64 n)"
| "message_ok adr (MetaDExTrade p n q d) = (is_u32 p \<and> is_u64 n \<and> is_u32 q \<and> is_u64 d)"
| "message_ok adr (MetaDExCancelPrice p n q d) = (is_u32 p \<and> is_u64 n \<and> is_u32 q \<and> is_u64 d)"
| "message_ok adr (MetaDExCancelPair p q) = (is_u32 p \<and> is_u32 q)"
| "message_ok adr (MetaDExCancelEcosystem e) = is_u8 e"
| "message_ok adr (IssuanceFixed e ty prev ss n pct) =
     (is_u8 e \<and> is_u16 ty \<and> is_u32 prev \<and> length ss = 7 \<and> list_all text_ok ss \<and> is_u64 n \<and> is_u8 pct)"
| "message_ok adr (IssuanceVariable e ty prev ss q n dl eb pct) =
     (is_u8 e \<and> is_u16 ty \<and> is_u32 prev \<and> length ss = 6 \<and> list_all text_ok ss \<and> is_u32 q \<and> is_u64 n \<and> is_u64 dl \<and> is_u8 eb \<and> is_u8 pct)"
| "message_ok adr (IssuanceManaged e ty prev ss) = (is_u8 e \<and> is_u16 ty \<and> is_u32 prev \<and> length ss = 6 \<and> list_all text_ok ss)"
| "message_ok adr (CloseCrowdsale p) = is_u32 p"
| "message_ok adr (Grant p n) = (is_u32 p \<and> is_u64 n)"
| "message_ok adr (Revoke p n) = (is_u32 p \<and> is_u64 n)"
| "message_ok adr (ChangeIssuer p) = is_u32 p"
| "message_ok adr (EnableFreezing p) = is_u32 p"
| "message_ok adr (DisableFreezing p) = is_u32 p"
| "message_ok adr (FreezeTokens p n a) = (is_u32 p \<and> is_u64 n \<and> adr a)"
| "message_ok adr (UnfreezeTokens p n a) = (is_u32 p \<and> is_u64 n \<and> adr a)"
| "message_ok adr (RapidsPayment txid) = (txid < 2 ^ 256)"
| "message_ok adr (Deactivate f) = is_u16 f"
| "message_ok adr (Activate f b v) = (is_u16 f \<and> is_u32 b \<and> is_u32 v)"
| "message_ok adr (TokenCoreAlert ty ex msg) = (is_u16 ty \<and> is_u32 ex \<and> text_ok msg)"

subsection \<open>The round trip\<close>

definition packet_tx :: "string \<Rightarrow> string \<Rightarrow> nat \<Rightarrow> int \<Rightarrow> nat \<Rightarrow> string \<Rightarrow> nat \<Rightarrow> int \<Rightarrow> CMPTransaction \<Rightarrow> CMPTransaction" where
  "packet_tx s r txid b idx p cls fee t = Set_packet s r 0 txid b idx p cls fee (SetNull t)"

lemma packet_tx_fields:
  assumes "length p \<le> PKT_LEN"
  shows "pkt_size (packet_tx s r txid b idx p cls fee t) = length p"
    "pkt (packet_tx s r txid b idx p cls fee t) = p @ replicate (PKT_LEN - length p) (CHR 0x00)"
    "outputValuesForSTM (packet_tx s r txid b idx p cls fee t) = []" "tx_alert_text (packet_tx s r txid b idx p cls fee t) = []"
  using assms by (simp_all add: packet_tx_def Set_packet_def SetNull_def Let_def)

lemma length_header [simp]: "length (header v ty) = 4"
  by (simp add: header_def)

lemma interpret_type:
  assumes "pkt t = header v ty @ rest" and "4 \<le> pkt_size t" and "is_u16 v" and "is_u16 ty"
  shows "interpret_TransactionType t = (True, t\<lparr>tx_version := v, tx_type := ty\<rparr>)"
  using assms by (simp add: interpret_TransactionType_def u16_at_def header_def)

lemmas at_defs = u8_at_def u16_at_def u32_at_def u64_at_def header_def
lemmas fixed_defs = interpret_Transaction_def interpret_TransactionType_def message_of_def set_value_def default_receiver_def at_defs

definition decodes :: "(nat \<Rightarrow> string \<Rightarrow> string) \<Rightarrow> (string \<Rightarrow> bool) \<Rightarrow> CMPTransaction \<Rightarrow> message \<Rightarrow> bool" where
  "decodes hta vd t m \<longleftrightarrow> (\<exists>t'. interpret_Transaction hta vd t = Some (True, t') \<and> message_of t' = Some m)"

lemmas plain_defs = interpret_SimpleSend_def CreatePayload_SimpleSend_def interpret_SendToOwners_def CreatePayload_SendToOwners_def interpret_SendAll_def CreatePayload_SendAll_def interpret_TradeOffer_def CreatePayload_DExSell_def interpret_AcceptOfferRPD_def CreatePayload_DExAccept_def interpret_MetaDExTrade_def CreatePayload_MetaDExTrade_def interpret_MetaDExCancelPrice_def CreatePayload_MetaDExCancelPrice_def interpret_MetaDExCancelPair_def CreatePayload_MetaDExCancelPair_def interpret_MetaDExCancelEcosystem_def CreatePayload_MetaDExCancelEcosystem_def interpret_CloseCrowdsale_def CreatePayload_CloseCrowdsale_def interpret_GrantTokens_def CreatePayload_Grant_def interpret_RevokeTokens_def CreatePayload_Revoke_def interpret_ChangeIssuer_def CreatePayload_ChangeIssuer_def interpret_EnableFreezing_def CreatePayload_EnableFreezing_def interpret_DisableFreezing_def CreatePayload_DisableFreezing_def interpret_Deactivation_def CreatePayload_DeactivateFeature_def interpret_Activation_def CreatePayload_ActivateFeature_def

definition plain :: "message \<Rightarrow> bool" where
  "plain m \<longleftrightarrow> (case m of SendToMany _ _ \<Rightarrow> False | IssuanceFixed _ _ _ _ _ _ \<Rightarrow> False | IssuanceVariable _ _ _ _ _ _ _ _ _ \<Rightarrow> False
     | IssuanceManaged _ _ _ _ \<Rightarrow> False | FreezeTokens _ _ _ \<Rightarrow> False | UnfreezeTokens _ _ _ \<Rightarrow> False | RapidsPayment _ \<Rightarrow> False
     | TokenCoreAlert _ _ _ \<Rightarrow> False | _ \<Rightarrow> True)"

lemma decodes_plain:
  assumes "pkt t = create_payload dec memo m @ post" and "pkt_size t = length (create_payload dec memo m)" and "message_ok adr m" and "plain m"
  shows "decodes hta vd t m"
  using assms by (cases m) (simp_all add: decodes_def fixed_defs plain_defs plain_def Let_def)

lemma decodes_freeze:
  assumes "pkt t = create_payload dec memo m @ post" and "pkt_size t = length (create_payload dec memo m)" and "message_ok (address_ok dec hta vd) m"
    and "m = FreezeTokens p n a \<or> m = UnfreezeTokens p n a"
  shows "decodes hta vd t m"
proof -
  have a: "length (dec a) = 25" "hta (get_u8 (dec a)) (take 20 (drop 1 (dec a))) = a" "vd a" "a \<noteq> []"
    using assms(3,4) by (auto simp: address_ok_def)
  have b: "get_u8 (take 21 (dec a) @ s) = get_u8 (dec a)" "take 20 (drop 1 (take 21 (dec a)) @ s) = take 20 (drop 1 (dec a))" for s
    using a(1) by (simp_all add: get_u8_def min_def drop_take)
  show ?thesis
    using assms(4)
  proof
    assume m: "m = FreezeTokens p n a"
    show ?thesis using assms(1-3) a b
      by (simp add: m decodes_def fixed_defs interpret_FreezeTokens_def CreatePayload_FreezeTokens_def AddressToBytes_def Let_def)
  next
    assume m: "m = UnfreezeTokens p n a"
    show ?thesis using assms(1-3) a b
      by (simp add: m decodes_def fixed_defs interpret_UnfreezeTokens_def CreatePayload_UnfreezeTokens_def AddressToBytes_def Let_def)
  qed
qed

lemma decodes_hash:
  assumes "pkt t = CreatePayload_RapidsPayment txid @ post" and "pkt_size t = length (CreatePayload_RapidsPayment txid)" and "txid < 2 ^ 256"
  shows "decodes hta vd t (RapidsPayment txid)"
proof -
  have "cstring_at (pkt t) 4 = Some (GetHex txid)"
    unfolding assms(1) using cstring_at_append [of "header 0 80" 4 "GetHex txid" post] GetHex_digits [of _ txid]
    by (auto simp: CreatePayload_RapidsPayment_def put_cstring_def)
  then show ?thesis using assms ParseHashV_GetHex [OF assms(3)]
    by (simp add: decodes_def fixed_defs interpret_RapidsPayment_def CreatePayload_RapidsPayment_def put_cstring_def length_GetHex)
qed

lemma decodes_alert:
  assumes "pkt t = CreatePayload_TokenCoreAlert ty ex msg @ post" and "pkt_size t = length (CreatePayload_TokenCoreAlert ty ex msg)"
    and "is_u16 ty" "is_u32 ex" "text_ok msg" "tx_alert_text t = []"
  shows "decodes hta vd t (TokenCoreAlert ty ex msg)"
proof -
  have "cstring_at (pkt t) 10 = Some msg"
    unfolding assms(1) using cstring_at_append [of "header 65535 65535 @ put_u16 ty @ put_u32 ex" 10 msg post] assms(5)
    by (simp add: CreatePayload_TokenCoreAlert_def put_cstring_def text_ok_def)
  then show ?thesis using assms
    by (simp add: decodes_def fixed_defs interpret_Alert_def CreatePayload_TokenCoreAlert_def put_cstring_def text_ok_def isOverrun_def)
qed

lemma read_strings_concat:
  assumes "pkt t = pre @ concat (map put_cstring ss) @ post" and "length pre = p" and "list_all (\<lambda>s. CHR 0x00 \<notin> set s) ss"
  shows "read_strings (length ss) t p = Some (ss, p + length (concat (map put_cstring ss)))"
  using assms
proof (induction ss arbitrary: pre p)
  case (Cons s ss)
  have "cstring_at (pkt t) p = Some s"
    using cstring_at_append [of pre p s "concat (map put_cstring ss) @ post"] Cons.prems by (simp add: put_cstring_def [of s])
  moreover have "read_strings (length ss) t (p + length s + 1) = Some (ss, p + length s + 1 + length (concat (map put_cstring ss)))"
    using Cons.prems by (intro Cons.IH [of "pre @ put_cstring s"]) (simp_all add: put_cstring_def)
  ultimately show ?case by (simp add: put_cstring_def [of s])
qed simp

lemma text_fields_id: "list_all text_ok ss \<Longrightarrow> text_fields ss following = ss"
  by (induction ss) (auto simp: text_ok_def Let_def)

lemma texts_cut: "list_all text_ok ss \<Longrightarrow> map substr255 ss = ss"
  by (induction ss) (auto simp: text_ok_def substr255_def)

lemma texts_terminated: "list_all text_ok ss \<Longrightarrow> list_all (\<lambda>s. CHR 0x00 \<notin> set s) ss"
  by (auto simp: list_all_iff text_ok_def)

lemma length_texts: "length (concat (map put_cstring ss)) = sum_list (map length ss) + length ss"
  by (induction ss) (simp_all add: put_cstring_def)

lemma list_six: "length ss = 6 \<Longrightarrow> \<exists>a b c d e f. ss = [a, b, c, d, e, f]"
  by (auto simp: length_Suc_conv numeral_eq_Suc)

lemma property_header_at:
  assumes "pkt t = header v ty @ put_u8 e @ put_u16 pt @ put_u32 prev @ rest" and "is_u8 e" "is_u16 pt" "is_u32 prev"
  shows "property_header t = t\<lparr>tx_ecosystem := e, tx_prop_type := pt, tx_prev_prop_id := prev\<rparr>"
  using assms by (simp add: property_header_def at_defs)

text \<open>The common part of the three kinds of issuance.\<close>

lemma issuance_read:
  assumes "pkt t = header v k @ put_u8 e @ put_u16 ty @ put_u32 prev @ concat (map put_cstring ss) @ rest"
    and "pkt_size t = 11 + length (concat (map put_cstring ss)) + n" and "is_u16 v" "is_u16 k"
    and ok: "is_u8 e" "is_u16 ty" "is_u32 prev" "list_all text_ok ss"
  defines "t1 \<equiv> t\<lparr>tx_version := v, tx_type := k\<rparr>"
  shows "interpret_TransactionType t = (True, t1)"
    "property_header t1 = t1\<lparr>tx_ecosystem := e, tx_prop_type := ty, tx_prev_prop_id := prev\<rparr>"
    "read_strings (length ss) (property_header t1) 11 = Some (ss, 11 + length (concat (map put_cstring ss)))"
    "drop (11 + length (concat (map put_cstring ss))) (pkt t1) = rest" "pkt_size t1 \<ge> 11 + length ss + n"
proof -
  show "interpret_TransactionType t = (True, t1)"
    unfolding t1_def using assms(1-4) by (intro interpret_type) simp_all
  have pk: "pkt t1 = header v k @ put_u8 e @ put_u16 ty @ put_u32 prev @ concat (map put_cstring ss) @ rest" using assms(1) by (simp add: t1_def)
  show "property_header t1 = t1\<lparr>tx_ecosystem := e, tx_prop_type := ty, tx_prev_prop_id := prev\<rparr>"
    using pk ok by (intro property_header_at) simp_all
  show "read_strings (length ss) (property_header t1) 11 = Some (ss, 11 + length (concat (map put_cstring ss)))"
    using pk texts_terminated [OF ok(4)]
    by (intro read_strings_concat [of _ "header v k @ put_u8 e @ put_u16 ty @ put_u32 prev" ss rest 11]) (simp_all add: property_header_def)
  show "drop (11 + length (concat (map put_cstring ss))) (pkt t1) = rest" using pk by simp
  show "pkt_size t1 \<ge> 11 + length ss + n" using assms(2) by (simp add: t1_def length_texts)
qed

lemma decodes_managed:
  assumes "pkt t = create_payload dec memo m @ post" and "pkt_size t = length (create_payload dec memo m)" and "message_ok adr m"
    and m: "m = IssuanceManaged e ty prev ss"
  shows "decodes hta vd t m"
proof -
  have ok: "is_u8 e" "is_u16 ty" "is_u32 prev" "length ss = 6" "list_all text_ok ss" using assms(3) by (simp_all add: m)
  obtain a b c d f g where ss: "ss = [a, b, c, d, f, g]" using list_six [OF ok(4)] by blast
  have pay: "create_payload dec memo m = header 0 54 @ put_u8 e @ put_u16 ty @ put_u32 prev @ concat (map put_cstring ss)"
    using ok(5) by (simp add: m ss CreatePayload_IssuanceManaged_def text_ok_def substr255_def)
  define P where "P = 11 + length (concat (map put_cstring ss))"
  have pk: "pkt t = header 0 54 @ put_u8 e @ put_u16 ty @ put_u32 prev @ concat (map put_cstring ss) @ post"
      "pkt_size t = 11 + length (concat (map put_cstring ss)) + 0"
    using assms(1,2) by (simp_all add: pay)
  define t1 where "t1 = t\<lparr>tx_version := 0, tx_type := 54\<rparr>"
  note read = issuance_read [OF pk _ _ ok(1-3,5), folded t1_def P_def]
  have buf: "\<not> pkt_size t1 < 17" "\<not> isOverrun t1 P" "tx_type t1 = 54"
    using pk ok(4) by (simp_all add: t1_def isOverrun_def length_texts P_def)
  have "interpret_CreatePropertyManaged t1 = Some (True, set_text ss (t1\<lparr>tx_ecosystem := e, tx_prop_type := ty, tx_prev_prop_id := prev\<rparr>))"
    using read(2,3) ok(4) unfolding interpret_CreatePropertyManaged_def Let_def if_not_P [OF buf(1)] by (simp add: buf text_fields_id [OF ok(5)])
  then show ?thesis using read(1) buf(3)
    by (simp add: decodes_def interpret_Transaction_def m message_of_def set_text_def texts_of_def) (simp add: ss)
qed

lemma decodes_variable:
  assumes "pkt t = create_payload dec memo m @ post" and "pkt_size t = length (create_payload dec memo m)" and "message_ok adr m"
    and m: "m = IssuanceVariable e ty prev ss q n dl eb pct"
  shows "decodes hta vd t m"
proof -
  have ok: "is_u8 e" "is_u16 ty" "is_u32 prev" "list_all text_ok ss" and l: "length ss = 6"
    and tail: "is_u32 q" "is_u64 n" "is_u64 dl" "is_u8 eb" "is_u8 pct" using assms(3) by (simp_all add: m)
  obtain a b c d f g where ss: "ss = [a, b, c, d, f, g]" using list_six [OF l] by blast
  let ?v = "if q = 0 then 2 else 0" and ?tail = "put_u32 q @ put_u64 n @ put_u64 dl @ put_u8 eb @ put_u8 pct"
  define P where "P = 11 + length (concat (map put_cstring ss))"
  have pay: "create_payload dec memo m = header ?v 51 @ put_u8 e @ put_u16 ty @ put_u32 prev @ concat (map put_cstring ss) @ ?tail"
    using ok(4) by (simp add: m ss CreatePayload_IssuanceVariable_def text_ok_def substr255_def)
  have pk: "pkt t = header ?v 51 @ put_u8 e @ put_u16 ty @ put_u32 prev @ concat (map put_cstring ss) @ ?tail @ post"
      "pkt_size t = 11 + length (concat (map put_cstring ss)) + 22"
    using assms(1,2) by (simp_all add: pay)
  define t1 where "t1 = t\<lparr>tx_version := ?v, tx_type := 51\<rparr>"
  note read = issuance_read [OF pk _ _ ok, folded t1_def P_def]
  have rest: "drop P (pkt t1) = ?tail @ post" using read(4) by simp
  have "drop (P + k) (pkt t1) = drop k (?tail @ post)" for k unfolding rest [symmetric] by (simp add: add.commute)
  then have at: "u32_at t1 P = q" "u64_at t1 (P + 4) = n" "u64_at t1 (P + 12) = dl" "u8_at t1 (P + 20) = eb" "u8_at t1 (P + 21) = pct"
    using tail rest by (simp_all add: at_defs)
  have buf: "in_buffer t1 P 22" "\<not> pkt_size t1 < 39" "\<not> isOverrun t1 (P + 22)" "tx_type t1 = 51"
    using pk l by (simp_all add: in_buffer_def t1_def isOverrun_def length_texts P_def)
  have "interpret_CreatePropertyVariable t1 = Some (True, (set_value n ((set_text ss (t1\<lparr>tx_ecosystem := e, tx_prop_type := ty, tx_prev_prop_id := prev\<rparr>))
      \<lparr>tx_property := q\<rparr>))\<lparr>tx_deadline := dl, tx_early_bird := eb, tx_percentage := pct\<rparr>)"
    using read(2,3) l unfolding interpret_CreatePropertyVariable_def Let_def if_not_P [OF buf(2)] by (simp add: buf at text_fields_id [OF ok(4)])
  then show ?thesis using read(1) buf(4)
    by (simp add: decodes_def interpret_Transaction_def m message_of_def set_text_def texts_of_def set_value_def) (simp add: ss)
qed

lemma decodes_fixed:
  assumes "pkt t = create_payload dec memo m @ post" and "pkt_size t = length (create_payload dec memo m)" and "message_ok adr m"
    and m: "m = IssuanceFixed e ty prev ss n pct"
  shows "decodes hta vd t m"
proof -
  have ok: "is_u8 e" "is_u16 ty" "is_u32 prev" "list_all text_ok ss" and l: "length ss = 7" and tail: "is_u64 n" "is_u8 pct"
    using assms(3) by (simp_all add: m)
  obtain a b c d f g h where ss: "ss = [a, b, c, d, f, g, h]" using l by (auto simp: length_Suc_conv numeral_eq_Suc)
  let ?tail = "put_u64 n @ put_u8 pct"
  define P where "P = 11 + length (concat (map put_cstring ss))"
  have pay: "create_payload dec memo m = header 0 50 @ put_u8 e @ put_u16 ty @ put_u32 prev @ concat (map put_cstring ss) @ ?tail"
    using ok(4) by (simp add: m ss CreatePayload_IssuanceFixed_def text_ok_def substr255_def)
  have pk: "pkt t = header 0 50 @ put_u8 e @ put_u16 ty @ put_u32 prev @ concat (map put_cstring ss) @ ?tail @ post"
      "pkt_size t = 11 + length (concat (map put_cstring ss)) + 9"
    using assms(1,2) by (simp_all add: pay)
  define t1 where "t1 = t\<lparr>tx_version := 0, tx_type := 50\<rparr>"
  note read = issuance_read [OF pk _ _ ok, folded t1_def P_def]
  have rest: "drop P (pkt t1) = ?tail @ post" using read(4) by simp
  have "drop (P + k) (pkt t1) = drop k (?tail @ post)" for k unfolding rest [symmetric] by (simp add: add.commute)
  then have at: "u64_at t1 P = n" "u8_at t1 (P + 8) = pct" using tail rest by (simp_all add: at_defs)
  have buf: "in_buffer t1 P 9" "\<not> pkt_size t1 < 25" "\<not> isOverrun t1 (P + 9)" "tx_type t1 = 50"
    using pk l by (simp_all add: in_buffer_def t1_def isOverrun_def length_texts P_def)
  have h: "\<not> length (ss ! 6) \<ge> SP_STRING_FIELD_LEN" using ok(4) by (simp add: ss text_ok_def)
  have "interpret_CreatePropertyFixed t1 = Some (True, (set_value n ((set_text ss (t1\<lparr>tx_ecosystem := e, tx_prop_type := ty, tx_prev_prop_id := prev\<rparr>))
      \<lparr>royaltiesReceiver := ss ! 6\<rparr>))\<lparr>royaltiesPercentage := pct\<rparr>)"
    using read(2,3) l h unfolding interpret_CreatePropertyFixed_def Let_def if_not_P [OF buf(2)] by (simp add: buf at text_fields_id [OF ok(4)])
  then show ?thesis using read(1) buf(4)
    by (simp add: decodes_def interpret_Transaction_def m message_of_def set_text_def texts_of_def set_value_def) (simp add: ss)
qed

lemma stm_loop_reads:
  assumes "drop pos (pkt t) = concat (map (\<lambda>(vout, amount). put_u8 vout @ put_u64 amount) vs) @ post"
    and "list_all (\<lambda>(o', n). is_u8 o' \<and> is_u64 n) vs"
  shows "stm_loop (length vs) pos t = t\<lparr>outputValuesForSTM := outputValuesForSTM t @ vs, nValue := fold (\<lambda>(_, n) a. u64 (a + n)) vs (nValue t)\<rparr>"
  using assms
proof (induction vs arbitrary: pos t)
  case (Cons x vs)
  obtain o' n where x: "x = (o', n)" by (cases x)
  have ok: "is_u8 o'" "is_u64 n" using Cons.prems(2) by (simp_all add: x)
  have "drop (pos + k) (pkt t) = drop k (put_u8 o' @ put_u64 n @ concat (map (\<lambda>(vout, amount). put_u8 vout @ put_u64 amount) vs) @ post)" for k
    using arg_cong [OF Cons.prems(1), of "drop k"] by (simp add: x add.commute)
  from this [of 0] this [of 1] this [of 9] have "u8_at t pos = o'" "u64_at t (pos + 1) = n"
      "drop (pos + 9) (pkt t) = concat (map (\<lambda>(vout, amount). put_u8 vout @ put_u64 amount) vs) @ post"
    using ok by (simp_all add: at_defs)
  then show ?case
    using Cons.IH [of "pos + 9" "t\<lparr>outputValuesForSTM := outputValuesForSTM t @ [(o', n)], nValue := u64 (nValue t + n)\<rparr>"] Cons.prems(2)
    by (auto simp: x)
qed simp

text \<open>The value of a send to many is the sum of the amounts modulo \<open>2 ^ 64\<close>.\<close>

lemma interpret_many:
  assumes "pkt t = CreatePayload_SendToMany p vs @ post" and "pkt_size t = length (CreatePayload_SendToMany p vs)"
    and ok: "is_u32 p" "length vs \<le> 255" "list_all (\<lambda>(o', n). is_u8 o' \<and> is_u64 n) vs" and "outputValuesForSTM t = []"
  defines "v \<equiv> fold (\<lambda>(_, n) a. u64 (a + n)) vs (nValue t)"
  shows "interpret_Transaction hta vd t = Some (True, t\<lparr>tx_version := 0, tx_type := 5, tx_property := p, numberOfSTMReceivers := length vs,
    outputValuesForSTM := vs, nValue := v, nNewValue := v\<rparr>)"
proof -
  let ?c = "concat (map (\<lambda>(vout, amount). put_u8 vout @ put_u64 amount) vs)"
  have len: "length ?c = 9 * length vs" by (induction vs) auto
  have pay: "CreatePayload_SendToMany p vs = header 0 5 @ put_u32 p @ put_u8 (length vs) @ ?c" using ok(2) by (simp add: CreatePayload_SendToMany_def)
  define t1 where "t1 = t\<lparr>tx_version := 0, tx_type := 5\<rparr>"
  define t2 where "t2 = t1\<lparr>tx_property := p, numberOfSTMReceivers := length vs\<rparr>"
  have pk: "pkt t1 = header 0 5 @ put_u32 p @ put_u8 (length vs) @ ?c @ post" "pkt_size t1 = 9 + 9 * length vs"
    using assms(1,2) by (simp_all add: t1_def pay len)
  have ty: "interpret_TransactionType t = (True, t1)" "tx_type t1 = 5"
    unfolding t1_def using assms(1,2) by (intro interpret_type) (simp_all add: pay)
  have hd: "u32_at t1 4 = p" "u8_at t1 8 = length vs" using ok by (simp_all add: at_defs pk)
  have "drop 9 (pkt t2) = ?c @ post" using pk(1) by (simp add: t2_def)
  from stm_loop_reads [OF this ok(3)] have "stm_loop (length vs) 9 t2 = t2\<lparr>outputValuesForSTM := outputValuesForSTM t2 @ vs, nValue := v\<rparr>"
    by (simp add: v_def t2_def t1_def)
  then have "interpret_SendToMany t1 = (True, t2\<lparr>outputValuesForSTM := vs, nValue := v, nNewValue := v\<rparr>)"
    using pk(2) hd assms(6) by (simp add: interpret_SendToMany_def t2_def t1_def Let_def)
  then show ?thesis using ty by (simp add: interpret_Transaction_def t2_def t1_def)
qed

lemma decodes_many:
  assumes "pkt t = CreatePayload_SendToMany p vs @ post" and "pkt_size t = length (CreatePayload_SendToMany p vs)"
    and "is_u32 p" "length vs \<le> 255" "list_all (\<lambda>(o', n). is_u8 o' \<and> is_u64 n) vs" and "outputValuesForSTM t = []"
  shows "decodes hta vd t (SendToMany p vs)"
  using interpret_many [OF assms] by (simp add: decodes_def message_of_def)

lemma decodes_message:
  assumes "pkt t = create_payload dec memo m @ post" and "pkt_size t = length (create_payload dec memo m)"
    and "message_ok (address_ok dec hta vd) m" and "outputValuesForSTM t = []" and "tx_alert_text t = []"
  shows "decodes hta vd t m"
proof (cases "plain m")
  case True
  then show ?thesis using decodes_plain assms(1-3) by blast
next
  case False
  then show ?thesis
    using assms decodes_freeze [OF assms(1-3)] decodes_managed [OF assms(1-3)] decodes_variable [OF assms(1-3)] decodes_fixed [OF assms(1-3)]
    by (cases m) (auto simp: plain_def intro: decodes_hash decodes_alert decodes_many)
qed

lemma texts_le: "list_all text_ok ss \<Longrightarrow> length (concat (map put_cstring ss)) \<le> 256 * length ss"
  by (induction ss) (auto simp: text_ok_def put_cstring_def)

lemma message_fits:
  assumes "message_ok (address_ok dec hta vd) m"
  shows "length (create_payload dec memo m) \<le> PKT_LEN"
proof -
  have many: "length (concat (map (\<lambda>(vout, amount). put_u8 vout @ put_u64 amount) vs)) = 9 * length vs" for vs :: "(nat \<times> int) list"
    by (induction vs) auto
  have cut: "length (substr255 s) \<le> 255" for s by (simp add: substr255_def)
  have short: "length s \<le> 255" if "s \<in> set ss" "list_all text_ok ss" for s ss using that by (auto simp: list_all_iff text_ok_def)
  show ?thesis
  proof (cases m)
    case (IssuanceFixed e ty prev ss n pct)
    then show ?thesis using cut [of "ss ! 0"] cut [of "ss ! 1"] cut [of "ss ! 2"] cut [of "ss ! 3"] cut [of "ss ! 4"] cut [of "ss ! 5"] cut [of "ss ! 6"]
      by (simp add: IssuanceFixed CreatePayload_IssuanceFixed_def put_cstring_def PKT_LEN_def)
  next
    case (IssuanceVariable e ty prev ss q n dl eb pct)
    then have "length (ss ! 3) \<le> 255" using assms short [of "ss ! 3" ss] by simp
    then show ?thesis using cut [of "ss ! 0"] cut [of "ss ! 1"] cut [of "ss ! 2"] cut [of "ss ! 4"] cut [of "ss ! 5"]
      by (simp add: IssuanceVariable CreatePayload_IssuanceVariable_def put_cstring_def PKT_LEN_def)
  next
    case (IssuanceManaged e ty prev ss)
    then have "length (ss ! 3) \<le> 255" using assms short [of "ss ! 3" ss] by simp
    then show ?thesis using cut [of "ss ! 0"] cut [of "ss ! 1"] cut [of "ss ! 2"] cut [of "ss ! 4"] cut [of "ss ! 5"]
      by (simp add: IssuanceManaged CreatePayload_IssuanceManaged_def put_cstring_def PKT_LEN_def)
  next
    case (Grant p n)
    then show ?thesis using cut [of memo] by (simp add: CreatePayload_Grant_def put_cstring_def PKT_LEN_def)
  next
    case (Revoke p n)
    then show ?thesis using cut [of memo] by (simp add: CreatePayload_Revoke_def put_cstring_def PKT_LEN_def)
  qed (use assms in \<open>simp_all add: plain_defs PKT_LEN_def put_cstring_def CreatePayload_SendToMany_def many Let_def CreatePayload_FreezeTokens_def
      CreatePayload_UnfreezeTokens_def AddressToBytes_def address_ok_def CreatePayload_RapidsPayment_def length_GetHex CreatePayload_TokenCoreAlert_def
      text_ok_def\<close>)
qed

subsection \<open>Properties of packets\<close>

text \<open>
  \<^bold>\<open>C11\<close>. Every message survives the round trip through its packet: the packet that \<^verbatim>\<open>CreatePayload_*\<close> builds for a message whose numbers
  have the widths of their fields and whose texts have at most 255 characters fits the buffer, and parsing it succeeds with the same type and the same fields,
  whatever was in the transaction object before. Addresses in freeze messages need a codec under which they decode and encode.
\<close>

theorem payload_roundtrip:
  assumes "message_ok (address_ok decodeBase58 hashToAddress validDestination) m"
  shows "\<exists>t'. interpret_Transaction hashToAddress validDestination
      (Set_packet sender receiver 0 txid block idx (create_payload decodeBase58 memo m) cls fee (SetNull t)) = Some (True, t') \<and> message_of t' = Some m"
proof -
  let ?p = "create_payload decodeBase58 memo m" and ?t = "packet_tx sender receiver txid block idx (create_payload decodeBase58 memo m) cls fee t"
  have "length ?p \<le> PKT_LEN" by (rule message_fits [OF assms])
  from packet_tx_fields [OF this] have "decodes hashToAddress validDestination ?t m"
    by (intro decodes_message [OF _ _ assms]) simp_all
  then show ?thesis by (simp add: decodes_def packet_tx_def)
qed

definition sample_tx :: CMPTransaction where
  "sample_tx = SetNull \<lparr>tx_txid = 0, tx_block = 0, tx_blockTime = 0, tx_idx = 0, tx_fee_paid = 0, pkt_size = 0, pkt = [], encodingClass = 0,
     tx_sender = [], tx_receiver = [], tx_type = 0, tx_version = 0, nValue = 0, nNewValue = 0, nDonation = 0, tx_property = 0,
     distribution_property = 0, tx_ecosystem = 0, tx_prop_type = 0, tx_prev_prop_id = 0, tx_category = [], tx_subcategory = [], tx_name = [],
     tx_ticker = [], tx_url = [], tx_data = [], royaltiesReceiver = [], royaltiesPercentage = 0, tx_deadline = 0, tx_early_bird = 0,
     tx_percentage = 0, desired_property = 0, desired_value = 0, tx_action = 0, amount_desired = 0, blocktimelimit = 0, tx_min_fee = 0,
     tx_subaction = 0, numberOfSTMReceivers = 0, outputValuesForSTM = [], validOutputAddressesForSTM = [], tx_alert_type = 0, tx_alert_expiry = 0,
     tx_alert_text = [], feature_id = 0, activation_block = 0, min_client_version = 0, linked_txid = 0, rpcOnly = True\<rparr>"

theorem payload_roundtrip_witness:
  "\<exists>t'. interpret_Transaction (\<lambda>v h. ''1'') (\<lambda>a. a = ''1'')
      (Set_packet ''alice'' ''bob'' 0 7 100 0 (create_payload (\<lambda>a. replicate 25 (CHR 0x00)) [] (FreezeTokens 3 5 ''1'')) 3 0 (SetNull sample_tx)) = Some (True, t')
     \<and> message_of t' = Some (FreezeTokens 3 5 ''1'')"
  by (rule payload_roundtrip) (simp add: address_ok_def)

text \<open>
  A payment message whose text is not a transaction hash of 64 hexadecimal digits makes the parser throw: such a packet, which anybody can
  put into a block, is not rejected as invalid.
\<close>

lemma RapidsPayment_throws:
  assumes "pkt t = header v 80 @ s @ [CHR 0x00] @ post" and "36 \<le> pkt_size t" and "v < 65536" and "CHR 0x00 \<notin> set s"
    and "\<not> (IsHex s \<and> length s = 64)"
  shows "interpret_Transaction hashToAddress validDestination t = None"
proof -
  have "cstring_at (pkt t) 4 = Some s" unfolding assms(1) by (rule cstring_at_append [OF _ assms(4)]) simp
  moreover have "interpret_TransactionType t = (True, t\<lparr>tx_version := v, tx_type := 80\<rparr>)"
    using assms(1-3) by (intro interpret_type) simp_all
  moreover have "ParseHashV s = None" using assms(5) by (auto simp: ParseHashV_def)
  ultimately show ?thesis using assms(2) by (simp add: interpret_Transaction_def interpret_RapidsPayment_def)
qed

end
