(* ===== verification/TxLogic.thy ===== *)
theory TxLogic
  imports MetaDex Governance Payload
begin

text \<open>
  The effects of token transactions, \<^verbatim>\<open>src/src/tokencore/tx.cpp\<close>: \<^verbatim>\<open>interpretPacket\<close> and the \<^verbatim>\<open>logicMath_*\<close> functions.

  A function takes the environment, the transaction object and the state and gives the return code, the transaction (whose amounts
  some functions change) and the new state; \<open>None\<close> means that an assertion failed, an exception was thrown or a loop does not return.
  The environment has what other parts of the program supply: the transaction a payment links to, as \<^verbatim>\<open>GetTransaction\<close>
  and \<^verbatim>\<open>ParseTransaction\<close> give it, the outputs of the paying transaction, the validity recorded for a transaction, the address codec, and the command line options.
  Calls that only write to the databases of trades, receipts and transactions are kept as lists.
\<close>

abbreviation PKT_ERROR :: int where "PKT_ERROR \<equiv> - 9000"
abbreviation PKT_ERROR_SP :: int where "PKT_ERROR_SP \<equiv> - 40000"
abbreviation PKT_ERROR_CROWD :: int where "PKT_ERROR_CROWD \<equiv> - 45000"
abbreviation PKT_ERROR_STO :: int where "PKT_ERROR_STO \<equiv> - 50000"
abbreviation PKT_ERROR_SEND :: int where "PKT_ERROR_SEND \<equiv> - 60000"
abbreviation PKT_ERROR_TRADEOFFER :: int where "PKT_ERROR_TRADEOFFER \<equiv> - 70000"
abbreviation PKT_ERROR_METADEX :: int where "PKT_ERROR_METADEX \<equiv> - 80000"
abbreviation PKT_ERROR_TOKENS :: int where "PKT_ERROR_TOKENS \<equiv> - 82000"
abbreviation PKT_ERROR_SEND_ALL :: int where "PKT_ERROR_SEND_ALL \<equiv> - 83000"
abbreviation PKT_ERROR_SEND_MANY :: int where "PKT_ERROR_SEND_MANY \<equiv> - 84000"
abbreviation MP_TX_NOT_FOUND :: int where "MP_TX_NOT_FOUND \<equiv> - 3331"
abbreviation MP_TX_IS_NOT_TOKEN_PROTOCOL :: int where "MP_TX_IS_NOT_TOKEN_PROTOCOL \<equiv> - 3336"
abbreviation FEATURE_METADEX :: nat where "FEATURE_METADEX \<equiv> 2"
abbreviation FEATURE_GRANTEFFECTS :: nat where "FEATURE_GRANTEFFECTS \<equiv> 4"
abbreviation FEATURE_SPCROWDCROSSOVER :: nat where "FEATURE_SPCROWDCROSSOVER \<equiv> 7"
abbreviation FEATURE_TRADEALLPAIRS :: nat where "FEATURE_TRADEALLPAIRS \<equiv> 8"
abbreviation FEATURE_FREEZENOTICE :: nat where "FEATURE_FREEZENOTICE \<equiv> 14"

record tx_env =
  linkedTransaction :: "nat \<Rightarrow> (bool \<times> int \<times> CMPTransaction) option" \<comment> \<open>confirmed, code of the parser, parsed transaction\<close>
  transactionOutputs :: "nat \<Rightarrow> (string option \<times> int) list option" \<comment> \<open>address and value\<close>
  getValidMPTX :: "nat \<Rightarrow> bool"
  hashToAddress :: "nat \<Rightarrow> string \<Rightarrow> string"
  validDestination :: "string \<Rightarrow> bool"
  allowActivation :: "string list"
  ignoreActivation :: "string list"
  allowDeactivation :: "string list"
  ignoreDeactivation :: "string list"
  allowAlert :: "string list"
  ignoreAlert :: "string list"
  isNonMainNet :: bool
  freezeEnd :: bool \<comment> \<open>the assertion of \<open>disableFreezing\<close> at the end of the set\<close>

record tx_state = mdex_state +
  governance :: CGovernance
  recordedSTOReceives :: "(string \<times> nat \<times> int \<times> property_id \<times> int) list"
  recordedNewTrades :: "(nat \<times> string \<times> property_id \<times> property_id \<times> int \<times> nat) list"
  recordedSendAlls :: "(nat \<times> nat \<times> property_id \<times> int) list"

type_synonym 's logic = "CMPTransaction \<Rightarrow> 's tx_state_scheme \<Rightarrow> (int \<times> CMPTransaction \<times> 's tx_state_scheme) option"

abbreviation reject :: "int \<Rightarrow> 's logic" where "reject rc t s \<equiv> Some (rc, t, s)"

definition allowed :: "'s tx_state_scheme \<Rightarrow> CMPTransaction \<Rightarrow> property_id \<Rightarrow> bool" where
  "allowed s t p = IsTransactionTypeAllowed (consensusParams s) (tx_block t) p (tx_type t) (tx_version t)"

text \<open>\<^verbatim>\<open>nValue <= 0 || MAX_INT_8_BYTES < nValue\<close>, for an unsigned number.\<close>

definition out_of_range :: "int \<Rightarrow> bool" where
  "out_of_range n \<longleftrightarrow> n \<le> 0 \<or> MAX_INT64 < n"

subsection \<open>Crowdsale participation\<close>

definition logicHelper_CrowdsaleParticipation :: "CMPTransaction \<Rightarrow> 's tx_state_scheme \<Rightarrow> (int \<times> 's tx_state_scheme) option" where
  "logicHelper_CrowdsaleParticipation t s =
     (case getCrowd s (tx_receiver t) of
        None \<Rightarrow> Some (PKT_ERROR_CROWD - 1, s)
      | Some crowd \<Rightarrow>
          if crowd_property_desired crowd \<noteq> tx_property t then Some (PKT_ERROR_CROWD - 2, s)
          else do {
            sp \<leftarrow> getSP (crowd_propertyId crowd) (pDbSpInfo s);
            let inflateAmount = \<not> isPropertyDivisible (tx_property t) (pDbSpInfo s);
            ((first, second), close_crowdsale) \<leftarrow> calculateFundraiser inflateAmount (s64 (nValue t)) (sp_early_bird sp) (sp_deadline sp)
              (tx_blockTime t) (sp_num_tokens sp) (sp_percentage sp) (getTotalTokens s (crowd_propertyId crowd)) False;
            let crowd' = insertDatabase (tx_txid t) [s64 (nValue t), tx_blockTime t, first, second]
              (incTokensIssuerCreated second (incTokensUserCreated first crowd));
            let s1 = s\<lparr>my_crowds := smap_upd (tx_receiver t) crowd' (my_crowds s)\<rparr>;
            s2 \<leftarrow> (if first > 0 then assert_update (tx_sender t) (crowd_propertyId crowd) first BALANCE s1 else Some s1);
            s3 \<leftarrow> (if second > 0 then assert_update (tx_receiver t) (crowd_propertyId crowd) second BALANCE s2 else Some s2);
            s4 \<leftarrow> NotifyTotalTokensChanged (crowd_propertyId crowd) (tx_block t) s3;
            s5 \<leftarrow> (if close_crowdsale then eraseMaxedCrowdsale (tx_receiver t) (tx_blockTime t) (tx_block t) s4 else Some s4);
            Some (if first = 0 \<and> second = 0 then PKT_ERROR_CROWD - 3 else 0, s5)
          })"

subsection \<open>Sends\<close>

definition logicMath_SimpleSend :: "'s logic" where
  "logicMath_SimpleSend t s =
     (if \<not> allowed s t (tx_property t) then reject (PKT_ERROR_SEND - 22) t s
      else if out_of_range (nValue t) then reject (PKT_ERROR_SEND - 23) t s
      else if \<not> IsPropertyIdValid (tx_property t) (pDbSpInfo s) then reject (PKT_ERROR_SEND - 24) t s
      else if GetTokenBalance s (tx_sender t) (tx_property t) BALANCE < s64 (nValue t) then reject (PKT_ERROR_SEND - 25) t s
      else do {
        s1 \<leftarrow> assert_update (tx_sender t) (tx_property t) (s64 (- nValue t)) BALANCE s;
        s2 \<leftarrow> assert_update (tx_receiver t) (tx_property t) (s64 (nValue t)) BALANCE s1;
        (_, s3) \<leftarrow> logicHelper_CrowdsaleParticipation t s2;
        Some (0, t, s3)
      })"

text \<open>The loop that pays the owners; the receivers are given from the last one.\<close>

fun pay_owners :: "CMPTransaction \<Rightarrow> (int \<times> string) list \<Rightarrow> int \<Rightarrow> 's tx_state_scheme \<Rightarrow> (int \<times> 's tx_state_scheme) option" where
  "pay_owners t [] sent_so_far s = Some (sent_so_far, s)"
| "pay_owners t ((will_really_receive, address) # receivers) sent_so_far s = do {
     s1 \<leftarrow> assert_update (tx_sender t) (tx_property t) (- will_really_receive) BALANCE s;
     s2 \<leftarrow> assert_update address (tx_property t) will_really_receive BALANCE s1;
     let s3 = s2\<lparr>recordedSTOReceives := recordedSTOReceives s2 @ [(address, tx_txid t, tx_block t, tx_property t, will_really_receive)]\<rparr>;
     pay_owners t receivers (s64 (sent_so_far + will_really_receive)) s3
   }"

definition logicMath_SendToOwners :: "'s logic" where
  "logicMath_SendToOwners t s =
     (if \<not> allowed s t (tx_property t) then reject (PKT_ERROR_STO - 22) t s
      else if out_of_range (nValue t) then reject (PKT_ERROR_STO - 23) t s
      else if \<not> IsPropertyIdValid (tx_property t) (pDbSpInfo s) then reject (PKT_ERROR_STO - 24) t s
      else if tx_version t > 0 \<and> \<not> IsPropertyIdValid (distribution_property t) (pDbSpInfo s) then reject (PKT_ERROR_STO - 24) t s
      else if GetTokenBalance s (tx_sender t) (tx_property t) BALANCE < s64 (nValue t) then reject (PKT_ERROR_STO - 25) t s
      else do {
        let distributeTo = (if tx_version t = 0 then tx_property t else distribution_property t);
        receiversSet \<leftarrow> STO_GetReceivers (tx_sender t) distributeTo (s64 (nValue t)) s;
        if length receiversSet = 0 then reject (PKT_ERROR_STO - 26) t s
        else do {
          (sent_so_far, s1) \<leftarrow> pay_owners t (rev receiversSet) 0 s;
          if sent_so_far \<noteq> s64 (nValue t) then None
          else do {
            s2 \<leftarrow> (if tx_version t = 0 then NotifyTotalTokensChanged TOKEN_PROPERTY_MSC (tx_block t) s1 else Some s1);
            Some (0, t, s2)
          }
        }
      })"

text \<open>
  The loop over the sender's properties. The iteration is over the properties the sender has at the start: transfers neither add nor remove
  properties of the sender. The cursor kept in the sender's record is not part of the result.
\<close>

fun send_all_loop :: "CMPTransaction \<Rightarrow> property_id list \<Rightarrow> nat \<Rightarrow> 's tx_state_scheme \<Rightarrow> (nat \<times> 's tx_state_scheme) option" where
  "send_all_loop t [] n s = Some (n, s)"
| "send_all_loop t (p # ps) n s =
     (if tx_ecosystem t = TOKEN_PROPERTY_MSC \<and> isTestEcosystemProperty p then send_all_loop t ps n s
      else if tx_ecosystem t = TOKEN_PROPERTY_TMSC \<and> isMainEcosystemProperty p then send_all_loop t ps n s
      else if isAddressFrozen s (tx_sender t) p then send_all_loop t ps n s
      else
        let moneyAvailable = GetTokenBalance s (tx_sender t) p BALANCE
        in if moneyAvailable > 0 then do {
             s1 \<leftarrow> assert_update (tx_sender t) p (- moneyAvailable) BALANCE s;
             s2 \<leftarrow> assert_update (tx_receiver t) p moneyAvailable BALANCE s1;
             send_all_loop t ps (n + 1) (s2\<lparr>recordedSendAlls := recordedSendAlls s2 @ [(tx_txid t, n + 1, p, moneyAvailable)]\<rparr>)
           } else send_all_loop t ps n s)"

definition logicMath_SendAll :: "'s logic" where
  "logicMath_SendAll t s =
     (if \<not> allowed s t (tx_ecosystem t) then reject (PKT_ERROR_SEND_ALL - 22) t s
      else case getTally s (tx_sender t) of
          None \<Rightarrow> reject (PKT_ERROR_SEND_ALL - 54) t s
        | Some tally \<Rightarrow> do {
            (numberOfPropertiesSent, s1) \<leftarrow> send_all_loop t (tally_ids tally) 0 s;
            if numberOfPropertiesSent = 0 then reject (PKT_ERROR_SEND_ALL - 55) t s1
            else Some (0, t\<lparr>nNewValue := int numberOfPropertiesSent\<rparr>, s1)
          })"

text \<open>The check of all outputs: the code of the first bad one, or the sum of the amounts and their number, which wrap.\<close>

fun stm_check :: "CMPTransaction \<Rightarrow> (nat \<times> int) list \<Rightarrow> int \<Rightarrow> nat \<Rightarrow> int + (int \<times> nat)" where
  "stm_check t [] totalAmount totalOutputs = Inr (totalAmount, totalOutputs)"
| "stm_check t ((out, amount) # entries) totalAmount totalOutputs =
     (case getValidStmAddressAt t out of
        None \<Rightarrow> Inl (PKT_ERROR_SEND_MANY - 26)
      | Some receiver \<Rightarrow>
          if receiver = [] then Inl (PKT_ERROR_SEND_MANY - 27)
          else stm_check t entries (u64 (totalAmount + amount)) ((totalOutputs + 1) mod 256))"

text \<open>The amounts are unsigned; \<^verbatim>\<open>update_tally_map\<close> takes signed ones.\<close>

fun stm_move :: "CMPTransaction \<Rightarrow> (nat \<times> int) list \<Rightarrow> 's tx_state_scheme \<Rightarrow> 's tx_state_scheme option" where
  "stm_move t [] s = Some s"
| "stm_move t ((out, amount) # entries) s = do {
     receiver \<leftarrow> getValidStmAddressAt t out;
     s1 \<leftarrow> assert_update (tx_sender t) (tx_property t) (s64 (- amount)) BALANCE s;
     s2 \<leftarrow> assert_update receiver (tx_property t) (s64 amount) BALANCE s1;
     stm_move t entries s2
   }"

definition logicMath_SendToMany :: "'s logic" where
  "logicMath_SendToMany t s =
     (if \<not> allowed s t (tx_property t) then reject (PKT_ERROR_SEND_MANY - 22) t s
      else if out_of_range (nValue t) then reject (PKT_ERROR_SEND_MANY - 23) t s
      else if \<not> IsPropertyIdValid (tx_property t) (pDbSpInfo s) then reject (PKT_ERROR_SEND_MANY - 24) t s
      else if GetTokenBalance s (tx_sender t) (tx_property t) BALANCE < s64 (nValue t) then reject (PKT_ERROR_SEND_MANY - 25) t s
      else case stm_check t (outputValuesForSTM t) 0 0 of
          Inl rc \<Rightarrow> reject rc t s
        | Inr (totalAmount, totalOutputs) \<Rightarrow>
            if totalAmount \<noteq> nValue t then reject (PKT_ERROR_SEND_MANY - 28) t s
            else if totalOutputs \<noteq> numberOfSTMReceivers t then reject (PKT_ERROR_SEND_MANY - 29) t s
            else do {
              s1 \<leftarrow> stm_move t (outputValuesForSTM t) s;
              Some (0, t, s1)
            })"

subsection \<open>The exchange of tokens for RPD\<close>

definition amended :: "int option \<Rightarrow> CMPTransaction \<Rightarrow> CMPTransaction" where
  "amended nAmended t = (case nAmended of None \<Rightarrow> t | Some n \<Rightarrow> t\<lparr>nNewValue := u64 n\<rparr>)"

definition offer_create :: "'s logic" where
  "offer_create t s = do {
     (rc, s', nAmended) \<leftarrow> DEx_offerCreate (tx_sender t) (tx_property t) (s64 (nValue t)) (tx_block t) (s64 (amount_desired t))
       (s64 (tx_min_fee t)) (blocktimelimit t) (tx_txid t) s;
     Some (rc, amended nAmended t, s')
   }"

definition offer_update :: "'s logic" where
  "offer_update t s = do {
     (rc, s', nAmended) \<leftarrow> DEx_offerUpdate (tx_sender t) (tx_property t) (s64 (nValue t)) (tx_block t) (s64 (amount_desired t))
       (s64 (tx_min_fee t)) (blocktimelimit t) (tx_txid t) s;
     Some (rc, amended nAmended t, s')
   }"

definition offer_destroy :: "'s logic" where
  "offer_destroy t s = do {
     (rc, s') \<leftarrow> DEx_offerDestroy (tx_sender t) (tx_property t) s;
     Some (rc, t, s')
   }"

definition logicMath_TradeOffer :: "'s logic" where
  "logicMath_TradeOffer t s =
     (if \<not> allowed s t (tx_property t) then reject (PKT_ERROR_TRADEOFFER - 22) t s
      else if MAX_INT64 < nValue t then reject (PKT_ERROR_TRADEOFFER - 23) t s
      else
        let exists = DEx_offerExists s (tx_sender t) (tx_property t)
        in if tx_version t = 0 then
             (if nValue t \<noteq> 0 then (if \<not> exists then offer_create t s else offer_update t s)
              else if exists then offer_destroy t s else reject (PKT_ERROR_TRADEOFFER - 49) t s)
           else if tx_version t = 1 then
             (if exists \<and> tx_subaction t \<noteq> 3 \<and> tx_subaction t \<noteq> 2 then reject (PKT_ERROR_TRADEOFFER - 48) t s
              else if \<not> exists \<and> tx_subaction t \<noteq> 1 then reject (PKT_ERROR_TRADEOFFER - 49) t s
              else if tx_subaction t = 1 then offer_create t s
              else if tx_subaction t = 2 then offer_update t s
              else if tx_subaction t = 3 then offer_destroy t s
              else reject (PKT_ERROR - 999) t s)
           else reject (PKT_ERROR - 500) t s)"

definition logicMath_AcceptOffer_RPD :: "'s logic" where
  "logicMath_AcceptOffer_RPD t s =
     (if \<not> allowed s t (tx_property t) then reject (DEX_ERROR_ACCEPT - 22) t s
      else if out_of_range (nValue t) then reject (DEX_ERROR_ACCEPT - 23) t s
      else do {
        (rc, s', nAmended) \<leftarrow> DEx_acceptCreate (tx_sender t) (tx_receiver t) (tx_property t) (s64 (nValue t)) (tx_block t) (s64 (tx_fee_paid t)) s;
        Some (rc, amended nAmended t, s')
      })"

subsection \<open>The exchange of token pairs\<close>

text \<open>The checks shared by the functions for trades and cancellations; \<open>None\<close> when they pass.\<close>

definition pair_refused :: "'s tx_state_scheme \<Rightarrow> CMPTransaction \<Rightarrow> int option" where
  "pair_refused s t =
     (if \<not> allowed s t (tx_property t) then Some (PKT_ERROR_METADEX - 22)
      else if tx_property t = desired_property t then Some (PKT_ERROR_METADEX - 29)
      else if isTestEcosystemProperty (tx_property t) \<noteq> isTestEcosystemProperty (desired_property t) then Some (PKT_ERROR_METADEX - 30)
      else if \<not> IsPropertyIdValid (tx_property t) (pDbSpInfo s) then Some (PKT_ERROR_METADEX - 31)
      else if \<not> IsPropertyIdValid (desired_property t) (pDbSpInfo s) then Some (PKT_ERROR_METADEX - 32)
      else None)"

definition amounts_refused :: "CMPTransaction \<Rightarrow> int option" where
  "amounts_refused t =
     (if out_of_range (nNewValue t) then Some (PKT_ERROR_METADEX - 33)
      else if out_of_range (desired_value t) then Some (PKT_ERROR_METADEX - 34) else None)"

definition logicMath_MetaDExTrade :: "'s logic" where
  "logicMath_MetaDExTrade t s =
     (case pair_refused s t of
        Some rc \<Rightarrow> reject rc t s
      | None \<Rightarrow> (case amounts_refused t of
          Some rc \<Rightarrow> reject rc t s
        | None \<Rightarrow>
            if \<not> IsFeatureActivated (consensusParams s) FEATURE_TRADEALLPAIRS (tx_block t)
               \<and> tx_property t \<noteq> TOKEN_PROPERTY_MSC \<and> desired_property t \<noteq> TOKEN_PROPERTY_MSC
               \<and> tx_property t \<noteq> TOKEN_PROPERTY_TMSC \<and> desired_property t \<noteq> TOKEN_PROPERTY_TMSC
            then reject (PKT_ERROR_METADEX - 35) t s
            else if GetTokenBalance s (tx_sender t) (tx_property t) BALANCE < s64 (nNewValue t) then reject (PKT_ERROR_METADEX - 25) t s
            else do {
              let s1 = s\<lparr>recordedNewTrades := recordedNewTrades s @ [(tx_txid t, tx_sender t, tx_property t, desired_property t, tx_block t, tx_idx t)]\<rparr>;
              (rc, s2) \<leftarrow> MetaDEx_ADD (tx_sender t) (tx_property t) (s64 (nNewValue t)) (tx_block t) (desired_property t) (s64 (desired_value t))
                (tx_txid t) (tx_idx t) s1;
              Some (rc, t, s2)
            }))"

definition logicMath_MetaDExCancelPrice :: "'s logic" where
  "logicMath_MetaDExCancelPrice t s =
     (case pair_refused s t of
        Some rc \<Rightarrow> reject rc t s
      | None \<Rightarrow> (case amounts_refused t of
          Some rc \<Rightarrow> reject rc t s
        | None \<Rightarrow> do {
            (rc, s1) \<leftarrow> MetaDEx_CANCEL_AT_PRICE (tx_txid t) (tx_block t) (tx_sender t) (tx_property t) (s64 (nNewValue t)) (desired_property t)
              (s64 (desired_value t)) s;
            Some (rc, t, s1)
          }))"

definition logicMath_MetaDExCancelPair :: "'s logic" where
  "logicMath_MetaDExCancelPair t s =
     (case pair_refused s t of
        Some rc \<Rightarrow> reject rc t s
      | None \<Rightarrow> do {
          (rc, s1) \<leftarrow> MetaDEx_CANCEL_ALL_FOR_PAIR (tx_txid t) (tx_block t) (tx_sender t) (tx_property t) (desired_property t) s;
          Some (rc, t, s1)
        })"

definition logicMath_MetaDExCancelEcosystem :: "'s logic" where
  "logicMath_MetaDExCancelEcosystem t s =
     (if \<not> allowed s t (tx_ecosystem t) then reject (PKT_ERROR_METADEX - 22) t s
      else if TOKEN_PROPERTY_MSC \<noteq> tx_ecosystem t \<and> TOKEN_PROPERTY_TMSC \<noteq> tx_ecosystem t then reject (PKT_ERROR_METADEX - 21) t s
      else do {
        (rc, s1) \<leftarrow> MetaDEx_CANCEL_EVERYTHING (tx_txid t) (tx_block t) (tx_sender t) (tx_ecosystem t) s;
        Some (rc, t, s1)
      })"

subsection \<open>New properties\<close>

text \<open>The fields of an entry that all kinds of issuance set.\<close>

definition issued_entry :: "CMPTransaction \<Rightarrow> nat \<Rightarrow> Entry" where
  "issued_entry t blockHash =
     (updateIssuer (tx_block t) (int (tx_idx t)) (tx_sender t) (new_entry\<lparr>sp_issuer := tx_sender t\<rparr>))
       \<lparr>sp_txid := tx_txid t, sp_prop_type := tx_prop_type t, sp_category := tx_category t, sp_subcategory := tx_subcategory t,
        sp_name := tx_name t, sp_ticker := tx_ticker t, sp_url := tx_url t, sp_data := tx_data t, sp_creation_block := blockHash,
        sp_update_block := blockHash\<rparr>"

text \<open>A sub-token needs a root token whose issuer is the sender.\<close>

definition sub_refused :: "'s tx_state_scheme \<Rightarrow> CMPTransaction \<Rightarrow> bool" where
  "sub_refused s t \<longleftrightarrow>
     (let result = SplitSubTicker (tx_ticker t)
      in length result \<noteq> 2
         \<or> (let rootPropertyId = findSPByTicker (result ! 0) (pDbSpInfo s)
            in rootPropertyId = 0
               \<or> (case getSP rootPropertyId (pDbSpInfo s) of Some rootSP \<Rightarrow> sp_issuer rootSP | None \<Rightarrow> []) \<noteq> tx_sender t))"

definition royalties_refused :: "tx_env \<Rightarrow> 's tx_state_scheme \<Rightarrow> CMPTransaction \<Rightarrow> bool \<Rightarrow> int option" where
  "royalties_refused env s t isNFT =
     (if royaltiesPercentage t > 99 then Some (PKT_ERROR_SP - 78)
      else if \<not> isNFT \<and> (royaltiesReceiver t \<noteq> [] \<or> royaltiesPercentage t > 0) then Some (PKT_ERROR_SP - 79)
      else if royaltiesReceiver t = [] \<and> royaltiesPercentage t > 0 then Some (PKT_ERROR_SP - 80)
      else if royaltiesReceiver t \<noteq> [] \<and> royaltiesPercentage t = 0 then Some (PKT_ERROR_SP - 81)
      else if royaltiesReceiver t \<noteq> [] \<and> IsUsernameValid (royaltiesReceiver t) \<and> findSPByTicker (royaltiesReceiver t) (pDbSpInfo s) = 0
        then Some (PKT_ERROR_SP - 82)
      else if royaltiesReceiver t \<noteq> [] \<and> \<not> IsUsernameValid (royaltiesReceiver t) \<and> \<not> validDestination env (royaltiesReceiver t)
        then Some (PKT_ERROR_SP - 83)
      else None)"

definition logicMath_CreatePropertyFixed :: "tx_env \<Rightarrow> 's logic" where
  "logicMath_CreatePropertyFixed env t s =
     (case chainActive s (tx_block t) of
        None \<Rightarrow> reject (PKT_ERROR_SP - 20) t s
      | Some blockHash \<Rightarrow>
          if TOKEN_PROPERTY_MSC \<noteq> tx_ecosystem t \<and> TOKEN_PROPERTY_TMSC \<noteq> tx_ecosystem t then reject (PKT_ERROR_SP - 21) t s
          else if \<not> allowed s t (tx_ecosystem t) then reject (PKT_ERROR_SP - 22) t s
          else if out_of_range (nValue t) then reject (PKT_ERROR_SP - 23) t s
          else if tx_prop_type t \<noteq> 1 \<and> tx_prop_type t \<noteq> 2 then reject (PKT_ERROR_SP - 36) t s
          else if tx_name t = [] then reject (PKT_ERROR_SP - 37) t s
          else if tx_ticker t = [] then reject (PKT_ERROR_SP - 51) t s
          else if findSPByTicker (tx_ticker t) (pDbSpInfo s) > 0 then reject (PKT_ERROR_SP - 71) t s
          else
            let isNFT = (tx_prop_type t = 1 \<and> nValue t = 1);
                isToken = IsTokenTickerValid (tx_ticker t);
                isUsername = IsUsernameValid (tx_ticker t);
                isSub = IsSubTickerValid (tx_ticker t);
                nIssuanceCost = GetCost (governance s)
                  (if isUsername then GOVERNANCE_COST_USERNAME else if isSub then GOVERNANCE_COST_SUB else GOVERNANCE_COST_FIXED)
            in if \<not> isToken \<and> \<not> isUsername \<and> \<not> isSub then reject (PKT_ERROR_SP - 72) t s
               else if isSub \<and> sub_refused s t then reject (PKT_ERROR_SP - 72) t s
               else if (isUsername \<or> isSub) \<and> \<not> isNFT then reject (PKT_ERROR_SP - 23) t s
               else if nDonation t < nIssuanceCost then reject (PKT_ERROR_SP - 73) t s
               else if \<not> IsTokenIPFSValid (tx_data t) then reject (PKT_ERROR_SP - 74) t s
               else (case royalties_refused env s t isNFT of
                   Some rc \<Rightarrow> reject rc t s
                 | None \<Rightarrow> do {
                     let newSP = (issued_entry t blockHash)\<lparr>sp_num_tokens := s64 (nValue t), sp_fixed := True,
                       sp_royalties_percentage := royaltiesPercentage t, sp_royalties_receiver := royaltiesReceiver t\<rparr>;
                     let (propertyId, db) = putSP (tx_ecosystem t) newSP (pDbSpInfo s);
                     if \<not> propertyId > 0 then None
                     else do {
                       s1 \<leftarrow> assert_update (tx_sender t) propertyId (s64 (nValue t)) BALANCE (s\<lparr>pDbSpInfo := db\<rparr>);
                       s2 \<leftarrow> NotifyTotalTokensChanged propertyId (tx_block t) s1;
                       Some (0, t, s2)
                     }
                   }))"

definition logicMath_CreatePropertyVariable :: "'s logic" where
  "logicMath_CreatePropertyVariable t s =
     (case chainActive s (tx_block t) of
        None \<Rightarrow> reject (PKT_ERROR_SP - 20) t s
      | Some blockHash \<Rightarrow>
          if TOKEN_PROPERTY_MSC \<noteq> tx_ecosystem t \<and> TOKEN_PROPERTY_TMSC \<noteq> tx_ecosystem t then reject (PKT_ERROR_SP - 21) t s
          else if IsFeatureActivated (consensusParams s) FEATURE_SPCROWDCROSSOVER (tx_block t)
            \<and> isTestEcosystemProperty (tx_ecosystem t) \<noteq> isTestEcosystemProperty (tx_property t) then reject (PKT_ERROR_SP - 50) t s
          else if \<not> allowed s t (tx_ecosystem t) then reject (PKT_ERROR_SP - 22) t s
          else if out_of_range (nValue t) then reject (PKT_ERROR_SP - 23) t s
          else if tx_version t < 2 \<and> \<not> IsPropertyIdValid (tx_property t) (pDbSpInfo s) then reject (PKT_ERROR_SP - 24) t s
          else if tx_prop_type t \<noteq> 1 \<and> tx_prop_type t \<noteq> 2 then reject (PKT_ERROR_SP - 36) t s
          else if tx_name t = [] then reject (PKT_ERROR_SP - 37) t s
          else if tx_ticker t = [] then reject (PKT_ERROR_SP - 51) t s
          else if tx_deadline t = 0 \<or> s64 (tx_deadline t) < tx_blockTime t then reject (PKT_ERROR_SP - 38) t s
          else if getCrowd s (tx_sender t) \<noteq> None then reject (PKT_ERROR_SP - 39) t s
          else if findSPByTicker (tx_ticker t) (pDbSpInfo s) > 0 then reject (PKT_ERROR_SP - 71) t s
          else if \<not> IsTokenTickerValid (tx_ticker t) then reject (PKT_ERROR_SP - 72) t s
          else if nDonation t < GetCost (governance s) GOVERNANCE_COST_VARIABLE then reject (PKT_ERROR_SP - 73) t s
          else if \<not> IsTokenIPFSValid (tx_data t) then reject (PKT_ERROR_SP - 74) t s
          else
            let newSP = (issued_entry t blockHash)\<lparr>sp_num_tokens := s64 (nValue t), sp_fixed := False, sp_property_desired := tx_property t,
                  sp_deadline := s64 (tx_deadline t), sp_early_bird := tx_early_bird t, sp_percentage := tx_percentage t\<rparr>;
                (propertyId, db) = putSP (tx_ecosystem t) newSP (pDbSpInfo s)
            in if \<not> propertyId > 0 then None
               else Some (0, t, s\<lparr>pDbSpInfo := db, my_crowds := smap_upd (tx_sender t)
                 (new_crowd propertyId (s64 (nValue t)) (tx_property t) (s64 (tx_deadline t)) (tx_early_bird t) (tx_percentage t) 0 0) (my_crowds s)\<rparr>))"

definition logicMath_CloseCrowdsale :: "'s logic" where
  "logicMath_CloseCrowdsale t s =
     (case chainActive s (tx_block t) of
        None \<Rightarrow> reject (PKT_ERROR_SP - 20) t s
      | Some blockHash \<Rightarrow>
          if \<not> allowed s t (tx_property t) then reject (PKT_ERROR_SP - 22) t s
          else if \<not> IsPropertyIdValid (tx_property t) (pDbSpInfo s) then reject (PKT_ERROR_SP - 24) t s
          else (case map_of (my_crowds s) (tx_sender t) of
              None \<Rightarrow> reject (PKT_ERROR_SP - 40) t s
            | Some crowd \<Rightarrow>
                if tx_property t \<noteq> crowd_propertyId crowd then reject (PKT_ERROR_SP - 41) t s
                else do {
                  sp \<leftarrow> getSP (tx_property t) (pDbSpInfo s);
                  missedTokens \<leftarrow> GetMissedIssuerBonus s sp crowd;
                  let sp' = sp\<lparr>sp_historicalData := crowd_txFundraiserData crowd, sp_update_block := blockHash, sp_close_early := True,
                    sp_timeclosed := tx_blockTime t, sp_txid_close := tx_txid t, sp_missedTokens := missedTokens\<rparr>;
                  let (ok, db) = updateSP (tx_property t) sp' (pDbSpInfo s);
                  s1 \<leftarrow> (if ok then Some (s\<lparr>pDbSpInfo := db\<rparr>) else None);
                  s2 \<leftarrow> (if missedTokens > 0 then assert_update (sp_issuer sp') (tx_property t) missedTokens BALANCE s1 else Some s1);
                  Some (0, t, s2\<lparr>my_crowds := smap_del (tx_sender t) (my_crowds s2)\<rparr>)
                }))"

definition logicMath_CreatePropertyManaged :: "'s logic" where
  "logicMath_CreatePropertyManaged t s =
     (case chainActive s (tx_block t) of
        None \<Rightarrow> reject (PKT_ERROR_SP - 20) t s
      | Some blockHash \<Rightarrow>
          if TOKEN_PROPERTY_MSC \<noteq> tx_ecosystem t \<and> TOKEN_PROPERTY_TMSC \<noteq> tx_ecosystem t then reject (PKT_ERROR_SP - 21) t s
          else if \<not> allowed s t (tx_ecosystem t) then reject (PKT_ERROR_SP - 22) t s
          else if tx_prop_type t \<noteq> 1 \<and> tx_prop_type t \<noteq> 2 then reject (PKT_ERROR_SP - 36) t s
          else if tx_name t = [] then reject (PKT_ERROR_SP - 37) t s
          else if tx_ticker t = [] then reject (PKT_ERROR_SP - 51) t s
          else if findSPByTicker (tx_ticker t) (pDbSpInfo s) > 0 then reject (PKT_ERROR_SP - 71) t s
          else if \<not> IsTokenTickerValid (tx_ticker t) then reject (PKT_ERROR_SP - 72) t s
          else if nDonation t < GetCost (governance s) GOVERNANCE_COST_MANAGED then reject (PKT_ERROR_SP - 73) t s
          else if \<not> IsTokenIPFSValid (tx_data t) then reject (PKT_ERROR_SP - 74) t s
          else
            let newSP = (issued_entry t blockHash)\<lparr>sp_fixed := False, sp_manual := True\<rparr>;
                (propertyId, db) = putSP (tx_ecosystem t) newSP (pDbSpInfo s)
            in if \<not> propertyId > 0 then None else Some (0, t, s\<lparr>pDbSpInfo := db\<rparr>))"

subsection \<open>Managed properties\<close>

text \<open>\<^verbatim>\<open>std::map::insert\<close> keeps an existing entry.\<close>

definition historical_insert :: "nat \<Rightarrow> int list \<Rightarrow> Entry \<Rightarrow> Entry" where
  "historical_insert txid dataPt sp =
     (case map_of (sp_historicalData sp) txid of
        Some _ \<Rightarrow> sp
      | None \<Rightarrow> sp\<lparr>sp_historicalData := smap_upd txid dataPt (sp_historicalData sp)\<rparr>)"

definition assert_updateSP :: "property_id \<Rightarrow> Entry \<Rightarrow> 's tx_state_scheme \<Rightarrow> 's tx_state_scheme option" where
  "assert_updateSP p sp s = (let (ok, db) = updateSP p sp (pDbSpInfo s) in if ok then Some (s\<lparr>pDbSpInfo := db\<rparr>) else None)"

definition logicMath_GrantTokens :: "'s logic" where
  "logicMath_GrantTokens t s =
     (case chainActive s (tx_block t) of
        None \<Rightarrow> reject (PKT_ERROR_SP - 20) t s
      | Some blockHash \<Rightarrow>
          if \<not> allowed s t (tx_property t) then reject (PKT_ERROR_TOKENS - 22) t s
          else if out_of_range (nValue t) then reject (PKT_ERROR_TOKENS - 23) t s
          else if \<not> IsPropertyIdValid (tx_property t) (pDbSpInfo s) then reject (PKT_ERROR_TOKENS - 24) t s
          else do {
            sp \<leftarrow> getSP (tx_property t) (pDbSpInfo s);
            if \<not> sp_manual sp then reject (PKT_ERROR_TOKENS - 42) t s
            else if tx_sender t \<noteq> getIssuer sp (tx_block t) then reject (PKT_ERROR_TOKENS - 43) t s
            else if nValue t > u64 (MAX_INT64 - getTotalTokens s (tx_property t)) then reject (PKT_ERROR_TOKENS - 44) t s
            else do {
              let sp' = (historical_insert (tx_txid t) [s64 (nValue t), 0] sp)\<lparr>sp_update_block := blockHash\<rparr>;
              s1 \<leftarrow> assert_updateSP (tx_property t) sp' s;
              s2 \<leftarrow> assert_update (tx_receiver t) (tx_property t) (s64 (nValue t)) BALANCE s1;
              s3 \<leftarrow> (if \<not> IsFeatureActivated (consensusParams s) FEATURE_GRANTEFFECTS (tx_block t)
                then map_option snd (logicHelper_CrowdsaleParticipation t s2) else Some s2);
              s4 \<leftarrow> NotifyTotalTokensChanged (tx_property t) (tx_block t) s3;
              Some (0, t, s4)
            }
          })"

definition logicMath_RevokeTokens :: "'s logic" where
  "logicMath_RevokeTokens t s =
     (case chainActive s (tx_block t) of
        None \<Rightarrow> reject (PKT_ERROR_TOKENS - 20) t s
      | Some blockHash \<Rightarrow>
          if \<not> allowed s t (tx_property t) then reject (PKT_ERROR_TOKENS - 22) t s
          else if out_of_range (nValue t) then reject (PKT_ERROR_TOKENS - 23) t s
          else if \<not> IsPropertyIdValid (tx_property t) (pDbSpInfo s) then reject (PKT_ERROR_TOKENS - 24) t s
          else do {
            sp \<leftarrow> getSP (tx_property t) (pDbSpInfo s);
            if \<not> sp_manual sp then reject (PKT_ERROR_TOKENS - 42) t s
            else if GetTokenBalance s (tx_sender t) (tx_property t) BALANCE < s64 (nValue t) then reject (PKT_ERROR_TOKENS - 25) t s
            else do {
              let sp' = (historical_insert (tx_txid t) [0, s64 (nValue t)] sp)\<lparr>sp_update_block := blockHash\<rparr>;
              s1 \<leftarrow> assert_update (tx_sender t) (tx_property t) (s64 (- nValue t)) BALANCE s;
              s2 \<leftarrow> assert_updateSP (tx_property t) sp' s1;
              s3 \<leftarrow> NotifyTotalTokensChanged (tx_property t) (tx_block t) s2;
              Some (0, t, s3)
            }
          })"

definition logicMath_ChangeIssuer :: "'s logic" where
  "logicMath_ChangeIssuer t s =
     (case chainActive s (tx_block t) of
        None \<Rightarrow> reject (PKT_ERROR_TOKENS - 20) t s
      | Some blockHash \<Rightarrow>
          if \<not> allowed s t (tx_property t) then reject (PKT_ERROR_TOKENS - 22) t s
          else if \<not> IsPropertyIdValid (tx_property t) (pDbSpInfo s) then reject (PKT_ERROR_TOKENS - 24) t s
          else do {
            sp \<leftarrow> getSP (tx_property t) (pDbSpInfo s);
            if tx_sender t \<noteq> getIssuer sp (tx_block t) then reject (PKT_ERROR_TOKENS - 43) t s
            else if getCrowd s (tx_sender t) \<noteq> None then reject (PKT_ERROR_TOKENS - 39) t s
            else if tx_receiver t = [] then reject (PKT_ERROR_TOKENS - 45) t s
            else if getCrowd s (tx_receiver t) \<noteq> None then reject (PKT_ERROR_TOKENS - 46) t s
            else do {
              let sp' = (updateIssuer (tx_block t) (int (tx_idx t)) (tx_receiver t) sp)\<lparr>sp_issuer := tx_receiver t, sp_update_block := blockHash\<rparr>;
              s1 \<leftarrow> assert_updateSP (tx_property t) sp' s;
              Some (0, t, s1)
            }
          })"

subsection \<open>Freezing\<close>

text \<open>The checks shared by the four functions; a code, or the entry of the property.\<close>

definition freezer_checked :: "CMPTransaction \<Rightarrow> 's tx_state_scheme \<Rightarrow> (int + Entry) option" where
  "freezer_checked t s =
     (case chainActive s (tx_block t) of
        None \<Rightarrow> Some (Inl (PKT_ERROR_TOKENS - 20))
      | Some blockHash \<Rightarrow>
          if \<not> allowed s t (tx_property t) then Some (Inl (PKT_ERROR_TOKENS - 22))
          else if \<not> IsPropertyIdValid (tx_property t) (pDbSpInfo s) then Some (Inl (PKT_ERROR_TOKENS - 24))
          else do {
            sp \<leftarrow> getSP (tx_property t) (pDbSpInfo s);
            if \<not> sp_manual sp then Some (Inl (PKT_ERROR_TOKENS - 42))
            else if tx_sender t \<noteq> getIssuer sp (tx_block t) then Some (Inl (PKT_ERROR_TOKENS - 43))
            else Some (Inr sp)
          })"

definition logicMath_EnableFreezing :: "'s logic" where
  "logicMath_EnableFreezing t s = do {
     r \<leftarrow> freezer_checked t s;
     case r of
       Inl rc \<Rightarrow> reject rc t s
     | Inr sp \<Rightarrow>
         if isFreezingEnabled s (tx_property t) (tx_block t) then reject (PKT_ERROR_TOKENS - 49) t s
         else do {
           let liveBlock = (if \<not> IsFeatureActivated (consensusParams s) FEATURE_FREEZENOTICE (tx_block t) then tx_block t
             else TOKEN_FREEZE_WAIT_PERIOD (consensusParams s) + tx_block t);
           s1 \<leftarrow> enableFreezing (tx_property t) liveBlock s;
           Some (0, t, s1)
         }
   }"

definition logicMath_DisableFreezing :: "tx_env \<Rightarrow> 's logic" where
  "logicMath_DisableFreezing env t s = do {
     r \<leftarrow> freezer_checked t s;
     case r of
       Inl rc \<Rightarrow> reject rc t s
     | Inr sp \<Rightarrow>
         if \<not> isFreezingEnabled s (tx_property t) (tx_block t) then reject (PKT_ERROR_TOKENS - 47) t s
         else do {
           s1 \<leftarrow> disableFreezing (freezeEnd env) (tx_property t) s;
           Some (0, t, s1)
         }
   }"

definition logicMath_FreezeTokens :: "'s logic" where
  "logicMath_FreezeTokens t s = do {
     r \<leftarrow> freezer_checked t s;
     case r of
       Inl rc \<Rightarrow> reject rc t s
     | Inr sp \<Rightarrow>
         if \<not> isFreezingEnabled s (tx_property t) (tx_block t) then reject (PKT_ERROR_TOKENS - 47) t s
         else if isAddressFrozen s (tx_receiver t) (tx_property t) then reject (PKT_ERROR_TOKENS - 50) t s
         else do {
           s1 \<leftarrow> freezeAddress (tx_receiver t) (tx_property t) s;
           Some (0, t, s1)
         }
   }"

definition logicMath_UnfreezeTokens :: "'s logic" where
  "logicMath_UnfreezeTokens t s = do {
     r \<leftarrow> freezer_checked t s;
     case r of
       Inl rc \<Rightarrow> reject rc t s
     | Inr sp \<Rightarrow>
         if \<not> isFreezingEnabled s (tx_property t) (tx_block t) then reject (PKT_ERROR_TOKENS - 47) t s
         else if \<not> isAddressFrozen s (tx_receiver t) (tx_property t) then reject (PKT_ERROR_TOKENS - 48) t s
         else do {
           s1 \<leftarrow> unfreezeAddress (tx_receiver t) (tx_property t) s;
           Some (0, t, s1)
         }
   }"

subsection \<open>Features and alerts\<close>

definition logicMath_Deactivation :: "tx_env \<Rightarrow> 's logic" where
  "logicMath_Deactivation env t s =
     (if \<not> allowed s t (tx_property t) then reject (PKT_ERROR - 22) t s
      else if \<not> CheckDeactivationAuthorization (allowDeactivation env) (ignoreDeactivation env) (tx_sender t) then reject (PKT_ERROR - 51) t s
      else
        let (DeactivationSuccess, s1) = DeactivateFeature (feature_id t) (tx_block t) s
        in if \<not> DeactivationSuccess then reject (PKT_ERROR - 54) t s1
           else do {
             s2 \<leftarrow> (if feature_id t = FEATURE_METADEX then map_option snd (MetaDEx_SHUTDOWN s1) else Some s1);
             s3 \<leftarrow> (if feature_id t = FEATURE_TRADEALLPAIRS then map_option snd (MetaDEx_SHUTDOWN_ALLPAIR s2) else Some s2);
             Some (0, t, s3)
           })"

definition logicMath_Activation :: "tx_env \<Rightarrow> 's logic" where
  "logicMath_Activation env t s =
     (if \<not> allowed s t (tx_property t) then reject (PKT_ERROR - 22) t s
      else if \<not> CheckActivationAuthorization (allowActivation env) (ignoreActivation env) (tx_sender t) then reject (PKT_ERROR - 51) t s
      else
        let (activationSuccess, s1) = ActivateFeature (feature_id t) (int (activation_block t)) (int (min_client_version t)) (tx_block t) s
        in if \<not> activationSuccess then reject (PKT_ERROR - 54) t s1 else Some (0, t, s1))"

text \<open>
  A forced upgrade stops the node (\<^verbatim>\<open>AbortNode\<close>) unless that is overridden. The removal of the directory of state files before it, and the command run by
  \<^verbatim>\<open>AlertNotify\<close>, act on files and processes outside this state and are left out.
\<close>

definition logicMath_Alert :: "tx_env \<Rightarrow> 's logic" where
  "logicMath_Alert env t s =
     (if \<not> allowed s t (tx_property t) then reject (PKT_ERROR - 22) t s
      else if \<not> CheckAlertAuthorization (allowAlert env) (ignoreAlert env) (tx_sender t) then reject (PKT_ERROR - 51) t s
      else
        let s1 = (if tx_alert_type t = 3 \<and> TOKENCORE_VERSION < int (tx_alert_expiry t)
              \<and> (tx_sender t = ''34kwkVRSvFVEoUwcQSgpQ4ZUasuZ54DJLD'' \<or> isNonMainNet env) \<and> \<not> overrideforcedshutdown s
            then s\<lparr>shutdownRequested := True\<rparr> else s);
            s2 = (if tx_alert_type t = 65535 then DeleteAlerts (tx_sender t) s1
              else AddAlert (tx_sender t) (tx_alert_type t) (int (tx_alert_expiry t)) (tx_alert_text t) s1)
        in Some (0, t, s2))"

subsection \<open>Payments in RPD\<close>

definition GetRapidsPaymentAmount :: "tx_env \<Rightarrow> nat \<Rightarrow> string \<Rightarrow> int" where
  "GetRapidsPaymentAmount env txid recipient =
     (case transactionOutputs env txid of
        None \<Rightarrow> 0
      | Some outs \<Rightarrow> fold (\<lambda>(dest, v) totalSatoshis. if dest = Some recipient then s64 (totalSatoshis + v) else totalSatoshis) outs 0)"

definition logicMath_RapidsPayment :: "tx_env \<Rightarrow> 's logic" where
  "logicMath_RapidsPayment env t s =
     (case chainActive s (tx_block t) of
        None \<Rightarrow> reject (PKT_ERROR_TOKENS - 20) t s
      | Some blockHash \<Rightarrow>
          if \<not> allowed s t (tx_property t) then reject (PKT_ERROR_TOKENS - 22) t s
          else (case linkedTransaction env (linked_txid t) of
              None \<Rightarrow> reject MP_TX_NOT_FOUND t s
            | Some (confirmed, parseRC, mp_obj0) \<Rightarrow>
                if \<not> confirmed then reject MP_TX_NOT_FOUND t s
                else if parseRC < 0 then reject MP_TX_IS_NOT_TOKEN_PROTOCOL t s
                else do {
                  (parsed, mp_obj) \<leftarrow> interpret_Transaction (hashToAddress env) (validDestination env) mp_obj0;
                  if \<not> parsed then reject MP_TX_IS_NOT_TOKEN_PROTOCOL t s
                  else if \<not> getValidMPTX env (linked_txid t) then reject (MP_TX_IS_NOT_TOKEN_PROTOCOL - 101) t s
                  else if \<not> IsRapidsPaymentAllowed (tx_type mp_obj) (tx_version mp_obj) then reject (PKT_ERROR_TOKENS - 61) t s
                  else do {
                    let t1 = t\<lparr>nValue := u64 (GetRapidsPaymentAmount env (tx_txid t) (tx_sender mp_obj))\<rparr>;
                    if nValue t1 = 0 then reject (PKT_ERROR_TOKENS - 62) t1 s
                    else if tx_type mp_obj = 51 then
                      (case getCrowd s (tx_receiver t1) of
                         None \<Rightarrow> reject (PKT_ERROR_TOKENS - 47) t1 s
                       | Some crowd \<Rightarrow>
                           if findSPByTX (linked_txid t1) (pDbSpInfo s) \<noteq> crowd_propertyId crowd then reject (PKT_ERROR_TOKENS - 48) t1 s
                           else do {
                             (_, s1) \<leftarrow> logicHelper_CrowdsaleParticipation t1 s;
                             Some (0, t1, s1)
                           })
                    else Some (0, t1, s)
                  }
                }))"

subsection \<open>Interpretation of a packet\<close>

definition run_logic :: "tx_env \<Rightarrow> 's logic" where
  "run_logic env t s =
     (if tx_type t = 0 then logicMath_SimpleSend t s
      else if tx_type t = 5 then logicMath_SendToMany t s
      else if tx_type t = 3 then logicMath_SendToOwners t s
      else if tx_type t = 4 then logicMath_SendAll t s
      else if tx_type t = 20 then logicMath_TradeOffer t s
      else if tx_type t = 22 then logicMath_AcceptOffer_RPD t s
      else if tx_type t = 25 then logicMath_MetaDExTrade t s
      else if tx_type t = 26 then logicMath_MetaDExCancelPrice t s
      else if tx_type t = 27 then logicMath_MetaDExCancelPair t s
      else if tx_type t = 28 then logicMath_MetaDExCancelEcosystem t s
      else if tx_type t = 50 then logicMath_CreatePropertyFixed env t s
      else if tx_type t = 51 then logicMath_CreatePropertyVariable t s
      else if tx_type t = 54 then logicMath_CreatePropertyManaged t s
      else if tx_type t = 53 then logicMath_CloseCrowdsale t s
      else if tx_type t = 55 then logicMath_GrantTokens t s
      else if tx_type t = 56 then logicMath_RevokeTokens t s
      else if tx_type t = 70 then logicMath_ChangeIssuer t s
      else if tx_type t = 80 then logicMath_RapidsPayment env t s
      else if tx_type t = 71 then logicMath_EnableFreezing t s
      else if tx_type t = 72 then logicMath_DisableFreezing env t s
      else if tx_type t = 185 then logicMath_FreezeTokens t s
      else if tx_type t = 186 then logicMath_UnfreezeTokens t s
      else if tx_type t = 65533 then logicMath_Deactivation env t s
      else if tx_type t = 65534 then logicMath_Activation env t s
      else if tx_type t = 65535 then logicMath_Alert env t s
      else reject (PKT_ERROR - 100) t s)"

definition interpretPacket :: "tx_env \<Rightarrow> 's logic" where
  "interpretPacket env t0 s =
     (if rpcOnly t0 then reject (PKT_ERROR - 1) t0 s
      else do {
        (parsed, t) \<leftarrow> interpret_Transaction (hashToAddress env) (validDestination env) t0;
        if \<not> parsed then reject (PKT_ERROR - 2) t s
        else if isAddressFrozen s (tx_sender t) (tx_property t) then reject (PKT_ERROR - 3) t s
        else run_logic env t s
      })"

subsection \<open>Sends move tokens\<close>

text \<open>The fields that sends change, and what they keep of the ledger.\<close>

definition moved_frame :: "'s tx_state_scheme \<Rightarrow> 's tx_state_scheme \<Rightarrow> bool" where
  "moved_frame s s' \<longleftrightarrow> (\<exists>m r a. s' = s\<lparr>mp_tally_map := m, recordedSTOReceives := r, recordedSendAlls := a\<rparr>)"

definition moved :: "'s tx_state_scheme \<Rightarrow> 's tx_state_scheme \<Rightarrow> bool" where
  "moved s s' \<longleftrightarrow> ledger_ok s' \<and> (\<forall>q. token_supply s' q = token_supply s q) \<and> moved_frame s s'"

lemma moved_frame_trans: "moved_frame s s1 \<Longrightarrow> moved_frame s1 s2 \<Longrightarrow> moved_frame s s2"
  by (auto simp: moved_frame_def) blast

lemma moved_frameI:
  "moved_frame s (s\<lparr>mp_tally_map := m\<rparr>)" "moved_frame s (s\<lparr>recordedSTOReceives := r\<rparr>)" "moved_frame s (s\<lparr>recordedSendAlls := a\<rparr>)" "moved_frame s s"
proof -
  have e: "moved_frame s (s\<lparr>mp_tally_map := m, recordedSTOReceives := r, recordedSendAlls := a\<rparr>)" for m r a
    unfolding moved_frame_def by blast
  show "moved_frame s (s\<lparr>mp_tally_map := m\<rparr>)" using e [where m = m and r = "recordedSTOReceives s" and a = "recordedSendAlls s"] by simp
  show "moved_frame s (s\<lparr>recordedSTOReceives := r\<rparr>)" using e [where m = "mp_tally_map s" and r = r and a = "recordedSendAlls s"] by simp
  show "moved_frame s (s\<lparr>recordedSendAlls := a\<rparr>)" using e [where m = "mp_tally_map s" and r = "recordedSTOReceives s" and a = a] by simp
  show "moved_frame s s" using e [where m = "mp_tally_map s" and r = "recordedSTOReceives s" and a = "recordedSendAlls s"] by simp
qed

lemma moved_refl: "ledger_ok s \<Longrightarrow> moved s s"
  by (simp add: moved_def moved_frameI)

lemma moved_trans: "moved s s1 \<Longrightarrow> moved s1 s2 \<Longrightarrow> moved s s2"
  using moved_frame_trans by (auto simp: moved_def)

lemma moved_frozen: "moved s s' \<Longrightarrow> isAddressFrozen s' = isAddressFrozen s"
  by (auto simp: moved_def moved_frame_def isAddressFrozen_def fun_eq_iff)

lemma moved_fields: "moved s s' \<Longrightarrow> getCrowd s' = getCrowd s \<and> pDbSpInfo s' = pDbSpInfo s \<and> pDbFeeCache s' = pDbFeeCache s"
  by (auto simp: moved_def moved_frame_def getCrowd_def fun_eq_iff)

lemma moved_cached: "moved s s' \<Longrightarrow> GetCachedAmount s' = GetCachedAmount s"
  by (auto simp: moved_def moved_frame_def GetCachedAmount_def GetCacheHistory_def fun_eq_iff)

lemma moved_fee_ok: "moved s s' \<Longrightarrow> fee_ok b s \<Longrightarrow> fee_ok b s'"
  using moved_cached [of s s'] moved_fields [of s s'] by (auto simp: fee_ok_def cache_ok_def moved_def)

lemma send_step:
  fixes s :: "'s tx_state_scheme"
  assumes "ledger_ok s" and "0 < x" and "x \<le> GetTokenBalance s a p BALANCE" and "\<not> isAddressFrozen s a p"
  shows "\<exists>s1 s2. assert_update a p (- x) BALANCE s = Some s1 \<and> assert_update b p x BALANCE s1 = Some s2 \<and> moved s s2
    \<and> (\<forall>c q v. GetTokenBalance s2 c q v = GetTokenBalance s c q v
      - (if c = a \<and> q = p \<and> v = BALANCE then x else 0) + (if c = b \<and> q = p \<and> v = BALANCE then x else 0))"
proof (rule transfer [OF assms(1-3), of BALANCE b])
  fix s1 m
  assume u: "assert_update a p (- x) BALANCE s = Some s1" "assert_update b p x BALANCE s1 = Some (s\<lparr>mp_tally_map := m\<rparr>)"
    and "ledger_ok (s\<lparr>mp_tally_map := m\<rparr>)" and "\<And>q. token_supply (s\<lparr>mp_tally_map := m\<rparr>) q = token_supply s q"
    and bal: "\<And>c q v. GetTokenBalance (s\<lparr>mp_tally_map := m\<rparr>) c q v = GetTokenBalance s c q v
        - (if c = a \<and> q = p \<and> v = BALANCE then x else 0) + (if c = b \<and> q = p \<and> v = BALANCE then x else 0)"
  then have "moved s (s\<lparr>mp_tally_map := m\<rparr>)" by (simp add: moved_def moved_frameI)
  with u bal show ?thesis by blast
qed (simp_all add: assms)

lemma moved_records: "moved s s1 \<Longrightarrow> moved s (s1\<lparr>recordedSTOReceives := r\<rparr>) \<and> moved s (s1\<lparr>recordedSendAlls := a\<rparr>)"
  using moved_frame_trans [OF _ moved_frameI(2)] moved_frame_trans [OF _ moved_frameI(3)]
  by (auto simp: moved_def ledger_ok_def tallies_ok_def token_supply_def)

lemma balance_records [simp]:
  "GetTokenBalance (s\<lparr>recordedSTOReceives := r\<rparr>) = GetTokenBalance s" "GetTokenBalance (s\<lparr>recordedSendAlls := a\<rparr>) = GetTokenBalance s"
  by (simp_all add: fun_eq_iff GetTokenBalance_def)

lemma pay_owners_ok:
  fixes s :: "'s tx_state_scheme"
  assumes "ledger_ok s" and "\<forall>(x, a) \<in> set rs. 0 < x" and "sum_list (map fst rs) \<le> GetTokenBalance s (tx_sender t) (tx_property t) BALANCE"
    and "\<not> isAddressFrozen s (tx_sender t) (tx_property t)" and "0 \<le> sent" and "sent + sum_list (map fst rs) \<le> MAX_INT64"
  shows "\<exists>s'. pay_owners t rs sent s = Some (sent + sum_list (map fst rs), s') \<and> moved s s'"
  using assms
proof (induction rs arbitrary: sent s)
  case Nil
  then show ?case by (simp add: moved_refl)
next
  case (Cons e rs)
  obtain x a where e: "e = (x, a)" by (cases e)
  have nn: "0 \<le> sum_list (map fst rs)" using Cons.prems(2) by (intro sum_list_nonneg) auto
  have x: "0 < x" "x \<le> GetTokenBalance s (tx_sender t) (tx_property t) BALANCE" using Cons.prems(2,3) nn by (auto simp: e)
  obtain s1 s2 where u: "assert_update (tx_sender t) (tx_property t) (- x) BALANCE s = Some s1"
      "assert_update a (tx_property t) x BALANCE s1 = Some s2" "moved s s2"
    and bal: "\<forall>c q v. GetTokenBalance s2 c q v = GetTokenBalance s c q v
      - (if c = tx_sender t \<and> q = tx_property t \<and> v = BALANCE then x else 0) + (if c = a \<and> q = tx_property t \<and> v = BALANCE then x else 0)"
    using send_step [OF Cons.prems(1) x Cons.prems(4), where b = a] by blast
  define s3 where "s3 = s2\<lparr>recordedSTOReceives := recordedSTOReceives s2 @ [(a, tx_txid t, tx_block t, tx_property t, x)]\<rparr>"
  have m3: "moved s s3" using moved_records [OF u(3)] by (simp add: s3_def)
  have "s64 (sent + x) = sent + x" using Cons.prems(5,6) x nn by (intro s64_id) (auto simp: e)
  moreover have "\<exists>s'. pay_owners t rs (sent + x) s3 = Some (sent + x + sum_list (map fst rs), s') \<and> moved s3 s'"
  proof (rule Cons.IH)
    show "ledger_ok s3" "\<not> isAddressFrozen s3 (tx_sender t) (tx_property t)" using m3 Cons.prems(4) moved_frozen [OF m3] by (simp_all add: moved_def)
    show "sum_list (map fst rs) \<le> GetTokenBalance s3 (tx_sender t) (tx_property t) BALANCE"
      using Cons.prems(3) x(1) by (auto simp: s3_def bal e)
  qed (use Cons.prems x in \<open>auto simp: e\<close>)
  ultimately show ?case using u(1,2) moved_trans [OF m3] unfolding e s3_def
    by (auto simp: add.assoc)
qed

lemma send_all_ok:
  fixes s :: "'s tx_state_scheme"
  assumes "ledger_ok s"
  shows "\<exists>n' s'. send_all_loop t ps n s = Some (n', s') \<and> moved s s' \<and> n \<le> n' \<and> (n' = n \<longrightarrow> s' = s)"
  using assms
proof (induction ps arbitrary: n s)
  case Nil
  then show ?case by (simp add: moved_refl)
next
  case (Cons p ps)
  note skip = Cons.IH [OF Cons.prems, of n]
  let ?x = "GetTokenBalance s (tx_sender t) p BALANCE"
  show ?case
  proof (cases "isAddressFrozen s (tx_sender t) p \<or> ?x \<le> 0")
    case True
    then show ?thesis using skip by (auto simp: Let_def)
  next
    case False
    then have x: "0 < ?x" "\<not> isAddressFrozen s (tx_sender t) p" by auto
    obtain s1 s2 where u: "assert_update (tx_sender t) p (- ?x) BALANCE s = Some s1"
      "assert_update (tx_receiver t) p ?x BALANCE s1 = Some s2" "moved s s2"
      using send_step [OF Cons.prems x(1) order_refl x(2), where b = "tx_receiver t"] by blast
    define s3 where "s3 = s2\<lparr>recordedSendAlls := recordedSendAlls s2 @ [(tx_txid t, n + 1, p, ?x)]\<rparr>"
    have m3: "moved s s3" using moved_records [OF u(3)] by (simp add: s3_def)
    then have "ledger_ok s3" by (simp add: moved_def)
    from Cons.IH [OF this, of "n + 1"] obtain n' s' where r: "send_all_loop t ps (n + 1) s3 = Some (n', s')" "moved s3 s'" "n + 1 \<le> n'" by blast
    have "moved s s'" using moved_trans [OF m3 r(2)] .
    then have "\<exists>n' s'. send_all_loop t ps (n + 1) (s2\<lparr>recordedSendAlls := recordedSendAlls s2 @ [(tx_txid t, n + 1, p, ?x)]\<rparr>) = Some (n', s')
        \<and> moved s s' \<and> n \<le> n' \<and> (n' = n \<longrightarrow> s' = s)"
      using r(1,3) unfolding s3_def by (intro exI [of _ n'] exI [of _ s']) simp
    then show ?thesis using skip False u(1,2) by (simp add: Let_def)
  qed
qed

lemma stm_check_addresses:
  "stm_check t es tot outs = Inr r \<Longrightarrow> \<forall>(i, x) \<in> set es. getValidStmAddressAt t i \<noteq> None"
  by (induction t es tot outs rule: stm_check.induct) (auto split: option.splits if_splits)

lemma stm_move_ok:
  fixes s :: "'s tx_state_scheme"
  assumes "ledger_ok s" and "\<forall>(i, x) \<in> set es. 0 < x" and "sum_list (map snd es) \<le> GetTokenBalance s (tx_sender t) (tx_property t) BALANCE"
    and "\<not> isAddressFrozen s (tx_sender t) (tx_property t)" and "\<forall>(i, x) \<in> set es. getValidStmAddressAt t i \<noteq> None"
  shows "\<exists>s'. stm_move t es s = Some s' \<and> moved s s'"
  using assms
proof (induction es arbitrary: s)
  case Nil
  then show ?case by (simp add: moved_refl)
next
  case (Cons e es)
  obtain i x where e: "e = (i, x)" by (cases e)
  obtain a where a: "getValidStmAddressAt t i = Some a" using Cons.prems(5) by (auto simp: e)
  have nn: "0 \<le> sum_list (map snd es)" using Cons.prems(2) by (intro sum_list_nonneg) auto
  have x: "0 < x" "x \<le> GetTokenBalance s (tx_sender t) (tx_property t) BALANCE" using Cons.prems(2,3) nn by (auto simp: e)
  have le: "x \<le> MAX_INT64" using x(2) balance_le_max [OF ledger_tallies [OF Cons.prems(1)], of "tx_sender t" "tx_property t" BALANCE] by simp
  have w: "s64 x = x" "s64 (- x) = - x" using x(1) le by (auto intro!: s64_id)
  obtain s1 s2 where u: "assert_update (tx_sender t) (tx_property t) (- x) BALANCE s = Some s1"
      "assert_update a (tx_property t) x BALANCE s1 = Some s2" "moved s s2"
    and bal: "\<forall>c q v. GetTokenBalance s2 c q v = GetTokenBalance s c q v
      - (if c = tx_sender t \<and> q = tx_property t \<and> v = BALANCE then x else 0) + (if c = a \<and> q = tx_property t \<and> v = BALANCE then x else 0)"
    using send_step [OF Cons.prems(1) x Cons.prems(4), where b = a] by blast
  have "\<exists>s'. stm_move t es s2 = Some s' \<and> moved s2 s'"
  proof (rule Cons.IH)
    show "ledger_ok s2" "\<not> isAddressFrozen s2 (tx_sender t) (tx_property t)" using u(3) Cons.prems(4) moved_frozen [OF u(3)] by (simp_all add: moved_def)
    show "sum_list (map snd es) \<le> GetTokenBalance s2 (tx_sender t) (tx_property t) BALANCE"
      using Cons.prems(3) x(1) by (auto simp: bal e)
  qed (use Cons.prems in auto)
  then show ?case using u(1,2) moved_trans [OF u(3)] by (auto simp: e a w)
qed


text \<open>What a transaction that only sends keeps: a well-formed state, and for every property the tokens of all addresses with the cached fees.\<close>

definition conserved :: "int \<Rightarrow> 's tx_state_scheme \<Rightarrow> 's tx_state_scheme \<Rightarrow> bool" where
  "conserved b s s' \<longleftrightarrow> fee_ok b s' \<and> (\<forall>q. token_supply s' q + GetCachedAmount s' q = token_supply s q + GetCachedAmount s q)"

definition sent :: "int \<Rightarrow> 's tx_state_scheme \<Rightarrow> (int \<times> CMPTransaction \<times> 's tx_state_scheme) option \<Rightarrow> bool" where
  "sent b s r \<longleftrightarrow> (\<exists>rc t' s'. r = Some (rc, t', s') \<and> conserved b s s' \<and> (rc < 0 \<longrightarrow> s' = s) \<and> rc \<le> 0)"

lemma sent_reject: "fee_ok b s \<Longrightarrow> rc < 0 \<Longrightarrow> sent b s (reject rc t s)"
  by (simp add: sent_def conserved_def)

lemma sent_moved: "fee_ok b s \<Longrightarrow> moved s s' \<Longrightarrow> sent b s (Some (0, t, s'))"
  using moved_fee_ok [of s s' b] moved_cached [of s s'] by (simp add: sent_def conserved_def moved_def)

lemma SimpleSend_sent:
  assumes ok: "fee_ok b s" and fz: "\<not> isAddressFrozen s (tx_sender t) (tx_property t)"
    and cr: "\<forall>c. getCrowd s (tx_receiver t) = Some c \<longrightarrow> crowd_property_desired c \<noteq> tx_property t"
  shows "sent b s (logicMath_SimpleSend t s)"
proof (cases "allowed s t (tx_property t) \<and> \<not> out_of_range (nValue t) \<and> IsPropertyIdValid (tx_property t) (pDbSpInfo s)
    \<and> \<not> GetTokenBalance s (tx_sender t) (tx_property t) BALANCE < s64 (nValue t)")
  case False
  then show ?thesis using sent_reject [OF ok] by (auto simp: logicMath_SimpleSend_def)
next
  case True
  then have w: "0 < nValue t" "s64 (nValue t) = nValue t" "s64 (- nValue t) = - nValue t"
    by (auto simp: out_of_range_def intro!: s64_id)
  have lok: "ledger_ok s" using ok by (simp add: fee_ok_def)
  obtain s1 s2 where u: "assert_update (tx_sender t) (tx_property t) (- nValue t) BALANCE s = Some s1"
      "assert_update (tx_receiver t) (tx_property t) (nValue t) BALANCE s1 = Some s2" "moved s s2"
    using send_step [OF lok w(1) _ fz, of "tx_receiver t"] True w by auto
  have "\<exists>rc. logicHelper_CrowdsaleParticipation t s2 = Some (rc, s2)"
    using cr moved_fields [OF u(3)] by (auto simp: logicHelper_CrowdsaleParticipation_def split: option.split)
  then show ?thesis using True u sent_moved [OF ok u(3)] by (auto simp: logicMath_SimpleSend_def w)
qed

lemma SendAll_sent:
  assumes ok: "fee_ok b s"
  shows "sent b s (logicMath_SendAll t s)"
proof -
  have lok: "ledger_ok s" using ok by (simp add: fee_ok_def)
  have "sent b s (do {
            (n, s1) \<leftarrow> send_all_loop t ps 0 s;
            if n = 0 then reject (PKT_ERROR_SEND_ALL - 55) t s1 else Some (0, t\<lparr>nNewValue := int n\<rparr>, s1)})" for ps
    using send_all_ok [OF lok, of t ps 0] sent_reject [OF ok] sent_moved [OF ok] by auto
  then show ?thesis using sent_reject [OF ok] by (auto simp: logicMath_SendAll_def split: option.split)
qed

lemma SendToMany_sent:
  assumes ok: "fee_ok b s" and fz: "\<not> isAddressFrozen s (tx_sender t) (tx_property t)"
    and pos: "\<forall>(i, x) \<in> set (outputValuesForSTM t). 0 < x" and sum: "nValue t = sum_list (map snd (outputValuesForSTM t))"
  shows "sent b s (logicMath_SendToMany t s)"
proof (cases "allowed s t (tx_property t) \<and> \<not> out_of_range (nValue t) \<and> IsPropertyIdValid (tx_property t) (pDbSpInfo s)
    \<and> \<not> GetTokenBalance s (tx_sender t) (tx_property t) BALANCE < s64 (nValue t) \<and> (\<exists>r. stm_check t (outputValuesForSTM t) 0 0 = Inr r)")
  case False
  have rc: "stm_check t es tot outs = Inl rc \<Longrightarrow> rc < 0" for es tot outs rc
    by (induction t es tot outs rule: stm_check.induct) (auto split: option.splits if_splits)
  then show ?thesis using False sent_reject [OF ok] by (auto simp: logicMath_SendToMany_def split: sum.split)
next
  case True
  then have w: "s64 (nValue t) = nValue t" by (auto simp: out_of_range_def intro!: s64_id)
  have lok: "ledger_ok s" using ok by (simp add: fee_ok_def)
  have "\<forall>(i, x) \<in> set (outputValuesForSTM t). getValidStmAddressAt t i \<noteq> None" using True stm_check_addresses by blast
  moreover have "sum_list (map snd (outputValuesForSTM t)) \<le> GetTokenBalance s (tx_sender t) (tx_property t) BALANCE"
    using True w sum by linarith
  ultimately obtain s' where "stm_move t (outputValuesForSTM t) s = Some s'" "moved s s'"
    using stm_move_ok [OF lok pos _ fz] by blast
  then show ?thesis using True sent_moved [OF ok] sent_reject [OF ok] by (auto simp: logicMath_SendToMany_def)
qed

lemma Notify_conserved:
  fixes s :: "'s tx_state_scheme"
  assumes ok: "fee_ok b s" and c: "GetCachedAmount s p = 0"
  shows "\<exists>s'. NotifyTotalTokensChanged p b s = Some s' \<and> conserved b s s'"
proof -
  let ?s = "UpdateDistributionThresholds p s"
  have m: "mp_tally_map ?s = mp_tally_map s" and cc: "pDbFeeCache ?s = pDbFeeCache s" by (simp_all add: UpdateDistributionThresholds_def Let_def)
  have ok1: "fee_ok b ?s" using ok mdex_fee_ok_cong [OF m cc] by simp
  have cached: "GetCachedAmount ?s q = GetCachedAmount s q" for q using cc by (simp add: GetCachedAmount_def GetCacheHistory_def)
  have t: "tallies_ok ?s" "cache_ok b ?s" "\<And>q. token_supply ?s q \<le> MAX_INT64" and le: "\<And>q. token_supply s q + GetCachedAmount s q \<le> MAX_INT64"
    using ok1 ok by (auto simp: fee_ok_def ledger_ok_def)
  have "\<forall>a. GetTokenBalance ?s a p BALANCE + GetCachedAmount ?s p \<le> MAX_INT64"
    using balance_le_max [OF t(1)] by (simp add: cached c)
  then obtain s' where s': "EvalCache p b ?s = Some s'" "fee_step b p 0 ?s s'"
    using EvalCache_ok [OF t(1,2) t(3), of p] cached c by auto
  have eq: "token_supply s' q + GetCachedAmount s' q = token_supply s q + GetCachedAmount s q" for q
    using s'(2) supply_cong [OF m, of q] by (simp add: fee_step_def cached)
  have "0 \<le> GetCachedAmount s' q" for q using s'(2) cached_bounds [of b s' q] by (auto simp: fee_step_def)
  then have "token_supply s' q \<le> MAX_INT64" for q using eq [of q] le [of q] by (smt (verit))
  then have "fee_ok b s'" using s'(2) eq le by (simp add: fee_ok_def ledger_ok_def fee_step_def)
  then show ?thesis using s'(1) eq by (simp add: NotifyTotalTokensChanged_def conserved_def)
qed

lemma conserved_trans: "moved s s1 \<Longrightarrow> conserved b s1 s2 \<Longrightarrow> conserved b s s2"
  using moved_cached [of s s1] by (simp add: conserved_def moved_def)

lemma SendToOwners_sent:
  fixes s :: "'s tx_state_scheme"
  assumes ok: "fee_ok (tx_block t) s" and fz: "\<not> isAddressFrozen s (tx_sender t) (tx_property t)"
    and c: "GetCachedAmount s TOKEN_PROPERTY_MSC = 0"
  shows "sent (tx_block t) s (logicMath_SendToOwners t s)"
proof (cases "allowed s t (tx_property t) \<and> \<not> out_of_range (nValue t) \<and> IsPropertyIdValid (tx_property t) (pDbSpInfo s)
    \<and> \<not> (tx_version t > 0 \<and> \<not> IsPropertyIdValid (distribution_property t) (pDbSpInfo s))
    \<and> \<not> GetTokenBalance s (tx_sender t) (tx_property t) BALANCE < s64 (nValue t)")
  case False
  then show ?thesis using sent_reject [OF ok] by (auto simp: logicMath_SendToOwners_def)
next
  case True
  let ?p = "if tx_version t = 0 then tx_property t else distribution_property t"
  have w: "0 < nValue t" "nValue t \<le> MAX_INT64" "s64 (nValue t) = nValue t" using True by (auto simp: out_of_range_def intro!: s64_id)
  have lok: "ledger_ok s" using ok by (simp add: fee_ok_def)
  note tot = tl.total_le [OF lok, of ?p]
  show ?thesis
  proof (cases "sto_owners (tx_sender t) ?p (mp_tally_map s) = {}")
    case none: True
    then have "STO_GetReceivers (tx_sender t) ?p (nValue t) s = Some []" using sto_none [OF ledger_tallies [OF lok] tot] by blast
    then show ?thesis using True sent_reject [OF ok] by (simp add: logicMath_SendToOwners_def w)
  next
    case False
    from sto_run [OF ledger_tallies [OF lok] tot w(1,2) False] obtain rs where rs: "STO_GetReceivers (tx_sender t) ?p (nValue t) s = Some rs"
      "sum_list (map fst rs) = nValue t" "\<forall>(x, a) \<in> set rs. 0 < x" by fastforce
    have sum: "sum_list (map fst (rev rs)) = nValue t" using rs(2) by (simp add: rev_map [symmetric])
    obtain s1 where s1: "pay_owners t (rev rs) 0 s = Some (nValue t, s1)" "moved s s1"
      using pay_owners_ok [OF lok _ _ fz order_refl, of "rev rs"] rs(3) True w unfolding sum by auto
    have "GetCachedAmount s1 TOKEN_PROPERTY_MSC = 0" using c moved_cached [OF s1(2)] by simp
    from Notify_conserved [OF moved_fee_ok [OF s1(2) ok] this] obtain s2 where
      s2: "NotifyTotalTokensChanged TOKEN_PROPERTY_MSC (tx_block t) s1 = Some s2" "conserved (tx_block t) s1 s2" by blast
    have "rs \<noteq> []" using rs(2) w(1) by auto
    then show ?thesis
      using True rs(1) s1(1) s2(1) sent_moved [OF ok s1(2)] conserved_trans [OF s1(2) s2(2)] by (auto simp: logicMath_SendToOwners_def w sent_def)
  qed
qed

subsection \<open>Properties of transactions\<close>

text \<open>On the main network, Alice owns 100 units of the main token and Bob 50.\<close>

definition sample_env :: tx_env where
  "sample_env = \<lparr>linkedTransaction = \<lambda>_. None, transactionOutputs = \<lambda>_. None, getValidMPTX = \<lambda>_. False, hashToAddress = \<lambda>_ _. [],
     validDestination = \<lambda>_. False, allowActivation = [], ignoreActivation = [], allowDeactivation = [], ignoreDeactivation = [], allowAlert = [],
     ignoreAlert = [], isNonMainNet = False, freezeEnd = True\<rparr>"

definition sample_txs :: tx_state where
  "sample_txs = (mdex_state.extend sample_mdex (tx_state.fields sample_governance [] [] []))
     \<lparr>mp_tally_map := [(''alice'', holder 1 100), (''bob'', holder 1 50)], metadex := []\<rparr>"

lemma sample_txs_fields [simp]:
  "mp_tally_map sample_txs = [(''alice'', holder 1 100), (''bob'', holder 1 50)]" "pDbFeeCache sample_txs = []" "setFrozenAddresses sample_txs = []"
  "consensusParams sample_txs = CMainConsensusParams" "pDbSpInfo sample_txs = new_spinfo ''exodus''"
  by (simp_all add: sample_txs_def sample_mdex_def sample_dex_def sample_rules_def sample_crowds_def dex_state.defs rules_state.defs crowd_state.defs
      fee_state.defs mdex_state.defs tx_state.defs)

lemma sample_txs_balance: "GetTokenBalance sample_txs a p ty = (if p = 1 \<and> ty = BALANCE then if a = ''alice'' then 100 else if a = ''bob'' then 50 else 0 else 0)"
  by (auto simp: GetTokenBalance_def)

lemma sample_txs_ok: "fee_ok b sample_txs"
  by (auto simp: fee_ok_def ledger_ok_def tallies_ok_def umap_ok_def token_supply_def cache_ok_def smap_ok_def GetCachedAmount_def GetCacheHistory_def)

lemma sample_txs_allows: "IsTransactionTypeAllowed (consensusParams sample_txs) 2000000 1 5 0 \<and> IsPropertyIdValid 1 (pDbSpInfo sample_txs)
    \<and> \<not> isAddressFrozen sample_txs a p"
  by (simp add: IsTransactionTypeAllowed_def GetRestrictions_def CMainConsensusParams_def IsPropertyIdValid_def peekNextSPID_def
      new_spinfo_def init_spids_def isAddressFrozen_def)

text \<open>
  \<^bold>\<open>C14\<close>. Sends conserve tokens: on a well-formed state whose main token has no cached fee, a simple send whose receiver runs no
  crowdsale for the property, a send to owners, a send of all tokens, and a send to many with positive amounts whose sum does not wrap all return with a code that
  is zero or negative; with a negative code the state is unchanged, and in every case the new state is well formed and for every property the tokens
  of all addresses plus the cached fees are what they were.
\<close>

theorem sends_conserve:
  fixes s :: tx_state
  assumes "fee_ok (tx_block t) s" and "tx_type t \<in> {0, 3, 4, 5}" and "\<not> isAddressFrozen s (tx_sender t) (tx_property t)"
    and "GetCachedAmount s TOKEN_PROPERTY_MSC = 0"
    and "tx_type t = 0 \<longrightarrow> (\<forall>c. getCrowd s (tx_receiver t) = Some c \<longrightarrow> crowd_property_desired c \<noteq> tx_property t)"
    and "tx_type t = 5 \<longrightarrow> nValue t = sum_list (map snd (outputValuesForSTM t)) \<and> (\<forall>(i, x) \<in> set (outputValuesForSTM t). 0 < x)"
  shows "\<exists>rc t' s'. run_logic env t s = Some (rc, t', s') \<and> rc \<le> 0 \<and> (rc < 0 \<longrightarrow> s' = s) \<and> fee_ok (tx_block t) s'
    \<and> (\<forall>q. token_supply s' q + GetCachedAmount s' q = token_supply s q + GetCachedAmount s q)"
proof -
  consider "tx_type t = 0" | "tx_type t = 3" | "tx_type t = 4" | "tx_type t = 5" using assms(2) by (auto simp del: One_nat_def)
  then have "sent (tx_block t) s (run_logic env t s)"
  proof cases
    case 1
    then show ?thesis using SimpleSend_sent [OF assms(1,3)] assms(5) by (simp add: run_logic_def)
  next
    case 2
    then show ?thesis using SendToOwners_sent [OF assms(1,3,4)] by (simp add: run_logic_def)
  next
    case 3
    then show ?thesis using SendAll_sent [OF assms(1)] by (simp add: run_logic_def)
  next
    case 4
    then have "nValue t = sum_list (map snd (outputValuesForSTM t))" "\<forall>(i, x) \<in> set (outputValuesForSTM t). 0 < x" using assms(6) by blast+
    from SendToMany_sent [OF assms(1,3) this(2,1)] show ?thesis using 4 by (simp add: run_logic_def)
  qed
  then show ?thesis by (auto simp: sent_def conserved_def)
qed

theorem sends_conserve_witness:
  "\<exists>rc t' s'. run_logic sample_env (sample_tx\<lparr>tx_type := 4, tx_sender := ''bob'', tx_receiver := ''carol'', tx_block := 2000000, tx_ecosystem := 1\<rparr>) sample_txs
      = Some (rc, t', s') \<and> token_supply s' 1 + GetCachedAmount s' 1 = 150"
proof -
  let ?t = "sample_tx\<lparr>tx_type := 4, tx_sender := ''bob'', tx_receiver := ''carol'', tx_block := 2000000, tx_ecosystem := 1\<rparr>"
  have cached: "GetCachedAmount sample_txs p = 0" for p by (simp add: GetCachedAmount_def GetCacheHistory_def)
  have "token_supply sample_txs 1 = 150" by (simp add: token_supply_def)
  moreover have "fee_ok (tx_block ?t) sample_txs" by (rule sample_txs_ok)
  ultimately show ?thesis using sends_conserve [of ?t sample_txs sample_env] sample_txs_allows cached by auto
qed

lemma wrap_around: "0 < k \<Longrightarrow> k \<le> MAX_INT64 \<Longrightarrow> s64 (2 ^ 64 - k) = - k \<and> s64 (- (2 ^ 64 - k)) = k"
proof -
  assume k: "0 < k" "k \<le> MAX_INT64"
  have "s64 (x + 2 ^ 64) = s64 x" for x using mod_add_self2 [of "x + 2 ^ 63" "2 ^ 64"] by (simp add: s64_def ac_simps)
  from this [of "- k"] this [of "k - 2 ^ 64"] show ?thesis using k by (simp add: s64_id)
qed

lemma debit_runs:
  assumes "tallies_ok s" and "0 < x" and "x \<le> GetTokenBalance s a p BALANCE" and "\<not> isAddressFrozen s a p"
  shows "\<exists>s'. assert_update a p (- x) BALANCE s = Some s' \<and> tallies_ok s' \<and> token_supply s' p = token_supply s p - x"
  by (rule tl.debit [OF assms(1-3)]) (use assms(4) in auto)

lemma credit_runs:
  assumes "tallies_ok s" and "0 < x" and "GetTokenBalance s a p BALANCE + x \<le> MAX_INT64"
  shows "\<exists>s'. assert_update a p x BALANCE s = Some s' \<and> tallies_ok s'"
  by (rule tl.credit [OF assms]) auto

lemma steal_moves:
  fixes s :: "'s tx_state_scheme"
  assumes ok: "ledger_ok s" and v: "a \<noteq> v" "0 < k" "k \<le> GetTokenBalance s v p BALANCE" and a: "1 \<le> GetTokenBalance s a p BALANCE"
    and fz: "\<not> isAddressFrozen s a p" "\<not> isAddressFrozen s v p"
  shows "\<exists>s1 s2 s3 s4. k + 1 \<le> MAX_INT64 \<and> assert_update a p k BALANCE s = Some s1 \<and> assert_update v p (- k) BALANCE s1 = Some s2
    \<and> assert_update a p (- (k + 1)) BALANCE s2 = Some s3 \<and> assert_update a p (k + 1) BALANCE s3 = Some s4
    \<and> GetTokenBalance s4 v p BALANCE = GetTokenBalance s v p BALANCE - k \<and> GetTokenBalance s4 a p BALANCE = GetTokenBalance s a p BALANCE + k"
proof -
  note wf = ledger_tallies [OF ok]
  obtain s0 where s0: "assert_update v p (- k) BALANCE s = Some s0" "tallies_ok s0" "token_supply s0 p = token_supply s p - k"
    using debit_runs [OF wf v(2,3) fz(2)] by blast
  have "GetTokenBalance s a p BALANCE \<le> token_supply s0 p"
    using balance_le_supply [OF s0(2), of BALANCE a p] assert_update_balance [OF s0(1), of a p BALANCE] v(1) by simp
  then have room: "GetTokenBalance s a p BALANCE + k \<le> MAX_INT64" using s0(3) tl.total_le [OF ok, of p] by linarith
  obtain s1 where s1: "assert_update a p k BALANCE s = Some s1" "tallies_ok s1" using credit_runs [OF wf v(2) room] by blast
  note b1 = assert_update_balance [OF s1(1)] and f1 = assert_update_frozen [OF s1(1)]
  obtain s2 where s2: "assert_update v p (- k) BALANCE s1 = Some s2" "tallies_ok s2"
    using debit_runs [OF s1(2) v(2), of v p] v fz(2) by (auto simp: b1 f1)
  note b2 = assert_update_balance [OF s2(1)] and f2 = assert_update_frozen [OF s2(1)]
  have x: "0 < k + 1" "k + 1 \<le> GetTokenBalance s2 a p BALANCE" using v(1,2) a by (simp_all add: b2 b1)
  obtain s3 where s3: "assert_update a p (- (k + 1)) BALANCE s2 = Some s3" "tallies_ok s3"
    using debit_runs [OF s2(2) x] fz(1) by (auto simp: f2 f1)
  note b3 = assert_update_balance [OF s3(1)]
  have "GetTokenBalance s3 a p BALANCE + (k + 1) \<le> MAX_INT64" using room v(1) by (simp add: b3 b2 b1)
  from credit_runs [OF s3(2) x(1) this] obtain s4 where s4: "assert_update a p (k + 1) BALANCE s3 = Some s4" by blast
  show ?thesis
    by (rule exI [of _ s1], rule exI [of _ s2], rule exI [of _ s3], rule exI [of _ s4])
      (use s1(1) s2(1) s3(1) s4 v(1) room a in \<open>simp add: assert_update_balance [OF s4] b3 b2 b1\<close>)
qed

text \<open>
  \<^bold>\<open>C36\<close>. A send to many takes tokens from its receivers: the amounts are unsigned and only their sum modulo \<open>2 ^ 64\<close> is compared with the sender's
  balance, but the updates take them as signed numbers. A sender with one unit of a property builds a packet with the amounts
  \<open>2 ^ 64 - k\<close> for an output of the victim and \<open>k + 1\<close> for an output of its own; the packet is accepted as a send of one unit,
  the victim loses \<open>k\<close> units and the sender gains them.
\<close>

theorem SendToMany_steals:
  fixes s :: tx_state
  assumes "pkt t = CreatePayload_SendToMany p [(i, 2 ^ 64 - k), (j, k + 1)] @ post"
    and "pkt_size t = length (CreatePayload_SendToMany p [(i, 2 ^ 64 - k), (j, k + 1)])" and "is_u32 p" and "is_u8 i" and "is_u8 j"
    and "\<not> rpcOnly t" and "outputValuesForSTM t = []" and "nValue t = 0"
    and "getValidStmAddressAt t i = Some victim" and "getValidStmAddressAt t j = Some (tx_sender t)"
    and "victim \<noteq> []" and "tx_sender t \<noteq> []" and "tx_sender t \<noteq> victim"
    and "ledger_ok s" and "0 < k" and "k \<le> GetTokenBalance s victim p BALANCE" and "1 \<le> GetTokenBalance s (tx_sender t) p BALANCE"
    and "\<not> isAddressFrozen s (tx_sender t) p" and "\<not> isAddressFrozen s victim p"
    and "IsTransactionTypeAllowed (consensusParams s) (tx_block t) p 5 0" and "IsPropertyIdValid p (pDbSpInfo s)"
  shows "\<exists>t' s'. interpretPacket env t s = Some (0, t', s')
    \<and> GetTokenBalance s' victim p BALANCE = GetTokenBalance s victim p BALANCE - k
    \<and> GetTokenBalance s' (tx_sender t) p BALANCE = GetTokenBalance s (tx_sender t) p BALANCE + k"
proof -
  let ?vs = "[(i, 2 ^ 64 - k), (j, k + 1)]"
  obtain s1 s2 s3 s4 where k: "k + 1 \<le> MAX_INT64" and run: "assert_update (tx_sender t) p k BALANCE s = Some s1" "assert_update victim p (- k) BALANCE s1 = Some s2"
    "assert_update (tx_sender t) p (- (k + 1)) BALANCE s2 = Some s3" "assert_update (tx_sender t) p (k + 1) BALANCE s3 = Some s4"
    and bal: "GetTokenBalance s4 victim p BALANCE = GetTokenBalance s victim p BALANCE - k"
      "GetTokenBalance s4 (tx_sender t) p BALANCE = GetTokenBalance s (tx_sender t) p BALANCE + k"
    using steal_moves [OF assms(14,13,15-19)] by blast
  define t1 where "t1 = t\<lparr>tx_version := 0, tx_type := 5, tx_property := p, numberOfSTMReceivers := 2, outputValuesForSTM := ?vs, nValue := 1, nNewValue := 1\<rparr>"
  have w: "u64 (2 ^ 64 - k) = 2 ^ 64 - k" "u64 (2 ^ 64 - k + (k + 1)) = 1"
      "s64 (2 ^ 64 - k) = - k" "s64 (- (2 ^ 64 - k)) = k" "s64 (k + 1) = k + 1" "s64 (- (k + 1)) = - (k + 1)"
    using assms(15) k wrap_around [of k] u64_id [of "2 ^ 64 - k"] s64_id [of "k + 1"] s64_id [of "- (k + 1)"] by (simp_all, simp add: u64_def)
  have sum: "fold (\<lambda>(_, n) a. u64 (a + n)) ?vs (nValue t) = 1" using w(1,2) by (simp add: assms(8))
  have "interpret_Transaction (hashToAddress env) (validDestination env) t = Some (True, t1)"
    using interpret_many [OF assms(1-3) _ _ assms(7)] assms(4,5,15) k unfolding sum by (simp add: t1_def)
  moreover have "stm_move t1 ?vs s = Some s4" using assms(9,10) run unfolding stm_move.simps w by (simp add: t1_def getValidStmAddressAt_def)
  moreover have "stm_check t1 ?vs 0 0 = Inr (1, 2)" using assms(9-12) w by (simp add: t1_def getValidStmAddressAt_def)
  ultimately have "interpretPacket env t s = Some (0, t1, s4)"
    using assms(6,17,18,20,21) unfolding interpretPacket_def run_logic_def logicMath_SendToMany_def by (simp add: t1_def allowed_def out_of_range_def s64_id)
  then show ?thesis using bal by blast
qed

definition stealing_tx :: CMPTransaction where
  "stealing_tx = sample_tx\<lparr>tx_sender := ''bob'', tx_block := 2000000, rpcOnly := False, validOutputAddressesForSTM := [(0, ''alice''), (1, ''bob'')],
     pkt := CreatePayload_SendToMany 1 [(0, 2 ^ 64 - 100), (1, 100 + 1)], pkt_size := length (CreatePayload_SendToMany 1 [(0, 2 ^ 64 - 100), (1, 100 + 1)])\<rparr>"

theorem SendToMany_steals_witness:
  "\<exists>t' s'. interpretPacket sample_env stealing_tx sample_txs = Some (0, t', s') \<and> GetTokenBalance s' ''alice'' 1 BALANCE = 0 \<and> GetTokenBalance s' ''bob'' 1 BALANCE = 150"
proof -
  have t: "tx_sender stealing_tx = ''bob''" "tx_block stealing_tx = 2000000" "\<not> rpcOnly stealing_tx" "outputValuesForSTM stealing_tx = []" "nValue stealing_tx = 0"
      "pkt stealing_tx = CreatePayload_SendToMany 1 [(0, 2 ^ 64 - 100), (1, 100 + 1)] @ []"
      "pkt_size stealing_tx = length (CreatePayload_SendToMany 1 [(0, 2 ^ 64 - 100), (1, 100 + 1)])"
      "getValidStmAddressAt stealing_tx 0 = Some ''alice''" "getValidStmAddressAt stealing_tx 1 = Some ''bob''"
    by (simp_all add: stealing_tx_def sample_tx_def SetNull_def getValidStmAddressAt_def)
  have ok: "ledger_ok sample_txs" using sample_txs_ok [of 0] by (simp add: fee_ok_def)
  show ?thesis
    using SendToMany_steals [OF t(6,7) _ _ _ t(3-5,8), of sample_txs sample_env, unfolded t(1,2)] t(9) ok sample_txs_allows by (simp add: sample_txs_balance)
qed

lemma stm_move_zero: "(i, 0) \<in> set es \<Longrightarrow> stm_move t es s = None"
proof (induction es arbitrary: s)
  case (Cons e es)
  show ?case
  proof (cases "e = (i, 0)")
    case True
    have "s64 0 = 0" by (rule s64_id) simp_all
    then have "assert_update a p (s64 (- 0)) BALANCE s = None" for a p by (simp add: assert_update_def update_tally_map_def)
    then show ?thesis by (cases "getValidStmAddressAt t i") (simp_all add: True)
  next
    case False
    with Cons show ?thesis by (cases e) (auto split: bind_splits)
  qed
qed simp


text \<open>
  A send to many with an amount of zero stops the node: the checks of the packet accept it, and the assertion on the
  update of the balances, which refuses a change by zero, fails.
\<close>

lemma SendToMany_zero_stops:
  fixes s :: tx_state
  assumes "tx_type t = 5" and "(i, 0) \<in> set (outputValuesForSTM t)"
    and "allowed s t (tx_property t)" and "\<not> out_of_range (nValue t)" and "IsPropertyIdValid (tx_property t) (pDbSpInfo s)"
    and "s64 (nValue t) \<le> GetTokenBalance s (tx_sender t) (tx_property t) BALANCE"
    and "stm_check t (outputValuesForSTM t) 0 0 = Inr (nValue t, numberOfSTMReceivers t)"
  shows "run_logic env t s = None"
proof -
  have "stm_move t (outputValuesForSTM t) s = None" by (rule stm_move_zero [OF assms(2)])
  then show ?thesis using assms by (simp add: run_logic_def logicMath_SendToMany_def)
qed


end
