(* ===== verification/Script.thy ===== *)
theory Script
  imports Rules Bytes
begin

text \<open>
  Scripts of transaction outputs: the script numbers and the pushes of \<^verbatim>\<open>src/src/script/script.{h,cpp}\<close>, the classification of
  outputs and the scripts of destinations in \<^verbatim>\<open>src/src/script/standard.cpp\<close>, and the functions of
  \<^verbatim>\<open>src/src/tokencore/script.cpp\<close>, which the token layer uses so that it does not depend on user settings.

  A script is its bytes; an iterator into it is the rest of the script from there. An opcode is a natural number. The hash of a
  public key, \<^verbatim>\<open>Hash160\<close>, is an argument.

  The lemmas are the round trips of numbers, pushes and destinations, and that the classification of the token layer agrees with that
  of the base layer wherever the latter accepts an output.
\<close>

subsection \<open>Opcodes\<close>

abbreviation OP_PUSHDATA1 :: nat where "OP_PUSHDATA1 \<equiv> 0x4c"
abbreviation OP_PUSHDATA2 :: nat where "OP_PUSHDATA2 \<equiv> 0x4d"
abbreviation OP_PUSHDATA4 :: nat where "OP_PUSHDATA4 \<equiv> 0x4e"
abbreviation OP_1 :: nat where "OP_1 \<equiv> 0x51"
abbreviation OP_16 :: nat where "OP_16 \<equiv> 0x60"
abbreviation OP_IF :: nat where "OP_IF \<equiv> 0x63"
abbreviation OP_ELSE :: nat where "OP_ELSE \<equiv> 0x67"
abbreviation OP_ENDIF :: nat where "OP_ENDIF \<equiv> 0x68"
abbreviation OP_RETURN :: nat where "OP_RETURN \<equiv> 0x6a"
abbreviation OP_DUP :: nat where "OP_DUP \<equiv> 0x76"
abbreviation OP_ROT :: nat where "OP_ROT \<equiv> 0x7b"
abbreviation OP_EQUAL :: nat where "OP_EQUAL \<equiv> 0x87"
abbreviation OP_EQUALVERIFY :: nat where "OP_EQUALVERIFY \<equiv> 0x88"
abbreviation OP_HASH160 :: nat where "OP_HASH160 \<equiv> 0xa9"
abbreviation OP_CHECKSIG :: nat where "OP_CHECKSIG \<equiv> 0xac"
abbreviation OP_CHECKSIGVERIFY :: nat where "OP_CHECKSIGVERIFY \<equiv> 0xad"
abbreviation OP_CHECKMULTISIG :: nat where "OP_CHECKMULTISIG \<equiv> 0xae"
abbreviation OP_CHECKMULTISIGVERIFY :: nat where "OP_CHECKMULTISIGVERIFY \<equiv> 0xaf"
abbreviation OP_ZEROCOINMINT :: nat where "OP_ZEROCOINMINT \<equiv> 0xc1"
abbreviation OP_CHECKCOLDSTAKEVERIFY :: nat where "OP_CHECKCOLDSTAKEVERIFY \<equiv> 0xd1"
abbreviation OP_SMALLINTEGER :: nat where "OP_SMALLINTEGER \<equiv> 0xfa"
abbreviation OP_PUBKEYS :: nat where "OP_PUBKEYS \<equiv> 0xfb"
abbreviation OP_PUBKEYHASH :: nat where "OP_PUBKEYHASH \<equiv> 0xfd"
abbreviation OP_PUBKEY :: nat where "OP_PUBKEY \<equiv> 0xfe"
abbreviation OP_INVALIDOPCODE :: nat where "OP_INVALIDOPCODE \<equiv> 0xff"

type_synonym CScript = string

definition push_op :: "nat \<Rightarrow> string" where
  "push_op opcode = [char_of opcode]"

subsection \<open>Script numbers\<close>

fun abs_bytes :: "nat \<Rightarrow> string" where
  "abs_bytes a = (if a = 0 then [] else char_of (a mod 256) # abs_bytes (a div 256))"

declare abs_bytes.simps [simp del]

text \<open>The value is an \<^verbatim>\<open>int64_t\<close> and its absolute value a \<^verbatim>\<open>uint64_t\<close>; the negation wraps at the least value.\<close>

definition ScriptNum_serialize :: "int \<Rightarrow> string" where
  "ScriptNum_serialize v =
     (if v = 0 then []
      else let neg = v < 0; absvalue = u64 (if neg then s64 (- v) else v); result = abs_bytes (nat absvalue)
       in if 128 \<le> (of_char (last result) :: nat) then result @ [if neg then CHR 0x80 else CHR 0x00]
          else if neg then butlast result @ [char_of (of_char (last result) + 128 :: nat)]
          else result)"

text \<open>The bytes are or-ed into an \<^verbatim>\<open>int64_t\<close>; a ninth byte would be shifted by 64 or more bits, which is undefined: \<open>None\<close>.\<close>

definition set_vch :: "string \<Rightarrow> int option" where
  "set_vch vch =
     (if vch = [] then Some 0
      else if length vch > 8 then None
      else let result = s64 (int (le_nat vch))
       in if 128 \<le> (of_char (last vch) :: nat) then Some (s64 (- s64 (u64 result AND NOT (0x80 * 2 ^ (8 * (length vch - 1))))))
          else Some result)"

text \<open>The constructor from bytes; \<open>None\<close> is a \<^verbatim>\<open>scriptnum_error\<close>, or more than eight bytes where \<open>nMaxNumSize\<close> allows them.\<close>

definition CScriptNum :: "string \<Rightarrow> bool \<Rightarrow> nat \<Rightarrow> int option" where
  "CScriptNum vch fRequireMinimal nMaxNumSize =
     (if length vch > nMaxNumSize then None
      else if fRequireMinimal \<and> length vch > 0 \<and> (of_char (last vch) :: nat) mod 128 = 0
        \<and> (length vch \<le> 1 \<or> (of_char (vch ! (length vch - 2)) :: nat) < 128) then None
      else set_vch vch)"

definition getint :: "int \<Rightarrow> int" where
  "getint m = (if m > 2 ^ 31 - 1 then 2 ^ 31 - 1 else if m < - (2 ^ 31) then - (2 ^ 31) else m)"

lemma le_nat_append: "le_nat (xs @ ys) = le_nat xs + 256 ^ length xs * le_nat ys"
  by (induction xs) (simp_all add: algebra_simps)

lemma le_nat_abs_bytes [simp]: "le_nat (abs_bytes a) = a"
  by (induction a rule: abs_bytes.induct) (subst abs_bytes.simps, simp)

lemma mod_128: "n < 256 \<Longrightarrow> n mod 128 = (if n < 128 then n else n - (128 :: nat))"
  by (simp add: mod_if)

lemma abs_bytes_0 [simp]: "abs_bytes 0 = []"
  by (subst abs_bytes.simps) simp

lemma abs_bytes_last: "a \<noteq> 0 \<Longrightarrow> abs_bytes a \<noteq> [] \<and> (of_char (last (abs_bytes a)) :: nat) \<noteq> 0"
proof (induction a rule: abs_bytes.induct)
  case (1 a)
  show ?case
  proof (cases "a div 256 = 0")
    case True
    then have "a < 256" by (simp add: div_eq_0_iff)
    then have "abs_bytes a = [char_of a]" using 1 by (subst abs_bytes.simps) simp
    then show ?thesis using 1(2) \<open>a < 256\<close> by simp
  next
    case False
    then show ?thesis using 1 by (subst (1 2) abs_bytes.simps) simp
  qed
qed

lemma abs_bytes_le_nat: "vch = [] \<or> (of_char (last vch) :: nat) \<noteq> 0 \<Longrightarrow> abs_bytes (le_nat vch) = vch"
proof (induction vch)
  case (Cons c vch)
  have "of_char c + 256 * le_nat vch \<noteq> 0"
  proof (cases "vch = []")
    case False
    then have "abs_bytes (le_nat vch) \<noteq> []" using Cons by auto
    then have "le_nat vch \<noteq> 0" using abs_bytes_0 by metis
    then show ?thesis by simp
  qed (use Cons.prems in simp)
  moreover have "vch = [] \<or> (of_char (last vch) :: nat) \<noteq> 0" using Cons.prems by (cases "vch = []") auto
  ultimately show ?case using Cons.IH of_char_less [of c] by (subst abs_bytes.simps) simp
qed simp

text \<open>The absolute value by its lower bytes and its top byte.\<close>

lemma abs_bytes_split:
  assumes "a \<noteq> 0"
  shows "\<exists>xs top. abs_bytes a = xs @ [top] \<and> (of_char top :: nat) \<noteq> 0 \<and> a = le_nat xs + 256 ^ length xs * of_char top"
proof -
  have "abs_bytes a = butlast (abs_bytes a) @ [last (abs_bytes a)]" using abs_bytes_last [OF assms] by simp
  moreover from this have "a = le_nat (butlast (abs_bytes a)) + 256 ^ length (butlast (abs_bytes a)) * of_char (last (abs_bytes a))"
    by (metis le_nat_abs_bytes le_nat_append le_nat.simps mult_0_right add_0_right)
  ultimately show ?thesis using abs_bytes_last [OF assms] by blast
qed

text \<open>Within 64 bits the bytes are those of the absolute value, and eight bytes are read as a sign and an absolute value.\<close>

abbreviation int64 :: "int \<Rightarrow> bool" where
  "int64 v \<equiv> MIN_INT64 \<le> v \<and> v \<le> MAX_INT64"

lemma abs64: "int64 v \<Longrightarrow> nat (u64 (if v < 0 then s64 (- v) else v)) = nat \<bar>v\<bar>"
  by (cases "v = MIN_INT64") (simp_all add: s64_def u64_def)

definition vch_val :: "string \<Rightarrow> int" where
  "vch_val vch =
     (if vch = [] then 0
      else if 128 \<le> (of_char (last vch) :: nat) then - int (le_nat vch - 128 * 256 ^ (length vch - 1))
      else int (le_nat vch))"

lemma clear_bit:
  fixes a :: int
  assumes "0 \<le> a" "a < 2 ^ n"
  shows "(a + 2 ^ n) AND NOT (2 ^ n) = a"
proof -
  have "(a + 2 ^ n) AND NOT (2 ^ n) = unset_bit n (a + 2 ^ n)" by (simp add: unset_bit_eq_and_not push_bit_eq_mult)
  moreover have "bit (a + 2 ^ n) n" using assms by (simp add: bit_iff_odd div_add_self2)
  ultimately show ?thesis by (simp add: unset_bit_eq)
qed

lemma set_vch_val: "length vch \<le> 8 \<Longrightarrow> set_vch vch = Some (vch_val vch)"
proof (cases vch rule: rev_cases)
  case (snoc xs c)
  assume len: "length vch \<le> 8"
  let ?n = "length xs" and ?x = "int (le_nat xs)" and ?c = "of_char c :: nat"
  have n: "?n \<le> 7" using len snoc by simp
  have pw: "(256 :: int) ^ ?n = 2 ^ (8 * ?n)" by (simp add: power_mult)
  have x: "?x < 2 ^ (8 * ?n)" using le_nat_less [of xs] unfolding pw [symmetric] by (metis of_nat_less_iff of_nat_numeral of_nat_power)
  have v: "int (le_nat vch) = ?x + 2 ^ (8 * ?n) * int ?c" by (simp add: snoc le_nat_append pw)
  have up: "2 ^ (8 * ?n) * (y :: int) \<le> 2 ^ 56 * y" if "0 \<le> y" for y
    using n that by (intro mult_right_mono power_increasing) auto
  have c: "int ?c \<le> 255" using of_char_less [of c] by linarith
  show ?thesis
  proof (cases "128 \<le> ?c")
    case True
    define a where "a = ?x + 2 ^ (8 * ?n) * (int ?c - 128)"
    have split: "int (le_nat vch) = a + 2 ^ (8 * ?n + 7)" by (simp add: v a_def power_add algebra_simps)
    have a0: "0 \<le> a" using True by (simp add: a_def)
    have "a < 2 ^ (8 * ?n) * (int ?c - 127)" using x by (simp add: a_def algebra_simps)
    also have "\<dots> \<le> 2 ^ (8 * ?n) * 128" using c by (intro mult_left_mono) simp_all
    finally have a1: "a < 2 ^ (8 * ?n + 7)" by (simp add: power_add)
    have b: "(2 :: int) ^ (8 * ?n + 7) \<le> 2 ^ 63" using n by (intro power_increasing) auto
    have "u64 (s64 (int (le_nat vch))) = int (le_nat vch)" using split a0 a1 b by (simp add: u64_def s64_def mod_simps)
    moreover have "(0x80 :: int) * 2 ^ (8 * ?n) = 2 ^ (8 * ?n + 7)" by (simp add: power_add)
    moreover have "s64 (- s64 a) = - a" using a0 a1 b by (simp add: s64_id)
    ultimately have sv: "set_vch vch = Some (- a)"
      using len True clear_bit [OF a0 a1] by (simp add: set_vch_def snoc split [unfolded snoc])
    have "int (le_nat vch - 128 * 256 ^ ?n) = a"
    proof -
      have "128 * 256 ^ ?n \<le> le_nat vch" using True by (simp add: snoc le_nat_append trans_le_add2)
      then have "int (le_nat vch - 128 * 256 ^ ?n) = int (le_nat vch) - 128 * 256 ^ ?n" by (simp add: of_nat_diff)
      then show ?thesis by (simp add: split pw power_add)
    qed
    then have "vch_val vch = - a" using True by (simp add: vch_val_def snoc)
    then show ?thesis using sv by simp
  next
    case False
    have "int (le_nat vch) < 2 ^ (8 * ?n) * (int ?c + 1)" using x v by (simp add: algebra_simps)
    also have "\<dots> \<le> 2 ^ 56 * 128" using up [of "int ?c + 1"] False by simp
    finally have "s64 (int (le_nat vch)) = int (le_nat vch)" by (simp add: s64_id)
    then show ?thesis using len False by (simp add: set_vch_def vch_val_def snoc)
  qed
qed (simp add: set_vch_def vch_val_def)

lemma serialize_unfold:
  "int64 v \<Longrightarrow> ScriptNum_serialize v =
     (if v = 0 then []
      else let neg = v < 0; result = abs_bytes (nat \<bar>v\<bar>)
       in if 128 \<le> (of_char (last result) :: nat) then result @ [if neg then CHR 0x80 else CHR 0x00]
          else if neg then butlast result @ [char_of (of_char (last result) + 128 :: nat)]
          else result)"
  unfolding ScriptNum_serialize_def Let_def by (simp only: abs64)

lemma serialize_cases:
  assumes "v \<noteq> 0" and "int64 v"
  shows "\<exists>xs top. (of_char top :: nat) \<noteq> 0 \<and> nat \<bar>v\<bar> = le_nat xs + 256 ^ length xs * of_char top
    \<and> ScriptNum_serialize v = (if 128 \<le> (of_char top :: nat) then xs @ [top, if v < 0 then CHR 0x80 else CHR 0x00]
        else if v < 0 then xs @ [char_of (of_char top + 128 :: nat)] else xs @ [top])"
proof -
  have "nat \<bar>v\<bar> \<noteq> 0" using assms by simp
  then obtain xs top where "abs_bytes (nat \<bar>v\<bar>) = xs @ [top]" "(of_char top :: nat) \<noteq> 0" "nat \<bar>v\<bar> = le_nat xs + 256 ^ length xs * of_char top"
    using abs_bytes_split by blast
  then show ?thesis using assms by (intro exI [of _ xs] exI [of _ top]) (simp add: serialize_unfold Let_def)
qed

lemma set_vch_serialize:
  assumes "int64 v"
  shows "vch_val (ScriptNum_serialize v) = v"
proof (cases "v = 0")
  case False
  then obtain xs top where t: "(of_char top :: nat) \<noteq> 0" "nat \<bar>v\<bar> = le_nat xs + 256 ^ length xs * of_char top"
    "ScriptNum_serialize v = (if 128 \<le> (of_char top :: nat) then xs @ [top, if v < 0 then CHR 0x80 else CHR 0x00]
        else if v < 0 then xs @ [char_of (of_char top + 128 :: nat)] else xs @ [top])"
    using serialize_cases assms by blast
  from t(2) have "\<bar>v\<bar> = int (le_nat xs) + 256 ^ length xs * int (of_char top)"
    by (metis abs_ge_zero int_nat_eq of_nat_add of_nat_mult of_nat_numeral of_nat_power)
  note t = t(1,3) this
  show ?thesis
  proof (cases "128 \<le> (of_char top :: nat)")
    case True
    then show ?thesis using t by (cases "v < 0") (simp_all add: vch_val_def le_nat_append algebra_simps)
  next
    case False
    then show ?thesis using t by (cases "v < 0") (simp_all add: vch_val_def le_nat_append algebra_simps)
  qed
qed (simp add: ScriptNum_serialize_def vch_val_def)

lemma serialize_minimal:
  assumes "int64 v" and "k \<le> 8"
  shows "CScriptNum (ScriptNum_serialize v) True k = (if length (ScriptNum_serialize v) \<le> k then Some v else None)"
proof (cases "v = 0")
  case False
  then obtain xs top where t: "(of_char top :: nat) \<noteq> 0"
    "ScriptNum_serialize v = (if 128 \<le> (of_char top :: nat) then xs @ [top, if v < 0 then CHR 0x80 else CHR 0x00]
        else if v < 0 then xs @ [char_of (of_char top + 128 :: nat)] else xs @ [top])"
    using serialize_cases assms by blast
  then have "\<not> ((of_char (last (ScriptNum_serialize v)) :: nat) mod 128 = 0
      \<and> (length (ScriptNum_serialize v) \<le> 1 \<or> (of_char (ScriptNum_serialize v ! (length (ScriptNum_serialize v) - 2)) :: nat) < 128))"
    by (auto simp: nth_append)
  then show ?thesis using set_vch_val set_vch_serialize [OF assms(1)] assms(2) unfolding CScriptNum_def by auto
qed (simp add: ScriptNum_serialize_def CScriptNum_def set_vch_def)

lemma serialize_length:
  assumes "int64 v"
  shows "length (ScriptNum_serialize v) \<le> Suc k \<longleftrightarrow> \<bar>v\<bar> < 128 * 256 ^ k"
proof (cases "v = 0")
  case False
  then obtain xs top where t: "(of_char top :: nat) \<noteq> 0" "nat \<bar>v\<bar> = le_nat xs + 256 ^ length xs * of_char top"
    "ScriptNum_serialize v = (if 128 \<le> (of_char top :: nat) then xs @ [top, if v < 0 then CHR 0x80 else CHR 0x00]
        else if v < 0 then xs @ [char_of (of_char top + 128 :: nat)] else xs @ [top])"
    using serialize_cases assms by blast
  let ?a = "nat \<bar>v\<bar>" and ?n = "length xs"
  have mono: "m \<le> n \<Longrightarrow> 256 ^ m \<le> (256 ^ n :: nat)" for m n by simp
  have up: "?a < 256 ^ ?n * (of_char top + 1)" using le_nat_less [of xs] by (simp add: t(2))
  have lo: "256 ^ ?n * of_char top \<le> ?a" by (simp add: t(2))
  have "length (ScriptNum_serialize v) \<le> Suc k \<longleftrightarrow> ?a < 128 * 256 ^ k"
  proof (cases "128 \<le> (of_char top :: nat)")
    case True
    have "?n < k" if "?a < 128 * 256 ^ k"
    proof (rule ccontr)
      assume "\<not> ?n < k"
      then have "256 ^ k * 128 \<le> 256 ^ ?n * (of_char top :: nat)" using True by (intro mult_mono mono) auto
      then show False using lo that by simp
    qed
    moreover have "?a < 128 * 256 ^ k" if "?n < k"
    proof -
      have "?a < 256 ^ ?n * 256" using up of_char_less [of top] by (smt (verit) Suc_eq_plus1 Suc_leI mult_le_mono2 order_less_le_trans)
      also have "\<dots> \<le> 256 ^ k" using mono [of "Suc ?n" k] that by simp
      finally show ?thesis by linarith
    qed
    ultimately show ?thesis using t True by auto
  next
    case small: False
    have "?a < 128 * 256 ^ k" if "?n \<le> k"
    proof -
      have "256 ^ ?n * (of_char top + 1) \<le> 256 ^ k * (128 :: nat)" using small that by (intro mult_mono mono) auto
      then show ?thesis using up by simp
    qed
    moreover have "?n \<le> k" if "?a < 128 * 256 ^ k"
    proof (rule ccontr)
      assume "\<not> ?n \<le> k"
      then have "256 * 256 ^ k \<le> 256 ^ ?n * (1 :: nat)" using mono [of "Suc k" ?n] by simp
      also have "\<dots> \<le> 256 ^ ?n * of_char top" using t(1) by (intro mult_le_mono2) simp
      finally show False using lo that by simp
    qed
    ultimately show ?thesis using t small by auto
  qed
  moreover have "\<bar>v\<bar> < 128 * 256 ^ k \<longleftrightarrow> ?a < 128 * 256 ^ k"
    by (simp add: nat_less_iff)
  ultimately show ?thesis by blast
qed (simp add: ScriptNum_serialize_def)

lemma vch_val_snoc:
  "vch_val (xs @ [c]) = (if 128 \<le> (of_char c :: nat) then - int (le_nat (xs @ [char_of ((of_char c :: nat) mod 128)]))
     else int (le_nat (xs @ [char_of ((of_char c :: nat) mod 128)])))"
proof (cases "128 \<le> (of_char c :: nat)")
  case True
  then obtain d where "(of_char c :: nat) = 128 + d" using le_Suc_ex by blast
  then show ?thesis using of_char_less [of c] by (simp add: vch_val_def le_nat_append algebra_simps)
next
  case False
  then show ?thesis by (simp add: vch_val_def le_nat_append)
qed

lemma CScriptNum_minimal:
  assumes "CScriptNum vch True k = Some v"
  shows "int64 v \<and> ScriptNum_serialize v = vch"
proof (cases vch rule: rev_cases)
  case Nil
  then show ?thesis using assms by (simp add: CScriptNum_def set_vch_def ScriptNum_serialize_def)
next
  case (snoc xs c)
  have sv: "set_vch vch = Some v" using assms by (simp add: CScriptNum_def split: if_splits)
  then have len: "length vch \<le> 8" by (simp add: set_vch_def snoc split: if_splits)
  then have v: "v = vch_val vch" using sv set_vch_val by simp
  have r: "int64 v" using sv s64_lower s64_upper by (auto simp: set_vch_def Let_def split: if_splits)
  have c: "(of_char c :: nat) < 256" by (rule of_char_less)
  let ?top = "(of_char c :: nat) mod 128"
  have le: "nat \<bar>v\<bar> = le_nat (xs @ [char_of ?top])" and sg: "v < 0 \<longrightarrow> 128 \<le> (of_char c :: nat)"
    and sg2: "le_nat (xs @ [char_of ?top]) \<noteq> 0 \<longrightarrow> (v < 0 \<longleftrightarrow> 128 \<le> (of_char c :: nat))"
    unfolding v snoc vch_val_snoc by simp_all
  show ?thesis
  proof (cases "?top = 0")
    case True
    then have x: "xs \<noteq> []" "128 \<le> (of_char (last xs) :: nat)"
      using assms by (auto simp: CScriptNum_def snoc nth_append last_conv_nth split: if_splits)
    then have "abs_bytes (le_nat xs) = xs" by (intro abs_bytes_le_nat) auto
    moreover have "le_nat (xs @ [char_of ?top]) = le_nat xs" by (simp add: le_nat_append True)
    moreover have "le_nat xs \<noteq> 0" using x calculation abs_bytes_0 by metis
    moreover have "c = (if v < 0 then CHR 0x80 else CHR 0x00)"
    proof -
      have "(of_char c :: nat) = (if v < 0 then 128 else 0)" using sg2 calculation True c by (auto simp: mod_128 split: if_splits)
      then have "(of_char c :: nat) = of_char (if v < 0 then CHR 0x80 else CHR 0x00)" by simp
      then show ?thesis by (rule injD [OF inj_of_char])
    qed
    ultimately show ?thesis using r x le by (auto simp: serialize_unfold Let_def snoc)
  next
    case False
    then have "abs_bytes (le_nat (xs @ [char_of ?top])) = xs @ [char_of ?top]" by (intro abs_bytes_le_nat) auto
    moreover from this have nz: "le_nat (xs @ [char_of ?top]) \<noteq> 0" using abs_bytes_0 by (metis append_is_Nil_conv not_Cons_self2)
    moreover have "char_of (?top + (if v < 0 then 128 else 0)) = c"
      using sg2 nz c by (auto simp: mod_128 split: if_splits)
    moreover have "v \<noteq> 0" using le nz by simp
    ultimately show ?thesis using r le by (auto simp: serialize_unfold Let_def snoc)
  qed
qed

subsection \<open>Pushes\<close>

definition push_data :: "string \<Rightarrow> string" where
  "push_data b =
     (if length b < OP_PUSHDATA1 then [char_of (length b)]
      else if length b \<le> 0xff then push_op OP_PUSHDATA1 @ [char_of (length b)]
      else if length b \<le> 0xffff then push_op OP_PUSHDATA2 @ le_bytes 2 (length b)
      else push_op OP_PUSHDATA4 @ le_bytes 4 (length b)) @ b"

definition push_int64 :: "int \<Rightarrow> string" where
  "push_int64 n = (if n = - 1 \<or> (1 \<le> n \<and> n \<le> 16) then [char_of (nat (n + int (OP_1 - 1)))]
     else if n = 0 then push_op 0 else push_data (ScriptNum_serialize n))"

text \<open>\<^verbatim>\<open>GetOp2\<close>: the opcode, its data and the rest of the script; \<open>None\<close> for \<^verbatim>\<open>false\<close>.\<close>

definition GetOp_size :: "nat \<Rightarrow> string \<Rightarrow> (nat \<times> string) option" where
  "GetOp_size opcode pc =
     (if opcode < OP_PUSHDATA1 then Some (opcode, pc)
      else if opcode = OP_PUSHDATA1 then if length pc < 1 then None else Some (le_nat (take 1 pc), drop 1 pc)
      else if opcode = OP_PUSHDATA2 then if length pc < 2 then None else Some (le_nat (take 2 pc), drop 2 pc)
      else if length pc < 4 then None else Some (le_nat (take 4 pc), drop 4 pc))"

definition GetOp :: "CScript \<Rightarrow> (nat \<times> string \<times> CScript) option" where
  "GetOp script =
     (case script of
        [] \<Rightarrow> None
      | c # pc \<Rightarrow>
          let opcode = of_char c
          in if opcode \<le> OP_PUSHDATA4 then
               (case GetOp_size opcode pc of
                  None \<Rightarrow> None
                | Some (nSize, pc) \<Rightarrow> if length pc < nSize then None else Some (opcode, take nSize pc, drop nSize pc))
             else Some (opcode, [], pc))"

lemma GetOp_Nil [simp]: "GetOp [] = None"
  by (simp add: GetOp_def)

lemma GetOp_shrinks [termination_simp]: "GetOp s = Some (opcode, data, pc) \<Longrightarrow> length pc < length s"
  by (auto simp: GetOp_def GetOp_size_def Let_def split: list.splits if_splits option.splits)

lemma GetOp_data_length: "GetOp s = Some (opcode, data, pc) \<Longrightarrow> length data + length pc < length s"
  by (auto simp: GetOp_def GetOp_size_def Let_def split: list.splits if_splits option.splits)

lemma GetOp_opcode [simp]: "OP_PUSHDATA4 < n \<Longrightarrow> n < 256 \<Longrightarrow> GetOp (char_of n # s) = Some (n, [], s)"
  by (simp add: GetOp_def Let_def)

lemma GetOp_direct: "n < OP_PUSHDATA1 \<Longrightarrow> n \<le> length s \<Longrightarrow> GetOp (char_of n # s) = Some (n, take n s, drop n s)"
  by (simp add: GetOp_def GetOp_size_def Let_def)

lemma GetOp_push_data:
  assumes "length b < 2 ^ 32"
  shows "\<exists>opcode \<le> OP_PUSHDATA4. GetOp (push_data b @ s) = Some (opcode, b, s)"
proof -
  have "le_bytes 2 k = [char_of k, char_of (k div 256)]" for k by (simp add: numeral_2_eq_2)
  moreover have "le_nat (le_bytes 2 (length b)) = length b" if "length b \<le> 0xffff" using that by (simp add: le_nat_bytes)
  moreover have "le_nat (le_bytes 4 (length b)) = length b" using assms by (simp add: le_nat_bytes)
  ultimately show ?thesis by (auto simp: GetOp_def GetOp_size_def push_data_def push_op_def Let_def)
qed

fun IsPushOnly :: "CScript \<Rightarrow> bool" where
  "IsPushOnly pc = (if pc = [] then True
     else case GetOp pc of None \<Rightarrow> False | Some (opcode, _, pc') \<Rightarrow> if opcode > OP_16 then False else IsPushOnly pc')"

declare IsPushOnly.simps [simp del]

definition DecodeOP_N :: "nat \<Rightarrow> nat option" where
  "DecodeOP_N opcode = (if opcode = 0 then Some 0 else if OP_1 \<le> opcode \<and> opcode \<le> OP_16 then Some (opcode - (OP_1 - 1)) else None)"

definition EncodeOP_N :: "nat \<Rightarrow> nat option" where
  "EncodeOP_N n = (if n > 16 then None else if n = 0 then Some 0 else Some (OP_1 + n - 1))"

text \<open>The number of signature checks in a script, and in the script that a pay-to-script-hash input pushes last.\<close>

function sigops_from :: "bool \<Rightarrow> nat \<Rightarrow> nat \<Rightarrow> CScript \<Rightarrow> nat" where
  "sigops_from fAccurate lastOpcode n pc =
     (case GetOp pc of
        None \<Rightarrow> n
      | Some (opcode, _, pc') \<Rightarrow>
          sigops_from fAccurate opcode
            (if opcode = OP_CHECKSIG \<or> opcode = OP_CHECKSIGVERIFY then n + 1
             else if opcode = OP_CHECKMULTISIG \<or> opcode = OP_CHECKMULTISIGVERIFY then
               if fAccurate \<and> OP_1 \<le> lastOpcode \<and> lastOpcode \<le> OP_16 then n + (lastOpcode - (OP_1 - 1)) else n + 20
             else n) pc')"
  by pat_completeness auto
termination
  by (relation "measure (\<lambda>(_, _, _, pc). length pc)") (auto simp: GetOp_shrinks)

declare sigops_from.simps [simp del]

definition GetSigOpCount :: "bool \<Rightarrow> CScript \<Rightarrow> nat" where
  "GetSigOpCount fAccurate script = sigops_from fAccurate OP_INVALIDOPCODE 0 script"

definition IsPayToScriptHash :: "CScript \<Rightarrow> bool" where
  "IsPayToScriptHash s \<longleftrightarrow> length s = 23 \<and> s ! 0 = char_of OP_HASH160 \<and> s ! 1 = char_of (20 :: nat) \<and> s ! 22 = char_of OP_EQUAL"

function last_push :: "string \<Rightarrow> CScript \<Rightarrow> string option" where
  "last_push data pc = (if pc = [] then Some data
     else case GetOp pc of None \<Rightarrow> None | Some (opcode, data', pc') \<Rightarrow> if opcode > OP_16 then None else last_push data' pc')"
  by pat_completeness auto
termination
  by (relation "measure (\<lambda>(_, pc). length pc)") (auto simp: GetOp_shrinks)

declare last_push.simps [simp del]

definition GetSigOpCount_P2SH :: "CScript \<Rightarrow> CScript \<Rightarrow> nat" where
  "GetSigOpCount_P2SH scriptPubKey scriptSig =
     (if \<not> IsPayToScriptHash scriptPubKey then GetSigOpCount True scriptPubKey
      else case last_push [] scriptSig of None \<Rightarrow> 0 | Some data \<Rightarrow> GetSigOpCount True data)"

definition IsPayToColdStaking :: "CScript \<Rightarrow> bool" where
  "IsPayToColdStaking s \<longleftrightarrow> length s = 51 \<and> s ! 2 = char_of OP_ROT \<and> s ! 4 = char_of OP_CHECKCOLDSTAKEVERIFY \<and> s ! 5 = char_of (20 :: nat)
     \<and> s ! 27 = char_of (20 :: nat) \<and> s ! 49 = char_of OP_EQUALVERIFY \<and> s ! 50 = char_of OP_CHECKSIG"

definition IsZerocoinMint :: "CScript \<Rightarrow> bool" where
  "IsZerocoinMint s \<longleftrightarrow> s \<noteq> [] \<and> s ! 0 = char_of OP_ZEROCOINMINT"

definition IsUnspendable :: "CScript \<Rightarrow> bool" where
  "IsUnspendable s \<longleftrightarrow> (length s > 0 \<and> s ! 0 = char_of OP_RETURN) \<or> length s > 10000"

subsection \<open>Classification of outputs\<close>

definition pubkey_GetLen :: "nat \<Rightarrow> nat" where
  "pubkey_GetLen chHeader = (if chHeader = 2 \<or> chHeader = 3 then 33 else if chHeader = 4 \<or> chHeader = 6 \<or> chHeader = 7 then 65 else 0)"

definition ValidSize :: "string \<Rightarrow> bool" where
  "ValidSize vch \<longleftrightarrow> length vch > 0 \<and> pubkey_GetLen (of_char (vch ! 0)) = length vch"

definition MatchPayToPubkey :: "CScript \<Rightarrow> string option" where
  "MatchPayToPubkey s =
     (if length s = 65 + 2 \<and> s ! 0 = char_of (65 :: nat) \<and> last s = char_of OP_CHECKSIG then
        (let pubkey = take 65 (drop 1 s) in if ValidSize pubkey then Some pubkey else None)
      else if length s = 33 + 2 \<and> s ! 0 = char_of (33 :: nat) \<and> last s = char_of OP_CHECKSIG then
        (let pubkey = take 33 (drop 1 s) in if ValidSize pubkey then Some pubkey else None)
      else None)"

definition MatchPayToPubkeyHash :: "CScript \<Rightarrow> string option" where
  "MatchPayToPubkeyHash s =
     (if length s = 25 \<and> s ! 0 = char_of OP_DUP \<and> s ! 1 = char_of OP_HASH160 \<and> s ! 2 = char_of (20 :: nat)
        \<and> s ! 23 = char_of OP_EQUALVERIFY \<and> s ! 24 = char_of OP_CHECKSIG
      then Some (take 20 (drop 3 s)) else None)"

definition MatchPayToColdStaking :: "CScript \<Rightarrow> (string \<times> string) option" where
  "MatchPayToColdStaking s = (if IsPayToColdStaking s then Some (take 20 (drop 6 s), take 20 (drop 28 s)) else None)"

definition IsSmallInteger :: "nat \<Rightarrow> bool" where
  "IsSmallInteger opcode \<longleftrightarrow> OP_1 \<le> opcode \<and> opcode \<le> OP_16"

text \<open>The loop over the public keys: the opcode it stops at (invalid when the script ends), the keys and the rest.\<close>

function multisig_keys :: "CScript \<Rightarrow> string list \<Rightarrow> nat \<times> string list \<times> CScript" where
  "multisig_keys it keys =
     (case GetOp it of
        None \<Rightarrow> (OP_INVALIDOPCODE, keys, it)
      | Some (opcode, data, it') \<Rightarrow> if ValidSize data then multisig_keys it' (keys @ [data]) else (opcode, keys, it'))"
  by pat_completeness auto
termination
  by (relation "measure (\<lambda>(it, _). length it)") (auto simp: GetOp_shrinks)

declare multisig_keys.simps [simp del]

definition MatchMultisig :: "CScript \<Rightarrow> (nat \<times> string list) option" where
  "MatchMultisig s =
     (if length s < 1 \<or> last s \<noteq> char_of OP_CHECKMULTISIG then None
      else do {
        (opcode, _, it) \<leftarrow> GetOp s;
        if \<not> IsSmallInteger opcode then None else do {
          required \<leftarrow> DecodeOP_N opcode;
          (case multisig_keys it [] of
             (opcode, pubkeys, it) \<Rightarrow>
               if \<not> IsSmallInteger opcode then None else do {
                 n \<leftarrow> DecodeOP_N opcode;
                 if length pubkeys \<noteq> n \<or> n < required then None
                 else if length it = 1 then Some (required, pubkeys) else None
               })
        }
      })"

text \<open>The result of a solver: success, the type and the solutions. For a script of one byte \<^verbatim>\<open>OP_ZEROCOINMINT\<close> the range from the third byte to the end
  is negative and the construction of the vector throws; this is \<open>None\<close>.\<close>

type_synonym solution = "bool \<times> txnouttype \<times> string list"

definition Solver :: "CScript \<Rightarrow> solution option" where
  "Solver s =
     (if IsPayToScriptHash s then Some (True, TX_SCRIPTHASH, [take 20 (drop 2 s)])
      else if IsZerocoinMint s then
        if length s > 150 then Some (False, TX_ZEROCOINMINT, [])
        else if length s < 2 then None
        else Some (True, TX_ZEROCOINMINT, [drop 2 s])
      else if length s \<ge> 1 \<and> s ! 0 = char_of OP_RETURN \<and> IsPushOnly (drop 1 s) then Some (True, TX_NULL_DATA, [])
      else case MatchPayToPubkey s of Some data \<Rightarrow> Some (True, TX_PUBKEY, [data]) | None \<Rightarrow>
        (case MatchPayToPubkeyHash s of Some data \<Rightarrow> Some (True, TX_PUBKEYHASH, [data]) | None \<Rightarrow>
          (case MatchPayToColdStaking s of Some (data, data1) \<Rightarrow> Some (True, TX_COLDSTAKE, [data, data1]) | None \<Rightarrow>
            (case MatchMultisig s of
               Some (required, keys) \<Rightarrow> Some (True, TX_MULTISIG, [[char_of required]] @ keys @ [[char_of (length keys)]])
             | None \<Rightarrow> Some (False, TX_NONSTANDARD, [])))))"

definition ScriptSigArgsExpected :: "txnouttype \<Rightarrow> string list \<Rightarrow> int" where
  "ScriptSigArgsExpected t vSolutions =
     (case t of
        TX_PUBKEY \<Rightarrow> 1
      | TX_PUBKEYHASH \<Rightarrow> 2
      | TX_COLDSTAKE \<Rightarrow> 3
      | TX_MULTISIG \<Rightarrow> if length vSolutions < 1 \<or> length (vSolutions ! 0) < 1 then - 1 else int (of_char (vSolutions ! 0 ! 0)) + 1
      | TX_SCRIPTHASH \<Rightarrow> 1
      | _ \<Rightarrow> - 1)"

datatype CTxDestination = CNoDestination | CKeyID string | CScriptID string

definition IsValidDestination :: "CTxDestination \<Rightarrow> bool" where
  "IsValidDestination d \<longleftrightarrow> d \<noteq> CNoDestination"

text \<open>The destination of an output: \<open>None\<close> for the exception, \<open>Some None\<close> for \<^verbatim>\<open>false\<close>. A public key is valid when its size is.\<close>

definition ExtractDestination :: "(string \<Rightarrow> string) \<Rightarrow> bool \<Rightarrow> CScript \<Rightarrow> CTxDestination option option" where
  "ExtractDestination Hash160 fColdStake s = do {
     (ok, whichType, vSolutions) \<leftarrow> Solver s;
     Some (if \<not> ok then None
       else if whichType = TX_PUBKEY then if \<not> ValidSize (vSolutions ! 0) then None else Some (CKeyID (Hash160 (vSolutions ! 0)))
       else if whichType = TX_PUBKEYHASH then Some (CKeyID (vSolutions ! 0))
       else if whichType = TX_SCRIPTHASH then Some (CScriptID (vSolutions ! 0))
       else if whichType = TX_COLDSTAKE then Some (CKeyID (vSolutions ! (if fColdStake then 0 else 1)))
       else None)
   }"

text \<open>\<^verbatim>\<open>ExtractDestinations\<close>: the type, the destinations and the number of signatures.\<close>

definition ExtractDestinations :: "(string \<Rightarrow> string) \<Rightarrow> CScript \<Rightarrow> (txnouttype \<times> CTxDestination list \<times> nat) option option" where
  "ExtractDestinations Hash160 s = do {
     (ok, typeRet, vSolutions) \<leftarrow> Solver s;
     if \<not> ok \<or> typeRet = TX_NULL_DATA then Some None
     else if typeRet = TX_MULTISIG then
       (let addressRet = map (\<lambda>k. CKeyID (Hash160 k)) (filter ValidSize (butlast (tl vSolutions)))
        in Some (if addressRet = [] then None else Some (typeRet, addressRet, of_char (hd vSolutions ! 0))))
     else if typeRet = TX_COLDSTAKE then
       Some (if length vSolutions < 2 then None else Some (typeRet, [CKeyID (vSolutions ! 0), CKeyID (vSolutions ! 1)], 2))
     else do {
       dest \<leftarrow> ExtractDestination Hash160 False s;
       Some (map_option (\<lambda>address. (typeRet, [address], 1)) dest)
     }
   }"

definition GetScriptForDestination :: "CTxDestination \<Rightarrow> CScript" where
  "GetScriptForDestination dest =
     (case dest of
        CNoDestination \<Rightarrow> []
      | CKeyID keyID \<Rightarrow> push_op OP_DUP @ push_op OP_HASH160 @ push_data keyID @ push_op OP_EQUALVERIFY @ push_op OP_CHECKSIG
      | CScriptID scriptID \<Rightarrow> push_op OP_HASH160 @ push_data scriptID @ push_op OP_EQUAL)"

definition GetScriptForRawPubKey :: "string \<Rightarrow> CScript" where
  "GetScriptForRawPubKey pubKey = push_data pubKey @ push_op OP_CHECKSIG"

definition GetScriptForStakeDelegation :: "string \<Rightarrow> string \<Rightarrow> CScript" where
  "GetScriptForStakeDelegation stakingKey spendingKey =
     push_op OP_DUP @ push_op OP_HASH160 @ push_op OP_ROT @ push_op OP_IF @ push_op OP_CHECKCOLDSTAKEVERIFY @ push_data stakingKey
       @ push_op OP_ELSE @ push_data spendingKey @ push_op OP_ENDIF @ push_op OP_EQUALVERIFY @ push_op OP_CHECKSIG"

definition GetScriptForMultisig :: "nat \<Rightarrow> string list \<Rightarrow> CScript option" where
  "GetScriptForMultisig nRequired keys = do {
     m \<leftarrow> EncodeOP_N nRequired;
     n \<leftarrow> EncodeOP_N (length keys);
     Some (push_op m @ concat (map push_data keys) @ push_op n @ push_op OP_CHECKMULTISIG)
   }"

subsection \<open>The classification of the token layer\<close>

text \<open>\<^verbatim>\<open>HexStr\<close> and \<^verbatim>\<open>ParseHex\<close>; the terminating zero of the C string is no digit.\<close>

definition HexStr :: "string \<Rightarrow> string" where
  "HexStr vch = concat (map hex_byte vch)"

function ParseHex :: "string \<Rightarrow> string" where
  "ParseHex psz =
     (case dropWhile is_space psz of
        c # d # s \<Rightarrow> if HexDigit c = - 1 \<or> HexDigit d = - 1 then [] else char_of (nat (HexDigit c) * 16 + nat (HexDigit d)) # ParseHex s
      | _ \<Rightarrow> [])"
  by pat_completeness auto
termination
proof (relation "measure length", simp)
  fix psz c x y d s assume "dropWhile is_space psz = c # x" "x = d # s" 
  then show "(s, psz) \<in> measure length" using length_dropWhile_le [of is_space psz] by simp
qed

declare ParseHex.simps [simp del]

text \<open>\<^verbatim>\<open>GetScriptPushes\<close>: success, and the pushes found, which are appended to the result also when the script ends early.\<close>

function pushes_from :: "bool \<Rightarrow> nat \<Rightarrow> CScript \<Rightarrow> bool \<times> string list" where
  "pushes_from fSkipFirst cnt pc =
     (if pc = [] then (True, [])
      else case GetOp pc of
        None \<Rightarrow> (False, [])
      | Some (opcode, data, pc') \<Rightarrow>
          if opcode \<le> OP_PUSHDATA4 then
            (case pushes_from fSkipFirst (Suc cnt) pc' of
               (ok, r) \<Rightarrow> (ok, (if cnt \<noteq> 0 \<or> \<not> fSkipFirst then [HexStr data] else []) @ r))
          else pushes_from fSkipFirst cnt pc')"
  by pat_completeness auto
termination
  by (relation "measure (\<lambda>(_, _, pc). length pc)") (auto simp: GetOp_shrinks)

declare pushes_from.simps [simp del]

definition GetScriptPushes :: "CScript \<Rightarrow> bool \<Rightarrow> bool \<times> string list" where
  "GetScriptPushes script fSkipFirst = pushes_from fSkipFirst 0 script"

text \<open>The loop over public keys in a template; after a failed \<^verbatim>\<open>GetOp\<close> the opcode is invalid, and no template
  continues with it, so the position does not matter.\<close>

function collect_keys :: "nat \<times> string \<times> CScript \<Rightarrow> string list \<Rightarrow> (nat \<times> string \<times> CScript) \<times> string list" where
  "collect_keys (opcode1, vch1, pc1) sols =
     (if 33 \<le> length vch1 \<and> length vch1 \<le> 65 then
        (case GetOp pc1 of
           None \<Rightarrow> ((OP_INVALIDOPCODE, [], pc1), sols @ [vch1])
         | Some x \<Rightarrow> collect_keys x (sols @ [vch1]))
      else ((opcode1, vch1, pc1), sols))"
  by pat_completeness auto
termination
  by (relation "measure (\<lambda>((_, _, pc), _). length pc)") (auto simp: GetOp_shrinks)

declare collect_keys.simps [simp del]

definition match_op :: "nat \<Rightarrow> string \<Rightarrow> nat \<Rightarrow> string \<Rightarrow> string list \<Rightarrow> string list option" where
  "match_op opcode1 vch1 opcode2 vch2 sols =
     (if opcode2 = OP_PUBKEY then if length vch1 < 33 \<or> length vch1 > 65 then None else Some (sols @ [vch1])
      else if opcode2 = OP_PUBKEYHASH then if length vch1 \<noteq> 20 then None else Some (sols @ [vch1])
      else if opcode2 = OP_SMALLINTEGER then
        if opcode1 = 0 \<or> (OP_1 \<le> opcode1 \<and> opcode1 \<le> OP_16) then map_option (\<lambda>n. sols @ [[char_of n]]) (DecodeOP_N opcode1) else None
      else if opcode1 \<noteq> opcode2 \<or> vch1 \<noteq> vch2 then None
      else Some sols)"

function match_template :: "CScript \<Rightarrow> CScript \<Rightarrow> string list \<Rightarrow> string list option" where
  "match_template pc1 pc2 sols =
     (if pc1 = [] \<and> pc2 = [] then Some sols
      else case GetOp pc1 of None \<Rightarrow> None | Some x1 \<Rightarrow>
        (case GetOp pc2 of None \<Rightarrow> None | Some (opcode2, vch2, pc2') \<Rightarrow>
          if opcode2 = OP_PUBKEYS then
            (case collect_keys x1 sols of ((opcode1, vch1, pc1'), sols) \<Rightarrow>
              (case GetOp pc2' of None \<Rightarrow> None | Some (opcode2, vch2, pc2'') \<Rightarrow>
                (case match_op opcode1 vch1 opcode2 vch2 sols of None \<Rightarrow> None | Some sols \<Rightarrow> match_template pc1' pc2'' sols)))
          else
            (case x1 of (opcode1, vch1, pc1') \<Rightarrow>
              (case match_op opcode1 vch1 opcode2 vch2 sols of None \<Rightarrow> None | Some sols \<Rightarrow> match_template pc1' pc2' sols))))"
  by pat_completeness auto
termination
  by (relation "measure (\<lambda>(_, pc2, _). length pc2)") (auto dest!: GetOp_shrinks)

declare match_template.simps [simp del]

definition mTemplates :: "(txnouttype \<times> CScript) list" where
  "mTemplates =
     [(TX_PUBKEY, push_op OP_PUBKEY @ push_op OP_CHECKSIG),
      (TX_PUBKEYHASH, push_op OP_DUP @ push_op OP_HASH160 @ push_op OP_PUBKEYHASH @ push_op OP_EQUALVERIFY @ push_op OP_CHECKSIG),
      (TX_MULTISIG, push_op OP_SMALLINTEGER @ push_op OP_PUBKEYS @ push_op OP_SMALLINTEGER @ push_op OP_CHECKMULTISIG),
      (TX_NULL_DATA, push_op OP_RETURN)]"

fun scan_templates :: "CScript \<Rightarrow> (txnouttype \<times> CScript) list \<Rightarrow> solution" where
  "scan_templates s [] = (False, TX_NONSTANDARD, [])"
| "scan_templates s ((ty, tplate) # ts) =
     (case match_template s tplate [] of
        None \<Rightarrow> scan_templates s ts
      | Some sols \<Rightarrow>
          if ty = TX_MULTISIG then
            (let m = (of_char (hd sols ! 0) :: nat); n = (of_char (last sols ! 0) :: nat)
             in (\<not> (m < 1 \<or> n < 1 \<or> m > n \<or> length sols - 2 \<noteq> n), ty, sols))
          else (True, ty, sols))"

definition SafeSolver :: "CScript \<Rightarrow> solution" where
  "SafeSolver s =
     (if IsPayToScriptHash s then (True, TX_SCRIPTHASH, [take 20 (drop 2 s)])
      else if length s \<ge> 2 \<and> s ! 0 = char_of OP_RETURN \<and> IsPushOnly (drop 1 s) then (True, TX_NULL_DATA, [])
      else scan_templates s mTemplates)"

definition GetOutputType :: "CScript \<Rightarrow> bool \<times> txnouttype" where
  "GetOutputType s = (case SafeSolver s of (ok, ty, _) \<Rightarrow> if ok then (True, ty) else (False, TX_NONSTANDARD))"

subsection \<open>Agreement of the classifications\<close>

lemma GetOp_Some:
  assumes "GetOp s = Some (opcode, data, pc)"
  shows "\<exists>p. s = char_of opcode # p @ pc" "opcode < 256" "OP_PUSHDATA4 < opcode \<Longrightarrow> data = []"
proof -
  from assms obtain c q where s: "s = c # q" "opcode = of_char c" by (cases s) (auto simp: GetOp_def Let_def split: if_splits option.splits)
  have "\<exists>n. pc = drop n q"
    using assms by (auto simp: GetOp_def GetOp_size_def Let_def s(1) split: if_splits option.splits) (metis drop0)
  then show "\<exists>p. s = char_of opcode # p @ pc" using s by (metis append_take_drop_id char_of_char)
  show "opcode < 256" using s of_char_less by simp
  show "data = []" if "OP_PUSHDATA4 < opcode" using assms that s by (auto simp: GetOp_def Let_def)
qed

lemma multisig_keys_collect:
  assumes "multisig_keys it keys = (opcode, keys', it')" "IsSmallInteger opcode" "GetOp it = Some x"
  shows "collect_keys x (pre @ keys) = ((opcode, [], it'), pre @ keys') \<and> (\<exists>p. it = p @ it')"
  using assms
proof (induction it keys arbitrary: x rule: multisig_keys.induct)
  case (1 it keys)
  obtain oc data it1 where x: "x = (oc, data, it1)" by (cases x)
  show ?case
  proof (cases "ValidSize data")
    case True
    then have "33 \<le> length data" "length data \<le> 65" by (auto simp: ValidSize_def pubkey_GetLen_def split: if_splits)
    moreover have m: "multisig_keys it1 (keys @ [data]) = (opcode, keys', it')"
      using 1(2,4) True by (simp add: multisig_keys.simps [of it] x)
    moreover from m 1(3) obtain y where "GetOp it1 = Some y"
      by (cases "GetOp it1") (auto simp: multisig_keys.simps [of it1] IsSmallInteger_def)
    ultimately show ?thesis using 1(1) [OF 1(4) [unfolded x] refl refl True m 1(3)] GetOp_Some(1) [OF 1(4) [unfolded x]]
      by (auto simp: x collect_keys.simps [of oc])
  next
    case False
    then have "oc = opcode" "keys' = keys" "it' = it1" using 1(2,4) by (auto simp: multisig_keys.simps [of it] x)
    moreover have "data = []" using GetOp_Some(3) [OF 1(4) [unfolded x]] 1(3) calculation by (simp add: IsSmallInteger_def)
    ultimately show ?thesis using GetOp_Some(1) [OF 1(4) [unfolded x]] by (auto simp: x collect_keys.simps)
  qed
qed

lemma template_ops [simp]:
  "GetOp (push_op opcode @ s) = Some (opcode, [], s)" "GetOp (push_op opcode) = Some (opcode, [], [])"
  if "OP_PUSHDATA4 < opcode" "opcode < 256"
  using that by (simp_all add: push_op_def)

lemma push_op_nonempty [simp]: "push_op opcode \<noteq> []"
  by (simp add: push_op_def)

lemma char_of_inject: "m < 256 \<Longrightarrow> n < 256 \<Longrightarrow> char_of m = char_of n \<longleftrightarrow> m = (n :: nat)"
  by (metis mod_less of_char_of)

lemma script_frame: "length s = n + 2 \<Longrightarrow> s = s ! 0 # take n (drop 1 s) @ [last s]"
  by (cases s; cases "tl s" rule: rev_cases) auto

lemma match_nil [simp]: "match_template [] [] sols = Some sols"
  by (simp add: match_template.simps)

lemma match_step:
  "GetOp pc1 = Some (opcode1, vch1, pc1') \<Longrightarrow> GetOp pc2 = Some (opcode2, vch2, pc2') \<Longrightarrow> opcode2 \<noteq> OP_PUBKEYS
   \<Longrightarrow> match_template pc1 pc2 sols = (case match_op opcode1 vch1 opcode2 vch2 sols of None \<Rightarrow> None | Some sols \<Rightarrow> match_template pc1' pc2' sols)"
  by (subst match_template.simps) (cases "pc1 = []"; simp)

lemma match_keys:
  "GetOp pc1 = Some x \<Longrightarrow> collect_keys x sols = ((opcode1, vch1, pc1'), sols')
   \<Longrightarrow> match_template pc1 (push_op OP_PUBKEYS @ push_op OP_SMALLINTEGER @ pc2) sols
     = (case match_op opcode1 vch1 OP_SMALLINTEGER [] sols' of None \<Rightarrow> None | Some sols \<Rightarrow> match_template pc1' pc2 sols)"
  by (subst match_template.simps) (cases "pc1 = []"; simp)

lemma safe_pubkey:
  assumes "length pk = n" "n = 65 \<or> n = 33"
  shows "SafeSolver (char_of n # pk @ push_op OP_CHECKSIG) = (True, TX_PUBKEY, [pk])"
proof -
  have "GetOp (char_of n # pk @ push_op OP_CHECKSIG) = Some (n, pk, push_op OP_CHECKSIG)" using assms by (auto simp: GetOp_direct)
  then show ?thesis using assms
    by (auto simp: SafeSolver_def IsPayToScriptHash_def mTemplates_def match_step match_op_def char_of_inject push_op_def)
qed

lemma solver_pubkey:
  assumes "MatchPayToPubkey s = Some pk"
  shows "SafeSolver s = (True, TX_PUBKEY, [pk])"
proof -
  obtain n where n: "n = 65 \<or> n = 33" "length s = n + 2" "s ! 0 = char_of n" "last s = char_of OP_CHECKSIG" "pk = take n (drop 1 s)"
    using assms by (auto simp: MatchPayToPubkey_def Let_def split: if_splits)
  then have "s = char_of n # pk @ push_op OP_CHECKSIG" "length pk = n" using script_frame [of s n] by (simp_all add: push_op_def)
  then show ?thesis using safe_pubkey [of pk n] n(1) by simp
qed

lemma safe_pubkeyhash:
  assumes "length h = 20"
  shows "SafeSolver (push_op OP_DUP @ push_op OP_HASH160 @ push_data h @ push_op OP_EQUALVERIFY @ push_op OP_CHECKSIG) = (True, TX_PUBKEYHASH, [h])"
proof -
  have "push_data h = char_of (20 :: nat) # h" using assms by (simp add: push_data_def)
  moreover have "GetOp (char_of (20 :: nat) # h @ s) = Some (20, h, s)" for s using assms by (simp add: GetOp_direct)
  ultimately show ?thesis using assms
    by (simp add: SafeSolver_def IsPayToScriptHash_def mTemplates_def match_step match_op_def) (simp add: push_op_def char_of_inject)
qed

lemma solver_pubkeyhash:
  assumes "MatchPayToPubkeyHash s = Some h"
  shows "SafeSolver s = (True, TX_PUBKEYHASH, [h])"
proof -
  have l: "length s = 25" and a: "s ! 0 = char_of OP_DUP" "s ! 1 = char_of OP_HASH160" "s ! 2 = char_of (20 :: nat)"
    "s ! 23 = char_of OP_EQUALVERIFY" "s ! 24 = char_of OP_CHECKSIG" and h: "h = take 20 (drop 3 s)"
    using assms by (auto simp: MatchPayToPubkeyHash_def split: if_splits)
  have "s = take 3 s @ h @ drop 23 s" using append_take_drop_id [of 20 "drop 3 s"] by (simp add: h)
  moreover have "take 3 s = [s ! 0, s ! 1, s ! 2]" using l by (simp add: list_eq_iff_nth_eq less_Suc_eq numeral_3_eq_3 numeral_2_eq_2 nth_Cons')
  moreover have "drop 23 s = [s ! 23, s ! 24]" using l by (simp add: list_eq_iff_nth_eq less_Suc_eq numeral_2_eq_2 nth_Cons')
  moreover have "length h = 20" using l h by simp
  ultimately have "s = push_op OP_DUP @ push_op OP_HASH160 @ push_data h @ push_op OP_EQUALVERIFY @ push_op OP_CHECKSIG"
    by (simp add: a [unfolded One_nat_def] push_op_def push_data_def)
  then show ?thesis using safe_pubkeyhash \<open>length h = 20\<close> by simp
qed

lemma solver_multisig:
  assumes "MatchMultisig s = Some (m, keys)" "\<not> IsPayToScriptHash s"
  shows "SafeSolver s = (True, TX_MULTISIG, [[char_of m]] @ keys @ [[char_of (length keys)]])"
proof -
  obtain opcode data it opcode2 it' where m: "GetOp s = Some (opcode, data, it)" "IsSmallInteger opcode" "DecodeOP_N opcode = Some m"
    "multisig_keys it [] = (opcode2, keys, it')" "IsSmallInteger opcode2" "DecodeOP_N opcode2 = Some (length keys)" "m \<le> length keys"
    "length it' = 1" "last s = char_of OP_CHECKMULTISIG"
    using assms(1) by (auto simp: MatchMultisig_def split: if_splits prod.splits bind_splits)
  have d: "data = []" using GetOp_Some(3) [OF m(1)] m(2) by (simp add: IsSmallInteger_def)
  obtain x where x: "GetOp it = Some x" using m(4,5) by (cases "GetOp it") (auto simp: multisig_keys.simps IsSmallInteger_def)
  have c: "collect_keys x pre = ((opcode2, [], it'), pre @ keys) \<and> (\<exists>p. it = p @ it')" for pre
    using multisig_keys_collect [OF m(4,5) x, of pre] by simp
  obtain p where "s = char_of opcode # p @ it'" using c GetOp_Some(1) [OF m(1)] by (metis append_assoc)
  then have it': "it' = push_op OP_CHECKMULTISIG" and s0: "s ! 0 = char_of opcode"
    using m(8,9) x by (auto simp: push_op_def length_Suc_conv GetOp_def)
  have b: "OP_1 \<le> opcode" "opcode \<le> OP_16" "OP_1 \<le> opcode2" "opcode2 \<le> OP_16" "1 \<le> m" "m \<le> 16" "1 \<le> length keys" "keys \<noteq> []" "length keys \<le> 16"
    using m(2,3,5,6) by (auto simp: IsSmallInteger_def DecodeOP_N_def split: if_splits)
  have "match_template s (push_op OP_SMALLINTEGER @ push_op OP_PUBKEYS @ push_op OP_SMALLINTEGER @ push_op OP_CHECKMULTISIG) []
      = Some ([[char_of m]] @ keys @ [[char_of (length keys)]])"
    using m(3,6) b by (simp add: match_step [OF m(1)] match_op_def match_keys [OF x conjunct1 [OF c]] it' match_step)
  moreover have "match_template s (push_op OP_PUBKEY @ push_op OP_CHECKSIG) [] = None"
    using d by (simp add: match_step [OF m(1)] match_op_def)
  moreover have "match_template s (push_op OP_DUP @ push_op OP_HASH160 @ push_op OP_PUBKEYHASH @ push_op OP_EQUALVERIFY @ push_op OP_CHECKSIG) [] = None"
    using d b by (simp add: match_step [OF m(1)] match_op_def)
  ultimately show ?thesis using assms(2) s0 b m(7) by (simp add: SafeSolver_def mTemplates_def char_of_inject)
qed

lemma destination_scripts:
  assumes "length h = 20"
  shows "Solver (GetScriptForDestination (CKeyID h)) = Some (True, TX_PUBKEYHASH, [h])"
    and "Solver (GetScriptForDestination (CScriptID h)) = Some (True, TX_SCRIPTHASH, [h])"
    and "SafeSolver (GetScriptForDestination (CKeyID h)) = (True, TX_PUBKEYHASH, [h])"
    and "SafeSolver (GetScriptForDestination (CScriptID h)) = (True, TX_SCRIPTHASH, [h])"
    and "ExtractDestination Hash160 f (GetScriptForDestination (CKeyID h)) = Some (Some (CKeyID h))"
    and "ExtractDestination Hash160 f (GetScriptForDestination (CScriptID h)) = Some (Some (CScriptID h))"
proof -
  show "SafeSolver (GetScriptForDestination (CKeyID h)) = (True, TX_PUBKEYHASH, [h])"
    using safe_pubkeyhash [OF assms] by (simp add: GetScriptForDestination_def)
  show "SafeSolver (GetScriptForDestination (CScriptID h)) = (True, TX_SCRIPTHASH, [h])"
    using assms by (simp add: GetScriptForDestination_def SafeSolver_def IsPayToScriptHash_def push_op_def push_data_def nth_append)
  show k: "Solver (GetScriptForDestination (CKeyID h)) = Some (True, TX_PUBKEYHASH, [h])"
    using assms by (simp add: GetScriptForDestination_def Solver_def IsPayToScriptHash_def IsZerocoinMint_def MatchPayToPubkey_def
      MatchPayToPubkeyHash_def push_op_def push_data_def nth_append char_of_inject)
  show s: "Solver (GetScriptForDestination (CScriptID h)) = Some (True, TX_SCRIPTHASH, [h])"
    using assms by (simp add: GetScriptForDestination_def Solver_def IsPayToScriptHash_def push_op_def push_data_def nth_append)
  show "ExtractDestination Hash160 f (GetScriptForDestination (CKeyID h)) = Some (Some (CKeyID h))"
    "ExtractDestination Hash160 f (GetScriptForDestination (CScriptID h)) = Some (Some (CScriptID h))"
    by (simp_all add: ExtractDestination_def k s)
qed

text \<open>
  \<^bold>\<open>C25\<close>. The classification of the token layer agrees with that of the base layer: whenever \<^verbatim>\<open>Solver\<close> recognises an output that is neither a
  zerocoin mint nor a cold staking script, \<^verbatim>\<open>SafeSolver\<close> gives the same type and the same solutions.
\<close>

theorem SafeSolver_agrees:
  assumes "Solver s = Some (True, ty, sols)" "ty \<noteq> TX_ZEROCOINMINT" "ty \<noteq> TX_COLDSTAKE"
  shows "SafeSolver s = (True, ty, sols)"
proof (cases "IsPayToScriptHash s \<or> (length s \<ge> 1 \<and> s ! 0 = char_of OP_RETURN \<and> IsPushOnly (drop 1 s))")
  case True
  have "SafeSolver (push_op OP_RETURN) = (True, TX_NULL_DATA, [])"
    by (simp add: SafeSolver_def IsPayToScriptHash_def push_op_def mTemplates_def match_step match_op_def)
  moreover have "s = push_op OP_RETURN" if "length s = 1" "s ! 0 = char_of OP_RETURN" using that by (auto simp: push_op_def length_Suc_conv)
  moreover have "\<not> IsZerocoinMint s" if "\<not> IsPayToScriptHash s" using that True by (simp add: IsZerocoinMint_def char_of_inject)
  ultimately show ?thesis using assms(1) True by (cases "length s = 1") (auto simp: Solver_def SafeSolver_def split: if_splits)
next
  case False
  then show ?thesis using assms solver_pubkey solver_pubkeyhash solver_multisig
    by (auto simp: Solver_def split: if_splits option.splits)
qed

theorem SafeSolver_agrees_witness:
  "SafeSolver (GetScriptForDestination (CKeyID ''0123456789abcdefghij'')) = (True, TX_PUBKEYHASH, [''0123456789abcdefghij''])"
  using SafeSolver_agrees [OF destination_scripts(1) [of "''0123456789abcdefghij''"]] by simp

text \<open>
  The only script for which \<^verbatim>\<open>Solver\<close> does not return is the single byte \<^verbatim>\<open>OP_ZEROCOINMINT\<close>, which makes it construct a vector of negative size.
\<close>

lemma Solver_throws: "Solver s = None \<longleftrightarrow> s = push_op OP_ZEROCOINMINT"
proof
  assume "s = push_op OP_ZEROCOINMINT"
  then show "Solver s = None" by (simp add: Solver_def IsPayToScriptHash_def IsZerocoinMint_def push_op_def)
next
  assume "Solver s = None"
  then have "IsZerocoinMint s" "length s < 2" by (auto simp: Solver_def split: if_splits option.splits)
  then show "s = push_op OP_ZEROCOINMINT" by (cases s) (auto simp: IsZerocoinMint_def push_op_def)
qed

text \<open>
  The script of a destination is classified as such by both layers and gives the destination back.
\<close>

lemma destination_roundtrip:
  assumes "length h = 20"
  shows "ExtractDestination Hash160 f (GetScriptForDestination (CKeyID h)) = Some (Some (CKeyID h))
    \<and> ExtractDestination Hash160 f (GetScriptForDestination (CScriptID h)) = Some (Some (CScriptID h))
    \<and> GetOutputType (GetScriptForDestination (CKeyID h)) = (True, TX_PUBKEYHASH)
    \<and> GetOutputType (GetScriptForDestination (CScriptID h)) = (True, TX_SCRIPTHASH)"
  using assms by (simp add: destination_scripts GetOutputType_def)

text \<open>
  \<^bold>\<open>C26\<close>. A number has exactly one minimal encoding: for every 64-bit value and every limit of at most eight bytes, what \<^verbatim>\<open>serialize\<close> writes is
  read back exactly when the absolute value fits the limit, and is refused otherwise; a minimal encoding that is read has a value that fits, and is the one that is written for it.
  The least 64-bit value has no encoding of eight bytes.
\<close>

theorem scriptnum_roundtrip:
  assumes "MIN_INT64 \<le> v" and "v \<le> MAX_INT64" and "k < 8"
  shows "CScriptNum (ScriptNum_serialize v) True (Suc k) = (if \<bar>v\<bar> < 2 ^ (8 * k + 7) then Some v else None)
    \<and> (CScriptNum vch True (Suc k) = Some w \<longrightarrow> \<bar>w\<bar> < 2 ^ (8 * k + 7) \<and> ScriptNum_serialize w = vch)"
proof -
  have pw: "(128 * 256 ^ k :: int) = 2 ^ (8 * k + 7)" by (simp add: power_add power_mult)
  have "\<bar>w\<bar> < 2 ^ (8 * k + 7) \<and> ScriptNum_serialize w = vch" if run: "CScriptNum vch True (Suc k) = Some w"
  proof -
    note w = CScriptNum_minimal [OF run]
    have "length vch \<le> Suc k" using run by (simp add: CScriptNum_def split: if_splits)
    then show ?thesis using w serialize_length [of w k] pw by simp
  qed
  moreover have "CScriptNum (ScriptNum_serialize v) True (Suc k) = (if \<bar>v\<bar> < 2 ^ (8 * k + 7) then Some v else None)"
    using serialize_minimal [of v "Suc k"] serialize_length [of v k] assms pw by simp
  ultimately show ?thesis by blast
qed

theorem scriptnum_roundtrip_witness:
  "CScriptNum (ScriptNum_serialize (- 255)) True 4 = Some (- 255) \<and> ScriptNum_serialize 1000 = [CHR 0xE8, CHR 0x03]"
  using scriptnum_roundtrip [of "- 255" 3 "[CHR 0xE8, CHR 0x03]" 1000] by (simp add: CScriptNum_def set_vch_def s64_id)

end
