(* ===== verification/Coins.thy ===== *)
theory Coins
  imports Script
begin

text \<open>
  Transactions and unspent outputs: \<^verbatim>\<open>src/src/primitives/transaction.{h,cpp}\<close>, the caches of coins in \<^verbatim>\<open>src/src/coins.{h,cpp}\<close> and the database of
  coins in \<^verbatim>\<open>src/src/txdb.cpp\<close>.

  A cache holds the coins it has read or changed, each with the flags \<^verbatim>\<open>DIRTY\<close> (differs from the backing view) and \<^verbatim>\<open>FRESH\<close> (the backing
  view has no such unspent coin), and the backing view is another cache or the database. Reading a coin may add it to the cache, so the reads return
  the new cache too. \<open>None\<close> is a failed assertion or the exception on overwriting a coin.

  The abstract specification is the set of unspent coins as a map. The locale \<open>coins_backing\<close> states what a cache relies on when it is
  flushed; it is interpreted for the database and for a cache over any view, and the operations are shown to implement the map.
\<close>

subsection \<open>Transactions\<close>

type_synonym COutPoint = "nat \<times> nat"

record CTxOut =
  out_nValue :: int
  scriptPubKey :: CScript

record CTxIn =
  prevout :: COutPoint
  scriptSig :: CScript
  nSequence :: nat

record CTransaction =
  tx_hash :: nat
  vin :: "CTxIn list"
  vout :: "CTxOut list"

definition prevout_IsNull :: "COutPoint \<Rightarrow> bool" where
  "prevout_IsNull p \<longleftrightarrow> fst p = 0 \<and> snd p = 2 ^ 32 - 1"

definition StartsWithOpcode :: "CScript \<Rightarrow> nat \<Rightarrow> bool" where
  "StartsWithOpcode s opcode \<longleftrightarrow> s \<noteq> [] \<and> s ! 0 = char_of opcode"

definition IsZerocoinSpend :: "CTxIn \<Rightarrow> bool" where
  "IsZerocoinSpend i \<longleftrightarrow> fst (prevout i) = 0 \<and> StartsWithOpcode (scriptSig i) 0xc2"

definition IsZerocoinPublicSpend :: "CTxIn \<Rightarrow> bool" where
  "IsZerocoinPublicSpend i \<longleftrightarrow> StartsWithOpcode (scriptSig i) 0xc3"

definition HasZerocoinSpendInputs :: "CTransaction \<Rightarrow> bool" where
  "HasZerocoinSpendInputs tx \<longleftrightarrow> list_ex (\<lambda>i. IsZerocoinSpend i \<or> IsZerocoinPublicSpend i) (vin tx)"

definition HasZerocoinMintOutputs :: "CTransaction \<Rightarrow> bool" where
  "HasZerocoinMintOutputs tx \<longleftrightarrow> list_ex (\<lambda>out. IsZerocoinMint (scriptPubKey out)) (vout tx)"

definition IsCoinBase :: "CTransaction \<Rightarrow> bool" where
  "IsCoinBase tx \<longleftrightarrow> length (vin tx) = 1 \<and> prevout_IsNull (prevout (vin tx ! 0)) \<and> \<not> (HasZerocoinSpendInputs tx \<or> HasZerocoinMintOutputs tx)"

definition IsEmpty :: "CTxOut \<Rightarrow> bool" where
  "IsEmpty out \<longleftrightarrow> out_nValue out = 0 \<and> scriptPubKey out = []"

definition IsCoinStake :: "CTransaction \<Rightarrow> bool" where
  "IsCoinStake tx \<longleftrightarrow> vin tx \<noteq> [] \<and> \<not> (prevout_IsNull (prevout (vin tx ! 0)) \<and> \<not> IsZerocoinSpend (vin tx ! 0))
     \<and> length (vout tx) \<ge> 2 \<and> IsEmpty (vout tx ! 0)"

text \<open>The sum of the outputs; a negative value or a sum that wraps throws.\<close>

fun value_out :: "CTxOut list \<Rightarrow> int \<Rightarrow> int option" where
  "value_out [] acc = Some acc"
| "value_out (out # outs) acc =
     (if out_nValue out < 0 then None
      else if s64 (acc + out_nValue out) < acc then None
      else value_out outs (s64 (acc + out_nValue out)))"

definition GetValueOut :: "CTransaction \<Rightarrow> int option" where
  "GetValueOut tx = value_out (vout tx) 0"

definition GetZerocoinSpent :: "CTransaction \<Rightarrow> int" where
  "GetZerocoinSpent tx = fold (\<lambda>i v. s64 (v + int (nSequence i) * 100000000)) (filter IsZerocoinSpend (vin tx)) 0"

subsection \<open>Coins and their cache\<close>

record Coin =
  coin_out :: CTxOut
  nHeight :: nat
  fCoinBase :: bool
  fCoinStake :: bool

definition IsSpent :: "Coin \<Rightarrow> bool" where
  "IsSpent c \<longleftrightarrow> out_nValue (coin_out c) = - 1"

definition coinEmpty :: Coin where
  "coinEmpty = \<lparr>coin_out = \<lparr>out_nValue = - 1, scriptPubKey = []\<rparr>, nHeight = 0, fCoinBase = False, fCoinStake = False\<rparr>"

record CCoinsCacheEntry =
  coin :: Coin
  DIRTY :: bool
  FRESH :: bool

type_synonym CCoinsMap = "(COutPoint \<times> CCoinsCacheEntry) list"

record CCoinsViewCache =
  cacheCoins :: CCoinsMap
  cache_hashBlock :: nat

type_synonym coins_base = "COutPoint \<Rightarrow> Coin option" \<comment> \<open>\<^verbatim>\<open>GetCoin\<close> of the backing view\<close>

definition FetchCoin :: "coins_base \<Rightarrow> COutPoint \<Rightarrow> CCoinsViewCache \<Rightarrow> CCoinsCacheEntry option \<times> CCoinsViewCache" where
  "FetchCoin base outpoint v =
     (case map_of (cacheCoins v) outpoint of
        Some entry \<Rightarrow> (Some entry, v)
      | None \<Rightarrow>
          (case base outpoint of
             None \<Rightarrow> (None, v)
           | Some tmp \<Rightarrow>
               let entry = \<lparr>coin = tmp, DIRTY = False, FRESH = IsSpent tmp\<rparr>
               in (Some entry, v\<lparr>cacheCoins := umap_upd outpoint entry (cacheCoins v)\<rparr>)))"

definition GetCoin :: "coins_base \<Rightarrow> COutPoint \<Rightarrow> CCoinsViewCache \<Rightarrow> Coin option \<times> CCoinsViewCache" where
  "GetCoin base outpoint v = (case FetchCoin base outpoint v of (it, v') \<Rightarrow> (map_option coin it, v'))"

definition AccessCoin :: "coins_base \<Rightarrow> COutPoint \<Rightarrow> CCoinsViewCache \<Rightarrow> Coin \<times> CCoinsViewCache" where
  "AccessCoin base outpoint v = (case FetchCoin base outpoint v of (it, v') \<Rightarrow> ((case it of None \<Rightarrow> coinEmpty | Some entry \<Rightarrow> coin entry), v'))"

definition HaveCoin :: "coins_base \<Rightarrow> COutPoint \<Rightarrow> CCoinsViewCache \<Rightarrow> bool \<times> CCoinsViewCache" where
  "HaveCoin base outpoint v = (case FetchCoin base outpoint v of (it, v') \<Rightarrow> (case it of None \<Rightarrow> (False, v') | Some entry \<Rightarrow> (\<not> IsSpent (coin entry), v')))"

definition HaveCoinInCache :: "COutPoint \<Rightarrow> CCoinsViewCache \<Rightarrow> bool" where
  "HaveCoinInCache outpoint v \<longleftrightarrow> map_of (cacheCoins v) outpoint \<noteq> None"

definition AddCoin :: "COutPoint \<Rightarrow> Coin \<Rightarrow> bool \<Rightarrow> CCoinsViewCache \<Rightarrow> CCoinsViewCache option" where
  "AddCoin outpoint c possible_overwrite v =
     (if IsSpent c then None
      else if IsUnspendable (scriptPubKey (coin_out c)) then Some v
      else let it = (case map_of (cacheCoins v) outpoint of Some entry \<Rightarrow> entry | None \<Rightarrow> \<lparr>coin = coinEmpty, DIRTY = False, FRESH = False\<rparr>)
       in if \<not> possible_overwrite \<and> \<not> IsSpent (coin it) then None
          else let fresh = (\<not> possible_overwrite \<and> \<not> DIRTY it)
           in Some (v\<lparr>cacheCoins := umap_upd outpoint \<lparr>coin = c, DIRTY = True, FRESH = FRESH it \<or> fresh\<rparr> (cacheCoins v)\<rparr>))"

fun add_coins :: "nat \<Rightarrow> (CTxOut \<Rightarrow> Coin) \<Rightarrow> nat \<Rightarrow> CTxOut list \<Rightarrow> CCoinsViewCache \<Rightarrow> CCoinsViewCache option" where
  "add_coins txid mk i [] v = Some v"
| "add_coins txid mk i (out # outs) v = do { v' \<leftarrow> AddCoin (txid, i) (mk out) False v; add_coins txid mk (Suc i) outs v' }"

definition AddCoins :: "CTransaction \<Rightarrow> nat \<Rightarrow> CCoinsViewCache \<Rightarrow> CCoinsViewCache option" where
  "AddCoins tx height v =
     add_coins (tx_hash tx) (\<lambda>out. \<lparr>coin_out = out, nHeight = height, fCoinBase = IsCoinBase tx, fCoinStake = IsCoinStake tx\<rparr>) 0 (vout tx) v"

text \<open>\<^verbatim>\<open>SpendCoin\<close>, with the coin it moves out.\<close>

definition SpendCoin :: "coins_base \<Rightarrow> COutPoint \<Rightarrow> CCoinsViewCache \<Rightarrow> Coin option \<times> CCoinsViewCache" where
  "SpendCoin base outpoint v =
     (case FetchCoin base outpoint v of
        (None, v') \<Rightarrow> (None, v')
      | (Some entry, v') \<Rightarrow>
          (Some (coin entry),
           if FRESH entry then v'\<lparr>cacheCoins := smap_del outpoint (cacheCoins v')\<rparr>
           else v'\<lparr>cacheCoins := umap_upd outpoint (entry\<lparr>coin := coinEmpty, DIRTY := True\<rparr>) (cacheCoins v')\<rparr>))"

definition Uncache :: "COutPoint \<Rightarrow> CCoinsViewCache \<Rightarrow> CCoinsViewCache" where
  "Uncache outpoint v =
     (case map_of (cacheCoins v) outpoint of
        Some entry \<Rightarrow> if \<not> DIRTY entry \<and> \<not> FRESH entry then v\<lparr>cacheCoins := smap_del outpoint (cacheCoins v)\<rparr> else v
      | None \<Rightarrow> v)"

definition GetCacheSize :: "CCoinsViewCache \<Rightarrow> nat" where
  "GetCacheSize v = length (cacheCoins v)"

definition cache_SetBestBlock :: "nat \<Rightarrow> CCoinsViewCache \<Rightarrow> CCoinsViewCache" where
  "cache_SetBestBlock h v = v\<lparr>cache_hashBlock := h\<rparr>"

definition BatchWrite_entry :: "COutPoint \<times> CCoinsCacheEntry \<Rightarrow> CCoinsViewCache \<Rightarrow> CCoinsViewCache" where
  "BatchWrite_entry it v =
     (case it of (outpoint, entry) \<Rightarrow>
        if \<not> DIRTY entry then v
        else case map_of (cacheCoins v) outpoint of
          None \<Rightarrow>
            if FRESH entry \<and> IsSpent (coin entry) then v
            else v\<lparr>cacheCoins := umap_upd outpoint \<lparr>coin = coin entry, DIRTY = True, FRESH = FRESH entry\<rparr> (cacheCoins v)\<rparr>
        | Some itUs \<Rightarrow>
            if FRESH itUs \<and> IsSpent (coin entry) then v\<lparr>cacheCoins := smap_del outpoint (cacheCoins v)\<rparr>
            else v\<lparr>cacheCoins := umap_upd outpoint (itUs\<lparr>coin := coin entry, DIRTY := True\<rparr>) (cacheCoins v)\<rparr>)"

definition BatchWrite :: "CCoinsMap \<Rightarrow> nat \<Rightarrow> CCoinsViewCache \<Rightarrow> CCoinsViewCache" where
  "BatchWrite mapCoins hashBlockIn v = (fold BatchWrite_entry mapCoins v)\<lparr>cache_hashBlock := hashBlockIn\<rparr>"

text \<open>\<^verbatim>\<open>Flush\<close> for a backing view with the given batch write: the cache is emptied.\<close>

definition Flush :: "(CCoinsMap \<Rightarrow> nat \<Rightarrow> 'b \<Rightarrow> 'b) \<Rightarrow> CCoinsViewCache \<Rightarrow> 'b \<Rightarrow> CCoinsViewCache \<times> 'b" where
  "Flush batch v b = (v\<lparr>cacheCoins := []\<rparr>, batch (cacheCoins v) (cache_hashBlock v) b)"

text \<open>The database.\<close>

record CCoinsViewDB =
  db_coins :: "(COutPoint \<times> Coin) list"
  db_best_block :: nat

definition DB_GetCoin :: "CCoinsViewDB \<Rightarrow> coins_base" where
  "DB_GetCoin d outpoint = map_of (db_coins d) outpoint"

definition DB_write_entry :: "COutPoint \<times> CCoinsCacheEntry \<Rightarrow> (COutPoint \<times> Coin) list \<Rightarrow> (COutPoint \<times> Coin) list" where
  "DB_write_entry it m =
     (case it of (outpoint, entry) \<Rightarrow>
        if \<not> DIRTY entry then m else if IsSpent (coin entry) then smap_del outpoint m else smap_upd outpoint (coin entry) m)"

definition DB_BatchWrite :: "CCoinsMap \<Rightarrow> nat \<Rightarrow> CCoinsViewDB \<Rightarrow> CCoinsViewDB" where
  "DB_BatchWrite mapCoins hashBlock d =
     d\<lparr>db_coins := fold DB_write_entry mapCoins (db_coins d), db_best_block := if hashBlock = 0 then db_best_block d else hashBlock\<rparr>"

text \<open>The inputs of a transaction.\<close>

fun have_inputs :: "coins_base \<Rightarrow> CTxIn list \<Rightarrow> CCoinsViewCache \<Rightarrow> bool \<times> CCoinsViewCache" where
  "have_inputs base [] v = (True, v)"
| "have_inputs base (i # is) v = (case HaveCoin base (prevout i) v of (ok, v') \<Rightarrow> if ok then have_inputs base is v' else (False, v'))"

definition HaveInputs :: "coins_base \<Rightarrow> CTransaction \<Rightarrow> CCoinsViewCache \<Rightarrow> bool \<times> CCoinsViewCache" where
  "HaveInputs base tx v = (if \<not> IsCoinBase tx \<and> \<not> HasZerocoinSpendInputs tx then have_inputs base (vin tx) v else (True, v))"

fun value_in :: "coins_base \<Rightarrow> CTxIn list \<Rightarrow> CCoinsViewCache \<Rightarrow> int \<Rightarrow> int \<times> CCoinsViewCache" where
  "value_in base [] v acc = (acc, v)"
| "value_in base (i # is) v acc = (case AccessCoin base (prevout i) v of (c, v') \<Rightarrow> value_in base is v' (s64 (acc + out_nValue (coin_out c))))"

definition GetValueIn :: "coins_base \<Rightarrow> CTransaction \<Rightarrow> CCoinsViewCache \<Rightarrow> int \<times> CCoinsViewCache" where
  "GetValueIn base tx v =
     (if IsCoinBase tx then (0, v) else if HasZerocoinSpendInputs tx then (GetZerocoinSpent tx, v) else value_in base (vin tx) v 0)"

definition GetCoinDepthAtHeight :: "coins_base \<Rightarrow> COutPoint \<Rightarrow> int \<Rightarrow> CCoinsViewCache \<Rightarrow> int \<times> CCoinsViewCache" where
  "GetCoinDepthAtHeight base outpoint height v =
     (case AccessCoin base outpoint v of (c, v') \<Rightarrow> (if \<not> IsSpent c then height - int (nHeight c) + 1 else - 1, v'))"

subsection \<open>The abstract view\<close>

definition unspent :: "Coin option \<Rightarrow> Coin option" where
  "unspent c = (case c of None \<Rightarrow> None | Some x \<Rightarrow> if IsSpent x then None else Some x)"

definition lookup_coin :: "coins_base \<Rightarrow> CCoinsViewCache \<Rightarrow> coins_base" where
  "lookup_coin base v outpoint = (case map_of (cacheCoins v) outpoint of Some entry \<Rightarrow> Some (coin entry) | None \<Rightarrow> base outpoint)"

definition coins_view :: "coins_base \<Rightarrow> CCoinsViewCache \<Rightarrow> COutPoint \<Rightarrow> Coin option" where
  "coins_view base v outpoint = unspent (lookup_coin base v outpoint)"

text \<open>What the flags mean.\<close>

definition entry_ok :: "coins_base \<Rightarrow> COutPoint \<Rightarrow> CCoinsCacheEntry \<Rightarrow> bool" where
  "entry_ok base outpoint entry \<longleftrightarrow>
     (FRESH entry \<longrightarrow> unspent (base outpoint) = None) \<and> (\<not> DIRTY entry \<longrightarrow> unspent (Some (coin entry)) = unspent (base outpoint))"

definition entries_ok :: "coins_base \<Rightarrow> CCoinsMap \<Rightarrow> bool" where
  "entries_ok base m \<longleftrightarrow> umap_ok m \<and> (\<forall>outpoint entry. map_of m outpoint = Some entry \<longrightarrow> entry_ok base outpoint entry)"

abbreviation coins_ok :: "coins_base \<Rightarrow> CCoinsViewCache \<Rightarrow> bool" where
  "coins_ok base v \<equiv> entries_ok base (cacheCoins v)"

lemma entries_ok_empty [simp]: "entries_ok base []"
  by (simp add: entries_ok_def umap_ok_def)

lemma entries_ok_upd: "entries_ok base m \<Longrightarrow> entry_ok base k e \<Longrightarrow> entries_ok base (umap_upd k e m)"
  by (auto simp: entries_ok_def umap.lookup_upd umap_ok_upd)

lemma entries_ok_del: "entries_ok base m \<Longrightarrow> entries_ok base (smap_del k m)"
  by (auto simp: entries_ok_def umap.lookup_del umap.ok_del split: if_splits)

lemma entries_okD: "entries_ok base m \<Longrightarrow> map_of m k = Some e \<Longrightarrow> entry_ok base k e"
  unfolding entries_ok_def by blast

lemma unspent_simps [simp]: "unspent None = None" "unspent (Some coinEmpty) = None"
  by (simp_all add: unspent_def coinEmpty_def IsSpent_def)

lemma unspent_eq: "unspent (Some c) = (if IsSpent c then None else Some c)"
  by (simp add: unspent_def)

lemma view_upd: "coins_view base (v\<lparr>cacheCoins := umap_upd k e (cacheCoins v)\<rparr>) = (coins_view base v)(k := unspent (Some (coin e)))"
  by (rule ext) (simp add: coins_view_def lookup_coin_def umap.lookup_upd)

lemma view_del:
  "coins_ok base v \<Longrightarrow> coins_view base (v\<lparr>cacheCoins := smap_del k (cacheCoins v)\<rparr>) = (coins_view base v)(k := unspent (base k))"
  by (rule ext) (simp add: coins_view_def lookup_coin_def umap.lookup_del entries_ok_def)

lemma FetchCoin_view:
  assumes "coins_ok base v" "FetchCoin base k v = (it, v')"
  shows "coins_ok base v'" "coins_view base v' = coins_view base v" "map_option coin it = lookup_coin base v k"
    "it = map_of (cacheCoins v') k" "cache_hashBlock v' = cache_hashBlock v"
proof -
  have "entry_ok base k \<lparr>coin = tmp, DIRTY = False, FRESH = IsSpent tmp\<rparr>" if "base k = Some tmp" for tmp
    using that by (simp add: entry_ok_def unspent_eq)
  then show "coins_ok base v'" using assms by (auto simp: FetchCoin_def Let_def entries_ok_upd split: option.splits)
  show "coins_view base v' = coins_view base v"
    using assms by (auto simp: FetchCoin_def Let_def view_upd split: option.splits) (auto simp: coins_view_def lookup_coin_def fun_upd_idem_iff)
  show "map_option coin it = lookup_coin base v k" "it = map_of (cacheCoins v') k" "cache_hashBlock v' = cache_hashBlock v"
    using assms(2) by (auto simp: FetchCoin_def Let_def lookup_coin_def umap.lookup_upd split: option.splits)
qed

lemma AccessCoin_view:
  assumes "coins_ok base v" "AccessCoin base k v = (c, v')"
  shows "coins_ok base v'" "coins_view base v' = coins_view base v" "coins_view base v k = (if IsSpent c then None else Some c)"
proof -
  obtain it where f: "FetchCoin base k v = (it, v')" "c = (case it of None \<Rightarrow> coinEmpty | Some entry \<Rightarrow> coin entry)"
    using assms(2) by (auto simp: AccessCoin_def split: prod.splits)
  note F = FetchCoin_view [OF assms(1) f(1)]
  show "coins_ok base v'" "coins_view base v' = coins_view base v" by (fact F)+
  show "coins_view base v k = (if IsSpent c then None else Some c)"
    using F(3) f(2) by (cases it) (auto simp: coins_view_def unspent_eq coinEmpty_def IsSpent_def simp flip: F(3))
qed

lemma SpendCoin_view:
  assumes "coins_ok base v" "SpendCoin base k v = (mv, v')"
  shows "coins_ok base v'" "coins_view base v' = (coins_view base v)(k := None)" "unspent mv = coins_view base v k"
proof -
  obtain it w where f: "FetchCoin base k v = (it, w)" by fastforce
  note F = FetchCoin_view [OF assms(1) f]
  have "coins_ok base v' \<and> coins_view base v' = (coins_view base w)(k := None) \<and> unspent mv = coins_view base w k"
  proof (cases it)
    case None
    then have "mv = None" "v' = w" using assms(2) f by (auto simp: SpendCoin_def)
    moreover have "coins_view base w k = None" using None F(2,3) by (simp add: coins_view_def)
    ultimately show ?thesis using F(1) by auto
  next
    case (Some entry)
    then have e: "map_of (cacheCoins w) k = Some entry" using F(4) by simp
    have ok: "entry_ok base k entry" using entries_okD [OF F(1) e] .
    have "mv = Some (coin entry)" using assms(2) f Some by (auto simp: SpendCoin_def)
    then have "unspent mv = coins_view base w k" by (simp add: coins_view_def lookup_coin_def e)
    moreover have "coins_ok base v'" using assms(2) f Some F(1) ok
      by (cases "FRESH entry") (auto simp: SpendCoin_def entries_ok_del entry_ok_def intro!: entries_ok_upd)
    moreover have "coins_view base v' = (coins_view base w)(k := None)"
      using assms(2) f Some ok F(1) by (auto simp: SpendCoin_def view_upd view_del entry_ok_def)
    ultimately show ?thesis by blast
  qed
  then show "coins_ok base v'" "coins_view base v' = (coins_view base v)(k := None)" "unspent mv = coins_view base v k"
    using F(2) by simp_all
qed

lemma AddCoin_view:
  assumes "coins_ok base v" "\<not> IsSpent c" "\<not> po \<Longrightarrow> coins_view base v k = None"
  shows "\<exists>v'. AddCoin k c po v = Some v' \<and> coins_ok base v'
    \<and> coins_view base v' = (if IsUnspendable (scriptPubKey (coin_out c)) then coins_view base v else (coins_view base v)(k \<mapsto> c))"
proof -
  define it where "it = (case map_of (cacheCoins v) k of Some entry \<Rightarrow> entry | None \<Rightarrow> \<lparr>coin = coinEmpty, DIRTY = False, FRESH = False\<rparr>)"
  define w where "w = v\<lparr>cacheCoins := umap_upd k \<lparr>coin = c, DIRTY = True, FRESH = FRESH it \<or> (\<not> po \<and> \<not> DIRTY it)\<rparr> (cacheCoins v)\<rparr>"
  have sp: "IsSpent (coin it)" if "\<not> po"
    using assms(3) [OF that] by (auto simp: it_def coins_view_def lookup_coin_def unspent_def coinEmpty_def IsSpent_def split: option.splits if_splits)
  have fr: "unspent (base k) = None" if "FRESH it \<or> (\<not> po \<and> \<not> DIRTY it)"
  proof (cases "map_of (cacheCoins v) k")
    case None
    then show ?thesis using that assms(3) by (auto simp: it_def coins_view_def lookup_coin_def)
  next
    case (Some e)
    then show ?thesis using that entries_okD [OF assms(1) Some] sp by (auto simp: it_def entry_ok_def unspent_eq)
  qed
  have "coins_ok base w" using assms(1) fr by (auto simp: w_def entry_ok_def intro!: entries_ok_upd)
  moreover have "coins_view base w = (coins_view base v)(k \<mapsto> c)"
    using assms(2) by (simp add: w_def view_upd unspent_eq)
  moreover have "AddCoin k c po v = (if IsUnspendable (scriptPubKey (coin_out c)) then Some v else Some w)"
    using assms(2) sp by (auto simp: AddCoin_def w_def simp flip: it_def)
  ultimately show ?thesis using assms(1) by auto
qed

lemma Uncache_view:
  assumes "coins_ok base v"
  shows "coins_ok base (Uncache k v)" "coins_view base (Uncache k v) = coins_view base v"
proof -
  show "coins_ok base (Uncache k v)" using assms by (auto simp: Uncache_def entries_ok_del split: option.splits)
  show "coins_view base (Uncache k v) = coins_view base v" using assms entries_okD [OF assms, of k]
    by (auto simp: Uncache_def view_del entry_ok_def split: option.splits) (simp add: coins_view_def lookup_coin_def fun_upd_idem_iff)
qed

subsection \<open>Flushing to a backing view\<close>

locale coins_backing =
  fixes back_ok :: "'b \<Rightarrow> bool"
    and back_coin :: "'b \<Rightarrow> coins_base"
    and batch :: "CCoinsMap \<Rightarrow> nat \<Rightarrow> 'b \<Rightarrow> 'b"
  assumes batch_ok: "back_ok b \<Longrightarrow> entries_ok (back_coin b) m \<Longrightarrow> back_ok (batch m h b)"
    and batch_coin: "back_ok b \<Longrightarrow> entries_ok (back_coin b) m
      \<Longrightarrow> unspent (back_coin (batch m h b) k) = (case map_of m k of Some entry \<Rightarrow> unspent (Some (coin entry)) | None \<Rightarrow> unspent (back_coin b k))"
begin

lemma flush_view:
  assumes "back_ok b" "coins_ok (back_coin b) v" "Flush batch v b = (v', b')"
  shows "back_ok b' \<and> cacheCoins v' = [] \<and> (\<lambda>k. unspent (back_coin b' k)) = coins_view (back_coin b) v"
proof -
  have "b' = batch (cacheCoins v) (cache_hashBlock v) b" "cacheCoins v' = []" using assms(3) by (auto simp: Flush_def)
  then show ?thesis using batch_ok [OF assms(1,2)] batch_coin [OF assms(1,2)]
    by (auto simp: coins_view_def lookup_coin_def fun_eq_iff simp del: split_paired_All split: option.splits)
qed

end

text \<open>A loop over a map in which every entry changes its own key only.\<close>

lemma fold_keyed:
  assumes "umap_ok m" "ok d" "\<And>a e d. ok d \<Longrightarrow> ok (f (a, e) d)"
    and "\<And>a e d k. ok d \<Longrightarrow> look (f (a, e) d) k = (if k = a then g e (look d a) else look d k)"
  shows "ok (fold f m d) \<and> look (fold f m d) k = (case map_of m k of None \<Rightarrow> look d k | Some e \<Rightarrow> g e (look d k))"
  using assms(1,2)
proof (induction m arbitrary: d)
  case (Cons x m)
  obtain a e where x: "x = (a, e)" by (cases x)
  have "umap_ok m" "map_of m a = None" using Cons.prems(1) by (auto simp: umap_ok_def x map_of_eq_None_iff)
  moreover have "ok (f x d)" using assms(3) Cons.prems(2) x by blast
  ultimately have "ok (fold f m (f x d)) \<and> look (fold f m (f x d)) k = (case map_of m k of None \<Rightarrow> look (f x d) k | Some e \<Rightarrow> g e (look (f x d) k))"
    using Cons.IH by blast
  then show ?case using assms(4) [OF Cons.prems(2), of a e k] \<open>map_of m a = None\<close> by (cases "map_of m k") (auto simp: x)
qed simp

lemma DB_BatchWrite_lookup:
  assumes "smap_ok (db_coins d)" "umap_ok m"
  shows "smap_ok (db_coins (DB_BatchWrite m h d)) \<and> DB_GetCoin (DB_BatchWrite m h d) k
    = (case map_of m k of None \<Rightarrow> DB_GetCoin d k
       | Some e \<Rightarrow> if \<not> DIRTY e then DB_GetCoin d k else if IsSpent (coin e) then None else Some (coin e))"
proof -
  let ?g = "\<lambda>e c. if \<not> DIRTY e then c else if IsSpent (coin e) then None else Some (coin e)"
  have 1: "smap_ok (DB_write_entry (a, e) d)" if "smap_ok d" for a e d
    using that by (simp add: DB_write_entry_def smap.ok_del smap.ok_upd)
  have 2: "map_of (DB_write_entry (a, e) d) k = (if k = a then ?g e (map_of d a) else map_of d k)" if "smap_ok d" for a e d k
    using that by (simp add: DB_write_entry_def smap.lookup_del smap.lookup_upd)
  show ?thesis
    using fold_keyed [where ok = smap_ok and f = DB_write_entry and look = map_of and g = ?g and k = k, OF assms(2,1) 1 2]
    unfolding DB_BatchWrite_def DB_GetCoin_def by simp
qed

interpretation db: coins_backing "\<lambda>d. smap_ok (db_coins d)" DB_GetCoin DB_BatchWrite
proof
  fix b :: CCoinsViewDB and m h k
  assume a: "smap_ok (db_coins b)" "entries_ok (DB_GetCoin b) m"
  then have u: "umap_ok m" by (simp add: entries_ok_def)
  note f = DB_BatchWrite_lookup [OF a(1) u]
  show "smap_ok (db_coins (DB_BatchWrite m h b))" using f by blast
  show "unspent (DB_GetCoin (DB_BatchWrite m h b) k) = (case map_of m k of Some entry \<Rightarrow> unspent (Some (coin entry)) | None \<Rightarrow> unspent (DB_GetCoin b k))"
    using f [of h k] entries_okD [OF a(2), of k] by (auto simp: unspent_eq entry_ok_def split: option.splits)
qed

text \<open>A batch written to a cache: the entry of every key after it.\<close>

definition merge_entry :: "CCoinsCacheEntry \<Rightarrow> CCoinsCacheEntry option \<Rightarrow> CCoinsCacheEntry option" where
  "merge_entry e us =
     (if \<not> DIRTY e then us
      else case us of
        None \<Rightarrow> if FRESH e \<and> IsSpent (coin e) then None else Some \<lparr>coin = coin e, DIRTY = True, FRESH = FRESH e\<rparr>
      | Some u \<Rightarrow> if FRESH u \<and> IsSpent (coin e) then None else Some (u\<lparr>coin := coin e, DIRTY := True\<rparr>))"

lemma BatchWrite_lookup:
  assumes "umap_ok (cacheCoins v)" "umap_ok m"
  shows "umap_ok (cacheCoins (BatchWrite m h v)) \<and> map_of (cacheCoins (BatchWrite m h v)) k
    = (case map_of m k of None \<Rightarrow> map_of (cacheCoins v) k | Some e \<Rightarrow> merge_entry e (map_of (cacheCoins v) k))"
proof -
  have 1: "umap_ok (cacheCoins (BatchWrite_entry (a, e) v))" if "umap_ok (cacheCoins v)" for a e v
    using that by (auto simp: BatchWrite_entry_def umap.ok_del umap.ok_upd split: option.split)
  have 2: "map_of (cacheCoins (BatchWrite_entry (a, e) v)) k
      = (if k = a then merge_entry e (map_of (cacheCoins v) a) else map_of (cacheCoins v) k)" if "umap_ok (cacheCoins v)" for a e v k
    using that by (auto simp: BatchWrite_entry_def merge_entry_def umap.lookup_del umap.lookup_upd split: option.split)
  show ?thesis
    using fold_keyed [where ok = "\<lambda>v. umap_ok (cacheCoins v)" and f = BatchWrite_entry and look = "\<lambda>v. map_of (cacheCoins v)"
      and g = merge_entry and k = k, OF assms(2,1) 1 2]
    by (simp add: BatchWrite_def)
qed

interpretation cv: coins_backing "coins_ok base" "lookup_coin base" BatchWrite for base
proof
  fix v m h k
  assume a: "coins_ok base v" "entries_ok (lookup_coin base v) m"
  then have u: "umap_ok m" "umap_ok (cacheCoins v)" by (simp_all add: entries_ok_def)
  note f = BatchWrite_lookup [OF u(2,1)]
  have e: "entry_ok (lookup_coin base v) k e" if "map_of m k = Some e" for k e using entries_okD [OF a(2) that] .
  have o: "entry_ok base k e" if "map_of (cacheCoins v) k = Some e" for k e using entries_okD [OF a(1) that] .
  have "entry_ok base k w" if "map_of (cacheCoins (BatchWrite m h v)) k = Some w" for k w
    using that f [of h k] e [of k] o [of k]
    by (auto simp: merge_entry_def entry_ok_def lookup_coin_def split: option.splits if_splits)
  then show "coins_ok base (BatchWrite m h v)" using f unfolding entries_ok_def by blast
  show "unspent (lookup_coin base (BatchWrite m h v) k)
      = (case map_of m k of Some entry \<Rightarrow> unspent (Some (coin entry)) | None \<Rightarrow> unspent (lookup_coin base v k))"
    using f [of h k] e [of k] o [of k]
    by (auto simp: merge_entry_def entry_ok_def lookup_coin_def unspent_eq split: option.splits if_splits)
qed

subsection \<open>Sequences of operations\<close>

datatype coin_op = OpAdd COutPoint Coin | OpOverwrite COutPoint Coin | OpSpend COutPoint | OpAccess COutPoint | OpUncache COutPoint

fun coin_step :: "coins_base \<Rightarrow> coin_op \<Rightarrow> CCoinsViewCache \<Rightarrow> CCoinsViewCache option" where
  "coin_step base (OpAdd k c) v = AddCoin k c False v"
| "coin_step base (OpOverwrite k c) v = AddCoin k c True v"
| "coin_step base (OpSpend k) v = Some (snd (SpendCoin base k v))"
| "coin_step base (OpAccess k) v = Some (snd (AccessCoin base k v))"
| "coin_step base (OpUncache k) v = Some (Uncache k v)"

fun coin_run :: "coins_base \<Rightarrow> coin_op list \<Rightarrow> CCoinsViewCache \<Rightarrow> CCoinsViewCache option" where
  "coin_run base [] v = Some v"
| "coin_run base (x # xs) v = do { v' \<leftarrow> coin_step base x v; coin_run base xs v' }"

text \<open>The specification: a map of unspent coins, to which unspendable outputs are never added. An addition without overwriting is legal when there is no
  such coin.\<close>

fun spec_step :: "coin_op \<Rightarrow> (COutPoint \<Rightarrow> Coin option) \<Rightarrow> COutPoint \<Rightarrow> Coin option" where
  "spec_step (OpAdd k c) u = (if IsUnspendable (scriptPubKey (coin_out c)) then u else u(k \<mapsto> c))"
| "spec_step (OpOverwrite k c) u = (if IsUnspendable (scriptPubKey (coin_out c)) then u else u(k \<mapsto> c))"
| "spec_step (OpSpend k) u = u(k := None)"
| "spec_step (OpAccess k) u = u"
| "spec_step (OpUncache k) u = u"

fun legal_step :: "coin_op \<Rightarrow> (COutPoint \<Rightarrow> Coin option) \<Rightarrow> bool" where
  "legal_step (OpAdd k c) u \<longleftrightarrow> \<not> IsSpent c \<and> u k = None"
| "legal_step (OpOverwrite k c) u \<longleftrightarrow> \<not> IsSpent c"
| "legal_step _ u \<longleftrightarrow> True"

fun legal_run :: "coin_op list \<Rightarrow> (COutPoint \<Rightarrow> Coin option) \<Rightarrow> bool" where
  "legal_run [] u \<longleftrightarrow> True"
| "legal_run (x # xs) u \<longleftrightarrow> legal_step x u \<and> legal_run xs (spec_step x u)"

definition spec_run :: "coin_op list \<Rightarrow> (COutPoint \<Rightarrow> Coin option) \<Rightarrow> COutPoint \<Rightarrow> Coin option" where
  "spec_run xs u = fold spec_step xs u"

lemma coin_step_refines:
  assumes "coins_ok base v" "legal_step x (coins_view base v)"
  shows "\<exists>v'. coin_step base x v = Some v' \<and> coins_ok base v' \<and> coins_view base v' = spec_step x (coins_view base v)"
proof (cases x)
  case (OpAdd k c)
  then show ?thesis using assms AddCoin_view [OF assms(1), of c False k] by auto
next
  case (OpOverwrite k c)
  then show ?thesis using assms AddCoin_view [OF assms(1), of c True k] by auto
next
  case (OpSpend k)
  then show ?thesis using SpendCoin_view [OF assms(1), of k] by (cases "SpendCoin base k v") auto
next
  case (OpAccess k)
  then show ?thesis using AccessCoin_view [OF assms(1), of k] by (cases "AccessCoin base k v") auto
qed (use assms Uncache_view in auto)

lemma coin_run_refines:
  assumes "coins_ok base v" "legal_run xs (coins_view base v)"
  shows "\<exists>v'. coin_run base xs v = Some v' \<and> coins_ok base v' \<and> coins_view base v' = spec_run xs (coins_view base v)"
  using assms
proof (induction xs arbitrary: v)
  case (Cons x xs)
  then obtain w where w: "coin_step base x v = Some w" "coins_ok base w" "coins_view base w = spec_step x (coins_view base v)"
    using coin_step_refines [of base v x] by auto
  then show ?case using Cons.IH [OF w(2)] Cons.prems(2) by (simp add: spec_run_def)
qed (simp add: spec_run_def)

definition empty_cache :: CCoinsViewCache where
  "empty_cache = \<lparr>cacheCoins = [], cache_hashBlock = 0\<rparr>"

lemma view_empty: "cacheCoins v = [] \<Longrightarrow> coins_view base v = (\<lambda>k. unspent (base k))"
  by (simp add: coins_view_def lookup_coin_def fun_eq_iff)

text \<open>
  \<^bold>\<open>C17\<close>. A stack of two caches over the database implements the map of unspent coins: any legal sequence of additions, overwrites,
  spends and reads on the upper cache returns, the view of the upper cache is the specified map, and after flushing both caches the database holds exactly that map.
\<close>

theorem coins_stack_refines:
  assumes "smap_ok (db_coins d)" "coins_ok (DB_GetCoin d) p" "coins_ok (lookup_coin (DB_GetCoin d) p) v"
    and "legal_run xs (coins_view (lookup_coin (DB_GetCoin d) p) v)"
  shows "\<exists>v' p' p'' d'. coin_run (lookup_coin (DB_GetCoin d) p) xs v = Some v'
    \<and> coins_view (lookup_coin (DB_GetCoin d) p) v' = spec_run xs (coins_view (lookup_coin (DB_GetCoin d) p) v)
    \<and> snd (Flush BatchWrite v' p) = p' \<and> coins_view (DB_GetCoin d) p' = spec_run xs (coins_view (lookup_coin (DB_GetCoin d) p) v)
    \<and> Flush DB_BatchWrite p' d = (p'', d') \<and> (\<lambda>k. unspent (DB_GetCoin d' k)) = spec_run xs (coins_view (lookup_coin (DB_GetCoin d) p) v)"
proof -
  let ?b = "DB_GetCoin d"
  obtain v' where v: "coin_run (lookup_coin ?b p) xs v = Some v'" "coins_ok (lookup_coin ?b p) v'"
    "coins_view (lookup_coin ?b p) v' = spec_run xs (coins_view (lookup_coin ?b p) v)"
    using coin_run_refines [OF assms(3,4)] by blast
  obtain v'' p' where f: "Flush BatchWrite v' p = (v'', p')" by fastforce
  have p: "coins_ok ?b p'" "coins_view ?b p' = coins_view (lookup_coin ?b p) v'"
    using cv.flush_view [OF assms(2) v(2) f] by (auto simp: coins_view_def fun_eq_iff simp del: split_paired_All)
  obtain p'' d' where g: "Flush DB_BatchWrite p' d = (p'', d')" by fastforce
  show ?thesis using v f p g db.flush_view [OF assms(1) p(1) g] by auto
qed

definition sample_coin :: Coin where
  "sample_coin = \<lparr>coin_out = \<lparr>out_nValue = 5, scriptPubKey = []\<rparr>, nHeight = 1, fCoinBase = False, fCoinStake = False\<rparr>"

definition sample_db :: CCoinsViewDB where
  "sample_db = \<lparr>db_coins = [((1, 0), sample_coin)], db_best_block = 0\<rparr>"

theorem coins_stack_refines_witness:
  "\<exists>p' p'' d'. Flush DB_BatchWrite p' sample_db = (p'', d') \<and> unspent (DB_GetCoin d' (1, 0)) = None \<and> unspent (DB_GetCoin d' (2, 0)) = Some sample_coin"
proof -
  let ?b = "DB_GetCoin sample_db" and ?ops = "[OpAdd (2, 0) sample_coin, OpSpend (1, 0)]"
  have "legal_run ?ops (coins_view (lookup_coin ?b empty_cache) empty_cache)"
    by (simp add: coins_view_def lookup_coin_def empty_cache_def DB_GetCoin_def sample_db_def sample_coin_def IsSpent_def)
  then obtain p' p'' d' where "Flush DB_BatchWrite p' sample_db = (p'', d')"
    "(\<lambda>k. unspent (DB_GetCoin d' k)) = spec_run ?ops (coins_view (lookup_coin ?b empty_cache) empty_cache)"
    using coins_stack_refines [of sample_db empty_cache empty_cache ?ops] by (auto simp: sample_db_def smap_ok_def empty_cache_def)
  note f = this(1) fun_cong [OF this(2), of "(1, 0)"] fun_cong [OF this(2), of "(2, 0)"]
  have "\<not> IsUnspendable (scriptPubKey (coin_out sample_coin))" by (simp add: sample_coin_def IsUnspendable_def)
  then show ?thesis using f by (intro exI [of _ p'] exI [of _ p''] exI [of _ d']) (simp add: spec_run_def)
qed

text \<open>The law that is not checked: an addition without overwriting to a cache that has not read the coin is not refused, and when the backing view has the coin, spending
  the added one brings back the old one.\<close>

lemma AddCoin_over_unspent:
  assumes "base k = Some old" "\<not> IsSpent old" "\<not> IsSpent c" "\<not> IsUnspendable (scriptPubKey (coin_out c))"
  shows "\<exists>v. AddCoin k c False empty_cache = Some v \<and> coins_view base (snd (SpendCoin base k v)) k = Some old"
  using assms by (auto simp: AddCoin_def SpendCoin_def FetchCoin_def empty_cache_def coins_view_def lookup_coin_def smap_del_def unspent_eq coinEmpty_def
    IsSpent_def Let_def)

end
