(* ===== verification/Parser.thy ===== *)
theory Parser
  imports Coins Payload Governance
begin

text \<open>
  From a transaction of the block chain to a token transaction and back: \<^verbatim>\<open>parseTransaction\<close> with its helpers in
  \<^verbatim>\<open>src/src/tokencore/tokencore.cpp\<close>, the encodings of a payload in outputs (\<^verbatim>\<open>encoding.cpp\<close>) and the
  obfuscation of class B packets (\<^verbatim>\<open>parsing.cpp\<close>).

  The environment holds what is outside: the hash functions, the codec of addresses, the transactions the node can look up. The coins cache of the
  token layer sits on a view without coins. \<open>None\<close> means that an assertion fails, an exception leaves the function, or memory
  outside a vector is read.

  The main results are the round trips: a payload encoded as class C comes back as it was, and one encoded as class B comes back padded with
  zeros to full packets.
\<close>

subsection \<open>Environment\<close>

record parse_env =
  nonMainNet :: bool
  Hash160 :: "string \<Rightarrow> string"
  SHA256 :: "string \<Rightarrow> string"
  EncodeDestination :: "CTxDestination \<Rightarrow> string"
  DecodeDestination :: "string \<Rightarrow> CTxDestination"
  GetTransaction :: "nat \<Rightarrow> (CTransaction \<times> nat) option" \<comment> \<open>with the height of its block, 1 when the block is not in the index\<close>
  tokentxcache :: nat

abbreviation NO_MARKER :: nat where "NO_MARKER \<equiv> 0"
abbreviation TOKEN_CLASS_A :: nat where "TOKEN_CLASS_A \<equiv> 1"
abbreviation TOKEN_CLASS_B :: nat where "TOKEN_CLASS_B \<equiv> 2"
abbreviation TOKEN_CLASS_C :: nat where "TOKEN_CLASS_C \<equiv> 3"

abbreviation PACKET_SIZE :: nat where "PACKET_SIZE \<equiv> 31"
abbreviation PACKET_SIZE_CLASS_A :: nat where "PACKET_SIZE_CLASS_A \<equiv> 19"
abbreviation MAX_PACKETS :: nat where "MAX_PACKETS \<equiv> 255"
abbreviation MAX_SHA256_OBFUSCATION_TIMES :: nat where "MAX_SHA256_OBFUSCATION_TIMES \<equiv> 255"

definition exodus_address :: "parse_env \<Rightarrow> string" where
  "exodus_address env = (if nonMainNet env then ''yBAVKMPkzWiXXehL2oVEH9z57eHX1CExuH'' else ''RnbbZgwL9aCrsrD3MJkjn3yATBXzwXDaw9'')"

definition ExodusAddress :: "parse_env \<Rightarrow> CTxDestination" where
  "ExodusAddress env = DecodeDestination env (exodus_address env)"

definition GetOmMarker :: string where
  "GetOmMarker = map char_of [0x6f, 0x6d, 0x6e, 0x69 :: nat]"

text \<open>\<^verbatim>\<open>std::string::find\<close>, \<^verbatim>\<open>substr\<close> (which throws when the position is past the end) and element access.\<close>

fun str_find :: "string \<Rightarrow> string \<Rightarrow> bool" where
  "str_find p [] \<longleftrightarrow> p = []"
| "str_find p (c # s) \<longleftrightarrow> take (length p) (c # s) = p \<or> str_find p s"

definition substr :: "string \<Rightarrow> nat \<Rightarrow> nat \<Rightarrow> string option" where
  "substr s pos n = (if pos > length s then None else Some (take n (drop pos s)))"

definition elem_at :: "'a list \<Rightarrow> nat \<Rightarrow> 'a option" where
  "elem_at xs k = (if k < length xs then Some (xs ! k) else None)"

subsection \<open>Markers and encoding classes\<close>

definition hex_ClassC :: string where "hex_ClassC = ''6f6d6e69''"
definition hex_ClassAB :: string where "hex_ClassAB = ''76a9149957bf08adabda094dfee3ee7b89c5fc4ca422a688ac''"

definition HasMarkerUnsafe :: "bool \<Rightarrow> CTransaction \<Rightarrow> bool" where
  "HasMarkerUnsafe mainNet tx \<longleftrightarrow>
     list_ex (\<lambda>out. let str = HexStr (scriptPubKey out)
       in str_find hex_ClassC str
        \<or> (if mainNet then str = hex_ClassAB
           else str = ''76a914643ce12b1590633077b8620316f43a9362ef18e588ac'' \<or> str = ''76a9145ab93563a289b74c355a9b9258b86f12bb84affb88ac'')) (vout tx)"

text \<open>Whether an output carries class C data: its first push starts with the marker.\<close>

definition marked_pushes :: "CScript \<Rightarrow> string list option" where
  "marked_pushes script =
     (case GetScriptPushes script False of (ok, pushes) \<Rightarrow>
        if \<not> ok \<or> pushes = [] then None
        else let vchPushed = ParseHex (pushes ! 0)
         in if length vchPushed < length GetOmMarker then None
            else if take (length GetOmMarker) vchPushed = GetOmMarker then Some pushes else None)"

text \<open>One output in the loop of \<^verbatim>\<open>GetEncodingClass\<close>: the flags for an Exodus, a multisig and a marked output.\<close>

definition classify_output :: "parse_env \<Rightarrow> CConsensusParams \<Rightarrow> int \<Rightarrow> CTxOut \<Rightarrow> bool \<times> bool \<times> bool \<Rightarrow> (bool \<times> bool \<times> bool) option" where
  "classify_output env params nBlock out flags =
     (case flags of (hasExodus, hasMultisig, hasOpReturn) \<Rightarrow>
       (case GetOutputType (scriptPubKey out) of (ok, outType) \<Rightarrow>
          if \<not> ok \<or> \<not> IsAllowedOutputType params outType nBlock then Some flags
          else if outType = TX_PUBKEYHASH then do {
            dest \<leftarrow> ExtractDestination (Hash160 env) False (scriptPubKey out);
            Some (hasExodus \<or> dest = Some (ExodusAddress env), hasMultisig, hasOpReturn)
          }
          else if outType = TX_MULTISIG then Some (hasExodus, True, hasOpReturn)
          else if outType = TX_NULL_DATA then Some (hasExodus, hasMultisig, hasOpReturn \<or> marked_pushes (scriptPubKey out) \<noteq> None)
          else Some flags))"

fun classify_outputs :: "parse_env \<Rightarrow> CConsensusParams \<Rightarrow> int \<Rightarrow> CTxOut list \<Rightarrow> bool \<times> bool \<times> bool \<Rightarrow> (bool \<times> bool \<times> bool) option" where
  "classify_outputs env params nBlock [] flags = Some flags"
| "classify_outputs env params nBlock (out # outs) flags =
     do { flags' \<leftarrow> classify_output env params nBlock out flags; classify_outputs env params nBlock outs flags' }"

definition GetEncodingClass :: "parse_env \<Rightarrow> CConsensusParams \<Rightarrow> CTransaction \<Rightarrow> int \<Rightarrow> nat option" where
  "GetEncodingClass env params tx nBlock =
     (let examineClosely = list_ex (\<lambda>out. let strSPB = HexStr (scriptPubKey out) in strSPB = hex_ClassAB \<or> str_find hex_ClassC strSPB) (vout tx)
      in if \<not> examineClosely \<and> \<not> nonMainNet env then Some NO_MARKER
         else do {
           (hasExodus, hasMultisig, hasOpReturn) \<leftarrow> classify_outputs env params nBlock (vout tx) (False, False, False);
           Some (if hasOpReturn then TOKEN_CLASS_C
             else if hasExodus \<and> hasMultisig then TOKEN_CLASS_B
             else if hasExodus then TOKEN_CLASS_A
             else NO_MARKER)
         })"

subsection \<open>Inputs and sender\<close>

abbreviation viewDummy :: coins_base where "viewDummy \<equiv> \<lambda>_. None"

text \<open>The coin for an input that is not in the cache; the inner \<open>None\<close> when it cannot be found.\<close>

definition fetch_input :: "parse_env \<Rightarrow> (COutPoint \<Rightarrow> Coin option) option \<Rightarrow> COutPoint \<Rightarrow> Coin option option" where
  "fetch_input env removedCoins op =
     (case GetTransaction env (fst op) of
        Some (txPrev, height) \<Rightarrow> do {
          out \<leftarrow> elem_at (vout txPrev) (snd op);
          Some (Some \<lparr>coin_out = out, nHeight = height, fCoinBase = False, fCoinStake = False\<rparr>)
        }
      | None \<Rightarrow> Some (case removedCoins of None \<Rightarrow> None | Some m \<Rightarrow> m op))"

fun fill_inputs :: "parse_env \<Rightarrow> (COutPoint \<Rightarrow> Coin option) option \<Rightarrow> CTxIn list \<Rightarrow> CCoinsViewCache \<Rightarrow> (bool \<times> CCoinsViewCache) option" where
  "fill_inputs env removedCoins [] view = Some (True, view)"
| "fill_inputs env removedCoins (txIn # ins) view =
     (case AccessCoin viewDummy (prevout txIn) view of (c, view) \<Rightarrow>
        if \<not> IsSpent c then fill_inputs env removedCoins ins view
        else do {
          newcoin \<leftarrow> fetch_input env removedCoins (prevout txIn);
          (case newcoin of
             None \<Rightarrow> Some (False, view)
           | Some newcoin \<Rightarrow> do { view \<leftarrow> AddCoin (prevout txIn) newcoin True view; fill_inputs env removedCoins ins view })
        })"

definition FillTxInputCache :: "parse_env \<Rightarrow> (COutPoint \<Rightarrow> Coin option) option \<Rightarrow> CTransaction \<Rightarrow> CCoinsViewCache \<Rightarrow> (bool \<times> CCoinsViewCache) option" where
  "FillTxInputCache env removedCoins tx view =
     (let view = (if GetCacheSize view > tokentxcache env then view\<lparr>cacheCoins := []\<rparr> else view)
      in fill_inputs env removedCoins (vin tx) view)"

text \<open>The address an output pays to when it is allowed as an input: an error code or the address.\<close>

definition input_address :: "parse_env \<Rightarrow> CConsensusParams \<Rightarrow> int \<Rightarrow> int \<Rightarrow> CTxOut \<Rightarrow> (int + string) option" where
  "input_address env params nBlock err out =
     (case GetOutputType (scriptPubKey out) of (ok, whichType) \<Rightarrow>
        if \<not> ok then Some (Inl err)
        else if \<not> IsAllowedInputType params whichType nBlock then Some (Inl (err - 1))
        else do {
          source \<leftarrow> ExtractDestination (Hash160 env) False (scriptPubKey out);
          Some (case source of None \<Rightarrow> Inl (err - 2) | Some d \<Rightarrow> Inr (EncodeDestination env d))
        })"

text \<open>The old logic: the values of all inputs by address.\<close>

fun sum_inputs :: "parse_env \<Rightarrow> CConsensusParams \<Rightarrow> int \<Rightarrow> CTxIn list \<Rightarrow> (string \<times> int) list \<Rightarrow> CCoinsViewCache
    \<Rightarrow> ((int + (string \<times> int) list) \<times> CCoinsViewCache) option" where
  "sum_inputs env params nBlock [] totals view = Some (Inr totals, view)"
| "sum_inputs env params nBlock (txIn # ins) totals view =
     (case AccessCoin viewDummy (prevout txIn) view of (c, view) \<Rightarrow>
        if IsSpent c then None
        else do {
          a \<leftarrow> input_address env params nBlock (- 104) (coin_out c);
          (case a of
             Inl err \<Rightarrow> Some (Inl err, view)
           | Inr address \<Rightarrow>
               let old = (case map_of totals address of None \<Rightarrow> 0 | Some v \<Rightarrow> v)
               in sum_inputs env params nBlock ins (smap_upd address (s64 (old + out_nValue (coin_out c))) totals) view)
        })"

fun largest_input :: "(string \<times> int) list \<Rightarrow> string \<Rightarrow> int \<Rightarrow> string" where
  "largest_input [] strSender nMax = strSender"
| "largest_input ((address, nTemp) # r) strSender nMax =
     (if nTemp > nMax then largest_input r address nTemp else largest_input r strSender nMax)"

text \<open>The sender: an error code or the address, and the coins cache.\<close>

definition find_sender :: "parse_env \<Rightarrow> CConsensusParams \<Rightarrow> nat \<Rightarrow> CTransaction \<Rightarrow> int \<Rightarrow> CCoinsViewCache \<Rightarrow> ((int + string) \<times> CCoinsViewCache) option" where
  "find_sender env params tokenClass tx nBlock view =
     (if tokenClass \<noteq> TOKEN_CLASS_C then do {
        (r, view) \<leftarrow> sum_inputs env params nBlock (vin tx) [] view;
        Some (case r of Inl err \<Rightarrow> Inl err | Inr totals \<Rightarrow> Inr (largest_input totals [] 0), view)
      } else do {
        txIn \<leftarrow> elem_at (vin tx) 0;
        (case AccessCoin viewDummy (prevout txIn) view of (c, view) \<Rightarrow>
           if IsSpent c then None
           else do { a \<leftarrow> input_address env params nBlock (- 108) (coin_out c); Some (a, view) })
      })"

subsection \<open>Outputs\<close>

text \<open>The pushes, addresses and values of the outputs to other destinations than Exodus, and the transaction with its outputs.\<close>

fun collect_outputs :: "parse_env \<Rightarrow> CConsensusParams \<Rightarrow> int \<Rightarrow> nat \<Rightarrow> CTxOut list \<Rightarrow> string list \<times> string list \<times> int list \<times> CMPTransaction
    \<Rightarrow> (string list \<times> string list \<times> int list \<times> CMPTransaction) option" where
  "collect_outputs env params nBlock n [] acc = Some acc"
| "collect_outputs env params nBlock n (out # outs) (script_data, address_data, value_data, mp_tx) =
     (case GetOutputType (scriptPubKey out) of (ok, whichType) \<Rightarrow>
        if \<not> ok \<or> \<not> IsAllowedOutputType params whichType nBlock then
          collect_outputs env params nBlock (Suc n) outs (script_data, address_data, value_data, mp_tx)
        else do {
          dest \<leftarrow> ExtractDestination (Hash160 env) False (scriptPubKey out);
          (case dest of
             None \<Rightarrow> collect_outputs env params nBlock (Suc n) outs (script_data, address_data, value_data, mp_tx)
           | Some d \<Rightarrow>
               if d = ExodusAddress env then collect_outputs env params nBlock (Suc n) outs (script_data, address_data, value_data, mp_tx)
               else let address = EncodeDestination env d
                in collect_outputs env params nBlock (Suc n) outs
                     (script_data @ snd (GetScriptPushes (scriptPubKey out) False), address_data @ [address], value_data @ [out_nValue out],
                      if address \<noteq> [] then addValidStmAddress n address mp_tx else mp_tx))
        })"

subsection \<open>Class A\<close>

text \<open>Step 1: the data packet, as (data, address, sequence number, value).\<close>

fun classA_data :: "string list \<Rightarrow> string list \<Rightarrow> int list \<Rightarrow> nat list \<Rightarrow> string \<times> string \<times> nat \<times> int \<Rightarrow> (string \<times> string \<times> nat \<times> int) option" where
  "classA_data script_data address_data value_data [] st = Some st"
| "classA_data script_data address_data value_data (k # ks) (strScriptData, strDataAddress, dataAddressSeq, dataAddressValue) = do {
     sd \<leftarrow> elem_at script_data k;
     strSub \<leftarrow> substr sd 2 16;
     sq \<leftarrow> elem_at (ParseHex (take 2 sd)) 0;
     if strSub = ''0000000000000001'' \<or> strSub = ''0000000000000002'' then
       if strScriptData = [] then do {
         packet \<leftarrow> substr sd 2 (2 * PACKET_SIZE_CLASS_A);
         address \<leftarrow> elem_at address_data k;
         val \<leftarrow> elem_at value_data k;
         classA_data script_data address_data value_data ks (packet, address, of_char sq, val)
       } else Some (strScriptData, [], dataAddressSeq, dataAddressValue)
     else classA_data script_data address_data value_data ks (strScriptData, strDataAddress, dataAddressSeq, dataAddressValue)
   }"

text \<open>Step 2: the reference by sequence number.\<close>

fun classA_ref_seq :: "parse_env \<Rightarrow> string \<Rightarrow> nat \<Rightarrow> string list \<Rightarrow> string list \<Rightarrow> nat list \<Rightarrow> string \<Rightarrow> string option" where
  "classA_ref_seq env strDataAddress expectedSeq script_data address_data [] strRefAddress = Some strRefAddress"
| "classA_ref_seq env strDataAddress expectedSeq script_data address_data (k # ks) strRefAddress = do {
     sd \<leftarrow> elem_at script_data k;
     sq \<leftarrow> elem_at (ParseHex (take 2 sd)) 0;
     address \<leftarrow> elem_at address_data k;
     if address \<noteq> strDataAddress \<and> address \<noteq> exodus_address env \<and> expectedSeq = of_char sq then
       if strRefAddress = [] then classA_ref_seq env strDataAddress expectedSeq script_data address_data ks address else Some []
     else classA_ref_seq env strDataAddress expectedSeq script_data address_data ks strRefAddress
   }"

fun exodus_values :: "parse_env \<Rightarrow> CTxOut list \<Rightarrow> int list option" where
  "exodus_values env [] = Some []"
| "exodus_values env (out # outs) = do {
     dest \<leftarrow> ExtractDestination (Hash160 env) False (scriptPubKey out);
     r \<leftarrow> exodus_values env outs;
     Some (if dest = Some (ExodusAddress env) then out_nValue out # r else r)
   }"

text \<open>Step 3: the reference by amounts; a second match with an Exodus output clears it and ends the inner loop only.\<close>

fun match_exodus :: "int \<Rightarrow> string \<Rightarrow> int list \<Rightarrow> string \<Rightarrow> string" where
  "match_exodus v address [] strRefAddress = strRefAddress"
| "match_exodus v address (e # es) strRefAddress =
     (if v = e then if strRefAddress = [] then match_exodus v address es address else []
      else match_exodus v address es strRefAddress)"

fun classA_ref_amount :: "parse_env \<Rightarrow> string \<Rightarrow> int \<Rightarrow> int list \<Rightarrow> string list \<Rightarrow> int list \<Rightarrow> nat list \<Rightarrow> string \<Rightarrow> string option" where
  "classA_ref_amount env strDataAddress dataAddressValue ExodusValues address_data value_data [] strRefAddress = Some strRefAddress"
| "classA_ref_amount env strDataAddress dataAddressValue ExodusValues address_data value_data (k # ks) strRefAddress = do {
     address \<leftarrow> elem_at address_data k;
     val \<leftarrow> elem_at value_data k;
     classA_ref_amount env strDataAddress dataAddressValue ExodusValues address_data value_data ks
       (if address \<noteq> strDataAddress \<and> address \<noteq> exodus_address env \<and> dataAddressValue = val then match_exodus val address ExodusValues strRefAddress
        else strRefAddress)
   }"

text \<open>The reference and the packet of a class A transaction; without a reference or a data address there is no packet.\<close>

definition parse_ClassA :: "parse_env \<Rightarrow> CTransaction \<Rightarrow> string list \<Rightarrow> string list \<Rightarrow> int list \<Rightarrow> (string \<times> string) option" where
  "parse_ClassA env tx script_data address_data value_data = do {
     let ks = [0 ..< length script_data];
     (strScriptData, strDataAddress, dataAddressSeq, dataAddressValue) \<leftarrow> classA_data script_data address_data value_data ks ([], [], 0xFF, 0);
     strRefAddress \<leftarrow> (if strDataAddress \<noteq> [] then do {
         ref \<leftarrow> classA_ref_seq env strDataAddress ((dataAddressSeq + 1) mod 256) script_data address_data ks [];
         ExodusValues \<leftarrow> exodus_values env (vout tx);
         if ref = [] then classA_ref_amount env strDataAddress dataAddressValue ExodusValues address_data value_data ks [] else Some ref
       } else Some []);
     if strRefAddress = [] \<or> strDataAddress = [] then Some (strRefAddress, [])
     else let packet = ParseHex strScriptData
      in if length packet < PACKET_SIZE_CLASS_A then None else Some (strRefAddress, take PACKET_SIZE_CLASS_A packet)
   }"

subsection \<open>Reference of classes B and C\<close>

definition find_reference :: "parse_env \<Rightarrow> string \<Rightarrow> string list \<Rightarrow> string" where
  "find_reference env strSender address_data =
     (let candidates = filter (\<lambda>addr. addr \<noteq> exodus_address env) address_data
      in case candidates of
           [addr] \<Rightarrow> addr
         | _ \<Rightarrow> fst (fold (\<lambda>addr (ref, changeRemoved). if addr = strSender \<and> \<not> changeRemoved then (ref, True) else (addr, changeRemoved)) candidates ([], False)))"

subsection \<open>Class B\<close>

definition to_upper :: "char \<Rightarrow> char" where
  "to_upper c = (if 97 \<le> (of_char c :: nat) \<and> (of_char c :: nat) \<le> 122 then char_of (of_char c - 32 :: nat) else c)"

text \<open>The hashes from index 1 on; every one is the input of the next, as a C string.\<close>

fun obfuscation_hashes :: "(string \<Rightarrow> string) \<Rightarrow> nat \<Rightarrow> string \<Rightarrow> string list" where
  "obfuscation_hashes sha 0 sha_input = []"
| "obfuscation_hashes sha (Suc n) sha_input =
     (let h = map to_upper (HexStr (take 32 (sha (takeWhile (\<lambda>c. c \<noteq> CHR 0x00) sha_input)))) in h # obfuscation_hashes sha n h)"

text \<open>The array, whose first element and the elements past the count are empty.\<close>

definition PrepareObfuscatedHashes :: "(string \<Rightarrow> string) \<Rightarrow> string \<Rightarrow> nat \<Rightarrow> string list option" where
  "PrepareObfuscatedHashes sha strSeed hashCount =
     (if length strSeed \<ge> 128 then None
      else let n = min hashCount MAX_SHA256_OBFUSCATION_TIMES
       in Some ([] # obfuscation_hashes sha n strSeed @ replicate (MAX_SHA256_OBFUSCATION_TIMES - n) []))"

definition byte_of :: "char \<Rightarrow> 8 word" where
  "byte_of c = word_of_nat (of_char c)"

definition char_xor :: "char \<Rightarrow> char \<Rightarrow> char" where
  "char_xor a b = char_of (unat (xor (byte_of a) (byte_of b)))"

fun multisig_data :: "parse_env \<Rightarrow> CTxOut list \<Rightarrow> string list option" where
  "multisig_data env [] = Some []"
| "multisig_data env (out # outs) = do {
     r \<leftarrow> ExtractDestinations (Hash160 env) (scriptPubKey out);
     rest \<leftarrow> multisig_data env outs;
     Some (case r of
         Some (TX_MULTISIG, _) \<Rightarrow> snd (GetScriptPushes (scriptPubKey out) True) @ rest
       | _ \<Rightarrow> rest)
   }"

definition deobfuscate :: "string \<Rightarrow> string \<Rightarrow> string option" where
  "deobfuscate strHash strData = do {
     sub \<leftarrow> substr strData 2 (2 * PACKET_SIZE);
     let hash = ParseHex strHash;
     let packet = ParseHex sub;
     if length packet > length hash \<or> length packet < PACKET_SIZE then None else Some (take PACKET_SIZE (map2 char_xor packet hash))
   }"

fun deobfuscate_all :: "string list \<Rightarrow> string list \<Rightarrow> string list option" where
  "deobfuscate_all hashes [] = Some []"
| "deobfuscate_all [] (d # ds) = None"
| "deobfuscate_all (h # hs) (d # ds) = do { p \<leftarrow> deobfuscate h d; r \<leftarrow> deobfuscate_all hs ds; Some (p # r) }"

text \<open>The packets without their sequence numbers.\<close>

definition parse_ClassB :: "parse_env \<Rightarrow> CTransaction \<Rightarrow> string \<Rightarrow> string option" where
  "parse_ClassB env tx strSender = do {
     multisig_script_data \<leftarrow> multisig_data env (vout tx);
     let nPackets = min (length multisig_script_data) MAX_PACKETS;
     hashes \<leftarrow> PrepareObfuscatedHashes (SHA256 env) strSender (1 + nPackets);
     packets \<leftarrow> deobfuscate_all (tl hashes) (take nPackets multisig_script_data);
     Some (concat (map (\<lambda>p. take (PACKET_SIZE - 1) (drop 1 p)) packets))
   }"

subsection \<open>Class C\<close>

fun op_return_data :: "CConsensusParams \<Rightarrow> int \<Rightarrow> CTxOut list \<Rightarrow> string list" where
  "op_return_data params nBlock [] = []"
| "op_return_data params nBlock (out # outs) =
     (case GetOutputType (scriptPubKey out) of (ok, whichType) \<Rightarrow>
        if \<not> ok \<or> \<not> IsAllowedOutputType params whichType nBlock \<or> whichType \<noteq> TX_NULL_DATA then op_return_data params nBlock outs
        else case marked_pushes (scriptPubKey out) of
          None \<Rightarrow> op_return_data params nBlock outs
        | Some pushes \<Rightarrow> (drop (length GetOmMarker * 2) (hd pushes) # tl pushes) @ op_return_data params nBlock outs)"

fun append_payload :: "string list \<Rightarrow> string \<Rightarrow> string option" where
  "append_payload [] single_pkt = Some single_pkt"
| "append_payload (d # ds) single_pkt =
     (if d = [] then append_payload ds single_pkt
      else if \<not> IsHex d then None
      else let packet' = take (MAX_PACKETS * PACKET_SIZE) (single_pkt @ ParseHex d)
       in if length packet' = MAX_PACKETS * PACKET_SIZE then Some packet' else append_payload ds packet')"

definition parse_ClassC :: "CConsensusParams \<Rightarrow> int \<Rightarrow> CTransaction \<Rightarrow> string option" where
  "parse_ClassC params nBlock tx = append_payload (op_return_data params nBlock (vout tx)) []"

subsection \<open>The parser\<close>

definition parseTransaction :: "parse_env \<Rightarrow> CConsensusParams \<Rightarrow> CGovernance \<Rightarrow> bool \<Rightarrow> CTransaction \<Rightarrow> int \<Rightarrow> nat \<Rightarrow> CMPTransaction \<Rightarrow> int
    \<Rightarrow> (COutPoint \<Rightarrow> Coin option) option \<Rightarrow> CCoinsViewCache \<Rightarrow> (int \<times> CMPTransaction \<times> CCoinsViewCache) option" where
  "parseTransaction env params gov bRPConly wtx nBlock idx mp_tx nTime removedCoins view =
     (if bRPConly \<noteq> rpcOnly mp_tx then None
      else do {
        let donation = fold (\<lambda>out v. if scriptPubKey out = GetFeeScript gov then s64 (v + out_nValue out) else v) (vout wtx) 0;
        let mp_tx = Set_block (tx_hash wtx) nBlock idx nTime donation mp_tx;
        tokenClass \<leftarrow> GetEncodingClass env params wtx nBlock;
        if tokenClass = NO_MARKER then Some (- 1, mp_tx, view)
        else do {
          (filled, view) \<leftarrow> FillTxInputCache env removedCoins wtx view;
          if \<not> filled then Some (- 101, mp_tx, view)
          else case HaveInputs viewDummy wtx view of (have_all, view) \<Rightarrow>
            if \<not> have_all then None
            else do {
              (sender, view) \<leftarrow> find_sender env params tokenClass wtx nBlock view;
              (case sender of
                 Inl err \<Rightarrow> Some (err, mp_tx, view)
               | Inr strSender \<Rightarrow> do {
                   (inAll, view) \<leftarrow> Some (GetValueIn viewDummy wtx view);
                   outAll \<leftarrow> GetValueOut wtx;
                   if strSender = [] then Some (- 5, mp_tx, view)
                   else do {
                     (script_data, address_data, value_data, mp_tx) \<leftarrow> collect_outputs env params nBlock 0 (vout wtx) ([], [], [], mp_tx);
                     (strReference, packet) \<leftarrow>
                       (if tokenClass = TOKEN_CLASS_A then parse_ClassA env wtx script_data address_data value_data
                        else do {
                          p \<leftarrow> (if tokenClass = TOKEN_CLASS_B then parse_ClassB env wtx strSender else parse_ClassC params nBlock wtx);
                          Some (find_reference env strSender address_data, p)
                        });
                     let mp_tx = Set_packet strSender strReference 0 (tx_hash wtx) nBlock idx packet tokenClass (s64 (inAll - outAll)) mp_tx;
                     Some (if tokenClass = TOKEN_CLASS_A \<and> packet = [] then 1 else 0, mp_tx, view)
                   }
                 })
            }
        }
      })"

subsection \<open>Encoding\<close>

definition UseEncodingClassC :: "CConsensusParams \<Rightarrow> int \<Rightarrow> bool \<Rightarrow> nat \<Rightarrow> nat \<Rightarrow> bool" where
  "UseEncodingClassC params nBlockNow datacarrier nMaxDatacarrierBytes nDataSize \<longleftrightarrow>
     nDataSize + length GetOmMarker \<le> nMaxDatacarrierBytes \<and> datacarrier \<and> IsAllowedOutputType params TX_NULL_DATA nBlockNow"

definition TokenCore_Encode_ClassC :: "nat \<Rightarrow> string \<Rightarrow> (CScript \<times> int) list \<Rightarrow> (bool \<times> (CScript \<times> int) list)" where
  "TokenCore_Encode_ClassC nMaxDatacarrierBytes vchPayload vecOutputs =
     (let vchData = GetOmMarker @ vchPayload
      in if length vchData > nMaxDatacarrierBytes then (False, vecOutputs)
         else (True, vecOutputs @ [(push_op OP_RETURN @ push_data vchData, 0)]))"

text \<open>Fees and the dust threshold of an output (\<^verbatim>\<open>src/src/amount.cpp\<close>, \<^verbatim>\<open>transaction.h\<close>).\<close>

definition CFeeRate_GetFee :: "int \<Rightarrow> nat \<Rightarrow> int" where
  "CFeeRate_GetFee nSatoshisPerK nSize =
     (let nFee = u64 (nSatoshisPerK * int nSize) div 1000 in if nFee = 0 \<and> nSatoshisPerK > 0 then nSatoshisPerK else nFee)"

definition compact_size :: "nat \<Rightarrow> nat" where
  "compact_size n = (if n < 253 then 1 else if n \<le> 0xFFFF then 3 else if n \<le> 0xFFFFFFFF then 5 else 9)"

definition GetDustThreshold :: "int \<Rightarrow> CScript \<Rightarrow> int" where
  "GetDustThreshold minRelayTxFee script =
     (if IsUnspendable script then 0
      else 3 * CFeeRate_GetFee minRelayTxFee (8 + compact_size (length script) + length script + 148))"

text \<open>A fake public key: the sequence number and up to 30 bytes, obfuscated, with a last byte that is tried until the key is a point of the curve.
  The random start is an argument, as is \<^verbatim>\<open>IsFullyValid\<close>.\<close>

definition fake_key :: "string list \<Rightarrow> (string \<Rightarrow> bool) \<Rightarrow> (nat \<Rightarrow> nat) \<Rightarrow> nat \<Rightarrow> string \<Rightarrow> string option" where
  "fake_key hashes IsFullyValid rand chSeqNum chunk =
     (let vchHash = ParseHex (hashes ! chSeqNum);
          packet = take PACKET_SIZE (char_of chSeqNum # chunk @ replicate PACKET_SIZE (CHR 0x00));
          keys = map (\<lambda>j. CHR 0x02 # map2 char_xor packet vchHash @ [char_of (rand chSeqNum + j)]) [0 ..< 256]
      in if length vchHash < PACKET_SIZE then None
         else Some (case find IsFullyValid keys of Some key \<Rightarrow> key | None \<Rightarrow> last keys))"

function encode_packets :: "string list \<Rightarrow> (string \<Rightarrow> bool) \<Rightarrow> (nat \<Rightarrow> nat) \<Rightarrow> string \<Rightarrow> int \<Rightarrow> string \<Rightarrow> nat \<Rightarrow> (CScript \<times> int) list option" where
  "encode_packets hashes IsFullyValid rand redeemingPubKey minRelayTxFee payload chSeqNum =
     (if payload = [] then Some []
      else do {
        let nKeys = (if length payload > PACKET_SIZE - 1 then 2 else 1);
        key1 \<leftarrow> fake_key hashes IsFullyValid rand chSeqNum (take (PACKET_SIZE - 1) payload);
        keys \<leftarrow> (if nKeys = 2 then do {
             key2 \<leftarrow> fake_key hashes IsFullyValid rand ((chSeqNum + 1) mod 256) (take (PACKET_SIZE - 1) (drop (PACKET_SIZE - 1) payload));
             Some [key1, key2]
           } else Some [key1]);
        script \<leftarrow> GetScriptForMultisig 1 (redeemingPubKey # keys);
        rest \<leftarrow> encode_packets hashes IsFullyValid rand redeemingPubKey minRelayTxFee (drop (nKeys * (PACKET_SIZE - 1)) payload) ((chSeqNum + nKeys) mod 256);
        Some ((script, GetDustThreshold minRelayTxFee script) # rest)
      })"
  by pat_completeness auto
termination
  by (relation "measure (\<lambda>(_, _, _, _, _, payload, _). length payload)") auto

declare encode_packets.simps [simp del]

definition TokenCore_Encode_ClassB :: "parse_env \<Rightarrow> (string \<Rightarrow> bool) \<Rightarrow> (nat \<Rightarrow> nat) \<Rightarrow> int \<Rightarrow> string \<Rightarrow> string \<Rightarrow> string \<Rightarrow> (CScript \<times> int) list \<Rightarrow> (CScript \<times> int) list option" where
  "TokenCore_Encode_ClassB env IsFullyValid rand minRelayTxFee senderAddress redeemingPubKey vchPayload vecOutputs = do {
     hashes \<leftarrow> PrepareObfuscatedHashes (SHA256 env) senderAddress MAX_SHA256_OBFUSCATION_TIMES;
     outs \<leftarrow> encode_packets hashes IsFullyValid rand redeemingPubKey minRelayTxFee vchPayload 1;
     let scriptExodusOutput = GetScriptForDestination (ExodusAddress env);
     Some (vecOutputs @ outs @ [(scriptExodusOutput, GetDustThreshold minRelayTxFee scriptExodusOutput)])
   }"

subsection \<open>Hexadecimal text and pushes\<close>

lemma digit_not_space: "0 \<le> HexDigit c \<Longrightarrow> \<not> is_space c"
  by (auto simp: HexDigit_def is_space_def)

lemma ParseHex_Cons2:
  "0 \<le> HexDigit c \<Longrightarrow> 0 \<le> HexDigit d \<Longrightarrow> ParseHex (c # d # s) = char_of (nat (HexDigit c) * 16 + nat (HexDigit d)) # ParseHex s"
  by (subst ParseHex.simps) (simp add: digit_not_space)

lemma ParseHex_Nil [simp]: "ParseHex [] = []"
  by (subst ParseHex.simps) simp

lemma HexStr_simps [simp]: "HexStr [] = []" "HexStr (c # v) = hex_byte c @ HexStr v" "HexStr (v @ w) = HexStr v @ HexStr w"
  by (simp_all add: HexStr_def)

lemma ParseHex_hex_byte:
  assumes "\<And>n. n < 16 \<Longrightarrow> HexDigit (f (hex_char n)) = int n"
  shows "ParseHex (map f (hex_byte c) @ s) = c # ParseHex s"
proof -
  have b: "(of_char c :: nat) div 16 < 16" "(of_char c :: nat) mod 16 < 16" by (simp_all add: of_char_div)
  have "of_char c div 16 * 16 + of_char c mod 16 = (of_char c :: nat)" by simp
  then show ?thesis using assms [OF b(1)] assms [OF b(2)] by (simp add: hex_byte_def ParseHex_Cons2)
qed

lemma ParseHex_map_HexStr:
  assumes "\<And>n. n < 16 \<Longrightarrow> HexDigit (f (hex_char n)) = int n"
  shows "ParseHex (map f (HexStr v)) = v"
  by (induction v) (simp_all add: ParseHex_hex_byte [OF assms])

lemma ParseHex_HexStr [simp]: "ParseHex (HexStr v) = v"
  using ParseHex_map_HexStr [of "\<lambda>c. c" v] by simp

lemma HexDigit_upper: "n < 16 \<Longrightarrow> HexDigit (to_upper (hex_char n)) = int n"
  by (auto simp: to_upper_def hex_char_def HexDigit_def Let_def)

lemma ParseHex_upper [simp]: "ParseHex (map to_upper (HexStr v)) = v"
  by (rule ParseHex_map_HexStr) (rule HexDigit_upper)

lemma length_hex_byte [simp]: "length (hex_byte c) = 2"
  by (simp add: hex_byte_def)

lemma length_HexStr [simp]: "length (HexStr v) = 2 * length v"
  by (induction v) simp_all

lemma drop_HexStr: "drop (2 * k) (HexStr v) = HexStr (drop k v)"
proof (induction v arbitrary: k)
  case (Cons c v)
  then show ?case by (cases k) simp_all
qed simp

lemma take_HexStr: "take (2 * k) (HexStr v) = HexStr (take k v)"
proof (induction v arbitrary: k)
  case (Cons c v)
  then show ?case by (cases k) simp_all
qed simp

lemma HexStr_digits: "list_all (\<lambda>c. 0 \<le> HexDigit c) (HexStr v)"
proof (induction v)
  case (Cons c v)
  then show ?case using of_char_div [of c] by (simp add: hex_byte_def)
qed simp

lemma IsHex_HexStr [simp]: "IsHex (HexStr v) \<longleftrightarrow> v \<noteq> []"
  using HexStr_digits [of v] by (auto simp: IsHex_def)

lemma HexStr_eq_Nil [simp]: "HexStr v = [] \<longleftrightarrow> v = []"
  by (metis length_0_conv length_HexStr mult_is_0 zero_neq_numeral)

lemma str_find_append: "p \<noteq> [] \<Longrightarrow> str_find p (x @ p @ y)"
proof (induction x)
  case Nil
  then show ?case by (cases p) simp_all
qed simp

lemma push_data_nonempty [simp]: "push_data d \<noteq> []"
  by (simp add: push_data_def push_op_def)

lemma length_GetOmMarker [simp]: "length GetOmMarker = 4"
  by (simp add: GetOmMarker_def)

lemma pushes_push_data:
  assumes "length d < 2 ^ 32"
  shows "pushes_from skip cnt (push_data d @ pc)
    = (case pushes_from skip (Suc cnt) pc of (ok, r) \<Rightarrow> (ok, (if cnt \<noteq> 0 \<or> \<not> skip then [HexStr d] else []) @ r))"
proof -
  obtain opcode where o: "opcode \<le> OP_PUSHDATA4" "GetOp (push_data d @ pc) = Some (opcode, d, pc)" using GetOp_push_data [OF assms] by blast
  then show ?thesis by (subst pushes_from.simps) simp
qed

lemma pushes_push_op:
  assumes "OP_PUSHDATA4 < opcode" "opcode < 256"
  shows "pushes_from skip cnt (push_op opcode @ pc) = pushes_from skip cnt pc"
  using assms by (subst pushes_from.simps) simp

lemma pushes_Nil [simp]: "pushes_from skip cnt [] = (True, [])"
  by (simp add: pushes_from.simps)

lemma IsPushOnly_push_data:
  assumes "length d < 2 ^ 32"
  shows "IsPushOnly (push_data d)"
proof -
  obtain opcode where "opcode \<le> OP_PUSHDATA4" "GetOp (push_data d @ []) = Some (opcode, d, [])" using GetOp_push_data [OF assms] by blast
  then show ?thesis by (subst IsPushOnly.simps) (simp add: IsPushOnly.simps [of "[]"])
qed

subsection \<open>Class C round trip\<close>

lemma classC_output:
  assumes "length d < 2 ^ 32"
  shows "GetOutputType (push_op OP_RETURN @ push_data d) = (True, TX_NULL_DATA)"
    "GetScriptPushes (push_op OP_RETURN @ push_data d) False = (True, [HexStr d])"
proof -
  have "length (push_data d) \<ge> 1" by (simp add: push_data_def push_op_def)
  then show "GetOutputType (push_op OP_RETURN @ push_data d) = (True, TX_NULL_DATA)"
    using IsPushOnly_push_data [OF assms] by (simp add: GetOutputType_def SafeSolver_def IsPayToScriptHash_def push_op_def char_of_inject)
  show "GetScriptPushes (push_op OP_RETURN @ push_data d) False = (True, [HexStr d])"
    using pushes_push_data [OF assms, of False 0 "[]"] by (simp add: GetScriptPushes_def pushes_push_op)
qed

lemma classC_marked:
  assumes "length payload + 4 < 2 ^ 32"
  shows "marked_pushes (push_op OP_RETURN @ push_data (GetOmMarker @ payload)) = Some [HexStr (GetOmMarker @ payload)]"
  using classC_output(2) [of "GetOmMarker @ payload"] assms by (simp add: marked_pushes_def Let_def del: HexStr_simps(3))

lemma op_return_data_append: "op_return_data params nBlock (xs @ ys) = op_return_data params nBlock xs @ op_return_data params nBlock ys"
  by (induction xs) (simp_all split: prod.splits option.splits)

lemma classC_data:
  assumes "length payload + 4 < 2 ^ 32" "NULLDATA_BLOCK params \<le> nBlock"
  shows "op_return_data params nBlock [\<lparr>out_nValue = v, scriptPubKey = push_op OP_RETURN @ push_data (GetOmMarker @ payload)\<rparr>] = [HexStr payload]"
proof -
  have "drop 8 (HexStr (GetOmMarker @ payload)) = HexStr payload" using drop_HexStr [of 4 "GetOmMarker @ payload"] by simp
  then show ?thesis using classC_marked [OF assms(1)] classC_output(1) [of "GetOmMarker @ payload"] assms
    by (simp add: IsAllowedOutputType_def del: HexStr_simps(3))
qed

lemma parse_ClassC_payload:
  assumes "vout tx = pre @ [\<lparr>out_nValue = v, scriptPubKey = push_op OP_RETURN @ push_data (GetOmMarker @ payload)\<rparr>] @ post"
    and "op_return_data params nBlock pre = []" "op_return_data params nBlock post = []"
    and "length payload \<le> MAX_PACKETS * PACKET_SIZE" "NULLDATA_BLOCK params \<le> nBlock"
  shows "parse_ClassC params nBlock tx = Some payload"
proof -
  have "op_return_data params nBlock (vout tx) = [HexStr payload]"
    unfolding assms(1) op_return_data_append using classC_data [of payload params nBlock v] assms by simp
  then show ?thesis using assms(4) by (simp add: parse_ClassC_def)
qed

subsection \<open>The coins cache of the token layer\<close>

text \<open>The output a point refers to, as the node knows it, and the invariant of the cache: it holds such outputs only.\<close>

definition known_output :: "parse_env \<Rightarrow> COutPoint \<Rightarrow> CTxOut \<Rightarrow> bool" where
  "known_output env op out \<longleftrightarrow> (case GetTransaction env (fst op) of Some (tx, h) \<Rightarrow> elem_at (vout tx) (snd op) = Some out | None \<Rightarrow> False)"

definition view_faithful :: "parse_env \<Rightarrow> CCoinsViewCache \<Rightarrow> bool" where
  "view_faithful env view \<longleftrightarrow> coins_ok viewDummy view
     \<and> (\<forall>op c. coins_view viewDummy view op = Some c \<longrightarrow> known_output env op (coin_out c))"

definition spendable_input :: "parse_env \<Rightarrow> CTxIn \<Rightarrow> CTxOut \<Rightarrow> bool" where
  "spendable_input env i out \<longleftrightarrow> known_output env (prevout i) out \<and> out_nValue out \<noteq> - 1 \<and> \<not> IsUnspendable (scriptPubKey out)"

lemma known_output_unique: "known_output env op out \<Longrightarrow> known_output env op out' \<Longrightarrow> out = out'"
  by (simp add: known_output_def split: option.splits prod.splits)

lemma AccessCoin_faithful:
  assumes "view_faithful env view" "AccessCoin viewDummy op view = (c, view')"
  shows "view_faithful env view'" "coins_view viewDummy view' = coins_view viewDummy view"
    "coins_view viewDummy view op = (if IsSpent c then None else Some c)"
  using AccessCoin_view [OF _ assms(2)] assms(1) by (auto simp: view_faithful_def)

lemma HaveCoin_AccessCoin: "HaveCoin base op v = (case AccessCoin base op v of (c, v') \<Rightarrow> (\<not> IsSpent c, v'))"
  by (auto simp: HaveCoin_def AccessCoin_def IsSpent_def coinEmpty_def split: prod.splits option.splits)

lemma fill_inputs_faithful:
  assumes "view_faithful env view" "\<And>i. i \<in> set ins \<Longrightarrow> \<exists>out. spendable_input env i out"
  shows "\<exists>view'. fill_inputs env None ins view = Some (True, view') \<and> view_faithful env view'
    \<and> (\<forall>i\<in>set ins. coins_view viewDummy view' (prevout i) \<noteq> None)
    \<and> (\<forall>op. coins_view viewDummy view op \<noteq> None \<longrightarrow> coins_view viewDummy view' op \<noteq> None)"
  using assms
proof (induction ins arbitrary: view)
  case (Cons i ins)
  obtain c v where a: "AccessCoin viewDummy (prevout i) view = (c, v)" by fastforce
  note A = AccessCoin_faithful [OF Cons.prems(1) a]
  obtain out where out: "known_output env (prevout i) out" "out_nValue out \<noteq> - 1" "\<not> IsUnspendable (scriptPubKey out)"
    using Cons.prems(2) [of i] by (auto simp: spendable_input_def)
  show ?case
  proof (cases "IsSpent c")
    case False
    obtain z where z: "fill_inputs env None ins v = Some (True, z)" "view_faithful env z"
      "\<forall>i\<in>set ins. coins_view viewDummy z (prevout i) \<noteq> None" "\<forall>op. coins_view viewDummy v op \<noteq> None \<longrightarrow> coins_view viewDummy z op \<noteq> None"
      using Cons.IH [OF A(1)] Cons.prems(2) by auto
    moreover have "coins_view viewDummy z (prevout i) \<noteq> None" using z(4) A(2,3) False by (metis option.distinct(1))
    ultimately show ?thesis using A(2) False a by (intro exI [of _ z]) (simp del: split_paired_All)
  next
    case True
    obtain tx h where t: "GetTransaction env (fst (prevout i)) = Some (tx, h)" "elem_at (vout tx) (snd (prevout i)) = Some out"
      using out(1) by (auto simp: known_output_def split: option.splits prod.splits)
    define n where "n = \<lparr>coin_out = out, nHeight = h, fCoinBase = False, fCoinStake = False\<rparr>"
    have n: "\<not> IsSpent n" "coin_out n = out" using out(2) by (simp_all add: n_def IsSpent_def)
    have "coins_ok viewDummy v" using A(1) by (simp add: view_faithful_def)
    then obtain w where w: "AddCoin (prevout i) n True v = Some w" "coins_ok viewDummy w" "coins_view viewDummy w = (coins_view viewDummy v)(prevout i \<mapsto> n)"
      using AddCoin_view [of viewDummy v n True "prevout i"] n out(3) by auto
    have vw: "view_faithful env w" using A(1) w(2,3) out(1) n(2) by (auto simp: view_faithful_def)
    obtain z where z: "fill_inputs env None ins w = Some (True, z)" "view_faithful env z"
      "\<forall>i\<in>set ins. coins_view viewDummy z (prevout i) \<noteq> None" "\<forall>op. coins_view viewDummy w op \<noteq> None \<longrightarrow> coins_view viewDummy z op \<noteq> None"
      using Cons.IH [OF vw] Cons.prems(2) by auto
    have "fill_inputs env None (i # ins) view = Some (True, z)" using a True t w(1) z(1) by (simp add: fetch_input_def n_def)
    moreover have "coins_view viewDummy z (prevout i) \<noteq> None" using z(4) w(3) by (metis fun_upd_same option.distinct(1))
    moreover have "\<forall>op. coins_view viewDummy view op \<noteq> None \<longrightarrow> coins_view viewDummy z op \<noteq> None"
      using z(4) w(3) A(2) by (metis fun_upd_other fun_upd_same option.distinct(1))
    ultimately show ?thesis using z(2,3) by auto
  qed
qed simp

lemma have_inputs_faithful:
  assumes "view_faithful env view" "\<And>i. i \<in> set ins \<Longrightarrow> coins_view viewDummy view (prevout i) \<noteq> None"
  shows "\<exists>view'. have_inputs viewDummy ins view = (True, view') \<and> view_faithful env view' \<and> coins_view viewDummy view' = coins_view viewDummy view"
  using assms
proof (induction ins arbitrary: view)
  case (Cons i ins)
  obtain c v where a: "AccessCoin viewDummy (prevout i) view = (c, v)" by fastforce
  note A = AccessCoin_faithful [OF Cons.prems(1) a]
  have "\<not> IsSpent c" using A(3) Cons.prems(2) [of i] by (auto split: if_splits)
  then show ?case using Cons.IH [OF A(1)] Cons.prems(2) A(2) by (simp add: HaveCoin_AccessCoin a)
qed simp

lemma value_in_faithful:
  assumes "view_faithful env view"
  shows "view_faithful env (snd (value_in viewDummy ins view acc))"
  using assms
proof (induction ins arbitrary: view acc)
  case (Cons i ins)
  obtain c v where a: "AccessCoin viewDummy (prevout i) view = (c, v)" by fastforce
  then show ?case using Cons.IH AccessCoin_faithful(1) [OF Cons.prems a] by simp
qed simp

subsection \<open>Outputs to destinations\<close>

definition pay_output :: "CTxDestination \<times> int \<Rightarrow> CTxOut" where
  "pay_output p = \<lparr>out_nValue = snd p, scriptPubKey = GetScriptForDestination (fst p)\<rparr>"

definition proper_destination :: "CTxDestination \<Rightarrow> bool" where
  "proper_destination d \<longleftrightarrow> (case d of CNoDestination \<Rightarrow> False | CKeyID h \<Rightarrow> length h = 20 | CScriptID h \<Rightarrow> length h = 20)"

definition payments_allowed :: "CConsensusParams \<Rightarrow> int \<Rightarrow> bool" where
  "payments_allowed params nBlock \<longleftrightarrow> PUBKEYHASH_BLOCK params \<le> nBlock \<and> SCRIPTHASH_BLOCK params \<le> nBlock"

lemma proper_destination_script:
  assumes "proper_destination d"
  shows "ExtractDestination H f (GetScriptForDestination d) = Some (Some d)"
    and "\<exists>ty. GetOutputType (GetScriptForDestination d) = (True, ty) \<and> (ty = TX_PUBKEYHASH \<or> ty = TX_SCRIPTHASH)"
  using assms by (auto simp: proper_destination_def destination_scripts GetOutputType_def split: CTxDestination.splits)

lemma op_return_data_payments:
  "list_all (\<lambda>p. proper_destination (fst p)) ps \<Longrightarrow> op_return_data params nBlock (map pay_output ps) = []"
proof (induction ps)
  case (Cons p ps)
  then obtain ty where "GetOutputType (GetScriptForDestination (fst p)) = (True, ty)" "ty = TX_PUBKEYHASH \<or> ty = TX_SCRIPTHASH"
    using proper_destination_script(2) [of "fst p"] by auto
  then show ?case using Cons by (auto simp: pay_output_def)
qed simp

lemma classify_append:
  "classify_outputs env params nBlock (xs @ ys) fl = do { fl' \<leftarrow> classify_outputs env params nBlock xs fl; classify_outputs env params nBlock ys fl' }"
  by (induction xs arbitrary: fl) (simp_all split: bind_split)

lemma classify_payments:
  assumes "list_all (\<lambda>p. proper_destination (fst p)) ps"
  shows "\<exists>e'. classify_outputs env params nBlock (map pay_output ps) (e, m, r) = Some (e', m, r) \<and> (e \<longrightarrow> e')"
  using assms
proof (induction ps arbitrary: e)
  case (Cons p ps)
  then have d: "proper_destination (fst p)" by simp
  obtain ty where ty: "GetOutputType (GetScriptForDestination (fst p)) = (True, ty)" "ty = TX_PUBKEYHASH \<or> ty = TX_SCRIPTHASH"
    using proper_destination_script(2) [OF d] by auto
  have "\<exists>e1. classify_output env params nBlock (pay_output p) (e, m, r) = Some (e1, m, r) \<and> (e \<longrightarrow> e1)"
    using ty proper_destination_script(1) [OF d] by (cases "IsAllowedOutputType params ty nBlock") (auto simp: classify_output_def pay_output_def)
  then obtain e1 where c: "classify_output env params nBlock (pay_output p) (e, m, r) = Some (e1, m, r)" "e \<longrightarrow> e1" by blast
  obtain e2 where "classify_outputs env params nBlock (map pay_output ps) (e1, m, r) = Some (e2, m, r)" "e1 \<longrightarrow> e2"
    using Cons.IH [of e1] Cons.prems by auto
  then show ?case using c by simp
qed simp

lemma collect_append:
  "collect_outputs env params nBlock n (xs @ ys) acc = do {
     acc' \<leftarrow> collect_outputs env params nBlock n xs acc; collect_outputs env params nBlock (n + length xs) ys acc' }"
proof (induction xs arbitrary: n acc)
  case (Cons x xs)
  show ?case by (cases acc) (auto simp: Cons Let_def split: prod.splits option.splits bind_split)
qed simp

lemma collect_payments:
  assumes "list_all (\<lambda>p. proper_destination (fst p)) ps" "payments_allowed params nBlock"
  shows "\<exists>sd' vd' stm. collect_outputs env params nBlock n (map pay_output ps) (sd, ad, vd, t)
    = Some (sd', ad @ map (EncodeDestination env) (filter (\<lambda>d. d \<noteq> ExodusAddress env) (map fst ps)), vd', t\<lparr>validOutputAddressesForSTM := stm\<rparr>)"
  using assms(1)
proof (induction ps arbitrary: n sd ad vd t)
  case Nil
  show ?case by (intro exI [of _ sd] exI [of _ vd] exI [of _ "validOutputAddressesForSTM t"]) simp
next
  case (Cons p ps)
  then have d: "proper_destination (fst p)" and ps: "list_all (\<lambda>p. proper_destination (fst p)) ps" by simp_all
  obtain ty where ty: "GetOutputType (GetScriptForDestination (fst p)) = (True, ty)" "IsAllowedOutputType params ty nBlock"
    using proper_destination_script(2) [OF d] assms(2) by (auto simp: IsAllowedOutputType_def payments_allowed_def)
  have x: "ExtractDestination (Hash160 env) False (GetScriptForDestination (fst p)) = Some (Some (fst p))"
    by (rule proper_destination_script(1) [OF d])
  show ?case
  proof (cases "fst p = ExodusAddress env")
    case True
    then show ?thesis using Cons.IH [OF ps, of "Suc n" sd ad vd t] ty x by (simp add: pay_output_def)
  next
    case False
    let ?a = "EncodeDestination env (fst p)"
    let ?t = "if ?a \<noteq> [] then addValidStmAddress n ?a t else t"
    have t: "?t\<lparr>validOutputAddressesForSTM := stm\<rparr> = t\<lparr>validOutputAddressesForSTM := stm\<rparr>" for stm by (simp add: addValidStmAddress_def)
    show ?thesis using False ty x
      Cons.IH [OF ps, of "Suc n" "sd @ snd (GetScriptPushes (GetScriptForDestination (fst p)) False)" "ad @ [?a]" "vd @ [snd p]" ?t]
      unfolding t by (simp add: pay_output_def Let_def)
  qed
qed

lemma classC_no_destination:
  assumes "length d < 2 ^ 32"
  shows "ExtractDestination H f (push_op OP_RETURN @ push_data d) = Some None"
  using IsPushOnly_push_data [OF assms]
  by (simp add: ExtractDestination_def Solver_def IsPayToScriptHash_def IsZerocoinMint_def push_op_def char_of_inject)

definition classC_output_of :: "string \<Rightarrow> CTxOut" where
  "classC_output_of payload = \<lparr>out_nValue = 0, scriptPubKey = push_op OP_RETURN @ push_data (GetOmMarker @ payload)\<rparr>"

lemma hex_ClassC_marker: "HexStr GetOmMarker = hex_ClassC"
  by code_simp

lemma classC_class:
  assumes "vout tx = map pay_output ps @ [classC_output_of payload]" "list_all (\<lambda>p. proper_destination (fst p)) ps"
    and "length payload + 4 < 2 ^ 32" "NULLDATA_BLOCK params \<le> nBlock"
  shows "GetEncodingClass env params tx nBlock = Some TOKEN_CLASS_C"
proof -
  let ?s = "push_op OP_RETURN @ push_data (GetOmMarker @ payload)"
  obtain pre where "push_data (GetOmMarker @ payload) = pre @ GetOmMarker @ payload" by (auto simp: push_data_def)
  then have "HexStr ?s = HexStr (push_op OP_RETURN @ pre) @ hex_ClassC @ HexStr payload"
    by (simp add: hex_ClassC_marker)
  moreover have "hex_ClassC \<noteq> []" by (simp add: hex_ClassC_def)
  ultimately have f: "str_find hex_ClassC (HexStr ?s)" using str_find_append by metis
  obtain e where e: "classify_outputs env params nBlock (map pay_output ps) (False, False, False) = Some (e, False, False)"
    using classify_payments [OF assms(2)] by blast
  have "classify_output env params nBlock (classC_output_of payload) (e, False, False) = Some (e, False, True)"
    using classC_output(1) [of "GetOmMarker @ payload"] classC_marked [OF assms(3)] assms(3,4)
    by (simp add: classify_output_def classC_output_of_def IsAllowedOutputType_def)
  then show ?thesis using f e by (simp add: GetEncodingClass_def assms(1) classify_append classC_output_of_def Let_def)
qed

text \<open>What the parser finds for a transaction with payments and one class C output.\<close>

lemma find_sender_ClassC:
  assumes "view_faithful env view" "vin tx = i # ins" "known_output env (prevout i) \<lparr>out_nValue = v, scriptPubKey = GetScriptForDestination d\<rparr>"
    and "coins_view viewDummy view (prevout i) \<noteq> None" "proper_destination d" "payments_allowed params nBlock"
  shows "\<exists>view'. find_sender env params TOKEN_CLASS_C tx nBlock view = Some (Inr (EncodeDestination env d), view') \<and> view_faithful env view'"
proof -
  obtain c w where a: "AccessCoin viewDummy (prevout i) view = (c, w)" by fastforce
  note A = AccessCoin_faithful [OF assms(1) a]
  have c: "\<not> IsSpent c" "coin_out c = \<lparr>out_nValue = v, scriptPubKey = GetScriptForDestination d\<rparr>"
  proof -
    show "\<not> IsSpent c" using A(3) assms(4) by auto
    then have "known_output env (prevout i) (coin_out c)" using A(3) assms(1) by (simp add: view_faithful_def del: split_paired_All)
    then show "coin_out c = \<lparr>out_nValue = v, scriptPubKey = GetScriptForDestination d\<rparr>" using known_output_unique assms(3) by blast
  qed
  obtain ty where "GetOutputType (GetScriptForDestination d) = (True, ty)" "IsAllowedInputType params ty nBlock"
    using proper_destination_script(2) [OF assms(5)] assms(6) by (auto simp: IsAllowedInputType_def payments_allowed_def)
  then have "input_address env params nBlock (- 108) (coin_out c) = Some (Inr (EncodeDestination env d))"
    using proper_destination_script(1) [OF assms(5)] by (simp add: input_address_def c(2))
  then show ?thesis using a A(1) c(1) by (simp add: find_sender_def assms(2) elem_at_def)
qed

lemma FillTxInputCache_faithful:
  assumes "view_faithful env view" "\<And>i. i \<in> set (vin tx) \<Longrightarrow> \<exists>out. spendable_input env i out"
  shows "\<exists>view'. FillTxInputCache env None tx view = Some (True, view') \<and> view_faithful env view' \<and> (\<forall>i\<in>set (vin tx). coins_view viewDummy view' (prevout i) \<noteq> None)"
proof -
  have "view_faithful env (if GetCacheSize view > tokentxcache env then view\<lparr>cacheCoins := []\<rparr> else view)"
    using assms(1) by (simp add: view_faithful_def coins_view_def lookup_coin_def)
  from fill_inputs_faithful [OF this assms(2)] show ?thesis unfolding FillTxInputCache_def Let_def by blast
qed

lemma HaveInputs_faithful:
  assumes "view_faithful env view" "\<forall>i\<in>set (vin tx). coins_view viewDummy view (prevout i) \<noteq> None"
  shows "\<exists>view'. HaveInputs viewDummy tx view = (True, view') \<and> view_faithful env view' \<and> coins_view viewDummy view' = coins_view viewDummy view"
  using have_inputs_faithful [OF assms(1), of "vin tx"] assms unfolding HaveInputs_def by auto

text \<open>
  \<^bold>\<open>C12\<close>. Class C round trip. A transaction whose outputs are payments to destinations, followed by the output that \<^verbatim>\<open>TokenCore_Encode_ClassC\<close> builds for a
  payload, is parsed as a class C transaction: the packet is exactly the payload, the sender is the destination that the first input spends from, the receiver is
  the one chosen among the other destinations, and the coins cache stays faithful to the outputs of the transactions it was read from.
\<close>

theorem classC_roundtrip:
  assumes "TokenCore_Encode_ClassC nMaxDatacarrierBytes payload [] = (True, [(script, val)])" "length payload \<le> MAX_PACKETS * PACKET_SIZE"
    and "vout tx = map pay_output ps @ [\<lparr>out_nValue = val, scriptPubKey = script\<rparr>]" "list_all (\<lambda>p. proper_destination (fst p)) ps"
    and "vin tx = i # ins" "\<And>j. j \<in> set (vin tx) \<Longrightarrow> \<exists>out. spendable_input env j out"
    and "known_output env (prevout i) \<lparr>out_nValue = v, scriptPubKey = GetScriptForDestination d\<rparr>" "proper_destination d" "EncodeDestination env d \<noteq> []"
    and "GetValueOut tx = Some outAll" "payments_allowed params nBlock" "NULLDATA_BLOCK params \<le> nBlock" "view_faithful env view" "length (pkt mp_tx) = PKT_LEN"
  shows "\<exists>t view'. parseTransaction env params gov (rpcOnly mp_tx) tx nBlock idx mp_tx nTime None view = Some (0, t, view')
    \<and> encodingClass t = TOKEN_CLASS_C \<and> tx_sender t = EncodeDestination env d
    \<and> tx_receiver t = find_reference env (EncodeDestination env d) (map (EncodeDestination env) (filter (\<lambda>d. d \<noteq> ExodusAddress env) (map fst ps)))
    \<and> pkt_size t = length payload \<and> take (length payload) (pkt t) = payload \<and> view_faithful env view'"
proof -
  have sc: "script = push_op OP_RETURN @ push_data (GetOmMarker @ payload)" "val = 0"
    using assms(1) by (auto simp: TokenCore_Encode_ClassC_def Let_def split: if_splits)
  then have vo: "vout tx = map pay_output ps @ [classC_output_of payload]" using assms(3) by (simp add: classC_output_of_def)
  have l: "length payload + 4 < 2 ^ 32" using assms(2) by simp
  have cls: "GetEncodingClass env params tx nBlock = Some TOKEN_CLASS_C" by (rule classC_class [OF vo assms(4) l assms(12)])
  obtain v1 where v1: "FillTxInputCache env None tx view = Some (True, v1)" "view_faithful env v1" "\<forall>i\<in>set (vin tx). coins_view viewDummy v1 (prevout i) \<noteq> None"
    using FillTxInputCache_faithful [OF assms(13,6)] by blast
  obtain v2 where v2: "HaveInputs viewDummy tx v1 = (True, v2)" "view_faithful env v2" "coins_view viewDummy v2 = coins_view viewDummy v1"
    using HaveInputs_faithful [OF v1(2,3)] by blast
  obtain v3 where v3: "find_sender env params TOKEN_CLASS_C tx nBlock v2 = Some (Inr (EncodeDestination env d), v3)" "view_faithful env v3"
    using find_sender_ClassC [OF v2(2) assms(5,7) _ assms(8,11)] v1(3) v2(3) assms(5) by auto
  obtain inAll v4 where v4: "GetValueIn viewDummy tx v3 = (inAll, v4)" "view_faithful env v4"
    using value_in_faithful [OF v3(2)] v3(2) unfolding GetValueIn_def by (metis prod.collapse)
  have ex: "ExtractDestination H f (scriptPubKey (classC_output_of payload)) = Some None" for H f
    using classC_no_destination [of "GetOmMarker @ payload"] l by (simp add: classC_output_of_def)
  have col: "\<exists>sd vd stm. collect_outputs env params nBlock 0 (vout tx) ([], [], [], t)
      = Some (sd, map (EncodeDestination env) (filter (\<lambda>d. d \<noteq> ExodusAddress env) (map fst ps)), vd, t\<lparr>validOutputAddressesForSTM := stm\<rparr>)" for t
    using collect_payments [OF assms(4,11), of env 0 "[]" "[]" "[]" t] ex by (auto simp: vo collect_append split: prod.splits)
  have pc: "parse_ClassC params nBlock tx = Some payload"
    using parse_ClassC_payload [of tx "map pay_output ps" 0 payload "[]"] vo op_return_data_payments [OF assms(4)] assms(2,12) by (simp add: classC_output_of_def)
  have nm: "EncodeDestination env d = [] \<longleftrightarrow> False" using assms(9) by simp
  show ?thesis
    using col [of "Set_block (tx_hash tx) nBlock idx nTime (fold (\<lambda>out v. if scriptPubKey out = GetFeeScript gov then s64 (v + out_nValue out) else v) (vout tx) 0) mp_tx"]
      assms(2,14) v4(2)
    by (auto simp: parseTransaction_def cls v1(1) v2(1) v3(1) v4(1) assms(10) pc nm Set_packet_def Set_block_def PKT_LEN_def Let_def)
qed

definition sample_parse_env :: parse_env where
  "sample_parse_env = \<lparr>nonMainNet = True, Hash160 = (\<lambda>_. replicate 20 (CHR ''h'')), SHA256 = (\<lambda>_. replicate 32 (CHR ''s'')),
     EncodeDestination = (\<lambda>d. case d of CKeyID h \<Rightarrow> CHR ''k'' # h | CScriptID h \<Rightarrow> CHR ''s'' # h | CNoDestination \<Rightarrow> []),
     DecodeDestination = (\<lambda>_. CKeyID (replicate 20 (CHR ''x''))),
     GetTransaction = (\<lambda>h. if h = 9 then Some (\<lparr>tx_hash = 9, vin = [], vout = [pay_output (CKeyID (replicate 20 (CHR ''a'')), 50)]\<rparr>, 1) else None),
     tokentxcache = 500000\<rparr>"

definition sample_classC_tx :: CTransaction where
  "sample_classC_tx = \<lparr>tx_hash = 10, vin = [\<lparr>prevout = (9, 0), scriptSig = [], nSequence = 0\<rparr>],
     vout = [pay_output (CKeyID (replicate 20 (CHR ''b'')), 5), classC_output_of ''payload'']\<rparr>"

theorem classC_roundtrip_witness:
  "\<exists>t view'. parseTransaction sample_parse_env CMainConsensusParams sample_governance True sample_classC_tx 2000000 1 sample_tx 0 None empty_cache = Some (0, t, view')
    \<and> tx_sender t = CHR ''k'' # replicate 20 (CHR ''a'') \<and> tx_receiver t = CHR ''k'' # replicate 20 (CHR ''b'') \<and> take 7 (pkt t) = ''payload''"
proof -
  let ?i = "\<lparr>prevout = (9, 0), scriptSig = [], nSequence = 0\<rparr>" and ?ps = "[(CKeyID (replicate 20 (CHR ''b'')), 5 :: int)]"
  let ?d = "CKeyID (replicate 20 (CHR ''a''))"
  have k: "known_output sample_parse_env (9, 0) \<lparr>out_nValue = 50, scriptPubKey = GetScriptForDestination ?d\<rparr>"
    by (simp add: known_output_def sample_parse_env_def elem_at_def pay_output_def)
  have sp: "\<exists>out. spendable_input sample_parse_env j out" if "j \<in> set (vin sample_classC_tx)" for j
  proof -
    have "\<not> IsUnspendable (GetScriptForDestination ?d)" by (simp add: IsUnspendable_def GetScriptForDestination_def push_op_def push_data_def char_of_inject)
    then show ?thesis using that k by (auto simp: spendable_input_def sample_classC_tx_def)
  qed
  have main: "\<exists>t view'. parseTransaction sample_parse_env CMainConsensusParams sample_governance (rpcOnly sample_tx) sample_classC_tx 2000000 1 sample_tx 0 None empty_cache = Some (0, t, view')
    \<and> encodingClass t = TOKEN_CLASS_C \<and> tx_sender t = EncodeDestination sample_parse_env ?d
    \<and> tx_receiver t = find_reference sample_parse_env (EncodeDestination sample_parse_env ?d) (map (EncodeDestination sample_parse_env) (filter (\<lambda>d. d \<noteq> ExodusAddress sample_parse_env) (map fst ?ps)))
    \<and> pkt_size t = length ''payload'' \<and> take (length ''payload'') (pkt t) = ''payload'' \<and> view_faithful sample_parse_env view'"
  proof (rule classC_roundtrip [where nMaxDatacarrierBytes = 83 and i = ?i and ins = "[]" and v = 50 and outAll = 5])
    show "TokenCore_Encode_ClassC 83 ''payload'' [] = (True, [(scriptPubKey (classC_output_of ''payload''), 0)])"
      by (simp add: TokenCore_Encode_ClassC_def classC_output_of_def Let_def)
    show "vout sample_classC_tx = map pay_output ?ps @ [\<lparr>out_nValue = 0, scriptPubKey = scriptPubKey (classC_output_of ''payload'')\<rparr>]"
      by (simp add: sample_classC_tx_def classC_output_of_def)
  qed (use k sp in \<open>simp_all add: sample_classC_tx_def proper_destination_def GetValueOut_def pay_output_def classC_output_of_def payments_allowed_def
      CMainConsensusParams_def view_faithful_def empty_cache_def coins_view_def lookup_coin_def sample_tx_def SetNull_def sample_parse_env_def s64_def\<close>)
  have r: "rpcOnly sample_tx" by (simp add: sample_tx_def SetNull_def)
  have a: "EncodeDestination sample_parse_env ?d = CHR ''k'' # replicate 20 (CHR ''a'')" by (simp add: sample_parse_env_def)
  have b: "find_reference sample_parse_env (CHR ''k'' # replicate 20 (CHR ''a'')) (map (EncodeDestination sample_parse_env) (filter (\<lambda>d. d \<noteq> ExodusAddress sample_parse_env) (map fst ?ps)))
    = CHR ''k'' # replicate 20 (CHR ''b'')" by (simp add: find_reference_def sample_parse_env_def ExodusAddress_def exodus_address_def)
  have l: "length ''payload'' = 7" by simp
  show ?thesis using main unfolding a b l by (elim exE conjE) (simp add: r)
qed

subsection \<open>Class B round trip\<close>

fun chunks :: "string \<Rightarrow> string list" where
  "chunks xs = (if xs = [] then [] else take 30 xs # chunks (drop 30 xs))"

declare chunks.simps [simp del]

lemma chunks_Nil [simp]: "chunks [] = []"
  by (simp add: chunks.simps)

lemma chunks_Cons: "xs \<noteq> [] \<Longrightarrow> chunks xs = take 30 xs # chunks (drop 30 xs)"
  by (subst chunks.simps) simp

lemma chunks_padded: "concat (map (\<lambda>c. take 30 (c @ replicate 31 z)) (chunks xs)) = xs @ replicate (30 * length (chunks xs) - length xs) z"
proof (induction xs rule: chunks.induct)
  case (1 xs)
  show ?case
  proof (cases "length xs \<le> 30")
    case True
    then show ?thesis by (cases "xs = []") (auto simp: chunks_Cons)
  next
    case False
    then have ne: "xs \<noteq> []" by auto
    have "take 30 (take 30 xs @ replicate 31 z) = take 30 xs" using False by simp
    then show ?thesis using 1 [OF ne] False by (simp add: chunks_Cons [OF ne] flip: append_assoc)
  qed
qed

lemma chunks_length: "length xs \<le> 30 * n \<longleftrightarrow> length (chunks xs) \<le> n"
proof (induction xs arbitrary: n rule: chunks.induct)
  case (1 xs)
  show ?case
  proof (cases "xs = []")
    case False
    show ?thesis
    proof (cases n)
      case (Suc m)
      have "length xs \<le> 30 * n \<longleftrightarrow> length (drop 30 xs) \<le> 30 * m" by (simp add: Suc) linarith
      then show ?thesis using 1 [OF False, of m] by (simp add: Suc chunks_Cons [OF False])
    qed (use False in \<open>simp add: chunks_Cons\<close>)
  qed simp
qed

lemma char_xor_cancel [simp]: "char_xor (char_xor a b) b = a"
proof -
  have b: "unat (byte_of c) = of_char c" for c using of_char_less [of c] by (simp add: byte_of_def unat_of_nat)
  have "byte_of (char_of (unat w)) = w" for w :: "8 word"
    using unsigned_less [of w, where ?'a = nat] by (simp add: byte_of_def)
  then have "byte_of (char_xor a b) = xor (byte_of a) (byte_of b)" by (simp add: char_xor_def)
  then show ?thesis by (simp add: char_xor_def [of "char_xor a b"] xor.assoc b)
qed

lemma first_or_last: "xs \<noteq> [] \<Longrightarrow> (case find P xs of Some x \<Rightarrow> x | None \<Rightarrow> last xs) \<in> set xs"
  by (auto simp: find_Some_iff split: option.split)

lemma fake_key_shape:
  assumes "fake_key hashes valid rand sq chunk = Some key"
  shows "\<exists>r. key = CHR 0x02 # map2 char_xor (take PACKET_SIZE (char_of sq # chunk @ replicate PACKET_SIZE (CHR 0x00))) (ParseHex (hashes ! sq)) @ [r]"
    and "length (ParseHex (hashes ! sq)) \<ge> PACKET_SIZE"
proof -
  let ?k = "\<lambda>j. CHR 0x02 # map2 char_xor (take PACKET_SIZE (char_of sq # chunk @ replicate PACKET_SIZE (CHR 0x00))) (ParseHex (hashes ! sq)) @ [char_of (rand sq + j)]"
  have "key \<in> set (map ?k [0 ..< 256])"
    using assms first_or_last [of "map ?k [0 ..< 256]" valid] unfolding fake_key_def Let_def by (simp split: if_splits)
  then show "\<exists>r. key = CHR 0x02 # map2 char_xor (take PACKET_SIZE (char_of sq # chunk @ replicate PACKET_SIZE (CHR 0x00))) (ParseHex (hashes ! sq)) @ [r]" by auto
  show "length (ParseHex (hashes ! sq)) \<ge> PACKET_SIZE" using assms by (auto simp: fake_key_def Let_def split: if_splits)
qed

lemma fake_key_size:
  assumes "fake_key hashes valid rand sq chunk = Some key"
  shows "length key = 33" "ValidSize key"
  using fake_key_shape [OF assms] by (auto simp: ValidSize_def pubkey_GetLen_def)

lemma fake_key_exists: "length (ParseHex (hashes ! sq)) \<ge> PACKET_SIZE \<Longrightarrow> \<exists>key. fake_key hashes valid rand sq chunk = Some key"
  by (simp add: fake_key_def Let_def)

lemma map2_xor_cancel: "length xs \<le> length hs \<Longrightarrow> map2 char_xor (map2 char_xor xs hs) hs = xs"
  by (induction xs hs rule: list_induct2') simp_all

lemma deobfuscate_fake_key:
  assumes "fake_key hashes valid rand sq chunk = Some key"
  shows "deobfuscate (hashes ! sq) (HexStr key) = Some (take PACKET_SIZE (char_of sq # chunk @ replicate PACKET_SIZE (CHR 0x00)))"
proof -
  let ?p = "take PACKET_SIZE (char_of sq # chunk @ replicate PACKET_SIZE (CHR 0x00))" and ?h = "ParseHex (hashes ! sq)"
  obtain r where k: "key = CHR 0x02 # map2 char_xor ?p ?h @ [r]" and h: "length ?h \<ge> PACKET_SIZE" using fake_key_shape [OF assms] by blast
  have l: "length ?p = PACKET_SIZE" by simp
  have "substr (HexStr key) 2 (2 * PACKET_SIZE) = Some (HexStr (take PACKET_SIZE (drop 1 key)))"
    using drop_HexStr [of 1 key] take_HexStr [of PACKET_SIZE "drop 1 key"] by (simp add: substr_def k)
  also have "take PACKET_SIZE (drop 1 key) = map2 char_xor ?p ?h" using l h by (simp add: k)
  finally show ?thesis using l h map2_xor_cancel [of ?p ?h] by (simp add: deobfuscate_def Let_def)
qed

text \<open>The script of a 1-of-n multisig output with proper keys.\<close>

lemma multisig_keys_script:
  assumes "list_all ValidSize ks" "IsSmallInteger n"
  shows "multisig_keys (concat (map push_data ks) @ push_op n @ pc) acc = (n, acc @ ks, pc)"
  using assms(1)
proof (induction ks arbitrary: acc)
  case Nil
  have "GetOp (push_op n @ pc) = Some (n, [], pc)" using assms(2) by (simp add: IsSmallInteger_def)
  then show ?case by (subst multisig_keys.simps) (simp add: ValidSize_def)
next
  case (Cons k ks)
  then have "length k < 2 ^ 32" by (auto simp: ValidSize_def pubkey_GetLen_def split: if_splits)
  then obtain oc where "GetOp (push_data k @ concat (map push_data ks) @ push_op n @ pc) = Some (oc, k, concat (map push_data ks) @ push_op n @ pc)"
    using GetOp_push_data by blast
  then show ?case using Cons by (subst multisig_keys.simps) simp
qed

lemma pushes_keys:
  assumes "list_all ValidSize ks" "IsSmallInteger n"
  shows "pushes_from True (Suc cnt) (concat (map push_data ks) @ push_op n @ push_op OP_CHECKMULTISIG) = (True, map HexStr ks)"
  using assms(1)
proof (induction ks arbitrary: cnt)
  case Nil
  have "pushes_from True (Suc cnt) (push_op OP_CHECKMULTISIG @ []) = pushes_from True (Suc cnt) []" by (rule pushes_push_op) simp_all
  then show ?case using assms(2) by (simp add: pushes_push_op IsSmallInteger_def)
next
  case (Cons k ks)
  then have "length k < 2 ^ 32" by (auto simp: ValidSize_def pubkey_GetLen_def split: if_splits)
  then show ?case using Cons by (simp add: pushes_push_data)
qed

lemma multisig_output:
  assumes "GetScriptForMultisig 1 (k # ks) = Some script" "list_all ValidSize (k # ks)"
  shows "\<exists>sols. Solver script = Some (True, TX_MULTISIG, sols)" "GetOutputType script = (True, TX_MULTISIG)"
    "snd (GetScriptPushes script True) = map HexStr ks" "\<exists>r. ExtractDestinations H script = Some (Some (TX_MULTISIG, r))"
proof -
  define n where "n = OP_1 + length (k # ks) - 1"
  have n: "length (k # ks) \<le> 16" "IsSmallInteger n" "n < 256" "OP_PUSHDATA4 < n"
    and sc: "script = push_op OP_1 @ concat (map push_data (k # ks)) @ push_op n @ push_op OP_CHECKMULTISIG"
    using assms(1) by (auto simp: GetScriptForMultisig_def EncodeOP_N_def n_def IsSmallInteger_def split: if_splits)
  have d: "DecodeOP_N n = Some (length (k # ks))" "DecodeOP_N OP_1 = Some 1" using n(1) by (auto simp: DecodeOP_N_def n_def)
  have m: "MatchMultisig script = Some (1, k # ks)"
    using multisig_keys_script [OF assms(2) n(2), of "push_op OP_CHECKMULTISIG" "[]"] n(2) d
    by (simp add: MatchMultisig_def sc IsSmallInteger_def) (simp add: push_op_def)
  have kl: "length (push_data k) \<ge> 34" using assms(2) by (auto simp: push_data_def ValidSize_def pubkey_GetLen_def split: if_splits)
  have s0: "script ! 0 = char_of OP_1" "length script \<ge> 36" using kl by (simp_all add: sc push_op_def)
  have p2sh: "\<not> IsPayToScriptHash script" using s0 by (auto simp: IsPayToScriptHash_def char_of_inject)
  have no: "\<not> IsZerocoinMint script" "script ! 0 \<noteq> char_of OP_RETURN" "MatchPayToPubkey script = None" "MatchPayToPubkeyHash script = None"
    using s0 by (auto simp: IsZerocoinMint_def MatchPayToPubkey_def MatchPayToPubkeyHash_def char_of_inject)
  have "last script = char_of OP_CHECKMULTISIG" "script \<noteq> []" by (simp_all add: sc) (simp add: push_op_def)
  then have "MatchPayToColdStaking script = None"
    by (auto simp: MatchPayToColdStaking_def IsPayToColdStaking_def last_conv_nth char_of_inject)
  then have sv: "Solver script = Some (True, TX_MULTISIG, [[char_of (1 :: nat)]] @ (k # ks) @ [[char_of (length (k # ks))]])"
    using p2sh no m by (simp add: Solver_def)
  then show "\<exists>sols. Solver script = Some (True, TX_MULTISIG, sols)" by blast
  show "GetOutputType script = (True, TX_MULTISIG)" using solver_multisig [OF m p2sh] by (simp add: GetOutputType_def)
  have "length k < 2 ^ 32" "list_all ValidSize ks" using assms(2) by (auto simp: ValidSize_def pubkey_GetLen_def split: if_splits)
  then show "snd (GetScriptPushes script True) = map HexStr ks"
    using pushes_keys [OF _ n(2), of ks 0] by (simp add: GetScriptPushes_def sc pushes_push_op pushes_push_data)
  show "\<exists>r. ExtractDestinations H script = Some (Some (TX_MULTISIG, r))"
    using assms(2) by (simp add: ExtractDestinations_def sv Let_def)
qed

text \<open>The data of the multisig outputs: one key for every chunk.\<close>

abbreviation to_output :: "CScript \<times> int \<Rightarrow> CTxOut" where
  "to_output p \<equiv> \<lparr>out_nValue = snd p, scriptPubKey = fst p\<rparr>"

definition packet_of :: "nat \<Rightarrow> string \<Rightarrow> string" where
  "packet_of sq chunk = take PACKET_SIZE (char_of sq # chunk @ replicate PACKET_SIZE (CHR 0x00))"

definition hashes_ok :: "string list \<Rightarrow> bool" where
  "hashes_ok hashes \<longleftrightarrow> (\<forall>k. 1 \<le> k \<and> k < 256 \<longrightarrow> length (ParseHex (hashes ! k)) = 32)"

lemma encode_packets_step:
  assumes "hashes_ok hashes" "ValidSize redeem" "1 \<le> sq" "sq + nk \<le> 256" "payload \<noteq> []" "nk = (if length payload > 30 then 2 else 1)"
    and "encode_packets hashes valid rand redeem fee (drop (nk * 30) payload) ((sq + nk) mod 256) = Some outs"
  shows "\<exists>ks p. encode_packets hashes valid rand redeem fee payload sq = Some (p # outs) \<and> GetScriptForMultisig 1 (redeem # ks) = Some (fst p)
    \<and> list_all ValidSize (redeem # ks) \<and> length ks = nk \<and> (\<forall>k<nk. fake_key hashes valid rand (sq + k) (take 30 (drop (30 * k) payload)) = Some (ks ! k))"
proof -
  have h: "length (ParseHex (hashes ! (sq + k))) \<ge> PACKET_SIZE" if "k < nk" for k using assms(1,3,4) that by (simp add: hashes_ok_def)
  obtain k1 where k1: "fake_key hashes valid rand sq (take 30 payload) = Some k1"
    using fake_key_exists [of hashes sq valid rand "take 30 payload"] h [of 0] assms(6) by (auto split: if_splits)
  show ?thesis
  proof (cases "nk = 2")
    case True
    then obtain k2 where k2: "fake_key hashes valid rand (sq + 1) (take 30 (drop 30 payload)) = Some k2"
      using fake_key_exists [of hashes "sq + 1" valid rand "take 30 (drop 30 payload)"] h [of 1] by auto
    obtain script where sc: "GetScriptForMultisig 1 [redeem, k1, k2] = Some script" by (simp add: GetScriptForMultisig_def EncodeOP_N_def)
    have "encode_packets hashes valid rand redeem fee payload sq = Some ((script, GetDustThreshold fee script) # outs)"
      using k1 k2 sc assms(4-7) True by (subst encode_packets.simps) (simp add: Let_def)
    moreover have "\<forall>k<nk. fake_key hashes valid rand (sq + k) (take 30 (drop (30 * k) payload)) = Some ([k1, k2] ! k)"
      using k1 k2 True by (auto simp: less_2_cases_iff)
    ultimately show ?thesis using sc True assms(2) fake_key_size [OF k1] fake_key_size [OF k2]
      by (intro exI [of _ "[k1, k2]"] exI [of _ "(script, GetDustThreshold fee script)"]) simp
  next
    case False
    then have n: "nk = 1" "length payload \<le> 30" using assms(6) by (auto split: if_splits)
    obtain script where sc: "GetScriptForMultisig 1 [redeem, k1] = Some script" by (simp add: GetScriptForMultisig_def EncodeOP_N_def)
    have "encode_packets hashes valid rand redeem fee payload sq = Some ((script, GetDustThreshold fee script) # outs)"
      using k1 sc assms(5,7) n by (subst encode_packets.simps) (simp add: Let_def)
    then show ?thesis using sc n assms(2) fake_key_size [OF k1] k1
      by (intro exI [of _ "[k1]"] exI [of _ "(script, GetDustThreshold fee script)"]) simp
  qed
qed

lemma encode_packets_data:
  assumes "hashes_ok hashes" "ValidSize redeem" "1 \<le> sq" "sq + length (chunks payload) \<le> 256"
  shows "\<exists>outs keys. encode_packets hashes valid rand redeem fee payload sq = Some outs \<and> multisig_data env (map to_output outs) = Some (map HexStr keys)
    \<and> length keys = length (chunks payload) \<and> (\<forall>k<length keys. fake_key hashes valid rand (sq + k) (chunks payload ! k) = Some (keys ! k))
    \<and> (payload \<noteq> [] \<longrightarrow> outs \<noteq> []) \<and> list_all (\<lambda>p. GetOutputType (fst p) = (True, TX_MULTISIG)) outs"
  using assms(3,4)
proof (induction payload arbitrary: sq rule: length_induct)
  case (1 payload)
  show ?case
  proof (cases "payload = []")
    case True
    then show ?thesis by (auto simp: encode_packets.simps intro: exI [of _ "[]"])
  next
    case ne: False
    define nk where "nk = (if length payload > 30 then 2 else 1 :: nat)"
    let ?r = "drop (nk * 30) payload"
    define cs where "cs = map (\<lambda>k. take 30 (drop (30 * k) payload)) [0 ..< nk]"
    have ck: "chunks payload = cs @ chunks ?r" and lc: "length cs = nk" and nk: "nk = 2 \<or> nk = 1"
      using chunks_Cons [OF ne] chunks_Cons [of "drop 30 payload"] by (auto simp: nk_def cs_def upt_rec)
    have b: "sq + nk \<le> 256" "sq + nk + length (chunks ?r) \<le> 256" using 1(3) by (simp_all add: ck lc)
    have "\<exists>outs keys. encode_packets hashes valid rand redeem fee ?r ((sq + nk) mod 256) = Some outs \<and> multisig_data env (map to_output outs) = Some (map HexStr keys)
      \<and> length keys = length (chunks ?r) \<and> (\<forall>k<length keys. fake_key hashes valid rand (sq + nk + k) (chunks ?r ! k) = Some (keys ! k))
      \<and> list_all (\<lambda>p. GetOutputType (fst p) = (True, TX_MULTISIG)) outs"
    proof (cases "?r = []")
      case True
      then show ?thesis by (auto simp: encode_packets.simps [of _ _ _ _ _ "[]"] intro: exI [of _ "[]"])
    next
      case False
      then have "sq + nk < 256" using b(2) chunks_Cons [OF False] by auto
      then have m: "(sq + nk) mod 256 = sq + nk" by simp
      have l: "length ?r < length payload" and q: "1 \<le> sq + nk" using ne nk by auto
      from 1(1) [rule_format, OF l q b(2)] show ?thesis unfolding m by blast
    qed
    then obtain outs keys where r: "encode_packets hashes valid rand redeem fee ?r ((sq + nk) mod 256) = Some outs"
      "multisig_data env (map to_output outs) = Some (map HexStr keys)" "length keys = length (chunks ?r)"
      "\<forall>k<length keys. fake_key hashes valid rand (sq + nk + k) (chunks ?r ! k) = Some (keys ! k)"
      "list_all (\<lambda>p. GetOutputType (fst p) = (True, TX_MULTISIG)) outs" by blast
    obtain ks p where p: "encode_packets hashes valid rand redeem fee payload sq = Some (p # outs)" "GetScriptForMultisig 1 (redeem # ks) = Some (fst p)"
      "list_all ValidSize (redeem # ks)" "length ks = nk" "\<forall>k<nk. fake_key hashes valid rand (sq + k) (take 30 (drop (30 * k) payload)) = Some (ks ! k)"
      using encode_packets_step [OF assms(1,2) 1(2) b(1) ne nk_def r(1)] by blast
    note o = multisig_output [OF p(2,3)]
    have "fake_key hashes valid rand (sq + k) (chunks payload ! k) = Some ((ks @ keys) ! k)" if "k < length (ks @ keys)" for k
    proof (cases "k < nk")
      case True
      then show ?thesis using p(4,5) lc by (simp add: ck nth_append cs_def)
    next
      case False
      then show ?thesis using r(4) [rule_format, of "k - nk"] that p(4) lc by (simp add: ck nth_append)
    qed
    moreover have "multisig_data env (map to_output (p # outs)) = Some (map HexStr (ks @ keys))"
      using o(3) o(4) [of "Hash160 env"] r(2) by auto
    moreover have "length (ks @ keys) = length (chunks payload)" using r(3) p(4) lc by (simp add: ck)
    ultimately show ?thesis using p(1) r(5) o(2) by (intro exI [of _ "p # outs"] exI [of _ "ks @ keys"]) simp
  qed
qed

lemma obfuscation_take: "n \<le> m \<Longrightarrow> obfuscation_hashes sha n x = take n (obfuscation_hashes sha m x)"
proof (induction n arbitrary: m x)
  case (Suc n)
  then show ?case by (cases m) (simp_all add: Let_def)
qed simp

lemma obfuscation_ok:
  assumes "\<And>x. length (sha x) = 32"
  shows "length (obfuscation_hashes sha n x) = n" "k < n \<Longrightarrow> length (ParseHex (obfuscation_hashes sha n x ! k)) = 32"
proof -
  show "length (obfuscation_hashes sha n x) = n" by (induction n arbitrary: x) (simp_all add: Let_def)
  show "k < n \<Longrightarrow> length (ParseHex (obfuscation_hashes sha n x ! k)) = 32"
    using assms by (induction n arbitrary: k x) (auto simp: Let_def nth_Cons')
qed

lemma upt_first: "[sq ..< sq + length (c # cs)] = sq # [Suc sq ..< Suc sq + length cs]"
  by (simp add: upt_conv_Cons del: upt_Suc)

lemma deobfuscate_keys:
  assumes "length keys = length cs" "length hs \<ge> length cs" "\<And>k. k < length cs \<Longrightarrow> deobfuscate (hs ! k) (HexStr (keys ! k)) = Some (packet_of (sq + k) (cs ! k))"
  shows "deobfuscate_all hs (map HexStr keys) = Some (map2 packet_of [sq ..< sq + length cs] cs)"
  using assms
proof (induction keys cs arbitrary: hs sq rule: list_induct2)
  case (Cons key keys c cs)
  then obtain h hs' where h: "hs = h # hs'" by (cases hs) auto
  have "deobfuscate h (HexStr key) = Some (packet_of sq c)" using Cons.prems(2) [of 0] h by simp
  moreover have "deobfuscate_all hs' (map HexStr keys) = Some (map2 packet_of [Suc sq ..< Suc sq + length cs] cs)"
    using Cons.prems Cons.prems(2) [of "Suc _"] by (intro Cons.IH) (simp_all add: h)
  ultimately show ?case unfolding upt_first by (simp add: h)
qed simp

lemma packets_payload: "concat (map (\<lambda>p. take 30 (drop 1 p)) (map2 packet_of [sq ..< sq + length cs] cs)) = concat (map (\<lambda>c. take 30 (c @ replicate 31 (CHR 0x00))) cs)"
proof (induction cs arbitrary: sq)
  case (Cons c cs)
  show ?case unfolding upt_first using Cons [of "Suc sq"] by (simp add: packet_of_def)
qed simp

lemma multisig_data_payments:
  "list_all (\<lambda>p. proper_destination (fst p)) ps \<Longrightarrow> multisig_data env (map pay_output ps) = Some []"
proof (induction ps)
  case (Cons p ps)
  have "\<exists>r. ExtractDestinations (Hash160 env) (GetScriptForDestination (fst p)) = Some r \<and> (\<forall>x. r \<noteq> Some (TX_MULTISIG, x))"
    using Cons.prems destination_scripts by (auto simp: ExtractDestinations_def proper_destination_def split: CTxDestination.splits)
  then show ?case using Cons by (auto simp: pay_output_def split: option.splits txnouttype.splits)
qed simp

lemma multisig_data_append:
  "multisig_data env (xs @ ys) = do { a \<leftarrow> multisig_data env xs; b \<leftarrow> multisig_data env ys; Some (a @ b) }"
  by (induction xs) (auto split: bind_split option.splits txnouttype.splits)

lemma chunks_count: "length (chunks xs) = (length xs + 29) div 30"
proof (induction xs rule: chunks.induct)
  case (1 xs)
  show ?case
  proof (cases "xs = []")
    case False
    have "(length xs + 29) div 30 = Suc ((length (drop 30 xs) + 29) div 30)"
    proof -
      have "0 < length xs" using False by simp
      show ?thesis
      proof (cases "30 \<le> length xs")
        case True
        then show ?thesis using le_Suc_ex [OF True] by auto
      next
        case small: False
        then have "(length xs + 29) div 30 = 1" using \<open>0 < length xs\<close> by (intro div_nat_eqI) (linarith, use small in simp)
        then show ?thesis using small by simp
      qed
    qed
    then show ?thesis using 1 [OF False] by (simp add: chunks_Cons [OF False])
  qed simp
qed

lemma parse_ClassB_payload:
  assumes "\<And>x. length (SHA256 env x) = 32" "ValidSize redeem" "length sender < 128" "length payload \<le> 255 * 30" "proper_destination (ExodusAddress env)"
    and "list_all (\<lambda>p. proper_destination (fst p)) ps"
  shows "\<exists>outs. TokenCore_Encode_ClassB env valid rand fee sender redeem payload []
      = Some (outs @ [(GetScriptForDestination (ExodusAddress env), GetDustThreshold fee (GetScriptForDestination (ExodusAddress env)))])
    \<and> list_all (\<lambda>p. GetOutputType (fst p) = (True, TX_MULTISIG)) outs \<and> (payload \<noteq> [] \<longrightarrow> outs \<noteq> [])
    \<and> (\<forall>tx val. vout tx = map to_output outs @ map pay_output ((ExodusAddress env, val) # ps) \<longrightarrow>
        parse_ClassB env tx sender = Some (payload @ replicate (30 * ((length payload + 29) div 30) - length payload) (CHR 0x00)))"
proof -
  let ?hs = "obfuscation_hashes (SHA256 env) 255 sender" and ?n = "length (chunks payload)"
  have n: "?n \<le> 255" using chunks_length [of payload 255] assms(4) by simp
  then have n1: "1 + ?n \<le> 256" by simp
  have pr: "PrepareObfuscatedHashes (SHA256 env) sender 255 = Some ([] # ?hs)" using assms(3) by (simp add: PrepareObfuscatedHashes_def)
  have lo: "length (obfuscation_hashes (SHA256 env) n x) = n" for n x using obfuscation_ok(1) [of "SHA256 env"] assms(1) by blast
  have "length (ParseHex (?hs ! k)) = 32" if "k < 255" for k using obfuscation_ok(2) [of "SHA256 env" k 255 sender] assms(1) that by blast
  then have hk: "hashes_ok ([] # ?hs)" by (auto simp: hashes_ok_def nth_Cons' simp del: obfuscation_hashes.simps)
  obtain outs keys where e: "encode_packets ([] # ?hs) valid rand redeem fee payload 1 = Some outs" "multisig_data env (map to_output outs) = Some (map HexStr keys)"
    "length keys = ?n" "\<forall>k<length keys. fake_key ([] # ?hs) valid rand (1 + k) (chunks payload ! k) = Some (keys ! k)"
    "payload \<noteq> [] \<longrightarrow> outs \<noteq> []" "list_all (\<lambda>p. GetOutputType (fst p) = (True, TX_MULTISIG)) outs"
    using encode_packets_data [OF hk assms(2) order_refl n1, of valid rand fee env] by blast
  have "parse_ClassB env tx sender = Some (payload @ replicate (30 * ((length payload + 29) div 30) - length payload) (CHR 0x00))"
    if v: "vout tx = map to_output outs @ map pay_output ((ExodusAddress env, val) # ps)" for tx val
  proof -
    have md: "multisig_data env (vout tx) = Some (map HexStr keys)"
      unfolding v multisig_data_append using e(2) multisig_data_payments [of "(ExodusAddress env, val) # ps" env] assms(5,6) by simp
    define m where "m = min (1 + ?n) 255"
    obtain hs2 where h2: "PrepareObfuscatedHashes (SHA256 env) sender (1 + ?n) = Some ([] # hs2)" "hs2 = obfuscation_hashes (SHA256 env) m sender @ replicate (255 - m) []"
      using assms(3) by (simp add: PrepareObfuscatedHashes_def m_def)
    have m: "m \<le> 255" "?n \<le> m" using n by (auto simp: m_def)
    have hs: "hs2 ! k = ?hs ! k" if "k < ?n" for k
    proof -
      have "hs2 ! k = take m ?hs ! k" using that m lo obfuscation_take [OF m(1)] by (simp add: h2(2) nth_append)
      then show ?thesis using that m by simp
    qed
    have "length hs2 = 255" using m lo by (simp add: h2(2))
    moreover have "deobfuscate (hs2 ! k) (HexStr (keys ! k)) = Some (packet_of (1 + k) (chunks payload ! k))" if "k < ?n" for k
      using deobfuscate_fake_key [OF e(4) [rule_format, of k]] that e(3) hs [OF that] by (simp add: packet_of_def)
    ultimately have "deobfuscate_all hs2 (map HexStr keys) = Some (map2 packet_of [1 ..< 1 + ?n] (chunks payload))"
      using n by (intro deobfuscate_keys [OF e(3)]) simp_all
    then have "parse_ClassB env tx sender = Some (concat (map (\<lambda>p. take 30 (drop 1 p)) (map2 packet_of [1 ..< 1 + ?n] (chunks payload))))"
      using md h2(1) e(3) n by (simp add: parse_ClassB_def Let_def)
    also have "\<dots> = Some (payload @ replicate (30 * ?n - length payload) (CHR 0x00))" unfolding packets_payload chunks_padded ..
    finally show ?thesis unfolding chunks_count .
  qed
  then show ?thesis using pr e(1,5,6) by (intro exI [of _ outs]) (simp add: TokenCore_Encode_ClassB_def Let_def)
qed

lemma classify_multisig:
  assumes "list_all (\<lambda>p. GetOutputType (fst p) = (True, TX_MULTISIG)) outs" "MULTISIG_BLOCK params \<le> nBlock"
  shows "classify_outputs env params nBlock (map to_output outs) (e, m, r) = Some (e, m \<or> outs \<noteq> [], r)"
  using assms(1)
proof (induction outs arbitrary: m)
  case (Cons p outs)
  then have "classify_output env params nBlock (to_output p) (e, m, r) = Some (e, True, r)"
    using assms(2) by (simp add: classify_output_def IsAllowedOutputType_def)
  then show ?case using Cons by simp
qed simp

text \<open>
  \<^bold>\<open>C13\<close>. Class B round trip. For a payload of at most 7650 bytes, \<^verbatim>\<open>TokenCore_Encode_ClassB\<close> succeeds, and a transaction with its outputs, followed by payments
  to destinations, is recognised as class B and its packet is the payload, padded with zeros to full packets of 30 bytes; this holds whatever random bytes complete the keys.
\<close>

theorem classB_roundtrip:
  assumes "\<And>x. length (SHA256 env x) = 32" "ValidSize redeem" "length sender < 128" "payload \<noteq> []" "length payload \<le> 255 * 30"
    and "ExodusAddress env = CKeyID h" "length h = 20" "nonMainNet env \<or> HexStr (GetScriptForDestination (CKeyID h)) = hex_ClassAB"
    and "MULTISIG_BLOCK params \<le> nBlock" "payments_allowed params nBlock" "list_all (\<lambda>p. proper_destination (fst p)) ps"
  shows "\<exists>outs. TokenCore_Encode_ClassB env valid rand fee sender redeem payload [] = Some outs
    \<and> (\<forall>tx. vout tx = map to_output outs @ map pay_output ps \<longrightarrow>
         GetEncodingClass env params tx nBlock = Some TOKEN_CLASS_B
       \<and> parse_ClassB env tx sender = Some (payload @ replicate (30 * ((length payload + 29) div 30) - length payload) (CHR 0x00)))"
proof -
  have ex: "proper_destination (ExodusAddress env)" using assms(6,7) by (simp add: proper_destination_def)
  define x where "x = (GetScriptForDestination (ExodusAddress env), GetDustThreshold fee (GetScriptForDestination (ExodusAddress env)))"
  obtain outs where o: "TokenCore_Encode_ClassB env valid rand fee sender redeem payload [] = Some (outs @ [x])"
    "list_all (\<lambda>p. GetOutputType (fst p) = (True, TX_MULTISIG)) outs" "outs \<noteq> []"
    "\<And>tx val. vout tx = map to_output outs @ map pay_output ((ExodusAddress env, val) # ps) \<Longrightarrow>
        parse_ClassB env tx sender = Some (payload @ replicate (30 * ((length payload + 29) div 30) - length payload) (CHR 0x00))"
    using parse_ClassB_payload [OF assms(1-3,5) ex assms(11), of valid rand fee] assms(4) unfolding x_def by blast
  have "GetEncodingClass env params tx nBlock = Some TOKEN_CLASS_B
       \<and> parse_ClassB env tx sender = Some (payload @ replicate (30 * ((length payload + 29) div 30) - length payload) (CHR 0x00))"
    if v: "vout tx = map to_output (outs @ [x]) @ map pay_output ps" for tx
  proof -
    have v2: "vout tx = map to_output outs @ map pay_output ((ExodusAddress env, snd x) # ps)" using v by (simp add: pay_output_def x_def)
    have e: "classify_outputs env params nBlock (map pay_output ps) (True, True, False) = Some (True, True, False)"
      using classify_payments [OF assms(11), of env params nBlock True True False] by auto
    have "classify_output env params nBlock (pay_output (ExodusAddress env, snd x)) (False, True, False) = Some (True, True, False)"
      using assms(6,7,10) destination_scripts [of h] by (simp add: classify_output_def pay_output_def GetOutputType_def IsAllowedOutputType_def payments_allowed_def)
    then have "classify_outputs env params nBlock (vout tx) (False, False, False) = Some (True, True, False)"
      unfolding v2 classify_append using classify_multisig [OF o(2) assms(9), of env False False False] o(3) e by simp
    moreover have "nonMainNet env \<or> list_ex (\<lambda>out. HexStr (scriptPubKey out) = hex_ClassAB) (vout tx)"
      using assms(6,8) unfolding v2 by (auto simp: pay_output_def)
    ultimately show ?thesis using o(4) [OF v2] by (auto simp: GetEncodingClass_def Let_def list_ex_iff)
  qed
  then show ?thesis using o(1) by blast
qed

theorem classB_roundtrip_witness:
  "\<exists>outs. TokenCore_Encode_ClassB sample_parse_env (\<lambda>_. True) (\<lambda>_. 7) 10000 ''kaaaaaaaaaaaaaaaaaaaa'' (CHR 0x02 # replicate 32 (CHR ''r'')) ''hello'' [] = Some outs
    \<and> GetEncodingClass sample_parse_env CMainConsensusParams \<lparr>tx_hash = 1, vin = [], vout = map to_output outs\<rparr> 2000000 = Some TOKEN_CLASS_B
    \<and> parse_ClassB sample_parse_env \<lparr>tx_hash = 1, vin = [], vout = map to_output outs\<rparr> ''kaaaaaaaaaaaaaaaaaaaa'' = Some (''hello'' @ replicate 25 (CHR 0x00))"
proof -
  have "ExodusAddress sample_parse_env = CKeyID (replicate 20 (CHR ''x''))" by (simp add: ExodusAddress_def sample_parse_env_def)
  then obtain outs where "TokenCore_Encode_ClassB sample_parse_env (\<lambda>_. True) (\<lambda>_. 7) 10000 ''kaaaaaaaaaaaaaaaaaaaa'' (CHR 0x02 # replicate 32 (CHR ''r'')) ''hello'' [] = Some outs"
    "\<forall>tx. vout tx = map to_output outs @ map pay_output [] \<longrightarrow> GetEncodingClass sample_parse_env CMainConsensusParams tx 2000000 = Some TOKEN_CLASS_B
       \<and> parse_ClassB sample_parse_env tx ''kaaaaaaaaaaaaaaaaaaaa'' = Some (''hello'' @ replicate (30 * ((length ''hello'' + 29) div 30) - length ''hello'') (CHR 0x00))"
    using classB_roundtrip [of sample_parse_env "CHR 0x02 # replicate 32 (CHR ''r'')" "''kaaaaaaaaaaaaaaaaaaaa''" "''hello''" "replicate 20 (CHR ''x'')" CMainConsensusParams 2000000 "[]"
        "\<lambda>_. True" "\<lambda>_. 7" 10000]
    by (auto simp: sample_parse_env_def ValidSize_def pubkey_GetLen_def CMainConsensusParams_def payments_allowed_def)
  then show ?thesis by (intro exI [of _ outs]) simp
qed

end
