(* ===== verification/Databases.thy ===== *)
theory Databases
  imports TxLogic Parser
begin

text \<open>
  The LevelDB databases of the token layer: the transaction list (\<^verbatim>\<open>src/src/tokencore/dbtxlist.cpp\<close>), the positions and results of transactions
  (\<^verbatim>\<open>dbtransaction.cpp\<close>), the receipts of sends to owners (\<^verbatim>\<open>dbstolist.cpp\<close>) and the trades (\<^verbatim>\<open>dbtradelist.cpp\<close>).

  A database is a sorted map from text to text, as an iterator of LevelDB walks it; an iterator reads a snapshot, so that deletions
  during the walk do not change it. The records are text with fields separated by colons, and are written and read here as the program
  writes and reads them. The database is open, and its reads and writes succeed. Counters of reads and writes, and what is only logged, are left out.
\<close>

type_synonym leveldb = "(string \<times> string) list"

subsection \<open>Numbers as text\<close>

definition s32 :: "int \<Rightarrow> int" where
  "s32 x = (x + 2 ^ 31) mod 2 ^ 32 - 2 ^ 31"

definition read_digits :: "string \<Rightarrow> nat" where
  "read_digits ds = foldl (\<lambda>n c. 10 * n + digit_value c) 0 ds"

text \<open>\<^verbatim>\<open>atoi64\<close> is a 64-bit \<^verbatim>\<open>strtoll\<close>, which stops at the limits; \<^verbatim>\<open>atoi\<close> cuts it to 32 bits.\<close>

definition atoi64 :: "string \<Rightarrow> int" where
  "atoi64 t =
     (let t1 = dropWhile is_space t;
          (neg, ds) = (case t1 of [] \<Rightarrow> (False, [])
            | c # r \<Rightarrow> if c = CHR ''-'' then (True, r) else if c = CHR ''+'' then (False, r) else (False, t1));
          n = int (read_digits (takeWhile is_digit ds))
      in if neg then max MIN_INT64 (- n) else min MAX_INT64 n)"

definition atoi :: "string \<Rightarrow> int" where
  "atoi t = s32 (atoi64 t)"

text \<open>\<^verbatim>\<open>boost::lexical_cast\<close> to a signed or unsigned integer of \<open>w\<close> bits; \<open>None\<close> is \<^verbatim>\<open>bad_lexical_cast\<close>. An unsigned number may have a minus sign and then wraps.\<close>

definition lexical_cast_int :: "nat \<Rightarrow> string \<Rightarrow> int option" where
  "lexical_cast_int w t =
     (case t of [] \<Rightarrow> None
      | c # r \<Rightarrow>
          if c = CHR ''-'' then Option.bind (read_nat r) (\<lambda>n. if n \<le> 2 ^ (w - 1) then Some (- int n) else None)
          else Option.bind (read_nat (if c = CHR ''+'' then r else t)) (\<lambda>n. if n < 2 ^ (w - 1) then Some (int n) else None))"

definition lexical_cast_uint :: "nat \<Rightarrow> string \<Rightarrow> nat option" where
  "lexical_cast_uint w t =
     (case t of [] \<Rightarrow> None
      | c # r \<Rightarrow>
          if c = CHR ''-'' then Option.bind (read_nat r) (\<lambda>n. if n < 2 ^ w then Some ((2 ^ w - n) mod 2 ^ w) else None)
          else Option.bind (read_nat (if c = CHR ''+'' then r else t)) (\<lambda>n. if n < 2 ^ w then Some n else None))"

text \<open>The fields of a record with their separator, and the record split again.\<close>

fun join :: "char \<Rightarrow> string list \<Rightarrow> string" where
  "join c [] = []"
| "join c [t] = t"
| "join c (t # u # ts) = t @ c # join c (u # ts)"

definition tokens :: "string \<Rightarrow> string list" where
  "tokens v = split_any '':'' v"

subsection \<open>The transaction list\<close>

definition recordTX :: "nat \<Rightarrow> bool \<Rightarrow> int \<Rightarrow> nat \<Rightarrow> int \<Rightarrow> leveldb \<Rightarrow> leveldb" where
  "recordTX txid fValid nBlock type val db =
     smap_upd (GetHex txid) (join CHR '':'' [if fValid then ''1'' else ''0'', show_int nBlock, show_nat type, show_int val]) db"

text \<open>The number of sub-records a master record gives, if it has one.\<close>

definition existing_records :: "string \<Rightarrow> leveldb \<Rightarrow> int option" where
  "existing_records key db =
     (case map_of db key of
        None \<Rightarrow> None
      | Some strValue \<Rightarrow> let vstr = tokens strValue in if 4 \<le> length vstr then Some (atoi (vstr ! 3)) else None)"

definition recordPaymentTX :: "nat \<Rightarrow> bool \<Rightarrow> int \<Rightarrow> nat \<Rightarrow> property_id \<Rightarrow> int \<Rightarrow> string \<Rightarrow> string \<Rightarrow> leveldb \<Rightarrow> leveldb" where
  "recordPaymentTX txid fValid nBlock outn propertyId val buyer seller db =
     (let existing = existing_records (GetHex txid) db;
          numberOfPayments = (case existing of None \<Rightarrow> 1 | Some n \<Rightarrow> u64 (n + 1));
          paymentNumber = (case existing of None \<Rightarrow> 1 | Some n \<Rightarrow> nat ((n + 1) mod 2 ^ 32));
          db1 = smap_upd (GetHex txid)
            (join CHR '':'' [if fValid then ''1'' else ''0'', show_int nBlock, show_nat 99999999, show_int numberOfPayments]) db
      in smap_upd (STR_PAYMENT_SUBKEY_TXID_PAYMENT_COMBO (GetHex txid) paymentNumber)
           (join CHR '':'' [show_nat outn, buyer, seller, show_nat propertyId, show_int val]) db1)"

definition CMPTxList_recordMetaDExCancelTX :: "nat \<Rightarrow> nat \<Rightarrow> bool \<Rightarrow> int \<Rightarrow> property_id \<Rightarrow> int \<Rightarrow> leveldb \<Rightarrow> leveldb" where
  "CMPTxList_recordMetaDExCancelTX txidMaster txidSub fValid nBlock propertyId val db =
     (let txidMasterStr = GetHex txidMaster @ ''-C'';
          refNumber = (case existing_records txidMasterStr db of None \<Rightarrow> 1 | Some n \<Rightarrow> nat ((n + 1) mod 2 ^ 32));
          db1 = smap_upd txidMasterStr
            (join CHR '':'' [if fValid then ''1'' else ''0'', show_int nBlock, show_nat 99992104, show_nat refNumber]) db
      in smap_upd (STR_REF_SUBKEY_TXID_REF_COMBO txidMasterStr refNumber)
           (join CHR '':'' [GetHex txidSub, show_nat propertyId, show_int val]) db1)"

definition sub_key :: "nat \<Rightarrow> int \<Rightarrow> string" where
  "sub_key txid number = GetHex txid @ ''-'' @ show_int number"

definition recordSendAllSubRecord :: "nat \<Rightarrow> int \<Rightarrow> property_id \<Rightarrow> int \<Rightarrow> leveldb \<Rightarrow> leveldb" where
  "recordSendAllSubRecord txid subRecordNumber propertyId val db =
     smap_upd (sub_key txid subRecordNumber) (join CHR '':'' [show_nat propertyId, show_int val]) db"

definition getKeyValue :: "string \<Rightarrow> leveldb \<Rightarrow> string" where
  "getKeyValue key db = (case map_of db key of Some v \<Rightarrow> v | None \<Rightarrow> [])"

definition findMetaDExCancel :: "nat \<Rightarrow> leveldb \<Rightarrow> nat" where
  "findMetaDExCancel txid db =
     (case find (\<lambda>(k, v). let vstr = tokens v in 3 \<le> length vstr \<and> vstr ! 0 = GetHex txid) db of
        Some (skey, _) \<Rightarrow> SetHex skey
      | None \<Rightarrow> 0)"

definition getNumberOfSubRecords :: "nat \<Rightarrow> leveldb \<Rightarrow> int option" where
  "getNumberOfSubRecords txid db =
     (case map_of db (GetHex txid) of
        None \<Rightarrow> Some 0
      | Some strValue \<Rightarrow> let vstr = tokens strValue in if 4 \<le> length vstr then lexical_cast_int 32 (vstr ! 3) else Some 0)"

definition getNumberOfMetaDExCancels :: "nat \<Rightarrow> leveldb \<Rightarrow> int" where
  "getNumberOfMetaDExCancels txid db = (case existing_records (GetHex txid @ ''-C'') db of Some n \<Rightarrow> n | None \<Rightarrow> 0)"

text \<open>Buyer, seller, output, property and amount; the inner \<open>None\<close> is the result false, the outer one an exception.\<close>

definition getPurchaseDetails :: "nat \<Rightarrow> int \<Rightarrow> leveldb \<Rightarrow> (string \<times> string \<times> int \<times> int \<times> nat) option option" where
  "getPurchaseDetails txid purchaseNumber db =
     (case map_of db (sub_key txid purchaseNumber) of
        None \<Rightarrow> Some None
      | Some strValue \<Rightarrow>
          let vstr = tokens strValue
          in if length vstr = 5 then do {
               val \<leftarrow> lexical_cast_uint 64 (vstr ! 4);
               Some (Some (vstr ! 1, vstr ! 2, u64 (atoi (vstr ! 0)), u64 (atoi64 (vstr ! 3)), val))
             } else Some None)"

definition getSendAllDetails :: "nat \<Rightarrow> int \<Rightarrow> leveldb \<Rightarrow> (property_id \<times> int) option option" where
  "getSendAllDetails txid subSend db =
     (case map_of db (sub_key txid subSend) of
        None \<Rightarrow> Some None
      | Some strValue \<Rightarrow>
          let vstr = tokens strValue
          in if length vstr = 2 then do {
               propertyId \<leftarrow> lexical_cast_uint 32 (vstr ! 0);
               amount \<leftarrow> lexical_cast_int 64 (vstr ! 1);
               Some (Some (propertyId, amount))
             } else Some None)"

definition getMPTransactionCountTotal :: "leveldb \<Rightarrow> nat" where
  "getMPTransactionCountTotal db = length (filter (\<lambda>(k, v). length k = 64) db)"

definition getMPTransactionCountBlock :: "int \<Rightarrow> leveldb \<Rightarrow> nat" where
  "getMPTransactionCountBlock block db =
     length (filter (\<lambda>(k, v). length k = 64 \<and> (let vstr = tokens v in length vstr = 4 \<and> atoi (vstr ! 1) = block)) db)"

definition GetTokenTxsInBlockRange :: "int \<Rightarrow> int \<Rightarrow> leveldb \<Rightarrow> nat \<times> nat set" where
  "GetTokenTxsInBlockRange blockFirst blockLast db =
     (let found = filter (\<lambda>(k, v). length k = 64 \<and> (let vstr = tokens v in
            length vstr = 4 \<and> atoi (vstr ! 1) \<ge> blockFirst \<and> atoi (vstr ! 1) \<le> blockLast)) db
      in (length found, set (map (SetHex \<circ> fst) found)))"

abbreviation DB_VERSION :: nat where "DB_VERSION \<equiv> 7"

definition getDBVersion :: "leveldb \<Rightarrow> int option" where
  "getDBVersion db =
     (case map_of db ''dbversion'' of
        None \<Rightarrow> Some 0
      | Some strValue \<Rightarrow> map_option (\<lambda>n. s32 (int n)) (lexical_cast_uint 64 strValue))"

definition setDBVersion :: "leveldb \<Rightarrow> (int \<times> leveldb) option" where
  "setDBVersion db = (let db' = smap_upd ''dbversion'' (show_nat DB_VERSION) db in map_option (\<lambda>v. (v, db')) (getDBVersion db'))"

definition txlist_exists :: "nat \<Rightarrow> leveldb \<Rightarrow> bool" where
  "txlist_exists txid db \<longleftrightarrow> map_of db (GetHex txid) \<noteq> None"

definition getTX :: "nat \<Rightarrow> leveldb \<Rightarrow> string option" where
  "getTX txid db = map_of db (GetHex txid)"

text \<open>
  The validity with block, type and amount as far as they were written to; the amount is \<open>None\<close> when the caller's variable is left as it was,
  because the code then sets the pointer and not the variable.
\<close>

definition CMPTxList_getValidMPTX :: "nat \<Rightarrow> bool \<Rightarrow> leveldb \<Rightarrow> (bool \<times> (int \<times> nat \<times> nat option) option) option" where
  "CMPTxList_getValidMPTX txid wantAmended db =
     (case getTX txid db of
        None \<Rightarrow> Some (False, None)
      | Some result \<Rightarrow> do {
          let vstr = tokens result;
          let validity = (if 1 \<le> length vstr then atoi (vstr ! 0) else 0);
          let block = (if 2 \<le> length vstr then atoi (vstr ! 1) else 0);
          let type = (if 3 \<le> length vstr then nat (atoi (vstr ! 2) mod 2 ^ 32) else 0);
          nAmended \<leftarrow> (if wantAmended \<and> 4 \<le> length vstr then map_option Some (lexical_cast_uint 64 (vstr ! 3)) else Some None);
          Some (validity \<noteq> 0, Some (block, type, nAmended))
        })"

definition GetSeedBlocks :: "int \<Rightarrow> int \<Rightarrow> leveldb \<Rightarrow> int list" where
  "GetSeedBlocks startHeight endHeight db =
     fold sset_insert (filter (\<lambda>block. block \<ge> startHeight \<and> block \<le> endHeight)
       (map (\<lambda>(k, v). atoi (tokens v ! 1)) (filter (\<lambda>(k, v). length (tokens v) = 4) db))) []"

abbreviation TOKEN_TYPE_ENABLE_FREEZING :: nat where "TOKEN_TYPE_ENABLE_FREEZING \<equiv> 71"
abbreviation TOKEN_TYPE_DISABLE_FREEZING :: nat where "TOKEN_TYPE_DISABLE_FREEZING \<equiv> 72"
abbreviation TOKEN_TYPE_FREEZE_PROPERTY_TOKENS :: nat where "TOKEN_TYPE_FREEZE_PROPERTY_TOKENS \<equiv> 185"
abbreviation TOKEN_TYPE_UNFREEZE_PROPERTY_TOKENS :: nat where "TOKEN_TYPE_UNFREEZE_PROPERTY_TOKENS \<equiv> 186"

definition freeze_type :: "nat \<Rightarrow> bool" where
  "freeze_type txtype \<longleftrightarrow> txtype = TOKEN_TYPE_FREEZE_PROPERTY_TOKENS \<or> txtype = TOKEN_TYPE_UNFREEZE_PROPERTY_TOKENS
     \<or> txtype = TOKEN_TYPE_ENABLE_FREEZING \<or> txtype = TOKEN_TYPE_DISABLE_FREEZING"

definition CheckForFreezeTxs :: "int \<Rightarrow> leveldb \<Rightarrow> bool" where
  "CheckForFreezeTxs blockHeight db =
     list_ex (\<lambda>(k, v). let vstr = tokens v in
       length vstr = 4 \<and> \<not> atoi (vstr ! 1) < blockHeight \<and> freeze_type (nat (atoi (vstr ! 2) mod 2 ^ 16))) db"

text \<open>Every record with two fields or more counts, with the second field as its block.\<close>

definition in_block_range :: "int \<Rightarrow> int \<Rightarrow> string \<Rightarrow> bool" where
  "in_block_range starting_block ending_block v =
     (let vstr = tokens v in 2 \<le> length vstr \<and> starting_block \<le> atoi (vstr ! 1) \<and> atoi (vstr ! 1) \<le> ending_block)"

definition isMPinBlockRange :: "int \<Rightarrow> int \<Rightarrow> bool \<Rightarrow> leveldb \<Rightarrow> bool \<times> leveldb" where
  "isMPinBlockRange starting_block ending_block bDeleteFound db =
     (let found = filter (\<lambda>(k, v). in_block_range starting_block ending_block v) db
      in (found \<noteq> [], if bDeleteFound then fold (\<lambda>(k, v). smap_del k) found db else db))"

subsection \<open>Positions and results of transactions\<close>

definition FetchTransactionDetails :: "nat \<Rightarrow> leveldb \<Rightarrow> string list" where
  "FetchTransactionDetails txid db =
     (case map_of db (GetHex txid) of
        None \<Rightarrow> []
      | Some strValue \<Rightarrow> let vStr = tokens strValue in if length vStr = 2 then [vStr ! 0, vStr ! 1] else [])"

definition RecordTransaction :: "nat \<Rightarrow> nat \<Rightarrow> int \<Rightarrow> leveldb \<Rightarrow> leveldb" where
  "RecordTransaction txid posInBlock processingResult db =
     smap_upd (GetHex txid) (join CHR '':'' [show_nat posInBlock, show_int processingResult]) db"

definition FetchTransactionPosition :: "nat \<Rightarrow> leveldb \<Rightarrow> nat option" where
  "FetchTransactionPosition txid db =
     (case FetchTransactionDetails txid db of [pos, _] \<Rightarrow> lexical_cast_uint 32 pos | _ \<Rightarrow> Some 999999)"

text \<open>\<open>error_str\<close> is the table of messages of \<^verbatim>\<open>errors.h\<close>.\<close>

definition FetchInvalidReason :: "(int \<Rightarrow> string) \<Rightarrow> nat \<Rightarrow> leveldb \<Rightarrow> string option" where
  "FetchInvalidReason error_str txid db =
     (case FetchTransactionDetails txid db of [_, result] \<Rightarrow> map_option error_str (lexical_cast_int 32 result) | _ \<Rightarrow> Some (error_str (- 999999)))"

subsection \<open>Receipts of sends to owners\<close>

text \<open>The value of an address is the list of its receipts, each followed by a comma.\<close>

definition receipt :: "nat \<Rightarrow> int \<Rightarrow> property_id \<Rightarrow> int \<Rightarrow> string" where
  "receipt txid nBlock propertyId amount = join CHR '':'' [GetHex txid, show_int nBlock, show_nat propertyId, show_int amount] @ '',''"

definition recordSTOReceive :: "string \<Rightarrow> nat \<Rightarrow> int \<Rightarrow> property_id \<Rightarrow> int \<Rightarrow> leveldb \<Rightarrow> leveldb" where
  "recordSTOReceive address txid nBlock propertyId amount db =
     (case map_of db address of
        Some strValue \<Rightarrow> smap_upd address (strValue @ receipt txid nBlock propertyId amount) db
      | None \<Rightarrow> smap_upd address (receipt txid nBlock propertyId amount) db)"

text \<open>The receipts of one address for a transaction; the flag tells that a number could not be read, which ends the whole search.\<close>

fun recipient_rows :: "CMPSPInfo \<Rightarrow> nat \<Rightarrow> string \<Rightarrow> string list \<Rightarrow> (string \<times> string) list \<times> int \<Rightarrow> bool \<times> (string \<times> string) list \<times> int" where
  "recipient_rows sps txid recipientAddress [] (rows, totl) = (True, rows, totl)"
| "recipient_rows sps txid recipientAddress (r # vstr) (rows, totl) =
     (let svstr = tokens r
      in if length svstr = 4 \<and> svstr ! 0 = GetHex txid then
           (case (lexical_cast_uint 64 (svstr ! 3), lexical_cast_uint 64 (svstr ! 2)) of
              (Some amount, Some propertyId) \<Rightarrow>
                recipient_rows sps txid recipientAddress vstr
                  (rows @ [(recipientAddress, if isPropertyDivisible (propertyId mod 2 ^ 32) sps then FormatDivisibleMP (s64 (int amount)) False
                     else FormatIndivisibleMP (s64 (int amount)))], u64 (totl + int amount))
            | _ \<Rightarrow> (False, rows, totl))
         else recipient_rows sps txid recipientAddress vstr (rows, totl))"

fun recipients_loop :: "CMPSPInfo \<Rightarrow> (string \<Rightarrow> bool) \<Rightarrow> nat \<Rightarrow> string \<Rightarrow> leveldb \<Rightarrow> (string \<times> string) list \<times> int \<Rightarrow> nat
    \<Rightarrow> (string \<times> string) list \<times> int \<times> nat" where
  "recipients_loop sps IsMyAddress txid filterAddress [] (rows, totl) numRecipients = (rows, totl, numRecipients)"
| "recipients_loop sps IsMyAddress txid filterAddress ((recipientAddress, strValue) # it) (rows, totl) numRecipients =
     (if \<not> str_find (GetHex txid) strValue then recipients_loop sps IsMyAddress txid filterAddress it (rows, totl) numRecipients
      else if filterAddress \<noteq> ''*'' \<and> \<not> (if filterAddress \<noteq> [] then filterAddress = recipientAddress else IsMyAddress recipientAddress)
      then recipients_loop sps IsMyAddress txid filterAddress it (rows, totl) (numRecipients + 1)
      else case recipient_rows sps txid recipientAddress (split_any '','' strValue) (rows, totl) of
          (True, acc) \<Rightarrow> recipients_loop sps IsMyAddress txid filterAddress it acc (numRecipients + 1)
        | (False, rows', totl') \<Rightarrow> (rows', totl', numRecipients + 1))"

definition getRecipients :: "CMPSPInfo \<Rightarrow> (string \<Rightarrow> bool) \<Rightarrow> nat \<Rightarrow> string \<Rightarrow> int \<Rightarrow> leveldb \<Rightarrow> (string \<times> string) list \<times> int \<times> nat" where
  "getRecipients sps IsMyAddress txid filterAddress totl db = recipients_loop sps IsMyAddress txid filterAddress db ([], totl) 0"

fun my_receipts :: "string \<Rightarrow> string list \<Rightarrow> string \<Rightarrow> string" where
  "my_receipts recipientAddress [] acc = acc"
| "my_receipts recipientAddress (r # vstr) acc =
     (let svstr = tokens r
      in my_receipts recipientAddress vstr
        (if length svstr = 4 \<and> \<not> str_find (svstr ! 0) acc
         then acc @ join CHR '':'' [svstr ! 0, svstr ! 1, recipientAddress, svstr ! 2] @ '','' else acc))"

definition getMySTOReceipts :: "(string \<Rightarrow> bool) \<Rightarrow> string \<Rightarrow> leveldb \<Rightarrow> string" where
  "getMySTOReceipts IsMyAddress filterAddress db =
     butlast (fold (\<lambda>(recipientAddress, strValue) acc.
       if \<not> IsMyAddress recipientAddress \<or> (filterAddress \<noteq> [] \<and> filterAddress \<noteq> recipientAddress) then acc
       else my_receipts recipientAddress (split_any '','' strValue) acc) db [])"

text \<open>The receipts of a record that stay, and whether one goes.\<close>

fun receipts_below :: "int \<Rightarrow> string list \<Rightarrow> string \<times> bool \<Rightarrow> string \<times> bool" where
  "receipts_below blockNum [] acc = acc"
| "receipts_below blockNum (r # vecSTORecords) (newValue, needsUpdate) =
     (let recordFields = tokens r
      in receipts_below blockNum vecSTORecords
        (if length recordFields \<noteq> 4 then (newValue, needsUpdate)
         else if atoi (recordFields ! 1) < blockNum then (newValue @ r @ '','', needsUpdate)
         else (newValue, True)))"

definition STO_deleteAboveBlock :: "int \<Rightarrow> leveldb \<Rightarrow> nat \<times> leveldb" where
  "STO_deleteAboveBlock blockNum db =
     fold (\<lambda>(key, oldValue) (n_found, db').
       let (newValue, needsUpdate) = receipts_below blockNum (split_any '','' oldValue) ([], False)
       in if needsUpdate then (n_found + 1, smap_upd key newValue db') else (n_found, db')) db (0, db)"

subsection \<open>Trades\<close>

definition recordMatchedTrade :: "MatchedTrade \<Rightarrow> leveldb \<Rightarrow> leveldb" where
  "recordMatchedTrade t db =
     smap_upd (GetHex (mt_txid1 t) @ ''+'' @ GetHex (mt_txid2 t))
       (join CHR '':'' [mt_address1 t, mt_address2 t, show_nat (mt_prop1 t), show_nat (mt_prop2 t), show_int (mt_amount1 t), show_int (mt_amount2 t),
          show_int (mt_block t), show_int (mt_fee t)]) db"

definition recordNewTrade :: "nat \<Rightarrow> string \<Rightarrow> property_id \<Rightarrow> property_id \<Rightarrow> int \<Rightarrow> int \<Rightarrow> leveldb \<Rightarrow> leveldb" where
  "recordNewTrade txid address propertyIdForSale propertyIdDesired blockNum blockIndex db =
     smap_upd (GetHex txid) (join CHR '':'' [address, show_nat propertyIdForSale, show_nat propertyIdDesired, show_int blockNum, show_int blockIndex]) db"

text \<open>The variable \<^verbatim>\<open>block\<close> keeps its value from one record to the next.\<close>

fun trade_block :: "int \<Rightarrow> string \<Rightarrow> int" where
  "trade_block block v =
     (let vstr = tokens v
      in if length vstr = 7 then atoi (vstr ! 6) else if length vstr = 5 then atoi (vstr ! 3) else block)"

fun trades_above :: "int \<Rightarrow> leveldb \<Rightarrow> int \<Rightarrow> nat \<times> leveldb \<Rightarrow> nat \<times> leveldb" where
  "trades_above blockNum [] block acc = acc"
| "trades_above blockNum ((skey, v) # it) block (n_found, db) =
     (let block' = trade_block block v
      in trades_above blockNum it block' (if block' \<ge> blockNum then (n_found + 1, smap_del skey db) else (n_found, db)))"

definition Trade_deleteAboveBlock :: "int \<Rightarrow> leveldb \<Rightarrow> nat \<times> leveldb" where
  "Trade_deleteAboveBlock blockNum db = trades_above blockNum db 0 (0, db)"

record trade_row =
  tr_txid :: string
  tr_block :: int
  tr_address :: string
  tr_amountsold :: string
  tr_amountreceived :: string
  tr_tradingfee :: string

text \<open>The position at which \<^verbatim>\<open>find\<close> meets the text first.\<close>

fun find_at :: "string \<Rightarrow> string \<Rightarrow> nat option" where
  "find_at p [] = (if p = [] then Some 0 else None)"
| "find_at p (c # s) = (if take (length p) (c # s) = p then Some 0 else map_option Suc (find_at p s))"

definition match_row :: "'s fee_state_scheme \<Rightarrow> property_id \<Rightarrow> string \<Rightarrow> string list \<Rightarrow> (trade_row \<times> int \<times> int) option" where
  "match_row s propertyId matchTxid vstr = do {
     prop1 \<leftarrow> lexical_cast_uint 32 (vstr ! 2);
     prop2 \<leftarrow> lexical_cast_uint 32 (vstr ! 3);
     amount1 \<leftarrow> lexical_cast_int 64 (vstr ! 4);
     amount2 \<leftarrow> lexical_cast_int 64 (vstr ! 5);
     let blockNum = atoi (vstr ! 6);
     tradingFee \<leftarrow> lexical_cast_int 64 (vstr ! 7);
     let strAmount1 = FormatMP s prop1 amount1 False;
     let strAmount2 = FormatMP s prop2 amount2 False;
     if prop1 = propertyId then
       Some (\<lparr>tr_txid = matchTxid, tr_block = blockNum, tr_address = vstr ! 0, tr_amountsold = strAmount1, tr_amountreceived = strAmount2,
         tr_tradingfee = FormatMP s prop2 tradingFee False\<rparr>, amount1, amount2)
     else
       Some (\<lparr>tr_txid = matchTxid, tr_block = blockNum, tr_address = vstr ! 1, tr_amountsold = FormatMP s prop2 (s64 (amount2 + tradingFee)) False,
         tr_amountreceived = strAmount1, tr_tradingfee = FormatMP s prop1 0 False\<rparr>, amount2, amount1)
   }"

fun matching_loop :: "'s fee_state_scheme \<Rightarrow> nat \<Rightarrow> property_id \<Rightarrow> leveldb \<Rightarrow> trade_row list \<times> int \<times> int \<Rightarrow> (trade_row list \<times> int \<times> int) option" where
  "matching_loop s txid propertyId [] acc = Some acc"
| "matching_loop s txid propertyId ((strKey, strValue) # it) (rows, totalSold, totalReceived) =
     (case find_at (GetHex txid) strKey of
        None \<Rightarrow> matching_loop s txid propertyId it (rows, totalSold, totalReceived)
      | Some txidMatch \<Rightarrow>
          if length strKey \<noteq> 129 then matching_loop s txid propertyId it (rows, totalSold, totalReceived)
          else
            let matchTxid = (if txidMatch = 0 then take 64 (drop 65 strKey) else take 64 strKey);
                vstr = tokens strValue
            in if length vstr \<noteq> 8 then matching_loop s txid propertyId it (rows, totalSold, totalReceived)
               else do {
                 (row, sold, received) \<leftarrow> match_row s propertyId matchTxid vstr;
                 matching_loop s txid propertyId it (rows @ [row], s64 (totalSold + sold), s64 (totalReceived + received))
               })"

text \<open>The rows with what was sold and received; no rows is the result false.\<close>

definition getMatchingTrades :: "'s fee_state_scheme \<Rightarrow> nat \<Rightarrow> property_id \<Rightarrow> leveldb \<Rightarrow> (bool \<times> trade_row list \<times> int \<times> int) option" where
  "getMatchingTrades s txid propertyId db =
     map_option (\<lambda>(rows, sold, received). (rows \<noteq> [], rows, sold, received)) (matching_loop s txid propertyId db ([], 0, 0))"

text \<open>\<^verbatim>\<open>%06d%010d\<close>: the key by which transactions are put in the order of their block and position.\<close>

definition show_pad :: "nat \<Rightarrow> int \<Rightarrow> string" where
  "show_pad w n = (if n < 0 then CHR ''-'' # replicate (w - 1 - length (show_nat (nat (- n)))) (CHR ''0'') @ show_nat (nat (- n))
     else replicate (w - length (show_nat (nat n))) (CHR ''0'') @ show_nat (nat n))"

definition sort_key :: "int \<Rightarrow> int \<Rightarrow> string" where
  "sort_key block position = show_pad 6 block @ show_pad 10 position"

text \<open>\<^verbatim>\<open>std::map::insert\<close> keeps an entry that is there.\<close>

definition smap_insert :: "'k::linorder \<Rightarrow> 'v \<Rightarrow> ('k \<times> 'v) list \<Rightarrow> ('k \<times> 'v) list" where
  "smap_insert k v m = (if map_of m k = None then smap_upd k v m else m)"

fun trades_for_address :: "string \<Rightarrow> property_id \<Rightarrow> leveldb \<Rightarrow> (string \<times> nat) list \<Rightarrow> (string \<times> nat) list option" where
  "trades_for_address address propertyIdFilter [] mapTrades = Some mapTrades"
| "trades_for_address address propertyIdFilter ((strKey, strValue) # it) mapTrades =
     (let vecValues = tokens strValue
      in if length strKey \<noteq> 64 \<or> \<not> str_find address strValue \<or> length vecValues \<noteq> 5 then trades_for_address address propertyIdFilter it mapTrades
         else do {
           propertyIdForSale \<leftarrow> lexical_cast_uint 32 (vecValues ! 1);
           propertyIdDesired \<leftarrow> lexical_cast_uint 32 (vecValues ! 2);
           blockNum \<leftarrow> lexical_cast_uint 32 (vecValues ! 3);
           txIndex \<leftarrow> lexical_cast_uint 32 (vecValues ! 4);
           trades_for_address address propertyIdFilter it
             (if propertyIdFilter \<noteq> 0 \<and> propertyIdFilter \<noteq> propertyIdForSale \<and> propertyIdFilter \<noteq> propertyIdDesired then mapTrades
              else smap_insert (sort_key (int blockNum) (int txIndex)) (SetHex strKey) mapTrades)
         })"

definition getTradesForAddress :: "string \<Rightarrow> property_id \<Rightarrow> leveldb \<Rightarrow> nat list option" where
  "getTradesForAddress address propertyIdFilter db = map_option (map snd) (trades_for_address address propertyIdFilter db [])"

text \<open>
  The trades of a pair, the most recent ones first before they are cut to \<open>count\<close> and turned round. \<open>sort_trades\<close> is \<^verbatim>\<open>std::sort\<close> with a comparator that
  puts higher blocks first and leaves the order of equal blocks open; \<open>xToString\<close> prints a quotient with 50 decimals; a division by zero throws.
\<close>

record pair_row =
  pr_block :: int
  pr_unitprice :: string
  pr_inverseprice :: string
  pr_sellertxid :: string
  pr_selleraddress :: string
  pr_amountsold :: string
  pr_amountreceived :: string
  pr_matchingtxid :: string
  pr_matchingaddress :: string

definition CompareTradePair :: "int \<times> 'a \<Rightarrow> int \<times> 'a \<Rightarrow> bool" where
  "CompareTradePair firstJSONObj secondJSONObj \<longleftrightarrow> fst firstJSONObj > fst secondJSONObj"

definition pair_row_of :: "(rat \<Rightarrow> string) \<Rightarrow> 's fee_state_scheme \<Rightarrow> property_id \<Rightarrow> property_id \<Rightarrow> string list \<Rightarrow> string list \<Rightarrow> (int \<times> pair_row) option option" where
  "pair_row_of xToString s propertyIdSideA propertyIdSideB vecKeys vecValues = do {
     sideA \<leftarrow> lexical_cast_uint 32 (vecValues ! 2);
     sideB \<leftarrow> lexical_cast_uint 32 (vecValues ! 3);
     if sideA = propertyIdSideA \<and> sideB = propertyIdSideB \<or> sideB = propertyIdSideA \<and> sideA = propertyIdSideB then do {
       let straight = (sideA = propertyIdSideA \<and> sideB = propertyIdSideB);
       amount4 \<leftarrow> lexical_cast_int 64 (vecValues ! 4);
       amount5 \<leftarrow> lexical_cast_int 64 (vecValues ! 5);
       let amountSold = (if straight then amount4 else amount5);
       let amountReceived = (if straight then amount5 else amount4);
       let divisibleA = isPropertyDivisible propertyIdSideA (pDbSpInfo s);
       let divisibleB = isPropertyDivisible propertyIdSideB (pDbSpInfo s);
       if amountSold = 0 \<or> amountReceived = 0 then None
       else do {
         let price = (of_int amountReceived / of_int amountSold :: rat);
         blockNum \<leftarrow> lexical_cast_int 64 (vecValues ! 6);
         Some (Some (blockNum, \<lparr>pr_block = blockNum, pr_unitprice = xToString (if divisibleA then price else price / 100000000),
           pr_inverseprice = xToString (if divisibleB then 1 / price else 1 / price / 100000000),
           pr_sellertxid = GetHex (SetHex (vecKeys ! (if straight then 1 else 0))), pr_selleraddress = vecValues ! (if straight then 1 else 0),
           pr_amountsold = (if divisibleA then FormatDivisibleMP amountSold False else FormatIndivisibleMP amountSold),
           pr_amountreceived = (if divisibleB then FormatDivisibleMP amountReceived False else FormatIndivisibleMP amountReceived),
           pr_matchingtxid = GetHex (SetHex (vecKeys ! (if straight then 0 else 1))), pr_matchingaddress = vecValues ! (if straight then 0 else 1)\<rparr>))
       }
     } else Some None
   }"

fun pair_loop :: "(rat \<Rightarrow> string) \<Rightarrow> 's fee_state_scheme \<Rightarrow> property_id \<Rightarrow> property_id \<Rightarrow> leveldb \<Rightarrow> (int \<times> pair_row) list \<Rightarrow> (int \<times> pair_row) list option" where
  "pair_loop xToString s propertyIdSideA propertyIdSideB [] vecResponse = Some vecResponse"
| "pair_loop xToString s propertyIdSideA propertyIdSideB ((strKey, strValue) # it) vecResponse =
     (let vecKeys = split_any ''+'' strKey; vecValues = tokens strValue
      in if length strKey \<noteq> 129 \<or> length vecKeys \<noteq> 2 \<or> length vecValues \<noteq> 8 then pair_loop xToString s propertyIdSideA propertyIdSideB it vecResponse
         else do {
           row \<leftarrow> pair_row_of xToString s propertyIdSideA propertyIdSideB vecKeys vecValues;
           pair_loop xToString s propertyIdSideA propertyIdSideB it (case row of None \<Rightarrow> vecResponse | Some r \<Rightarrow> vecResponse @ [r])
         })"

text \<open>A count of 0 lets the first row through, because it is compared after the row is added.\<close>

definition getTradesForPair :: "((int \<times> pair_row) list \<Rightarrow> (int \<times> pair_row) list) \<Rightarrow> (rat \<Rightarrow> string) \<Rightarrow> 's fee_state_scheme \<Rightarrow> property_id \<Rightarrow> property_id \<Rightarrow> nat \<Rightarrow> leveldb
    \<Rightarrow> pair_row list option" where
  "getTradesForPair sort_trades xToString s propertyIdSideA propertyIdSideB count db = do {
     vecResponse \<leftarrow> pair_loop xToString s propertyIdSideA propertyIdSideB db [];
     Some (rev (map snd (take (max 1 count) (sort_trades vecResponse))))
   }"

definition getMPTradeCountTotal :: "leveldb \<Rightarrow> nat" where
  "getMPTradeCountTotal db = length db"

subsection \<open>Text that is read back\<close>

definition token_ok :: "string \<Rightarrow> bool" where
  "token_ok t \<longleftrightarrow> t \<noteq> [] \<and> CHR '':'' \<notin> set t \<and> CHR '','' \<notin> set t"

lemma join_nonempty: "t \<noteq> [] \<Longrightarrow> join c (t # ts) \<noteq> [] \<and> hd (join c (t # ts)) = hd t"
  by (cases ts) (auto)

lemma split_join_any:
  assumes "c \<in> set seps" and "ts \<noteq> []" and "\<forall>t \<in> set ts. t \<noteq> [] \<and> (\<forall>x \<in> set t. x \<notin> set seps)"
  shows "split_any seps (join c ts) = ts"
  using assms
proof (induction c ts rule: join.induct)
  case (2 c t)
  then have "\<forall>x \<in> set t. \<not> x \<in> set seps" by auto
  from split_from_last [OF this, of "[]"] show ?case by (simp add: split_any_def)
next
  case (3 c t u ts)
  have "join c (u # ts) = [] \<or> \<not> hd (join c (u # ts)) \<in> set seps"
    using "3.prems"(3) join_nonempty [of u c ts] hd_in_set [of u] by auto
  moreover have "\<forall>x \<in> set t. \<not> x \<in> set seps" using "3.prems"(3) by auto
  ultimately have "split_any seps (join c (t # u # ts)) = t # split_any seps (join c (u # ts))"
    unfolding split_any_def join.simps(3) using "3.prems"(1) by (intro split_from_sep) auto
  then show ?case using 3 by simp
qed simp

lemma split_terminated:
  assumes "\<forall>t \<in> set ts. t \<noteq> [] \<and> c \<notin> set t"
  shows "split_any [c] (concat (map (\<lambda>t. t @ [c]) ts)) = ts @ [[]]"
  using assms
proof (induction ts)
  case (Cons t ts)
  let ?r = "concat (map (\<lambda>t. t @ [c]) ts)"
  have "?r = [] \<or> \<not> hd ?r \<in> set [c]" using Cons.prems by (cases ts) (auto simp: neq_Nil_conv)
  moreover have "\<forall>x \<in> set t. \<not> x \<in> set [c]" using Cons.prems by auto
  ultimately have "split_any [c] (t @ c # ?r) = t # split_any [c] ?r" unfolding split_any_def by (intro split_from_sep) auto
  then show ?case using Cons by simp
qed (simp add: split_any_def)

declare join.simps [simp del]

lemma tokens_join: "ts \<noteq> [] \<Longrightarrow> \<forall>t \<in> set ts. token_ok t \<Longrightarrow> tokens (join CHR '':'' ts) = ts"
  unfolding tokens_def by (rule split_join_any) (auto simp: token_ok_def)

lemma digit_plain: "is_digit c \<Longrightarrow> c \<noteq> CHR '':'' \<and> c \<noteq> CHR '','' \<and> c \<noteq> CHR ''-'' \<and> c \<noteq> CHR ''+'' \<and> c \<noteq> CHR '';'' \<and> c \<noteq> CHR ''='' \<and> c \<noteq> CHR '' ''"
  by (auto simp: is_digit_def)

lemma token_ok_show [simp]: "token_ok (show_nat n)" "token_ok (show_int i)"
proof -
  show nat: "token_ok (show_nat n)" for n
    using show_nat_digits [of n] digit_plain by (auto simp: token_ok_def list_all_iff)
  show "token_ok (show_int i)" using nat [of "nat i"] nat [of "nat (- i)"] by (auto simp: show_int_def token_ok_def)
qed

lemma GetHex_plain: "c \<in> set (GetHex n) \<Longrightarrow> c \<noteq> CHR '':'' \<and> c \<noteq> CHR '','' \<and> c \<noteq> CHR ''-'' \<and> c \<noteq> CHR ''+''"
  using GetHex_digits [of c n] by (auto simp: HexDigit_def)

lemma token_ok_GetHex [simp]: "token_ok (GetHex n)"
  using GetHex_plain [of _ n] length_GetHex [of n] by (auto simp: token_ok_def)

lemma GetHex_inj: "m < 2 ^ 256 \<Longrightarrow> n < 2 ^ 256 \<Longrightarrow> GetHex m = GetHex n \<longleftrightarrow> m = n"
  using ParseHashV_GetHex by (metis option.inject)

lemma SetHex_GetHex: "n < 2 ^ 256 \<Longrightarrow> SetHex (GetHex n) = n"
  using ParseHashV_GetHex [of n] by (simp add: ParseHashV_def split: if_splits)

lemma show_nat_Cons: obtains c r where "show_nat n = c # r" "is_digit c"
proof -
  obtain c r where cr: "show_nat n = c # r" using show_nat_digits [of n] by (cases "show_nat n") auto
  moreover have "is_digit c" using show_nat_digits [of n] cr by simp
  ultimately show ?thesis by (rule that)
qed

lemma digit_no_space: "is_digit c \<Longrightarrow> \<not> is_space c"
  by (auto simp: is_digit_def is_space_def)

lemma read_digits_show: "read_digits (takeWhile is_digit (show_nat n)) = n"
proof -
  have tw: "takeWhile is_digit (show_nat n) = show_nat n"
    using show_nat_digits [of n] by (simp add: takeWhile_eq_all_conv list_all_iff)
  show ?thesis unfolding tw read_digits_def by (rule read_show_fold)
qed

lemma atoi64_show_nat: "atoi64 (show_nat n) = min MAX_INT64 (int n)"
proof -
  obtain c r where c: "show_nat n = c # r" "is_digit c" by (rule show_nat_Cons)
  then have "dropWhile is_space (show_nat n) = show_nat n" "c \<noteq> CHR ''-''" "c \<noteq> CHR ''+''"
    using digit_no_space digit_plain by auto
  then show ?thesis using read_digits_show [of n] c by (simp add: atoi64_def)
qed

lemma atoi64_show_int: "MIN_INT64 \<le> i \<Longrightarrow> i \<le> MAX_INT64 \<Longrightarrow> atoi64 (show_int i) = i"
proof (cases "i < 0")
  case True
  assume "MIN_INT64 \<le> i"
  then show ?thesis using True read_digits_show [of "nat (- i)"] by (simp add: show_int_def atoi64_def is_space_def)
qed (simp add: show_int_def atoi64_show_nat)

lemma s32_id [wrap]: "- 2147483648 \<le> x \<Longrightarrow> x < 2147483648 \<Longrightarrow> s32 x = x"
  by (simp add: s32_def)

lemma atoi_show [simp]:
  "n < 2147483648 \<Longrightarrow> atoi (show_nat n) = int n"
  "- 2147483648 \<le> i \<Longrightarrow> i < 2147483648 \<Longrightarrow> atoi (show_int i) = i"
  by (simp_all add: atoi_def atoi64_show_nat atoi64_show_int wrap)

lemma lexical_cast_uint_show: "n < 2 ^ w \<Longrightarrow> lexical_cast_uint w (show_nat n) = Some n"
proof -
  assume n: "n < 2 ^ w"
  obtain c r where c: "show_nat n = c # r" "is_digit c" by (rule show_nat_Cons)
  then have "c \<noteq> CHR ''-''" "c \<noteq> CHR ''+''" using digit_plain by auto
  then show ?thesis using c n read_show_nat [of n] by (simp add: lexical_cast_uint_def)
qed

lemma lexical_cast_int_show:
  assumes "- (2 ^ (w - 1)) \<le> i" and "i < 2 ^ (w - 1)"
  shows "lexical_cast_int w (show_int i) = Some i"
proof (cases "i < 0")
  case True
  then have "nat (- i) \<le> 2 ^ (w - 1)" using assms(1) by (simp add: nat_le_iff)
  then show ?thesis using True by (simp add: show_int_def lexical_cast_int_def)
next
  case False
  obtain c r where c: "show_nat (nat i) = c # r" "is_digit c" by (rule show_nat_Cons)
  then have "c \<noteq> CHR ''-''" "c \<noteq> CHR ''+''" using digit_plain by auto
  moreover have "nat i < 2 ^ (w - 1)" using assms(2) False by (simp add: nat_less_iff)
  ultimately show ?thesis using c False read_show_nat [of "nat i"] by (simp add: show_int_def lexical_cast_int_def)
qed

subsection \<open>Payments\<close>

definition record_payment :: "PaymentTX \<Rightarrow> leveldb \<Rightarrow> leveldb" where
  "record_payment p = recordPaymentTX (pay_txid p) (pay_valid p) (pay_block p) (pay_vout p) (pay_property p) (pay_amount p) (pay_buyer p) (pay_seller p)"

definition payment_fits :: "PaymentTX \<Rightarrow> bool" where
  "payment_fits p \<longleftrightarrow> token_ok (pay_buyer p) \<and> token_ok (pay_seller p) \<and> pay_vout p < 2 ^ 31 \<and> pay_property p < 2 ^ 32
     \<and> 0 \<le> pay_amount p \<and> pay_amount p \<le> MAX_INT64"

definition payment_details :: "PaymentTX \<Rightarrow> string \<times> string \<times> int \<times> int \<times> nat" where
  "payment_details p = (pay_buyer p, pay_seller p, int (pay_vout p), int (pay_property p), nat (pay_amount p))"

lemma sub_key_not_master: "sub_key t n \<noteq> GetHex u"
proof
  assume "sub_key t n = GetHex u"
  then have "length (sub_key t n) = 64" by (simp add: length_GetHex)
  then show False by (simp add: sub_key_def length_GetHex)
qed

lemma sub_key_inj: "sub_key t m = sub_key t n \<longleftrightarrow> show_int m = show_int n"
  by (simp add: sub_key_def)

lemma show_int_of_nat [simp]: "show_int (int n) = show_nat n"
  by (simp add: show_int_def)

lemma payment_key: "STR_PAYMENT_SUBKEY_TXID_PAYMENT_COMBO (GetHex t) n = sub_key t (int n)"
  by (simp add: STR_PAYMENT_SUBKEY_TXID_PAYMENT_COMBO_def sub_key_def)

lemma show_int_inj [simp]: "show_int (int m) = show_int (int n) \<longleftrightarrow> m = n"
  by simp

text \<open>After \<open>n\<close> payments of a transaction its master record counts them.\<close>

definition payments_at :: "nat \<Rightarrow> nat \<Rightarrow> leveldb \<Rightarrow> bool" where
  "payments_at txid n db \<longleftrightarrow>
     (if n = 0 then map_of db (GetHex txid) = None
      else \<exists>v b. token_ok v \<and> map_of db (GetHex txid) = Some (join CHR '':'' [v, show_int b, show_nat 99999999, show_nat n]))"

lemma payments_at_existing:
  assumes "payments_at txid n db" and "n < 2 ^ 31"
  shows "existing_records (GetHex txid) db = (if n = 0 then None else Some (int n))"
    and "getNumberOfSubRecords txid db = Some (int n)"
proof -
  have cast: "lexical_cast_int 32 (show_nat n) = Some (int n)" using lexical_cast_int_show [of 32 "int n"] assms(2) by simp
  show "existing_records (GetHex txid) db = (if n = 0 then None else Some (int n))"
    using assms by (auto simp: payments_at_def existing_records_def tokens_join split: if_splits)
  show "getNumberOfSubRecords txid db = Some (int n)"
    using assms cast by (auto simp: payments_at_def getNumberOfSubRecords_def tokens_join split: if_splits)
qed

lemma record_payment_step:
  assumes at: "payments_at (pay_txid p) n db" and n: "n + 1 < 2 ^ 31"
  shows "payments_at (pay_txid p) (n + 1) (record_payment p db)"
    and "map_of (record_payment p db) (sub_key (pay_txid p) (int n + 1)) =
      Some (join CHR '':'' [show_nat (pay_vout p), pay_buyer p, pay_seller p, show_nat (pay_property p), show_int (pay_amount p)])"
    and "k \<noteq> GetHex (pay_txid p) \<Longrightarrow> k \<noteq> sub_key (pay_txid p) (int n + 1) \<Longrightarrow> map_of (record_payment p db) k = map_of db k"
proof -
  let ?m = "GetHex (pay_txid p)" and ?s = "sub_key (pay_txid p) (int n + 1)"
  have key: "STR_PAYMENT_SUBKEY_TXID_PAYMENT_COMBO ?m (nat ((int n + 1) mod 4294967296)) = ?s"
    using n by (simp add: payment_key)
  have key1: "n = 0 \<Longrightarrow> STR_PAYMENT_SUBKEY_TXID_PAYMENT_COMBO ?m (Suc 0) = ?s" using payment_key [of "pay_txid p" 1] by simp
  have num: "show_int (u64 (int n + 1)) = show_nat (n + 1)" using n show_int_of_nat [of "n + 1"] by (simp add: u64_def add.commute del: show_int_of_nat)
  have one: "show_int 1 = show_nat (Suc 0)" using show_int_of_nat [of 1] by (simp del: show_int_of_nat)
  have rec: "record_payment p db = smap_upd ?s
      (join CHR '':'' [show_nat (pay_vout p), pay_buyer p, pay_seller p, show_nat (pay_property p), show_int (pay_amount p)])
      (smap_upd ?m (join CHR '':'' [if pay_valid p then ''1'' else ''0'', show_int (pay_block p), show_nat 99999999, show_nat (n + 1)]) db)"
    using payments_at_existing(1) [OF at] n key key1 num one by (simp add: record_payment_def recordPaymentTX_def Let_def)
  have ne: "?s \<noteq> ?m" by (rule sub_key_not_master)
  have "token_ok (if pay_valid p then ''1'' else ''0'')" by (simp add: token_ok_def)
  then show "payments_at (pay_txid p) (n + 1) (record_payment p db)"
    using ne unfolding rec payments_at_def by (auto simp: map_of_smap_upd)
  show "map_of (record_payment p db) ?s =
      Some (join CHR '':'' [show_nat (pay_vout p), pay_buyer p, pay_seller p, show_nat (pay_property p), show_int (pay_amount p)])"
    unfolding rec by (simp add: map_of_smap_upd)
  show "k \<noteq> ?m \<Longrightarrow> k \<noteq> ?s \<Longrightarrow> map_of (record_payment p db) k = map_of db k"
    unfolding rec by (simp add: map_of_smap_upd)
qed

lemma purchase_read_back:
  assumes "map_of db (sub_key txid k) =
      Some (join CHR '':'' [show_nat (pay_vout p), pay_buyer p, pay_seller p, show_nat (pay_property p), show_int (pay_amount p)])"
    and "payment_fits p"
  shows "getPurchaseDetails txid k db = Some (Some (payment_details p))"
proof -
  have amount: "lexical_cast_uint 64 (show_int (pay_amount p)) = Some (nat (pay_amount p))"
    using lexical_cast_uint_show [of "nat (pay_amount p)" 64] assms(2) by (auto simp: payment_fits_def show_int_def)
  have p: "atoi64 (show_nat (pay_property p)) = int (pay_property p)" "atoi (show_nat (pay_vout p)) = int (pay_vout p)"
    using assms(2) by (simp_all add: payment_fits_def atoi64_show_nat)
  show ?thesis using assms amount p
    by (simp add: getPurchaseDetails_def tokens_join payment_fits_def payment_details_def u64_id)
qed

lemma payments_fold:
  assumes "payments_at txid 0 db" and "\<forall>p \<in> set ps. pay_txid p = txid \<and> payment_fits p" and "length ps < 2 ^ 31"
  shows "payments_at txid (length ps) (fold record_payment ps db)
    \<and> (\<forall>k < length ps. getPurchaseDetails txid (int k + 1) (fold record_payment ps db) = Some (Some (payment_details (ps ! k))))
    \<and> (\<forall>k. k \<noteq> GetHex txid \<longrightarrow> (\<forall>n. k \<noteq> sub_key txid n) \<longrightarrow> map_of (fold record_payment ps db) k = map_of db k)"
  using assms(2,3)
proof (induction ps rule: rev_induct)
  case Nil
  then show ?case using assms(1) by simp
next
  case (snoc p ps)
  let ?db = "fold record_payment ps db"
  from snoc have IH: "payments_at txid (length ps) ?db"
      "\<forall>k < length ps. getPurchaseDetails txid (int k + 1) ?db = Some (Some (payment_details (ps ! k)))"
      "\<forall>k. k \<noteq> GetHex txid \<longrightarrow> (\<forall>n. k \<noteq> sub_key txid n) \<longrightarrow> map_of ?db k = map_of db k" by auto
  have p: "pay_txid p = txid" "payment_fits p" "length ps + 1 < 2 ^ 31" using snoc.prems by auto
  note step = record_payment_step [of p "length ps" ?db, unfolded p(1), OF IH(1) p(3)]
  have "getPurchaseDetails txid (int (length ps) + 1) (record_payment p ?db) = Some (Some (payment_details p))"
    by (rule purchase_read_back [OF step(2) p(2)])
  moreover have "getPurchaseDetails txid (int k + 1) (record_payment p ?db) = getPurchaseDetails txid (int k + 1) ?db" if "k < length ps" for k
  proof -
    have "sub_key txid (int k + 1) \<noteq> sub_key txid (int (length ps) + 1)"
      using that show_int_inj [of "Suc k" "Suc (length ps)"] by (simp add: sub_key_inj add.commute del: show_int_inj show_int_of_nat)
    then show ?thesis using step(3) [of "sub_key txid (int k + 1)"] sub_key_not_master by (simp add: getPurchaseDetails_def)
  qed
  ultimately show ?case using IH step(1,3) by (auto simp: less_Suc_eq nth_append)
qed

subsection \<open>Receipts\<close>

record STOReceive =
  sr_txid :: nat
  sr_block :: int
  sr_property :: property_id
  sr_amount :: int

definition receipt_of :: "STOReceive \<Rightarrow> string" where
  "receipt_of r = receipt (sr_txid r) (sr_block r) (sr_property r) (sr_amount r)"

definition receipts_value :: "STOReceive list \<Rightarrow> string" where
  "receipts_value rs = concat (map receipt_of rs)"

definition receipt_tokens :: "STOReceive \<Rightarrow> string list" where
  "receipt_tokens r = [GetHex (sr_txid r), show_int (sr_block r), show_nat (sr_property r), show_int (sr_amount r)]"

lemma receipt_of_tokens: "receipt_of r = join CHR '':'' (receipt_tokens r) @ '',''"
  by (simp add: receipt_of_def receipt_def receipt_tokens_def)

lemma tokens_receipt: "tokens (join CHR '':'' (receipt_tokens r)) = receipt_tokens r"
  by (rule tokens_join) (auto simp: receipt_tokens_def)

lemma set_join: "set (join c ts) \<subseteq> insert c (\<Union> (set ` set ts))"
  by (induction c ts rule: join.induct) (auto simp: join.simps)

lemma receipt_no_comma: "CHR '','' \<notin> set (join CHR '':'' (receipt_tokens r))"
proof
  assume "CHR '','' \<in> set (join CHR '':'' (receipt_tokens r))"
  then obtain t where "t \<in> set (receipt_tokens r)" "CHR '','' \<in> set t" using set_join [of "CHR '':''" "receipt_tokens r"] by auto
  moreover have "\<forall>t \<in> set (receipt_tokens r). token_ok t" by (simp add: receipt_tokens_def)
  ultimately show False by (auto simp: token_ok_def)
qed

lemma split_receipts: "split_any '','' (receipts_value rs) = map (\<lambda>r. join CHR '':'' (receipt_tokens r)) rs @ [[]]"
proof -
  let ?j = "\<lambda>r. join CHR '':'' (receipt_tokens r)"
  have "?j r \<noteq> []" for r
    using join_nonempty [of "GetHex (sr_txid r)"] token_ok_GetHex [of "sr_txid r"] by (simp add: receipt_tokens_def token_ok_def)
  then have "\<forall>t \<in> set (map ?j rs). t \<noteq> [] \<and> CHR '','' \<notin> set t" using receipt_no_comma by auto
  from split_terminated [OF this] show ?thesis by (simp add: receipts_value_def receipt_of_tokens [abs_def] comp_def)
qed

text \<open>Recording a receipt appends it to those of the address.\<close>

lemma recordSTOReceive_appends:
  "map_of (recordSTOReceive a (sr_txid r) (sr_block r) (sr_property r) (sr_amount r) db) =
     (map_of db)(a \<mapsto> (case map_of db a of None \<Rightarrow> [] | Some v \<Rightarrow> v) @ receipt_of r)"
  by (simp add: recordSTOReceive_def receipt_of_def map_of_smap_upd split: option.split)

definition block_fits :: "int \<Rightarrow> bool" where
  "block_fits b \<longleftrightarrow> - 2147483648 \<le> b \<and> b < 2147483648"

lemma receipts_below_value:
  assumes "\<forall>r \<in> set rs. block_fits (sr_block r)"
  shows "receipts_below N (map (\<lambda>r. join CHR '':'' (receipt_tokens r)) rs @ [[]]) (acc, b) =
    (acc @ receipts_value (filter (\<lambda>r. sr_block r < N) rs), b \<or> (\<exists>r \<in> set rs. \<not> sr_block r < N))"
  using assms
proof (induction rs arbitrary: acc b)
  case Nil
  then show ?case by (simp add: receipts_value_def tokens_def split_any_def)
next
  case (Cons r rs)
  have "atoi (show_int (sr_block r)) = sr_block r" using Cons.prems by (simp add: block_fits_def)
  then have "receipts_below N (map (\<lambda>r. join CHR '':'' (receipt_tokens r)) (r # rs) @ [[]]) (acc, b) =
      receipts_below N (map (\<lambda>r. join CHR '':'' (receipt_tokens r)) rs @ [[]])
        (if sr_block r < N then (acc @ receipt_of r, b) else (acc, True))"
    by (simp add: tokens_receipt receipt_of_tokens) (simp add: receipt_tokens_def)
  also have "\<dots> = (acc @ receipts_value (filter (\<lambda>r. sr_block r < N) (r # rs)), b \<or> (\<exists>r \<in> set (r # rs). \<not> sr_block r < N))"
    using Cons by (auto simp: receipts_value_def)
  finally show ?case .
qed

lemma fold_rewrite:
  assumes "distinct (map fst it)"
  shows "map_of (snd (fold (\<lambda>(k, v) (n, db'). let (v', upd) = f v in if upd then (n + 1, smap_upd k v' db') else (n, db')) it (n0, db0))) =
    (\<lambda>k. case map_of it k of Some v \<Rightarrow> if snd (f v) then Some (fst (f v)) else map_of db0 k | None \<Rightarrow> map_of db0 k)"
  using assms
proof (induction it arbitrary: n0 db0)
  case (Cons e it)
  obtain k v where e: "e = (k, v)" by (cases e)
  have k: "map_of it k = None" using Cons.prems e by (simp add: map_of_eq_None_iff)
  show ?case using Cons k e by (auto simp: fun_eq_iff map_of_smap_upd split: option.split prod.split)
qed (simp add: fun_eq_iff)

lemma STO_deleteAboveBlock_lookup:
  assumes "smap_ok db" and "map_of db a = Some (receipts_value rs)" and "\<forall>r \<in> set rs. block_fits (sr_block r)"
  shows "map_of (snd (STO_deleteAboveBlock N db)) a = Some (receipts_value (filter (\<lambda>r. sr_block r < N) rs))"
proof -
  have d: "distinct (map fst db)" using assms(1) by (rule smap_ok_distinct)
  let ?f = "\<lambda>v. receipts_below N (split_any '','' v) ([], False)"
  have f: "?f (receipts_value rs) = (receipts_value (filter (\<lambda>r. sr_block r < N) rs), \<exists>r \<in> set rs. \<not> sr_block r < N)"
    unfolding split_receipts using receipts_below_value [OF assms(3), of N "[]" False] by simp
  have "filter (\<lambda>r. sr_block r < N) rs = rs" if "\<not> (\<exists>r \<in> set rs. \<not> sr_block r < N)" using that by (auto simp: filter_id_conv)
  then show ?thesis
    unfolding STO_deleteAboveBlock_def fold_rewrite [OF d, of ?f 0 db] assms(2) using f by auto
qed

subsection \<open>Trades after a reorganization\<close>

record TradeOrder =
  to_txid :: nat
  to_address :: string
  to_forsale :: property_id
  to_desired :: property_id
  to_block :: int
  to_index :: int

definition order_entry :: "TradeOrder \<Rightarrow> string \<times> string" where
  "order_entry t = (GetHex (to_txid t),
     join CHR '':'' [to_address t, show_nat (to_forsale t), show_nat (to_desired t), show_int (to_block t), show_int (to_index t)])"

definition match_entry :: "MatchedTrade \<Rightarrow> string \<times> string" where
  "match_entry t = (GetHex (mt_txid1 t) @ ''+'' @ GetHex (mt_txid2 t),
     join CHR '':'' [mt_address1 t, mt_address2 t, show_nat (mt_prop1 t), show_nat (mt_prop2 t), show_int (mt_amount1 t), show_int (mt_amount2 t),
       show_int (mt_block t), show_int (mt_fee t)])"

lemma record_entries:
  "recordNewTrade (to_txid t) (to_address t) (to_forsale t) (to_desired t) (to_block t) (to_index t) db = smap_upd (fst (order_entry t)) (snd (order_entry t)) db"
  "recordMatchedTrade m db = smap_upd (fst (match_entry m)) (snd (match_entry m)) db"
  by (simp_all add: recordNewTrade_def recordMatchedTrade_def order_entry_def match_entry_def)

text \<open>A database of orders and of matches of recorded orders.\<close>

definition trade_db_ok :: "leveldb \<Rightarrow> bool" where
  "trade_db_ok db \<longleftrightarrow> smap_ok db \<and>
     (\<forall>e \<in> set db. (\<exists>t. e = order_entry t \<and> token_ok (to_address t) \<and> block_fits (to_block t))
        \<or> (\<exists>m t. e = match_entry m \<and> token_ok (mt_address1 m) \<and> token_ok (mt_address2 m)
              \<and> order_entry t \<in> set db \<and> token_ok (to_address t) \<and> block_fits (to_block t) \<and> to_txid t = mt_txid1 m))"

lemma trade_block_order: "token_ok (to_address t) \<Longrightarrow> block_fits (to_block t) \<Longrightarrow> trade_block b (snd (order_entry t)) = to_block t"
  by (simp add: order_entry_def tokens_join block_fits_def)

lemma trade_block_match: "token_ok (mt_address1 m) \<Longrightarrow> token_ok (mt_address2 m) \<Longrightarrow> trade_block b (snd (match_entry m)) = b"
  by (simp add: match_entry_def tokens_join)

declare trade_block.simps [simp del]

text \<open>Whether the walk over the records deletes a key.\<close>

fun removed :: "int \<Rightarrow> int \<Rightarrow> leveldb \<Rightarrow> string \<Rightarrow> bool" where
  "removed N b [] k \<longleftrightarrow> False"
| "removed N b ((k1, v1) # it) k \<longleftrightarrow> (if k = k1 then trade_block b v1 \<ge> N else removed N (trade_block b v1) it k)"

lemma removed_member: "removed N b it k \<Longrightarrow> k \<in> fst ` set it"
  by (induction N b it k rule: removed.induct) (auto split: if_splits)

lemma trades_above_lookup:
  "distinct (map fst it) \<Longrightarrow> map_of (snd (trades_above N it b (n, db))) k = (if removed N b it k then None else map_of db k)"
proof (induction it arbitrary: b n db)
  case (Cons e it)
  obtain k1 v1 where e: "e = (k1, v1)" by (cases e)
  have "map_of (smap_del k1 db) k = (if k = k1 then None else map_of db k)" by (simp add: smap_del_def map_of_filter_neq)
  moreover have "\<not> removed N (trade_block b v1) it k1" using Cons.prems e removed_member by fastforce
  ultimately show ?case using Cons e by (cases "k = k1") (auto simp: Let_def)
qed simp

lemma removed_split:
  "k \<notin> fst ` set xs \<Longrightarrow> removed N b (xs @ (k, v) # ys) k \<longleftrightarrow> trade_block (fold (\<lambda>(k, v) b. trade_block b v) xs b) v \<ge> N"
  by (induction xs arbitrary: b) auto

lemma same_length_less: "length a = length b \<Longrightarrow> a < b \<Longrightarrow> a @ c < b @ (d :: string)"
  by (induction a b rule: list_induct2) auto

lemma less_extended: "a < a @ c # (d :: string)"
  by (induction a) auto

text \<open>Between an order and one of its matches there are only matches of the same order.\<close>

lemma no_order_between:
  assumes "GetHex t1 < GetHex t" and "GetHex t < GetHex t1 @ c"
  shows False
  using same_length_less [of "GetHex t1" "GetHex t" c "[]"] assms by (simp add: length_GetHex)

lemma judged_by_first_order:
  assumes ok: "trade_db_ok db" and m: "match_entry m \<in> set db"
    and t: "order_entry t \<in> set db" "token_ok (to_address t)" "block_fits (to_block t)" "to_txid t = mt_txid1 m"
    and mok: "token_ok (mt_address1 m)" "token_ok (mt_address2 m)"
  shows "removed N 0 db (fst (match_entry m)) \<longleftrightarrow> to_block t \<ge> N"
proof -
  let ?k = "fst (match_entry m)" and ?h = "fst (order_entry t)"
  have sm: "sorted_wrt (<) (map fst db)" using ok by (simp add: trade_db_ok_def smap_ok_def)
  obtain xs ys where db: "db = xs @ (?k, snd (match_entry m)) # ys" using split_list [OF m] by auto
  have hk: "?h = GetHex (mt_txid1 m)" "?k = GetHex (mt_txid1 m) @ ''+'' @ GetHex (mt_txid2 m)" "?h < ?k"
    using t(4) less_extended by (auto simp: order_entry_def match_entry_def)
  have xs: "\<forall>e \<in> set xs. fst e < ?k" and ys: "\<forall>e \<in> set ys. ?k < fst e" using sm unfolding db by (auto simp: sorted_wrt_append)
  have "order_entry t \<in> set xs" using t(1) hk(3) ys unfolding db by (auto dest: less_asym)
  then obtain xs1 xs2 where xs12: "xs = xs1 @ (?h, snd (order_entry t)) # xs2" using split_list by fastforce
  have between: "\<forall>e \<in> set xs2. ?h < fst e \<and> fst e < ?k" using sm xs unfolding db xs12 by (auto simp: sorted_wrt_append)
  have "\<forall>e \<in> set xs2. \<forall>b. trade_block b (snd e) = b"
  proof (intro ballI allI)
    fix e b assume e: "e \<in> set xs2"
    then have "e \<in> set db" by (simp add: db xs12)
    moreover have "e \<noteq> order_entry u" for u
    proof
      assume u: "e = order_entry u"
      then have "fst e = GetHex (to_txid u)" by (simp add: order_entry_def)
      then show False using bspec [OF between e] no_order_between [of "mt_txid1 m" "to_txid u" "''+'' @ GetHex (mt_txid2 m)"] hk by simp
    qed
    ultimately obtain m' where "e = match_entry m'" "token_ok (mt_address1 m')" "token_ok (mt_address2 m')"
      using ok unfolding trade_db_ok_def by blast
    then show "trade_block b (snd e) = b" by (simp add: trade_block_match)
  qed
  then have id: "fold (\<lambda>(k, v) b. trade_block b v) xs2 b = b" for b by (induction xs2) (auto simp: case_prod_beta)
  have "?k \<notin> fst ` set xs" using xs by auto
  then have "removed N 0 db ?k \<longleftrightarrow> trade_block (fold (\<lambda>(k, v) b. trade_block b v) xs 0) (snd (match_entry m)) \<ge> N"
    by (subst db) (rule removed_split)
  then show ?thesis by (simp add: trade_block_match [OF mok] xs12 id trade_block_order [OF t(2,3)] case_prod_beta)
qed

subsection \<open>Blocks taken from the wrong field\<close>

lemma map_of_fold_del: "map_of (fold (\<lambda>(k, v). smap_del k) found db) k = (if k \<in> fst ` set found then None else map_of db k)"
proof (induction found arbitrary: db)
  case (Cons e found)
  have "map_of (smap_del (fst e) db) k = (if k = fst e then None else map_of db k)" by (simp add: smap_del_def map_of_filter_neq)
  then show ?case using Cons by (auto simp: case_prod_beta)
qed simp

lemma isMPinBlockRange_lookup:
  assumes "smap_ok db"
  shows "map_of (snd (isMPinBlockRange b e True db)) k =
    (case map_of db k of Some v \<Rightarrow> if in_block_range b e v then None else Some v | None \<Rightarrow> None)"
proof -
  have "k \<in> fst ` set (filter (\<lambda>(k, v). in_block_range b e v) db) \<longleftrightarrow> (\<exists>v. map_of db k = Some v \<and> in_block_range b e v)"
    using smap.member_lookup [OF assms] by force
  then show ?thesis by (auto simp: isMPinBlockRange_def Let_def map_of_fold_del split: option.split)
qed

lemma in_block_range_tx:
  assumes "block_fits nBlock" and "token_ok x"
  shows "in_block_range b e (join CHR '':'' [if valid then ''1'' else ''0'', show_int nBlock, show_nat ty, x]) \<longleftrightarrow> b \<le> nBlock \<and> nBlock \<le> e"
proof -
  have "token_ok (if valid then ''1'' else ''0'')" by (simp add: token_ok_def)
  then show ?thesis using assms by (simp add: in_block_range_def tokens_join block_fits_def)
qed

subsection \<open>The order of sort keys\<close>

lemma show_nat_digit_hd:
  assumes "10 ^ k \<le> n" and "n < 10 ^ (k + 1)"
  shows "length (show_nat n) = k + 1 \<and> hd (show_nat n) = digit (n div 10 ^ k)"
  using assms
proof (induction k arbitrary: n)
  case 0
  then show ?case by (subst (1 2) show_nat.simps) simp
next
  case (Suc k)
  have "(10::nat) * 1 \<le> 10 * 10 ^ k" by (rule mult_le_mono2) simp
  moreover have "10 * 10 ^ k \<le> n" using Suc.prems(1) by simp
  ultimately have ten: "\<not> n < 10" by linarith
  have n: "\<not> n < 10" "10 ^ k \<le> n div 10" "n div 10 < 10 ^ (k + 1)" using Suc.prems ten by (auto simp: less_eq_div_iff_mult_less_eq)
  have "n div 10 div 10 ^ k = n div 10 ^ Suc k" by (simp add: div_mult2_eq)
  then show ?case using Suc.IH [OF n(2,3)] n(1) show_nat_digits [of "n div 10"] by (subst (1 2) show_nat.simps) (simp add: hd_append)
qed

lemma digit_less: "m < n \<Longrightarrow> n < 10 \<Longrightarrow> digit m < digit n"
  by (simp add: digit_def less_char_def)

lemma foldl_digits: "foldl (\<lambda>n c. 10 * n + digit_value c) a ds = a * 10 ^ length ds + read_digits ds"
proof (induction ds arbitrary: a)
  case (Cons d ds)
  have "foldl (\<lambda>n c. 10 * n + digit_value c) a (d # ds) = (10 * a + digit_value d) * 10 ^ length ds + read_digits ds"
    using Cons [of "10 * a + digit_value d"] by simp
  moreover have "read_digits (d # ds) = digit_value d * 10 ^ length ds + read_digits ds"
    using Cons [of "digit_value d"] by (subst read_digits_def) simp
  ultimately show ?case by (simp add: algebra_simps)
qed (simp add: read_digits_def)

lemma read_digits_Cons: "read_digits (d # ds) = digit_value d * 10 ^ length ds + read_digits ds"
  using foldl_digits [of "digit_value d" ds] by (subst read_digits_def) simp

lemma digit_value_less: "is_digit c \<Longrightarrow> digit_value c < 10"
  by (auto simp: is_digit_def digit_value_def)

lemma read_digits_bound: "list_all is_digit ds \<Longrightarrow> read_digits ds < 10 ^ length ds"
proof (induction ds)
  case (Cons d ds)
  then have "digit_value d * 10 ^ length ds \<le> 9 * 10 ^ length ds" using digit_value_less [of d] by (intro mult_le_mono1) simp
  moreover have "read_digits ds < 10 ^ length ds" using Cons by simp
  ultimately have "digit_value d * 10 ^ length ds + read_digits ds < 10 * 10 ^ length ds" by linarith
  then show ?case by (simp add: read_digits_Cons)
qed (simp add: read_digits_def)

lemma digit_char_less: "is_digit c \<Longrightarrow> is_digit d \<Longrightarrow> c < d \<longleftrightarrow> digit_value c < digit_value d"
  by (auto simp: is_digit_def digit_value_def less_char_def)

lemma digit_char_eq: "is_digit c \<Longrightarrow> is_digit d \<Longrightarrow> c = d \<longleftrightarrow> digit_value c = digit_value d"
  using digit_char_less [of c d] digit_char_less [of d c] by (metis less_irrefl linorder_less_linear)

text \<open>Decimal numbers of the same width are in the order of their values.\<close>

lemma digits_order:
  "length a = length b \<Longrightarrow> list_all is_digit a \<Longrightarrow> list_all is_digit b \<Longrightarrow> a < b \<longleftrightarrow> read_digits a < read_digits b"
proof (induction a b rule: list_induct2)
  case (Cons c a d b)
  have bounds: "read_digits a < 10 ^ length b" "read_digits b < 10 ^ length b" using Cons.hyps Cons.prems read_digits_bound [of a] read_digits_bound [of b] by simp_all
  have less: "digit_value x * 10 ^ length b + m < digit_value y * 10 ^ length b + n" if "digit_value x < digit_value y" "m < 10 ^ length b" for x y m n
  proof -
    have "(digit_value x + 1) * 10 ^ length b \<le> digit_value y * 10 ^ length b" using that(1) by (intro mult_le_mono1) simp
    then show ?thesis using that(2) by simp
  qed
  consider "digit_value c < digit_value d" | "digit_value c = digit_value d" | "digit_value d < digit_value c" by linarith
  then show ?case
  proof cases
    case 1
    then show ?thesis using Cons less [of c d] bounds by (simp add: read_digits_Cons digit_char_less)
  next
    case 2
    then show ?thesis using Cons by (simp add: read_digits_Cons digit_char_less digit_char_eq)
  next
    case 3
    then have "\<not> c < d" "c \<noteq> d" using Cons.prems by (auto simp: digit_char_less)
    then show ?thesis using Cons less [OF 3 bounds(2), of "read_digits a"] by (simp add: read_digits_Cons)
  qed
qed (simp add: read_digits_def)

lemma show_nat_length: "n < 10 ^ w \<Longrightarrow> 0 < w \<Longrightarrow> length (show_nat n) \<le> w"
proof (induction w arbitrary: n)
  case (Suc w)
  show ?case
  proof (cases "n < 10")
    case True
    then show ?thesis by (subst show_nat.simps) simp
  next
    case False
    then have "0 < w" "n div 10 < 10 ^ w" using Suc.prems by (cases w; auto)+
    then show ?thesis using Suc.IH [of "n div 10"] False by (subst show_nat.simps) simp
  qed
qed simp

lemma show_pad_digits:
  assumes "0 \<le> n" and "n < 10 ^ w" and "0 < w"
  shows "length (show_pad w n) = w" and "list_all is_digit (show_pad w n)" and "read_digits (show_pad w n) = nat n"
proof -
  have len: "length (show_nat (nat n)) \<le> w" using show_nat_length assms by (simp add: nat_less_iff)
  have zeros: "read_digits (replicate k CHR ''0'' @ ds) = read_digits ds" for k ds
    by (induction k) (simp_all add: read_digits_def digit_value_def)
  show "length (show_pad w n) = w" using len assms(1) by (simp add: show_pad_def)
  show "list_all is_digit (show_pad w n)" using show_nat_digits [of "nat n"] assms(1) by (auto simp: show_pad_def list_all_iff is_digit_def)
  show "read_digits (show_pad w n) = nat n" using assms(1) by (simp add: show_pad_def zeros) (simp add: read_digits_def read_show_fold)
qed

lemma sort_key_order:
  assumes "0 \<le> b1" "b1 < 1000000" "0 \<le> b2" "b2 < 1000000" "0 \<le> p1" "p1 < 10000000000" "0 \<le> p2" "p2 < 10000000000"
  shows "sort_key b1 p1 < sort_key b2 p2 \<longleftrightarrow> (b1, p1) < (b2, p2)"
proof -
  note b = show_pad_digits [of b1 6] show_pad_digits [of b2 6] and p = show_pad_digits [of p1 10] show_pad_digits [of p2 10]
  have app: "a @ c < b @ d \<longleftrightarrow> a < b \<or> a = b \<and> c < d" if "length a = length b" for a b c d :: string
    using that by (induction a b rule: list_induct2) auto
  have inj: "show_pad 6 b1 = show_pad 6 b2 \<longleftrightarrow> b1 = b2"  (is "?l \<longleftrightarrow> ?r")
  proof
    assume ?l
    then have "read_digits (show_pad 6 b1) = read_digits (show_pad 6 b2)" by simp
    then have "nat b1 = nat b2" using b(3,6) assms by simp
    then show ?r using assms by simp
  qed simp
  show ?thesis using digits_order [of "show_pad 6 b1" "show_pad 6 b2"] digits_order [of "show_pad 10 p1" "show_pad 10 p2"] b p assms inj
    by (auto simp: sort_key_def app)
qed

lemma sort_key_reversed:
  assumes "200000 \<le> b1" "b1 < 1000000" "1000000 \<le> b2" "b2 < 2000000"
  shows "sort_key b2 p2 < sort_key b1 p1"
proof -
  have 1: "length (show_nat (nat b1)) = 6" "hd (show_nat (nat b1)) = digit (nat b1 div 100000)"
    using show_nat_digit_hd [of 5 "nat b1"] assms(1,2) by (auto simp: nat_le_iff nat_less_iff)
  have 2: "length (show_nat (nat b2)) = 7" "hd (show_nat (nat b2)) = digit (nat b2 div 1000000)"
    using show_nat_digit_hd [of 6 "nat b2"] assms(3,4) by auto
  have "nat b2 div 1000000 = 1" using assms(3,4) by (intro div_nat_eqI) auto
  moreover have "2 \<le> nat b1 div 100000" "nat b1 div 100000 < 10" using assms(1,2) by (auto simp: less_eq_div_iff_mult_less_eq less_mult_imp_div_less)
  ultimately have "hd (show_nat (nat b2)) < hd (show_nat (nat b1))" using 1 2 digit_less [of 1 "nat b1 div 100000"] by simp
  then show ?thesis using assms 1(1) 2(1)
    by (cases "show_nat (nat b1)"; cases "show_nat (nat b2)") (auto simp: sort_key_def show_pad_def)
qed

subsection \<open>Properties\<close>

text \<open>
  \<^bold>\<open>C37\<close>. Payments of a transaction are read back. After any number of payments has been recorded for a transaction that has no record yet,
  the number of its sub-records is the number of payments, the purchase with number \<open>k + 1\<close> gives the buyer, the seller, the output, the property and the amount of payment \<open>k\<close>,
  and no record of another transaction has changed.
\<close>

theorem payments_read_back:
  assumes "map_of db (GetHex txid) = None" and "\<forall>p \<in> set ps. pay_txid p = txid \<and> payment_fits p" and "length ps < 2 ^ 31"
  shows "getNumberOfSubRecords txid (fold record_payment ps db) = Some (int (length ps))
    \<and> (\<forall>k < length ps. getPurchaseDetails txid (int k + 1) (fold record_payment ps db) = Some (Some (payment_details (ps ! k))))
    \<and> (\<forall>k. k \<noteq> GetHex txid \<longrightarrow> (\<forall>n. k \<noteq> sub_key txid n) \<longrightarrow> map_of (fold record_payment ps db) k = map_of db k)"
proof -
  have "payments_at txid 0 db" using assms(1) by (simp add: payments_at_def)
  from payments_fold [OF this assms(2,3)] show ?thesis using payments_at_existing(2) [of txid "length ps"] assms(3) by blast
qed

definition sample_payment :: "nat \<Rightarrow> PaymentTX" where
  "sample_payment n = \<lparr>pay_txid = 7, pay_valid = True, pay_block = 100, pay_vout = n, pay_property = 3, pay_amount = 50, pay_buyer = ''Rb'', pay_seller = ''Rs''\<rparr>"

theorem payments_read_back_witness:
  "getPurchaseDetails 7 2 (fold record_payment [sample_payment 0, sample_payment 4] []) = Some (Some (''Rb'', ''Rs'', 4, 3, 50))"
proof -
  have "\<forall>p \<in> set [sample_payment 0, sample_payment 4]. pay_txid p = 7 \<and> payment_fits p" by (simp add: sample_payment_def payment_fits_def token_ok_def)
  moreover have "map_of ([] :: leveldb) (GetHex 7) = None" "length [sample_payment 0, sample_payment 4] < 2 ^ 31" by simp_all
  ultimately have "\<forall>k < length [sample_payment 0, sample_payment 4]. getPurchaseDetails 7 (int k + 1) (fold record_payment [sample_payment 0, sample_payment 4] [])
      = Some (Some (payment_details ([sample_payment 0, sample_payment 4] ! k)))" using payments_read_back by blast
  from spec [OF this, of 1] show ?thesis by (simp add: payment_details_def sample_payment_def)
qed

text \<open>
  \<^bold>\<open>C39\<close>. Which matched trades a reorganization removes. The code looks for the block of a match in records of seven fields, but a match is written with eight, so a match is
  judged by the record before it, the one of its first, older, order: the match goes exactly when that order is in the removed blocks, whatever block the match itself is in. A match
  of an old order that only happened in a removed block stays in the database.
\<close>

theorem Trade_deleteAboveBlock_first_order:
  assumes "trade_db_ok db" and "match_entry m \<in> set db" and "token_ok (mt_address1 m)" and "token_ok (mt_address2 m)"
    and "order_entry t \<in> set db" and "token_ok (to_address t)" and "block_fits (to_block t)" and "to_txid t = mt_txid1 m"
  shows "map_of (snd (Trade_deleteAboveBlock blockNum db)) (fst (match_entry m)) =
    (if to_block t < blockNum then Some (snd (match_entry m)) else None)"
proof -
  have sm: "smap_ok db" using assms(1) by (simp add: trade_db_ok_def)
  have "map_of db (fst (match_entry m)) = Some (snd (match_entry m))" using smap.member_lookup [OF sm] assms(2) by (metis prod.collapse)
  then show ?thesis
    using judged_by_first_order [OF assms(1,2,5,6,7,8,3,4), of blockNum] trades_above_lookup [OF smap_ok_distinct [OF sm], of blockNum 0 0 db]
    by (simp add: Trade_deleteAboveBlock_def)
qed

lemma set_smap_upd_new:
  assumes "smap_ok db" and "map_of db (fst e) = None"
  shows "set (smap_upd (fst e) (snd e) db) = insert e (set db)"
  using smap.member_upd [OF assms(1)] smap.member_lookup [OF assms(1)] assms(2) by (auto simp: set_eq_iff) (metis prod.collapse)+

lemma trade_db_ok_new:
  assumes "trade_db_ok db" and "map_of db (fst (order_entry t)) = None" and "token_ok (to_address t)" and "block_fits (to_block t)"
  shows "trade_db_ok (smap_upd (fst (order_entry t)) (snd (order_entry t)) db)"
proof -
  have sm: "smap_ok db" using assms(1) by (simp add: trade_db_ok_def)
  show ?thesis using assms smap_ok_upd [OF sm] set_smap_upd_new [OF sm assms(2)] unfolding trade_db_ok_def by blast
qed

lemma trade_db_ok_match:
  assumes "trade_db_ok db" and "map_of db (fst (match_entry m)) = None" and "token_ok (mt_address1 m)" and "token_ok (mt_address2 m)"
    and "order_entry t \<in> set db" and "token_ok (to_address t)" and "block_fits (to_block t)" and "to_txid t = mt_txid1 m"
  shows "trade_db_ok (smap_upd (fst (match_entry m)) (snd (match_entry m)) db)"
proof -
  have sm: "smap_ok db" using assms(1) by (simp add: trade_db_ok_def)
  show ?thesis using assms smap_ok_upd [OF sm] set_smap_upd_new [OF sm assms(2)] unfolding trade_db_ok_def by blast
qed

definition sample_trade_order :: TradeOrder where
  "sample_trade_order = \<lparr>to_txid = 1, to_address = ''Ra'', to_forsale = 3, to_desired = 4, to_block = 10, to_index = 2\<rparr>"

definition sample_match :: MatchedTrade where
  "sample_match = \<lparr>mt_txid1 = 1, mt_txid2 = 2, mt_address1 = ''Ra'', mt_address2 = ''Rb'', mt_prop1 = 4, mt_prop2 = 3, mt_amount1 = 5, mt_amount2 = 6, mt_block = 100, mt_fee = 0\<rparr>"

theorem Trade_deleteAboveBlock_first_order_witness:
  "mt_block sample_match = 100 \<and> map_of (snd (Trade_deleteAboveBlock 100 (recordMatchedTrade sample_match (recordNewTrade 1 ''Ra'' 3 4 10 2 []))))
     (fst (match_entry sample_match)) = Some (snd (match_entry sample_match))"
proof -
  let ?db1 = "recordNewTrade 1 ''Ra'' 3 4 10 2 []"
  have db1: "?db1 = [order_entry sample_trade_order]" by (simp add: recordNewTrade_def order_entry_def sample_trade_order_def)
  have t: "token_ok (to_address sample_trade_order)" "block_fits (to_block sample_trade_order)" "to_txid sample_trade_order = mt_txid1 sample_match"
    by (simp_all add: sample_trade_order_def sample_match_def token_ok_def block_fits_def)
  have m: "token_ok (mt_address1 sample_match)" "token_ok (mt_address2 sample_match)" by (simp_all add: sample_match_def token_ok_def)
  have ok1: "trade_db_ok ?db1" unfolding db1 using t by (auto simp: trade_db_ok_def smap_ok_def)
  have "length (fst (match_entry sample_match)) \<noteq> length (fst (order_entry sample_trade_order))" by (simp add: match_entry_def order_entry_def length_GetHex)
  then have key: "fst (match_entry sample_match) \<noteq> fst (order_entry sample_trade_order)" by auto
  then have none: "map_of ?db1 (fst (match_entry sample_match)) = None" unfolding db1 by simp
  have ord: "order_entry sample_trade_order \<in> set ?db1" unfolding db1 by simp
  have rec: "recordMatchedTrade sample_match ?db1 = smap_upd (fst (match_entry sample_match)) (snd (match_entry sample_match)) ?db1" by (rule record_entries)
  have sm: "smap_ok ?db1" using ok1 by (simp add: trade_db_ok_def)
  have mem: "match_entry sample_match \<in> set (recordMatchedTrade sample_match ?db1)" "order_entry sample_trade_order \<in> set (recordMatchedTrade sample_match ?db1)"
    unfolding rec set_smap_upd_new [OF sm none] using ord by simp_all
  have "trade_db_ok (recordMatchedTrade sample_match ?db1)" unfolding rec by (rule trade_db_ok_match [OF ok1 none m ord t])
  from Trade_deleteAboveBlock_first_order [OF this mem(1) m mem(2) t, of 100]
  show ?thesis by (simp add: sample_trade_order_def sample_match_def)
qed

text \<open>
  \<^bold>\<open>C40\<close>. What a reorganization removes from the transaction list. The second field of every record is taken for its block. For the record of a transaction it is, and the record goes exactly when
  its block is in the range; for the sub-record of a send of all tokens it is the amount, and the sub-record goes exactly when the amount, cut to 32 bits, happens to be in the range of heights.
\<close>

theorem isMPinBlockRange_sub_records:
  assumes "smap_ok db" and "block_fits nBlock" and "MIN_INT64 \<le> a" and "a \<le> MAX_INT64"
    and "db' = recordSendAllSubRecord txid n p a (recordTX txid valid nBlock ty v db)"
    and "db'' = snd (isMPinBlockRange h1 h2 True db')"
  shows "map_of db'' (GetHex txid) = (if h1 \<le> nBlock \<and> nBlock \<le> h2 then None else map_of db' (GetHex txid))
    \<and> map_of db'' (sub_key txid n) = (if h1 \<le> s32 a \<and> s32 a \<le> h2 then None else map_of db' (sub_key txid n))"
proof -
  have sm: "smap_ok db'" unfolding assms(5) recordSendAllSubRecord_def recordTX_def by (intro smap_ok_upd assms(1))
  have master: "map_of db' (GetHex txid) = Some (join CHR '':'' [if valid then ''1'' else ''0'', show_int nBlock, show_nat ty, show_int v])"
    using sub_key_not_master [of txid n txid] by (simp add: assms(5) recordSendAllSubRecord_def recordTX_def map_of_smap_upd)
  have sub: "map_of db' (sub_key txid n) = Some (join CHR '':'' [show_nat p, show_int a])"
    by (simp add: assms(5) recordSendAllSubRecord_def map_of_smap_upd)
  have "atoi (show_int a) = s32 a" using assms(3,4) by (simp add: atoi_def atoi64_show_int)
  then have "in_block_range h1 h2 (join CHR '':'' [show_nat p, show_int a]) \<longleftrightarrow> h1 \<le> s32 a \<and> s32 a \<le> h2"
    by (simp add: in_block_range_def tokens_join)
  then show ?thesis unfolding assms(6) isMPinBlockRange_lookup [OF sm] master sub
    by (simp add: in_block_range_tx [OF assms(2)])
qed

theorem isMPinBlockRange_sub_records_witness:
  "map_of (snd (isMPinBlockRange 500 600 True (recordSendAllSubRecord 7 1 3 555 (recordTX 7 True 100 4 0 [])))) (sub_key 7 1) = None"
proof -
  have "smap_ok ([] :: leveldb)" "block_fits 100" by (simp_all add: smap_ok_def block_fits_def)
  from isMPinBlockRange_sub_records [OF this, of 555 _ 7 1 3 True 4 0 _ 500 600] show ?thesis by (simp add: s32_def)
qed

text \<open>
  The order in which recorded freezes and trades are put. For blocks below 1,000,000 the sort keys are in the order of block and position. A block from 1,000,000 to 1,999,999 is put before every block
  from 200,000 to 999,999, because the keys are compared as text and the block is padded to six digits.
\<close>

lemma sort_key_spec:
  assumes "0 \<le> b1" and "b1 < 1000000" and "0 \<le> b2" and "b2 < 2000000" and "0 \<le> p1" and "p1 < 10000000000" and "0 \<le> p2" and "p2 < 10000000000"
  shows "(b2 < 1000000 \<longrightarrow> (sort_key b1 p1 < sort_key b2 p2 \<longleftrightarrow> (b1, p1) < (b2, p2)))
    \<and> (b2 \<ge> 1000000 \<and> b1 \<ge> 200000 \<longrightarrow> sort_key b2 p2 < sort_key b1 p1)"
  using sort_key_order [of b1 b2 p1 p2] sort_key_reversed [of b1 b2 p2 p1] assms by auto

end
