(* ===== verification/Persistence.thy ===== *)
theory Persistence
  imports Databases
begin

text \<open>
  State files, \<^verbatim>\<open>src/src/tokencore/persistence.cpp\<close> with the \<^verbatim>\<open>save*\<close> functions of the stored objects: after a block the balances, offers, accepts, global numbers,
  crowdsales and orders are written as text, one file of each kind per block, with a hash of the lines at the end; after a reorganization or a restart the newest complete set of files
  of a block in the active chain is read back.

  The files are a map from kind and block to the lines; the name of a file is made of these two, and other files of the directory are skipped by the code. The state record of the node
  is declared here: \<open>tx_state\<close> with what the handlers of the token layer keep besides. SHA-256 is an argument. \<open>None\<close> means that an exception leaves the function
  (\<^verbatim>\<open>boost::lexical_cast\<close> of text that is no number), that an index is out of range, or that a loop does not return.
\<close>

datatype FILETYPES = FILETYPE_BALANCES | FILETYPE_OFFERS | FILETYPE_ACCEPTS | FILETYPE_GLOBALS | FILETYPE_CROWDSALES | FILETYPE_MDEXORDERS

record CBlockIndex =
  bi_hash :: nat
  bi_height :: int
  bi_time :: int
  bi_pprev :: "nat option" \<comment> \<open>the hash of the previous block\<close>

record CMPPending =
  pend_src :: string
  pend_prop :: property_id
  pend_amount :: int
  pend_type :: nat

record node_state = tx_state +
  exodus_prev :: int
  stateFiles :: "((FILETYPES \<times> nat) \<times> string list) list"
  mapBlockIndex :: "nat \<Rightarrow> CBlockIndex option"
  pDbTransactionList :: leveldb
  pDbTransaction :: leveldb
  pDbStoList :: leveldb
  pDbTradeList :: leveldb
  my_pending :: "(nat \<times> CMPPending) list" \<comment> \<open>\<^verbatim>\<open>std::map\<close>\<close>
  tokenView :: CCoinsViewCache
  nWaterlineBlock :: int
  reorgRecoveryMode :: int
  reorgRecoveryMaxHeight :: int

abbreviation MAX_STATE_HISTORY :: int where "MAX_STATE_HISTORY \<equiv> 50"
abbreviation STORE_EVERY_N_BLOCK :: int where "STORE_EVERY_N_BLOCK \<equiv> 10000"

subsection \<open>Writing\<close>

definition balance_text :: "CMPTally \<Rightarrow> property_id \<Rightarrow> string" where
  "balance_text t p = show_nat p @ '':'' @ join CHR '','' [show_int (getMoney t p BALANCE), show_int (getMoney t p SELLOFFER_RESERVE),
     show_int (getMoney t p ACCEPT_RESERVE), show_int (getMoney t p METADEX_RESERVE)] @ '';''"

definition empty_balance :: "CMPTally \<Rightarrow> property_id \<Rightarrow> bool" where
  "empty_balance t p \<longleftrightarrow> getMoney t p BALANCE = 0 \<and> getMoney t p SELLOFFER_RESERVE = 0 \<and> getMoney t p ACCEPT_RESERVE = 0 \<and> getMoney t p METADEX_RESERVE = 0"

definition balance_line :: "string \<times> CMPTally \<Rightarrow> string list" where
  "balance_line e = (case e of (address, curAddr) \<Rightarrow>
     let props = filter (\<lambda>p. \<not> empty_balance curAddr p) (tally_ids curAddr)
     in if props = [] then [] else [address @ ''='' @ concat (map (balance_text curAddr) props)])"

definition write_msc_balances :: "'s node_state_scheme \<Rightarrow> string list" where
  "write_msc_balances s = concat (map balance_line (mp_tally_map s))"

definition CMPOffer_saveOffer :: "string \<Rightarrow> CMPOffer \<Rightarrow> string" where
  "CMPOffer_saveOffer address offer = join CHR '','' [address, show_int (offerBlock offer), show_int (offer_amount_original offer), show_nat (offer_property offer),
     show_int (offer_RPD_desired offer), show_nat TOKEN_PROPERTY_RPD, show_int (offer_min_fee offer), show_nat (offer_blocktimelimit offer), GetHex (offer_txid offer)]"

definition write_mp_offers :: "'s node_state_scheme \<Rightarrow> string list" where
  "write_mp_offers s = map (\<lambda>(key, offer). CMPOffer_saveOffer (split_any ''-'' key ! 0) offer) (my_offers s)"

definition saveAccept :: "string \<Rightarrow> string \<Rightarrow> CMPAccept \<Rightarrow> string" where
  "saveAccept address buyer a = join CHR '','' [address, show_nat (accept_property a), buyer, show_int (accept_block a), show_int (accept_amount_remaining a),
     show_int (accept_amount_original a), show_nat (accept_blocktimelimit a), show_int (accept_offer_amount a), show_int (accept_RPD_desired a), GetHex (accept_offer_txid a)]"

definition accept_line :: "string \<times> CMPAccept \<Rightarrow> string option" where
  "accept_line e = (case split_any ''-+'' (fst e) of seller # _ # buyer # _ \<Rightarrow> Some (saveAccept seller buyer (snd e)) | _ \<Rightarrow> None)"

definition write_mp_accepts :: "'s node_state_scheme \<Rightarrow> string list option" where
  "write_mp_accepts s = those (map accept_line (my_accepts s))"

definition write_globals_state :: "'s node_state_scheme \<Rightarrow> string list" where
  "write_globals_state s = [join CHR '','' [show_int (exodus_prev s), show_nat (peekNextSPID TOKEN_PROPERTY_MSC (pDbSpInfo s)), show_nat (peekNextSPID TOKEN_PROPERTY_TMSC (pDbSpInfo s))]]"

definition fundraiser_text :: "nat \<times> int list \<Rightarrow> string" where
  "fundraiser_text e = GetHex (fst e) @ ''='' @ join CHR '';'' (map show_int (snd e))"

definition saveCrowdSale :: "string \<Rightarrow> CMPCrowd \<Rightarrow> string" where
  "saveCrowdSale addr c = join CHR '','' ([addr, show_nat (crowd_propertyId c), show_int (crowd_nValue c), show_nat (crowd_property_desired c), show_int (crowd_deadline c),
     show_nat (crowd_early_bird c), show_nat (crowd_percentage c), show_int (crowd_u_created c), show_int (crowd_i_created c)]
     @ map fundraiser_text (crowd_txFundraiserData c))"

definition write_mp_crowdsales :: "'s node_state_scheme \<Rightarrow> string list" where
  "write_mp_crowdsales s = map (\<lambda>(addr, crowd). saveCrowdSale addr crowd) (my_crowds s)"

definition CMPMetaDEx_saveOffer :: "CMPMetaDEx \<Rightarrow> string" where
  "CMPMetaDEx_saveOffer m = join CHR '','' [md_addr m, show_int (md_block m), show_int (md_amount_forsale m), show_nat (md_property m), show_int (md_amount_desired m),
     show_nat (md_desired_property m), show_nat (md_subaction m), show_nat (md_idx m), GetHex (md_txid m), show_int (md_amount_remaining m)]"

definition write_mp_metadex :: "'s node_state_scheme \<Rightarrow> string list" where
  "write_mp_metadex s = map CMPMetaDEx_saveOffer (book_orders (metadex s))"

text \<open>The last line of a file is an exclamation mark and the double hash of the lines.\<close>

definition file_hash :: "(string \<Rightarrow> string) \<Rightarrow> string \<Rightarrow> string" where
  "file_hash sha256 contents = GetHex (le_nat (sha256 (sha256 contents)))"

definition state_lines :: "FILETYPES \<Rightarrow> 's node_state_scheme \<Rightarrow> string list option" where
  "state_lines what s =
     (case what of
        FILETYPE_BALANCES \<Rightarrow> Some (write_msc_balances s)
      | FILETYPE_OFFERS \<Rightarrow> Some (write_mp_offers s)
      | FILETYPE_ACCEPTS \<Rightarrow> write_mp_accepts s
      | FILETYPE_GLOBALS \<Rightarrow> Some (write_globals_state s)
      | FILETYPE_CROWDSALES \<Rightarrow> Some (write_mp_crowdsales s)
      | FILETYPE_MDEXORDERS \<Rightarrow> Some (write_mp_metadex s))"

definition write_state_file :: "(string \<Rightarrow> string) \<Rightarrow> CBlockIndex \<Rightarrow> FILETYPES \<Rightarrow> 's node_state_scheme \<Rightarrow> 's node_state_scheme option" where
  "write_state_file sha256 pBlockIndex what s = do {
     ls \<leftarrow> state_lines what s;
     Some (s\<lparr>stateFiles := umap_upd (what, bi_hash pBlockIndex) (ls @ [CHR ''!'' # file_hash sha256 (concat ls)]) (stateFiles s)\<rparr>)
   }"

definition prunable :: "CBlockIndex \<Rightarrow> 's node_state_scheme \<Rightarrow> nat \<Rightarrow> bool" where
  "prunable topIndex s h =
     (case mapBlockIndex s h of
        None \<Rightarrow> True
      | Some curIndex \<Rightarrow> bi_height topIndex - bi_height curIndex > MAX_STATE_HISTORY \<and> bi_height curIndex mod STORE_EVERY_N_BLOCK \<noteq> 0)"

definition prune_state_files :: "CBlockIndex \<Rightarrow> 's node_state_scheme \<Rightarrow> 's node_state_scheme" where
  "prune_state_files topIndex s = s\<lparr>stateFiles := filter (\<lambda>((what, h), _). \<not> prunable topIndex s h) (stateFiles s)\<rparr>"

definition IsPersistenceEnabled :: "int \<Rightarrow> int \<Rightarrow> bool" where
  "IsPersistenceEnabled height blockHeight \<longleftrightarrow> \<not> (height > blockHeight + MAX_STATE_HISTORY \<and> blockHeight mod STORE_EVERY_N_BLOCK \<noteq> 0)"

definition all_filetypes :: "FILETYPES list" where
  "all_filetypes = [FILETYPE_BALANCES, FILETYPE_OFFERS, FILETYPE_ACCEPTS, FILETYPE_GLOBALS, FILETYPE_CROWDSALES, FILETYPE_MDEXORDERS]"

fun write_files :: "(string \<Rightarrow> string) \<Rightarrow> CBlockIndex \<Rightarrow> FILETYPES list \<Rightarrow> 's node_state_scheme \<Rightarrow> 's node_state_scheme option" where
  "write_files sha256 pBlockIndex [] s = Some s"
| "write_files sha256 pBlockIndex (what # ws) s = do {
     s1 \<leftarrow> write_state_file sha256 pBlockIndex what s;
     write_files sha256 pBlockIndex ws s1
   }"

definition PersistInMemoryState :: "(string \<Rightarrow> string) \<Rightarrow> CBlockIndex \<Rightarrow> 's node_state_scheme \<Rightarrow> 's node_state_scheme option" where
  "PersistInMemoryState sha256 pBlockIndex s = do {
     s1 \<leftarrow> write_files sha256 pBlockIndex all_filetypes s;
     let s2 = prune_state_files pBlockIndex s1;
     Some (s2\<lparr>pDbSpInfo := setWatermark (bi_hash pBlockIndex) (pDbSpInfo s2)\<rparr>)
   }"

subsection \<open>Reading\<close>

text \<open>An update whose result is not used.\<close>

definition credit_if :: "string \<Rightarrow> property_id \<Rightarrow> int \<Rightarrow> TallyType \<Rightarrow> 's node_state_scheme \<Rightarrow> 's node_state_scheme option" where
  "credit_if a p x t s = (if x \<noteq> 0 then map_option snd (update_tally_map a p x t s) else Some s)"

fun input_properties :: "string \<Rightarrow> string list \<Rightarrow> 's node_state_scheme \<Rightarrow> (int \<times> 's node_state_scheme) option" where
  "input_properties strAddress [] s = Some (0, s)"
| "input_properties strAddress (it # vProperties) s =
     (if it = [] then input_properties strAddress vProperties s
      else case split_any '':'' it of
          [property, balances] \<Rightarrow>
            (case split_any '','' balances of
               [b0, b1, b2, b3] \<Rightarrow> do {
                 propertyId \<leftarrow> lexical_cast_uint 32 property;
                 balance \<leftarrow> lexical_cast_int 64 b0;
                 sellReserved \<leftarrow> lexical_cast_int 64 b1;
                 acceptReserved \<leftarrow> lexical_cast_int 64 b2;
                 metadexReserved \<leftarrow> lexical_cast_int 64 b3;
                 s1 \<leftarrow> credit_if strAddress propertyId balance BALANCE s;
                 s2 \<leftarrow> credit_if strAddress propertyId sellReserved SELLOFFER_RESERVE s1;
                 s3 \<leftarrow> credit_if strAddress propertyId acceptReserved ACCEPT_RESERVE s2;
                 s4 \<leftarrow> credit_if strAddress propertyId metadexReserved METADEX_RESERVE s3;
                 input_properties strAddress vProperties s4
               }
             | _ \<Rightarrow> Some (- 1, s))
        | _ \<Rightarrow> Some (- 1, s))"

definition input_msc_balances_string :: "string \<Rightarrow> 's node_state_scheme \<Rightarrow> (int \<times> 's node_state_scheme) option" where
  "input_msc_balances_string line s =
     (case split_any ''='' line of
        [strAddress, properties] \<Rightarrow> input_properties strAddress (split_any '';'' properties) s
      | _ \<Rightarrow> Some (- 1, s))"

definition input_mp_offers_string :: "string \<Rightarrow> 's node_state_scheme \<Rightarrow> (int \<times> 's node_state_scheme) option" where
  "input_mp_offers_string line s =
     (case split_any '' ,='' line of
        [sellerAddr, v1, v2, v3, v4, v5, v6, v7, v8] \<Rightarrow> do {
          block \<leftarrow> lexical_cast_int 32 v1;
          amountOriginal \<leftarrow> lexical_cast_int 64 v2;
          prop \<leftarrow> lexical_cast_uint 32 v3;
          btcDesired \<leftarrow> lexical_cast_int 64 v4;
          prop_desired \<leftarrow> lexical_cast_uint 32 v5;
          minFee \<leftarrow> lexical_cast_int 64 v6;
          blocktimelimit \<leftarrow> lexical_cast_uint 32 v7;
          if TOKEN_PROPERTY_RPD \<noteq> prop_desired then Some (- 1, s)
          else
            let combo = STR_SELLOFFER_ADDR_PROP_COMBO sellerAddr prop;
                newOffer = \<lparr>offerBlock = block, offer_amount_original = amountOriginal, offer_property = prop, offer_RPD_desired = btcDesired,
                  offer_min_fee = minFee, offer_blocktimelimit = blocktimelimit mod 256, offer_txid = SetHex v8, offer_subaction = 0\<rparr>
            in if map_of (my_offers s) combo \<noteq> None then Some (- 1, s)
               else Some (0, s\<lparr>my_offers := smap_upd combo newOffer (my_offers s)\<rparr>)
        }
      | _ \<Rightarrow> Some (- 1, s))"

definition input_mp_accepts_string :: "string \<Rightarrow> 's node_state_scheme \<Rightarrow> (int \<times> 's node_state_scheme) option" where
  "input_mp_accepts_string line s =
     (case split_any '' ,='' line of
        [sellerAddr, v1, buyerAddr, v3, v4, v5, v6, v7, v8, txidStr] \<Rightarrow> do {
          prop \<leftarrow> lexical_cast_uint 32 v1;
          let nBlock = atoi v3;
          amountRemaining \<leftarrow> lexical_cast_int 64 v4;
          amountOriginal \<leftarrow> lexical_cast_uint 64 v5;
          let blocktimelimit = nat (atoi v6 mod 256);
          offerOriginal \<leftarrow> lexical_cast_int 64 v7;
          btcDesired \<leftarrow> lexical_cast_int 64 v8;
          let combo = STR_ACCEPT_ADDR_PROP_ADDR_COMBO sellerAddr buyerAddr prop;
          let newAccept = \<lparr>accept_amount_original = s64 (int amountOriginal), accept_amount_remaining = amountRemaining, accept_blocktimelimit = blocktimelimit,
            accept_property = prop, accept_offer_amount = offerOriginal, accept_RPD_desired = btcDesired, accept_offer_txid = SetHex txidStr, accept_block = nBlock\<rparr>;
          if map_of (my_accepts s) combo \<noteq> None then Some (- 1, s)
          else Some (0, s\<lparr>my_accepts := smap_upd combo newAccept (my_accepts s)\<rparr>)
        }
      | _ \<Rightarrow> Some (- 1, s))"

definition input_globals_state_string :: "string \<Rightarrow> 's node_state_scheme \<Rightarrow> (int \<times> 's node_state_scheme) option" where
  "input_globals_state_string line s =
     (case split_any '' ,='' line of
        [v0, v1, v2] \<Rightarrow> do {
          exodusPrev \<leftarrow> lexical_cast_int 64 v0;
          nextSPID \<leftarrow> lexical_cast_uint 32 v1;
          nextTestSPID \<leftarrow> lexical_cast_uint 32 v2;
          Some (0, s\<lparr>exodus_prev := exodusPrev, pDbSpInfo := init_spids nextSPID nextTestSPID (pDbSpInfo s)\<rparr>)
        }
      | _ \<Rightarrow> Some (- 1, s))"

fun cast_all :: "string list \<Rightarrow> int list option" where
  "cast_all [] = Some []"
| "cast_all (v # vs) = do { x \<leftarrow> lexical_cast_int 64 v; xs \<leftarrow> cast_all vs; Some (x # xs) }"

text \<open>The pairs of the participants; \<open>Inl\<close> is the early return.\<close>

fun input_participants :: "string list \<Rightarrow> CMPCrowd \<Rightarrow> (int + CMPCrowd) option" where
  "input_participants [] c = Some (Inr c)"
| "input_participants (v # vstr) c =
     (case split_any ''='' v of
        [tx, valueData] \<Rightarrow> do {
          vals \<leftarrow> cast_all (split_any '';'' valueData);
          input_participants vstr (insertDatabase (SetHex tx) vals c)
        }
      | _ \<Rightarrow> Some (Inl (- 1)))"

definition input_mp_crowdsale_string :: "string \<Rightarrow> 's node_state_scheme \<Rightarrow> (int \<times> 's node_state_scheme) option" where
  "input_mp_crowdsale_string line s =
     (case split_any '' ,'' line of
        sellerAddr # v1 # v2 # v3 # v4 # v5 # v6 # v7 # v8 # pairs \<Rightarrow> do {
          propertyId \<leftarrow> lexical_cast_uint 32 v1;
          value \<leftarrow> lexical_cast_int 64 v2;
          property_desired \<leftarrow> lexical_cast_uint 32 v3;
          deadline \<leftarrow> lexical_cast_int 64 v4;
          early_bird \<leftarrow> lexical_cast_uint 32 v5;
          percentage \<leftarrow> lexical_cast_uint 32 v6;
          u_created \<leftarrow> lexical_cast_int 64 v7;
          i_created \<leftarrow> lexical_cast_int 64 v8;
          r \<leftarrow> input_participants pairs (new_crowd propertyId value property_desired deadline (early_bird mod 256) (percentage mod 256) u_created i_created);
          (case r of
             Inl err \<Rightarrow> Some (err, s)
           | Inr newCrowdsale \<Rightarrow>
               if map_of (my_crowds s) sellerAddr \<noteq> None then Some (- 1, s)
               else Some (0, s\<lparr>my_crowds := smap_upd sellerAddr newCrowdsale (my_crowds s)\<rparr>))
        }
      | _ \<Rightarrow> Some (- 1, s))"

definition input_mp_mdexorder_string :: "string \<Rightarrow> 's node_state_scheme \<Rightarrow> (int \<times> 's node_state_scheme) option" where
  "input_mp_mdexorder_string line s =
     (case split_any '' ,='' line of
        [addr, v1, v2, v3, v4, v5, v6, v7, v8, v9] \<Rightarrow> do {
          block \<leftarrow> lexical_cast_int 32 v1;
          amount_forsale \<leftarrow> lexical_cast_int 64 v2;
          property \<leftarrow> lexical_cast_uint 32 v3;
          amount_desired \<leftarrow> lexical_cast_int 64 v4;
          desired_property \<leftarrow> lexical_cast_uint 32 v5;
          subaction \<leftarrow> lexical_cast_uint 32 v6;
          idx \<leftarrow> lexical_cast_uint 32 v7;
          amount_remaining \<leftarrow> lexical_cast_int 64 v9;
          (case MetaDEx_INSERT \<lparr>md_block = block, md_txid = SetHex v8, md_idx = idx, md_property = property, md_amount_forsale = amount_forsale,
               md_desired_property = desired_property, md_amount_desired = amount_desired, md_amount_remaining = amount_remaining,
               md_subaction = subaction mod 256, md_addr = addr\<rparr> s of
             (True, s') \<Rightarrow> Some (0, s')
           | (False, s') \<Rightarrow> Some (- 1, s'))
        }
      | _ \<Rightarrow> Some (- 1, s))"

subsection \<open>Files\<close>

definition input_line :: "FILETYPES \<Rightarrow> string \<Rightarrow> 's node_state_scheme \<Rightarrow> (int \<times> 's node_state_scheme) option" where
  "input_line what =
     (case what of
        FILETYPE_BALANCES \<Rightarrow> input_msc_balances_string
      | FILETYPE_OFFERS \<Rightarrow> input_mp_offers_string
      | FILETYPE_ACCEPTS \<Rightarrow> input_mp_accepts_string
      | FILETYPE_GLOBALS \<Rightarrow> input_globals_state_string
      | FILETYPE_CROWDSALES \<Rightarrow> input_mp_crowdsale_string
      | FILETYPE_MDEXORDERS \<Rightarrow> input_mp_mdexorder_string)"

definition clear_kind :: "FILETYPES \<Rightarrow> 's node_state_scheme \<Rightarrow> 's node_state_scheme" where
  "clear_kind what s =
     (case what of
        FILETYPE_BALANCES \<Rightarrow> s\<lparr>mp_tally_map := []\<rparr>
      | FILETYPE_OFFERS \<Rightarrow> s\<lparr>my_offers := []\<rparr>
      | FILETYPE_ACCEPTS \<Rightarrow> s\<lparr>my_accepts := []\<rparr>
      | FILETYPE_GLOBALS \<Rightarrow> s
      | FILETYPE_CROWDSALES \<Rightarrow> s\<lparr>my_crowds := []\<rparr>
      | FILETYPE_MDEXORDERS \<Rightarrow> s\<lparr>metadex := []\<rparr>)"

text \<open>The loop over the lines: the result, the hash found in the file, the text that is hashed and the state.\<close>

fun restore_lines :: "FILETYPES \<Rightarrow> bool \<Rightarrow> string list \<Rightarrow> string \<Rightarrow> string \<Rightarrow> 's node_state_scheme \<Rightarrow> (int \<times> string \<times> string \<times> 's node_state_scheme) option" where
  "restore_lines what verifyHash [] fileHash hashed s = Some (0, fileHash, hashed, s)"
| "restore_lines what verifyHash (l # ls) fileHash hashed s =
     (if l = [] \<or> hd l = CHR ''#'' then restore_lines what verifyHash ls fileHash hashed s
      else
        let line = filter (\<lambda>c. c \<noteq> CHR 0x0D) l
        in if line \<noteq> [] \<and> hd line = CHR ''!'' then restore_lines what verifyHash ls (tl line) hashed s
           else do {
             let hashed' = (if verifyHash then hashed @ line else hashed);
             (rc, s') \<leftarrow> input_line what line s;
             if rc < 0 then Some (- 1, fileHash, hashed', s')
             else restore_lines what verifyHash ls fileHash hashed' s'
           })"

text \<open>\<^verbatim>\<open>boost::iequals\<close>.\<close>

definition iequals :: "string \<Rightarrow> string \<Rightarrow> bool" where
  "iequals a b \<longleftrightarrow> map to_upper a = map to_upper b"

definition RestoreInMemoryState :: "(string \<Rightarrow> string) \<Rightarrow> nat \<Rightarrow> FILETYPES \<Rightarrow> bool \<Rightarrow> 's node_state_scheme \<Rightarrow> (int \<times> 's node_state_scheme) option" where
  "RestoreInMemoryState sha256 blockHash what verifyHash s =
     (let s0 = clear_kind what s
      in case map_of (stateFiles s0) (what, blockHash) of
          None \<Rightarrow> Some (- 1, s0)
        | Some ls \<Rightarrow> do {
            (res, fileHash, hashed, s1) \<leftarrow> restore_lines what verifyHash ls [] [] s0;
            Some (if verifyHash \<and> res = 0 \<and> \<not> iequals (file_hash sha256 hashed) fileHash then - 1 else res, s1)
          })"

fun restore_files :: "(string \<Rightarrow> string) \<Rightarrow> nat \<Rightarrow> FILETYPES list \<Rightarrow> 's node_state_scheme \<Rightarrow> (int \<times> 's node_state_scheme) option" where
  "restore_files sha256 blockHash [] s = Some (0, s)"
| "restore_files sha256 blockHash (what # ws) s = do {
     (success, s1) \<leftarrow> RestoreInMemoryState sha256 blockHash what True s;
     if success < 0 then Some (success, s1) else restore_files sha256 blockHash ws s1
   }"

text \<open>\<^verbatim>\<open>chainActive.Contains\<close> and the previous block.\<close>

definition chain_contains :: "'s node_state_scheme \<Rightarrow> CBlockIndex \<Rightarrow> bool" where
  "chain_contains s b \<longleftrightarrow> chainActive s (bi_height b) = Some (bi_hash b)"

definition prev_index :: "'s node_state_scheme \<Rightarrow> CBlockIndex \<Rightarrow> CBlockIndex option" where
  "prev_index s b = Option.bind (bi_pprev b) (mapBlockIndex s)"

definition move_watermark :: "CBlockIndex option \<Rightarrow> CMPSPInfo \<Rightarrow> CMPSPInfo" where
  "move_watermark b db = (case b of None \<Rightarrow> db | Some i \<Rightarrow> setWatermark (bi_hash i) db)"

text \<open>Rolling the property database back to a block of the active chain; \<open>Inl\<close> is the early return.\<close>

partial_function (option) roll_back_sp :: "CBlockIndex option \<Rightarrow> 's node_state_scheme \<Rightarrow> ((int \<times> 's node_state_scheme) + (CBlockIndex option \<times> 's node_state_scheme)) option" where
  [code]: "roll_back_sp spBlockIndex s =
     (case spBlockIndex of
        None \<Rightarrow> Some (Inr (None, s))
      | Some b \<Rightarrow>
          if chain_contains s b then Some (Inr (Some b, s))
          else case popBlock (bi_hash b) (pDbSpInfo s) of (remainingSPs, db) \<Rightarrow>
            if remainingSPs < 0 then Some (Inl (- 1, s\<lparr>pDbSpInfo := db\<rparr>))
            else roll_back_sp (prev_index s b) (s\<lparr>pDbSpInfo := move_watermark (prev_index s b) db\<rparr>))"

definition persisted_blocks :: "'s node_state_scheme \<Rightarrow> nat list" where
  "persisted_blocks s = remdups (filter (\<lambda>h. case mapBlockIndex s h of None \<Rightarrow> False | Some b \<Rightarrow> chain_contains s b) (map (snd \<circ> fst) (stateFiles s)))"

text \<open>Walking back to the newest complete set of files.\<close>

partial_function (option) find_state :: "(string \<Rightarrow> string) \<Rightarrow> int \<Rightarrow> CBlockIndex option \<Rightarrow> nat list \<Rightarrow> 's node_state_scheme
    \<Rightarrow> (int \<times> 's node_state_scheme) option" where
  [code]: "find_state sha256 abortRollBackBlock curTip persistedBlocks s =
     (case curTip of
        None \<Rightarrow> Some (- 1, s)
      | Some b \<Rightarrow>
          if persistedBlocks = [] \<or> \<not> bi_height b > abortRollBackBlock then Some (- 1, s)
          else do {
            (found, persistedBlocks1, s1) \<leftarrow>
              (if bi_hash b \<in> set persistedBlocks then do {
                 (success, s1) \<leftarrow> restore_files sha256 (bi_hash b) all_filetypes s;
                 Some (success \<ge> 0, if success \<ge> 0 then persistedBlocks else filter (\<lambda>h. h \<noteq> bi_hash b) persistedBlocks, s1)
               } else Some (False, persistedBlocks, s));
            if found then Some (bi_height b, s1)
            else case popBlock (bi_hash b) (pDbSpInfo s1) of (remainingSPs, db) \<Rightarrow>
              if remainingSPs \<le> 0 then Some (- 1, s1\<lparr>pDbSpInfo := db\<rparr>)
              else find_state sha256 abortRollBackBlock (prev_index s1 b) persistedBlocks1 (s1\<lparr>pDbSpInfo := move_watermark (prev_index s1 b) db\<rparr>)
          })"

definition LoadMostRelevantInMemoryState :: "(string \<Rightarrow> string) \<Rightarrow> 's node_state_scheme \<Rightarrow> (int \<times> 's node_state_scheme) option" where
  "LoadMostRelevantInMemoryState sha256 s =
     (case Option.bind (getWatermark (pDbSpInfo s)) (mapBlockIndex s) of
        None \<Rightarrow> Some (- 1, s)
      | Some b \<Rightarrow> do {
          r \<leftarrow> roll_back_sp (Some b) s;
          (case r of
             Inl (err, s1) \<Rightarrow> Some (err, s1)
           | Inr (curTip, s1) \<Rightarrow> find_state sha256 (GENESIS_BLOCK (consensusParams s1) - 1) curTip (persisted_blocks s1) s1)
        })"

subsection \<open>Lines that are read back\<close>

definition plain :: "string \<Rightarrow> bool" where
  "plain t \<longleftrightarrow> t \<noteq> [] \<and> (\<forall>c \<in> set t. c \<notin> set '' ,=:;-+!#'' \<and> c \<noteq> CHR 0x0D)"

text \<open>A field of a line: a plain text, or a number, which may start with a minus sign.\<close>

definition field_ok :: "string \<Rightarrow> bool" where
  "field_ok t \<longleftrightarrow> t \<noteq> [] \<and> (\<forall>c \<in> set t. c \<notin> set '' ,=:;!#'' \<and> c \<noteq> CHR 0x0D)"

lemma field_ok_plain [simp]: "plain t \<Longrightarrow> field_ok t"
  by (auto simp: plain_def field_ok_def)

lemma field_ok_show [simp]: "field_ok (show_nat n)" "field_ok (show_int i)"
proof -
  have d: "c \<in> set (show_nat n) \<Longrightarrow> c \<notin> set '' ,=:;!#'' \<and> c \<noteq> CHR 0x0D" for c n
    using show_nat_no_sep [of c n] by (auto simp: is_digit_def)
  show f: "field_ok (show_nat n)" for n using d [of _ n] show_nat_digits [of n] unfolding field_ok_def by blast
  show "field_ok (show_int i)" using f [of "nat i"] f [of "nat (- i)"] by (auto simp: show_int_def field_ok_def)
qed

lemma field_ok_GetHex [simp]: "field_ok (GetHex n)"
proof -
  have "c \<notin> set '' ,=:;!#'' \<and> c \<noteq> CHR 0x0D" if "c \<in> set (GetHex n)" for c
    using GetHex_digits [OF that] by (auto simp: HexDigit_def)
  then show ?thesis using length_GetHex [of n] unfolding field_ok_def by (metis length_0_conv zero_neq_numeral)
qed

lemma split_fields: "ts \<noteq> [] \<Longrightarrow> \<forall>t \<in> set ts. field_ok t \<Longrightarrow> split_any '' ,='' (join CHR '','' ts) = ts"
  by (rule split_join_any) (auto simp: field_ok_def)

text \<open>A line of a state file that is neither a comment nor the hash.\<close>

definition data_line :: "string \<Rightarrow> bool" where
  "data_line l \<longleftrightarrow> l \<noteq> [] \<and> hd l \<noteq> CHR ''#'' \<and> hd l \<noteq> CHR ''!'' \<and> CHR 0x0D \<notin> set l"

lemma data_line_join:
  assumes "\<forall>t \<in> set (t0 # ts). field_ok t"
  shows "data_line (join CHR '','' (t0 # ts))"
proof -
  have "t0 \<noteq> []" "hd t0 \<noteq> CHR ''#''" "hd t0 \<noteq> CHR ''!''" using assms hd_in_set [of t0] by (auto simp: field_ok_def)
  moreover have "CHR 0x0D \<notin> set (join CHR '','' (t0 # ts))"
  proof
    assume "CHR 0x0D \<in> set (join CHR '','' (t0 # ts))"
    then obtain t where "t \<in> set (t0 # ts)" "CHR 0x0D \<in> set t" using set_join [of "CHR '',''" "t0 # ts"] by auto
    then show False using assms unfolding field_ok_def by blast
  qed
  ultimately show ?thesis using join_nonempty [of t0 "CHR '',''" ts] by (auto simp: data_line_def)
qed

fun input_all :: "FILETYPES \<Rightarrow> string list \<Rightarrow> 's node_state_scheme \<Rightarrow> 's node_state_scheme option" where
  "input_all what [] s = Some s"
| "input_all what (l # ls) s = do { (rc, s') \<leftarrow> input_line what l s; if rc < 0 then None else input_all what ls s' }"

lemma input_all_append: "input_all what (ls @ ms) s = Option.bind (input_all what ls s) (input_all what ms)"
  by (induction ls arbitrary: s) (auto split: bind_splits)

lemma restore_data_lines:
  assumes "\<forall>l \<in> set ls. data_line l" and "input_all what ls s = Some s'"
  shows "restore_lines what True (ls @ ms) fh hashed s = restore_lines what True ms fh (hashed @ concat ls) s'"
  using assms
proof (induction ls arbitrary: s hashed)
  case (Cons l ls)
  obtain rc s1 where r: "input_line what l s = Some (rc, s1)" "\<not> rc < 0" "input_all what ls s1 = Some s'"
    using Cons.prems(2) by (auto split: bind_splits if_splits)
  have l: "l \<noteq> []" "hd l \<noteq> CHR ''#''" "hd l \<noteq> CHR ''!''" "filter (\<lambda>c. c \<noteq> CHR 0x0D) l = l"
    using Cons.prems(1) by (auto simp: data_line_def filter_id_conv)
  show ?case using Cons.IH [OF _ r(3)] Cons.prems(1) r(1,2) l by (simp add: Let_def)
qed simp

lemma restore_written:
  assumes "map_of (stateFiles s) (what, h) = Some (ls @ [CHR ''!'' # file_hash sha256 (concat ls)])"
    and "\<forall>l \<in> set ls. data_line l" and "input_all what ls (clear_kind what s) = Some s'"
  shows "RestoreInMemoryState sha256 h what True s = Some (0, s')"
proof -
  have files: "stateFiles (clear_kind what s) = stateFiles s" by (cases what) (simp_all add: clear_kind_def)
  have hash: "filter (\<lambda>c. c \<noteq> CHR 0x0D) (file_hash sha256 x) = file_hash sha256 x" for x
    using field_ok_GetHex unfolding file_hash_def filter_id_conv field_ok_def by blast
  show ?thesis using assms(1) restore_data_lines [OF assms(2,3), of "[CHR ''!'' # file_hash sha256 (concat ls)]" "[]" "[]"] hash
    by (simp add: RestoreInMemoryState_def files iequals_def)
qed

text \<open>Reading the entries of a sorted map in their order appends each.\<close>

lemma input_sorted:
  assumes "smap_ok (xs @ ys)"
    and step: "\<And>xs e. e \<in> set ys \<Longrightarrow> \<forall>k \<in> fst ` set xs. k < fst e \<Longrightarrow> input_line what (line e) (put xs) = Some (0, put (xs @ [e]))"
  shows "input_all what (map line ys) (put xs) = Some (put (xs @ ys))"
  using assms
proof (induction ys arbitrary: xs)
  case (Cons e ys)
  have "\<forall>k \<in> fst ` set xs. k < fst e" using Cons.prems(1) by (auto simp: smap_ok_def sorted_wrt_append)
  then have "input_line what (line e) (put xs) = Some (0, put (xs @ [e]))" using Cons.prems(2) by simp
  then show ?case using Cons.IH [of "xs @ [e]"] Cons.prems by simp
qed simp

lemma smap_upd_last: "\<forall>k \<in> fst ` set xs. k < fst e \<Longrightarrow> smap_upd (fst e) (snd e) xs = xs @ [e]"
  by (induction xs) (auto simp: less_not_sym)

lemma map_of_last: "\<forall>k \<in> fst ` set xs. k < (a :: 'a :: linorder) \<Longrightarrow> map_of xs a = None"
  by (force simp: map_of_eq_None_iff)

subsection \<open>Offers, accepts, global numbers and crowdsales\<close>

definition int32 :: "int \<Rightarrow> bool" where "int32 x \<longleftrightarrow> - 2147483648 \<le> x \<and> x < 2147483648"
definition int64 :: "int \<Rightarrow> bool" where "int64 x \<longleftrightarrow> MIN_INT64 \<le> x \<and> x \<le> MAX_INT64"

named_theorems casts \<open>numbers that are read back\<close>

lemma cast_int [casts]: "int32 x \<Longrightarrow> lexical_cast_int 32 (show_int x) = Some x" "int64 x \<Longrightarrow> lexical_cast_int 64 (show_int x) = Some x"
  using lexical_cast_int_show [of 32 x] lexical_cast_int_show [of 64 x] by (simp_all add: int32_def int64_def)

lemma cast_uint [casts]: "n < 4294967296 \<Longrightarrow> lexical_cast_uint 32 (show_nat n) = Some n"
  using lexical_cast_uint_show [of n 32] by simp

lemma cast_unsigned [casts]: "int64 x \<Longrightarrow> 0 \<le> x \<Longrightarrow> lexical_cast_uint 64 (show_int x) = Some (nat x)"
  using lexical_cast_uint_show [of "nat x" 64] by (simp add: int64_def show_int_def)

lemma input_from_empty:
  assumes "smap_ok ys"
    and "\<And>xs e. e \<in> set ys \<Longrightarrow> \<forall>k \<in> fst ` set xs. k < fst e \<Longrightarrow> input_line what (line e) (put xs) = Some (0, put (xs @ [e]))"
  shows "input_all what (map line ys) (put []) = Some (put ys)"
  using input_sorted [of "[]" ys what line put] assms by simp

definition offer_fits :: "string \<times> CMPOffer \<Rightarrow> bool" where
  "offer_fits e \<longleftrightarrow> (\<exists>a. plain a \<and> fst e = STR_SELLOFFER_ADDR_PROP_COMBO a (offer_property (snd e)))
     \<and> int32 (offerBlock (snd e)) \<and> int64 (offer_amount_original (snd e)) \<and> offer_property (snd e) < 4294967296 \<and> int64 (offer_RPD_desired (snd e))
     \<and> int64 (offer_min_fee (snd e)) \<and> offer_blocktimelimit (snd e) < 256 \<and> offer_txid (snd e) < 2 ^ 256 \<and> offer_subaction (snd e) = 0"

lemma plain_addr_ok: "plain a \<Longrightarrow> addr_ok a"
  by (auto simp: plain_def addr_ok_def)

lemma offer_line:
  assumes "offer_fits e"
  shows "data_line (CMPOffer_saveOffer (split_any ''-'' (fst e) ! 0) (snd e))"
    and "\<forall>k \<in> fst ` set xs. k < fst e \<Longrightarrow>
      input_mp_offers_string (CMPOffer_saveOffer (split_any ''-'' (fst e) ! 0) (snd e)) (s\<lparr>my_offers := xs\<rparr>) = Some (0, s\<lparr>my_offers := xs @ [e]\<rparr>)"
proof -
  obtain a where a: "plain a" "fst e = STR_SELLOFFER_ADDR_PROP_COMBO a (offer_property (snd e))" using assms by (auto simp: offer_fits_def)
  have key: "split_any ''-'' (fst e) ! 0 = a" unfolding a(2) split_offer_key [OF plain_addr_ok [OF a(1)]] by simp
  show "data_line (CMPOffer_saveOffer (split_any ''-'' (fst e) ! 0) (snd e))" unfolding CMPOffer_saveOffer_def key by (rule data_line_join) (simp add: a(1))
  assume less: "\<forall>k \<in> fst ` set xs. k < fst e"
  have split: "split_any '' ,='' (CMPOffer_saveOffer a (snd e)) = [a, show_int (offerBlock (snd e)), show_int (offer_amount_original (snd e)), show_nat (offer_property (snd e)),
     show_int (offer_RPD_desired (snd e)), show_nat TOKEN_PROPERTY_RPD, show_int (offer_min_fee (snd e)), show_nat (offer_blocktimelimit (snd e)), GetHex (offer_txid (snd e))]"
    unfolding CMPOffer_saveOffer_def by (rule split_fields) (simp_all add: a(1))
  have rec: "\<lparr>offerBlock = offerBlock (snd e), offer_amount_original = offer_amount_original (snd e), offer_property = offer_property (snd e), offer_RPD_desired = offer_RPD_desired (snd e),
      offer_min_fee = offer_min_fee (snd e), offer_blocktimelimit = offer_blocktimelimit (snd e), offer_txid = offer_txid (snd e), offer_subaction = 0\<rparr> = snd e"
    using assms by (cases "snd e") (simp add: offer_fits_def)
  have "map_of xs (fst e) = None" "smap_upd (fst e) (snd e) xs = xs @ [e]" using map_of_last [OF less] smap_upd_last [OF less] by simp_all
  then show "input_mp_offers_string (CMPOffer_saveOffer (split_any ''-'' (fst e) ! 0) (snd e)) (s\<lparr>my_offers := xs\<rparr>) = Some (0, s\<lparr>my_offers := xs @ [e]\<rparr>)"
    using assms unfolding key by (simp add: input_mp_offers_string_def split offer_fits_def casts a(2) [symmetric] SetHex_GetHex rec)
qed

lemma offers_restored:
  assumes "smap_ok m" and "\<forall>e \<in> set m. offer_fits e"
  shows "\<forall>l \<in> set (write_mp_offers (s\<lparr>my_offers := m\<rparr>)). data_line l"
    and "input_all FILETYPE_OFFERS (write_mp_offers (s\<lparr>my_offers := m\<rparr>)) (t\<lparr>my_offers := []\<rparr>) = Some (t\<lparr>my_offers := m\<rparr>)"
proof -
  let ?line = "\<lambda>e. CMPOffer_saveOffer (split_any ''-'' (fst e) ! 0) (snd e)"
  have w: "write_mp_offers (s\<lparr>my_offers := m\<rparr>) = map ?line m" by (simp add: write_mp_offers_def case_prod_beta)
  show "\<forall>l \<in> set (write_mp_offers (s\<lparr>my_offers := m\<rparr>)). data_line l" unfolding w using assms(2) offer_line(1) by auto
  show "input_all FILETYPE_OFFERS (write_mp_offers (s\<lparr>my_offers := m\<rparr>)) (t\<lparr>my_offers := []\<rparr>) = Some (t\<lparr>my_offers := m\<rparr>)"
    unfolding w using assms offer_line(2) [where s = t] by (intro input_from_empty [where put = "\<lambda>xs. t\<lparr>my_offers := xs\<rparr>"]) (simp_all add: input_line_def)
qed

definition accept_fits :: "string \<times> CMPAccept \<Rightarrow> bool" where
  "accept_fits e \<longleftrightarrow> (\<exists>a b. plain a \<and> plain b \<and> fst e = STR_ACCEPT_ADDR_PROP_ADDR_COMBO a b (accept_property (snd e)))
     \<and> accept_property (snd e) < 4294967296 \<and> int32 (accept_block (snd e)) \<and> int64 (accept_amount_remaining (snd e)) \<and> int64 (accept_amount_original (snd e))
     \<and> 0 \<le> accept_amount_original (snd e) \<and> accept_blocktimelimit (snd e) < 256 \<and> int64 (accept_offer_amount (snd e)) \<and> int64 (accept_RPD_desired (snd e))
     \<and> accept_offer_txid (snd e) < 2 ^ 256"

lemma accept_line_read:
  assumes "accept_fits e"
  obtains l where "accept_line e = Some l" and "data_line l"
    and "\<And>xs s. \<forall>k \<in> fst ` set xs. k < fst e \<Longrightarrow> input_mp_accepts_string l (s\<lparr>my_accepts := xs\<rparr>) = Some (0, s\<lparr>my_accepts := xs @ [e]\<rparr>)"
proof -
  obtain a b where ab: "plain a" "plain b" "fst e = STR_ACCEPT_ADDR_PROP_ADDR_COMBO a b (accept_property (snd e))" using assms by (auto simp: accept_fits_def)
  have line: "accept_line e = Some (saveAccept a b (snd e))"
    unfolding accept_line_def ab(3) split_accept_key [OF plain_addr_ok [OF ab(1)] plain_addr_ok [OF ab(2)]] by simp
  have data: "data_line (saveAccept a b (snd e))" unfolding saveAccept_def by (rule data_line_join) (simp add: ab)
  have split: "split_any '' ,='' (saveAccept a b (snd e)) = [a, show_nat (accept_property (snd e)), b, show_int (accept_block (snd e)), show_int (accept_amount_remaining (snd e)),
     show_int (accept_amount_original (snd e)), show_nat (accept_blocktimelimit (snd e)), show_int (accept_offer_amount (snd e)), show_int (accept_RPD_desired (snd e)), GetHex (accept_offer_txid (snd e))]"
    unfolding saveAccept_def by (rule split_fields) (simp_all add: ab)
  have rec: "\<lparr>accept_amount_original = s64 (int (nat (accept_amount_original (snd e)))), accept_amount_remaining = accept_amount_remaining (snd e),
      accept_blocktimelimit = nat (atoi (show_nat (accept_blocktimelimit (snd e))) mod 256), accept_property = accept_property (snd e), accept_offer_amount = accept_offer_amount (snd e),
      accept_RPD_desired = accept_RPD_desired (snd e), accept_offer_txid = SetHex (GetHex (accept_offer_txid (snd e))), accept_block = atoi (show_int (accept_block (snd e)))\<rparr> = snd e"
    using assms by (cases "snd e") (simp add: accept_fits_def int64_def int32_def wrap SetHex_GetHex)
  have casts: "lexical_cast_uint 32 (show_nat (accept_property (snd e))) = Some (accept_property (snd e))"
    "lexical_cast_int 64 (show_int (accept_amount_remaining (snd e))) = Some (accept_amount_remaining (snd e))"
    "lexical_cast_uint 64 (show_int (accept_amount_original (snd e))) = Some (nat (accept_amount_original (snd e)))"
    "lexical_cast_int 64 (show_int (accept_offer_amount (snd e))) = Some (accept_offer_amount (snd e))"
    "lexical_cast_int 64 (show_int (accept_RPD_desired (snd e))) = Some (accept_RPD_desired (snd e))"
    using assms by (simp_all add: accept_fits_def casts)
  have "input_mp_accepts_string (saveAccept a b (snd e)) (s\<lparr>my_accepts := xs\<rparr>) = Some (0, s\<lparr>my_accepts := xs @ [e]\<rparr>)" if "\<forall>k \<in> fst ` set xs. k < fst e" for xs and s :: "'b node_state_scheme"
    using map_of_last [OF that] smap_upd_last [OF that]
    unfolding input_mp_accepts_string_def split list.case casts Option.bind.simps Let_def ab(3) [symmetric] rec by simp
  from that [OF line data this] show ?thesis .
qed

lemma those_map: "those (map f xs) = Some ys \<longleftrightarrow> list_all2 (\<lambda>x y. f x = Some y) xs ys"
  by (induction xs arbitrary: ys) (auto split: option.splits simp: list_all2_Cons1 neq_Nil_conv) 

lemma accepts_restored:
  fixes t :: "'s node_state_scheme"
  assumes "smap_ok m" and "\<forall>e \<in> set m. accept_fits e"
  obtains ls where "write_mp_accepts (s\<lparr>my_accepts := m\<rparr>) = Some ls" and "\<forall>l \<in> set ls. data_line l"
    and "input_all FILETYPE_ACCEPTS ls (t\<lparr>my_accepts := []\<rparr>) = Some (t\<lparr>my_accepts := m\<rparr>)"
proof -
  let ?line = "\<lambda>e. the (accept_line e)"
  have line: "accept_line e = Some (?line e) \<and> data_line (?line e)
      \<and> (\<forall>xs. (\<forall>k \<in> fst ` set xs. k < fst e) \<longrightarrow> input_mp_accepts_string (?line e) (t\<lparr>my_accepts := xs\<rparr>) = Some (0, t\<lparr>my_accepts := xs @ [e]\<rparr>))"
    if "e \<in> set m" for e
  proof -
    have "accept_fits e" using that assms(2) by simp
    then show ?thesis by (rule accept_line_read) auto
  qed
  have "those (map accept_line m) = Some (map ?line m)" unfolding those_map using line by (auto simp: list_all2_conv_all_nth)
  then have w: "write_mp_accepts (s\<lparr>my_accepts := m\<rparr>) = Some (map ?line m)" by (simp add: write_mp_accepts_def)
  have "input_all FILETYPE_ACCEPTS (map ?line m) (t\<lparr>my_accepts := []\<rparr>) = Some (t\<lparr>my_accepts := m\<rparr>)"
    using assms(1) line by (intro input_from_empty [where put = "\<lambda>xs. t\<lparr>my_accepts := xs\<rparr>"]) (simp_all add: input_line_def)
  with that [OF w] line show ?thesis by auto
qed

lemma globals_restored:
  assumes "int64 (exodus_prev s)" and "next_spid (pDbSpInfo s) < 4294967296" and "next_test_spid (pDbSpInfo s) < 4294967296"
  shows "\<forall>l \<in> set (write_globals_state s). data_line l"
    and "input_all FILETYPE_GLOBALS (write_globals_state s) t =
      Some (t\<lparr>exodus_prev := exodus_prev s, pDbSpInfo := init_spids (next_spid (pDbSpInfo s)) (next_test_spid (pDbSpInfo s)) (pDbSpInfo t)\<rparr>)"
proof -
  let ?ts = "[show_int (exodus_prev s), show_nat (next_spid (pDbSpInfo s)), show_nat (next_test_spid (pDbSpInfo s))]"
  have w: "write_globals_state s = [join CHR '','' ?ts]" by (simp add: write_globals_state_def peekNextSPID_def)
  show "\<forall>l \<in> set (write_globals_state s). data_line l" unfolding w using data_line_join [of "hd ?ts" "tl ?ts"] by simp
  have "split_any '' ,='' (join CHR '','' ?ts) = ?ts" by (rule split_fields) simp_all
  then show "input_all FILETYPE_GLOBALS (write_globals_state s) t =
      Some (t\<lparr>exodus_prev := exodus_prev s, pDbSpInfo := init_spids (next_spid (pDbSpInfo s)) (next_test_spid (pDbSpInfo s)) (pDbSpInfo t)\<rparr>)"
    unfolding w using assms by (simp add: input_line_def input_globals_state_string_def casts)
qed

definition crowd_fits :: "string \<times> CMPCrowd \<Rightarrow> bool" where
  "crowd_fits e \<longleftrightarrow> plain (fst e) \<and> crowd_propertyId (snd e) < 4294967296 \<and> int64 (crowd_nValue (snd e)) \<and> crowd_property_desired (snd e) < 4294967296
     \<and> int64 (crowd_deadline (snd e)) \<and> crowd_early_bird (snd e) < 256 \<and> crowd_percentage (snd e) < 256 \<and> int64 (crowd_u_created (snd e)) \<and> int64 (crowd_i_created (snd e))
     \<and> crowd_txid (snd e) = 0 \<and> smap_ok (crowd_txFundraiserData (snd e))
     \<and> (\<forall>(tx, vals) \<in> set (crowd_txFundraiserData (snd e)). tx < 2 ^ 256 \<and> vals \<noteq> [] \<and> (\<forall>v \<in> set vals. int64 v))"

lemma cast_all_show: "\<forall>v \<in> set vals. int64 v \<Longrightarrow> cast_all (map show_int vals) = Some vals"
  by (induction vals) (simp_all add: casts)

lemma participant_split:
  assumes "vals \<noteq> []"
  shows "split_any ''='' (fundraiser_text (tx, vals)) = [GetHex tx, join CHR '';'' (map show_int vals)]"
    and "split_any '';'' (join CHR '';'' (map show_int vals)) = map show_int vals"
    and "fundraiser_text (tx, vals) \<noteq> []" and "\<forall>c \<in> set (fundraiser_text (tx, vals)). c \<notin> set '' ,'' \<and> c \<noteq> CHR 0x0D"
proof -
  let ?v = "join CHR '';'' (map show_int vals)"
  have set: "set ?v \<subseteq> insert (CHR '';'') (\<Union> (set ` show_int ` set vals))" using set_join [of "CHR '';''" "map show_int vals"] by simp
  have ok: "c \<notin> set '' ,='' \<and> c \<noteq> CHR 0x0D" if c: "c \<in> set ?v" for c
  proof -
    consider "c = CHR '';''" | i where "i \<in> set vals" "c \<in> set (show_int i)" using c set by auto
    then show ?thesis
    proof cases
      case 2
      then show ?thesis using field_ok_show(2) [of i] unfolding field_ok_def by auto
    qed simp
  qed
  obtain v vs where vals: "vals = v # vs" using assms by (cases vals) auto
  have ne: "?v \<noteq> []" using join_nonempty [of "show_int v"] field_ok_show(2) [of v] by (simp add: vals field_ok_def)
  have "fundraiser_text (tx, vals) = join CHR ''='' [GetHex tx, ?v]" by (simp add: fundraiser_text_def join.simps)
  moreover have "split_any ''='' (join CHR ''='' [GetHex tx, ?v]) = [GetHex tx, ?v]"
    using ne ok field_ok_GetHex [of tx] by (intro split_join_any) (auto simp: field_ok_def)
  ultimately show "split_any ''='' (fundraiser_text (tx, vals)) = [GetHex tx, ?v]" by simp
  show "split_any '';'' ?v = map show_int vals"
    using assms field_ok_show(2) by (intro split_join_any) (auto simp: field_ok_def)
  show "fundraiser_text (tx, vals) \<noteq> []" by (simp add: fundraiser_text_def)
  show "\<forall>c \<in> set (fundraiser_text (tx, vals)). c \<notin> set '' ,'' \<and> c \<noteq> CHR 0x0D"
    using ok field_ok_GetHex [of tx] by (auto simp: fundraiser_text_def field_ok_def)
qed

lemma participants_read:
  assumes "smap_ok (xs @ ys)" and "\<forall>(tx, vals) \<in> set ys. tx < 2 ^ 256 \<and> vals \<noteq> [] \<and> (\<forall>v \<in> set vals. int64 v)"
  shows "input_participants (map fundraiser_text ys) (c\<lparr>crowd_txFundraiserData := xs\<rparr>) = Some (Inr (c\<lparr>crowd_txFundraiserData := xs @ ys\<rparr>))"
  using assms
proof (induction ys arbitrary: xs)
  case (Cons e ys)
  obtain tx vals where e: "e = (tx, vals)" by (cases e)
  have less: "\<forall>k \<in> fst ` set xs. k < fst e" using Cons.prems(1) by (auto simp: smap_ok_def sorted_wrt_append)
  have tx: "tx < 2 ^ 256" "vals \<noteq> []" "\<forall>v \<in> set vals. int64 v" using Cons.prems(2) e by auto
  have "insertDatabase tx vals (c\<lparr>crowd_txFundraiserData := xs\<rparr>) = c\<lparr>crowd_txFundraiserData := xs @ [e]\<rparr>"
    using map_of_last [OF less] smap_upd_last [OF less] e by (simp add: insertDatabase_def)
  then have "input_participants (map fundraiser_text (e # ys)) (c\<lparr>crowd_txFundraiserData := xs\<rparr>) = input_participants (map fundraiser_text ys) (c\<lparr>crowd_txFundraiserData := xs @ [e]\<rparr>)"
    using tx by (simp add: e participant_split cast_all_show SetHex_GetHex)
  then show ?case using Cons.IH [of "xs @ [e]"] Cons.prems by simp
qed simp

lemma crowd_line:
  assumes "crowd_fits e"
  shows "data_line (saveCrowdSale (fst e) (snd e))"
    and "\<forall>k \<in> fst ` set xs. k < fst e \<Longrightarrow> input_mp_crowdsale_string (saveCrowdSale (fst e) (snd e)) (s\<lparr>my_crowds := xs\<rparr>) = Some (0, s\<lparr>my_crowds := xs @ [e]\<rparr>)"
proof -
  let ?c = "snd e"
  let ?ps = "map fundraiser_text (crowd_txFundraiserData ?c)"
  let ?ts = "[fst e, show_nat (crowd_propertyId ?c), show_int (crowd_nValue ?c), show_nat (crowd_property_desired ?c), show_int (crowd_deadline ?c),
     show_nat (crowd_early_bird ?c), show_nat (crowd_percentage ?c), show_int (crowd_u_created ?c), show_int (crowd_i_created ?c)]"
  have addr: "plain (fst e)" and data: "\<forall>(tx, vals) \<in> set (crowd_txFundraiserData ?c). tx < 2 ^ 256 \<and> vals \<noteq> [] \<and> (\<forall>v \<in> set vals. int64 v)"
    and sm: "smap_ok (crowd_txFundraiserData ?c)" using assms by (simp_all add: crowd_fits_def)
  have ps: "\<forall>t \<in> set ?ps. t \<noteq> [] \<and> (\<forall>c \<in> set t. c \<notin> set '' ,'' \<and> c \<noteq> CHR 0x0D)"
  proof
    fix t assume "t \<in> set ?ps"
    then obtain tx vals where t: "t = fundraiser_text (tx, vals)" "(tx, vals) \<in> set (crowd_txFundraiserData ?c)" by auto
    then have "vals \<noteq> []" using data by blast
    from participant_split(3,4) [OF this, of tx] show "t \<noteq> [] \<and> (\<forall>c \<in> set t. c \<notin> set '' ,'' \<and> c \<noteq> CHR 0x0D)" unfolding t(1) by (rule conjI)
  qed
  have "\<forall>t \<in> set ?ts. field_ok t" using addr by simp
  then have ts: "\<forall>t \<in> set (?ts @ ?ps). t \<noteq> [] \<and> (\<forall>c \<in> set t. c \<notin> set '' ,'' \<and> c \<noteq> CHR 0x0D)"
    using ps unfolding field_ok_def by auto
  have line: "saveCrowdSale (fst e) ?c = join CHR '','' (?ts @ ?ps)" by (simp add: saveCrowdSale_def)
  have "CHR 0x0D \<notin> set (join CHR '','' (?ts @ ?ps))"
  proof
    assume "CHR 0x0D \<in> set (join CHR '','' (?ts @ ?ps))"
    then obtain t where "t \<in> set (?ts @ ?ps)" "CHR 0x0D \<in> set t" using set_join [of "CHR '',''" "?ts @ ?ps"] by auto
    then show False using ts by blast
  qed
  moreover have "fst e \<noteq> []" "hd (fst e) \<noteq> CHR ''#''" "hd (fst e) \<noteq> CHR ''!''" using addr hd_in_set [of "fst e"] by (auto simp: plain_def)
  ultimately show "data_line (saveCrowdSale (fst e) ?c)" unfolding line using join_nonempty [of "fst e" "CHR '',''"] by (auto simp: data_line_def)
  have split: "split_any '' ,'' (saveCrowdSale (fst e) ?c) = ?ts @ ?ps" unfolding line by (rule split_join_any) (use ts in auto)
  let ?new = "new_crowd (crowd_propertyId ?c) (crowd_nValue ?c) (crowd_property_desired ?c) (crowd_deadline ?c) (crowd_early_bird ?c mod 256) (crowd_percentage ?c mod 256)
     (crowd_u_created ?c) (crowd_i_created ?c)"
  have new: "?new = ?new\<lparr>crowd_txFundraiserData := []\<rparr>" "?new\<lparr>crowd_txFundraiserData := crowd_txFundraiserData ?c\<rparr> = ?c"
    using assms by (simp_all add: new_crowd_def crowd_fits_def)
  have read: "input_participants ?ps ?new = Some (Inr ?c)"
    using participants_read [of "[]" "crowd_txFundraiserData ?c" ?new] sm data new by simp
  have casts: "lexical_cast_uint 32 (show_nat (crowd_propertyId ?c)) = Some (crowd_propertyId ?c)" "lexical_cast_int 64 (show_int (crowd_nValue ?c)) = Some (crowd_nValue ?c)"
    "lexical_cast_uint 32 (show_nat (crowd_property_desired ?c)) = Some (crowd_property_desired ?c)" "lexical_cast_int 64 (show_int (crowd_deadline ?c)) = Some (crowd_deadline ?c)"
    "lexical_cast_uint 32 (show_nat (crowd_early_bird ?c)) = Some (crowd_early_bird ?c)" "lexical_cast_uint 32 (show_nat (crowd_percentage ?c)) = Some (crowd_percentage ?c)"
    "lexical_cast_int 64 (show_int (crowd_u_created ?c)) = Some (crowd_u_created ?c)" "lexical_cast_int 64 (show_int (crowd_i_created ?c)) = Some (crowd_i_created ?c)"
    using assms by (simp_all add: crowd_fits_def casts)
  assume less: "\<forall>k \<in> fst ` set xs. k < fst e"
  show "input_mp_crowdsale_string (saveCrowdSale (fst e) ?c) (s\<lparr>my_crowds := xs\<rparr>) = Some (0, s\<lparr>my_crowds := xs @ [e]\<rparr>)"
    using map_of_last [OF less] smap_upd_last [OF less]
    unfolding input_mp_crowdsale_string_def split append_Cons append_Nil list.case casts Option.bind.simps read by simp
qed

lemma crowds_restored:
  assumes "smap_ok m" and "\<forall>e \<in> set m. crowd_fits e"
  shows "\<forall>l \<in> set (write_mp_crowdsales (s\<lparr>my_crowds := m\<rparr>)). data_line l"
    and "input_all FILETYPE_CROWDSALES (write_mp_crowdsales (s\<lparr>my_crowds := m\<rparr>)) (t\<lparr>my_crowds := []\<rparr>) = Some (t\<lparr>my_crowds := m\<rparr>)"
proof -
  let ?line = "\<lambda>e. saveCrowdSale (fst e) (snd e)"
  have w: "write_mp_crowdsales (s\<lparr>my_crowds := m\<rparr>) = map ?line m" by (simp add: write_mp_crowdsales_def case_prod_beta)
  show "\<forall>l \<in> set (write_mp_crowdsales (s\<lparr>my_crowds := m\<rparr>)). data_line l" unfolding w using assms(2) crowd_line(1) by auto
  show "input_all FILETYPE_CROWDSALES (write_mp_crowdsales (s\<lparr>my_crowds := m\<rparr>)) (t\<lparr>my_crowds := []\<rparr>) = Some (t\<lparr>my_crowds := m\<rparr>)"
    unfolding w using assms crowd_line(2) [where s = t] by (intro input_from_empty [where put = "\<lambda>xs. t\<lparr>my_crowds := xs\<rparr>"]) (simp_all add: input_line_def)
qed

subsection \<open>Orders\<close>

definition order_fits :: "CMPMetaDEx \<Rightarrow> bool" where
  "order_fits m \<longleftrightarrow> plain (md_addr m) \<and> int32 (md_block m) \<and> int64 (md_amount_forsale m) \<and> md_property m < 4294967296 \<and> int64 (md_amount_desired m)
     \<and> md_desired_property m < 4294967296 \<and> md_subaction m < 256 \<and> md_idx m < 4294967296 \<and> md_txid m < 2 ^ 256 \<and> int64 (md_amount_remaining m)"

lemma order_line:
  assumes "order_fits m"
  shows "data_line (CMPMetaDEx_saveOffer m)"
    and "input_mp_mdexorder_string (CMPMetaDEx_saveOffer m) s = Some (case MetaDEx_INSERT m s of (new, s') \<Rightarrow> (if new then 0 else - 1, s'))"
proof -
  show "data_line (CMPMetaDEx_saveOffer m)" unfolding CMPMetaDEx_saveOffer_def using assms by (intro data_line_join) (simp add: order_fits_def)
  have split: "split_any '' ,='' (CMPMetaDEx_saveOffer m) = [md_addr m, show_int (md_block m), show_int (md_amount_forsale m), show_nat (md_property m), show_int (md_amount_desired m),
     show_nat (md_desired_property m), show_nat (md_subaction m), show_nat (md_idx m), GetHex (md_txid m), show_int (md_amount_remaining m)]"
    unfolding CMPMetaDEx_saveOffer_def using assms by (intro split_fields) (simp_all add: order_fits_def)
  have rec: "\<lparr>md_block = md_block m, md_txid = SetHex (GetHex (md_txid m)), md_idx = md_idx m, md_property = md_property m, md_amount_forsale = md_amount_forsale m,
      md_desired_property = md_desired_property m, md_amount_desired = md_amount_desired m, md_amount_remaining = md_amount_remaining m,
      md_subaction = md_subaction m mod 256, md_addr = md_addr m\<rparr> = m"
    using assms by (cases m) (simp add: order_fits_def SetHex_GetHex)
  have casts: "lexical_cast_int 32 (show_int (md_block m)) = Some (md_block m)" "lexical_cast_int 64 (show_int (md_amount_forsale m)) = Some (md_amount_forsale m)"
    "lexical_cast_uint 32 (show_nat (md_property m)) = Some (md_property m)" "lexical_cast_int 64 (show_int (md_amount_desired m)) = Some (md_amount_desired m)"
    "lexical_cast_uint 32 (show_nat (md_desired_property m)) = Some (md_desired_property m)" "lexical_cast_uint 32 (show_nat (md_subaction m)) = Some (md_subaction m)"
    "lexical_cast_uint 32 (show_nat (md_idx m)) = Some (md_idx m)" "lexical_cast_int 64 (show_int (md_amount_remaining m)) = Some (md_amount_remaining m)"
    using assms by (simp_all add: order_fits_def casts)
  show "input_mp_mdexorder_string (CMPMetaDEx_saveOffer m) s = Some (case MetaDEx_INSERT m s of (new, s') \<Rightarrow> (if new then 0 else - 1, s'))"
    unfolding input_mp_mdexorder_string_def split list.case casts Option.bind.simps rec by (auto split: prod.split bool.split)
qed

text \<open>The book without empty price levels and properties, as it is after reading.\<close>

definition compact_prices :: "md_PricesMap \<Rightarrow> md_PricesMap" where
  "compact_prices prices = filter (\<lambda>(price, ms). ms \<noteq> []) prices"

definition compact_book :: "md_PropertiesMap \<Rightarrow> md_PropertiesMap" where
  "compact_book book = filter (\<lambda>(p, prices). prices \<noteq> []) (map (\<lambda>(p, prices). (p, compact_prices prices)) book)"

text \<open>A property whose price levels are all read is in the book only if there is one.\<close>

definition with_prices :: "md_PropertiesMap \<Rightarrow> property_id \<Rightarrow> md_PricesMap \<Rightarrow> md_PropertiesMap" where
  "with_prices B p ps = (if ps = [] then B else B @ [(p, ps)])"

definition with_level :: "md_PricesMap \<Rightarrow> rat \<Rightarrow> md_Set \<Rightarrow> md_PricesMap" where
  "with_level ps price ms = (if ms = [] then ps else ps @ [(price, ms)])"

lemma smap_upd_at_end: "\<forall>k \<in> fst ` set xs. k < (a :: 'a :: linorder) \<Longrightarrow> smap_upd a v (xs @ [(a, w)]) = xs @ [(a, v)]"
  by (induction xs) (auto simp: less_not_sym)

lemma map_of_at_end: "\<forall>k \<in> fst ` set xs. k < (a :: 'a :: linorder) \<Longrightarrow> map_of (xs @ [(a, w)]) a = Some w"
  using map_of_last [of xs a] by (simp add: map_add_def)

lemma set_insert_by_last: "\<forall>x \<in> set ms. MetaDEx_compare x m \<Longrightarrow> set_insert_by MetaDEx_compare m ms = ms @ [m]"
  by (induction ms) (auto simp: compare_key less_not_sym)

lemma insert_order:
  assumes B: "\<forall>k \<in> fst ` set B. k < md_property m" and ps: "\<forall>k \<in> fst ` set ps. k < unitPrice m" and ms: "\<forall>x \<in> set ms. md_key x < md_key m"
  shows "MetaDEx_INSERT m (s\<lparr>metadex := with_prices B (md_property m) (with_level ps (unitPrice m) ms)\<rparr>) =
    (True, s\<lparr>metadex := with_prices B (md_property m) (with_level ps (unitPrice m) (ms @ [m]))\<rparr>)"
proof -
  have "list_all (\<lambda>x. MetaDEx_compare x m \<or> MetaDEx_compare m x) ms" "set_insert_by MetaDEx_compare m ms = ms @ [m]"
    using ms set_insert_by_last [of ms m] by (auto simp: list_all_iff compare_key)
  then have ins: "md_insert m ms = (True, ms @ [m])" by (simp add: md_insert_def)
  have e: "md_insert m [] = (True, [m])" by (simp add: md_insert_def)
  note ends = map_of_last [OF B] map_of_last [OF ps] map_of_at_end [OF B] map_of_at_end [OF ps] smap_upd_at_end [OF B] smap_upd_at_end [OF ps]
    smap_upd_last [of B "(md_property m, v)" for v, simplified, OF B [simplified]] smap_upd_last [of ps "(unitPrice m, v)" for v, simplified, OF ps [simplified]]
  show ?thesis
    by (cases "ms = []"; cases "ps = []") (simp_all add: MetaDEx_INSERT_def get_Prices_def get_Indexes_def with_prices_def with_level_def ins e ends Let_def del: map_of_append)
qed

lemma level_read:
  assumes "\<forall>k \<in> fst ` set B. k < p" and "\<forall>k \<in> fst ` set ps. k < price" and "level_ok p price (ms1 @ ms2)" and "\<forall>m \<in> set ms2. order_fits m"
  shows "input_all FILETYPE_MDEXORDERS (map CMPMetaDEx_saveOffer ms2) (s\<lparr>metadex := with_prices B p (with_level ps price ms1)\<rparr>) =
    Some (s\<lparr>metadex := with_prices B p (with_level ps price (ms1 @ ms2))\<rparr>)"
  using assms(3,4)
proof (induction ms2 arbitrary: ms1)
  case (Cons m ms2)
  have m: "unitPrice m = price" "md_property m = p" "\<forall>x \<in> set ms1. md_key x < md_key m"
    using Cons.prems(1) by (auto simp: level_ok_def sorted_wrt_append)
  have "MetaDEx_INSERT m (s\<lparr>metadex := with_prices B p (with_level ps price ms1)\<rparr>) = (True, s\<lparr>metadex := with_prices B p (with_level ps price (ms1 @ [m]))\<rparr>)"
    using insert_order [of B m ps ms1 s] assms(1,2) m by simp
  then show ?case using Cons.IH [of "ms1 @ [m]"] Cons.prems by (simp add: input_line_def order_line(2))
qed simp

lemma compact_prices_snoc: "compact_prices (ps @ [(price, ms)]) = with_level (compact_prices ps) price ms"
  by (simp add: compact_prices_def with_level_def)

lemma compact_prices_keys: "fst ` set (compact_prices ps) \<subseteq> fst ` set ps"
  by (auto simp: compact_prices_def)

lemma prices_read:
  assumes "\<forall>k \<in> fst ` set B. k < p" and "smap_ok (ps1 @ ps2)" and "levels_ok p (ps1 @ ps2)" and "\<forall>m \<in> set (orders ps2). order_fits m"
  shows "input_all FILETYPE_MDEXORDERS (map CMPMetaDEx_saveOffer (orders ps2)) (s\<lparr>metadex := with_prices B p (compact_prices ps1)\<rparr>) =
    Some (s\<lparr>metadex := with_prices B p (compact_prices (ps1 @ ps2))\<rparr>)"
  using assms(2-4)
proof (induction ps2 arbitrary: ps1)
  case (Cons e ps2)
  obtain price ms where e: "e = (price, ms)" by (cases e)
  have "\<forall>k \<in> fst ` set ps1. k < price" using Cons.prems(1) e by (auto simp: smap_ok_def sorted_wrt_append)
  then have keys: "\<forall>k \<in> fst ` set (compact_prices ps1). k < price" using compact_prices_keys [of ps1] by blast
  have "level_ok p price ms" "\<forall>m \<in> set ms. order_fits m" using Cons.prems(2,3) e by (auto simp: levels_ok_def)
  with level_read [OF assms(1) keys, of "[]" ms s]
  have "input_all FILETYPE_MDEXORDERS (map CMPMetaDEx_saveOffer ms) (s\<lparr>metadex := with_prices B p (compact_prices ps1)\<rparr>) =
      Some (s\<lparr>metadex := with_prices B p (compact_prices (ps1 @ [e]))\<rparr>)"
    by (simp add: e compact_prices_snoc) (simp add: with_level_def)
  then show ?case using Cons.IH [of "ps1 @ [e]"] Cons.prems e by (simp add: input_all_append)
qed simp

lemma compact_book_snoc: "compact_book (B @ [(p, ps)]) = with_prices (compact_book B) p (compact_prices ps)"
  by (simp add: compact_book_def with_prices_def)

lemma compact_book_keys: "fst ` set (compact_book B) \<subseteq> fst ` set B"
  by (force simp: compact_book_def)

lemma book_read:
  assumes "book_ok (B1 @ B2)" and "\<forall>m \<in> set (book_orders B2). order_fits m"
  shows "input_all FILETYPE_MDEXORDERS (map CMPMetaDEx_saveOffer (book_orders B2)) (s\<lparr>metadex := compact_book B1\<rparr>) =
    Some (s\<lparr>metadex := compact_book (B1 @ B2)\<rparr>)"
  using assms
proof (induction B2 arbitrary: B1)
  case (Cons e B2)
  obtain p ps where e: "e = (p, ps)" by (cases e)
  have "\<forall>k \<in> fst ` set B1. k < p" using Cons.prems(1) e by (auto simp: book_ok_def smap_ok_def sorted_wrt_append)
  then have keys: "\<forall>k \<in> fst ` set (compact_book B1). k < p" using compact_book_keys [of B1] by blast
  have "smap_ok ps" "levels_ok p ps" "\<forall>m \<in> set (orders ps). order_fits m" using Cons.prems e by (auto simp: book_ok_def)
  with prices_read [OF keys, of "[]" ps s]
  have "input_all FILETYPE_MDEXORDERS (map CMPMetaDEx_saveOffer (orders ps)) (s\<lparr>metadex := compact_book B1\<rparr>) =
      Some (s\<lparr>metadex := compact_book (B1 @ [e])\<rparr>)"
    by (simp add: e compact_book_snoc) (simp add: with_prices_def compact_prices_def)
  then show ?case using Cons.IH [of "B1 @ [e]"] Cons.prems e by (simp add: input_all_append)
qed simp

lemma orders_restored:
  assumes "book_ok book" and "\<forall>m \<in> set (book_orders book). order_fits m"
  shows "\<forall>l \<in> set (write_mp_metadex (s\<lparr>metadex := book\<rparr>)). data_line l"
    and "input_all FILETYPE_MDEXORDERS (write_mp_metadex (s\<lparr>metadex := book\<rparr>)) (t\<lparr>metadex := []\<rparr>) = Some (t\<lparr>metadex := compact_book book\<rparr>)"
  using book_read [of "[]" book t] assms order_line(1) by (auto simp: write_mp_metadex_def compact_book_def)

subsection \<open>Balances\<close>

definition tally_fits :: "string \<times> CMPTally \<Rightarrow> bool" where
  "tally_fits e \<longleftrightarrow> plain (fst e) \<and> tally_ok (snd e) \<and> (\<forall>p \<in> fst ` set (mp_token (snd e)). 0 < p \<and> p < 4294967296)"

definition money_texts :: "CMPTally \<Rightarrow> property_id \<Rightarrow> string list" where
  "money_texts t p = map (\<lambda>ty. show_int (getMoney t p ty)) [BALANCE, SELLOFFER_RESERVE, ACCEPT_RESERVE, METADEX_RESERVE]"

text \<open>The tallies are consistent and hold no record of property 0, at which the loop over a tally would stop.\<close>

definition holdings_ok :: "'s ledger_scheme \<Rightarrow> bool" where
  "holdings_ok s \<longleftrightarrow> tallies_ok s \<and> (\<forall>(a, t) \<in> set (mp_tally_map s). 0 \<notin> fst ` set (mp_token t))"

lemma updateMoney_ids: "fst ` set (mp_token (snd (updateMoney p x ty t))) \<subseteq> insert p (fst ` set (mp_token t))"
proof -
  have "fst ` set (smap_upd p r m) \<subseteq> insert p (fst ` set m)" for r :: BalanceRecord and m
    using map_of_smap_upd [of p r m] dom_map_of_conv_image_fst [of "smap_upd p r m"] dom_map_of_conv_image_fst [of m] by (metis dom_fun_upd option.distinct(1) order_refl)
  then show ?thesis by (auto simp: updateMoney_def Let_def)
qed

lemma assert_update_holdings:
  assumes "holdings_ok s" and "p \<noteq> 0" and "assert_update a p x ty s = Some s'"
  shows "holdings_ok s'"
proof -
  have ok: "tallies_ok s" using assms(1) by (simp add: holdings_ok_def)
  have um: "umap_ok (mp_tally_map s)" using ok by (simp add: tallies_ok_def)
  have at: "0 \<notin> fst ` set (mp_token (tally_at s a))"
    using assms(1) by (auto simp: tally_at_def new_tally_def holdings_ok_def split: option.split dest!: map_of_SomeD)
  then have new: "0 \<notin> fst ` set (mp_token (snd (updateMoney p x ty (tally_at s a))))" using updateMoney_ids [of p x ty "tally_at s a"] assms(2) by auto
  have "(b, t) \<in> set (mp_tally_map s') \<Longrightarrow> if b = a then t = snd (updateMoney p x ty (tally_at s a)) else (b, t) \<in> set (mp_tally_map s)" for b t
    using assert_update_Some(5) [OF assms(3)] umap.member_upd [OF um] by simp
  then have "\<forall>(b, t) \<in> set (mp_tally_map s'). 0 \<notin> fst ` set (mp_token t)"
    using new assms(1) unfolding holdings_ok_def by (metis (mono_tags, lifting) case_prodD case_prodI2)
  then show ?thesis using assert_update_tallies [OF ok assms(3)] by (simp add: holdings_ok_def)
qed

lemma credit_if_ok:
  assumes "holdings_ok s" and "counted ty" and "0 \<le> x" and "x \<le> MAX_INT64" and "GetTokenBalance s a p ty = 0" and "p \<noteq> 0"
  obtains m where "credit_if a p x ty s = Some (s\<lparr>mp_tally_map := m\<rparr>)" and "holdings_ok (s\<lparr>mp_tally_map := m\<rparr>)"
    and "\<And>c q u. GetTokenBalance (s\<lparr>mp_tally_map := m\<rparr>) c q u = GetTokenBalance s c q u + (if c = a \<and> q = p \<and> u = ty then x else 0)"
proof (cases "x = 0")
  case True
  then show ?thesis using that [of "mp_tally_map s"] assms(1) by (simp add: credit_if_def)
next
  case False
  then have "update_fits (GetTokenBalance s a p ty) x ty" using assms by (auto simp: update_fits_def counted_def)
  then obtain s' where u: "assert_update a p x ty s = Some s'" using assert_update_iff [of s a p x ty] assms(1,3) by (auto simp: holdings_ok_def)
  obtain m where m: "s' = s\<lparr>mp_tally_map := m\<rparr>" using assert_update_frame [OF u] by auto
  have "credit_if a p x ty s = Some s'"
    using u False by (auto simp: credit_if_def assert_update_def split: option.splits bool.splits prod.splits bind_splits if_splits)
  then show ?thesis using that [of m] m assert_update_holdings [OF assms(1,6) u] assert_update_balance [OF u] by simp
qed

definition balance_body :: "CMPTally \<Rightarrow> property_id \<Rightarrow> string" where
  "balance_body t p = join CHR '':'' [show_nat p, join CHR '','' (money_texts t p)]"

lemma balance_text_body: "balance_text t p = balance_body t p @ '';''"
  by (simp add: balance_text_def balance_body_def money_texts_def join.simps)

lemma money_join:
  "c \<in> set (join CHR '','' (money_texts t p)) \<Longrightarrow> c \<notin> set '' =:;!#'' \<and> c \<noteq> CHR 0x0D" "join CHR '','' (money_texts t p) \<noteq> []"
  "split_any '','' (join CHR '','' (money_texts t p)) = money_texts t p"
proof -
  have f: "\<forall>x \<in> set (money_texts t p). field_ok x" by (simp add: money_texts_def)
  show "split_any '','' (join CHR '','' (money_texts t p)) = money_texts t p"
    using f by (intro split_join_any) (auto simp: money_texts_def field_ok_def)
  show "join CHR '','' (money_texts t p) \<noteq> []" using join_nonempty field_ok_show(2) by (auto simp: money_texts_def field_ok_def)
  assume c: "c \<in> set (join CHR '','' (money_texts t p))"
  from subsetD [OF set_join c] consider "c = CHR '',''" | x where "x \<in> set (money_texts t p)" "c \<in> set x" by auto
  then show "c \<notin> set '' =:;!#'' \<and> c \<noteq> CHR 0x0D"
  proof cases
    case 2
    then have "field_ok x" using f by simp
    then show ?thesis using 2(2) unfolding field_ok_def by auto
  qed simp
qed

lemma balance_body_chars: "balance_body t p \<noteq> []" "c \<in> set (balance_body t p) \<Longrightarrow> c \<notin> set '' =;!#'' \<and> c \<noteq> CHR 0x0D"
proof -
  show "balance_body t p \<noteq> []" by (simp add: balance_body_def join.simps)
  assume "c \<in> set (balance_body t p)"
  then consider "c \<in> set (show_nat p)" | "c = CHR '':''" | "c \<in> set (join CHR '','' (money_texts t p))" by (auto simp: balance_body_def join.simps)
  then show "c \<notin> set '' =;!#'' \<and> c \<noteq> CHR 0x0D"
  proof cases
    case 1
    then show ?thesis using field_ok_show(1) [of p] unfolding field_ok_def by auto
  next
    case 3
    then show ?thesis using money_join(1) [OF 3] by auto
  qed simp
qed

lemma balance_body_split: "split_any '':'' (balance_body t p) = [show_nat p, join CHR '','' (money_texts t p)]"
  unfolding balance_body_def
proof (rule split_join_any)
  have "c \<noteq> CHR '':''" if "c \<in> set (show_nat p)" for c using that field_ok_show(1) [of p] unfolding field_ok_def by auto
  moreover have "c \<noteq> CHR '':''" if "c \<in> set (join CHR '','' (money_texts t p))" for c using money_join(1) [OF that] by auto
  ultimately show "\<forall>u \<in> set [show_nat p, join CHR '','' (money_texts t p)]. u \<noteq> [] \<and> (\<forall>x \<in> set u. x \<notin> set '':'')"
    using money_join(2) [of t p] show_nat_digits [of p] by auto
qed simp_all

text \<open>Reading one property credits its four amounts.\<close>

definition adds :: "string \<Rightarrow> (property_id \<Rightarrow> bool) \<Rightarrow> CMPTally \<Rightarrow> 's ledger_scheme \<Rightarrow> 's ledger_scheme \<Rightarrow> bool" where
  "adds a ps t s s' \<longleftrightarrow> (\<forall>c q u. GetTokenBalance s' c q u = GetTokenBalance s c q u + (if c = a \<and> ps q \<and> counted u then getMoney t q u else 0))"

lemma counted_cases: "counted u \<longleftrightarrow> u = BALANCE \<or> u = SELLOFFER_RESERVE \<or> u = ACCEPT_RESERVE \<or> u = METADEX_RESERVE"
  by (cases u) (simp_all add: counted_def)

lemma property_read:
  assumes ok: "holdings_ok s" "tally_ok t" and zero: "\<forall>u. counted u \<longrightarrow> GetTokenBalance s a p u = 0" and p: "p < 4294967296" "p \<noteq> 0"
  obtains m where "input_properties a (balance_body t p # rest) s = input_properties a rest (s\<lparr>mp_tally_map := m\<rparr>)"
    and "holdings_ok (s\<lparr>mp_tally_map := m\<rparr>)" and "adds a (\<lambda>q. q = p) t s (s\<lparr>mp_tally_map := m\<rparr>)"
proof -
  have b: "0 \<le> getMoney t p u \<and> getMoney t p u \<le> MAX_INT64" if "counted u" for u
    using getMoney_nonneg [OF ok(2)] getMoney_le [OF ok(2)] that by (auto simp: counted_def)
  have casts: "lexical_cast_uint 32 (show_nat p) = Some p" "counted u \<Longrightarrow> lexical_cast_int 64 (show_int (getMoney t p u)) = Some (getMoney t p u)" for u
    using p(1) b [of u] by (simp_all add: casts int64_def)
  note c = counted_simps
  from credit_if_ok [OF ok(1) c(1), of "getMoney t p BALANCE" a p] b [OF c(1)] zero p(2) obtain m1 where
    m1: "credit_if a p (getMoney t p BALANCE) BALANCE s = Some (s\<lparr>mp_tally_map := m1\<rparr>)" "holdings_ok (s\<lparr>mp_tally_map := m1\<rparr>)"
      "\<And>c q u. GetTokenBalance (s\<lparr>mp_tally_map := m1\<rparr>) c q u = GetTokenBalance s c q u + (if c = a \<and> q = p \<and> u = BALANCE then getMoney t p BALANCE else 0)"
    by (auto simp: counted_def)
  from credit_if_ok [OF m1(2) c(2), of "getMoney t p SELLOFFER_RESERVE" a p] b [OF c(2)] zero p(2) m1(3) obtain m2 where
    m2: "credit_if a p (getMoney t p SELLOFFER_RESERVE) SELLOFFER_RESERVE (s\<lparr>mp_tally_map := m1\<rparr>) = Some (s\<lparr>mp_tally_map := m2\<rparr>)" "holdings_ok (s\<lparr>mp_tally_map := m2\<rparr>)"
      "\<And>c q u. GetTokenBalance (s\<lparr>mp_tally_map := m2\<rparr>) c q u = GetTokenBalance (s\<lparr>mp_tally_map := m1\<rparr>) c q u + (if c = a \<and> q = p \<and> u = SELLOFFER_RESERVE then getMoney t p SELLOFFER_RESERVE else 0)"
    by (auto simp: counted_def)
  from credit_if_ok [OF m2(2) c(3), of "getMoney t p ACCEPT_RESERVE" a p] b [OF c(3)] zero p(2) m1(3) m2(3) obtain m3 where
    m3: "credit_if a p (getMoney t p ACCEPT_RESERVE) ACCEPT_RESERVE (s\<lparr>mp_tally_map := m2\<rparr>) = Some (s\<lparr>mp_tally_map := m3\<rparr>)" "holdings_ok (s\<lparr>mp_tally_map := m3\<rparr>)"
      "\<And>c q u. GetTokenBalance (s\<lparr>mp_tally_map := m3\<rparr>) c q u = GetTokenBalance (s\<lparr>mp_tally_map := m2\<rparr>) c q u + (if c = a \<and> q = p \<and> u = ACCEPT_RESERVE then getMoney t p ACCEPT_RESERVE else 0)"
    by (auto simp: counted_def)
  from credit_if_ok [OF m3(2) c(4), of "getMoney t p METADEX_RESERVE" a p] b [OF c(4)] zero p(2) m1(3) m2(3) m3(3) obtain m4 where
    m4: "credit_if a p (getMoney t p METADEX_RESERVE) METADEX_RESERVE (s\<lparr>mp_tally_map := m3\<rparr>) = Some (s\<lparr>mp_tally_map := m4\<rparr>)" "holdings_ok (s\<lparr>mp_tally_map := m4\<rparr>)"
      "\<And>c q u. GetTokenBalance (s\<lparr>mp_tally_map := m4\<rparr>) c q u = GetTokenBalance (s\<lparr>mp_tally_map := m3\<rparr>) c q u + (if c = a \<and> q = p \<and> u = METADEX_RESERVE then getMoney t p METADEX_RESERVE else 0)"
    by (auto simp: counted_def)
  have "input_properties a (balance_body t p # rest) s = input_properties a rest (s\<lparr>mp_tally_map := m4\<rparr>)"
    using balance_body_chars(1) [of t p] casts m1(1) m2(1) m3(1) m4(1) money_join(3) [of t p]
    by (simp add: balance_body_split) (simp add: money_texts_def)
  moreover have "adds a (\<lambda>q. q = p) t s (s\<lparr>mp_tally_map := m4\<rparr>)" unfolding adds_def m4(3) m3(3) m2(3) m1(3) counted_cases by auto
  ultimately show ?thesis using that m4(2) by blast
qed

lemma properties_read:
  assumes "holdings_ok s" and "tally_ok t" and "\<forall>p u. p \<in> set ps \<longrightarrow> counted u \<longrightarrow> GetTokenBalance s a p u = 0" and "\<forall>p \<in> set ps. p < 4294967296 \<and> p \<noteq> 0" and "distinct ps"
  shows "\<exists>m. input_properties a (map (balance_body t) ps @ [[]]) s = Some (0, s\<lparr>mp_tally_map := m\<rparr>) \<and> holdings_ok (s\<lparr>mp_tally_map := m\<rparr>)
    \<and> adds a (\<lambda>q. q \<in> set ps) t s (s\<lparr>mp_tally_map := m\<rparr>)"
  using assms
proof (induction ps arbitrary: s)
  case Nil
  then show ?case by (intro exI [of _ "mp_tally_map s"]) (simp add: adds_def)
next
  case (Cons p ps)
  have "\<forall>u. counted u \<longrightarrow> GetTokenBalance s a p u = 0" "p < 4294967296" "p \<noteq> 0" using Cons.prems(3,4) by auto
  from property_read [OF Cons.prems(1,2) this, of "map (balance_body t) ps @ [[]]"] obtain m1 where
    m1: "input_properties a (map (balance_body t) (p # ps) @ [[]]) s = input_properties a (map (balance_body t) ps @ [[]]) (s\<lparr>mp_tally_map := m1\<rparr>)"
      "holdings_ok (s\<lparr>mp_tally_map := m1\<rparr>)" "adds a (\<lambda>q. q = p) t s (s\<lparr>mp_tally_map := m1\<rparr>)" by auto
  have "\<forall>q u. q \<in> set ps \<longrightarrow> counted u \<longrightarrow> GetTokenBalance (s\<lparr>mp_tally_map := m1\<rparr>) a q u = 0"
    using m1(3) Cons.prems(3,5) by (auto simp: adds_def)
  with Cons.IH [OF m1(2) Cons.prems(2)] Cons.prems(4,5) obtain m where
    m: "input_properties a (map (balance_body t) ps @ [[]]) (s\<lparr>mp_tally_map := m1\<rparr>) = Some (0, s\<lparr>mp_tally_map := m\<rparr>)" "holdings_ok (s\<lparr>mp_tally_map := m\<rparr>)"
      "adds a (\<lambda>q. q \<in> set ps) t (s\<lparr>mp_tally_map := m1\<rparr>) (s\<lparr>mp_tally_map := m\<rparr>)" by auto
  have "p \<notin> set ps" using Cons.prems(5) by simp
  then have "adds a (\<lambda>q. q \<in> set (p # ps)) t s (s\<lparr>mp_tally_map := m\<rparr>)" using m1(3) m(3) by (auto simp: adds_def)
  then show ?case using m1(1) m(1,2) by auto
qed

definition held_props :: "CMPTally \<Rightarrow> property_id list" where
  "held_props t = filter (\<lambda>p. \<not> empty_balance t p) (tally_ids t)"

lemma held_money:
  assumes "tally_fits (a, t)"
  shows "distinct (held_props t)" and "\<forall>p \<in> set (held_props t). p < 4294967296 \<and> p \<noteq> 0" and "counted u \<Longrightarrow> q \<notin> set (held_props t) \<Longrightarrow> getMoney t q u = 0"
proof -
  have ok: "tally_ok t" and zero: "0 \<notin> fst ` set (mp_token t)" and lt: "\<forall>p \<in> fst ` set (mp_token t). p < 4294967296"
    using assms by (auto simp: tally_fits_def)
  note ids = tally_ids_keys [OF ok zero]
  show "distinct (held_props t)" using smap_ok_distinct [of "mp_token t"] ok unfolding held_props_def ids tally_ok_def by (intro distinct_filter) blast
  have "set (held_props t) \<subseteq> fst ` set (mp_token t)" unfolding held_props_def ids by auto
  then show "\<forall>p \<in> set (held_props t). p < 4294967296 \<and> p \<noteq> 0" using lt zero by (metis subsetD)
  show "getMoney t q u = 0" if "counted u" "q \<notin> set (held_props t)"
  proof (cases "q \<in> fst ` set (mp_token t)")
    case True
    then show ?thesis using that unfolding held_props_def ids empty_balance_def counted_cases by auto
  next
    case False
    then have "map_of (mp_token t) q = None" by (simp add: map_of_eq_None_iff)
    then show ?thesis by (simp add: getMoney_def)
  qed
qed

lemma balance_line_text:
  assumes "held_props t \<noteq> []"
  shows "balance_line (a, t) = [a @ CHR ''='' # concat (map (\<lambda>x. x @ '';'') (map (balance_body t) (held_props t)))]"
proof -
  have "balance_text t = (\<lambda>p. balance_body t p @ '';'')" by (rule ext) (rule balance_text_body)
  then show ?thesis using assms by (simp add: balance_line_def held_props_def comp_def)
qed

lemma balance_line_read:
  assumes fits: "tally_fits (a, t)" and ok: "holdings_ok s" and zero: "\<forall>p u. counted u \<longrightarrow> GetTokenBalance s a p u = 0"
  shows "(\<forall>l \<in> set (balance_line (a, t)). data_line l)
    \<and> (\<exists>m. input_all FILETYPE_BALANCES (balance_line (a, t)) s = Some (s\<lparr>mp_tally_map := m\<rparr>) \<and> holdings_ok (s\<lparr>mp_tally_map := m\<rparr>)
         \<and> adds a (\<lambda>q. True) t s (s\<lparr>mp_tally_map := m\<rparr>))"
proof (cases "held_props t = []")
  case True
  have "adds a (\<lambda>q. True) t s s" using held_money(3) [OF fits] True by (simp add: adds_def)
  then show ?thesis using True ok by (intro conjI exI [of _ "mp_tally_map s"]) (simp_all add: balance_line_def held_props_def)
next
  case False
  let ?bodies = "map (balance_body t) (held_props t)"
  let ?v = "concat (map (\<lambda>x. x @ '';'') ?bodies)"
  have a: "plain a" and t: "tally_ok t" using fits by (simp_all add: tally_fits_def)
  have no: "CHR '';'' \<notin> set (balance_body t p)" "CHR ''='' \<notin> set (balance_body t p)" "CHR 0x0D \<notin> set (balance_body t p)" for p
    using balance_body_chars(2) [of "CHR '';''" t p] balance_body_chars(2) [of "CHR ''=''" t p] balance_body_chars(2) [of "CHR 0x0D" t p] by auto
  have bodies: "\<forall>x \<in> set ?bodies. x \<noteq> [] \<and> CHR '';'' \<notin> set x" using balance_body_chars(1) no(1) by auto
  have v: "?v \<noteq> []" "CHR ''='' \<notin> set ?v" "CHR 0x0D \<notin> set ?v" using False no(2,3) by auto
  have line: "balance_line (a, t) = [join CHR ''='' [a, ?v]]" using balance_line_text [OF False] by (simp add: join.simps)
  have split: "split_any ''='' (join CHR ''='' [a, ?v]) = [a, ?v]"
    using a v by (intro split_join_any) (auto simp: plain_def)
  have "data_line (join CHR ''='' [a, ?v])"
    using a v hd_in_set [of a] by (auto simp: data_line_def join.simps plain_def hd_append)
  moreover from properties_read [OF ok t, of "held_props t" a] zero held_money(1,2) [OF fits] obtain m where
    m: "input_properties a (?bodies @ [[]]) s = Some (0, s\<lparr>mp_tally_map := m\<rparr>)" "holdings_ok (s\<lparr>mp_tally_map := m\<rparr>)"
      "adds a (\<lambda>q. q \<in> set (held_props t)) t s (s\<lparr>mp_tally_map := m\<rparr>)" by auto
  have "input_all FILETYPE_BALANCES (balance_line (a, t)) s = Some (s\<lparr>mp_tally_map := m\<rparr>)"
    unfolding line input_all.simps input_line_def FILETYPES.case input_msc_balances_string_def split list.case split_terminated [OF bodies] m(1) by simp
  moreover have "adds a (\<lambda>q. True) t s (s\<lparr>mp_tally_map := m\<rparr>)" using m(3) held_money(3) [OF fits] by (auto simp: adds_def)
  ultimately show ?thesis using m(2) line by auto
qed

lemma balances_read:
  assumes "\<forall>e \<in> set es. tally_fits e" and "distinct (map fst es)" and "holdings_ok s" and "\<forall>a p u. a \<in> fst ` set es \<longrightarrow> counted u \<longrightarrow> GetTokenBalance s a p u = 0"
  shows "(\<forall>l \<in> set (concat (map balance_line es)). data_line l)
    \<and> (\<exists>m. input_all FILETYPE_BALANCES (concat (map balance_line es)) s = Some (s\<lparr>mp_tally_map := m\<rparr>) \<and> holdings_ok (s\<lparr>mp_tally_map := m\<rparr>)
         \<and> (\<forall>c q u. GetTokenBalance (s\<lparr>mp_tally_map := m\<rparr>) c q u = GetTokenBalance s c q u
              + (case map_of es c of None \<Rightarrow> 0 | Some t \<Rightarrow> if counted u then getMoney t q u else 0)))"
  using assms
proof (induction es arbitrary: s)
  case Nil
  then show ?case by (intro conjI exI [of _ "mp_tally_map s"]) simp_all
next
  case (Cons e es)
  obtain a t where e: "e = (a, t)" by (cases e)
  have zero: "\<forall>p u. counted u \<longrightarrow> GetTokenBalance s a p u = 0" using Cons.prems(4) e by auto
  have fits: "tally_fits (a, t)" using Cons.prems(1) e by simp
  from balance_line_read [OF fits Cons.prems(3) zero] obtain m1 where
    m1: "\<forall>l \<in> set (balance_line (a, t)). data_line l" "input_all FILETYPE_BALANCES (balance_line (a, t)) s = Some (s\<lparr>mp_tally_map := m1\<rparr>)"
      "holdings_ok (s\<lparr>mp_tally_map := m1\<rparr>)" "adds a (\<lambda>q. True) t s (s\<lparr>mp_tally_map := m1\<rparr>)" by auto
  have new: "a \<notin> fst ` set es" using Cons.prems(2) e by simp
  then have "\<forall>b p u. b \<in> fst ` set es \<longrightarrow> counted u \<longrightarrow> GetTokenBalance (s\<lparr>mp_tally_map := m1\<rparr>) b p u = 0"
    using Cons.prems(4) m1(4) by (auto simp: adds_def)
  with Cons.IH [OF _ _ m1(3)] Cons.prems(1,2) obtain m where
    m: "\<forall>l \<in> set (concat (map balance_line es)). data_line l"
      "input_all FILETYPE_BALANCES (concat (map balance_line es)) (s\<lparr>mp_tally_map := m1\<rparr>) = Some (s\<lparr>mp_tally_map := m\<rparr>)"
      "\<forall>c q u. GetTokenBalance (s\<lparr>mp_tally_map := m\<rparr>) c q u = GetTokenBalance (s\<lparr>mp_tally_map := m1\<rparr>) c q u
         + (case map_of es c of None \<Rightarrow> 0 | Some t \<Rightarrow> if counted u then getMoney t q u else 0)" "holdings_ok (s\<lparr>mp_tally_map := m\<rparr>)" by auto
  have "map_of es a = None" using new by (simp add: map_of_eq_None_iff)
  then have "\<forall>c q u. GetTokenBalance (s\<lparr>mp_tally_map := m\<rparr>) c q u = GetTokenBalance s c q u
      + (case map_of (e # es) c of None \<Rightarrow> 0 | Some t \<Rightarrow> if counted u then getMoney t q u else 0)"
    using m(3) m1(4) e by (auto simp: adds_def)
  moreover have "input_all FILETYPE_BALANCES (concat (map balance_line (e # es))) s = Some (s\<lparr>mp_tally_map := m\<rparr>)"
    using m1(2) m(2) e by (simp add: input_all_append)
  ultimately show ?case using m1(1) m(1,4) e by auto
qed

lemma balances_restored:
  assumes "umap_ok (mp_tally_map s)" and "\<forall>e \<in> set (mp_tally_map s). tally_fits e"
  obtains m where "\<forall>l \<in> set (write_msc_balances s). data_line l"
    and "input_all FILETYPE_BALANCES (write_msc_balances s) (t\<lparr>mp_tally_map := []\<rparr>) = Some (t\<lparr>mp_tally_map := m\<rparr>)"
    and "\<And>c q u. GetTokenBalance (t\<lparr>mp_tally_map := m\<rparr>) c q u = (if counted u then GetTokenBalance s c q u else 0)"
    and "holdings_ok (t\<lparr>mp_tally_map := m\<rparr>)"
proof -
  have "holdings_ok (t\<lparr>mp_tally_map := []\<rparr>)" by (simp add: holdings_ok_def tallies_ok_def umap_ok_def)
  moreover have zero: "GetTokenBalance (t\<lparr>mp_tally_map := []\<rparr>) c q u = 0" for c q u by (simp add: GetTokenBalance_def)
  ultimately obtain m where m: "\<forall>l \<in> set (write_msc_balances s). data_line l"
      "input_all FILETYPE_BALANCES (write_msc_balances s) (t\<lparr>mp_tally_map := []\<rparr>) = Some (t\<lparr>mp_tally_map := m\<rparr>)"
      "\<forall>c q u. GetTokenBalance (t\<lparr>mp_tally_map := m\<rparr>) c q u = (case map_of (mp_tally_map s) c of None \<Rightarrow> 0 | Some t \<Rightarrow> if counted u then getMoney t q u else 0)" "holdings_ok (t\<lparr>mp_tally_map := m\<rparr>)"
    using balances_read [OF assms(2), of "t\<lparr>mp_tally_map := []\<rparr>"] assms(1) by (auto simp: write_msc_balances_def umap_ok_def)
  have "GetTokenBalance (t\<lparr>mp_tally_map := m\<rparr>) c q u = (if counted u then GetTokenBalance s c q u else 0)" for c q u
    using m(3) by (auto simp: GetTokenBalance_def [of s] counted_def split: option.split)
  with that m(1,2,4) show ?thesis by blast
qed

subsection \<open>A state that was written is read back\<close>

definition persistable :: "'s node_state_scheme \<Rightarrow> bool" where
  "persistable s \<longleftrightarrow> umap_ok (mp_tally_map s) \<and> (\<forall>e \<in> set (mp_tally_map s). tally_fits e)
     \<and> smap_ok (my_offers s) \<and> (\<forall>e \<in> set (my_offers s). offer_fits e)
     \<and> smap_ok (my_accepts s) \<and> (\<forall>e \<in> set (my_accepts s). accept_fits e)
     \<and> smap_ok (my_crowds s) \<and> (\<forall>e \<in> set (my_crowds s). crowd_fits e)
     \<and> book_ok (metadex s) \<and> (\<forall>m \<in> set (book_orders (metadex s)). order_fits m)
     \<and> int64 (exodus_prev s) \<and> next_spid (pDbSpInfo s) < 4294967296 \<and> next_test_spid (pDbSpInfo s) < 4294967296"

text \<open>What the files keep of a state: the balances, reserves and everything else, but not the pending amounts.\<close>

definition same_saved :: "'s node_state_scheme \<Rightarrow> 's node_state_scheme \<Rightarrow> bool" where
  "same_saved s t \<longleftrightarrow> (\<forall>a p u. GetTokenBalance t a p u = (if counted u then GetTokenBalance s a p u else 0))
     \<and> my_offers t = my_offers s \<and> my_accepts t = my_accepts s \<and> my_crowds t = my_crowds s \<and> metadex t = compact_book (metadex s)
     \<and> exodus_prev t = exodus_prev s \<and> next_spid (pDbSpInfo t) = next_spid (pDbSpInfo s) \<and> next_test_spid (pDbSpInfo t) = next_test_spid (pDbSpInfo s)"

text \<open>The files of a block hold the lines of a state.\<close>

definition files_of :: "(string \<Rightarrow> string) \<Rightarrow> nat \<Rightarrow> 's node_state_scheme \<Rightarrow> 's node_state_scheme \<Rightarrow> bool" where
  "files_of sha256 h s t \<longleftrightarrow> (\<forall>what. \<exists>ls. state_lines what s = Some ls
     \<and> map_of (stateFiles t) (what, h) = Some (ls @ [CHR ''!'' # file_hash sha256 (concat ls)]))"

lemma files_of_D: "files_of sha256 h s t \<Longrightarrow> state_lines what s = Some ls \<Longrightarrow> map_of (stateFiles t) (what, h) = Some (ls @ [CHR ''!'' # file_hash sha256 (concat ls)])"
  unfolding files_of_def by (metis option.inject)

lemma files_restored:
  assumes p: "persistable s" and f: "files_of sha256 h s t"
  shows "\<exists>m. restore_files sha256 h all_filetypes t = Some (0, t\<lparr>mp_tally_map := m, my_offers := my_offers s, my_accepts := my_accepts s, exodus_prev := exodus_prev s,
      pDbSpInfo := init_spids (next_spid (pDbSpInfo s)) (next_test_spid (pDbSpInfo s)) (pDbSpInfo t), my_crowds := my_crowds s, metadex := compact_book (metadex s)\<rparr>)
    \<and> (\<forall>c q u. GetTokenBalance (t\<lparr>mp_tally_map := m\<rparr>) c q u = (if counted u then GetTokenBalance s c q u else 0)) \<and> holdings_ok (t\<lparr>mp_tally_map := m\<rparr>)"
proof -
  note D = files_of_D [OF f]
  from p obtain m where m: "\<forall>l \<in> set (write_msc_balances s). data_line l"
      "input_all FILETYPE_BALANCES (write_msc_balances s) (t\<lparr>mp_tally_map := []\<rparr>) = Some (t\<lparr>mp_tally_map := m\<rparr>)"
      "\<And>c q u. GetTokenBalance (t\<lparr>mp_tally_map := m\<rparr>) c q u = (if counted u then GetTokenBalance s c q u else 0)" "holdings_ok (t\<lparr>mp_tally_map := m\<rparr>)"
    by (auto simp: persistable_def intro: balances_restored [of s t])
  define t1 where "t1 = t\<lparr>mp_tally_map := m\<rparr>"
  have 1: "RestoreInMemoryState sha256 h FILETYPE_BALANCES True t = Some (0, t1)"
    using D [of FILETYPE_BALANCES] m(1,2) by (intro restore_written) (simp_all add: state_lines_def clear_kind_def t1_def)
  define t2 where "t2 = t1\<lparr>my_offers := my_offers s\<rparr>"
  have 2: "RestoreInMemoryState sha256 h FILETYPE_OFFERS True t1 = Some (0, t2)"
    using D [of FILETYPE_OFFERS] offers_restored(1) [of "my_offers s" s] offers_restored(2) [of "my_offers s" s t1] p
    by (intro restore_written) (simp_all add: state_lines_def clear_kind_def t1_def t2_def persistable_def)
  define t3 where "t3 = t2\<lparr>my_accepts := my_accepts s\<rparr>"
  obtain ls where ls: "write_mp_accepts s = Some ls" "\<forall>l \<in> set ls. data_line l"
      "input_all FILETYPE_ACCEPTS ls (t2\<lparr>my_accepts := []\<rparr>) = Some (t2\<lparr>my_accepts := my_accepts s\<rparr>)"
    using accepts_restored [of "my_accepts s" s t2] p by (auto simp: persistable_def)
  have 3: "RestoreInMemoryState sha256 h FILETYPE_ACCEPTS True t2 = Some (0, t3)"
    using D [of FILETYPE_ACCEPTS ls] ls by (intro restore_written) (simp_all add: state_lines_def clear_kind_def t1_def t2_def t3_def)
  define t4 where "t4 = t3\<lparr>exodus_prev := exodus_prev s, pDbSpInfo := init_spids (next_spid (pDbSpInfo s)) (next_test_spid (pDbSpInfo s)) (pDbSpInfo t3)\<rparr>"
  have 4: "RestoreInMemoryState sha256 h FILETYPE_GLOBALS True t3 = Some (0, t4)"
    using D [of FILETYPE_GLOBALS] globals_restored(1) [of s] globals_restored(2) [of s t3] p
    by (intro restore_written) (simp_all add: state_lines_def clear_kind_def t1_def t2_def t3_def t4_def persistable_def)
  define t5 where "t5 = t4\<lparr>my_crowds := my_crowds s\<rparr>"
  have 5: "RestoreInMemoryState sha256 h FILETYPE_CROWDSALES True t4 = Some (0, t5)"
    using D [of FILETYPE_CROWDSALES] crowds_restored(1) [of "my_crowds s" s] crowds_restored(2) [of "my_crowds s" s t4] p
    by (intro restore_written) (simp_all add: state_lines_def clear_kind_def t1_def t2_def t3_def t4_def t5_def persistable_def)
  define t6 where "t6 = t5\<lparr>metadex := compact_book (metadex s)\<rparr>"
  have 6: "RestoreInMemoryState sha256 h FILETYPE_MDEXORDERS True t5 = Some (0, t6)"
    using D [of FILETYPE_MDEXORDERS] orders_restored(1) [of "metadex s" s] orders_restored(2) [of "metadex s" s t5] p
    by (intro restore_written) (simp_all add: state_lines_def clear_kind_def t1_def t2_def t3_def t4_def t5_def t6_def persistable_def)
  have "restore_files sha256 h all_filetypes t = Some (0, t6)" by (simp add: all_filetypes_def 1 2 3 4 5 6)
  then show ?thesis using m(3,4) by (auto simp: t6_def t5_def t4_def t3_def t2_def t1_def)
qed

lemma state_lines_files [simp]: "state_lines what (s\<lparr>stateFiles := f\<rparr>) = state_lines what s"
  by (cases what) (simp_all add: state_lines_def write_msc_balances_def write_mp_offers_def write_mp_accepts_def write_globals_state_def write_mp_crowdsales_def write_mp_metadex_def)

lemma write_files_ok:
  assumes "\<forall>w \<in> set ws. \<exists>ls. state_lines w s = Some ls"
  shows "\<exists>F. write_files sha256 b ws (s\<lparr>stateFiles := f\<rparr>) = Some (s\<lparr>stateFiles := F\<rparr>)
    \<and> (\<forall>w h. map_of F (w, h) = (if w \<in> set ws \<and> h = bi_hash b then
         map_option (\<lambda>ls. ls @ [CHR ''!'' # file_hash sha256 (concat ls)]) (state_lines w s) else map_of f (w, h)))"
  using assms
proof (induction ws arbitrary: f)
  case Nil
  then show ?case by (intro exI [of _ f]) simp
next
  case (Cons w ws)
  from Cons.prems obtain ls where ls: "state_lines w s = Some ls" by auto
  let ?f = "umap_upd (w, bi_hash b) (ls @ [CHR ''!'' # file_hash sha256 (concat ls)]) f"
  from Cons.IH [of ?f] Cons.prems obtain F where F: "write_files sha256 b ws (s\<lparr>stateFiles := ?f\<rparr>) = Some (s\<lparr>stateFiles := F\<rparr>)"
      "\<forall>w h. map_of F (w, h) = (if w \<in> set ws \<and> h = bi_hash b then
         map_option (\<lambda>ls. ls @ [CHR ''!'' # file_hash sha256 (concat ls)]) (state_lines w s) else map_of ?f (w, h))" by auto
  show ?case using F ls by (intro exI [of _ F]) (auto simp: write_state_file_def map_of_umap_upd)
qed

lemma all_filetypes_set: "w \<in> set all_filetypes"
  by (cases w) (simp_all only: all_filetypes_def, simp_all)

lemma persistable_lines: "persistable s \<Longrightarrow> \<exists>ls. state_lines what s = Some ls"
proof -
  assume "persistable s"
  then have "smap_ok (my_accepts s)" "\<forall>e \<in> set (my_accepts s). accept_fits e" by (simp_all add: persistable_def)
  from accepts_restored [OF this, of s s] obtain ls where "write_mp_accepts (s\<lparr>my_accepts := my_accepts s\<rparr>) = Some ls" by blast
  then have "write_mp_accepts s = Some ls" by simp
  then show ?thesis by (cases what) (simp_all add: state_lines_def)
qed

lemma map_of_filter_key: "P k \<Longrightarrow> map_of (filter (\<lambda>(k, v). P k) xs) k = map_of xs k"
  by (induction xs) auto

lemma PersistInMemoryState_files:
  assumes "persistable s" and "mapBlockIndex s (bi_hash b) = Some b"
  obtains F where "PersistInMemoryState sha256 b s = Some (s\<lparr>stateFiles := F, pDbSpInfo := setWatermark (bi_hash b) (pDbSpInfo s)\<rparr>)"
    and "\<And>t. stateFiles t = F \<Longrightarrow> files_of sha256 (bi_hash b) s t"
proof -
  from write_files_ok [of all_filetypes s sha256 b "stateFiles s"] persistable_lines [OF assms(1)] obtain F where
    F: "write_files sha256 b all_filetypes s = Some (s\<lparr>stateFiles := F\<rparr>)"
      "\<forall>w. map_of F (w, bi_hash b) = map_option (\<lambda>ls. ls @ [CHR ''!'' # file_hash sha256 (concat ls)]) (state_lines w s)"
    by (auto simp: all_filetypes_set)
  let ?F = "filter (\<lambda>((what, h), _). \<not> prunable b (s\<lparr>stateFiles := F\<rparr>) h) F"
  have keep: "\<not> prunable b (s\<lparr>stateFiles := F\<rparr>) (bi_hash b)" using assms(2) by (simp add: prunable_def)
  have "map_of ?F (w, bi_hash b) = map_of F (w, bi_hash b)" for w
    using map_of_filter_key [of "\<lambda>k. \<not> prunable b (s\<lparr>stateFiles := F\<rparr>) (snd k)" "(w, bi_hash b)" F] keep by (simp add: case_prod_beta split_def)
  then have "files_of sha256 (bi_hash b) s t" if "stateFiles t = ?F" for t :: "'a node_state_scheme"
    using F(2) persistable_lines [OF assms(1)] that unfolding files_of_def by force
  moreover have "PersistInMemoryState sha256 b s = Some (s\<lparr>stateFiles := ?F, pDbSpInfo := setWatermark (bi_hash b) (pDbSpInfo s)\<rparr>)"
    by (simp add: PersistInMemoryState_def F(1) prune_state_files_def)
  ultimately show ?thesis using that by blast
qed

lemma restore_newest:
  assumes p: "persistable s" and f: "files_of sha256 (bi_hash b) s t"
    and index: "mapBlockIndex t (bi_hash b) = Some b" and active: "chain_contains t b" and genesis: "GENESIS_BLOCK (consensusParams t) \<le> bi_height b"
    and mark: "getWatermark (pDbSpInfo t) = Some (bi_hash b)"
  shows "\<exists>t'. LoadMostRelevantInMemoryState sha256 t = Some (bi_height b, t') \<and> same_saved s t' \<and> holdings_ok t'
    \<and> pDbSpInfo t' = init_spids (next_spid (pDbSpInfo s)) (next_test_spid (pDbSpInfo s)) (pDbSpInfo t)"
proof -
  have roll: "roll_back_sp (Some b) t = Some (Inr (Some b, t))" using active by (subst roll_back_sp.simps) simp
  obtain ls where "map_of (stateFiles t) (FILETYPE_BALANCES, bi_hash b) = Some ls" using f unfolding files_of_def by blast
  then have "((FILETYPE_BALANCES, bi_hash b), ls) \<in> set (stateFiles t)" by (rule map_of_SomeD)
  then have "bi_hash b \<in> snd ` fst ` set (stateFiles t)" by (metis fst_conv image_eqI snd_conv)
  then have mem: "bi_hash b \<in> set (persisted_blocks t)" using index active by (auto simp: persisted_blocks_def image_image)
  from files_restored [OF p f] obtain m where
    m: "restore_files sha256 (bi_hash b) all_filetypes t = Some (0, t\<lparr>mp_tally_map := m, my_offers := my_offers s, my_accepts := my_accepts s, exodus_prev := exodus_prev s,
        pDbSpInfo := init_spids (next_spid (pDbSpInfo s)) (next_test_spid (pDbSpInfo s)) (pDbSpInfo t), my_crowds := my_crowds s, metadex := compact_book (metadex s)\<rparr>)" (is "_ = Some (0, ?t)")
      "\<forall>c q u. GetTokenBalance (t\<lparr>mp_tally_map := m\<rparr>) c q u = (if counted u then GetTokenBalance s c q u else 0)" "holdings_ok (t\<lparr>mp_tally_map := m\<rparr>)" by auto
  have ne: "persisted_blocks t \<noteq> []" using mem by auto
  have above: "\<not> (persisted_blocks t = [] \<or> \<not> bi_height b > GENESIS_BLOCK (consensusParams t) - 1)" using ne genesis by simp
  have "find_state sha256 (GENESIS_BLOCK (consensusParams t) - 1) (Some b) (persisted_blocks t) t = Some (bi_height b, ?t)"
    by (subst find_state.simps) (simp only: option.case above if_False if_True mem m(1) Option.bind.simps prod.case order_refl)
  then have "LoadMostRelevantInMemoryState sha256 t = Some (bi_height b, ?t)"
    by (simp add: LoadMostRelevantInMemoryState_def mark index roll)
  moreover have "GetTokenBalance ?t c q u = GetTokenBalance (t\<lparr>mp_tally_map := m\<rparr>) c q u" for c q u by (simp add: GetTokenBalance_def)
  then have "same_saved s ?t" using m(2) by (simp add: same_saved_def init_spids_def)
  moreover have "holdings_ok ?t" using m(3) by (simp add: holdings_ok_def tallies_ok_def)
  moreover have "pDbSpInfo ?t = init_spids (next_spid (pDbSpInfo s)) (next_test_spid (pDbSpInfo s)) (pDbSpInfo t)" by simp
  ultimately show ?thesis by blast
qed

lemma restore_after_persist:
  fixes s t :: "'s node_state_scheme"
  assumes "persistable s" and "mapBlockIndex s (bi_hash b) = Some b" and "chainActive s (bi_height b) = Some (bi_hash b)" and "GENESIS_BLOCK (consensusParams s) \<le> bi_height b"
    and "PersistInMemoryState sha256 b s = Some s1"
    and "stateFiles t = stateFiles s1" and "mapBlockIndex t = mapBlockIndex s1" and "chainActive t = chainActive s1"
    and "consensusParams t = consensusParams s1" and "getWatermark (pDbSpInfo t) = getWatermark (pDbSpInfo s1)"
  shows "\<exists>t'. LoadMostRelevantInMemoryState sha256 t = Some (bi_height b, t') \<and> same_saved s t' \<and> holdings_ok t'
    \<and> pDbSpInfo t' = init_spids (next_spid (pDbSpInfo s)) (next_test_spid (pDbSpInfo s)) (pDbSpInfo t)"
proof -
  obtain F where F: "PersistInMemoryState sha256 b s = Some (s\<lparr>stateFiles := F, pDbSpInfo := setWatermark (bi_hash b) (pDbSpInfo s)\<rparr>)"
      "\<And>t :: 's node_state_scheme. stateFiles t = F \<Longrightarrow> files_of sha256 (bi_hash b) s t" using PersistInMemoryState_files [OF assms(1,2)] by blast
  have s1: "s1 = s\<lparr>stateFiles := F, pDbSpInfo := setWatermark (bi_hash b) (pDbSpInfo s)\<rparr>" using assms(5) F(1) by simp
  show ?thesis
  proof (rule restore_newest [OF assms(1)])
    show "files_of sha256 (bi_hash b) s t" using F(2) assms(6) s1 by simp
    show "mapBlockIndex t (bi_hash b) = Some b" using assms(2,7) s1 by simp
    show "chain_contains t b" using assms(3,8) s1 by (simp add: chain_contains_def)
    show "GENESIS_BLOCK (consensusParams t) \<le> bi_height b" using assms(4,9) s1 by simp
    show "getWatermark (pDbSpInfo t) = Some (bi_hash b)" using assms(10) s1 by (simp add: getWatermark_def setWatermark_def)
  qed
qed

text \<open>
  \<^bold>\<open>C7\<close>. A saved state is restored. Let the state of a node be written after a block of the active chain. Whatever happens to the state in memory afterwards, as long as the files, the block index and the watermark
  of the property database are as the save left them, loading the most relevant state returns the height of the block and brings back every balance and reserve, all offers, accepts and crowdsales,
  the order book (without empty price levels), the development tokens and the next property identifiers. Pending amounts are cleared.
\<close>

theorem persist_restore:
  fixes s t :: node_state
  assumes "persistable s" and "mapBlockIndex s (bi_hash b) = Some b" and "chainActive s (bi_height b) = Some (bi_hash b)" and "GENESIS_BLOCK (consensusParams s) \<le> bi_height b"
    and "PersistInMemoryState sha256 b s = Some s1"
    and "stateFiles t = stateFiles s1" and "mapBlockIndex t = mapBlockIndex s1" and "chainActive t = chainActive s1"
    and "consensusParams t = consensusParams s1" and "getWatermark (pDbSpInfo t) = getWatermark (pDbSpInfo s1)"
  shows "\<exists>t'. LoadMostRelevantInMemoryState sha256 t = Some (bi_height b, t') \<and> same_saved s t'"
  using restore_after_persist [OF assms] by blast

definition sample_block :: CBlockIndex where
  "sample_block = \<lparr>bi_hash = 77, bi_height = 2000000, bi_time = 1600000000, bi_pprev = None\<rparr>"

definition sample_saved_offer :: CMPOffer where
  "sample_saved_offer = \<lparr>offerBlock = 1900000, offer_amount_original = 30, offer_property = 1, offer_RPD_desired = 600, offer_min_fee = 10, offer_blocktimelimit = 20,
     offer_txid = 5, offer_subaction = 0\<rparr>"

definition sample_node :: node_state where
  "sample_node = (tx_state.extend sample_txs (node_state.fields 5 [] (\<lambda>h. if h = 77 then Some sample_block else None) [] [] [] [] [] \<lparr>cacheCoins = [], cache_hashBlock = 0\<rparr> 0 0 0))
     \<lparr>my_offers := [(STR_SELLOFFER_ADDR_PROP_COMBO ''alice'' 1, sample_saved_offer)], my_accepts := [], my_crowds := [], chainActive := (\<lambda>h. if h = 2000000 then Some 77 else None)\<rparr>"

lemma sample_node_fields:
  "mp_tally_map sample_node = [(''alice'', holder 1 100), (''bob'', holder 1 50)]" "my_offers sample_node = [(STR_SELLOFFER_ADDR_PROP_COMBO ''alice'' 1, sample_saved_offer)]"
  "my_accepts sample_node = []" "my_crowds sample_node = []" "metadex sample_node = []" "exodus_prev sample_node = 5" "pDbSpInfo sample_node = new_spinfo ''exodus''"
  "mapBlockIndex sample_node 77 = Some sample_block" "chainActive sample_node 2000000 = Some 77" "consensusParams sample_node = CMainConsensusParams"
  "setFrozenAddresses sample_node = []" "pDbFeeCache sample_node = []" "my_pending sample_node = []" "reorgRecoveryMode sample_node = 0" "nWaterlineBlock sample_node = 0"
  by (simp_all add: sample_node_def sample_txs_def sample_mdex_def sample_dex_def sample_rules_def sample_crowds_def dex_state.defs rules_state.defs crowd_state.defs
      fee_state.defs mdex_state.defs tx_state.defs node_state.defs)

lemma sample_node_persistable: "persistable sample_node"
proof -
  have "tally_fits (''alice'', holder 1 100)" "tally_fits (''bob'', holder 1 50)" 
    by (auto simp: tally_fits_def plain_def holder_def tally_ok_def smap_ok_def record_ok_def zero_record_def)
  moreover have "offer_fits (STR_SELLOFFER_ADDR_PROP_COMBO ''alice'' 1, sample_saved_offer)"
    unfolding offer_fits_def by (intro conjI exI [of _ "''alice''"]) (simp_all add: sample_saved_offer_def int32_def int64_def plain_def)
  ultimately show ?thesis
    by (simp add: persistable_def sample_node_fields umap_ok_def smap_ok_def book_ok_def int64_def new_spinfo_def init_spids_def)
qed

theorem persist_restore_witness:
  "\<exists>s1 t'. PersistInMemoryState (\<lambda>x. x) sample_block sample_node = Some s1
     \<and> LoadMostRelevantInMemoryState (\<lambda>x. x) (s1\<lparr>mp_tally_map := [], my_offers := [], exodus_prev := 0\<rparr>) = Some (2000000, t')
     \<and> GetTokenBalance t' ''alice'' 1 BALANCE = 100 \<and> my_offers t' = [(STR_SELLOFFER_ADDR_PROP_COMBO ''alice'' 1, sample_saved_offer)] \<and> exodus_prev t' = 5"
proof -
  have index: "mapBlockIndex sample_node (bi_hash sample_block) = Some sample_block" "chainActive sample_node (bi_height sample_block) = Some (bi_hash sample_block)"
    "GENESIS_BLOCK (consensusParams sample_node) \<le> bi_height sample_block" by (simp_all add: sample_node_fields CMainConsensusParams_def) (simp_all add: sample_block_def sample_node_fields)
  from PersistInMemoryState_files [OF sample_node_persistable index(1), of "\<lambda>x. x"] obtain s1 where
    s1: "PersistInMemoryState (\<lambda>x. x) sample_block sample_node = Some s1" by blast
  from persist_restore [OF sample_node_persistable index s1, of "s1\<lparr>mp_tally_map := [], my_offers := [], exodus_prev := 0\<rparr>"] obtain t' where
    t': "LoadMostRelevantInMemoryState (\<lambda>x. x) (s1\<lparr>mp_tally_map := [], my_offers := [], exodus_prev := 0\<rparr>) = Some (2000000, t')" "same_saved sample_node t'"
    by (auto simp: sample_block_def)
  have "GetTokenBalance sample_node ''alice'' 1 BALANCE = 100" by (simp add: GetTokenBalance_def sample_node_fields)
  then show ?thesis using s1 t' by (auto simp: same_saved_def sample_node_fields)
qed

end
