(* ===== verification/Handlers.thy ===== *)
theory Handlers
  imports Persistence
begin

text \<open>
  The handlers of the token layer, \<^verbatim>\<open>src/src/tokencore/tokencore.cpp\<close>, with pending transactions (\<^verbatim>\<open>pending.cpp\<close>), the seed block filter
  (\<^verbatim>\<open>seedblocks.cpp\<close>) and the loaders of \<^verbatim>\<open>dbtxlist.cpp\<close>: what is done for every transaction, at the beginning and at the end of every block,
  when blocks are disconnected, and when the node starts.

  The calls that earlier theories keep as lists are written to the databases here, when the handler of the transaction ends. The environment has what other parts of the
  node supply: blocks, transactions with their block, the memory pool, options, and the value of \<^verbatim>\<open>pow(0.5, x)\<close>. Logging, signals to the user interface and the
  totals of the wallet are left out. \<open>None\<close> means that an assertion failed, that an exception leaves the handler, that a loop does not return, or that the
  behaviour of the code is undefined (a null pointer, an iterator of an erased element).
\<close>

record node_env =
  parseEnv :: parse_env
  txEnv :: tx_env
  rawTransaction :: CMPTransaction \<comment> \<open>what a new object holds where its constructor sets nothing\<close>
  powHalf :: "double \<Rightarrow> double"
  mempoolTxids :: "nat list"
  activeHeight :: int \<comment> \<open>\<^verbatim>\<open>GetHeight()\<close>\<close>
  readBlock :: "nat \<Rightarrow> CTransaction list option" \<comment> \<open>\<^verbatim>\<open>ReadBlockFromDisk\<close>, by the hash of the block\<close>
  transactionWithBlock :: "nat \<Rightarrow> (CTransaction \<times> nat) option" \<comment> \<open>with the hash of its block, 0 when it has none\<close>
  shutdownSignal :: "int \<Rightarrow> bool" \<comment> \<open>a request from outside, seen at a block of the scan\<close>
  mainNetwork :: bool
  seedBlockFilterEnabled :: bool
  networkParams :: CConsensusParams \<comment> \<open>of the network of the node, as they are constructed\<close>
  startClean :: bool \<comment> \<open>\<^verbatim>\<open>-startclean\<close>, and the files could be removed\<close>
  fReindex :: bool

record handler_state = node_state +
  mastercoreInitialized :: nat
  setMarkerCache :: "nat list" \<comment> \<open>\<^verbatim>\<open>std::set\<close>\<close>

subsection \<open>Pending transactions\<close>

definition PendingAdd :: "nat \<Rightarrow> string \<Rightarrow> nat \<Rightarrow> property_id \<Rightarrow> int \<Rightarrow> bool \<Rightarrow> 's node_state_scheme \<Rightarrow> 's node_state_scheme option" where
  "PendingAdd txid sendingAddress type propertyId amount fSubtract s =
     (if type = 80 \<and> propertyId = 0 then Some s
      else do {
        (updated, s1) \<leftarrow> (if fSubtract then update_tally_map sendingAddress propertyId (s64 (- amount)) PENDING s else Some (True, s));
        if \<not> updated then Some s1
        else Some (s1\<lparr>my_pending := smap_insert txid \<lparr>pend_src = sendingAddress, pend_prop = propertyId, pend_amount = amount, pend_type = type\<rparr> (my_pending s1)\<rparr>)
      })"

definition PendingDelete :: "nat \<Rightarrow> 's node_state_scheme \<Rightarrow> 's node_state_scheme option" where
  "PendingDelete txid s =
     (case map_of (my_pending s) txid of
        None \<Rightarrow> Some s
      | Some pending \<Rightarrow> do {
          let src_amount = GetTokenBalance s (pend_src pending) (pend_prop pending) PENDING;
          (_, s1) \<leftarrow> (if src_amount \<noteq> 0 then update_tally_map (pend_src pending) (pend_prop pending) (pend_amount pending) PENDING s else Some (True, s));
          Some (s1\<lparr>my_pending := smap_del txid (my_pending s1)\<rparr>)
        })"

text \<open>The loop increments its iterator after \<^verbatim>\<open>PendingDelete\<close> erased the element it points to.\<close>

fun pending_loop :: "nat list \<Rightarrow> (nat \<times> CMPPending) list \<Rightarrow> 's node_state_scheme \<Rightarrow> 's node_state_scheme option" where
  "pending_loop vecMemPoolTxids [] s = Some s"
| "pending_loop vecMemPoolTxids ((txid, _) # it) s = (if txid \<notin> set vecMemPoolTxids then None else pending_loop vecMemPoolTxids it s)"

definition PendingCheck :: "nat list \<Rightarrow> 's node_state_scheme \<Rightarrow> 's node_state_scheme option" where
  "PendingCheck vecMemPoolTxids s = pending_loop vecMemPoolTxids (my_pending s) s"

subsection \<open>The reward of the Exodus address\<close>

text \<open>\<^verbatim>\<open>1 - p\<close> for a double that is at most 1.\<close>

definition double_one_minus :: "double \<Rightarrow> double" where
  "double_one_minus p = (case p of (m, e) \<Rightarrow>
     if e \<ge> 0 then double_ratio (1 - m * 2 ^ nat e) 1 else let (m', e') = double_ratio (2 ^ nat (- e) - m) 1 in (m', e' + e))"

abbreviation all_reward :: int where "all_reward \<equiv> 5631623576222"

definition devmsc_at :: "(double \<Rightarrow> double) \<Rightarrow> int \<Rightarrow> int" where
  "devmsc_at pow_half nTime =
     (let years = double_div (double_of_uint64 (nTime - 1377993874)) (double_of_uint64 31556926);
          part_available = double_one_minus (pow_half years)
      in s64 (rounduint64 (double_mult (double_of_uint64 all_reward) part_available)))"

definition calculate_and_update_devmsc :: "node_env \<Rightarrow> int \<Rightarrow> int \<Rightarrow> 's node_state_scheme \<Rightarrow> (int \<times> 's node_state_scheme) option" where
  "calculate_and_update_devmsc env nTime block s =
     (if nTime < 1377993874 then Some (0, s)
      else do {
        let devmsc = devmsc_at (powHalf env) nTime;
        let exodus_delta = s64 (devmsc - exodus_prev s);
        if 0 > exodus_delta then Some (0, s)
        else if devmsc > all_reward \<or> 0 > devmsc then Some (0, s)
        else do {
          s1 \<leftarrow> (if exodus_delta > 0 then do {
                 (_, s1) \<leftarrow> update_tally_map (exodus_address (parseEnv env)) 1 exodus_delta BALANCE s;
                 Some (s1\<lparr>exodus_prev := devmsc\<rparr>)
               } else Some s);
          s2 \<leftarrow> NotifyTotalTokensChanged 1 block s1;
          Some (exodus_delta, s2)
        }
      })"

subsection \<open>Markers of transactions\<close>

definition TryToAddToMarkerCache :: "node_env \<Rightarrow> CTransaction \<Rightarrow> 's handler_state_scheme \<Rightarrow> 's handler_state_scheme" where
  "TryToAddToMarkerCache env tx s =
     (if HasMarkerUnsafe (\<not> nonMainNet (parseEnv env)) tx then s\<lparr>setMarkerCache := sset_insert (tx_hash tx) (setMarkerCache s)\<rparr> else s)"

definition RemoveFromMarkerCache :: "CTransaction \<Rightarrow> 's handler_state_scheme \<Rightarrow> 's handler_state_scheme" where
  "RemoveFromMarkerCache tx s = s\<lparr>setMarkerCache := filter (\<lambda>h. h \<noteq> tx_hash tx) (setMarkerCache s)\<rparr>"

definition IsInMarkerCache :: "nat \<Rightarrow> 's handler_state_scheme \<Rightarrow> bool" where
  "IsInMarkerCache txHash s \<longleftrightarrow> txHash \<in> set (setMarkerCache s)"

subsection \<open>Transactions\<close>

text \<open>The outputs to other destinations than Exodus, with their number, address and value.\<close>

fun other_outputs :: "parse_env \<Rightarrow> nat \<Rightarrow> CTxOut list \<Rightarrow> (nat \<times> string \<times> int) list option" where
  "other_outputs env n [] = Some []"
| "other_outputs env n (out # outs) = do {
     dest \<leftarrow> ExtractDestination (Hash160 env) False (scriptPubKey out);
     rest \<leftarrow> other_outputs env (Suc n) outs;
     Some (case dest of
         None \<Rightarrow> rest
       | Some d \<Rightarrow> if d = ExodusAddress env then rest else (n, EncodeDestination env d, out_nValue out) # rest)
   }"

fun pay_outputs :: "nat \<Rightarrow> int \<Rightarrow> string \<Rightarrow> (string \<times> int) list \<Rightarrow> (nat \<times> string \<times> int) list \<Rightarrow> nat \<Rightarrow> 's node_state_scheme \<Rightarrow> (nat \<times> 's node_state_scheme) option" where
  "pay_outputs txid nBlock strSender payments [] count s = Some (count, s)"
| "pay_outputs txid nBlock strSender payments ((n, strAddress, amount) # outs) count s = do {
     (rc, s1, _) \<leftarrow> DEx_payment txid n strAddress strSender amount nBlock payments s;
     pay_outputs txid nBlock strSender payments outs (if rc = 0 then count + 1 else count) s1
   }"

text \<open>The loop over the outputs that makes the payments is there twice.\<close>

definition HandleDExPayments :: "node_env \<Rightarrow> CTransaction \<Rightarrow> int \<Rightarrow> string \<Rightarrow> 's node_state_scheme \<Rightarrow> (bool \<times> 's node_state_scheme) option" where
  "HandleDExPayments env tx nBlock strSender s = do {
     outs \<leftarrow> other_outputs (parseEnv env) 0 (vout tx);
     let payments = map snd outs;
     (count1, s1) \<leftarrow> pay_outputs (tx_hash tx) nBlock strSender payments outs 0 s;
     (count2, s2) \<leftarrow> pay_outputs (tx_hash tx) nBlock strSender payments outs count1 s1;
     Some (count2 > 0, s2)
   }"

text \<open>The records of payments, cancels, trades, receipts and sends of everything reach the databases.\<close>

definition record_cancel :: "CancelTX \<Rightarrow> leveldb \<Rightarrow> leveldb" where
  "record_cancel c = CMPTxList_recordMetaDExCancelTX (ct_txid c) (ct_cancelled c) (ct_valid c) (ct_block c) (ct_property c) (ct_amount c)"

definition flush_records :: "'s node_state_scheme \<Rightarrow> 's node_state_scheme" where
  "flush_records s =
     s\<lparr>pDbTransactionList := fold (\<lambda>(txid, n, p, x). recordSendAllSubRecord txid (int n) p x) (recordedSendAlls s)
          (fold record_cancel (recordedCancels s) (fold record_payment (recordedPayments s) (pDbTransactionList s))),
       pDbStoList := fold (\<lambda>(a, txid, b, p, x). recordSTOReceive a txid b p x) (recordedSTOReceives s) (pDbStoList s),
       pDbTradeList := fold recordMatchedTrade (recordedTrades s)
          (fold (\<lambda>(txid, a, p, d, b, i). recordNewTrade txid a p d b (int i)) (recordedNewTrades s) (pDbTradeList s)),
       recordedPayments := [], recordedCancels := [], recordedTrades := [], recordedNewTrades := [], recordedSTOReceives := [], recordedSendAlls := []\<rparr>"

text \<open>The environment of the transaction logic, with the validity of other transactions from the database.\<close>

definition logic_env :: "node_env \<Rightarrow> 's node_state_scheme \<Rightarrow> tx_env" where
  "logic_env env s = (txEnv env)\<lparr>getValidMPTX := (\<lambda>h. case CMPTxList_getValidMPTX h False (pDbTransactionList s) of Some (valid, _) \<Rightarrow> valid | None \<Rightarrow> False)\<rparr>"

definition new_transaction :: "node_env \<Rightarrow> CMPTransaction" where
  "new_transaction env = SetNull (rawTransaction env)"

text \<open>\<^verbatim>\<open>mastercore_handler_tx\<close> of an initialized token layer.\<close>

definition handle_tx :: "node_env \<Rightarrow> CTransaction \<Rightarrow> int \<Rightarrow> nat \<Rightarrow> CBlockIndex \<Rightarrow> 's node_state_scheme \<Rightarrow> (bool \<times> 's node_state_scheme) option" where
  "handle_tx env tx nBlock idx pBlockIndex s0 = do {
     s \<leftarrow> PendingDelete (tx_hash tx) s0;
     if nBlock < nWaterlineBlock s then Some (False, s)
     else do {
       (pop_ret, mp_obj, view) \<leftarrow> parseTransaction (parseEnv env) (consensusParams s) (governance s) False tx nBlock idx (unlockLogic (new_transaction env))
          (bi_time pBlockIndex mod 2 ^ 32) None (tokenView s);
       let s1 = s\<lparr>tokenView := view\<rparr>;
       if pop_ret > 0 then
         if encodingClass mp_obj \<noteq> TOKEN_CLASS_A \<or> pkt_size mp_obj \<noteq> 0 then None
         else do {
           (fFoundTx, s2) \<leftarrow> HandleDExPayments env tx nBlock (tx_sender mp_obj) s1;
           Some (fFoundTx, flush_records s2)
         }
       else if pop_ret = 0 then do {
         (interp_ret, mp_obj, s2) \<leftarrow> interpretPacket (logic_env env s1) mp_obj s1;
         let s3 = flush_records s2;
         let s4 = (if interp_ret \<noteq> PKT_ERROR - 2 then
             s3\<lparr>pDbTransactionList := recordTX (tx_hash tx) (0 \<le> interp_ret) nBlock (tx_type mp_obj) (nNewValue mp_obj) (pDbTransactionList s3),
                pDbTransaction := RecordTransaction (tx_hash tx) idx interp_ret (pDbTransaction s3)\<rparr>
           else s3);
         Some (interp_ret = 0, s4)
       }
       else Some (False, s1)
     }
   }"

subsection \<open>Blocks\<close>

text \<open>What \<^verbatim>\<open>mastercore_handler_block_begin\<close> does when no rewind is due, and \<^verbatim>\<open>mastercore_handler_block_end\<close> of an initialized token layer.\<close>

definition block_goes_live :: "CBlockIndex \<Rightarrow> 's node_state_scheme \<Rightarrow> 's node_state_scheme option" where
  "block_goes_live pBlockIndex s = map_option snd (eraseExpiredCrowdsale (Some (bi_time pBlockIndex, bi_hash pBlockIndex)) (CheckLiveActivations (bi_height pBlockIndex) s))"

definition handle_block_end :: "node_env \<Rightarrow> int \<Rightarrow> CBlockIndex \<Rightarrow> 's node_state_scheme \<Rightarrow> 's node_state_scheme option" where
  "handle_block_end env nBlockNow pBlockIndex s = do {
     (how_many_erased, s1) \<leftarrow> eraseExpiredAccepts nBlockNow s;
     (devmsc, s2) \<leftarrow> calculate_and_update_devmsc env (bi_time pBlockIndex mod 2 ^ 32) nBlockNow s1;
     let s3 = snd (CheckExpiredAlerts nBlockNow (bi_time pBlockIndex) s2);
     s4 \<leftarrow> PendingCheck (mempoolTxids env) s3;
     if IsPersistenceEnabled (activeHeight env) nBlockNow \<and> nBlockNow \<ge> GENESIS_BLOCK (consensusParams s4)
     then PersistInMemoryState (SHA256 (parseEnv env)) pBlockIndex s4
     else Some s4
   }"

definition mastercore_handler_disc_begin :: "CBlockIndex \<Rightarrow> 's node_state_scheme \<Rightarrow> 's node_state_scheme" where
  "mastercore_handler_disc_begin pBlockIndex s =
     s\<lparr>reorgRecoveryMode := 1, reorgRecoveryMaxHeight := (if bi_height pBlockIndex > reorgRecoveryMaxHeight s then bi_height pBlockIndex else reorgRecoveryMaxHeight s)\<rparr>"

definition mastercore_handler_disc_end :: "CBlockIndex \<Rightarrow> 's node_state_scheme \<Rightarrow> 's node_state_scheme" where
  "mastercore_handler_disc_end pBlockIndex s = s"

subsection \<open>Clearing and rewinding\<close>

definition clear_all_state :: "node_env \<Rightarrow> 's node_state_scheme \<Rightarrow> 's node_state_scheme option" where
  "clear_all_state env s = do {
     let s1 = s\<lparr>mp_tally_map := [], my_offers := [], my_accepts := [], my_crowds := [], metadex := [], my_pending := [], consensusParams := networkParams env\<rparr>;
     let s2 = ClearFreezeState (ClearAlerts (ClearActivations s1));
     let s3 = s2\<lparr>pDbSpInfo := ClearSP (pDbSpInfo s2), pDbTransactionList := [], pDbStoList := [], pDbTradeList := [], pDbTransaction := [], pDbFeeCache := [], pDbFeeHistory := []\<rparr>;
     (version, db) \<leftarrow> setDBVersion (pDbTransactionList s3);
     if version \<noteq> int DB_VERSION then None
     else Some (s3\<lparr>pDbTransactionList := db, exodus_prev := 0\<rparr>)
   }"

text \<open>\<^verbatim>\<open>RewindDBsAndState\<close> up to its scan.\<close>

definition rewind_state :: "node_env \<Rightarrow> int \<Rightarrow> bool \<Rightarrow> 's node_state_scheme \<Rightarrow> 's node_state_scheme option" where
  "rewind_state env blockHeight fInitialParse s = do {
     let reorgContainsFreeze = CheckForFreezeTxs blockHeight (pDbTransactionList s);
     let s1 = s\<lparr>pDbTransactionList := snd (isMPinBlockRange blockHeight (reorgRecoveryMaxHeight s) True (pDbTransactionList s)),
                pDbTradeList := snd (Trade_deleteAboveBlock blockHeight (pDbTradeList s)),
                pDbStoList := snd (STO_deleteAboveBlock blockHeight (pDbStoList s))\<rparr>;
     let s2 = RollBackHistory blockHeight (RollBackCache blockHeight s1);
     let s3 = s2\<lparr>reorgRecoveryMaxHeight := 0, nWaterlineBlock := GENESIS_BLOCK (consensusParams s2) - 1\<rparr>;
     if reorgContainsFreeze \<and> \<not> fInitialParse then clear_all_state env s3
     else do {
       (best_state_block, s4) \<leftarrow> LoadMostRelevantInMemoryState (SHA256 (parseEnv env)) s3;
       if best_state_block < 0 then clear_all_state env s4
       else Some (s4\<lparr>nWaterlineBlock := best_state_block\<rparr>)
     }
   }"

abbreviation MAX_SEED_BLOCK :: int where "MAX_SEED_BLOCK \<equiv> 490000"

definition SkipBlock :: "node_env \<Rightarrow> int \<Rightarrow> bool" where
  "SkipBlock env nBlock \<longleftrightarrow> mainNetwork env \<and> nBlock \<le> MAX_SEED_BLOCK \<and> nBlock \<notin> set []"

fun handle_txs :: "node_env \<Rightarrow> int \<Rightarrow> nat \<Rightarrow> CBlockIndex \<Rightarrow> CTransaction list \<Rightarrow> 's node_state_scheme \<Rightarrow> 's node_state_scheme option" where
  "handle_txs env nBlock nTxNum pblockindex [] s = Some s"
| "handle_txs env nBlock nTxNum pblockindex (tx # txs) s = do {
     (found, s1) \<leftarrow> handle_tx env tx nBlock nTxNum pblockindex s;
     handle_txs env nBlock (Suc nTxNum) pblockindex txs s1
   }"

definition block_at :: "'s node_state_scheme \<Rightarrow> int \<Rightarrow> CBlockIndex option" where
  "block_at s n = Option.bind (chainActive s n) (mapBlockIndex s)"

text \<open>
  The loop of \<^verbatim>\<open>msc_initial_scan\<close>. The handler of the beginning of a block is written out in it, because that handler may rewind, and the rewind scans again:
  \<^verbatim>\<open>msc_initial_scan\<close>, \<^verbatim>\<open>mastercore_handler_block_begin\<close> and \<^verbatim>\<open>RewindDBsAndState\<close> call each other.
\<close>

partial_function (option) scan_loop :: "node_env \<Rightarrow> int \<Rightarrow> 's node_state_scheme \<Rightarrow> 's node_state_scheme option" where
  [code]: "scan_loop env nBlock s =
     (if nBlock > activeHeight env \<or> shutdownRequested s \<or> shutdownSignal env nBlock then Some s
      else case block_at s nBlock of
        None \<Rightarrow> Some s
      | Some pblockindex \<Rightarrow> do {
          s1 \<leftarrow> (if reorgRecoveryMode s > 0 then do {
                 s1 \<leftarrow> rewind_state env (bi_height pblockindex) False (s\<lparr>reorgRecoveryMode := 0\<rparr>);
                 if nWaterlineBlock s1 < nBlock \<and> 0 \<le> nWaterlineBlock s1 + 1 then scan_loop env (nWaterlineBlock s1 + 1) s1 else Some s1
               } else Some s);
          s2 \<leftarrow> block_goes_live pblockindex s1;
          (if \<not> seedBlockFilterEnabled env \<or> \<not> SkipBlock env nBlock then
             (case readBlock env (bi_hash pblockindex) of
                None \<Rightarrow> Some s2
              | Some vtx \<Rightarrow> do {
                  s3 \<leftarrow> handle_txs env nBlock 0 pblockindex vtx s2;
                  s4 \<leftarrow> handle_block_end env nBlock pblockindex s3;
                  scan_loop env (nBlock + 1) s4
                })
           else do {
             s4 \<leftarrow> handle_block_end env nBlock pblockindex s2;
             scan_loop env (nBlock + 1) s4
           })
        })"

definition msc_initial_scan :: "node_env \<Rightarrow> int \<Rightarrow> 's node_state_scheme \<Rightarrow> (int \<times> 's node_state_scheme) option" where
  "msc_initial_scan env nFirstBlock s =
     (if nFirstBlock < 0 \<or> activeHeight env < nFirstBlock then Some (- 1, s)
      else map_option (\<lambda>s1. (0, s1)) (scan_loop env nFirstBlock s))"

definition RewindDBsAndState :: "node_env \<Rightarrow> int \<Rightarrow> int \<Rightarrow> bool \<Rightarrow> 's node_state_scheme \<Rightarrow> 's node_state_scheme option" where
  "RewindDBsAndState env blockHeight nBlockPrev fInitialParse s = do {
     s1 \<leftarrow> rewind_state env blockHeight fInitialParse s;
     if nWaterlineBlock s1 < nBlockPrev then map_option snd (msc_initial_scan env (nWaterlineBlock s1 + 1) s1) else Some s1
   }"

definition mastercore_handler_block_begin :: "node_env \<Rightarrow> int \<Rightarrow> CBlockIndex \<Rightarrow> 's node_state_scheme \<Rightarrow> 's node_state_scheme option" where
  "mastercore_handler_block_begin env nBlockPrev pBlockIndex s = do {
     s1 \<leftarrow> (if reorgRecoveryMode s > 0 then RewindDBsAndState env (bi_height pBlockIndex) nBlockPrev False (s\<lparr>reorgRecoveryMode := 0\<rparr>) else Some s);
     block_goes_live pBlockIndex s1
   }"

subsection \<open>Loading activations, alerts and freezes\<close>

abbreviation TOKENCORE_MESSAGE_TYPE_ALERT :: int where "TOKENCORE_MESSAGE_TYPE_ALERT \<equiv> 65535"
abbreviation TOKENCORE_MESSAGE_TYPE_ACTIVATION :: int where "TOKENCORE_MESSAGE_TYPE_ACTIVATION \<equiv> 65534"
abbreviation ALERT_CLIENT_VERSION_EXPIRY :: nat where "ALERT_CLIENT_VERSION_EXPIRY \<equiv> 3"

text \<open>The valid messages of a type, by block and then by hash.\<close>

definition load_order :: "int \<Rightarrow> leveldb \<Rightarrow> (int \<times> nat) list" where
  "load_order type db = sort (map (\<lambda>(k, v). (atoi (tokens v ! 1), SetHex k))
     (filter (\<lambda>(k, v). let vstr = tokens v in length vstr = 4 \<and> atoi (vstr ! 2) = type \<and> atoi (vstr ! 0) = 1) db))"

text \<open>\<^verbatim>\<open>ParseTransaction\<close>, the parser for reading only, with \<^verbatim>\<open>interpret_Transaction\<close> of the result: \<open>Inl\<close> when one of them fails.\<close>

definition ParseTransaction :: "node_env \<Rightarrow> CTransaction \<Rightarrow> int \<Rightarrow> nat \<Rightarrow> CMPTransaction \<Rightarrow> int \<Rightarrow> 's node_state_scheme \<Rightarrow> (int \<times> CMPTransaction \<times> 's node_state_scheme) option" where
  "ParseTransaction env tx nBlock idx mptx nTime s = do {
     (rc, t, view) \<leftarrow> parseTransaction (parseEnv env) (consensusParams s) (governance s) True tx nBlock idx mptx nTime None (tokenView s);
     Some (rc, t, s\<lparr>tokenView := view\<rparr>)
   }"

definition read_message :: "node_env \<Rightarrow> CTransaction \<Rightarrow> int \<Rightarrow> 's node_state_scheme \<Rightarrow> (CMPTransaction option \<times> 's node_state_scheme) option" where
  "read_message env wtx nBlock s = do {
     (rc, mp_obj, s1) \<leftarrow> ParseTransaction env wtx nBlock 0 (new_transaction env) 0 s;
     if rc \<noteq> 0 then Some (None, s1)
     else do {
       (parsed, mp_obj) \<leftarrow> interpret_Transaction (hashToAddress (txEnv env)) (validDestination (txEnv env)) mp_obj;
       Some (if parsed then Some mp_obj else None, s1)
     }
   }"

fun alerts_loop :: "node_env \<Rightarrow> int \<Rightarrow> (int \<times> nat) list \<Rightarrow> 's node_state_scheme \<Rightarrow> 's node_state_scheme option" where
  "alerts_loop env blockHeight [] s = Some s"
| "alerts_loop env blockHeight ((_, txid) # it) s =
     (case transactionWithBlock env txid of
        None \<Rightarrow> alerts_loop env blockHeight it s
      | Some (wtx, blockHash) \<Rightarrow> do {
          pBlockIndex \<leftarrow> mapBlockIndex s blockHash;
          if bi_height pBlockIndex > blockHeight then alerts_loop env blockHeight it s
          else do {
            (message, s1) \<leftarrow> read_message env wtx blockHeight s;
            alerts_loop env blockHeight it
              (case message of
                 None \<Rightarrow> s1
               | Some mp_obj \<Rightarrow>
                   if int (tx_type mp_obj) \<noteq> TOKENCORE_MESSAGE_TYPE_ALERT \<or> \<not> CheckAlertAuthorization (allowAlert (txEnv env)) (ignoreAlert (txEnv env)) (tx_sender mp_obj) then s1
                   else if tx_alert_type mp_obj = 65535 then DeleteAlerts (tx_sender mp_obj) s1
                   else AddAlert (tx_sender mp_obj) (tx_alert_type mp_obj) (int (tx_alert_expiry mp_obj)) (tx_alert_text mp_obj) s1)
          }
        })"

definition LoadAlerts :: "node_env \<Rightarrow> int \<Rightarrow> 's node_state_scheme \<Rightarrow> 's node_state_scheme option" where
  "LoadAlerts env blockHeight s = do {
     s1 \<leftarrow> alerts_loop env blockHeight (load_order TOKENCORE_MESSAGE_TYPE_ALERT (pDbTransactionList s)) s;
     let blockTime = (case block_at s1 (blockHeight - 1) of None \<Rightarrow> 0 | Some pBlockIndex \<Rightarrow> bi_time pBlockIndex);
     Some (if blockTime > 0 then snd (CheckExpiredAlerts blockHeight blockTime s1) else s1)
   }"

text \<open>A stored transaction that lies in a known block at or below the height: \<open>Inl\<close> when it cannot be read, \<open>Inr None\<close> when it lies in the future.\<close>

definition known_message :: "node_env \<Rightarrow> int \<Rightarrow> nat \<Rightarrow> 's node_state_scheme \<Rightarrow> (unit + (CTransaction \<times> int) option)" where
  "known_message env blockHeight txid s =
     (case transactionWithBlock env txid of
        None \<Rightarrow> Inl ()
      | Some (wtx, blockHash) \<Rightarrow>
          if blockHash = 0 then Inl ()
          else case mapBlockIndex s blockHash of
            None \<Rightarrow> Inl ()
          | Some pBlockIndex \<Rightarrow> if bi_height pBlockIndex > blockHeight then Inr None else Inr (Some (wtx, bi_height pBlockIndex)))"

text \<open>Replaying a stored message of the given types: \<open>False\<close> when it is not accepted.\<close>

definition replay_message :: "node_env \<Rightarrow> (nat \<Rightarrow> bool) \<Rightarrow> CTransaction \<Rightarrow> int \<Rightarrow> 's node_state_scheme \<Rightarrow> (bool \<times> 's node_state_scheme) option" where
  "replay_message env right_type wtx currentBlockHeight s = do {
     (message, s1) \<leftarrow> read_message env wtx currentBlockHeight s;
     (case message of
        None \<Rightarrow> Some (False, s1)
      | Some mp_obj \<Rightarrow>
          if \<not> right_type (tx_type mp_obj) then Some (False, s1)
          else do {
            (rc, mp_obj, s2) \<leftarrow> interpretPacket (logic_env env s1) (unlockLogic mp_obj) s1;
            Some (rc = 0, s2)
          })
   }"

fun activations_loop :: "node_env \<Rightarrow> int \<Rightarrow> (int \<times> nat) list \<Rightarrow> 's node_state_scheme \<Rightarrow> 's node_state_scheme option" where
  "activations_loop env blockHeight [] s = Some s"
| "activations_loop env blockHeight ((_, hash) # it) s =
     (case known_message env blockHeight hash s of
        Inr (Some (wtx, currentBlockHeight)) \<Rightarrow> do {
          (ok, s1) \<leftarrow> replay_message env (\<lambda>type. int type = TOKENCORE_MESSAGE_TYPE_ACTIVATION) wtx currentBlockHeight s;
          activations_loop env blockHeight it s1
        }
      | _ \<Rightarrow> activations_loop env blockHeight it s)"

definition LoadActivations :: "node_env \<Rightarrow> int \<Rightarrow> 's node_state_scheme \<Rightarrow> 's node_state_scheme option" where
  "LoadActivations env blockHeight s = do {
     s1 \<leftarrow> activations_loop env blockHeight (load_order TOKENCORE_MESSAGE_TYPE_ACTIVATION (pDbTransactionList s)) s;
     let s2 = CheckLiveActivations blockHeight s1;
     Some (if allowActivation (txEnv env) \<noteq> [] \<or> ignoreActivation (txEnv env) \<noteq> [] then
         AddAlert ''tokencore'' ALERT_CLIENT_VERSION_EXPIRY (2 ^ 32 - 1)
           ''Authorization for feature activation has been modified.  Data provided by this client should not be trusted.'' s2
       else s2)
   }"

definition freeze_order :: "leveldb \<Rightarrow> leveldb \<Rightarrow> (string \<times> nat) list option" where
  "freeze_order txlist txdb = map_option sort (those (map (\<lambda>(k, v). do {
       let txid = SetHex k;
       txPosition \<leftarrow> FetchTransactionPosition txid txdb;
       Some (sort_key (atoi (tokens v ! 1)) (s32 (int txPosition)), txid)
     }) (filter (\<lambda>(k, v). let vstr = tokens v in length vstr = 4 \<and> freeze_type (nat (atoi (vstr ! 2) mod 2 ^ 16)) \<and> atoi (vstr ! 0) = 1) txlist)))"

fun freezes_loop :: "node_env \<Rightarrow> int \<Rightarrow> (string \<times> nat) list \<Rightarrow> 's node_state_scheme \<Rightarrow> (bool \<times> 's node_state_scheme) option" where
  "freezes_loop env blockHeight [] s = Some (True, s)"
| "freezes_loop env blockHeight ((_, hash) # it) s =
     (case known_message env blockHeight hash s of
        Inl _ \<Rightarrow> Some (False, s)
      | Inr None \<Rightarrow> freezes_loop env blockHeight it s
      | Inr (Some (wtx, currentBlockHeight)) \<Rightarrow> do {
          (ok, s1) \<leftarrow> replay_message env freeze_type wtx currentBlockHeight s;
          if \<not> ok then Some (False, s1) else freezes_loop env blockHeight it s1
        })"

definition LoadFreezeState :: "node_env \<Rightarrow> int \<Rightarrow> 's node_state_scheme \<Rightarrow> (bool \<times> 's node_state_scheme) option" where
  "LoadFreezeState env blockHeight s = do {
     loadOrder \<leftarrow> freeze_order (pDbTransactionList s) (pDbTransaction s);
     freezes_loop env blockHeight loadOrder s
   }"

subsection \<open>Starting and stopping\<close>

text \<open>No checkpoint is defined, on any network.\<close>

definition GetTransactions :: "(int \<times> nat) list" where
  "GetTransactions = []"

definition VerifyTransactionExistence :: "int \<Rightarrow> leveldb \<Rightarrow> bool" where
  "VerifyTransactionExistence block db \<longleftrightarrow> list_all (\<lambda>(blockHeight, txHash). block < blockHeight \<or> txlist_exists txHash db) GetTransactions"

text \<open>The databases are opened, empty when the files were removed or a new index is built.\<close>

definition open_spinfo :: "string \<Rightarrow> bool \<Rightarrow> CMPSPInfo \<Rightarrow> CMPSPInfo" where
  "open_spinfo exodus fWipe db =
     init_spids 3 TEST_ECO_PROPERTY_1 ((if fWipe then ClearSP db else db)\<lparr>implied_token := implied_entry exodus, implied_ttoken := implied_entry exodus\<rparr>)"

definition open_databases :: "node_env \<Rightarrow> 's node_state_scheme \<Rightarrow> 's node_state_scheme" where
  "open_databases env s =
     (let fWipe = startClean env \<or> fReindex env;
          opened = (\<lambda>db. if fWipe then [] else db)
      in s\<lparr>pDbTradeList := opened (pDbTradeList s), pDbStoList := opened (pDbStoList s), pDbTransactionList := opened (pDbTransactionList s),
           pDbSpInfo := open_spinfo (EncodeDestination (parseEnv env) (ExodusAddress (parseEnv env))) fWipe (pDbSpInfo s), pDbTransaction := opened (pDbTransaction s),
           pDbFeeCache := if fWipe then [] else pDbFeeCache s, pDbFeeHistory := if fWipe then [] else pDbFeeHistory s,
           stateFiles := if startClean env then [] else stateFiles s\<rparr>)"

text \<open>The waterline after loading, with a rewind and a look at the version and the consistency of the databases: the code before \<^verbatim>\<open>clear_all_state\<close>.\<close>

definition load_waterline :: "node_env \<Rightarrow> 's node_state_scheme \<Rightarrow> 's node_state_scheme option" where
  "load_waterline env s = do {
     version \<leftarrow> getDBVersion (pDbTransactionList s);
     let wrongDBVersion = (version \<noteq> int DB_VERSION);
     (waterline, s1) \<leftarrow> LoadMostRelevantInMemoryState (SHA256 (parseEnv env)) s;
     let s2 = s1\<lparr>nWaterlineBlock := waterline\<rparr>;
     s3 \<leftarrow> (if \<not> startClean env \<and> waterline > 0 \<and> waterline < activeHeight env then RewindDBsAndState env (waterline + 1) 0 True s2 else Some s2);
     s4 \<leftarrow> (if startClean env then do {
             (version, db) \<leftarrow> setDBVersion (pDbTransactionList s3);
             if version \<noteq> int DB_VERSION then None else Some (s3\<lparr>pDbTransactionList := db\<rparr>)
           }
           else Some (if wrongDBVersion then s3\<lparr>nWaterlineBlock := - 1\<rparr> else s3));
     let inconsistentDb = (\<not> VerifyTransactionExistence (nWaterlineBlock s4) (pDbTransactionList s4));
     s5 \<leftarrow> (let s5 = (if inconsistentDb then s4\<lparr>nWaterlineBlock := - 1\<rparr> else s4) in if nWaterlineBlock s5 < 0 then clear_all_state env s5 else Some s5);
     Some (if inconsistentDb then
         AddAlert ''tokencore'' ALERT_CLIENT_VERSION_EXPIRY (2 ^ 32 - 1)
           ''INCONSISTENT DB DETECTED! IF YOU ARE USING AN OVERLAY DB, YOU MAY NEED TO REPROCESSALL TOKEN LAYER TRANSACTIONS TO AVOID INCONSISTENCIES!'' s5
       else s5)
   }"

definition mastercore_init :: "node_env \<Rightarrow> 's handler_state_scheme \<Rightarrow> 's handler_state_scheme option" where
  "mastercore_init env s =
     (if mastercoreInitialized s \<noteq> 0 then Some s
      else do {
        s1 \<leftarrow> load_waterline env ((open_databases env s)\<lparr>mastercoreInitialized := 1\<rparr>);
        let snapshotHeight = GENESIS_BLOCK (consensusParams s1) - 1;
        let s2 = (if nWaterlineBlock s1 < snapshotHeight then s1\<lparr>nWaterlineBlock := snapshotHeight, exodus_prev := 0\<rparr> else s1);
        let s3 = s2\<lparr>nWaterlineBlock := nWaterlineBlock s2 + 1\<rparr>;
        s4 \<leftarrow> LoadActivations env (nWaterlineBlock s3) s3;
        s5 \<leftarrow> LoadAlerts env (nWaterlineBlock s4) s4;
        (loaded, s6) \<leftarrow> LoadFreezeState env (nWaterlineBlock s5) s5;
        let s7 = (if \<not> loaded \<and> \<not> overrideforcedshutdown s6 then s6\<lparr>shutdownRequested := True\<rparr> else s6);
        map_option snd (msc_initial_scan env (nWaterlineBlock s7) s7)
      })"

text \<open>The handlers, which initialize the token layer first; stopping closes the databases and keeps what memory holds.\<close>

definition mastercore_handler_tx :: "node_env \<Rightarrow> CTransaction \<Rightarrow> int \<Rightarrow> nat \<Rightarrow> CBlockIndex \<Rightarrow> 's handler_state_scheme \<Rightarrow> (bool \<times> 's handler_state_scheme) option" where
  "mastercore_handler_tx env tx nBlock idx pBlockIndex s = do {
     s1 \<leftarrow> mastercore_init env s;
     handle_tx env tx nBlock idx pBlockIndex s1
   }"

definition mastercore_handler_block_end :: "node_env \<Rightarrow> int \<Rightarrow> CBlockIndex \<Rightarrow> 's handler_state_scheme \<Rightarrow> 's handler_state_scheme option" where
  "mastercore_handler_block_end env nBlockNow pBlockIndex s = do {
     s1 \<leftarrow> mastercore_init env s;
     handle_block_end env nBlockNow pBlockIndex s1
   }"

definition mastercore_shutdown :: "'s handler_state_scheme \<Rightarrow> 's handler_state_scheme" where
  "mastercore_shutdown s = s\<lparr>mastercoreInitialized := 0\<rparr>"

subsection \<open>Pending amounts\<close>

definition pending_sum :: "(nat \<times> CMPPending) list \<Rightarrow> string \<Rightarrow> property_id \<Rightarrow> int" where
  "pending_sum m a p = (\<Sum>(k, q)\<leftarrow>m. if pend_src q = a \<and> pend_prop q = p then pend_amount q else 0)"

text \<open>A state in which no more than the pending transactions is subtracted from a pending balance, and one in which exactly their sum is.\<close>

definition pending_bounded :: "'s node_state_scheme \<Rightarrow> bool" where
  "pending_bounded s \<longleftrightarrow> tallies_ok s \<and> smap_ok (my_pending s) \<and> (\<forall>(k, q) \<in> set (my_pending s). 0 \<le> pend_amount q \<and> pend_amount q \<le> MAX_INT64)
     \<and> (\<forall>a p. - pending_sum (my_pending s) a p \<le> GetTokenBalance s a p PENDING)"

definition pending_ok :: "'s node_state_scheme \<Rightarrow> bool" where
  "pending_ok s \<longleftrightarrow> tallies_ok s \<and> smap_ok (my_pending s) \<and> (\<forall>(k, q) \<in> set (my_pending s). 0 \<le> pend_amount q \<and> pend_amount q \<le> MAX_INT64)
     \<and> (\<forall>a p. GetTokenBalance s a p PENDING = - pending_sum (my_pending s) a p)"

text \<open>
  An outgoing transaction of the wallet, whose identifier is new and whose amount is not negative, and a transaction that arrives or leaves the memory pool. The wallet subtracts the amount
  of every transaction but cancellations; with \<open>exact\<close> the only cancellations are those of all orders of a pair or an ecosystem, whose amount is zero.
\<close>

inductive pending_step :: "bool \<Rightarrow> 's node_state_scheme \<Rightarrow> 's node_state_scheme \<Rightarrow> bool" for exact :: bool where
  add: "map_of (my_pending s) txid = None \<Longrightarrow> 0 \<le> amount \<Longrightarrow> amount \<le> MAX_INT64 \<Longrightarrow> (exact \<Longrightarrow> fSubtract \<or> amount = 0)
    \<Longrightarrow> PendingAdd txid a type p amount fSubtract s = Some s' \<Longrightarrow> pending_step exact s s'"
| delete: "PendingDelete txid s = Some s' \<Longrightarrow> pending_step exact s s'"

lemma pending_update:
  assumes "tallies_ok s"
  obtains m where "update_tally_map a p x PENDING s = Some (update_fits (GetTokenBalance s a p PENDING) x PENDING, s\<lparr>mp_tally_map := m\<rparr>)"
    and "tallies_ok (s\<lparr>mp_tally_map := m\<rparr>)"
    and "\<And>b q u. GetTokenBalance (s\<lparr>mp_tally_map := m\<rparr>) b q u
      = GetTokenBalance s b q u + (if update_fits (GetTokenBalance s a p PENDING) x PENDING \<and> b = a \<and> q = p \<and> u = PENDING then x else 0)"
proof (cases "x = 0")
  case True
  then show thesis using assms by (intro that [of "mp_tally_map s"]) (simp_all add: update_tally_map_def update_fits_def)
next
  case False
  obtain r t where u: "updateMoney p x PENDING (tally_at s a) = (r, t)" by (cases "updateMoney p x PENDING (tally_at s a)")
  let ?m = "umap_upd a t (mp_tally_map s)"
  have t: "tally_ok t" using updateMoney_ok [OF tally_at_ok [OF assms], of p x PENDING a] u by simp
  have r: "r = update_fits (GetTokenBalance s a p PENDING) x PENDING"
    using updateMoney_result [OF tally_at_ok [OF assms], of p x PENDING a] u by (simp add: balance_tally_at)
  have um: "umap_ok (mp_tally_map s)" using assms by (simp add: tallies_ok_def)
  show thesis
  proof
    show "update_tally_map a p x PENDING s = Some (update_fits (GetTokenBalance s a p PENDING) x PENDING, s\<lparr>mp_tally_map := ?m\<rparr>)"
      using False u r by (simp add: update_tally_map_unfold)
    show "tallies_ok (s\<lparr>mp_tally_map := ?m\<rparr>)"
      using assms t by (auto simp: tallies_ok_def umap_ok_upd umap.member_upd [OF um] split: if_splits)
    show "GetTokenBalance (s\<lparr>mp_tally_map := ?m\<rparr>) b q v
      = GetTokenBalance s b q v + (if update_fits (GetTokenBalance s a p PENDING) x PENDING \<and> b = a \<and> q = p \<and> v = PENDING then x else 0)" for b q v
      using updateMoney_getMoney [of p x PENDING "tally_at s a" q v] u r by (auto simp: balance_put balance_tally_at)
  qed
qed

lemma pending_frame [simp]:
  "tallies_ok (s\<lparr>my_pending := m\<rparr>) = tallies_ok s" "GetTokenBalance (s\<lparr>my_pending := m\<rparr>) = GetTokenBalance s"
  by (simp_all add: tallies_ok_def fun_eq_iff GetTokenBalance_def)

lemma pending_low: "tallies_ok s \<Longrightarrow> MIN_INT64 \<le> GetTokenBalance s a p PENDING"
  using record_of_ok [OF tally_at_ok [of s a], of p] unfolding record_ok_def balance_tally_at getMoney_def record_of_def
  by (auto simp: zero_record_def split: option.splits)

lemma pending_sum_upd:
  "smap_ok m \<Longrightarrow> map_of m k = None \<Longrightarrow> pending_sum (smap_upd k q m) a p = pending_sum m a p + (if pend_src q = a \<and> pend_prop q = p then pend_amount q else 0)"
  unfolding pending_sum_def using smap.sum_upd [where m = m and a = k and x = q and f = "\<lambda>k q. if pend_src q = a \<and> pend_prop q = p then pend_amount q else 0"] by simp

lemma pending_sum_del:
  "smap_ok m \<Longrightarrow> map_of m k = Some q \<Longrightarrow> pending_sum (smap_del k m) a p = pending_sum m a p - (if pend_src q = a \<and> pend_prop q = p then pend_amount q else 0)"
  unfolding pending_sum_def using smap.sum_del [where m = m and a = k and f = "\<lambda>k q. if pend_src q = a \<and> pend_prop q = p then pend_amount q else 0"] by simp

lemma pending_sum_nonneg: "\<forall>(k, q) \<in> set m. 0 \<le> pend_amount q \<Longrightarrow> 0 \<le> pending_sum m a p"
  unfolding pending_sum_def by (rule sum_list_nonneg) auto

lemma pending_sum_member:
  assumes "smap_ok m" and "map_of m k = Some q" and "\<forall>(k, q) \<in> set m. 0 \<le> pend_amount q"
  shows "pend_amount q \<le> pending_sum m (pend_src q) (pend_prop q)"
proof -
  have "\<forall>(k, q) \<in> set (smap_del k m). 0 \<le> pend_amount q" using assms(3) by (auto simp: smap_del_def)
  from pending_sum_nonneg [OF this, of "pend_src q" "pend_prop q"] show ?thesis
    using pending_sum_del [OF assms(1,2), of "pend_src q" "pend_prop q"] by simp
qed

text \<open>What the operations do to the pending map and the balances; both always return on consistent balances.\<close>

lemma PendingAdd_effect:
  assumes "tallies_ok s" and "map_of (my_pending s) txid = None" and "0 \<le> amount" and "amount \<le> MAX_INT64"
    and q: "q = \<lparr>pend_src = a, pend_prop = p, pend_amount = amount, pend_type = type\<rparr>"
  obtains m added where "PendingAdd txid a type p amount fSubtract s
      = Some (s\<lparr>mp_tally_map := m, my_pending := if added then smap_upd txid q (my_pending s) else my_pending s\<rparr>)"
    and "tallies_ok (s\<lparr>mp_tally_map := m\<rparr>)"
    and "\<And>b r u. GetTokenBalance (s\<lparr>mp_tally_map := m\<rparr>) b r u
      = GetTokenBalance s b r u - (if added \<and> fSubtract \<and> b = a \<and> r = p \<and> u = PENDING then amount else 0)"
proof -
  have neg: "s64 (- amount) = - amount" using assms(3,4) by (simp add: s64_id)
  let ?fits = "update_fits (GetTokenBalance s a p PENDING) (- amount) PENDING"
  obtain m where m: "update_tally_map a p (- amount) PENDING s = Some (?fits, s\<lparr>mp_tally_map := m\<rparr>)" "tallies_ok (s\<lparr>mp_tally_map := m\<rparr>)"
    "\<And>b q u. GetTokenBalance (s\<lparr>mp_tally_map := m\<rparr>) b q u = GetTokenBalance s b q u + (if ?fits \<and> b = a \<and> q = p \<and> u = PENDING then - amount else 0)"
    by (rule pending_update [OF assms(1)]) (rule that)
  consider "type = 80 \<and> p = 0" | "\<not> (type = 80 \<and> p = 0)" "fSubtract" | "\<not> (type = 80 \<and> p = 0)" "\<not> fSubtract" by blast
  then show thesis
  proof cases
    case 1
    then show thesis using assms(1) by (intro that [of False "mp_tally_map s"]) (auto simp: PendingAdd_def)
  next
    case 2
    then show thesis using m assms(2) by (intro that [of ?fits m]) (auto simp: PendingAdd_def neg q smap_insert_def)
  next
    case 3
    then show thesis using assms(1,2) by (intro that [of True "mp_tally_map s"]) (auto simp: PendingAdd_def q smap_insert_def)
  qed
qed

lemma PendingDelete_effect:
  assumes "tallies_ok s" and "map_of (my_pending s) txid = Some q"
  obtains m where "PendingDelete txid s = Some (s\<lparr>mp_tally_map := m, my_pending := smap_del txid (my_pending s)\<rparr>)"
    and "tallies_ok (s\<lparr>mp_tally_map := m\<rparr>)"
    and "\<And>b r u. GetTokenBalance (s\<lparr>mp_tally_map := m\<rparr>) b r u = GetTokenBalance s b r u
      + (if GetTokenBalance s (pend_src q) (pend_prop q) PENDING \<noteq> 0 \<and> update_fits (GetTokenBalance s (pend_src q) (pend_prop q) PENDING) (pend_amount q) PENDING
            \<and> b = pend_src q \<and> r = pend_prop q \<and> u = PENDING then pend_amount q else 0)"
proof (cases "GetTokenBalance s (pend_src q) (pend_prop q) PENDING = 0")
  case True
  then show thesis using assms by (intro that [of "mp_tally_map s"]) (simp_all add: PendingDelete_def)
next
  case False
  obtain m where m: "update_tally_map (pend_src q) (pend_prop q) (pend_amount q) PENDING s
      = Some (update_fits (GetTokenBalance s (pend_src q) (pend_prop q) PENDING) (pend_amount q) PENDING, s\<lparr>mp_tally_map := m\<rparr>)"
    "tallies_ok (s\<lparr>mp_tally_map := m\<rparr>)"
    "\<And>b r u. GetTokenBalance (s\<lparr>mp_tally_map := m\<rparr>) b r u = GetTokenBalance s b r u
      + (if update_fits (GetTokenBalance s (pend_src q) (pend_prop q) PENDING) (pend_amount q) PENDING \<and> b = pend_src q \<and> r = pend_prop q \<and> u = PENDING then pend_amount q else 0)"
    by (rule pending_update [OF assms(1)]) (rule that)
  then show thesis using False assms(2) by (intro that [of m]) (simp_all add: PendingDelete_def)
qed

definition pending_keeps :: "'s node_state_scheme \<Rightarrow> 's node_state_scheme \<Rightarrow> bool" where
  "pending_keeps s s' \<longleftrightarrow> pending_ok s' \<and> (\<forall>a p u. u \<noteq> PENDING \<longrightarrow> GetTokenBalance s' a p u = GetTokenBalance s a p u)"

lemma pending_ok_bounded: "pending_ok s \<Longrightarrow> pending_bounded s"
  by (auto simp: pending_ok_def pending_bounded_def)

definition amounts_ok :: "'s node_state_scheme \<Rightarrow> bool" where
  "amounts_ok s \<longleftrightarrow> tallies_ok s \<and> smap_ok (my_pending s) \<and> (\<forall>(k, q) \<in> set (my_pending s). 0 \<le> pend_amount q \<and> pend_amount q \<le> MAX_INT64)"

text \<open>What the pending balance and the pending transactions come to: zero when every amount is subtracted.\<close>

definition excess :: "'s node_state_scheme \<Rightarrow> string \<Rightarrow> property_id \<Rightarrow> int" where
  "excess s a p = GetTokenBalance s a p PENDING + pending_sum (my_pending s) a p"

lemma pending_bounded_excess: "pending_bounded s \<longleftrightarrow> amounts_ok s \<and> (\<forall>a p. 0 \<le> excess s a p)"
  unfolding pending_bounded_def amounts_ok_def excess_def by (auto simp: algebra_simps neg_le_iff_le minus_le_iff) (smt (verit))+

lemma pending_ok_excess: "pending_ok s \<longleftrightarrow> amounts_ok s \<and> (\<forall>a p. excess s a p = 0)"
  unfolding pending_ok_def amounts_ok_def excess_def by (auto simp: eq_neg_iff_add_eq_0)

lemma PendingAdd_excess:
  assumes ok: "amounts_ok s" and new: "map_of (my_pending s) txid = None" and x: "0 \<le> amount" "amount \<le> MAX_INT64"
    and run: "PendingAdd txid a type p amount fSubtract s = Some s'"
  shows "\<exists>added. amounts_ok s' \<and> (\<forall>b r u. u \<noteq> PENDING \<longrightarrow> GetTokenBalance s' b r u = GetTokenBalance s b r u)
    \<and> (\<forall>b r. excess s' b r = excess s b r + (if added \<and> \<not> fSubtract \<and> b = a \<and> r = p then amount else 0))"
proof -
  define q where "q = \<lparr>pend_src = a, pend_prop = p, pend_amount = amount, pend_type = type\<rparr>"
  have inv: "tallies_ok s" "smap_ok (my_pending s)" "\<forall>(k, q) \<in> set (my_pending s). 0 \<le> pend_amount q \<and> pend_amount q \<le> MAX_INT64"
    using ok by (auto simp: amounts_ok_def)
  obtain m added where m: "PendingAdd txid a type p amount fSubtract s = Some (s\<lparr>mp_tally_map := m, my_pending := if added then smap_upd txid q (my_pending s) else my_pending s\<rparr>)"
    "tallies_ok (s\<lparr>mp_tally_map := m\<rparr>)"
    "\<And>b r u. GetTokenBalance (s\<lparr>mp_tally_map := m\<rparr>) b r u = GetTokenBalance s b r u - (if added \<and> fSubtract \<and> b = a \<and> r = p \<and> u = PENDING then amount else 0)"
    by (rule PendingAdd_effect [OF inv(1) new x q_def, of fSubtract]) (rule that)
  have s': "s' = s\<lparr>mp_tally_map := m, my_pending := if added then smap_upd txid q (my_pending s) else my_pending s\<rparr>" using run m(1) by simp
  have "\<forall>(k, q) \<in> set (smap_upd txid q (my_pending s)). 0 \<le> pend_amount q \<and> pend_amount q \<le> MAX_INT64"
    using inv(3) x by (auto simp: smap.member_upd [OF inv(2)] q_def split: if_splits)
  moreover have "pend_src q = a" "pend_prop q = p" "pend_amount q = amount" by (simp_all add: q_def)
  ultimately show ?thesis
    using m(2,3) inv smap_ok_upd [OF inv(2)] unfolding s' amounts_ok_def excess_def
    by (intro exI [of _ added]) (cases added; simp add: pending_sum_upd [OF inv(2) new])
qed

lemma PendingDelete_excess:
  assumes ok: "amounts_ok s" and some: "map_of (my_pending s) txid = Some q" and run: "PendingDelete txid s = Some s'"
  shows "amounts_ok s' \<and> my_pending s' = smap_del txid (my_pending s) \<and> (\<forall>b r u. u \<noteq> PENDING \<longrightarrow> GetTokenBalance s' b r u = GetTokenBalance s b r u)
    \<and> (\<forall>b r. excess s' b r = excess s b r
        - (if b = pend_src q \<and> r = pend_prop q \<and> (GetTokenBalance s b r PENDING = 0 \<or> \<not> update_fits (GetTokenBalance s b r PENDING) (pend_amount q) PENDING)
           then pend_amount q else 0))"
proof -
  have inv: "tallies_ok s" "smap_ok (my_pending s)" "\<forall>(k, q) \<in> set (my_pending s). 0 \<le> pend_amount q \<and> pend_amount q \<le> MAX_INT64"
    using ok by (auto simp: amounts_ok_def)
  obtain m where m: "PendingDelete txid s = Some (s\<lparr>mp_tally_map := m, my_pending := smap_del txid (my_pending s)\<rparr>)" "tallies_ok (s\<lparr>mp_tally_map := m\<rparr>)"
    "\<And>b r u. GetTokenBalance (s\<lparr>mp_tally_map := m\<rparr>) b r u = GetTokenBalance s b r u
      + (if GetTokenBalance s (pend_src q) (pend_prop q) PENDING \<noteq> 0 \<and> update_fits (GetTokenBalance s (pend_src q) (pend_prop q) PENDING) (pend_amount q) PENDING
            \<and> b = pend_src q \<and> r = pend_prop q \<and> u = PENDING then pend_amount q else 0)"
    by (rule PendingDelete_effect [OF inv(1) some]) (rule that)
  have s': "s' = s\<lparr>mp_tally_map := m, my_pending := smap_del txid (my_pending s)\<rparr>" using run m(1) by simp
  have "smap_ok (smap_del txid (my_pending s))" using smap_ok_filter [OF inv(2)] by (simp add: smap_del_def)
  moreover have "\<forall>(k, q) \<in> set (smap_del txid (my_pending s)). 0 \<le> pend_amount q \<and> pend_amount q \<le> MAX_INT64" using inv(3) by (auto simp: smap_del_def)
  ultimately show ?thesis
    using m(2,3) unfolding s' amounts_ok_def excess_def by (auto simp: pending_sum_del [OF inv(2) some])
qed

lemma PendingDelete_none: "map_of (my_pending s) txid = None \<Longrightarrow> PendingDelete txid s = Some s \<and> smap_del txid (my_pending s) = my_pending s"
  by (simp add: PendingDelete_def) (auto simp: smap_del_def map_of_eq_None_iff filter_id_conv)

text \<open>One step keeps the bound, and with exact additions the equality.\<close>

lemma PendingAdd_keeps:
  assumes "pending_ok s" and "map_of (my_pending s) txid = None" and "0 \<le> amount" "amount \<le> MAX_INT64" and "fSubtract \<or> amount = 0"
    and "PendingAdd txid a type p amount fSubtract s = Some s'"
  shows "pending_keeps s s'"
  using PendingAdd_excess [OF _ assms(2-4,6)] assms(1,5) unfolding pending_keeps_def pending_ok_excess by auto

lemma PendingDelete_keeps:
  assumes ok: "pending_ok s" and run: "PendingDelete txid s = Some s'"
  shows "pending_keeps s s' \<and> my_pending s' = smap_del txid (my_pending s)"
proof (cases "map_of (my_pending s) txid")
  case None
  then show ?thesis using PendingDelete_none [OF None] run ok by (simp add: pending_keeps_def)
next
  case (Some q)
  have am: "amounts_ok s" and z: "\<And>a p. excess s a p = 0" using ok by (simp_all add: pending_ok_excess)
  have pos: "\<forall>(k, q) \<in> set (my_pending s). 0 \<le> pend_amount q" and sm: "smap_ok (my_pending s)" and t: "tallies_ok s" using am by (auto simp: amounts_ok_def)
  have q: "0 \<le> pend_amount q" using pos map_of_SomeD [OF Some] by auto
  let ?b = "GetTokenBalance s (pend_src q) (pend_prop q) PENDING"
  have "?b + pend_amount q \<le> 0" using pending_sum_member [OF sm Some pos] z [of "pend_src q" "pend_prop q"] by (simp add: excess_def)
  then have "pend_amount q = 0 \<or> (?b \<noteq> 0 \<and> update_fits ?b (pend_amount q) PENDING)" using q pending_low [OF t, of "pend_src q" "pend_prop q"] by (cases "0 < pend_amount q") (auto simp: update_fits_def)
  then show ?thesis using PendingDelete_excess [OF am Some run] z unfolding pending_keeps_def pending_ok_excess by auto
qed

lemma PendingDelete_bounded:
  assumes ok: "pending_bounded s" and run: "PendingDelete txid s = Some s'"
  shows "pending_bounded s' \<and> (\<forall>b r u. u \<noteq> PENDING \<longrightarrow> GetTokenBalance s' b r u = GetTokenBalance s b r u)"
proof (cases "map_of (my_pending s) txid")
  case None
  then show ?thesis using PendingDelete_none [OF None] run ok by simp
next
  case (Some q)
  have am: "amounts_ok s" and z: "\<And>a p. 0 \<le> excess s a p" using ok by (simp_all add: pending_bounded_excess)
  note r = PendingDelete_excess [OF am Some run]
  have am': "amounts_ok s'" using r by blast
  then have sum: "0 \<le> pending_sum (my_pending s') a p" for a p by (intro pending_sum_nonneg) (auto simp: amounts_ok_def)
  have q: "0 \<le> pend_amount q" "pend_amount q \<le> MAX_INT64" using am map_of_SomeD [OF Some] by (auto simp: amounts_ok_def)
  let ?b = "GetTokenBalance s (pend_src q) (pend_prop q) PENDING"
  have "0 \<le> excess s' a p" for a p
  proof (cases "a = pend_src q \<and> p = pend_prop q \<and> (?b = 0 \<or> \<not> update_fits ?b (pend_amount q) PENDING)")
    case False
    then show ?thesis using r z [of a p] by auto
  next
    case True
    have low: "MIN_INT64 \<le> ?b" using am by (simp add: pending_low amounts_ok_def)
    have e: "excess s' a p = excess s a p - pend_amount q" using r True by auto
    have "smap_ok (my_pending s)" using am by (simp add: amounts_ok_def)
    from pending_sum_del [OF this Some, of a p] have "pending_sum (my_pending s') a p = pending_sum (my_pending s) a p - pend_amount q" using r True by simp
    then have "excess s' a p = ?b + pending_sum (my_pending s') a p" using e True by (simp add: excess_def)
    moreover have "0 \<le> ?b \<or> pend_amount q = 0" using True q low by (auto simp: update_fits_def)
    ultimately show ?thesis using e z [of a p] sum [of a p] by auto
  qed
  then show ?thesis using r by (simp add: pending_bounded_excess)
qed

lemma PendingAdd_bounded:
  assumes "pending_bounded s" and "map_of (my_pending s) txid = None" and "0 \<le> amount" "amount \<le> MAX_INT64" and "PendingAdd txid a type p amount fSubtract s = Some s'"
  shows "pending_bounded s' \<and> (\<forall>b r u. u \<noteq> PENDING \<longrightarrow> GetTokenBalance s' b r u = GetTokenBalance s b r u)"
  using PendingAdd_excess [OF _ assms(2-5)] assms(1,3) unfolding pending_bounded_excess by (auto simp: add_nonneg_nonneg)

lemma pending_step_bounded:
  "pending_step exact s s' \<Longrightarrow> pending_bounded s \<Longrightarrow> pending_bounded s' \<and> (\<forall>b r u. u \<noteq> PENDING \<longrightarrow> GetTokenBalance s' b r u = GetTokenBalance s b r u)"
  by (erule pending_step.cases) (use PendingAdd_bounded PendingDelete_bounded in blast)+

lemma pending_step_exact: "pending_step True s s' \<Longrightarrow> pending_ok s \<Longrightarrow> pending_ok s'"
  by (erule pending_step.cases) (use PendingAdd_keeps PendingDelete_keeps in \<open>unfold pending_keeps_def; blast\<close>)+

text \<open>
  \<^bold>\<open>C20\<close>. Pending amounts are backed. Take any sequence of outgoing transactions of the wallet, each with a new identifier and an amount that is not negative, whether the amount is
  subtracted or, as for cancellations, not, and of transactions that are deleted from the pending map. No balance but the pending ones changes, and no pending balance falls
  below minus the sum of the pending transactions of its address and property. If in addition every transaction with a positive amount is subtracted, each pending balance is exactly minus
  that sum, and zero again when nothing is pending. (A cancellation by price, or of an offer, has a positive amount that is not subtracted: then only the bound holds, and C31 shows how it is missed.)
\<close>

theorem pending_reach_invariant:
  fixes s s' :: node_state
  assumes "(pending_step exact)\<^sup>*\<^sup>* s s'" and "pending_ok s"
  shows "pending_bounded s' \<and> (\<forall>a p u. u \<noteq> PENDING \<longrightarrow> GetTokenBalance s' a p u = GetTokenBalance s a p u)
    \<and> (exact \<longrightarrow> pending_ok s' \<and> (my_pending s' = [] \<longrightarrow> (\<forall>a p. GetTokenBalance s' a p PENDING = 0)))"
  using assms
proof (induction rule: rtranclp_induct)
  case base
  then show ?case by (simp add: pending_ok_bounded) (simp add: pending_ok_def pending_sum_def)
next
  case (step t u)
  then have t: "pending_bounded t" "\<forall>a p v. v \<noteq> PENDING \<longrightarrow> GetTokenBalance t a p v = GetTokenBalance s a p v" "exact \<longrightarrow> pending_ok t" by blast+
  have "pending_bounded u" "\<forall>a p v. v \<noteq> PENDING \<longrightarrow> GetTokenBalance u a p v = GetTokenBalance s a p v" using pending_step_bounded [OF step.hyps(2) t(1)] t(2) by simp_all
  moreover have "pending_ok u" if exact using that step.hyps(2) t(3) pending_step_exact by auto
  moreover have "pending_ok u \<Longrightarrow> my_pending u = [] \<Longrightarrow> GetTokenBalance u a p PENDING = 0" for a p by (simp add: pending_ok_def pending_sum_def)
  ultimately show ?case by blast
qed

lemma sample_node_pending_ok: "pending_ok sample_node"
proof -
  have "GetTokenBalance sample_node a p PENDING = 0" for a p
    by (simp add: GetTokenBalance_def sample_node_fields holder_def getMoney_def zero_record_def)
  moreover have "tallies_ok sample_node"
    by (simp add: tallies_ok_def sample_node_fields umap_ok_def)
  ultimately show ?thesis by (simp add: pending_ok_def sample_node_fields pending_sum_def smap_ok_def)
qed

lemma PendingAdd_returns:
  assumes "tallies_ok s" and "map_of (my_pending s) txid = None" and "0 \<le> amount" and "amount \<le> MAX_INT64"
  shows "PendingAdd txid a type p amount fSubtract s \<noteq> None"
  by (rule PendingAdd_effect [OF assms refl, of a type p fSubtract]) simp

lemma PendingDelete_frame:
  assumes "tallies_ok s"
  shows "\<exists>m. PendingDelete txid s = Some (s\<lparr>mp_tally_map := m, my_pending := smap_del txid (my_pending s)\<rparr>)"
proof (cases "map_of (my_pending s) txid")
  case None
  then show ?thesis using PendingDelete_none [OF None] by (intro exI [of _ "mp_tally_map s"]) simp
next
  case (Some q)
  show ?thesis by (rule PendingDelete_effect [OF assms Some]) (rule exI)
qed

theorem pending_reach_invariant_witness:
  "\<exists>s1 s2. PendingAdd 9 ''alice'' 0 1 30 True sample_node = Some s1 \<and> PendingDelete 9 s1 = Some s2 \<and> my_pending s2 = []
     \<and> GetTokenBalance s2 ''alice'' 1 PENDING = 0 \<and> GetTokenBalance s2 ''alice'' 1 BALANCE = 100"
proof -
  note ok = sample_node_pending_ok
  have t: "tallies_ok sample_node" using ok by (simp add: pending_ok_def)
  have new: "map_of (my_pending sample_node) 9 = None" by (simp add: sample_node_fields)
  have x: "0 \<le> (30 :: int)" "30 \<le> MAX_INT64" by simp_all
  obtain s1 where s1: "PendingAdd 9 ''alice'' 0 1 30 True sample_node = Some s1" using PendingAdd_returns [OF t new x, of "''alice''" 0 1 True] unfolding not_None_eq by auto
  then have step1: "pending_step True sample_node s1" by (rule pending_step.add [OF new x, rotated]) simp
  have ok1: "pending_ok s1" using PendingAdd_keeps [OF ok new x _ s1] by (simp add: pending_keeps_def)
  then obtain s2 where s2: "PendingDelete 9 s1 = Some s2" using PendingDelete_frame [of s1 9] by (fastforce simp: pending_ok_def)
  have "my_pending s1 = [] \<or> map fst (my_pending s1) = [9]"
    using s1 by (auto simp: PendingAdd_def sample_node_fields smap_insert_def update_tally_map_unfold Let_def split: if_splits prod.splits)
  then have empty: "my_pending s2 = []" using PendingDelete_keeps [OF ok1 s2] by (auto simp: smap_del_def)
  have "(pending_step True)\<^sup>*\<^sup>* sample_node s2" using step1 pending_step.delete [OF s2] by (rule converse_rtranclp_into_rtranclp [OF _ r_into_rtranclp])
  from pending_reach_invariant [OF this ok] have "GetTokenBalance s2 ''alice'' 1 PENDING = 0"
    "GetTokenBalance s2 ''alice'' 1 BALANCE = GetTokenBalance sample_node ''alice'' 1 BALANCE" using empty by simp_all
  moreover have "GetTokenBalance sample_node ''alice'' 1 BALANCE = 100" by (simp add: GetTokenBalance_def sample_node_fields)
  ultimately show ?thesis using s1 s2 empty by (intro exI [of _ s1] exI [of _ s2]) simp
qed

text \<open>
  \<^bold>\<open>C31\<close>. A cancellation that is pending is not subtracted, but its amount is credited: when the wallet cancels orders by price, \<^verbatim>\<open>PendingAdd\<close> is called with the amount
  of the order and without subtracting it; once the transaction arrives, \<^verbatim>\<open>PendingDelete\<close> adds that amount to the pending balance if another transaction of the address
  is pending, so that the pending map is as before and the pending balance is too large by the amount.
\<close>

theorem pending_cancel_credits:
  fixes s :: node_state
  assumes "pending_ok s" and "map_of (my_pending s) txid = None" and "GetTokenBalance s a p PENDING \<noteq> 0" and "0 < amount" and "amount \<le> MAX_INT64"
    and "type \<noteq> 80 \<or> p \<noteq> 0"
  shows "\<exists>s1 s2. PendingAdd txid a type p amount False s = Some s1 \<and> GetTokenBalance s1 a p PENDING = GetTokenBalance s a p PENDING
    \<and> PendingDelete txid s1 = Some s2 \<and> my_pending s2 = my_pending s \<and> GetTokenBalance s2 a p PENDING = GetTokenBalance s a p PENDING + amount"
proof -
  have inv: "tallies_ok s" "smap_ok (my_pending s)" "\<forall>(k, q) \<in> set (my_pending s). 0 \<le> pend_amount q" using assms(1) by (auto simp: pending_ok_def)
  define q where "q = \<lparr>pend_src = a, pend_prop = p, pend_amount = amount, pend_type = type\<rparr>"
  define s1 where "s1 = s\<lparr>my_pending := smap_upd txid q (my_pending s)\<rparr>"
  have run1: "PendingAdd txid a type p amount False s = Some s1" using assms(2,6) by (auto simp: PendingAdd_def smap_insert_def s1_def q_def)
  have s1: "tallies_ok s1" "GetTokenBalance s1 = GetTokenBalance s" "my_pending s1 = smap_upd txid q (my_pending s)" using inv(1) by (simp_all add: s1_def)
  have le: "GetTokenBalance s a p PENDING \<le> 0" using assms(1) pending_sum_nonneg [OF inv(3)] by (simp add: pending_ok_def)
  have fits: "update_fits (GetTokenBalance s a p PENDING) amount PENDING" using assms(4,5) le pending_low [OF inv(1), of a p] by (simp add: update_fits_def)
  have f1: "update_fits (GetTokenBalance s1 a p PENDING) amount PENDING" using fits s1(2) by simp
  obtain m where m': "update_tally_map a p amount PENDING s1 = Some (update_fits (GetTokenBalance s1 a p PENDING) amount PENDING, s1\<lparr>mp_tally_map := m\<rparr>)"
    "\<And>b q u. GetTokenBalance (s1\<lparr>mp_tally_map := m\<rparr>) b q u
      = GetTokenBalance s1 b q u + (if update_fits (GetTokenBalance s1 a p PENDING) amount PENDING \<and> b = a \<and> q = p \<and> u = PENDING then amount else 0)"
    by (rule pending_update [OF s1(1), of a p]) (rule that)
  have m: "update_tally_map a p amount PENDING s1 = Some (True, s1\<lparr>mp_tally_map := m\<rparr>)"
    "GetTokenBalance (s1\<lparr>mp_tally_map := m\<rparr>) a p PENDING = GetTokenBalance s1 a p PENDING + amount"
    using m'(1) m'(2) [of a p PENDING] f1 by simp_all
  define s2 where "s2 = s1\<lparr>mp_tally_map := m, my_pending := smap_del txid (my_pending s1)\<rparr>"
  have look: "map_of (my_pending s1) txid = Some q" by (simp add: s1(3) map_of_smap_upd)
  have run2: "PendingDelete txid s1 = Some s2" using m(1) assms(3) by (simp add: PendingDelete_def look s1(2) s2_def) (simp add: q_def)
  have "smap_del txid (smap_upd txid q (my_pending s)) = my_pending s"
    by (rule smap_eqI) (use inv(2) assms(2) in \<open>auto simp: smap.ok_del smap_ok_upd smap.lookup_del map_of_smap_upd\<close>)
  then have "my_pending s2 = my_pending s" by (simp add: s2_def s1(3))
  moreover have "GetTokenBalance s2 a p PENDING = GetTokenBalance s a p PENDING + amount" using m(2) s1(2) by (simp add: s2_def)
  ultimately show ?thesis using run1 run2 s1(2) by auto
qed

lemma sample_pending:
  obtains s0 where "PendingAdd 9 ''alice'' 0 1 30 True sample_node = Some s0" "pending_ok s0" "map_of (my_pending s0) 10 = None"
    "GetTokenBalance s0 ''alice'' 1 PENDING = - 30" "consensusParams s0 = CMainConsensusParams"
proof -
  note ok = sample_node_pending_ok
  have t: "tallies_ok sample_node" using ok by (simp add: pending_ok_def)
  have bal: "GetTokenBalance sample_node ''alice'' 1 PENDING = 0"
    by (simp add: GetTokenBalance_def sample_node_fields holder_def getMoney_def zero_record_def)
  have fits: "update_fits (GetTokenBalance sample_node ''alice'' 1 PENDING) (- 30) PENDING" unfolding bal by (simp add: update_fits_def)
  obtain m where m: "update_tally_map ''alice'' 1 (- 30) PENDING sample_node = Some (update_fits (GetTokenBalance sample_node ''alice'' 1 PENDING) (- 30) PENDING, sample_node\<lparr>mp_tally_map := m\<rparr>)"
    by (rule pending_update [OF t, of "''alice''" 1]) (rule that)
  define s0 where "s0 = sample_node\<lparr>mp_tally_map := m, my_pending := [(9, \<lparr>pend_src = ''alice'', pend_prop = 1, pend_amount = 30, pend_type = 0\<rparr>)]\<rparr>"
  have s: "s64 (- 30) = - 30" by (simp add: s64_id)
  have run: "PendingAdd 9 ''alice'' 0 1 30 True sample_node = Some s0"
    unfolding PendingAdd_def s m using fits by (simp add: s0_def smap_insert_def sample_node_fields)
  have ok0: "pending_ok s0" using PendingAdd_keeps [OF ok _ _ _ _ run] by (simp add: pending_keeps_def sample_node_fields)
  have p0: "my_pending s0 = [(9, \<lparr>pend_src = ''alice'', pend_prop = 1, pend_amount = 30, pend_type = 0\<rparr>)]" by (simp add: s0_def)
  then have bal0: "GetTokenBalance s0 ''alice'' 1 PENDING = - 30" using ok0 by (simp add: pending_ok_def pending_sum_def)
  show thesis by (rule that [OF run ok0 _ bal0]) (simp_all add: p0 s0_def sample_node_fields)
qed

theorem pending_cancel_credits_witness:
  "\<exists>s0 s1 s2. PendingAdd 9 ''alice'' 0 1 30 True sample_node = Some s0 \<and> PendingAdd 10 ''alice'' 26 1 50 False s0 = Some s1
     \<and> PendingDelete 10 s1 = Some s2 \<and> my_pending s2 = my_pending s0 \<and> GetTokenBalance s2 ''alice'' 1 PENDING = 20"
proof -
  obtain s0 where s0: "PendingAdd 9 ''alice'' 0 1 30 True sample_node = Some s0" "pending_ok s0" "map_of (my_pending s0) 10 = None"
    "GetTokenBalance s0 ''alice'' 1 PENDING = - 30" using sample_pending by metis
  have nz: "GetTokenBalance s0 ''alice'' 1 PENDING \<noteq> 0" using s0(4) by simp
  have x: "0 < (50 :: int)" "50 \<le> MAX_INT64" "(26 :: nat) \<noteq> 80 \<or> (1 :: nat) \<noteq> 0" by simp_all
  from pending_cancel_credits [OF s0(2,3) nz x] obtain s1 s2 where
    "PendingAdd 10 ''alice'' 26 1 50 False s0 = Some s1" "PendingDelete 10 s1 = Some s2" "my_pending s2 = my_pending s0"
    "GetTokenBalance s2 ''alice'' 1 PENDING = GetTokenBalance s0 ''alice'' 1 PENDING + 50" by blast
  then show ?thesis using s0(1,4) by (intro exI [of _ s0] exI [of _ s1] exI [of _ s2]) simp
qed

subsection \<open>Transactions without a marker\<close>

text \<open>
  \<^bold>\<open>C21\<close>. A transaction of the base layer without a marker never stops the handler and is not found; it only takes its own entry from the pending map and the amount of that entry from
  the pending balance: no other part of the state, and no other balance, changes.
\<close>

theorem unmarked_transaction_ignored:
  fixes s :: node_state
  assumes "pending_ok s" and "GetEncodingClass (parseEnv env) (consensusParams s) tx nBlock = Some NO_MARKER"
  shows "\<exists>m. handle_tx env tx nBlock idx b s = Some (False, s\<lparr>mp_tally_map := m, my_pending := smap_del (tx_hash tx) (my_pending s)\<rparr>)
    \<and> pending_ok (s\<lparr>mp_tally_map := m, my_pending := smap_del (tx_hash tx) (my_pending s)\<rparr>)
    \<and> (\<forall>a p u. u \<noteq> PENDING \<longrightarrow> GetTokenBalance (s\<lparr>mp_tally_map := m, my_pending := smap_del (tx_hash tx) (my_pending s)\<rparr>) a p u = GetTokenBalance s a p u)"
proof -
  have inv: "tallies_ok s" using assms(1) by (simp add: pending_ok_def)
  from PendingDelete_frame [OF inv, of "tx_hash tx"] obtain m where
    m: "PendingDelete (tx_hash tx) s = Some (s\<lparr>mp_tally_map := m, my_pending := smap_del (tx_hash tx) (my_pending s)\<rparr>)" by blast
  define s1 where "s1 = s\<lparr>mp_tally_map := m, my_pending := smap_del (tx_hash tx) (my_pending s)\<rparr>"
  have run: "PendingDelete (tx_hash tx) s = Some s1" using m by (simp only: s1_def)
  have s1: "consensusParams s1 = consensusParams s" "nWaterlineBlock s1 = nWaterlineBlock s" "s1\<lparr>tokenView := tokenView s1\<rparr> = s1" by (simp_all add: s1_def)
  have "handle_tx env tx nBlock idx b s = Some (False, s1)"
    unfolding handle_tx_def run Option.bind.simps parseTransaction_def s1(1) assms(2)
    by (simp add: unlockLogic_def Let_def s1(3))
  moreover have "pending_keeps s s1" using PendingDelete_keeps [OF assms(1) run] by simp
  ultimately show ?thesis unfolding s1_def pending_keeps_def by blast
qed

subsection \<open>Payments\<close>

lemma royalties_free:
  assumes "fst (royalties s p d) = 0" and "0 \<le> paid" and "paid \<le> MAX_INT64" and "pDbSpInfo s' = pDbSpInfo s"
  shows "royalties_paid s' p d payments" and "payment_credit s' seller p d paid = paid"
  using assms by (simp_all add: royalties_def royalties_paid_def payment_credit_def Let_def s64_id)

text \<open>
  \<^bold>\<open>C5\<close>. A payment is counted twice: \<^verbatim>\<open>HandleDExPayments\<close> has its loop over the outputs twice, so an output that pays an accepted offer of a property without royalties buys
  the tokens it pays for, and then as many again as the accept still reserves: the buyer gets both for one payment.
\<close>

theorem HandleDExPayments_pays_twice:
  fixes s :: node_state
  assumes "dex_ok s" and "addr_ok seller" and "addr_ok buyer"
    and "DEx_getTokenForSale s seller = Some p" and "DEx_getAccept s seller p buyer = Some acc"
    and "d = accept_RPD_desired acc" and "0 < d" and "d \<le> MAX_INT64" and "fst (royalties s p d) = 0"
    and "off = accept_offer_amount acc" and "0 \<le> off" and "off \<le> MAX_INT64" and "0 \<le> paid" and "paid \<le> MAX_INT64"
    and "IsFeatureActivated (consensusParams s) FEATURE_DEXMATH block"
    and "x = cdiv (paid * off) d" and "0 < x" and "x \<le> MAX_INT64" and "x < accept_amount_remaining acc"
    and "other_outputs (parseEnv env) 0 (vout tx) = Some [(n, seller, paid)]"
  shows "\<exists>s'. HandleDExPayments env tx block buyer s = Some (True, s') \<and> dex_ok s'
    \<and> (\<forall>c q v. GetTokenBalance s' c q v = GetTokenBalance s c q v
        - (if c = seller \<and> q = p \<and> v = ACCEPT_RESERVE then x + min x (accept_amount_remaining acc - x) else 0)
        + (if c = buyer \<and> q = p \<and> v = BALANCE then x + min x (accept_amount_remaining acc - x) else 0))"
proof -
  let ?rem = "accept_amount_remaining acc" and ?pays = "[(seller, paid)]"
  have nz: "d \<noteq> 0" and pos: "0 \<le> x" using assms(7,17) by simp_all
  have calc: "calculateDExPurchase off d paid = Some x" using calculateDExPurchase_eq [OF assms(11,12,7,8,13,14)] assms(16,18) by simp
  note free = royalties_free [OF assms(9,13,14)]
  have n1: "calculateDExPurchase (accept_offer_amount acc) d (payment_credit s seller p d paid) = Some x"
    using calc assms(10) free(2) [OF refl] by simp
  have x1: "x = min x ?rem" using assms(19) by simp
  from payment_ok [OF assms(1-6) nz free(1) [OF refl] assms(15) n1 pos x1, where txid = "tx_hash tx" and vout = n and payments = ?pays] obtain s1 am1 where
    run1: "DEx_payment (tx_hash tx) n seller buyer paid block ?pays s = Some (0, s1, am1)" and k1: "dex_keeps s s1"
    and acc1: "DEx_getAccept s1 seller p buyer = Some (acc\<lparr>accept_amount_remaining := ?rem - x\<rparr>)"
    and bal1: "\<And>c q v. GetTokenBalance s1 c q v = GetTokenBalance s c q v
        - (if c = seller \<and> q = p \<and> v = ACCEPT_RESERVE then x else 0) + (if c = buyer \<and> q = p \<and> v = BALANCE then x else 0)"
    and same: "my_offers s1 = my_offers s" "pDbSpInfo s1 = pDbSpInfo s"
    using assms(17,19) by auto
  define acc' where "acc' = acc\<lparr>accept_amount_remaining := ?rem - x\<rparr>"
  have a': "d = accept_RPD_desired acc'" "accept_offer_amount acc' = off" "accept_amount_remaining acc' = ?rem - x" using assms(6,10) by (simp_all add: acc'_def)
  have ok1: "dex_ok s1" and math1: "IsFeatureActivated (consensusParams s1) FEATURE_DEXMATH block" using k1 assms(15) by (simp_all add: dex_keeps_def)
  have sale1: "DEx_getTokenForSale s1 seller = Some p" using assms(4) same(1) by (simp add: DEx_getTokenForSale_def)
  have n2: "calculateDExPurchase (accept_offer_amount acc') d (payment_credit s1 seller p d paid) = Some x"
    using calc free(2) [OF same(2)] a'(2) by simp
  from payment_ok [OF ok1 assms(2,3) sale1 acc1 [folded acc'_def] a'(1) nz free(1) [OF same(2)] math1 n2 pos refl, where txid = "tx_hash tx" and vout = n and payments = ?pays]
  obtain s2 am2 where run2: "DEx_payment (tx_hash tx) n seller buyer paid block ?pays s1 = Some (0, s2, am2)" and k2: "dex_keeps s1 s2"
    and bal2: "\<And>c q v. GetTokenBalance s2 c q v = GetTokenBalance s1 c q v
        - (if c = seller \<and> q = p \<and> v = ACCEPT_RESERVE then min x (?rem - x) else 0) + (if c = buyer \<and> q = p \<and> v = BALANCE then min x (?rem - x) else 0)"
    using assms(17,19) unfolding a'(3) by auto
  have "HandleDExPayments env tx block buyer s = Some (True, s2)"
    unfolding HandleDExPayments_def assms(20) by (simp add: run1 run2)
  moreover have "dex_ok s2" using k2 by (simp add: dex_keeps_def)
  ultimately show ?thesis using bal1 bal2 by (intro exI [of _ s2]) simp
qed

definition sample_node_env :: node_env where
  "sample_node_env = \<lparr>parseEnv = sample_parse_env\<lparr>EncodeDestination := (\<lambda>_. ''alice'')\<rparr>, txEnv = sample_env, rawTransaction = sample_tx, powHalf = (\<lambda>_. (1, - 1)), mempoolTxids = [],
     activeHeight = 2000000, readBlock = (\<lambda>_. None), transactionWithBlock = (\<lambda>_. None), shutdownSignal = (\<lambda>_. False), mainNetwork = True, seedBlockFilterEnabled = True,
     networkParams = CMainConsensusParams, startClean = False, fReindex = False\<rparr>"

definition sample_payment_tx :: CTransaction where
  "sample_payment_tx = \<lparr>tx_hash = 9, vin = [], vout = [pay_output (CKeyID (replicate 20 (CHR ''a'')), 9)]\<rparr>"

definition sample_seller_node :: node_state where
  "sample_seller_node = sample_node\<lparr>my_offers := my_offers (sample_dex 100), my_accepts := my_accepts (sample_dex 100), mp_tally_map := mp_tally_map (sample_dex 100)\<rparr>"

lemma sample_seller_node_fields:
  "my_offers sample_seller_node = my_offers (sample_dex 100)" "my_accepts sample_seller_node = my_accepts (sample_dex 100)"
  "mp_tally_map sample_seller_node = mp_tally_map (sample_dex 100)" "consensusParams sample_seller_node = CMainConsensusParams" "pDbSpInfo sample_seller_node = new_spinfo ''exodus''"
  using sample_node_fields(7,10) by (simp_all add: sample_seller_node_def)

lemma sample_seller_node_balance: "GetTokenBalance sample_seller_node = GetTokenBalance (sample_dex 100)"
  by (simp add: fun_eq_iff GetTokenBalance_def sample_seller_node_fields)

lemma sample_seller_node_ok: "dex_ok sample_seller_node"
proof -
  have "ledger_ok sample_seller_node = ledger_ok (sample_dex 100)"
    by (simp only: ledger_ok_def tallies_ok_def token_supply_def sample_seller_node_fields)
  then show ?thesis using sample_dex_ok [of 100] unfolding dex_ok_def sample_seller_node_balance sample_seller_node_fields by simp
qed

lemma sample_payment_outputs: "other_outputs (parseEnv sample_node_env) 0 (vout sample_payment_tx) = Some [(0, ''alice'', 9)]"
proof -
  have "ExtractDestination h False (GetScriptForDestination (CKeyID (replicate 20 (CHR ''a'')))) = Some (Some (CKeyID (replicate 20 (CHR ''a''))))" for h
    by (rule destination_scripts(5)) simp
  moreover have "ExodusAddress (parseEnv sample_node_env) = CKeyID (replicate 20 (CHR ''x''))" "EncodeDestination (parseEnv sample_node_env) = (\<lambda>_. ''alice'')"
    by (simp_all add: sample_node_env_def ExodusAddress_def sample_parse_env_def)
  moreover have "replicate 20 (CHR ''a'') \<noteq> replicate 20 (CHR ''x'')" by simp
  ultimately show ?thesis by (simp add: sample_payment_tx_def pay_output_def)
qed

lemma sample_payment:
  "DEx_getTokenForSale sample_seller_node ''alice'' = Some 3" "DEx_getAccept sample_seller_node ''alice'' 3 ''bob'' = Some (sample_accept 100)"
  "100 = accept_RPD_desired (sample_accept 100)" "0 < (100 :: int)" "100 \<le> MAX_INT64" "fst (royalties sample_seller_node 3 100) = 0" "50 = accept_offer_amount (sample_accept 100)"
  "0 \<le> (50 :: int)" "50 \<le> MAX_INT64" "0 \<le> (9 :: int)" "9 \<le> MAX_INT64" "IsFeatureActivated (consensusParams sample_seller_node) FEATURE_DEXMATH 10"
  "5 = cdiv (9 * 50) 100" "0 < (5 :: int)" "5 \<le> MAX_INT64" "5 < accept_amount_remaining (sample_accept 100)"
proof -
  show "DEx_getTokenForSale sample_seller_node ''alice'' = Some 3"
    using sample_dex_sale [of 100] unfolding DEx_getTokenForSale_def sample_seller_node_fields .
  show "DEx_getAccept sample_seller_node ''alice'' 3 ''bob'' = Some (sample_accept 100)"
    using sample_dex_accept [of 100] unfolding DEx_getAccept_def sample_seller_node_fields .
  show "fst (royalties sample_seller_node 3 100) = 0"
    by (simp add: royalties_def sample_seller_node_fields getSP_def new_spinfo_def init_spids_def new_entry_def Let_def)
  show "IsFeatureActivated (consensusParams sample_seller_node) FEATURE_DEXMATH 10"
    using sample_dexmath [of 100] unfolding sample_seller_node_fields sample_dex_fields .
qed (simp_all add: sample_accept_def new_accept_def cdiv_def)

theorem HandleDExPayments_pays_twice_witness:
  "\<exists>s'. HandleDExPayments sample_node_env sample_payment_tx 10 ''bob'' sample_seller_node = Some (True, s')
     \<and> GetTokenBalance s' ''bob'' 3 BALANCE = 10 \<and> cdiv (9 * 50) 100 = 5"
proof -
  have rem: "accept_amount_remaining (sample_accept 100) = 20" by (simp add: sample_accept_def new_accept_def)
  from HandleDExPayments_pays_twice [OF sample_seller_node_ok sample_addr(1,2) sample_payment sample_payment_outputs]
  obtain s' where s': "HandleDExPayments sample_node_env sample_payment_tx 10 ''bob'' sample_seller_node = Some (True, s')"
    "GetTokenBalance s' ''bob'' 3 BALANCE = GetTokenBalance sample_seller_node ''bob'' 3 BALANCE + 10" unfolding rem by auto
  have "GetTokenBalance sample_seller_node ''bob'' 3 BALANCE = 0" by (simp add: sample_seller_node_balance sample_dex_balance)
  then show ?thesis using s' sample_payment(13) by (intro exI [of _ s']) simp
qed

theorem unmarked_transaction_ignored_witness:
  "\<exists>s0 s'. PendingAdd 9 ''alice'' 0 1 30 True sample_node = Some s0
     \<and> handle_tx sample_node_env \<lparr>tx_hash = 9, vin = [], vout = []\<rparr> 2000000 0 sample_block s0 = Some (False, s')
     \<and> GetTokenBalance s0 ''alice'' 1 PENDING = - 30 \<and> GetTokenBalance s' ''alice'' 1 BALANCE = GetTokenBalance s0 ''alice'' 1 BALANCE"
proof -
  obtain s0 where s0: "PendingAdd 9 ''alice'' 0 1 30 True sample_node = Some s0" "pending_ok s0" "GetTokenBalance s0 ''alice'' 1 PENDING = - 30"
    "consensusParams s0 = CMainConsensusParams" by (rule sample_pending) (rule that)
  have "GetEncodingClass (parseEnv sample_node_env) (consensusParams s0) \<lparr>tx_hash = 9, vin = [], vout = []\<rparr> 2000000 = Some NO_MARKER"
    by (simp add: GetEncodingClass_def)
  from unmarked_transaction_ignored [OF s0(2) this, of 0 sample_block] obtain m where
    "handle_tx sample_node_env \<lparr>tx_hash = 9, vin = [], vout = []\<rparr> 2000000 0 sample_block s0 = Some (False, s0\<lparr>mp_tally_map := m, my_pending := smap_del 9 (my_pending s0)\<rparr>)"
    "GetTokenBalance (s0\<lparr>mp_tally_map := m, my_pending := smap_del 9 (my_pending s0)\<rparr>) ''alice'' 1 BALANCE = GetTokenBalance s0 ''alice'' 1 BALANCE"
    by auto
  then show ?thesis using s0(1,3) by (intro exI [of _ s0] exI [of _ "s0\<lparr>mp_tally_map := m, my_pending := smap_del 9 (my_pending s0)\<rparr>"]) simp
qed

subsection \<open>The beginning of a block\<close>

lemma live_loop_frame:
  "mp_tally_map (live_loop h its s) = mp_tally_map s" "pDbFeeCache (live_loop h its s) = pDbFeeCache s" "pDbSpInfo (live_loop h its s) = pDbSpInfo s"
  "my_crowds (live_loop h its s) = my_crowds s"
  by (induction h its s rule: live_loop.induct) (simp_all add: Let_def PendingActivationCompleted_def DeletePendingActivation_def)

lemma live_loop_completed:
  "vecCompletedActivations (live_loop h its s) = vecCompletedActivations s @ filter (\<lambda>a. fa_activationBlock a \<le> h) its"
  by (induction h its s rule: live_loop.induct) (simp_all add: Let_def PendingActivationCompleted_def DeletePendingActivation_def)

lemma live_loop_shutdown:
  "shutdownRequested (live_loop h its s) \<longleftrightarrow> shutdownRequested s
     \<or> \<not> overrideforcedshutdown s \<and> (\<exists>a \<in> set its. fa_activationBlock a \<le> h \<and> TOKENCORE_VERSION < fa_minClientVersion a)"
  by (induction h its s rule: live_loop.induct) (auto simp: Let_def PendingActivationCompleted_def DeletePendingActivation_def)

lemma crowd_ok_cong:
  assumes "mp_tally_map s' = mp_tally_map s" and "pDbFeeCache s' = pDbFeeCache s" and "pDbSpInfo s' = pDbSpInfo s" and "my_crowds s' = my_crowds s"
  shows "crowd_ok block s' = crowd_ok block s" and "token_supply s' = token_supply s"
proof -
  show t: "token_supply s' = token_supply s" using assms(1) by (simp add: fun_eq_iff token_supply_def)
  have "crowd_inv s' c = crowd_inv s c" for c unfolding crowd_inv_def t cached_cong [OF assms(2)] assms(3) ..
  then show "crowd_ok block s' = crowd_ok block s" by (simp add: crowd_ok_def fee_ok_cong [OF assms(1,2)] assms(3,4))
qed

lemma expire_loop_frame:
  fixes s :: "'s node_state_scheme"
  assumes "expire_loop t h it n s = Some (n', s')"
  shows "vecPendingActivations s' = vecPendingActivations s" and "vecCompletedActivations s' = vecCompletedActivations s"
    and "shutdownRequested s' = shutdownRequested s"
proof -
  have one: "vecPendingActivations v = vecPendingActivations u \<and> vecCompletedActivations v = vecCompletedActivations u \<and> shutdownRequested v = shutdownRequested u"
    if "expire_crowdsale h a c u = Some v" for a c and u v :: "'s node_state_scheme"
    using that
    by (auto simp: expire_crowdsale_def Let_def split: bind_splits if_splits prod.splits dest!: assert_update_frame)
  have "vecPendingActivations s' = vecPendingActivations s \<and> vecCompletedActivations s' = vecCompletedActivations s \<and> shutdownRequested s' = shutdownRequested s"
    using assms
  proof (induction it arbitrary: n s)
    case (Cons e it)
    obtain a c where e: "e = (a, c)" by (cases e)
    show ?case
    proof (cases "t > crowd_deadline c")
      case True
      with Cons.prems e obtain u where "expire_crowdsale h a c s = Some u" "expire_loop t h it (n + 1) u = Some (n', s')" by (auto split: bind_splits)
      then show ?thesis using one [of a c s u] Cons.IH [of "n + 1" u] by simp
    next
      case False
      with Cons.prems e Cons.IH show ?thesis by simp
    qed
  qed simp
  then show "vecPendingActivations s' = vecPendingActivations s" "vecCompletedActivations s' = vecCompletedActivations s"
    "shutdownRequested s' = shutdownRequested s" by simp_all
qed

text \<open>
  \<^bold>\<open>C4\<close>. What is due at a block happens: when no reorganization is under way and the crowdsales are consistent, the handler of the beginning of a block returns; every crowdsale whose
  deadline lies before the time of the block is closed with the bonus its issuer missed, and no other; every pending activation of the height of the block or an earlier one is
  completed and pending no longer; and the node is asked to stop if one of those needs a newer version and this is not overridden.
\<close>

theorem block_begin_due:
  fixes s :: node_state
  assumes "crowd_ok block s" and "reorgRecoveryMode s \<le> 0"
  shows "\<exists>s'. mastercore_handler_block_begin env nBlockPrev b s = Some s' \<and> crowd_ok block s'
    \<and> my_crowds s' = filter (\<lambda>e. \<not> expired (bi_time b) e) (my_crowds s)
    \<and> (\<forall>(a, c) \<in> set (my_crowds s). expired (bi_time b) (a, c) \<longrightarrow>
         (\<forall>sp. map_of (sp_entries (pDbSpInfo s)) (crowd_propertyId c) = Some sp \<longrightarrow>
            token_supply s' (crowd_propertyId c) = token_supply s (crowd_propertyId c) + missed_bonus (sp_percentage sp) c))
    \<and> (\<forall>act \<in> set (vecPendingActivations s). fa_activationBlock act \<le> bi_height b \<longrightarrow>
         act \<in> set (vecCompletedActivations s') \<and> act \<notin> set (vecPendingActivations s'))
    \<and> (shutdownRequested s' \<longleftrightarrow> shutdownRequested s \<or> \<not> overrideforcedshutdown s
         \<and> (\<exists>act \<in> set (vecPendingActivations s). fa_activationBlock act \<le> bi_height b \<and> TOKENCORE_VERSION < fa_minClientVersion act))"
proof -
  define s1 where "s1 = CheckLiveActivations (bi_height b) s"
  have f: "mp_tally_map s1 = mp_tally_map s" "pDbFeeCache s1 = pDbFeeCache s" "pDbSpInfo s1 = pDbSpInfo s" "my_crowds s1 = my_crowds s"
    by (simp_all add: s1_def CheckLiveActivations_def live_loop_frame)
  have ok: "crowd_ok block s1" and same_supply: "token_supply s1 = token_supply s" using crowd_ok_cong [OF f] assms(1) by simp_all
  have sm: "smap_ok (my_crowds s)" and dp: "distinct (map (\<lambda>(a, c). crowd_propertyId c) (my_crowds s))" using assms(1) by (simp_all add: crowd_ok_def)
  have kept: "filter (\<lambda>e. \<not> (expired (bi_time b) e \<and> e \<in> set (my_crowds s))) (my_crowds s) = filter (\<lambda>e. \<not> expired (bi_time b) e) (my_crowds s)"
    by (rule filter_cong) auto
  from expire_loop_ok [OF ok _ smap_ok_distinct [OF sm] dp, of "bi_time b" "bi_hash b" 0] f(4) obtain n s' where
    run: "expire_loop (bi_time b) (bi_hash b) (my_crowds s1) 0 s1 = Some (n, s')" and s': "crowd_ok block s'"
      "my_crowds s' = filter (\<lambda>e. \<not> expired (bi_time b) e) (my_crowds s)"
      "\<forall>(a, c) \<in> set (my_crowds s). expired (bi_time b) (a, c) \<longrightarrow>
         (\<forall>sp. map_of (sp_entries (pDbSpInfo s)) (crowd_propertyId c) = Some sp \<longrightarrow>
            token_supply s' (crowd_propertyId c) = token_supply s (crowd_propertyId c) + missed_bonus (sp_percentage sp) c)"
    unfolding f same_supply kept by auto
  note fr = expire_loop_frame [OF run]
  have begin_run: "mastercore_handler_block_begin env nBlockPrev b s = Some s'"
    using assms(2) run by (simp add: mastercore_handler_block_begin_def block_goes_live_def eraseExpiredCrowdsale_def s1_def [symmetric])
  have due: "act \<in> set (vecCompletedActivations s')" "act \<notin> set (vecPendingActivations s')"
    if "act \<in> set (vecPendingActivations s)" "fa_activationBlock act \<le> bi_height b" for act
    using that unfolding fr s1_def CheckLiveActivations_def live_loop_completed live_loop_pending by auto
  have "shutdownRequested s' \<longleftrightarrow> shutdownRequested s \<or> \<not> overrideforcedshutdown s
         \<and> (\<exists>act \<in> set (vecPendingActivations s). fa_activationBlock act \<le> bi_height b \<and> TOKENCORE_VERSION < fa_minClientVersion act)"
    unfolding fr s1_def CheckLiveActivations_def by (rule live_loop_shutdown)
  then show ?thesis using begin_run s' due by (intro exI [of _ s']) simp
qed

definition sample_activation :: FeatureActivation where
  "sample_activation = \<lparr>fa_featureId = 1, fa_activationBlock = 1999999, fa_minClientVersion = 1, fa_featureName = []\<rparr>"

definition sample_crowd_node :: node_state where
  "sample_crowd_node = sample_node\<lparr>mp_tally_map := mp_tally_map sample_crowds, pDbFeeCache := pDbFeeCache sample_crowds, pDbSpInfo := pDbSpInfo sample_crowds,
     my_crowds := my_crowds sample_crowds, vecPendingActivations := [sample_activation]\<rparr>"

lemma sample_crowd_node_fields:
  "mp_tally_map sample_crowd_node = mp_tally_map sample_crowds" "pDbFeeCache sample_crowd_node = pDbFeeCache sample_crowds"
  "pDbSpInfo sample_crowd_node = pDbSpInfo sample_crowds" "my_crowds sample_crowd_node = my_crowds sample_crowds"
  "vecPendingActivations sample_crowd_node = [sample_activation]" "reorgRecoveryMode sample_crowd_node = 0"
  using sample_node_fields(14) by (simp_all add: sample_crowd_node_def)

lemma sample_crowd_node_ok: "crowd_ok 12 sample_crowd_node"
  using sample_crowds_ok
  unfolding crowd_ok_def crowd_inv_def fee_ok_def ledger_ok_def tallies_ok_def token_supply_def cache_ok_def GetCachedAmount_def GetCacheHistory_def sample_crowd_node_fields .

theorem block_begin_due_witness:
  "\<exists>s'. mastercore_handler_block_begin sample_node_env 1999999 sample_block sample_crowd_node = Some s' \<and> my_crowds sample_crowd_node \<noteq> [] \<and> my_crowds s' = []
     \<and> sample_activation \<in> set (vecCompletedActivations s') \<and> sample_activation \<notin> set (vecPendingActivations s')"
proof -
  have crowds: "my_crowds sample_crowds = [(''alice'', sample_crowd)]" by (simp add: sample_crowds_def fee_state.defs crowd_state.defs)
  have gone: "expired (bi_time sample_block) (''alice'', sample_crowd)" by (simp add: expired_def sample_block_def sample_crowd_def new_crowd_def)
  have due: "fa_activationBlock sample_activation \<le> bi_height sample_block" by (simp add: sample_activation_def sample_block_def)
  have mode: "reorgRecoveryMode sample_crowd_node \<le> 0" by (simp add: sample_crowd_node_fields)
  from block_begin_due [OF sample_crowd_node_ok mode, of sample_node_env 1999999 sample_block] obtain s' where
    s': "mastercore_handler_block_begin sample_node_env 1999999 sample_block sample_crowd_node = Some s'"
      "my_crowds s' = filter (\<lambda>e. \<not> expired (bi_time sample_block) e) (my_crowds sample_crowd_node)"
      "\<forall>act \<in> set (vecPendingActivations sample_crowd_node). fa_activationBlock act \<le> bi_height sample_block \<longrightarrow>
         act \<in> set (vecCompletedActivations s') \<and> act \<notin> set (vecPendingActivations s')" by blast
  then show ?thesis using crowds gone due by (intro exI [of _ s']) (simp add: sample_crowd_node_fields)
qed

end
