(* ===== verification/ConsensusHash.thy ===== *)
theory ConsensusHash
  imports Handlers "HOL-Library.Multiset"
begin

text \<open>
  Consensus hashes and amounts as text, \<^verbatim>\<open>src/src/tokencore/consensushash.cpp\<close> and \<^verbatim>\<open>parse_string.cpp\<close>: the text over which two nodes compare their states, and the reading of
  amounts that users type.

  SHA-256 is an argument. The text of the hash is built in the order the code hashes it. The lemmas show that the hash does not depend on the order in which the unordered map of balances
  is visited nor on empty records, and that a printed amount is read back.
\<close>

subsection \<open>Amounts as text\<close>

text \<open>\<^verbatim>\<open>find\<close> of one character, with the end of the text for \<^verbatim>\<open>npos\<close>.\<close>

definition before_char :: "char \<Rightarrow> string \<Rightarrow> string" where
  "before_char c t = takeWhile (\<lambda>x. x \<noteq> c) t"

definition StrToInt64 :: "string \<Rightarrow> bool \<Rightarrow> int" where
  "StrToInt64 str divisible =
     (let read = (\<lambda>t. case lexical_cast_int 64 t of Some nAmount \<Rightarrow> nAmount | None \<Rightarrow> 0)
      in if CHR ''-'' \<in> set str then 0
         else if divisible then
           (let pos = length (before_char CHR ''.'' str)
            in if CHR ''.'' \<notin> set str then read (str @ ''00000000'')
               else if CHR ''.'' \<in> set (drop (pos + 1) str) then 0
               else
                 let strAmount = (if length str - pos < 9 then str @ replicate (8 - length (drop (pos + 1) str)) (CHR ''0'') else take (pos + 9) str)
                 in read (filter (\<lambda>x. x \<noteq> CHR ''.'') strAmount))
         else read (before_char CHR ''.'' str))"

subsection \<open>Texts of the state\<close>

definition ShouldConsensusHashBlock :: "bool \<Rightarrow> string list \<Rightarrow> int \<Rightarrow> bool" where
  "ShouldConsensusHashBlock every_block vecBlocks block \<longleftrightarrow> every_block
     \<or> list_ex (\<lambda>it. let paramBlock = StrToInt64 it False in \<not> paramBlock < 1 \<and> paramBlock = block) vecBlocks"

definition consensus_tally :: "CMPTally \<Rightarrow> string \<Rightarrow> property_id \<Rightarrow> string" where
  "consensus_tally tallyObj address propertyId =
     (let balance = getMoney tallyObj propertyId BALANCE;
          sellOfferReserve = getMoney tallyObj propertyId SELLOFFER_RESERVE;
          acceptReserve = getMoney tallyObj propertyId ACCEPT_RESERVE;
          metaDExReserve = getMoney tallyObj propertyId METADEX_RESERVE
      in if balance = 0 \<and> sellOfferReserve = 0 \<and> acceptReserve = 0 \<and> metaDExReserve = 0 then []
         else join CHR ''|'' [address, show_nat propertyId, show_int balance, show_int sellOfferReserve, show_int acceptReserve, show_int metaDExReserve])"

definition consensus_offer :: "CMPOffer \<Rightarrow> string \<Rightarrow> string" where
  "consensus_offer o' address = join CHR ''|'' [GetHex (offer_txid o'), address, show_nat (offer_property o'), show_int (offer_amount_original o'),
     show_int (offer_RPD_desired o'), show_int (offer_min_fee o'), show_nat (offer_blocktimelimit o')]"

definition consensus_accept :: "CMPAccept \<Rightarrow> string \<Rightarrow> string" where
  "consensus_accept a address = join CHR ''|'' [GetHex (accept_offer_txid a), address, show_int (accept_amount_original a), show_int (accept_amount_remaining a), show_int (accept_block a)]"

definition consensus_trade :: "CMPMetaDEx \<Rightarrow> string" where
  "consensus_trade m = join CHR ''|'' [GetHex (md_txid m), md_addr m, show_nat (md_property m), show_int (md_amount_forsale m), show_nat (md_desired_property m),
     show_int (md_amount_desired m), show_int (md_amount_remaining m)]"

definition consensus_crowd :: "CMPCrowd \<Rightarrow> string" where
  "consensus_crowd c = join CHR ''|'' [show_nat (crowd_propertyId c), show_nat (crowd_property_desired c), show_int (crowd_deadline c), show_int (crowd_u_created c), show_int (crowd_i_created c)]"

definition consensus_issuer :: "property_id \<Rightarrow> string \<Rightarrow> string" where
  "consensus_issuer propertyId address = join CHR ''|'' [show_nat propertyId, address]"

text \<open>The copy of the balances in a \<^verbatim>\<open>std::map\<close>.\<close>

definition tallyMapSorted :: "'s node_state_scheme \<Rightarrow> (string \<times> CMPTally) list" where
  "tallyMapSorted s = fold (\<lambda>(address, tally). smap_insert address tally) (mp_tally_map s) []"

text \<open>The seller of an offer is cut from its key, and the buyer of an accept.\<close>

definition offer_seller :: "string \<Rightarrow> string" where
  "offer_seller sellCombo = (if length sellCombo < 2 then sellCombo else take (length sellCombo - 2) sellCombo)"

definition accept_buyer :: "string \<Rightarrow> string" where
  "accept_buyer acceptCombo = (if CHR ''+'' \<in> set acceptCombo then drop (length (before_char CHR ''+'' acceptCombo) + 1) acceptCombo else acceptCombo)"

definition hash_number :: "nat \<Rightarrow> nat" where
  "hash_number txid = SetHex (GetHex txid)"

definition sorted_texts :: "('k :: linorder \<times> string) list \<Rightarrow> string" where
  "sorted_texts vec = concat (map snd (sort vec))"

definition trade_texts :: "(property_id \<Rightarrow> bool) \<Rightarrow> 's node_state_scheme \<Rightarrow> (nat \<times> string) list" where
  "trade_texts wanted s = concat (map (\<lambda>(p, prices). if wanted p then concat (map (\<lambda>(price, indexes). map (\<lambda>obj. (hash_number (md_txid obj), consensus_trade obj)) indexes) prices) else [])
     (metadex s))"

definition issuer_texts :: "property_id \<Rightarrow> property_id \<Rightarrow> CMPSPInfo \<Rightarrow> string" where
  "issuer_texts start nextId db = concat (map (\<lambda>p. case getSP p db of None \<Rightarrow> [] | Some sp \<Rightarrow> consensus_issuer p (sp_issuer sp)) [start..<nextId])"

definition balance_texts :: "(property_id \<Rightarrow> bool) \<Rightarrow> 's node_state_scheme \<Rightarrow> string" where
  "balance_texts wanted s = concat (map (\<lambda>(address, tally). concat (map (\<lambda>p. if wanted p then consensus_tally tally address p else []) (tally_ids tally))) (tallyMapSorted s))"

definition consensus_text :: "'s node_state_scheme \<Rightarrow> string" where
  "consensus_text s = balance_texts (\<lambda>_. True) s
     @ sorted_texts (map (\<lambda>(sellCombo, selloffer). (hash_number (offer_txid selloffer), consensus_offer selloffer (offer_seller sellCombo))) (my_offers s))
     @ sorted_texts (map (\<lambda>(acceptCombo, a). (GetHex (accept_offer_txid a) @ ''-'' @ accept_buyer acceptCombo, consensus_accept a (accept_buyer acceptCombo))) (my_accepts s))
     @ sorted_texts (trade_texts (\<lambda>_. True) s)
     @ sorted_texts (map (\<lambda>(_, crowd). (crowd_propertyId crowd, consensus_crowd crowd)) (my_crowds s))
     @ issuer_texts 1 (peekNextSPID 1 (pDbSpInfo s)) (pDbSpInfo s) @ issuer_texts TEST_ECO_PROPERTY_1 (peekNextSPID 2 (pDbSpInfo s)) (pDbSpInfo s)"

definition GetConsensusHash :: "(string \<Rightarrow> string) \<Rightarrow> 's node_state_scheme \<Rightarrow> nat" where
  "GetConsensusHash sha256 s = le_nat (sha256 (consensus_text s))"

definition GetMetaDExHash :: "(string \<Rightarrow> string) \<Rightarrow> property_id \<Rightarrow> 's node_state_scheme \<Rightarrow> nat" where
  "GetMetaDExHash sha256 propertyId s = le_nat (sha256 (sorted_texts (trade_texts (\<lambda>p. propertyId = 0 \<or> propertyId = p) s)))"

definition GetBalancesHash :: "(string \<Rightarrow> string) \<Rightarrow> property_id \<Rightarrow> 's node_state_scheme \<Rightarrow> nat" where
  "GetBalancesHash sha256 hashPropertyId s = le_nat (sha256 (balance_texts (\<lambda>p. p = hashPropertyId) s))"

subsection \<open>The text of the balances\<close>

lemma fold_smap_insert:
  assumes "smap_ok acc" and "umap_ok xs" and "fst ` set xs \<inter> fst ` set acc = {}"
  shows "smap_ok (fold (\<lambda>(a, t). smap_insert a t) xs acc) \<and> map_of (fold (\<lambda>(a, t). smap_insert a t) xs acc) = map_of acc ++ map_of xs"
  using assms
proof (induction xs arbitrary: acc)
  case (Cons e xs)
  obtain a t where e: "e = (a, t)" by (cases e)
  have new: "map_of acc a = None" using Cons.prems(3) e by (auto simp: map_of_eq_None_iff)
  have um: "umap_ok xs" and na: "a \<notin> fst ` set xs" using Cons.prems(2) e by (auto simp: umap_ok_def)
  have keys: "fst ` set (smap_upd a t acc) = insert a (fst ` set acc)"
    using map_of_smap_upd [of a t acc] dom_map_of_conv_image_fst [of "smap_upd a t acc"] dom_map_of_conv_image_fst [of acc] by (metis dom_fun_upd option.distinct(1))
  have "fst ` set xs \<inter> fst ` set (smap_upd a t acc) = {}" using Cons.prems(3) e na unfolding keys by auto
  from Cons.IH [OF smap_ok_upd [OF Cons.prems(1)] um this] show ?case
    using e new na by (auto simp: smap_insert_def map_of_smap_upd fun_eq_iff map_add_def map_of_eq_None_iff split: option.splits)
qed simp

lemma tallyMapSorted_ok:
  assumes "umap_ok (mp_tally_map s)"
  shows "smap_ok (tallyMapSorted s)" and "map_of (tallyMapSorted s) = map_of (mp_tally_map s)"
  using fold_smap_insert [of "[]" "mp_tally_map s"] assms by (simp_all add: tallyMapSorted_def smap_ok_def)

text \<open>The balances that count, as a function of address and property, and the properties an address holds.\<close>

definition money4 :: "'s node_state_scheme \<Rightarrow> string \<Rightarrow> property_id \<Rightarrow> int list" where
  "money4 s a p = map (GetTokenBalance s a p) [BALANCE, SELLOFFER_RESERVE, ACCEPT_RESERVE, METADEX_RESERVE]"

definition held_ids :: "'s node_state_scheme \<Rightarrow> string \<Rightarrow> property_id list" where
  "held_ids s a = sorted_list_of_set {p. money4 s a p \<noteq> [0, 0, 0, 0]}"

definition address_text :: "(property_id \<Rightarrow> bool) \<Rightarrow> 's node_state_scheme \<Rightarrow> string \<Rightarrow> string" where
  "address_text wanted s a = concat (map (\<lambda>p. if wanted p then join CHR ''|'' ([a, show_nat p] @ map show_int (money4 s a p)) else []) (held_ids s a))"

lemma concat_nonempty: "concat (map f xs) = concat (map f (filter (\<lambda>x. f x \<noteq> []) xs))"
  by (induction xs) auto

lemma concat_filter: "(\<And>x. x \<in> set xs \<Longrightarrow> \<not> P x \<Longrightarrow> f x = []) \<Longrightarrow> concat (map f xs) = concat (map f (filter P xs))"
  by (induction xs) auto

lemma sorted_list_unique: "sorted_wrt (<) (xs :: 'a :: linorder list) \<Longrightarrow> xs = sorted_list_of_set (set xs)"
  by (metis sorted_list_of_set.idem_if_sorted_distinct strict_sorted_iff)

lemma holdings_money:
  assumes "holdings_ok s" and "map_of (mp_tally_map s) a = Some t"
  shows "money4 s a p = [getMoney t p BALANCE, getMoney t p SELLOFFER_RESERVE, getMoney t p ACCEPT_RESERVE, getMoney t p METADEX_RESERVE]"
    and "held_ids s a = filter (\<lambda>p. money4 s a p \<noteq> [0, 0, 0, 0]) (tally_ids t)"
proof -
  show m: "money4 s a p = [getMoney t p BALANCE, getMoney t p SELLOFFER_RESERVE, getMoney t p ACCEPT_RESERVE, getMoney t p METADEX_RESERVE]" for p
    by (simp add: money4_def GetTokenBalance_def assms(2))
  have t: "tally_ok t" "0 \<notin> fst ` set (mp_token t)" using assms map_of_SomeD [OF assms(2)] by (auto simp: holdings_ok_def tallies_ok_def)
  note ids = tally_ids_keys [OF t]
  have keys: "p \<in> set (map fst (mp_token t))" if "money4 s a p \<noteq> [0, 0, 0, 0]" for p
  proof (rule ccontr)
    assume "p \<notin> set (map fst (mp_token t))"
    then have "map_of (mp_token t) p = None" by (simp add: map_of_eq_None_iff)
    then show False using that by (simp add: m getMoney_def)
  qed
  have "sorted_wrt (<) (tally_ids t)" using t(1) unfolding ids by (simp add: tally_ok_def smap_ok_def)
  then have "filter (\<lambda>p. money4 s a p \<noteq> [0, 0, 0, 0]) (tally_ids t) = sorted_list_of_set (set (filter (\<lambda>p. money4 s a p \<noteq> [0, 0, 0, 0]) (tally_ids t)))"
    by (intro sorted_list_unique sorted_wrt_filter)
  moreover have "set (filter (\<lambda>p. money4 s a p \<noteq> [0, 0, 0, 0]) (tally_ids t)) = {p. money4 s a p \<noteq> [0, 0, 0, 0]}" using keys unfolding ids by auto
  ultimately show "held_ids s a = filter (\<lambda>p. money4 s a p \<noteq> [0, 0, 0, 0]) (tally_ids t)" by (simp add: held_ids_def)
qed

lemma tally_text:
  assumes "holdings_ok s" and "map_of (mp_tally_map s) a = Some t"
  shows "concat (map (\<lambda>p. if wanted p then consensus_tally t a p else []) (tally_ids t)) = address_text wanted s a"
proof -
  note m = holdings_money [OF assms]
  have "concat (map (\<lambda>p. if wanted p then consensus_tally t a p else []) (tally_ids t))
      = concat (map (\<lambda>p. if wanted p then consensus_tally t a p else []) (filter (\<lambda>p. money4 s a p \<noteq> [0, 0, 0, 0]) (tally_ids t)))"
    by (rule concat_filter) (simp add: m(1) consensus_tally_def)
  also have "\<dots> = address_text wanted s a"
    unfolding address_text_def m(2) by (intro arg_cong [where f = concat] map_cong refl) (auto simp: m(1) consensus_tally_def)
  finally show ?thesis .
qed

lemma no_tally_text: "map_of (mp_tally_map s) a = None \<Longrightarrow> address_text wanted s a = []"
  by (simp add: address_text_def held_ids_def money4_def GetTokenBalance_def)

lemma balance_texts_canonical:
  assumes "holdings_ok s"
  shows "balance_texts wanted s = concat (map (address_text wanted s) (sorted_list_of_set {a. address_text wanted s a \<noteq> []}))"
proof -
  have um: "umap_ok (mp_tally_map s)" using assms by (simp add: holdings_ok_def tallies_ok_def)
  note srt = tallyMapSorted_ok [OF um]
  have entry: "map_of (mp_tally_map s) a = Some t" if "(a, t) \<in> set (tallyMapSorted s)" for a t
    using smap.member_lookup [OF srt(1)] that srt(2) by auto
  have "balance_texts wanted s = concat (map (address_text wanted s) (map fst (tallyMapSorted s)))"
    unfolding balance_texts_def map_map by (intro arg_cong [where f = concat] map_cong refl) (auto simp: tally_text [OF assms entry])
  also have "\<dots> = concat (map (address_text wanted s) (filter (\<lambda>a. address_text wanted s a \<noteq> []) (map fst (tallyMapSorted s))))" by (rule concat_nonempty)
  also have "filter (\<lambda>a. address_text wanted s a \<noteq> []) (map fst (tallyMapSorted s)) = sorted_list_of_set (set (filter (\<lambda>a. address_text wanted s a \<noteq> []) (map fst (tallyMapSorted s))))"
    using srt(1) by (intro sorted_list_unique sorted_wrt_filter) (simp add: smap_ok_def)
  also have "set (filter (\<lambda>a. address_text wanted s a \<noteq> []) (map fst (tallyMapSorted s))) = {a. address_text wanted s a \<noteq> []}"
  proof -
    have "a \<in> set (map fst (tallyMapSorted s))" if "address_text wanted s a \<noteq> []" for a
      using no_tally_text [of s a wanted] that srt(2) by (metis list.set_map map_of_eq_None_iff)
    then show ?thesis by auto
  qed
  finally show ?thesis .
qed

text \<open>Two states agree on what the hash covers: the balances and reserves, the offers, accepts, crowdsales and orders, and the issuers of all properties.\<close>

definition consensus_equal :: "'s node_state_scheme \<Rightarrow> 's node_state_scheme \<Rightarrow> bool" where
  "consensus_equal s t \<longleftrightarrow> (\<forall>a p u. counted u \<longrightarrow> GetTokenBalance t a p u = GetTokenBalance s a p u)
     \<and> my_offers t = my_offers s \<and> my_accepts t = my_accepts s \<and> my_crowds t = my_crowds s
     \<and> mset (book_orders (metadex t)) = mset (book_orders (metadex s))
     \<and> (\<forall>e. peekNextSPID e (pDbSpInfo t) = peekNextSPID e (pDbSpInfo s))
     \<and> (\<forall>p. map_option sp_issuer (getSP p (pDbSpInfo t)) = map_option sp_issuer (getSP p (pDbSpInfo s)))"

lemma balance_texts_cong:
  assumes "holdings_ok s" and "holdings_ok t" and "consensus_equal s t"
  shows "balance_texts wanted t = balance_texts wanted s"
proof -
  have m: "money4 t = money4 s" using assms(3) by (simp add: fun_eq_iff money4_def consensus_equal_def counted_def)
  have "address_text wanted t a = address_text wanted s a" for a unfolding address_text_def held_ids_def m ..
  then have "address_text wanted t = address_text wanted s" ..
  then show ?thesis by (simp only: balance_texts_canonical [OF assms(1)] balance_texts_canonical [OF assms(2)])
qed

lemma sorted_texts_mset: "mset xs = mset ys \<Longrightarrow> sorted_texts xs = sorted_texts ys"
  unfolding sorted_texts_def by (metis properties_for_sort mset_sort sorted_sort)

lemma trade_texts_all: "trade_texts (\<lambda>_. True) s = map (\<lambda>obj. (hash_number (md_txid obj), consensus_trade obj)) (book_orders (metadex s))"
  by (simp add: trade_texts_def book_orders_def orders_def map_concat case_prod_beta' comp_def)

lemma issuer_texts_cong:
  "(\<And>p. map_option sp_issuer (getSP p db') = map_option sp_issuer (getSP p db)) \<Longrightarrow> issuer_texts a b db' = issuer_texts a b db"
proof -
  assume e: "\<And>p. map_option sp_issuer (getSP p db') = map_option sp_issuer (getSP p db)"
  have "(case getSP p db' of None \<Rightarrow> [] | Some sp \<Rightarrow> consensus_issuer p (sp_issuer sp)) = (case getSP p db of None \<Rightarrow> [] | Some sp \<Rightarrow> consensus_issuer p (sp_issuer sp))" for p
    using e [of p] by (auto split: option.splits)
  then show ?thesis by (simp add: issuer_texts_def)
qed

lemma consensus_text_cong:
  assumes "holdings_ok s" and "holdings_ok t" and "consensus_equal s t"
  shows "consensus_text t = consensus_text s"
proof -
  have "sorted_texts (trade_texts (\<lambda>_. True) t) = sorted_texts (trade_texts (\<lambda>_. True) s)"
    using assms(3) by (intro sorted_texts_mset) (simp add: trade_texts_all consensus_equal_def)
  moreover have "issuer_texts a b (pDbSpInfo t) = issuer_texts a b (pDbSpInfo s)" for a b
    using assms(3) by (intro issuer_texts_cong) (simp add: consensus_equal_def)
  ultimately show ?thesis using assms(3) balance_texts_cong [OF assms] by (simp add: consensus_text_def consensus_equal_def)
qed

subsection \<open>Properties\<close>

text \<open>
  \<^bold>\<open>C9\<close>. The consensus hash compares states, not their representation: two states with the same balances and reserves, offers, accepts, crowdsales, orders and issuers have the same
  consensus hash, the same hash of the balances of every property and the same hash of the orders of all properties, in whatever order the unordered map holds the addresses, whatever empty records, pending amounts and
  empty price levels there are.
\<close>

theorem consensus_hash_determined:
  fixes s t :: node_state
  assumes "holdings_ok s" and "holdings_ok t" and "consensus_equal s t"
  shows "GetConsensusHash sha256 t = GetConsensusHash sha256 s \<and> GetBalancesHash sha256 p t = GetBalancesHash sha256 p s \<and> GetMetaDExHash sha256 0 t = GetMetaDExHash sha256 0 s"
proof -
  have "sorted_texts (trade_texts (\<lambda>_. True) t) = sorted_texts (trade_texts (\<lambda>_. True) s)"
    using assms(3) by (intro sorted_texts_mset) (simp add: trade_texts_all consensus_equal_def)
  then show ?thesis
    by (simp add: GetConsensusHash_def GetBalancesHash_def GetMetaDExHash_def consensus_text_cong [OF assms] balance_texts_cong [OF assms])
qed

lemma sample_node_holdings: "holdings_ok sample_node"
proof -
  have "tallies_ok sample_node" using sample_node_pending_ok by (simp add: pending_ok_def)
  then show ?thesis by (simp add: holdings_ok_def sample_node_fields holder_def)
qed

theorem consensus_hash_determined_witness:
  "GetConsensusHash (\<lambda>x. x) (sample_node\<lparr>mp_tally_map := [(''carol'', new_tally), (''bob'', holder 1 50), (''alice'', holder 1 100)]\<rparr>) = GetConsensusHash (\<lambda>x. x) sample_node"
proof -
  let ?t = "sample_node\<lparr>mp_tally_map := [(''carol'', new_tally), (''bob'', holder 1 50), (''alice'', holder 1 100)]\<rparr>"
  have t: "holdings_ok ?t" using sample_node_holdings by (auto simp: holdings_ok_def tallies_ok_def sample_node_fields umap_ok_def new_tally_def tally_ok_def smap_ok_def)
  have "GetTokenBalance ?t a p u = GetTokenBalance sample_node a p u" for a p u
    by (auto simp: GetTokenBalance_def sample_node_fields new_tally_def getMoney_def)
  then have "consensus_equal sample_node ?t" by (simp add: consensus_equal_def)
  from consensus_hash_determined [OF sample_node_holdings t this] show ?thesis by blast
qed

text \<open>The seller is cut from the key of an offer as if the property had one digit.\<close>

lemma offer_seller_one_digit: "offer_seller (STR_SELLOFFER_ADDR_PROP_COMBO a p) = a \<longleftrightarrow> p < 10"
proof -
  have l: "length (show_nat p) = 1 \<longleftrightarrow> p < 10" by (subst show_nat.simps) (auto simp: show_nat.simps [of "p div 10"])
  have n: "show_nat p \<noteq> []" by (subst show_nat.simps) simp
  then have "offer_seller (STR_SELLOFFER_ADDR_PROP_COMBO a p) = a @ take (length (show_nat p) - 1) (CHR ''-'' # show_nat p)"
    by (cases "show_nat p") (simp_all add: offer_seller_def STR_SELLOFFER_ADDR_PROP_COMBO_def)
  then show ?thesis using l n by (cases "show_nat p") auto
qed

lemma read_pad:
  assumes "r < 10 ^ 8"
  shows "length (show_pad8 r) = 8" and "list_all is_digit (show_pad8 r)" and "read_nat (show_nat q @ show_pad8 r) = Some (q * 10 ^ 8 + r)"
proof -
  have e: "show_pad8 r = show_pad 8 (int r)" by (simp add: show_pad8_def show_pad_def)
  have "int r < 10 ^ 8" using assms by simp
  then have p: "length (show_pad8 r) = 8" "list_all is_digit (show_pad8 r)" "read_digits (show_pad8 r) = r"
    unfolding e using show_pad_digits [of "int r" 8] by simp_all
  show "length (show_pad8 r) = 8" "list_all is_digit (show_pad8 r)" using p by simp_all
  show "read_nat (show_nat q @ show_pad8 r) = Some (q * 10 ^ 8 + r)"
    using show_nat_digits [of q] p foldl_digits [of q "show_pad8 r"] by (simp add: read_nat_def read_show_fold read_digits_def)
qed

lemma digits_plain: "list_all is_digit t \<Longrightarrow> CHR ''-'' \<notin> set t \<and> CHR ''.'' \<notin> set t \<and> CHR ''+'' \<notin> set t"
  by (auto simp: list_all_iff is_digit_def)

lemma before_char_at: "c \<notin> set t \<Longrightarrow> before_char c (t @ c # u) = t" "c \<notin> set t \<Longrightarrow> before_char c t = t"
  by (induction t) (auto simp: before_char_def)

lemma filter_absent: "c \<notin> set t \<Longrightarrow> filter (\<lambda>x. x \<noteq> c) t = t"
  by (induction t) auto

lemma cast_digits:
  assumes "list_all is_digit t" and "t \<noteq> []" and "read_nat t = Some n" and "n < 2 ^ 63"
  shows "lexical_cast_int 64 t = Some (int n)"
proof (cases t)
  case (Cons c r)
  then have "c \<noteq> CHR ''-''" "c \<noteq> CHR ''+''" using digits_plain [OF assms(1)] by auto
  then show ?thesis using assms(3,4) Cons by (simp add: lexical_cast_int_def)
qed (use assms(2) in simp)

text \<open>
  \<^bold>\<open>C38\<close>. A printed amount is read back: every amount from 0 to the largest, printed with eight decimals or as a whole number, is what \<^verbatim>\<open>StrToInt64\<close> makes of that text.
\<close>

theorem amount_read_back:
  assumes "0 \<le> n" and "n \<le> MAX_INT64"
  shows "StrToInt64 (FormatDivisibleMP n False) True = n \<and> StrToInt64 (FormatIndivisibleMP n) False = n"
proof -
  define q r where "q = nat (n div COIN)" and "r = nat (n mod COIN)"
  have i: "int q = n div COIN" "int r = n mod COIN" using assms(1) by (simp_all add: q_def r_def)
  have "int (q * 10 ^ 8 + r) = n" using i by simp
  then have "q * 10 ^ 8 + r = nat n" by (metis nat_int)
  moreover have "int r < 10 ^ 8" unfolding i(2) by simp
  then have "r < 10 ^ 8" by simp
  ultimately have qr: "n div COIN = int q" "n - n div COIN * COIN = int r" "r < 10 ^ 8" "q * 10 ^ 8 + r = nat n"
    using i by (simp_all only: minus_div_mult_eq_mod)
  have abs: "(if n > 0 then n else s64 (- n)) = n" using assms(1) by (simp add: s64_def)
  have "sdiv64 n COIN = n div COIN" using assms by (cases "n = 0") (simp_all add: sdiv64_def)
  then have fmt: "FormatDivisibleMP n False = show_nat q @ CHR ''.'' # show_pad8 r" unfolding FormatDivisibleMP_def abs Let_def by (simp add: qr(2)) (simp add: qr(1))
  note pad = read_pad [OF qr(3)]
  have dq: "list_all is_digit (show_nat q)" "show_nat q \<noteq> []" using show_nat_digits [of q] by simp_all
  note plain_q = digits_plain [OF dq(1)] and plain_r = digits_plain [OF pad(2)]
  have before: "before_char CHR ''.'' (show_nat q @ CHR ''.'' # show_pad8 r) = show_nat q" using plain_q by (simp add: before_char_at)
  have whole: "filter (\<lambda>x. x \<noteq> CHR ''.'') (show_nat q @ CHR ''.'' # show_pad8 r) = show_nat q @ show_pad8 r"
    using plain_q plain_r by (simp add: filter_absent)
  have cast: "lexical_cast_int 64 (show_nat q @ show_pad8 r) = Some n"
    using cast_digits [of "show_nat q @ show_pad8 r" "nat n"] dq pad(2,3) qr(4) assms by (simp add: nat_less_iff)
  have "StrToInt64 (FormatDivisibleMP n False) True = n"
    unfolding fmt StrToInt64_def Let_def before using plain_q plain_r pad(1) whole cast by simp
  moreover have i: "show_int n = show_nat (nat n)" using assms(1) show_int_of_nat [of "nat n"] by simp
  have "before_char CHR ''.'' (show_nat (nat n)) = show_nat (nat n)"
    using digits_plain [of "show_nat (nat n)"] show_nat_digits [of "nat n"] by (simp add: before_char_at)
  then have "StrToInt64 (FormatIndivisibleMP n) False = n"
    using digits_plain [of "show_nat (nat n)"] show_nat_digits [of "nat n"] cast_digits [of "show_nat (nat n)" "nat n"] assms
    by (simp add: FormatIndivisibleMP_def i StrToInt64_def nat_less_iff)
  ultimately show ?thesis by simp
qed

theorem amount_read_back_witness: "StrToInt64 (FormatDivisibleMP 250000001 False) True = 250000001"
  using amount_read_back [of 250000001] by simp

subsection \<open>States that were written\<close>

lemma book_orders_compact: "book_orders (compact_book M) = book_orders M"
proof -
  have "orders (compact_prices prices) = orders prices" for prices
    by (induction prices) (auto simp: compact_prices_def)
  then have "book_orders (map (\<lambda>(p, prices). (p, compact_prices prices)) M) = book_orders M" by (induction M) auto
  moreover have "book_orders (filter (\<lambda>(p, prices). prices \<noteq> []) N) = book_orders N" for N by (induction N) auto
  ultimately show ?thesis by (simp add: compact_book_def)
qed

lemma persistable_holdings: "persistable s \<Longrightarrow> holdings_ok s"
  by (fastforce simp: persistable_def tally_fits_def holdings_ok_def tallies_ok_def)

lemma same_saved_consensus:
  assumes "same_saved s t" and "\<And>p. map_option sp_issuer (getSP p (pDbSpInfo t)) = map_option sp_issuer (getSP p (pDbSpInfo s))"
  shows "consensus_equal s t"
  using assms by (simp add: same_saved_def consensus_equal_def peekNextSPID_def book_orders_compact)

end
