(* ===== verification/Spec2Isabelle.thy ===== *)
theory Spec2Isabelle
  imports Limbs Merkle ConsensusHash
begin

text \<open>
  \<^bold>\<open>Rapids: the token layer\<close>

  Rapids is a node of a block chain derived from PIVX, with a token layer derived from Omni in
  \<^verbatim>\<open>src/src/tokencore\<close>. The base layer connects blocks; for every transaction of a block the token layer extracts a packet from
  the outputs, parses it, applies its effect to the state of tokens, and at the end of the block runs the
  time-driven steps (expired crowdsales and accepts, activation of features). Every node must compute the same
  state, and a failed assertion or an uncaught exception stops the node, so the development is about two things: the results of
  these calculations, for all inputs, and the inputs on which the calculation does not return.

  \<^bold>\<open>Conventions.\<close> An operation is a function on an explicit state. Amounts are integers, and every place where the code may leave the range of
  \<^verbatim>\<open>int64_t\<close>, \<^verbatim>\<open>uint64_t\<close> or \<^verbatim>\<open>arith_uint256\<close> applies the reduction of that type (theory \<open>Prelude\<close>);
  bytes, limbs and byte swaps are words. Identifiers and hashes are natural numbers. The result \<open>None\<close> means that the process
  stops: an assertion fails, an exception leaves the token layer, memory outside an object is read, or a loop does not return; theorems that claim success
  state a result \<open>Some\<close>. No definition uses fuel, except where a bound on the number of steps is part of the code; loops over containers are recursions
  on the lists that hold them. Associative containers are lists in the order of iteration, see theory \<open>Prelude\<close>.

  \<^bold>\<open>State.\<close> The global variables of the token layer are one record, extended from theory to theory, so that an
  operation of a lower component applies to the states of all higher ones and leaves their fields alone: \<open>ledger\<close> (theory \<open>Ledger\<close>), \<open>fee_state\<close> (\<open>Fees\<close>),
  \<open>crowd_state\<close> (\<open>Crowdsale\<close>), \<open>rules_state\<close> (\<open>Rules\<close>), \<open>dex_state\<close> (\<open>Dex\<close>), \<open>mdex_state\<close>
  (\<open>MetaDex\<close>), \<open>tx_state\<close> (\<open>TxLogic\<close>), \<open>node_state\<close> (\<open>Persistence\<close>, with the databases, the state files and the block index)
  and \<open>handler_state\<close> (\<open>Handlers\<close>).

  \<^bold>\<open>Theories and the code they model\<close> (files under \<^verbatim>\<open>src/src/tokencore\<close> unless a path is given).

  \<^item> \<open>Prelude\<close>: integer ranges, \<^verbatim>\<open>std::map\<close>, \<^verbatim>\<open>std::unordered_map\<close> (locale \<open>kv_store\<close>) and \<^verbatim>\<open>std::set\<close> with a comparator (locales \<open>cmp_set\<close>, \<open>cmp_total_set\<close>).
  \<^item> \<open>Tally\<close>: \<^verbatim>\<open>tally.cpp\<close>, the five balances of one address and property.
  \<^item> \<open>Ledger\<close>: the tally map and freezing of \<^verbatim>\<open>tokencore.cpp\<close>, with \<open>update_tally_map\<close>. The locale \<open>token_ledger\<close> is the contract of a
    transfer: a debit followed by an equal credit succeeds and keeps the supply.
  \<^item> \<open>Arith256\<close>, \<open>Limbs\<close>: \<^verbatim>\<open>uint256_extensions.h\<close> and \<^verbatim>\<open>src/src/arith_uint256.cpp\<close>; the first gives the values, the second the arrays of limbs, and
    \<open>arith_uint256_refines\<close> that they agree. \<open>Doubles\<close>: \<^verbatim>\<open>convert.cpp\<close> and the rounding of double products and quotients.
  \<^item> \<open>Sto\<close>: \<^verbatim>\<open>sto.cpp\<close>. The shares of a distribution are exact and do not depend on the order of the map.
  \<^item> \<open>SpInfo\<close>: \<^verbatim>\<open>dbspinfo.cpp\<close>, the database of properties with its rollback.
  \<^item> \<open>Fees\<close>: \<^verbatim>\<open>dbfees.cpp\<close> and \<open>getTotalTokens\<close>. Fees are conserved between ledger, cache and holders.
  \<^item> \<open>Fundraiser\<close>, \<open>Crowdsale\<close>: \<^verbatim>\<open>sp.cpp\<close>, purchase calculation, missed bonus and the closing of crowdsales.
  \<^item> \<open>Rules\<close>: \<^verbatim>\<open>rules.cpp\<close>, \<^verbatim>\<open>activation.cpp\<close>, \<^verbatim>\<open>notifications.cpp\<close>.
  \<^item> \<open>Text\<close>, \<open>Names\<close>: number formats, the regular expressions of names and the lookup of user names.
  \<^item> \<open>Dex\<close>: \<^verbatim>\<open>dex.cpp\<close>. The invariant \<open>dex_ok\<close> (reserves are backed by offers and accepts) holds along every sequence of operations (the step relation \<open>dex_step\<close>).
  \<^item> \<open>MetaDex\<close>: \<^verbatim>\<open>mdex.cpp\<close>. The invariant \<open>mdex_ok\<close> ties the reserve of every address to its open orders; matching keeps it and the totals.
  \<^item> \<open>Bytes\<close>, \<open>Payload\<close>: byte order, hexadecimal text, \<open>CMPTransaction\<close> with the parsing (\<^verbatim>\<open>tx.cpp\<close>) and construction (\<^verbatim>\<open>createpayload.cpp\<close>) of packets, and their round trip.
  \<^item> \<open>Governance\<close>: \<^verbatim>\<open>src/src/governance/governance.cpp\<close>, versioned costs and scripts (locale \<open>versioned\<close>, five interpretations).
  \<^item> \<open>TxLogic\<close>: \<open>interpretPacket\<close> and every \<^verbatim>\<open>logicMath_*\<close> function of \<^verbatim>\<open>tx.cpp\<close>. Sends keep the supply, and one send does not.
  \<^item> \<open>Script\<close>: \<^verbatim>\<open>src/src/script/script.cpp\<close>, \<^verbatim>\<open>src/src/script/standard.cpp\<close> and \<^verbatim>\<open>script.cpp\<close>: script numbers, pushes, the classification of outputs by the base layer
    (\<open>Solver\<close>) and by the token layer (\<open>SafeSolver\<close>), which agree.
  \<^item> \<open>Coins\<close>: \<^verbatim>\<open>src/src/coins.cpp\<close> and \<^verbatim>\<open>src/src/txdb.cpp\<close>: transactions, the caches of unspent outputs and the database behind them, which refine a map of coins.
  \<^item> \<open>Parser\<close>: \<open>parseTransaction\<close> of \<^verbatim>\<open>tokencore.cpp\<close> and \<^verbatim>\<open>encoding.cpp\<close>: how a payload is put into the outputs of a transaction and found there again.
  \<^item> \<open>Databases\<close>: \<^verbatim>\<open>dbtxlist.cpp\<close>, \<^verbatim>\<open>dbtradelist.cpp\<close>, \<^verbatim>\<open>dbstolist.cpp\<close>, \<^verbatim>\<open>dbtransaction.cpp\<close>: the records of transactions, payments, trades and receipts as text, what
    a reorganization deletes of them, and the queries.
  \<^item> \<open>Persistence\<close>: \<^verbatim>\<open>persistence.cpp\<close>: writing, pruning and reading the state files and the search for the newest set; a state that was written is read back. The loops that walk back
    through the chain are partial functions in the option monad.
  \<^item> \<open>Handlers\<close>: the handlers of \<^verbatim>\<open>tokencore.cpp\<close> for transactions, blocks and disconnected blocks, the scan, the rewind, startup and shutdown, \<^verbatim>\<open>pending.cpp\<close>, \<^verbatim>\<open>seedblocks.cpp\<close> and
    the loaders of \<^verbatim>\<open>dbtxlist.cpp\<close>. They compose all parts above: pending amounts are backed as long as what is pending was subtracted, what is due at a block happens, and a payment is counted twice.
  \<^item> \<open>ConsensusHash\<close>: \<^verbatim>\<open>consensushash.cpp\<close> and \<^verbatim>\<open>parse_string.cpp\<close>: the hash by which nodes compare their states depends on the state only, and amounts are read back.
  \<^item> \<open>Merkle\<close>: \<^verbatim>\<open>src/src/consensus/merkle.cpp\<close>: the constant-space computation of Merkle roots and branches is the tree built level by level, branches lead to the root, and lists with
    the same root are told apart or reported as mutated. The counter has 32 bits; up to \<open>2 ^ 31\<close> leaves it does not wrap, and beyond that the shifts of the code are undefined.
  \<^item> This theory: the hash of a state that was written and read back.

  \<^bold>\<open>Not modelled.\<close> The base layer apart from scripts, coins, big integers, Merkle trees and governance: blocks, proof of stake, validation, masternodes, budgets, sporks, zerocoin, the script interpreter
  and the network. Of the token layer, the RPC commands, the wallet and the user interface, which are input and output around the functions modelled here. The LevelDB and
  file access behind the databases (a read gives what was written) and log output. The cryptographic primitives, the codec of addresses and \<^verbatim>\<open>pow\<close> are arguments
  where a definition needs them.
\<close>

subsection \<open>Properties that span components\<close>

text \<open>
  \<^bold>\<open>C8\<close>. A restart does not change the consensus hash: when the state is written after a block of the active chain and read back later from these files and the property database the
  save left, whatever happened in memory in between, the restored state has the hash of the state that was written.
\<close>

theorem restored_consensus_hash:
  fixes s t :: node_state
  assumes "persistable s" and "mapBlockIndex s (bi_hash b) = Some b" and "chainActive s (bi_height b) = Some (bi_hash b)" and "GENESIS_BLOCK (consensusParams s) \<le> bi_height b"
    and "PersistInMemoryState sha256 b s = Some s1"
    and "stateFiles t = stateFiles s1" and "mapBlockIndex t = mapBlockIndex s1" and "chainActive t = chainActive s1"
    and "consensusParams t = consensusParams s1" and "pDbSpInfo t = pDbSpInfo s1"
  shows "\<exists>t'. LoadMostRelevantInMemoryState sha256 t = Some (bi_height b, t') \<and> GetConsensusHash hash t' = GetConsensusHash hash s"
proof -
  have mark: "getWatermark (pDbSpInfo t) = getWatermark (pDbSpInfo s1)" using assms(10) by simp
  from restore_after_persist [OF assms(1-9) mark] obtain t' where t': "LoadMostRelevantInMemoryState sha256 t = Some (bi_height b, t')" "same_saved s t'" "holdings_ok t'"
    "pDbSpInfo t' = init_spids (next_spid (pDbSpInfo s)) (next_test_spid (pDbSpInfo s)) (pDbSpInfo t)" by blast
  obtain F where "PersistInMemoryState sha256 b s = Some (s\<lparr>stateFiles := F, pDbSpInfo := setWatermark (bi_hash b) (pDbSpInfo s)\<rparr>)"
    using PersistInMemoryState_files [OF assms(1,2)] by blast
  then have "pDbSpInfo s1 = setWatermark (bi_hash b) (pDbSpInfo s)" using assms(5) by simp
  then have "map_option sp_issuer (getSP p (pDbSpInfo t')) = map_option sp_issuer (getSP p (pDbSpInfo s))" for p
    using t'(4) assms(10) by (simp add: getSP_def init_spids_def setWatermark_def)
  from same_saved_consensus [OF t'(2) this] have "consensus_text t' = consensus_text s"
    by (rule consensus_text_cong [OF persistable_holdings [OF assms(1)] t'(3)])
  then show ?thesis using t'(1) by (auto simp: GetConsensusHash_def)
qed

theorem restored_consensus_hash_witness:
  "\<exists>s1 t'. PersistInMemoryState (\<lambda>x. x) sample_block sample_node = Some s1
     \<and> LoadMostRelevantInMemoryState (\<lambda>x. x) (s1\<lparr>mp_tally_map := [], my_offers := []\<rparr>) = Some (2000000, t')
     \<and> GetConsensusHash (\<lambda>x. x) t' = GetConsensusHash (\<lambda>x. x) sample_node"
proof -
  have index: "mapBlockIndex sample_node (bi_hash sample_block) = Some sample_block" "chainActive sample_node (bi_height sample_block) = Some (bi_hash sample_block)"
    "GENESIS_BLOCK (consensusParams sample_node) \<le> bi_height sample_block" by (simp_all add: sample_node_fields CMainConsensusParams_def) (simp_all add: sample_block_def sample_node_fields)
  from PersistInMemoryState_files [OF sample_node_persistable index(1), of "\<lambda>x. x"] obtain s1 where
    s1: "PersistInMemoryState (\<lambda>x. x) sample_block sample_node = Some s1" by blast
  from restored_consensus_hash [OF sample_node_persistable index s1, of "s1\<lparr>mp_tally_map := [], my_offers := []\<rparr>" "\<lambda>x. x"] show ?thesis
    using s1 by (auto simp: sample_block_def)
qed

end
